(* ===== verification/JsBase.thy ===== *)
theory JsBase
  imports Main "HOL-Library.AList"
begin

text \<open>
  Prelude: the part of the JavaScript language and of its standard library that the client's
  code (\<^verbatim>\<open>web/src\<close>) uses, and the lemmas about it that the component theories share.

  Strings are HOL strings, one \<open>char\<close> for one UTF-16 code unit, so the model covers exactly
  the strings whose code units are below 256 (ASCII and Latin-1). In that fragment a code unit
  is a code point, so the spread \<open>[...s]\<close> and indexing agree, and the character classes below
  are the exact restriction of the Unicode classes the regular expressions name.
\<close>

named_theorems js_simps \<open>unfolding rules for the JavaScript string and array operations\<close>
named_theorems js_len \<open>length and membership facts\<close>

section \<open>Characters\<close>

definition code_unit :: "char \<Rightarrow> nat" where
  "code_unit c = of_char c"

lemma code_unit_less [js_len]: "code_unit c < 256"
  by (simp add: code_unit_def)

lemma code_unit_inj: "code_unit c = code_unit d \<Longrightarrow> c = d"
  unfolding code_unit_def using inj_of_char [where 'a = nat] by (rule injD)

definition unit_char :: "nat \<Rightarrow> char" where
  "unit_char n = char_of n"

text \<open>The class \<open>\s\<close>, which is also the set of characters \<open>trim\<close> removes.\<close>

definition is_ws :: "char \<Rightarrow> bool" where
  "is_ws c \<longleftrightarrow> code_unit c \<in> {9, 10, 11, 12, 13, 32, 160}"

definition is_digit :: "char \<Rightarrow> bool" where
  "is_digit c \<longleftrightarrow> 48 \<le> code_unit c \<and> code_unit c \<le> 57"

definition is_upper_ascii :: "char \<Rightarrow> bool" where
  "is_upper_ascii c \<longleftrightarrow> 65 \<le> code_unit c \<and> code_unit c \<le> 90"

definition is_lower_ascii :: "char \<Rightarrow> bool" where
  "is_lower_ascii c \<longleftrightarrow> 97 \<le> code_unit c \<and> code_unit c \<le> 122"

text \<open>The class \<open>[A-Za-z0-9]\<close>, and the class \<open>\w\<close>.\<close>

definition is_alnum_ascii :: "char \<Rightarrow> bool" where
  "is_alnum_ascii c \<longleftrightarrow> is_upper_ascii c \<or> is_lower_ascii c \<or> is_digit c"

definition is_word_char :: "char \<Rightarrow> bool" where
  "is_word_char c \<longleftrightarrow> is_alnum_ascii c \<or> c = CHR ''_''"

text \<open>What \<open>.\<close> of a regular expression does not match.\<close>

definition is_line_end :: "char \<Rightarrow> bool" where
  "is_line_end c \<longleftrightarrow> code_unit c \<in> {10, 13}"

text \<open>
  \<open>toLowerCase\<close> on Latin-1: \<open>A..Z\<close>, and \<open>U+00C0..U+00DE\<close> without the multiplication
  sign.
\<close>

definition lower_char :: "char \<Rightarrow> char" where
  "lower_char c =
     (let n = code_unit c in
      if (65 \<le> n \<and> n \<le> 90) \<or> (192 \<le> n \<and> n \<le> 222 \<and> n \<noteq> 215) then unit_char (n + 32) else c)"

definition toLowerCase :: "string \<Rightarrow> string" where
  "toLowerCase s = map lower_char s"

text \<open>
  \<open>toUpperCase\<close> on Latin-1. The sharp s becomes two characters. The micro sign and the y with
  diaeresis have their capitals outside Latin-1 and are left as they are here; the code only
  upper-cases MIME subtypes, which are ASCII.
\<close>

definition upper_char :: "char \<Rightarrow> string" where
  "upper_char c =
     (let n = code_unit c in
      if (97 \<le> n \<and> n \<le> 122) \<or> (224 \<le> n \<and> n \<le> 254 \<and> n \<noteq> 247) then [unit_char (n - 32)]
      else if n = 223 then ''SS'' else [c])"

definition toUpperCase :: "string \<Rightarrow> string" where
  "toUpperCase s = concat (map upper_char s)"

lemma length_toLowerCase [simp]: "length (toLowerCase s) = length s"
  by (simp add: toLowerCase_def)

lemma toLowerCase_append: "toLowerCase (s @ t) = toLowerCase s @ toLowerCase t"
  by (simp add: toLowerCase_def)

lemma code_unit_unit_char [simp]: "n < 256 \<Longrightarrow> code_unit (unit_char n) = n"
  by (simp add: code_unit_def unit_char_def)

lemma unit_char_code_unit [simp]: "unit_char (code_unit c) = c"
  by (simp add: code_unit_def unit_char_def)

lemma code_unit_lower_char:
  "code_unit (lower_char c) =
     (if (65 \<le> code_unit c \<and> code_unit c \<le> 90)
         \<or> (192 \<le> code_unit c \<and> code_unit c \<le> 222 \<and> code_unit c \<noteq> 215)
      then code_unit c + 32 else code_unit c)"
  by (auto simp: lower_char_def Let_def)

lemma lower_char_idem [simp]: "lower_char (lower_char c) = lower_char c"
  by (rule code_unit_inj) (auto simp: code_unit_lower_char)

lemma toLowerCase_idem [simp]: "toLowerCase (toLowerCase s) = toLowerCase s"
  by (simp add: toLowerCase_def)

section \<open>Strings\<close>

fun startsWith :: "string \<Rightarrow> string \<Rightarrow> bool" where
  "startsWith s [] = True"
| "startsWith [] (p # ps) = False"
| "startsWith (c # s) (p # ps) = (c = p \<and> startsWith s ps)"

lemma startsWith_iff: "startsWith s p \<longleftrightarrow> (\<exists>r. s = p @ r)"
  by (induction s p rule: startsWith.induct) auto

lemma startsWith_append [simp]: "startsWith (p @ r) p"
  by (auto simp: startsWith_iff)

lemma startsWith_drop: "startsWith s p \<Longrightarrow> s = p @ drop (length p) s"
  by (auto simp: startsWith_iff)

definition endsWith :: "string \<Rightarrow> string \<Rightarrow> bool" where
  "endsWith s p = startsWith (rev s) (rev p)"

fun includes_str :: "string \<Rightarrow> string \<Rightarrow> bool" where
  "includes_str [] p = (p = [])"
| "includes_str (c # s) p = (startsWith (c # s) p \<or> includes_str s p)"

text \<open>\<open>trim\<close> and its halves.\<close>

definition trimStart :: "string \<Rightarrow> string" where
  "trimStart s = dropWhile is_ws s"

definition trimEnd :: "string \<Rightarrow> string" where
  "trimEnd s = rev (dropWhile is_ws (rev s))"

definition trim :: "string \<Rightarrow> string" where
  "trim s = trimEnd (trimStart s)"

lemma set_trim: "set (trim s) \<subseteq> set s"
proof -
  have "set (trim s) \<subseteq> set (dropWhile is_ws s)"
    unfolding trim_def trimEnd_def trimStart_def by (auto dest: set_dropWhileD)
  then show ?thesis by (auto dest: set_dropWhileD)
qed

lemma trimStart_blank: "\<forall>c \<in> set s. is_ws c \<Longrightarrow> trimStart s = []"
  by (simp add: trimStart_def)

lemma trim_blank_iff: "trim s = [] \<longleftrightarrow> (\<forall>c \<in> set s. is_ws c)"
proof
  assume "trim s = []"
  then have "\<forall>c \<in> set (dropWhile is_ws s). is_ws c"
    by (simp add: trim_def trimEnd_def trimStart_def dropWhile_eq_Nil_conv)
  then have "dropWhile is_ws s = []"
    by (metis hd_dropWhile list.set_sel(1))
  then show "\<forall>c \<in> set s. is_ws c" by (simp add: dropWhile_eq_Nil_conv)
next
  assume "\<forall>c \<in> set s. is_ws c"
  then show "trim s = []" by (simp add: trim_def trimStart_blank trimEnd_def)
qed

subsection \<open>split and join\<close>

text \<open>\<open>s.split(c)\<close> for a separator of one character: never the empty array.\<close>

fun split_char :: "char \<Rightarrow> string \<Rightarrow> string list" where
  "split_char c [] = [[]]"
| "split_char c (x # xs) =
     (if x = c then [] # split_char c xs
      else case split_char c xs of [] \<Rightarrow> [[x]] | l # ls \<Rightarrow> (x # l) # ls)"

fun join :: "string \<Rightarrow> string list \<Rightarrow> string" where
  "join sep [] = []"
| "join sep [x] = x"
| "join sep (x # y # ys) = x @ sep @ join sep (y # ys)"

lemma split_char_ne [simp]: "split_char c s \<noteq> []"
  by (cases s) (auto split: list.splits)

lemma split_char_pos [simp]: "0 < length (split_char c s)"
  by (simp add: length_greater_0_conv)

lemma join_Cons: "ls \<noteq> [] \<Longrightarrow> join sep (l # ls) = l @ sep @ join sep ls"
  by (cases ls) auto

lemma join_cons_hd: "join sep ((x # l) # ls) = x # join sep (l # ls)"
  by (cases ls) auto

lemma join_split_char [simp]: "join [c] (split_char c s) = s"
proof (induction s)
  case Nil
  then show ?case by simp
next
  case (Cons x xs)
  obtain l ls where sp: "split_char c xs = l # ls"
    using split_char_ne [of c xs] by (cases "split_char c xs") auto
  with Cons have "join [c] (l # ls) = xs" by simp
  with sp show ?case by (auto simp: join_Cons join_cons_hd)
qed

lemma split_char_no_sep: "l \<in> set (split_char c s) \<Longrightarrow> c \<notin> set l"
proof (induction s arbitrary: l)
  case Nil
  then show ?case by simp
next
  case (Cons x xs)
  then show ?case by (cases "split_char c xs") (auto split: if_splits)
qed

lemma split_char_plain: "c \<notin> set s \<Longrightarrow> split_char c s = [s]"
  by (induction s) auto

lemma split_char_append_sep:
  "c \<notin> set l \<Longrightarrow> split_char c (l @ c # s) = l # split_char c s"
  by (induction l) auto

lemma split_join_char:
  assumes "ls \<noteq> []" and "\<forall>l \<in> set ls. c \<notin> set l"
  shows "split_char c (join [c] ls) = ls"
  using assms
proof (induction "[c]" ls rule: join.induct)
  case 1
  then show ?case by simp
next
  case (2 x)
  then show ?case by (simp add: split_char_plain)
next
  case (3 x y ys)
  then show ?case by (simp add: split_char_append_sep)
qed

text \<open>\<open>s.split(sep)\<close> for a separator of several characters, left to right.\<close>

function split_str :: "string \<Rightarrow> string \<Rightarrow> string list" where
  "split_str sep [] = [[]]"
| "split_str sep (x # xs) =
     (if sep \<noteq> [] \<and> startsWith (x # xs) sep
      then [] # split_str sep (drop (length sep) (x # xs))
      else case split_str sep xs of [] \<Rightarrow> [[x]] | l # ls \<Rightarrow> (x # l) # ls)"
  by pat_completeness auto
termination
  by (relation "measure (\<lambda>(sep, s). length s)") (auto simp: neq_Nil_conv)

lemma split_str_ne [simp]: "split_str sep s \<noteq> []"
  by (cases s) (auto split: list.splits)

lemma join_split_str: "sep \<noteq> [] \<Longrightarrow> join sep (split_str sep s) = s"
proof (induction sep s rule: split_str.induct)
  case (1 sep)
  then show ?case by simp
next
  case (2 sep x xs)
  show ?case
  proof (cases "startsWith (x # xs) sep")
    case True
    with 2 have "join sep (split_str sep (drop (length sep) (x # xs))) = drop (length sep) (x # xs)"
      by simp
    moreover from True have "x # xs = sep @ drop (length sep) (x # xs)" by (rule startsWith_drop)
    ultimately show ?thesis using True 2(3) by (simp add: join_Cons)
  next
    case False
    obtain l ls where sp: "split_str sep xs = l # ls"
      using split_str_ne [of sep xs] by (cases "split_str sep xs") auto
    from 2 False have "join sep (split_str sep xs) = xs" by simp
    with sp False show ?thesis by (simp add: join_cons_hd)
  qed
qed

subsection \<open>Numbers as text\<close>

definition digit_char :: "nat \<Rightarrow> char" where
  "digit_char d = unit_char (48 + d mod 10)"

definition digit_val :: "char \<Rightarrow> nat" where
  "digit_val c = code_unit c - 48"

text \<open>\<open>String(n)\<close> for a non-negative integer.\<close>

fun show_nat :: "nat \<Rightarrow> string" where
  "show_nat n = (if n < 10 then [digit_char n] else show_nat (n div 10) @ [digit_char n])"

declare show_nat.simps [simp del]

text \<open>\<open>parseInt\<close> of a run of decimal digits.\<close>

definition parse_digits :: "string \<Rightarrow> nat" where
  "parse_digits ds = foldl (\<lambda>acc d. acc * 10 + digit_val d) 0 ds"

lemma digit_val_char [simp]: "digit_val (digit_char d) = d mod 10"
  by (simp add: digit_val_def digit_char_def)

lemma is_digit_digit_char [simp]: "is_digit (digit_char d)"
  by (simp add: is_digit_def digit_char_def)

lemma parse_show_nat [simp]: "parse_digits (show_nat n) = n"
proof (induction n rule: show_nat.induct)
  case (1 n)
  show ?case
  proof (cases "n < 10")
    case True
    then show ?thesis by (simp add: show_nat.simps [of n] parse_digits_def)
  next
    case False
    with 1 have "parse_digits (show_nat (n div 10)) = n div 10" by simp
    with False show ?thesis by (simp add: show_nat.simps [of n] parse_digits_def)
  qed
qed

lemma show_nat_digits: "c \<in> set (show_nat n) \<Longrightarrow> is_digit c"
proof (induction n rule: show_nat.induct)
  case (1 n)
  then show ?case by (cases "n < 10") (auto simp: show_nat.simps [of n])
qed

lemma show_nat_ne [simp]: "show_nat n \<noteq> []"
  by (subst show_nat.simps) simp

text \<open>\<open>String(n)\<close> for any integer.\<close>

definition show_int :: "int \<Rightarrow> string" where
  "show_int i = (if i < 0 then ''-'' @ show_nat (nat (- i)) else show_nat (nat i))"

definition pad_start :: "nat \<Rightarrow> char \<Rightarrow> string \<Rightarrow> string" where
  "pad_start w c s = replicate (w - length s) c @ s"

lemma length_pad_start: "length (pad_start w c s) = max w (length s)"
  by (simp add: pad_start_def)

section \<open>Arrays, sets and maps\<close>

text \<open>\<open>Array.from(new Set(xs))\<close>: the first occurrence of each element, in order.\<close>

fun uniq_acc :: "'a list \<Rightarrow> 'a list \<Rightarrow> 'a list" where
  "uniq_acc seen [] = []"
| "uniq_acc seen (x # xs) =
     (if x \<in> set seen then uniq_acc seen xs else x # uniq_acc (x # seen) xs)"

definition js_uniq :: "'a list \<Rightarrow> 'a list" where
  "js_uniq xs = uniq_acc [] xs"

lemma set_uniq_acc: "set (uniq_acc seen xs) = set xs - set seen"
  by (induction seen xs rule: uniq_acc.induct) auto

lemma distinct_uniq_acc: "distinct (uniq_acc seen xs)"
  by (induction seen xs rule: uniq_acc.induct) (auto simp: set_uniq_acc)

lemma set_js_uniq [simp]: "set (js_uniq xs) = set xs"
  by (simp add: js_uniq_def set_uniq_acc)

lemma distinct_js_uniq [simp]: "distinct (js_uniq xs)"
  by (simp add: js_uniq_def distinct_uniq_acc)

lemma uniq_acc_distinct: "distinct xs \<Longrightarrow> set xs \<inter> set seen = {} \<Longrightarrow> uniq_acc seen xs = xs"
  by (induction seen xs rule: uniq_acc.induct) auto

lemma js_uniq_distinct: "distinct xs \<Longrightarrow> js_uniq xs = xs"
  by (simp add: js_uniq_def uniq_acc_distinct)

lemma set_map_filter: "y \<in> set (List.map_filter f xs) \<longleftrightarrow> (\<exists>x \<in> set xs. f x = Some y)"
  by (induction xs) (auto simp: List.map_filter_def)

text \<open>The elements whose key was not seen before, as a filter with a \<open>Set\<close> of seen keys keeps them.\<close>

fun uniq_by :: "('a \<Rightarrow> 'k) \<Rightarrow> 'k list \<Rightarrow> 'a list \<Rightarrow> 'a list" where
  "uniq_by key seen [] = []"
| "uniq_by key seen (x # xs) =
     (if key x \<in> set seen then uniq_by key seen xs else x # uniq_by key (key x # seen) xs)"

lemma map_uniq_by: "map key (uniq_by key seen xs) = uniq_acc seen (map key xs)"
  by (induction key seen xs rule: uniq_by.induct) auto

lemma set_uniq_by: "set (uniq_by key seen xs) \<subseteq> set xs"
  by (induction key seen xs rule: uniq_by.induct) auto

lemma uniq_by_covers:
  assumes "x \<in> set xs" and "key x \<notin> set seen"
  shows "\<exists>y \<in> set (uniq_by key seen xs). key y = key x"
proof -
  have "key x \<in> set (map key (uniq_by key seen xs))"
    unfolding map_uniq_by set_uniq_acc using assms by auto
  then show ?thesis by auto
qed

text \<open>\<open>findIndex\<close>: the first position, or none.\<close>

fun find_index :: "('a \<Rightarrow> bool) \<Rightarrow> 'a list \<Rightarrow> nat option" where
  "find_index p [] = None"
| "find_index p (x # xs) = (if p x then Some 0 else map_option Suc (find_index p xs))"

lemma find_index_None: "find_index p xs = None \<longleftrightarrow> (\<forall>x \<in> set xs. \<not> p x)"
  by (induction xs) auto

lemma find_index_Some:
  "find_index p xs = Some i \<Longrightarrow> i < length xs \<and> p (xs ! i) \<and> (\<forall>j < i. \<not> p (xs ! j))"
proof (induction xs arbitrary: i)
  case Nil
  then show ?case by simp
next
  case (Cons x xs)
  then show ?case by (auto split: if_splits simp: nth_Cons split: nat.splits)
qed

text \<open>
  The interface of a JavaScript \<open>Map\<close>: \<open>get\<close>, \<open>set\<close> (which keeps the place of a key it
  already holds) and the entries in insertion order. Inside the locale, the grouping loop
  \<open>group = m.get(k) ?? []; group.push(x); m.set(k, group)\<close>, which four modules of the client
  contain, is proved once.
\<close>

locale ordered_map =
  fixes empty :: "'m"
    and get :: "'m \<Rightarrow> 'k \<Rightarrow> 'a list option"
    and put :: "'m \<Rightarrow> 'k \<Rightarrow> 'a list \<Rightarrow> 'm"
    and keys :: "'m \<Rightarrow> 'k list"
  assumes get_empty: "get empty k = None"
    and get_put: "get (put m k v) k' = (if k' = k then Some v else get m k')"
    and keys_empty: "keys empty = []"
    and keys_put: "keys (put m k v) = (if get m k = None then keys m @ [k] else keys m)"
    and get_keys: "get m k = None \<longleftrightarrow> k \<notin> set (keys m)"
begin

lemma group_get:
  "get (foldl (\<lambda>m x. case f x of None \<Rightarrow> m
                       | Some k \<Rightarrow> put m k ((case get m k of None \<Rightarrow> [] | Some g \<Rightarrow> g) @ [x])) m xs) k
   = (let new = filter (\<lambda>x. f x = Some k) xs in
      case get m k of None \<Rightarrow> (if new = [] then None else Some new) | Some g \<Rightarrow> Some (g @ new))"
proof (induction xs arbitrary: m)
  case Nil
  then show ?case by (simp split: option.split)
next
  case (Cons x xs)
  then show ?case by (auto simp: get_put Let_def split: option.splits)
qed

lemma group_keys:
  "keys (foldl (\<lambda>m x. case f x of None \<Rightarrow> m
                       | Some k \<Rightarrow> put m k ((case get m k of None \<Rightarrow> [] | Some g \<Rightarrow> g) @ [x])) m xs)
   = keys m @ uniq_acc (keys m) (List.map_filter f xs)"
proof (induction xs arbitrary: m)
  case Nil
  then show ?case by (simp add: List.map_filter_def)
next
  case (Cons x xs)
  have "uniq_acc (ks @ [k]) ys = uniq_acc (k # ks) ys" for ks ys and k :: 'k
  proof -
    have "uniq_acc s ys = uniq_acc s' ys" if "set s = set s'" for s s' :: "'k list"
      using that by (induction s ys arbitrary: s' rule: uniq_acc.induct) auto
    then show ?thesis by simp
  qed
  with Cons show ?case
    by (cases "f x") (auto simp: keys_put get_keys List.map_filter_def)
qed

end

interpretation jsmap: ordered_map "[]" map_of "\<lambda>m k v. AList.update k v m" "map fst"
  by unfold_locales
     (auto simp: update_conv' AList.update_keys map_of_eq_None_iff)

section \<open>Machines\<close>

text \<open>
  A component whose code is a function from its state and an event to its next state, and an
  invariant every event keeps. What holds after every run is proved here once.
\<close>

locale machine =
  fixes step :: "'s \<Rightarrow> 'e \<Rightarrow> 's"
    and inv :: "'s \<Rightarrow> bool"
  assumes step_inv: "inv s \<Longrightarrow> inv (step s e)"
begin

lemma run_inv: "inv s \<Longrightarrow> inv (foldl step s es)"
  by (induction es arbitrary: s) (auto intro: step_inv)

lemma run_frame:
  assumes "\<And>s e. inv s \<Longrightarrow> e \<in> E \<Longrightarrow> f (step s e) = f s" and "inv s" and "set es \<subseteq> E"
  shows "f (foldl step s es) = f s"
  using assms(2,3) by (induction es arbitrary: s) (auto simp: assms(1) step_inv)

end

end
