(* ===== verification/Proto.thy ===== *)
theory Proto
  imports JsBase Complex_Main
begin

text \<open>
  The messages of the API that the client keeps and edits
  (\<^verbatim>\<open>web/src/types/proto/api/v1/*_pb.ts\<close>), one record or datatype for each message or enum
  type, with its fields in the order of the declaration. Optional fields are options, bigints
  are integers, doubles are reals. A \<open>Timestamp\<close> is its seconds and nanoseconds. The generated
  descriptors and the wire format are not modelled.
\<close>

datatype visibility = VISIBILITY_UNSPECIFIED | PRIVATE | PROTECTED | PUBLIC

datatype memo_state = STATE_UNSPECIFIED | NORMAL | ARCHIVED

datatype motion_family = MOTION_MEDIA_FAMILY_UNSPECIFIED | APPLE_LIVE_PHOTO | ANDROID_MOTION_PHOTO

datatype motion_role = MOTION_MEDIA_ROLE_UNSPECIFIED | STILL | VIDEO | CONTAINER

datatype relation_type = TYPE_UNSPECIFIED | REFERENCE | COMMENT

datatype user_role = ROLE_UNSPECIFIED | ADMIN | USER

record timestamp =
  ts_seconds :: int
  ts_nanos :: int

record motion_media =
  mm_family :: motion_family
  mm_role :: motion_role
  mm_groupId :: string
  mm_presentationTimestampUs :: int
  mm_hasEmbeddedVideo :: bool

record attachment =
  a_name :: string
  a_createTime :: "timestamp option"
  a_filename :: string
  a_content :: "nat list"
  a_externalLink :: string
  a_type :: string
  a_size :: int
  a_memo :: "string option"
  a_motionMedia :: "motion_media option"

record location =
  loc_placeholder :: string
  loc_latitude :: real
  loc_longitude :: real

record relation_memo =
  rm_name :: string
  rm_snippet :: string

record memo_relation =
  r_memo :: "relation_memo option"
  r_relatedMemo :: "relation_memo option"
  r_type :: relation_type

record reaction =
  re_name :: string
  re_creator :: string
  re_contentId :: string
  re_reactionType :: string
  re_createTime :: "timestamp option"

record memo_property =
  mp_hasLink :: bool
  mp_hasTaskList :: bool
  mp_hasCode :: bool
  mp_hasIncompleteTasks :: bool
  mp_title :: string

record memo =
  m_name :: string
  m_state :: memo_state
  m_creator :: string
  m_createTime :: "timestamp option"
  m_updateTime :: "timestamp option"
  m_content :: string
  m_visibility :: visibility
  m_tags :: "string list"
  m_pinned :: bool
  m_attachments :: "attachment list"
  m_relations :: "memo_relation list"
  m_reactions :: "reaction list"
  m_property :: "memo_property option"
  m_parent :: "string option"
  m_snippet :: string
  m_location :: "location option"

record list_memos_response =
  lm_memos :: "memo list"
  lm_nextPageToken :: string

record user =
  u_name :: string
  u_role :: user_role
  u_username :: string
  u_email :: string
  u_displayName :: string
  u_avatarUrl :: string
  u_description :: string
  u_password :: string
  u_state :: memo_state
  u_createTime :: "timestamp option"
  u_updateTime :: "timestamp option"

record shortcut =
  sc_name :: string
  sc_title :: string
  sc_filter :: string

record user_stats =
  us_name :: string
  us_tagCount :: "(string \<times> int) list"
  us_memoCreatedTimestamps :: "timestamp list"
  us_memoUpdatedTimestamps :: "timestamp list"

text \<open>
  \<open>Partial<Memo>\<close>: each field is absent (\<open>None\<close>) or present. A field whose own type is
  optional can be present and undefined (\<open>Some None\<close>).
\<close>

record memo_patch =
  p_name :: "string option"
  p_state :: "memo_state option"
  p_creator :: "string option"
  p_createTime :: "timestamp option option"
  p_updateTime :: "timestamp option option"
  p_content :: "string option"
  p_visibility :: "visibility option"
  p_tags :: "string list option"
  p_pinned :: "bool option"
  p_attachments :: "attachment list option"
  p_relations :: "memo_relation list option"
  p_reactions :: "reaction list option"
  p_property :: "memo_property option option"
  p_parent :: "string option option"
  p_snippet :: "string option"
  p_location :: "location option option"

definition no_patch :: memo_patch where
  "no_patch = \<lparr>p_name = None, p_state = None, p_creator = None, p_createTime = None,
     p_updateTime = None, p_content = None, p_visibility = None, p_tags = None,
     p_pinned = None, p_attachments = None, p_relations = None, p_reactions = None,
     p_property = None, p_parent = None, p_snippet = None, p_location = None\<rparr>"

text \<open>A field of \<open>{ ...old, ...new }\<close>.\<close>

definition override :: "'a \<Rightarrow> 'a option \<Rightarrow> 'a" where
  "override old new = (case new of None \<Rightarrow> old | Some v \<Rightarrow> v)"

lemma override_simps [simp]: "override x None = x" "override x (Some y) = y"
  by (simp_all add: override_def)

lemma override_idem [simp]: "override (override x p) p = override x p"
  by (cases p) simp_all

text \<open>\<open>{ ...memo, ...patch }\<close>: the fields the patch has replace the memo's.\<close>

definition spread_memo :: "memo \<Rightarrow> memo_patch \<Rightarrow> memo" where
  "spread_memo m p = m\<lparr>
     m_name := override (m_name m) (p_name p),
     m_state := override (m_state m) (p_state p),
     m_creator := override (m_creator m) (p_creator p),
     m_createTime := override (m_createTime m) (p_createTime p),
     m_updateTime := override (m_updateTime m) (p_updateTime p),
     m_content := override (m_content m) (p_content p),
     m_visibility := override (m_visibility m) (p_visibility p),
     m_tags := override (m_tags m) (p_tags p),
     m_pinned := override (m_pinned m) (p_pinned p),
     m_attachments := override (m_attachments m) (p_attachments p),
     m_relations := override (m_relations m) (p_relations p),
     m_reactions := override (m_reactions m) (p_reactions p),
     m_property := override (m_property m) (p_property p),
     m_parent := override (m_parent m) (p_parent p),
     m_snippet := override (m_snippet m) (p_snippet p),
     m_location := override (m_location m) (p_location p)\<rparr>"

text \<open>
  A whole memo used as a patch. A message keeps the fields without a default as keys of its own only
  when they are set, so an unset one does not replace anything.
\<close>

definition whole_patch :: "memo \<Rightarrow> memo_patch" where
  "whole_patch m = \<lparr>p_name = Some (m_name m), p_state = Some (m_state m), p_creator = Some (m_creator m),
     p_createTime = map_option Some (m_createTime m), p_updateTime = map_option Some (m_updateTime m),
     p_content = Some (m_content m), p_visibility = Some (m_visibility m), p_tags = Some (m_tags m),
     p_pinned = Some (m_pinned m), p_attachments = Some (m_attachments m), p_relations = Some (m_relations m),
     p_reactions = Some (m_reactions m), p_property = map_option Some (m_property m),
     p_parent = map_option Some (m_parent m), p_snippet = Some (m_snippet m),
     p_location = map_option Some (m_location m)\<rparr>"

text \<open>Whether a patch sets a field that the memo has not.\<close>

definition sets_new :: "'a option \<Rightarrow> 'a option option \<Rightarrow> bool" where
  "sets_new old new = (case (old, new) of (None, Some (Some _)) \<Rightarrow> True | _ \<Rightarrow> False)"

definition adds_field :: "memo \<Rightarrow> memo_patch \<Rightarrow> bool" where
  "adds_field m u \<longleftrightarrow> sets_new (m_createTime m) (p_createTime u) \<or> sets_new (m_updateTime m) (p_updateTime u)
     \<or> sets_new (m_property m) (p_property u) \<or> sets_new (m_parent m) (p_parent u) \<or> sets_new (m_location m) (p_location u)"

lemma override_back:
  "\<not> sets_new old new \<Longrightarrow> override (override old new) (map_option Some old) = old"
  by (simp add: sets_new_def override_def split: option.splits)

lemma spread_whole_back:
  "\<not> adds_field m u \<Longrightarrow> spread_memo (spread_memo m u) (whole_patch m) = m"
  by (simp add: spread_memo_def whole_patch_def adds_field_def override_back)

lemma spread_whole_self [simp]: "spread_memo m (whole_patch m) = m"
  by (simp add: spread_memo_def whole_patch_def override_def split: option.split)

lemma spread_no_patch [simp]: "spread_memo m no_patch = m"
  by (simp add: spread_memo_def no_patch_def)

lemma spread_memo_idem [simp]: "spread_memo (spread_memo m p) p = spread_memo m p"
  by (simp add: spread_memo_def)

lemma m_name_spread: "m_name (spread_memo m p) = override (m_name m) (p_name p)"
  by (simp add: spread_memo_def)

text \<open>An attachment with the default values, as \<open>create(AttachmentSchema, \<dots>)\<close> starts from.\<close>

definition empty_attachment :: attachment where
  "empty_attachment = \<lparr>a_name = [], a_createTime = None, a_filename = [], a_content = [],
     a_externalLink = [], a_type = [], a_size = 0, a_memo = None, a_motionMedia = None\<rparr>"

definition empty_memo :: memo where
  "empty_memo = \<lparr>m_name = [], m_state = STATE_UNSPECIFIED, m_creator = [], m_createTime = None,
     m_updateTime = None, m_content = [], m_visibility = VISIBILITY_UNSPECIFIED, m_tags = [],
     m_pinned = False, m_attachments = [], m_relations = [], m_reactions = [],
     m_property = None, m_parent = None, m_snippet = [], m_location = None\<rparr>"

definition empty_user :: user where
  "empty_user = \<lparr>u_name = [], u_role = ROLE_UNSPECIFIED, u_username = [], u_email = [], u_displayName = [],
     u_avatarUrl = [], u_description = [], u_password = [], u_state = STATE_UNSPECIFIED, u_createTime = None,
     u_updateTime = None\<rparr>"

end
