(* ===== verification/Mdast.thy ===== *)
theory Mdast
  imports JsBase
begin

text \<open>
  The syntax tree the markdown utilities and the remark plugins work on (the \<open>mdast\<close> nodes of
  the third-party parser, with the fields the client reads) and the preorder traversal
  \<open>visit\<close> runs. The parser itself is not part of the repository: the definitions of the other
  theories take it as an argument \<open>parse\<close>, with \<open>None\<close> for a parser that throws.
\<close>

record position =
  pos_line :: nat
  pos_start :: "nat option"
  pos_end :: "nat option"

text \<open>
  The \<open>data\<close> a plugin sets on a node: how the node is rendered (\<open>hName\<close>, the class and one data
  attribute of \<open>hProperties\<close>, the text of \<open>hChildren\<close>) and the type it had (\<open>mdastType\<close>).
\<close>

record node_data =
  nd_hName :: "string option"
  nd_className :: "string option"
  nd_attribute :: "(string \<times> string) option"
  nd_hChildren :: "string list"
  nd_mdastType :: "string option"

definition no_data :: node_data where
  "no_data = \<lparr>nd_hName = None, nd_className = None, nd_attribute = None, nd_hChildren = [],
     nd_mdastType = None\<rparr>"

text \<open>A leaf is a node without children. \<open>checked\<close> is set on task list items only.\<close>

datatype mdast = MdNode
  (md_type: string)
  (md_value: "string option")
  (md_checked: "bool option")
  (md_depth: nat)
  (md_spread: bool)
  (md_position: "position option")
  (md_data: "node_data option")
  (md_children: "mdast list")

fun preorder :: "mdast \<Rightarrow> mdast list" where
  "preorder (MdNode ty v ch d sp p dt cs) = MdNode ty v ch d sp p dt cs # concat (map preorder cs)"

definition visit_nodes :: "string \<Rightarrow> mdast \<Rightarrow> mdast list" where
  "visit_nodes ty tree = filter (\<lambda>n. md_type n = ty) (preorder tree)"

lemma visit_nodes_type: "n \<in> set (visit_nodes ty tree) \<Longrightarrow> md_type n = ty"
  by (simp add: visit_nodes_def)

text \<open>\<open>getNodeText\<close> of \<^verbatim>\<open>utils/markdown-manipulation.ts\<close>.\<close>

fun getNodeText :: "mdast \<Rightarrow> string" where
  "getNodeText (MdNode ty v ch d sp p dt cs) =
     (case v of
        Some (c # s) \<Rightarrow> c # s
      | _ \<Rightarrow> concat (map getNodeText cs))"

text \<open>Abbreviations for the nodes that the examples of the other theories are built from.\<close>

definition text_node :: "string \<Rightarrow> mdast" where
  "text_node s = MdNode ''text'' (Some s) None 0 False None None []"

definition parent_node :: "string \<Rightarrow> mdast list \<Rightarrow> mdast" where
  "parent_node ty cs = MdNode ty None None 0 False None None cs"

definition heading_node :: "nat \<Rightarrow> string \<Rightarrow> mdast" where
  "heading_node d s = MdNode ''heading'' None None d False None None [text_node s]"

definition task_node :: "bool \<Rightarrow> nat \<Rightarrow> mdast list \<Rightarrow> mdast" where
  "task_node b ln cs =
     MdNode ''listItem'' None (Some b) 0 False
       (Some \<lparr>pos_line = ln, pos_start = None, pos_end = None\<rparr>) None cs"

lemma getNodeText_text [simp]: "getNodeText (text_node s) = s"
  by (cases s) (simp_all add: text_node_def)

lemma getNodeText_heading [simp]: "getNodeText (heading_node d s) = s"
  by (simp add: heading_node_def)

text \<open>The value of a text node, and the text a reader sees: a tag or mention node shows its sign.\<close>

definition text_value :: "mdast \<Rightarrow> string" where
  "text_value n = (case md_value n of None \<Rightarrow> [] | Some v \<Rightarrow> v)"

fun shown :: "mdast \<Rightarrow> string" where
  "shown (MdNode ty v ch d sp p dt cs) =
     (let val = (case v of None \<Rightarrow> [] | Some s \<Rightarrow> s) in
      if ty = ''text'' then val
      else if ty = ''tagNode'' then CHR ''#'' # val
      else if ty = ''mentionNode'' then CHR ''@'' # val
      else val @ concat (map shown cs))"

lemma shown_text: "md_type n = ''text'' \<Longrightarrow> shown n = text_value n"
  by (cases n) (auto simp: text_value_def split: option.splits)

lemma concat_map_concat: "concat (map f (concat xss)) = concat (map (\<lambda>xs. concat (map f xs)) xss)"
  by (induction xss) auto

end
