(* ===== verification/MarkdownTasks.thy ===== *)
theory MarkdownTasks
  imports Mdast
begin

text \<open>
  The task-list operations of \<^verbatim>\<open>utils/markdown-manipulation.ts\<close>: toggling one task,
  counting tasks and listing them. Each regular expression is written out as the function that
  matches it; the capture groups are its result. The parser is the argument \<open>parse\<close>.
\<close>

abbreviation nl :: char where
  "nl \<equiv> CHR 0x0A"

definition is_bullet :: "char \<Rightarrow> bool" where
  "is_bullet c \<longleftrightarrow> c = CHR ''-'' \<or> c = CHR ''*'' \<or> c = CHR ''+''"

definition is_mark :: "char \<Rightarrow> bool" where
  "is_mark c \<longleftrightarrow> c = CHR '' '' \<or> c = CHR ''x'' \<or> c = CHR ''X''"

lemma bullet_not_ws: "is_bullet c \<Longrightarrow> \<not> is_ws c"
  by (auto simp: is_bullet_def is_ws_def code_unit_def)

lemma bracket_not_ws: "\<not> is_ws CHR ''[''"
  by (simp add: is_ws_def code_unit_def)

lemma digit_not_ws: "is_digit c \<Longrightarrow> \<not> is_ws c"
  by (auto simp: is_digit_def is_ws_def)

lemma space_ws: "is_ws CHR '' ''"
  by (simp add: is_ws_def code_unit_def)

section \<open>Toggling one task\<close>

text \<open>\<open>(\s+.*)$\<close>: white space, then no line terminator up to the end.\<close>

definition task_suffix :: "string \<Rightarrow> bool" where
  "task_suffix s \<longleftrightarrow>
     (case s of [] \<Rightarrow> False | c # _ \<Rightarrow> is_ws c) \<and> list_all (\<lambda>c. \<not> is_line_end c) (dropWhile is_ws s)"

text \<open>\<open>/^(\s*[-*+]\s+)\[([ xX])\](\s+.*)$/\<close>: the prefix, the mark and the suffix.\<close>

definition match_task_line :: "string \<Rightarrow> (string \<times> char \<times> string) option" where
  "match_task_line l =
     (case dropWhile is_ws l of
        [] \<Rightarrow> None
      | b # r \<Rightarrow>
          if is_bullet b \<and> takeWhile is_ws r \<noteq> [] then
            (case dropWhile is_ws r of
               o1 # m # c1 # s \<Rightarrow>
                 if o1 = CHR ''['' \<and> is_mark m \<and> c1 = CHR '']'' \<and> task_suffix s
                 then Some (takeWhile is_ws l @ b # takeWhile is_ws r, m, s) else None
             | _ \<Rightarrow> None)
          else None)"

definition checkmark :: "bool \<Rightarrow> char" where
  "checkmark checked = (if checked then CHR ''x'' else CHR '' '')"

definition toggleTaskAtLine :: "string \<Rightarrow> int \<Rightarrow> bool \<Rightarrow> string" where
  "toggleTaskAtLine markdown lineNumber checked =
     (let lines = split_char nl markdown in
      if lineNumber < 0 \<or> lineNumber \<ge> int (length lines) then markdown
      else case match_task_line (lines ! nat lineNumber) of
             None \<Rightarrow> markdown
           | Some (prefix, _, suffix) \<Rightarrow>
               join [nl] (lines[nat lineNumber :=
                 prefix @ CHR ''['' # checkmark checked # CHR '']'' # suffix]))"

lemma is_mark_checkmark [simp]: "is_mark (checkmark b)"
  by (simp add: is_mark_def checkmark_def)

lemma match_task_line_Some:
  assumes "match_task_line l = Some (p, m, s)"
  shows "l = p @ CHR ''['' # m # CHR '']'' # s" and "is_mark m" and "task_suffix s"
    and "\<exists>w b w'. p = w @ b # w' \<and> (\<forall>c \<in> set w. is_ws c) \<and> is_bullet b
           \<and> w' \<noteq> [] \<and> (\<forall>c \<in> set w'. is_ws c)"
proof -
  let ?w = "takeWhile is_ws l"
  obtain b r where r: "dropWhile is_ws l = b # r" and b: "is_bullet b" "takeWhile is_ws r \<noteq> []"
    using assms by (auto simp: match_task_line_def split: list.splits if_splits)
  obtain o1 c1 where d: "dropWhile is_ws r = o1 # m # c1 # s"
    and m: "o1 = CHR ''[''" "is_mark m" "c1 = CHR '']''" "task_suffix s"
    and p: "p = ?w @ b # takeWhile is_ws r"
    using assms r b by (auto simp: match_task_line_def split: list.splits if_splits)
  have "l = ?w @ b # takeWhile is_ws r @ dropWhile is_ws r"
    using r by (metis takeWhile_dropWhile_id)
  with d m p show "l = p @ CHR ''['' # m # CHR '']'' # s" by simp
  show "is_mark m" "task_suffix s" by (fact m)+
  show "\<exists>w b w'. p = w @ b # w' \<and> (\<forall>c \<in> set w. is_ws c) \<and> is_bullet b
           \<and> w' \<noteq> [] \<and> (\<forall>c \<in> set w'. is_ws c)"
    using p b by (blast dest: set_takeWhileD)
qed

lemma match_task_line_build:
  assumes "\<forall>c \<in> set w. is_ws c" "is_bullet b" "w' \<noteq> []" "\<forall>c \<in> set w'. is_ws c"
    and "is_mark m" "task_suffix s"
  shows "match_task_line (w @ b # w' @ CHR ''['' # m # CHR '']'' # s) = Some (w @ b # w', m, s)"
  using assms
  by (simp add: match_task_line_def takeWhile_append2 dropWhile_append2 bullet_not_ws bracket_not_ws
      takeWhile_tail dropWhile_append3)

lemma match_task_line_remark:
  assumes "match_task_line l = Some (p, m, s)" and "is_mark m'"
  shows "match_task_line (p @ CHR ''['' # m' # CHR '']'' # s) = Some (p, m', s)"
proof -
  from match_task_line_Some (4) [OF assms(1)] obtain w b w' where
    "p = w @ b # w'" "\<forall>c \<in> set w. is_ws c" "is_bullet b" "w' \<noteq> []" "\<forall>c \<in> set w'. is_ws c"
    by blast
  with assms(2) match_task_line_Some (3) [OF assms(1)] show ?thesis
    by (simp add: match_task_line_build)
qed

lemma split_toggled:
  assumes "match_task_line (split_char nl md ! i) = Some (p, m, s)" and "i < length (split_char nl md)"
    and "c \<noteq> nl"
  shows "split_char nl (join [nl] ((split_char nl md)[i := p @ CHR ''['' # c # CHR '']'' # s]))
         = (split_char nl md)[i := p @ CHR ''['' # c # CHR '']'' # s]"
proof (rule split_join_char)
  show "(split_char nl md)[i := p @ CHR ''['' # c # CHR '']'' # s] \<noteq> []" by simp
  have "nl \<notin> set (split_char nl md ! i)"
    using assms(2) by (meson nth_mem split_char_no_sep)
  then have "nl \<notin> set (p @ CHR ''['' # c # CHR '']'' # s)"
    using match_task_line_Some (1) [OF assms(1)] assms(3) by auto
  then show "\<forall>l \<in> set ((split_char nl md)[i := p @ CHR ''['' # c # CHR '']'' # s]). nl \<notin> set l"
    using split_char_no_sep by (fastforce dest: set_update_subset_insert [THEN subsetD])
qed

lemma checkmark_not_nl [simp]: "checkmark b \<noteq> nl"
  by (simp add: checkmark_def)

section \<open>The tasks the parser finds\<close>

record task_info =
  ti_lineNumber :: nat
  ti_checked :: bool

text \<open>A list item with a checkbox and a position whose line is not 0 (\<open>node.position?.start.line\<close>).\<close>

definition task_of :: "mdast \<Rightarrow> task_info option" where
  "task_of n =
     (case md_checked n of
        None \<Rightarrow> None
      | Some b \<Rightarrow>
          (case md_position n of
             None \<Rightarrow> None
           | Some p \<Rightarrow> if pos_line p = 0 then None
                       else Some \<lparr>ti_lineNumber = pos_line p - 1, ti_checked = b\<rparr>))"

definition extractTasksFromAst :: "(string \<Rightarrow> mdast option) \<Rightarrow> string \<Rightarrow> task_info list option" where
  "extractTasksFromAst parse markdown =
     map_option (\<lambda>tree. List.map_filter task_of (visit_nodes ''listItem'' tree)) (parse markdown)"

text \<open>\<open>None\<close> is the parser's exception, which these functions let through.\<close>

definition toggleTaskAtIndex ::
  "(string \<Rightarrow> mdast option) \<Rightarrow> string \<Rightarrow> int \<Rightarrow> bool \<Rightarrow> string option" where
  "toggleTaskAtIndex parse markdown taskIndex checked =
     (case extractTasksFromAst parse markdown of
        None \<Rightarrow> None
      | Some tasks \<Rightarrow>
          if taskIndex < 0 \<or> taskIndex \<ge> int (length tasks) then Some markdown
          else Some (toggleTaskAtLine markdown (int (ti_lineNumber (tasks ! nat taskIndex))) checked))"

record task_count =
  tc_total :: nat
  tc_completed :: nat
  tc_incomplete :: nat

definition countTasks :: "(string \<Rightarrow> mdast option) \<Rightarrow> string \<Rightarrow> task_count option" where
  "countTasks parse markdown =
     map_option (\<lambda>tasks.
       let total = length tasks; completed = length (filter ti_checked tasks) in
       \<lparr>tc_total = total, tc_completed = completed, tc_incomplete = total - completed\<rparr>)
     (extractTasksFromAst parse markdown)"

definition getTaskLineNumber :: "(string \<Rightarrow> mdast option) \<Rightarrow> string \<Rightarrow> int \<Rightarrow> int option" where
  "getTaskLineNumber parse markdown taskIndex =
     map_option (\<lambda>tasks.
       if taskIndex < 0 \<or> taskIndex \<ge> int (length tasks) then -1
       else int (ti_lineNumber (tasks ! nat taskIndex)))
     (extractTasksFromAst parse markdown)"

record task_item =
  tk_lineNumber :: nat
  tk_taskIndex :: nat
  tk_checked :: bool
  tk_content :: string
  tk_indentation :: nat

text \<open>
  \<open>/^\s*[-*+]\s+\[[ xX]\]\s+(.*)/\<close>: the text after the checkbox, up to a line terminator. The
  \<open>\s+\<close> is greedy, so the capture starts at the first character that is not white space.
\<close>

definition task_content :: "string \<Rightarrow> string option" where
  "task_content l =
     (case dropWhile is_ws l of
        [] \<Rightarrow> None
      | b # r \<Rightarrow>
          if is_bullet b \<and> takeWhile is_ws r \<noteq> [] then
            (case dropWhile is_ws r of
               o1 # m # c1 # s \<Rightarrow>
                 if o1 = CHR ''['' \<and> is_mark m \<and> c1 = CHR '']'' \<and> takeWhile is_ws s \<noteq> []
                 then Some (takeWhile (\<lambda>c. \<not> is_line_end c) (dropWhile is_ws s)) else None
             | _ \<Rightarrow> None)
          else None)"

text \<open>
  The loop of \<open>extractTasks\<close>: \<open>lines[lineNumber]\<close> can be out of range, since the parser also
  ends a line at a lone carriage return; then \<open>line.match\<close> throws, and the result is \<open>None\<close>.
\<close>

fun task_items :: "string list \<Rightarrow> nat \<Rightarrow> task_info list \<Rightarrow> task_item list option" where
  "task_items lines k [] = Some []"
| "task_items lines k (t # ts) =
     (if ti_lineNumber t < length lines then
        (let line = lines ! ti_lineNumber t in
         map_option (Cons \<lparr>tk_lineNumber = ti_lineNumber t, tk_taskIndex = k,
             tk_checked = ti_checked t,
             tk_content = (case task_content line of None \<Rightarrow> [] | Some s \<Rightarrow> s),
             tk_indentation = length (takeWhile is_ws line)\<rparr>)
           (task_items lines (Suc k) ts))
      else None)"

definition extractTasks :: "(string \<Rightarrow> mdast option) \<Rightarrow> string \<Rightarrow> task_item list option" where
  "extractTasks parse markdown =
     Option.bind (extractTasksFromAst parse markdown) (task_items (split_char nl markdown) 0)"

lemma task_items_length: "task_items ls k ts = Some is \<Longrightarrow> length is = length ts"
  by (induction ls k ts arbitrary: "is" rule: task_items.induct)
     (auto split: if_splits simp: Let_def)

lemma task_items_nth:
  "task_items ls k ts = Some is \<Longrightarrow> i < length ts \<Longrightarrow>
     tk_lineNumber (is ! i) = ti_lineNumber (ts ! i) \<and> tk_taskIndex (is ! i) = k + i
     \<and> tk_checked (is ! i) = ti_checked (ts ! i)"
proof (induction ls k ts arbitrary: "is" i rule: task_items.induct)
  case (1 lines k)
  then show ?case by simp
next
  case (2 lines k t ts)
  then show ?case by (cases i) (auto split: if_splits simp: Let_def)
qed

section \<open>Properties\<close>

lemma toggle_cases:
  obtains (same) "\<And>b. toggleTaskAtLine md n b = md"
  | (line) i p m s where "n = int i" "i < length (split_char nl md)"
      "match_task_line (split_char nl md ! i) = Some (p, m, s)"
      "\<And>b. toggleTaskAtLine md n b
        = join [nl] ((split_char nl md)[i := p @ CHR ''['' # checkmark b # CHR '']'' # s])"
proof (cases "0 \<le> n \<and> n < int (length (split_char nl md))")
  case False
  then have "\<And>b. toggleTaskAtLine md n b = md" by (auto simp: toggleTaskAtLine_def Let_def)
  then show ?thesis by (rule same)
next
  case True
  show ?thesis
  proof (cases "match_task_line (split_char nl md ! nat n)")
    case None
    then have "\<And>b. toggleTaskAtLine md n b = md" using True by (simp add: toggleTaskAtLine_def Let_def)
    then show ?thesis by (rule same)
  next
    case (Some t)
    obtain p m s where t: "t = (p, m, s)" by (cases t)
    show ?thesis
      using True Some t by (intro line [of "nat n" p m s]) (auto simp: toggleTaskAtLine_def Let_def)
  qed
qed

lemma list_all2_update_same:
  assumes "\<And>x. P x x" and "list_all2 P (xs ! i) y" and "i < length xs"
  shows "list_all2 (list_all2 P) xs (xs[i := y])"
  using assms by (auto simp: list_all2_conv_all_nth nth_list_update)

lemma list_all2_join:
  assumes "list_all2 P [c] [c]" and "list_all2 (list_all2 P) xs ys"
  shows "list_all2 P (join [c] xs) (join [c] ys)"
  using assms(2)
proof (induction xs ys rule: list_all2_induct)
  case Nil
  then show ?case by simp
next
  case (Cons x xs y ys)
  then show ?case using assms(1)
    by (cases xs; cases ys) (auto intro!: list_all2_appendI)
qed

lemma match_blocked:
  assumes "\<not> is_ws x"
  shows "match_task_line (''- [ ] '' @ x # t @ [CHR 0x0D]) = None"
proof -
  have "is_line_end CHR 0x0D" by (simp add: is_line_end_def code_unit_def)
  moreover have "\<not> is_ws CHR ''-''" "is_bullet CHR ''-''"
    by (simp_all add: is_ws_def code_unit_def is_bullet_def)
  ultimately show ?thesis using assms
    by (simp add: match_task_line_def task_suffix_def space_ws bracket_not_ws)
qed

text \<open>
  toggling a task rewrites nothing but a checkbox mark. The text keeps its length, and each
  character is either kept or was the mark \<open>' '\<close>, \<open>x\<close> or \<open>X\<close> and is now the new check mark.
\<close>

theorem toggle_only_mark:
  "list_all2 (\<lambda>old new. new = old \<or> is_mark old \<and> new = checkmark c)
     md (toggleTaskAtLine md n c)"
proof (cases rule: toggle_cases [of md n])
  case same
  then show ?thesis by (simp add: list_all2_same)
next
  case (line i p m s)
  let ?P = "\<lambda>old new. new = old \<or> is_mark old \<and> new = checkmark c"
  let ?ls = "split_char nl md"
  have "list_all2 ?P (?ls ! i) (p @ CHR ''['' # checkmark c # CHR '']'' # s)"
    using match_task_line_Some (1,2) [OF line(3)]
    by (auto intro!: list_all2_appendI simp: list_all2_same)
  then have "list_all2 (list_all2 ?P) ?ls (?ls[i := p @ CHR ''['' # checkmark c # CHR '']'' # s])"
    using line(2) by (intro list_all2_update_same) auto
  then have "list_all2 ?P (join [nl] ?ls) (join [nl] (?ls[i := p @ CHR ''['' # checkmark c # CHR '']'' # s]))"
    by (intro list_all2_join) auto
  then show ?thesis by (simp add: line(4))
qed

text \<open>
  the last toggle of a line wins, whatever the line held before; in particular checking and
  then unchecking a task gives the text with the task unchecked.
\<close>

theorem toggle_last_wins:
  "toggleTaskAtLine (toggleTaskAtLine md n a) n b = toggleTaskAtLine md n b"
proof (cases rule: toggle_cases [of md n])
  case same
  then show ?thesis by simp
next
  case (line i p m s)
  let ?l = "\<lambda>b. p @ CHR ''['' # checkmark b # CHR '']'' # s"
  have sp: "split_char nl (toggleTaskAtLine md n a) = (split_char nl md)[i := ?l a]"
    using split_toggled [OF line(3) line(2) checkmark_not_nl] by (simp add: line(4))
  have "match_task_line (?l a) = Some (p, checkmark a, s)"
    using match_task_line_remark [OF line(3) is_mark_checkmark] .
  then have "toggleTaskAtLine (toggleTaskAtLine md n a) n b = join [nl] ((split_char nl md)[i := ?l b])"
    using sp line(1,2) by (simp add: toggleTaskAtLine_def)
  then show ?thesis by (simp add: line(4))
qed

text \<open>
  a task line that ends in a carriage return (a memo with CRLF line ends) is never toggled:
  the \<open>.\<close> of the pattern does not match the carriage return before \<open>$\<close>, so the click is lost
  although the parser lists the line as a task.
\<close>

theorem toggle_crlf_lost:
  assumes "\<not> is_ws x" and "nl \<notin> set (x # t)"
  shows "toggleTaskAtLine (''- [ ] '' @ x # t @ CHR 0x0D # nl # rest) 0 c
         = ''- [ ] '' @ x # t @ CHR 0x0D # nl # rest"
proof -
  let ?l = "''- [ ] '' @ x # t @ [CHR 0x0D]"
  have "nl \<notin> set ?l" using assms(2) by auto
  from split_char_append_sep [OF this, of rest]
  have "split_char nl (''- [ ] '' @ x # t @ CHR 0x0D # nl # rest) = ?l # split_char nl rest"
    by simp
  then show ?thesis
    using match_blocked [OF assms(1), of t] by (simp only: toggleTaskAtLine_def Let_def) simp
qed

theorem toggle_crlf_lost_witness:
  "toggleTaskAtLine (''- [ ] '' @ CHR ''a'' # [] @ CHR 0x0D # nl # ''b'') 0 True
   = ''- [ ] '' @ CHR ''a'' # [] @ CHR 0x0D # nl # ''b''"
  by (rule toggle_crlf_lost) (simp_all add: is_ws_def code_unit_def)

end
