(* ===== verification/TaskActions.thy ===== *)
theory TaskActions
  imports MarkdownTasks
begin

text \<open>
  \<^verbatim>\<open>utils/markdown-task-actions.ts\<close>: checking or unchecking every task of a memo by source
  edits of one character each, applied from the last to the first. Offsets are natural numbers
  where the code computes them as such, and integers in an edit, whose bounds the code checks.
\<close>

record source_range =
  sr_start :: int
  sr_end :: int

record markdown_edit = source_range +
  me_replacement :: string

record parsed_task =
  pt_checked :: bool
  pt_marker :: source_range

record line_info =
  li_text :: string
  li_startOffset :: nat
  li_endOffset :: nat

section \<open>Lines by offset\<close>

definition getLineStarts :: "string \<Rightarrow> nat list" where
  "getLineStarts markdown = 0 # map Suc (filter (\<lambda>i. markdown ! i = nl) [0..<length markdown])"

definition getLineInfo :: "string \<Rightarrow> nat list \<Rightarrow> nat \<Rightarrow> line_info option" where
  "getLineInfo markdown lineStarts lineNumber =
     (if lineNumber < length lineStarts then
        (let startOffset = lineStarts ! lineNumber;
             endOffset = (if Suc lineNumber < length lineStarts
                          then lineStarts ! Suc lineNumber - 1 else length markdown) in
         Some \<lparr>li_text = take (endOffset - startOffset) (drop startOffset markdown),
               li_startOffset = startOffset, li_endOffset = endOffset\<rparr>)
      else None)"

lemma getLineStarts_le: "x \<in> set (getLineStarts md) \<Longrightarrow> x \<le> length md"
  by (auto simp: getLineStarts_def)

lemma getLineInfo_bounds:
  assumes "getLineInfo md (getLineStarts md) n = Some info"
  shows "li_startOffset info \<le> length md"
    and "li_text info = take (length (li_text info)) (drop (li_startOffset info) md)"
proof -
  from assms show "li_startOffset info \<le> length md"
    by (auto simp: getLineInfo_def Let_def split: if_splits intro: getLineStarts_le)
  from assms show "li_text info = take (length (li_text info)) (drop (li_startOffset info) md)"
    by (auto simp: getLineInfo_def Let_def min_def split: if_splits)
qed

section \<open>The checkbox markers\<close>

definition is_ordered_end :: "char \<Rightarrow> bool" where
  "is_ordered_end c \<longleftrightarrow> c = CHR ''.'' \<or> c = CHR '')''"

text \<open>
  \<open>/^(\s*)((?:[-*+])|(?:\d+[.)]))(\s+)\[([ xX])\]/\<close>: the lengths of the first three groups.
\<close>

definition list_marker :: "string \<Rightarrow> (string \<times> string) option" where
  "list_marker l =
     (case l of
        [] \<Rightarrow> None
      | b # r \<Rightarrow>
          if is_bullet b then Some ([b], r)
          else if is_digit b then
            (case dropWhile is_digit l of
               e # r' \<Rightarrow> if is_ordered_end e then Some (takeWhile is_digit l @ [e], r') else None
             | [] \<Rightarrow> None)
          else None)"

definition match_task_item :: "string \<Rightarrow> (nat \<times> nat \<times> nat) option" where
  "match_task_item l =
     (case list_marker (dropWhile is_ws l) of
        None \<Rightarrow> None
      | Some (mk, r) \<Rightarrow>
          if takeWhile is_ws r \<noteq> [] then
            (case dropWhile is_ws r of
               o1 # m # c1 # _ \<Rightarrow>
                 if o1 = CHR ''['' \<and> is_mark m \<and> c1 = CHR '']''
                 then Some (length (takeWhile is_ws l), length mk, length (takeWhile is_ws r)) else None
             | _ \<Rightarrow> None)
          else None)"

definition parsed_task_of :: "string \<Rightarrow> nat list \<Rightarrow> mdast \<Rightarrow> parsed_task option" where
  "parsed_task_of markdown lineStarts node =
     (case md_checked node of
        None \<Rightarrow> None
      | Some checked \<Rightarrow>
          (case md_position node of
             None \<Rightarrow> None
           | Some p \<Rightarrow>
               (case (if pos_line p = 0 then None
                      else getLineInfo markdown lineStarts (pos_line p - 1)) of
                  None \<Rightarrow> None
                | Some lineInfo \<Rightarrow>
                    (case match_task_item (li_text lineInfo) of
                       None \<Rightarrow> None
                     | Some (l1, l2, l3) \<Rightarrow>
                         let markerStart = int (li_startOffset lineInfo + l1 + l2 + l3 + 1) in
                         Some \<lparr>pt_checked = checked,
                               pt_marker = \<lparr>sr_start = markerStart, sr_end = markerStart + 1\<rparr>\<rparr>))))"

text \<open>A parser that throws gives no tasks, as the \<open>catch\<close> says.\<close>

definition parseTaskItems :: "(string \<Rightarrow> mdast option) \<Rightarrow> string \<Rightarrow> parsed_task list" where
  "parseTaskItems parse markdown =
     (case parse markdown of
        None \<Rightarrow> []
      | Some tree \<Rightarrow>
          List.map_filter (parsed_task_of markdown (getLineStarts markdown))
            (visit_nodes ''listItem'' tree))"

section \<open>Applying the edits\<close>

fun edits_fit :: "nat \<Rightarrow> int \<Rightarrow> markdown_edit list \<Rightarrow> bool" where
  "edits_fit len previousEnd [] = True"
| "edits_fit len previousEnd (e # es) =
     (if sr_start e < 0 \<or> sr_end e < sr_start e \<or> sr_end e > int len \<or> sr_start e < previousEnd
      then False else edits_fit len (sr_end e) es)"

definition apply_edit :: "markdown_edit \<Rightarrow> string \<Rightarrow> string" where
  "apply_edit e s = take (nat (sr_start e)) s @ me_replacement e @ drop (nat (sr_end e)) s"

text \<open>
  The sort is stable and by \<open>start\<close>; the loop runs from the last edit to the first, so
  \<open>foldr\<close>.
\<close>

definition applyMarkdownEdits :: "string \<Rightarrow> markdown_edit list \<Rightarrow> string" where
  "applyMarkdownEdits markdown edits =
     (if edits = [] then markdown
      else let sortedEdits = sort_key sr_start edits in
           if edits_fit (length markdown) 0 sortedEdits then foldr apply_edit sortedEdits markdown
           else markdown)"

definition marker_edit :: "char \<Rightarrow> parsed_task \<Rightarrow> markdown_edit" where
  "marker_edit marker task =
     \<lparr>sr_start = sr_start (pt_marker task), sr_end = sr_end (pt_marker task), me_replacement = [marker]\<rparr>"

definition setAllTaskMarkers :: "(string \<Rightarrow> mdast option) \<Rightarrow> string \<Rightarrow> bool \<Rightarrow> string" where
  "setAllTaskMarkers parse markdown checked =
     applyMarkdownEdits markdown
       (map (marker_edit (checkmark checked))
         (filter (\<lambda>task. pt_checked task \<noteq> checked) (parseTaskItems parse markdown)))"

definition uncheckAllTasks :: "(string \<Rightarrow> mdast option) \<Rightarrow> string \<Rightarrow> string" where
  "uncheckAllTasks parse markdown = setAllTaskMarkers parse markdown False"

definition checkAllTasks :: "(string \<Rightarrow> mdast option) \<Rightarrow> string \<Rightarrow> string" where
  "checkAllTasks parse markdown = setAllTaskMarkers parse markdown True"

section \<open>What applying the edits computes\<close>

text \<open>
  The specification: one pass from left to right that copies the text between the edits and
  puts each replacement in place. \<open>pos\<close> is the offset of the head of the remaining text.
\<close>

fun splice_edits :: "int \<Rightarrow> string \<Rightarrow> markdown_edit list \<Rightarrow> string" where
  "splice_edits pos s [] = s"
| "splice_edits pos s (e # es) =
     take (nat (sr_start e - pos)) s @ me_replacement e
       @ splice_edits (sr_end e) (drop (nat (sr_end e - pos)) s) es"

lemma edits_fit_mono: "edits_fit len q es \<Longrightarrow> p \<le> q \<Longrightarrow> edits_fit len p es"
  by (cases es) (auto split: if_splits)

lemma foldr_edits_splice:
  assumes "edits_fit (length s) p es" and "0 \<le> p" and "nat p \<le> length s"
  shows "foldr apply_edit es s = take (nat p) s @ splice_edits p (drop (nat p) s) es"
  using assms
proof (induction es arbitrary: p)
  case Nil
  then show ?case by simp
next
  case (Cons e es)
  then have fit: "0 \<le> sr_start e" "sr_start e \<le> sr_end e" "sr_end e \<le> int (length s)"
    "p \<le> sr_start e" "edits_fit (length s) (sr_end e) es" by (auto split: if_splits)
  let ?b = "nat (sr_start e)" and ?f = "nat (sr_end e)"
  have le: "nat p \<le> ?b" "?b \<le> ?f" "?f \<le> length s"
    using fit Cons.prems(2) by auto
  have IH: "foldr apply_edit es s = take ?f s @ splice_edits (sr_end e) (drop ?f s) es"
    using Cons.IH [OF fit(5)] fit le by simp
  have tk: "take ?b s = take (nat p) s @ take (?b - nat p) (drop (nat p) s)"
    using le(1) by (metis le_add_diff_inverse take_add)
  have d: "drop (nat (sr_end e - p)) (drop (nat p) s) = drop ?f s"
    using le Cons.prems(2) fit by (simp add: nat_diff_distrib)
  have b: "nat (sr_start e - p) = ?b - nat p"
    using Cons.prems(2) by (simp add: nat_diff_distrib)
  have "foldr apply_edit (e # es) s
        = take ?b s @ me_replacement e @ splice_edits (sr_end e) (drop ?f s) es"
    using le by (simp add: IH apply_edit_def min_def)
  with tk d b show ?case by simp
qed

lemma applyMarkdownEdits_splice:
  "edits_fit (length md) 0 (sort_key sr_start es) \<Longrightarrow>
     applyMarkdownEdits md es = splice_edits 0 md (sort_key sr_start es)"
  using foldr_edits_splice [of md 0 "sort_key sr_start es"]
  by (simp add: applyMarkdownEdits_def Let_def)

section \<open>Where the markers are\<close>

lemma list_marker_Some: "list_marker l = Some (mk, r) \<Longrightarrow> l = mk @ r"
  by (auto simp: list_marker_def split: list.splits if_splits)
     (metis append_Cons append_Nil append_assoc takeWhile_dropWhile_id)

lemma match_task_item_Some:
  assumes "match_task_item l = Some (l1, l2, l3)"
  shows "l1 + l2 + l3 + 2 < length l"
    and "l ! (l1 + l2 + l3) = CHR ''[''" and "is_mark (l ! (l1 + l2 + l3 + 1))"
    and "l ! (l1 + l2 + l3 + 2) = CHR '']''"
proof -
  obtain mk r where lm: "list_marker (dropWhile is_ws l) = Some (mk, r)"
    using assms by (auto simp: match_task_item_def split: option.splits)
  obtain m t where d: "dropWhile is_ws r = CHR ''['' # m # CHR '']'' # t" and m: "is_mark m"
    and n: "l1 = length (takeWhile is_ws l)" "l2 = length mk" "l3 = length (takeWhile is_ws r)"
    using assms lm by (auto simp: match_task_item_def split: list.splits if_splits)
  have "l = takeWhile is_ws l @ mk @ takeWhile is_ws r @ dropWhile is_ws r"
    using list_marker_Some [OF lm] by (metis takeWhile_dropWhile_id)
  then have l: "l = (takeWhile is_ws l @ mk @ takeWhile is_ws r) @ CHR ''['' # m # CHR '']'' # t"
    using d by simp
  define pre where "pre = takeWhile is_ws l @ mk @ takeWhile is_ws r"
  have len: "length pre = l1 + l2 + l3" using n by (simp add: pre_def)
  have l: "l = pre @ CHR ''['' # m # CHR '']'' # t" using l unfolding pre_def .
  show "l1 + l2 + l3 + 2 < length l" using l by (simp add: len)
  show "l ! (l1 + l2 + l3) = CHR ''[''" by (simp add: l len [symmetric])
  show "is_mark (l ! (l1 + l2 + l3 + 1))" using m by (simp add: l len [symmetric] nth_append)
  show "l ! (l1 + l2 + l3 + 2) = CHR '']''" by (simp add: l len [symmetric] nth_append)
qed

text \<open>A position is a checkbox mark of the text: \<open>[\<close>, a mark, \<open>]\<close>.\<close>

definition checkbox_at :: "string \<Rightarrow> nat \<Rightarrow> bool" where
  "checkbox_at md i \<longleftrightarrow> 0 < i \<and> i + 1 < length md \<and> md ! (i - 1) = CHR ''['' \<and> is_mark (md ! i)
     \<and> md ! (i + 1) = CHR '']''"

definition marker_at :: "parsed_task \<Rightarrow> nat \<Rightarrow> bool" where
  "marker_at t i \<longleftrightarrow> pt_marker t = \<lparr>sr_start = int i, sr_end = int i + 1\<rparr>"

lemma parsed_task_marker:
  assumes "parsed_task_of md (getLineStarts md) n = Some t"
  shows "\<exists>i. marker_at t i \<and> checkbox_at md i"
proof -
  obtain ln info l1 l2 l3 where
    info: "getLineInfo md (getLineStarts md) ln = Some info"
    and m: "match_task_item (li_text info) = Some (l1, l2, l3)"
    and t: "pt_marker t = \<lparr>sr_start = int (li_startOffset info + l1 + l2 + l3 + 1),
              sr_end = int (li_startOffset info + l1 + l2 + l3 + 1) + 1\<rparr>"
    using assms by (auto simp: parsed_task_of_def Let_def split: option.splits if_splits)
  let ?b = "li_startOffset info" and ?k = "l1 + l2 + l3" and ?x = "li_text info"
  note b = getLineInfo_bounds [OF info] and k = match_task_item_Some [OF m]
  have nth: "?x ! j = md ! (?b + j)" if "j < length ?x" for j
    using b that by (metis nth_drop nth_take)
  have "length ?x \<le> length md - ?b" using b by (metis length_drop length_take min.cobounded1 min.commute)
  with k(1) have len: "?b + ?k + 2 < length md" by simp
  have "checkbox_at md (?b + ?k + 1)"
    using k nth [of ?k] nth [of "?k + 1"] nth [of "?k + 2"] len
    by (simp add: checkbox_at_def add.assoc)
  moreover have "marker_at t (?b + ?k + 1)" by (simp add: marker_at_def t)
  ultimately show ?thesis by blast
qed

lemma parseTaskItems_marker:
  "t \<in> set (parseTaskItems parse md) \<Longrightarrow> \<exists>i. marker_at t i \<and> checkbox_at md i"
  by (auto simp: parseTaskItems_def set_map_filter split: option.splits dest!: parsed_task_marker)

text \<open>Edits of one character each replace those characters and nothing else.\<close>

definition char_edit :: "char \<Rightarrow> markdown_edit \<Rightarrow> bool" where
  "char_edit c e \<longleftrightarrow> sr_end e = sr_start e + 1 \<and> me_replacement e = [c]"

lemma apply_char_edit:
  assumes "char_edit c e" "0 \<le> sr_start e" "sr_end e \<le> int (length s)"
  shows "apply_edit e s = s[nat (sr_start e) := c]"
  using assms by (simp add: char_edit_def apply_edit_def upd_conv_take_nth_drop Suc_nat_eq_nat_zadd1
      add.commute)

lemma foldr_char_edits:
  assumes "list_all (char_edit c) es" and "edits_fit (length s) p es"
  shows "length (foldr apply_edit es s) = length s
    \<and> (\<forall>i < length s. foldr apply_edit es s ! i = (if \<exists>e \<in> set es. sr_start e = int i then c else s ! i))"
  using assms
proof (induction es arbitrary: p)
  case Nil
  then show ?case by simp
next
  case (Cons e es)
  then have fit: "0 \<le> sr_start e" "sr_end e \<le> int (length s)" "edits_fit (length s) (sr_end e) es"
    and ce: "char_edit c e" by (auto split: if_splits)
  let ?t = "foldr apply_edit es s"
  have IH: "length ?t = length s"
    "\<forall>i < length s. ?t ! i = (if \<exists>e \<in> set es. sr_start e = int i then c else s ! i)"
    using Cons.IH [OF _ fit(3)] Cons.prems(1) by auto
  have "apply_edit e ?t = ?t[nat (sr_start e) := c]"
    using apply_char_edit [OF ce fit(1)] fit(2) IH(1) by simp
  moreover have "nat (sr_start e) < length s"
    using fit ce by (simp add: char_edit_def)
  ultimately show ?case using IH fit(1) by (auto simp: nth_list_update)
qed

lemma sorted_edits_fit:
  assumes "sorted (map sr_start es)" "distinct (map sr_start es)" "list_all (char_edit c) es"
    and "\<forall>e \<in> set es. p \<le> sr_start e \<and> 0 \<le> sr_start e \<and> sr_end e \<le> int len"
  shows "edits_fit len p es"
  using assms
proof (induction es arbitrary: p)
  case Nil
  then show ?case by simp
next
  case (Cons e es)
  have "\<forall>e' \<in> set es. sr_end e \<le> sr_start e'"
  proof
    fix e' assume e': "e' \<in> set es"
    with Cons.prems(1,2) have "sr_start e \<le> sr_start e'" "sr_start e \<noteq> sr_start e'" by auto
    then show "sr_end e \<le> sr_start e'" using Cons.prems(3) by (simp add: char_edit_def)
  qed
  then have "edits_fit len (sr_end e) es"
    using Cons.prems by (intro Cons.IH) auto
  then show ?case using Cons.prems by (simp add: char_edit_def)
qed

lemma marker_char_edit: "marker_at t i \<Longrightarrow> char_edit c (marker_edit c t)"
  by (simp add: char_edit_def marker_edit_def marker_at_def)

lemma sr_start_marker_edit: "marker_at t i \<Longrightarrow> sr_start (marker_edit c t) = int i"
  by (simp add: marker_edit_def marker_at_def)

text \<open>The edits \<open>setAllTaskMarkers\<close> builds.\<close>

definition marker_edits :: "(string \<Rightarrow> mdast option) \<Rightarrow> string \<Rightarrow> bool \<Rightarrow> markdown_edit list" where
  "marker_edits parse md b = map (marker_edit (checkmark b))
     (filter (\<lambda>task. pt_checked task \<noteq> b) (parseTaskItems parse md))"

lemma marker_editsD:
  "e \<in> set (marker_edits parse md b) \<Longrightarrow>
     char_edit (checkmark b) e \<and> (\<exists>i. sr_start e = int i \<and> checkbox_at md i)"
  by (auto simp: marker_edits_def dest!: parseTaskItems_marker intro: marker_char_edit sr_start_marker_edit)

lemma setAll_edits:
  "setAllTaskMarkers parse md b =
     (if edits_fit (length md) 0 (sort_key sr_start (marker_edits parse md b))
      then foldr apply_edit (sort_key sr_start (marker_edits parse md b)) md else md)"
  by (simp add: setAllTaskMarkers_def applyMarkdownEdits_def marker_edits_def Let_def)

lemma setAll_nth:
  assumes "edits_fit (length md) 0 (sort_key sr_start (marker_edits parse md b))" and "i < length md"
  shows "setAllTaskMarkers parse md b ! i =
     (if \<exists>e \<in> set (marker_edits parse md b). sr_start e = int i then checkmark b else md ! i)"
  using foldr_char_edits [of "checkmark b" "sort_key sr_start (marker_edits parse md b)" md 0] assms
  by (simp add: setAll_edits list_all_iff marker_editsD)

lemma setAll_length: "length (setAllTaskMarkers parse md b) = length md"
  using foldr_char_edits [of "checkmark b" "sort_key sr_start (marker_edits parse md b)" md 0]
  by (simp add: setAll_edits list_all_iff marker_editsD)

lemma distinct_marker_edits:
  assumes "distinct (map pt_marker (parseTaskItems parse md))"
  shows "distinct (map sr_start (marker_edits parse md b))"
proof -
  have "inj_on (\<lambda>t. sr_start (pt_marker t)) (set (parseTaskItems parse md))"
  proof (rule inj_onI)
    fix t u assume tu: "t \<in> set (parseTaskItems parse md)" "u \<in> set (parseTaskItems parse md)"
      "sr_start (pt_marker t) = sr_start (pt_marker u)"
    then have "pt_marker t = pt_marker u"
      by (auto dest!: parseTaskItems_marker simp: marker_at_def)
    with assms tu show "t = u" by (simp add: distinct_map inj_on_def)
  qed
  moreover have "distinct (parseTaskItems parse md)" using assms by (simp add: distinct_map)
  ultimately show ?thesis
    by (auto simp: marker_edits_def distinct_map marker_edit_def o_def inj_on_def)
qed

lemma distinct_edits_fit:
  assumes "distinct (map pt_marker (parseTaskItems parse md))"
  shows "edits_fit (length md) 0 (sort_key sr_start (marker_edits parse md b))"
proof (rule sorted_edits_fit [where c = "checkmark b"])
  let ?es = "sort_key sr_start (marker_edits parse md b)"
  show "sorted (map sr_start ?es)" by simp
  show "distinct (map sr_start ?es)"
    using distinct_marker_edits [OF assms, of b]
    by (simp add: distinct_map)
  show "list_all (char_edit (checkmark b)) ?es" by (simp add: list_all_iff marker_editsD)
  show "\<forall>e \<in> set ?es. 0 \<le> sr_start e \<and> 0 \<le> sr_start e \<and> sr_end e \<le> int (length md)"
    by (auto dest!: marker_editsD simp: char_edit_def checkbox_at_def)
qed

section \<open>Properties\<close>

text \<open>
  C26: the edits are applied as one left-to-right pass would. Whenever the bounds check accepts the
  sorted edits, cutting and pasting from the last edit to the first gives the text between the
  edits copied once, with each replacement in its place, so no edit shifts another's offsets.
\<close>

theorem edits_as_one_pass:
  assumes "edits_fit (length md) 0 (sort_key sr_start es)"
  shows "applyMarkdownEdits md es = splice_edits 0 md (sort_key sr_start es)"
  by (rule applyMarkdownEdits_splice [OF assms])

theorem edits_as_one_pass_witness:
  "edits_fit 4 0 (sort_key sr_start
      [\<lparr>sr_start = 2, sr_end = 3, me_replacement = ''Z''\<rparr>, \<lparr>sr_start = 0, sr_end = 1, me_replacement = ''YY''\<rparr>])
   \<and> applyMarkdownEdits ''abcd''
      [\<lparr>sr_start = 2, sr_end = 3, me_replacement = ''Z''\<rparr>, \<lparr>sr_start = 0, sr_end = 1, me_replacement = ''YY''\<rparr>]
     = ''YYbZd''"
  using edits_as_one_pass [of "''abcd''"
    "[\<lparr>sr_start = 2, sr_end = 3, me_replacement = ''Z''\<rparr>, \<lparr>sr_start = 0, sr_end = 1, me_replacement = ''YY''\<rparr>]"]
  by simp

text \<open>
  checking or unchecking all tasks touches checkbox marks only, whatever the parser answers:
  the length stays, and a position that differs held the mark of a \<open>[ ]\<close>, \<open>[x]\<close> or \<open>[X]\<close> of the
  text and now holds the new mark.
\<close>

theorem set_all_only_marks:
  "length (setAllTaskMarkers parse md b) = length md
   \<and> list_all (\<lambda>i. setAllTaskMarkers parse md b ! i = md ! i
        \<or> checkbox_at md i \<and> setAllTaskMarkers parse md b ! i = checkmark b) [0..<length md]"
proof (cases "edits_fit (length md) 0 (sort_key sr_start (marker_edits parse md b))")
  case True
  have "setAllTaskMarkers parse md b ! i = md ! i
        \<or> checkbox_at md i \<and> setAllTaskMarkers parse md b ! i = checkmark b" if "i < length md" for i
    using setAll_nth [OF True that] by (auto dest: marker_editsD)
  then show ?thesis by (simp add: setAll_length list_all_iff)
next
  case False
  then show ?thesis by (simp add: setAll_edits list_all_iff)
qed

text \<open>
  C1: when no two tasks share a marker, every task gets the mark asked for: a task that already
  had the state keeps its character, every other one is set.
\<close>

theorem set_all_complete:
  assumes "distinct (map pt_marker (parseTaskItems parse md))"
    and "t \<in> set (parseTaskItems parse md)" and "marker_at t i"
  shows "setAllTaskMarkers parse md b ! i = (if pt_checked t = b then md ! i else checkmark b)"
proof -
  obtain j where "marker_at t j" "checkbox_at md j"
    using parseTaskItems_marker [OF assms(2)] by blast
  with assms(3) have i: "i < length md" by (auto simp: marker_at_def checkbox_at_def)
  have "(\<exists>e \<in> set (marker_edits parse md b). sr_start e = int i) \<longleftrightarrow> pt_checked t \<noteq> b"
  proof
    assume "\<exists>e \<in> set (marker_edits parse md b). sr_start e = int i"
    then obtain u where u: "u \<in> set (parseTaskItems parse md)" "pt_checked u \<noteq> b"
      "sr_start (pt_marker u) = int i"
      by (auto simp: marker_edits_def marker_edit_def)
    then have "pt_marker u = pt_marker t"
      using assms(3) by (auto dest!: parseTaskItems_marker simp: marker_at_def)
    with assms(1,2) u show "pt_checked t \<noteq> b" by (auto simp: distinct_map inj_on_def)
  next
    assume "pt_checked t \<noteq> b"
    with assms(2,3) show "\<exists>e \<in> set (marker_edits parse md b). sr_start e = int i"
      by (auto simp: marker_edits_def intro!: bexI [of _ "marker_edit (checkmark b) t"]
          dest: sr_start_marker_edit)
  qed
  then show ?thesis using setAll_nth [OF distinct_edits_fit [OF assms(1)] i] by simp
qed

theorem set_all_complete_witness:
  "parseTaskItems (\<lambda>_. Some (parent_node ''root'' [task_node False 1 []])) ''- [ ] a''
     = [\<lparr>pt_checked = False, pt_marker = \<lparr>sr_start = 3, sr_end = 4\<rparr>\<rparr>]
   \<and> setAllTaskMarkers (\<lambda>_. Some (parent_node ''root'' [task_node False 1 []])) ''- [ ] a'' True ! 3
     = CHR ''x''"
proof -
  let ?p = "\<lambda>_. Some (parent_node ''root'' [task_node False 1 []])"
  have ts: "parseTaskItems ?p ''- [ ] a'' = [\<lparr>pt_checked = False, pt_marker = \<lparr>sr_start = 3, sr_end = 4\<rparr>\<rparr>]"
    by code_simp
  then show ?thesis
    using set_all_complete [of ?p "''- [ ] a''" "\<lparr>pt_checked = False, pt_marker = \<lparr>sr_start = 3, sr_end = 4\<rparr>\<rparr>" 3 True]
    by (simp add: marker_at_def checkmark_def)
qed

end
