(* ===== verification/ListDetection.thy ===== *)
theory ListDetection
  imports MarkdownTasks
begin

text \<open>
  \<^verbatim>\<open>utils/markdown-list-detection.ts\<close>: which list item the last line before the cursor is,
  and the text the editor inserts when Enter continues the list. Item numbers are natural
  numbers, exact below \<open>2 ^ 53\<close>, where the code's numbers are.
\<close>

datatype list_item_type = Task | Unordered | Ordered

text \<open>\<open>type: null\<close> and an absent field are \<open>None\<close>.\<close>

record list_item_info =
  lt_type :: "list_item_type option"
  lt_symbol :: "string option"
  lt_number :: "nat option"
  lt_indent :: "string option"

text \<open>\<open>/^(\s*)([-*+])\s+\[([ xX])\]\s+/\<close>: the second group.\<close>

definition match_task :: "string \<Rightarrow> char option" where
  "match_task l =
     (case dropWhile is_ws l of
        [] \<Rightarrow> None
      | b # r \<Rightarrow>
          if is_bullet b \<and> takeWhile is_ws r \<noteq> [] then
            (case dropWhile is_ws r of
               o1 # m # c1 # s \<Rightarrow>
                 if o1 = CHR ''['' \<and> is_mark m \<and> c1 = CHR '']'' \<and> takeWhile is_ws s \<noteq> []
                 then Some b else None
             | _ \<Rightarrow> None)
          else None)"

text \<open>\<open>/^(\s*)([-*+])\s+/\<close>: the second group.\<close>

definition match_unordered :: "string \<Rightarrow> char option" where
  "match_unordered l =
     (case dropWhile is_ws l of
        [] \<Rightarrow> None
      | b # r \<Rightarrow> if is_bullet b \<and> takeWhile is_ws r \<noteq> [] then Some b else None)"

text \<open>\<open>/^(\s*)(\d+)[.)]\s+/\<close>: the second group.\<close>

definition match_ordered :: "string \<Rightarrow> string option" where
  "match_ordered l =
     (let r = dropWhile is_ws l; ds = takeWhile is_digit r in
      if ds = [] then None
      else case dropWhile is_digit r of
             [] \<Rightarrow> None
           | e # r' \<Rightarrow> if (e = CHR ''.'' \<or> e = CHR '')'') \<and> takeWhile is_ws r' \<noteq> []
                       then Some ds else None)"

definition detectLastListItem :: "string \<Rightarrow> list_item_info" where
  "detectLastListItem contentBeforeCursor =
     (let lastLine = last (split_char nl contentBeforeCursor);
          indent = takeWhile is_ws lastLine in
      case match_task lastLine of
        Some b \<Rightarrow> \<lparr>lt_type = Some Task, lt_symbol = Some [b], lt_number = None, lt_indent = Some indent\<rparr>
      | None \<Rightarrow>
        (case match_unordered lastLine of
           Some b \<Rightarrow> \<lparr>lt_type = Some Unordered, lt_symbol = Some [b], lt_number = None,
                      lt_indent = Some indent\<rparr>
         | None \<Rightarrow>
           (case match_ordered lastLine of
              Some ds \<Rightarrow> \<lparr>lt_type = Some Ordered, lt_symbol = None, lt_number = Some (parse_digits ds),
                          lt_indent = Some indent\<rparr>
            | None \<Rightarrow> \<lparr>lt_type = None, lt_symbol = None, lt_number = None, lt_indent = Some indent\<rparr>)))"

text \<open>An absent symbol is printed by the template literal as \<open>undefined\<close>.\<close>

definition symbol_text :: "string option \<Rightarrow> string" where
  "symbol_text s = (case s of None \<Rightarrow> ''undefined'' | Some t \<Rightarrow> t)"

definition generateListContinuation :: "list_item_info \<Rightarrow> string" where
  "generateListContinuation listInfo =
     (let indent = (case lt_indent listInfo of None \<Rightarrow> [] | Some i \<Rightarrow> i) in
      case lt_type listInfo of
        Some Task \<Rightarrow> indent @ symbol_text (lt_symbol listInfo) @ '' [ ] ''
      | Some Unordered \<Rightarrow> indent @ symbol_text (lt_symbol listInfo) @ '' ''
      | Some Ordered \<Rightarrow>
          indent @ show_nat ((case lt_number listInfo of None \<Rightarrow> 0 | Some n \<Rightarrow> n) + 1) @ ''. ''
      | None \<Rightarrow> indent)"

section \<open>Lines built by the continuation\<close>

lemma split_char_at: "split_char c (s @ c # t) = split_char c s @ split_char c t"
proof (induction s)
  case Nil
  then show ?case by simp
next
  case (Cons x s)
  then show ?case by (cases "split_char c s") auto
qed

lemma last_split_append: "c \<notin> set t \<Longrightarrow> last (split_char c (s @ c # t)) = t"
  by (simp add: split_char_at split_char_plain)

lemma indent_drop:
  assumes "\<forall>c \<in> set w. is_ws c" and "\<not> is_ws x"
  shows "dropWhile is_ws (w @ x # r) = x # r" and "takeWhile is_ws (w @ x # r) = w"
  using assms by (simp_all add: dropWhile_append3 takeWhile_tail dropWhile_append2 takeWhile_append2)

lemma match_task_bullet: "match_task l = Some b \<Longrightarrow> is_bullet b"
  by (auto simp: match_task_def split: list.splits if_splits)

lemma match_unordered_bullet: "match_unordered l = Some b \<Longrightarrow> is_bullet b"
  by (auto simp: match_unordered_def split: list.splits if_splits)

lemma digit_not_bullet: "is_digit c \<Longrightarrow> \<not> is_bullet c"
  by (auto simp: is_digit_def is_bullet_def code_unit_def)

lemma digit_not_nl: "is_digit c \<Longrightarrow> c \<noteq> nl"
  by (auto simp: is_digit_def code_unit_def)

lemma bullet_not_nl: "is_bullet c \<Longrightarrow> c \<noteq> nl"
  by (auto simp: is_bullet_def)

lemma match_task_line_of:
  assumes "\<forall>c \<in> set w. is_ws c" "is_bullet b"
  shows "match_task (w @ b # '' [ ] '') = Some b"
  using assms by (simp add: match_task_def indent_drop bullet_not_ws space_ws bracket_not_ws is_mark_def)

lemma match_unordered_line_of:
  assumes "\<forall>c \<in> set w. is_ws c" "is_bullet b"
  shows "match_unordered (w @ b # '' '') = Some b" and "match_task (w @ b # '' '') = None"
  using assms
  by (simp_all add: match_unordered_def match_task_def indent_drop bullet_not_ws space_ws)

lemma match_ordered_line_of:
  assumes w: "\<forall>c \<in> set w. is_ws c"
  shows "match_ordered (w @ show_nat n @ ''. '') = Some (show_nat n)"
    and "match_unordered (w @ show_nat n @ ''. '') = None"
    and "match_task (w @ show_nat n @ ''. '') = None"
proof -
  obtain d ds where d: "show_nat n = d # ds" using show_nat_ne [of n] by (cases "show_nat n") auto
  have dig: "is_digit d" "\<forall>c \<in> set (d # ds). is_digit c"
    using show_nat_digits [of _ n] d by auto
  have drop: "dropWhile is_ws (w @ show_nat n @ ''. '') = show_nat n @ ''. ''"
    using w dig d by (simp add: indent_drop digit_not_ws)
  have nd: "\<not> is_digit CHR ''.''" by (simp add: is_digit_def code_unit_def)
  have "takeWhile is_digit (show_nat n @ ''. '') = show_nat n"
    "dropWhile is_digit (show_nat n @ ''. '') = ''. ''"
    using show_nat_digits [of _ n] nd by (simp_all add: takeWhile_append2 dropWhile_append2)
  then show "match_ordered (w @ show_nat n @ ''. '') = Some (show_nat n)"
    by (simp add: match_ordered_def drop space_ws)
  show "match_unordered (w @ show_nat n @ ''. '') = None" "match_task (w @ show_nat n @ ''. '') = None"
    unfolding match_unordered_def match_task_def drop using dig d by (simp_all add: digit_not_bullet)
qed

lemma detect_indent_ws:
  "lt_indent (detectLastListItem s) = Some i \<Longrightarrow> (\<forall>c \<in> set i. is_ws c) \<and> nl \<notin> set i"
proof -
  assume a: "lt_indent (detectLastListItem s) = Some i"
  have "i = takeWhile is_ws (last (split_char nl s))"
    using a by (auto simp: detectLastListItem_def Let_def split: option.splits)
  moreover have "nl \<notin> set (last (split_char nl s))"
    by (meson last_in_set split_char_ne split_char_no_sep)
  ultimately show ?thesis by (auto dest: set_takeWhileD)
qed

lemma detect_has_indent: "\<exists>i. lt_indent (detectLastListItem s) = Some i"
  by (auto simp: detectLastListItem_def Let_def split: option.splits)

lemma detect_last_line:
  "nl \<notin> set t \<Longrightarrow> detectLastListItem (s @ nl # t) = detectLastListItem t"
  by (simp add: detectLastListItem_def last_split_append split_char_plain)

section \<open>Properties\<close>

text \<open>
  continuing a list gives an item of the same list. When the text before the cursor ends in a
  list item, the line that Enter inserts is detected again as an item of the same kind, bullet and
  indentation, and the number of an ordered list goes up by one. On a line that is no list item the
  continuation keeps the indentation.
\<close>

theorem continuation_continues:
  "detectLastListItem (s @ nl # generateListContinuation (detectLastListItem s))
   = (detectLastListItem s)\<lparr>lt_number := map_option Suc (lt_number (detectLastListItem s))\<rparr>"
proof -
  let ?l = "last (split_char nl s)"
  define w where "w = takeWhile is_ws ?l"
  obtain i where "lt_indent (detectLastListItem s) = Some i" using detect_has_indent by blast
  then have w: "\<forall>c \<in> set w. is_ws c" "nl \<notin> set w"
    using detect_indent_ws [of s w]
    by (auto simp: detectLastListItem_def w_def Let_def split: option.splits)
  note unf = detectLastListItem_def [of s] Let_def w_def [symmetric]
  have last_line: "detectLastListItem (s @ nl # t) =
      (case match_task t of
        Some b \<Rightarrow> \<lparr>lt_type = Some Task, lt_symbol = Some [b], lt_number = None, lt_indent = Some (takeWhile is_ws t)\<rparr>
      | None \<Rightarrow>
        (case match_unordered t of
           Some b \<Rightarrow> \<lparr>lt_type = Some Unordered, lt_symbol = Some [b], lt_number = None,
                      lt_indent = Some (takeWhile is_ws t)\<rparr>
         | None \<Rightarrow>
           (case match_ordered t of
              Some ds \<Rightarrow> \<lparr>lt_type = Some Ordered, lt_symbol = None, lt_number = Some (parse_digits ds),
                          lt_indent = Some (takeWhile is_ws t)\<rparr>
            | None \<Rightarrow> \<lparr>lt_type = None, lt_symbol = None, lt_number = None, lt_indent = Some (takeWhile is_ws t)\<rparr>)))"
    if "nl \<notin> set t" for t
    using that by (simp add: detect_last_line) (simp add: detectLastListItem_def split_char_plain Let_def)
  consider (task) b where "match_task ?l = Some b"
    | (un) b where "match_task ?l = None" "match_unordered ?l = Some b"
    | (ord) ds where "match_task ?l = None" "match_unordered ?l = None" "match_ordered ?l = Some ds"
    | (no) "match_task ?l = None" "match_unordered ?l = None" "match_ordered ?l = None"
    by (metis not_Some_eq)
  then show ?thesis
  proof cases
    case task
    then have b: "is_bullet b" by (rule match_task_bullet)
    have g: "generateListContinuation (detectLastListItem s) = w @ b # '' [ ] ''"
      using task by (simp add: unf generateListContinuation_def symbol_text_def)
    have "nl \<notin> set (w @ b # '' [ ] '')" using w b bullet_not_nl by auto
    then show ?thesis
      using task w b
      by (simp add: g last_line match_task_line_of indent_drop bullet_not_ws) (simp add: unf)
  next
    case un
    then have b: "is_bullet b" by (auto dest: match_unordered_bullet)
    have g: "generateListContinuation (detectLastListItem s) = w @ b # '' ''"
      using un by (simp add: unf generateListContinuation_def symbol_text_def)
    have "nl \<notin> set (w @ b # '' '')" using w b bullet_not_nl by auto
    then show ?thesis
      using un w b
      by (simp add: g last_line match_unordered_line_of indent_drop bullet_not_ws) (simp add: unf)
  next
    case ord
    let ?n = "show_nat (parse_digits ds + 1)"
    have g: "generateListContinuation (detectLastListItem s) = w @ ?n @ ''. ''"
      using ord by (simp add: unf generateListContinuation_def)
    obtain d e where d: "?n = d # e" using show_nat_ne by (metis list.exhaust)
    have "is_digit d" using d show_nat_digits [of d "parse_digits ds + 1"] by simp
    then have "\<not> is_ws d" by (simp add: digit_not_ws)
    then have tw: "takeWhile is_ws (w @ ?n @ ''. '') = w" using w d by (simp add: indent_drop)
    have "nl \<notin> set ?n" using show_nat_digits digit_not_nl by blast
    then have "nl \<notin> set (w @ ?n @ ''. '')" using w by simp
    then show ?thesis
      using ord w tw
      by (simp add: g last_line match_ordered_line_of) (simp add: unf)
  next
    case no
    have g: "generateListContinuation (detectLastListItem s) = w"
      using no by (simp add: unf generateListContinuation_def)
    have dw: "dropWhile is_ws w = []" and "takeWhile is_ws w = w" using w by (simp_all add: dropWhile_eq_Nil_conv takeWhile_eq_all_conv)
    then have "match_task w = None" "match_unordered w = None" "match_ordered w = None" "takeWhile is_ws w = w"
      unfolding match_task_def match_unordered_def match_ordered_def dw by simp_all
    then show ?thesis
      using no w by (simp add: g last_line) (simp add: unf)
  qed
qed

end
