(* ===== verification/Outline.thy ===== *)
theory Outline
  imports Mdast
begin

text \<open>
  The outline of a memo: \<open>slugify\<close> and \<open>extractHeadings\<close> of
  \<^verbatim>\<open>utils/markdown-manipulation.ts\<close>, which list the headings h1 to h4 with the anchors the
  outline links to, and \<^verbatim>\<open>utils/rehype-plugins/rehype-heading-id.ts\<close>, which puts the anchors
  on the rendered headings h1 to h6.
\<close>

section \<open>Slugs\<close>

lemma dropWhile_shorter [termination_simp]: "length (dropWhile p cs) < Suc (length cs)"
  by (simp add: length_dropWhile_le less_Suc_eq_le)

text \<open>\<open>s.replace(/[p]+/g, r)\<close>: each maximal run of the class is replaced by \<open>r\<close>.\<close>

fun replace_runs :: "(char \<Rightarrow> bool) \<Rightarrow> string \<Rightarrow> string \<Rightarrow> string" where
  "replace_runs p r [] = []"
| "replace_runs p r (c # cs) =
     (if p c then r @ replace_runs p r (dropWhile p cs) else c # replace_runs p r cs)"

abbreviation hyphen :: char where
  "hyphen \<equiv> CHR ''-''"

text \<open>\<open>s.replace(/^-|-$/g, "")\<close>.\<close>

definition strip_hyphens :: "string \<Rightarrow> string" where
  "strip_hyphens s =
     (let s1 = (case s of [] \<Rightarrow> [] | c # r \<Rightarrow> if c = hyphen then r else s) in
      if s1 \<noteq> [] \<and> last s1 = hyphen then butlast s1 else s1)"

definition slug_keep :: "char \<Rightarrow> bool" where
  "slug_keep c \<longleftrightarrow> is_word_char c \<or> is_ws c \<or> c = hyphen"

definition slug_sep :: "char \<Rightarrow> bool" where
  "slug_sep c \<longleftrightarrow> is_ws c \<or> c = CHR ''_''"

definition slugify :: "string \<Rightarrow> string" where
  "slugify text =
     strip_hyphens
       (replace_runs (\<lambda>c. c = hyphen) [hyphen]
         (replace_runs slug_sep [hyphen]
           (filter slug_keep (trim (toLowerCase text)))))"

section \<open>Headings of the outline\<close>

record heading_item =
  hd_text :: string
  hd_level :: nat
  hd_slug :: string

text \<open>
  One slug, given the counts so far (a \<open>Map\<close> from slugs to numbers): the second and later uses
  get a suffix.
\<close>

definition count_of :: "(string \<times> nat) list \<Rightarrow> string \<Rightarrow> nat" where
  "count_of counts slug = (case map_of counts slug of None \<Rightarrow> 0 | Some n \<Rightarrow> n)"

definition number_slug :: "(string \<times> nat) list \<Rightarrow> string \<Rightarrow> string" where
  "number_slug counts slug =
     (let count = count_of counts slug in
      if count > 0 then slug @ ''-'' @ show_nat count else slug)"

definition bump_slug :: "(string \<times> nat) list \<Rightarrow> string \<Rightarrow> (string \<times> nat) list" where
  "bump_slug counts slug = AList.update slug (count_of counts slug + 1) counts"

fun collect_headings :: "(string \<times> nat) list \<Rightarrow> mdast list \<Rightarrow> heading_item list" where
  "collect_headings counts [] = []"
| "collect_headings counts (node # nodes) =
     (if md_depth node < 1 \<or> md_depth node > 4 then collect_headings counts nodes
      else
        let text = getNodeText node in
        if text = [] then collect_headings counts nodes
        else
          let slug = slugify text in
          \<lparr>hd_text = text, hd_level = md_depth node, hd_slug = number_slug counts slug\<rparr>
            # collect_headings (bump_slug counts slug) nodes)"

definition extractHeadings :: "(string \<Rightarrow> mdast option) \<Rightarrow> string \<Rightarrow> heading_item list option" where
  "extractHeadings parse markdown =
     map_option (\<lambda>tree. collect_headings [] (visit_nodes ''heading'' tree)) (parse markdown)"

section \<open>Anchors of the rendered page\<close>

datatype hast =
    HElement (tagName: string) (hid: "string option") (hchildren: "hast list")
  | HText string
  | HOther

text \<open>\<open>getTextContent\<close>: the text of the children, elements included.\<close>

fun getTextContent :: "hast \<Rightarrow> string" where
  "getTextContent (HElement _ _ cs) =
     concat (map (\<lambda>c. case c of HText s \<Rightarrow> s | HElement _ _ _ \<Rightarrow> getTextContent c | HOther \<Rightarrow> []) cs)"
| "getTextContent (HText s) = []"
| "getTextContent HOther = []"

text \<open>\<open>/^h[1-6]$/\<close>.\<close>

definition is_heading_tag :: "string \<Rightarrow> bool" where
  "is_heading_tag t \<longleftrightarrow> t \<in> {''h1'', ''h2'', ''h3'', ''h4'', ''h5'', ''h6''}"

text \<open>
  The visitor on one element: the new counts and the new \<open>id\<close> property (the old one when the
  visitor returns early).
\<close>

definition heading_id ::
  "(string \<times> nat) list \<Rightarrow> string \<Rightarrow> string \<Rightarrow> string option \<Rightarrow> string option \<times> (string \<times> nat) list" where
  "heading_id counts tag text old =
     (if \<not> is_heading_tag tag then (old, counts)
      else let slug = slugify text in
        if slug = [] then (old, counts)
        else (Some (number_slug counts slug), bump_slug counts slug))"

text \<open>\<open>visit(tree, "element", \<dots>)\<close> in preorder, the counts threaded through.\<close>

fun heading_ids :: "(string \<times> nat) list \<Rightarrow> hast \<Rightarrow> hast \<times> (string \<times> nat) list"
  and heading_ids_list :: "(string \<times> nat) list \<Rightarrow> hast list \<Rightarrow> hast list \<times> (string \<times> nat) list" where
  "heading_ids counts (HElement tag i cs) =
     (let (i', counts1) = heading_id counts tag (getTextContent (HElement tag i cs)) i;
          (cs', counts2) = heading_ids_list counts1 cs in
      (HElement tag i' cs', counts2))"
| "heading_ids counts (HText s) = (HText s, counts)"
| "heading_ids counts HOther = (HOther, counts)"
| "heading_ids_list counts [] = ([], counts)"
| "heading_ids_list counts (c # cs) =
     (let (c', counts1) = heading_ids counts c;
          (cs', counts2) = heading_ids_list counts1 cs in
      (c' # cs', counts2))"

text \<open>\<open>rehypeHeadingId\<close> on the children of the root.\<close>

definition rehypeHeadingId :: "hast list \<Rightarrow> hast list" where
  "rehypeHeadingId root = fst (heading_ids_list [] root)"

section \<open>Lemmas on slugs\<close>

definition slug_char :: "char \<Rightarrow> bool" where
  "slug_char c \<longleftrightarrow> is_lower_ascii c \<or> is_digit c \<or> c = hyphen"

fun no_double :: "string \<Rightarrow> bool" where
  "no_double (a # b # s) = (\<not> (a = hyphen \<and> b = hyphen) \<and> no_double (b # s))"
| "no_double _ = True"

lemma lower_not_upper: "\<not> is_upper_ascii (lower_char c)"
  using code_unit_less [of c] by (auto simp: is_upper_ascii_def code_unit_lower_char split: if_splits)

lemma set_replace_runs: "set (replace_runs p r s) \<subseteq> set r \<union> {c \<in> set s. \<not> p c}"
  by (induction p r s rule: replace_runs.induct) (auto dest: set_dropWhileD)

definition starts_hyphen :: "string \<Rightarrow> bool" where
  "starts_hyphen s \<longleftrightarrow> s \<noteq> [] \<and> hd s = hyphen"

lemma starts_hyphen_simps [simp]: "\<not> starts_hyphen []" "starts_hyphen (c # s) \<longleftrightarrow> c = hyphen"
  by (simp_all add: starts_hyphen_def)

lemma replace_runs_hd:
  "starts_hyphen (replace_runs (\<lambda>c. c = hyphen) [hyphen] s) \<longleftrightarrow> starts_hyphen s"
  by (cases s) auto

lemma drop_hyphens_hd: "\<not> starts_hyphen (dropWhile (\<lambda>c. c = hyphen) s)"
  by (induction s) auto

lemma no_double_Cons: "no_double (c # s) \<longleftrightarrow> no_double s \<and> \<not> (c = hyphen \<and> starts_hyphen s)"
  by (cases s) auto

lemma no_double_collapse: "no_double (replace_runs (\<lambda>c. c = hyphen) [hyphen] s)"
proof (induction "\<lambda>c. c = hyphen" "[hyphen]" s rule: replace_runs.induct)
  case 1
  then show ?case by simp
next
  case (2 c cs)
  then show ?case by (simp add: no_double_Cons replace_runs_hd drop_hyphens_hd)
qed

lemma no_double_tl: "no_double (c # s) \<Longrightarrow> no_double s"
  by (simp add: no_double_Cons)

lemma no_double_butlast: "no_double s \<Longrightarrow> no_double (butlast s)"
  by (induction s rule: no_double.induct) (auto simp: no_double_Cons)

lemma collapse_id: "no_double s \<Longrightarrow> replace_runs (\<lambda>c. c = hyphen) [hyphen] s = s"
proof (induction s)
  case Nil
  then show ?case by simp
next
  case (Cons c s)
  then have "no_double s" "c = hyphen \<Longrightarrow> dropWhile (\<lambda>c. c = hyphen) s = s"
    by (auto simp: no_double_Cons) (cases s, auto)
  with Cons.IH show ?case by auto
qed

text \<open>What every slug looks like.\<close>

definition slug_ok :: "string \<Rightarrow> bool" where
  "slug_ok s \<longleftrightarrow> list_all slug_char s \<and> no_double s
     \<and> (s = [] \<or> hd s \<noteq> hyphen \<and> last s \<noteq> hyphen)"

lemma strip_hyphens_ok:
  assumes "list_all slug_char s" "no_double s"
  shows "slug_ok (strip_hyphens s)"
proof -
  define s1 where "s1 = (case s of [] \<Rightarrow> [] | c # r \<Rightarrow> if c = hyphen then r else s)"
  have "list_all slug_char s1 \<and> no_double s1 \<and> \<not> starts_hyphen s1"
  proof (cases s)
    case Nil
    then show ?thesis by (simp add: s1_def)
  next
    case (Cons c r)
    then show ?thesis using assms by (cases "c = hyphen") (simp_all add: s1_def no_double_Cons)
  qed
  then have s1: "list_all slug_char s1" "no_double s1" "s1 = [] \<or> hd s1 \<noteq> hyphen"
    by (auto simp: starts_hyphen_def)
  show ?thesis
  proof (cases "s1 \<noteq> [] \<and> last s1 = hyphen")
    case True
    then have st: "strip_hyphens s = butlast s1" by (simp add: strip_hyphens_def s1_def Let_def)
    obtain t where t: "s1 = t @ [hyphen]" using True by (metis append_butlast_last_id)
    have "no_double (t @ [hyphen]) \<Longrightarrow> t = [] \<or> last t \<noteq> hyphen" for t
      by (induction t rule: no_double.induct) (auto simp: no_double_Cons)
    with s1 t have "t = [] \<or> last t \<noteq> hyphen" by blast
    moreover have "t = [] \<or> hd t \<noteq> hyphen" using s1(3) t by (cases t) auto
    ultimately show ?thesis
      using s1 no_double_butlast [OF s1(2)] by (simp add: st slug_ok_def t) blast
  next
    case False
    have "strip_hyphens s = (if s1 \<noteq> [] \<and> last s1 = hyphen then butlast s1 else s1)"
      unfolding strip_hyphens_def s1_def Let_def by (rule refl)
    with False have st: "strip_hyphens s = s1" by auto
    show ?thesis using False s1 by (auto simp: st slug_ok_def)
  qed
qed

lemma strip_hyphens_id: "slug_ok s \<Longrightarrow> strip_hyphens s = s"
  by (cases s) (auto simp: slug_ok_def strip_hyphens_def)

lemma slugify_chars:
  "list_all slug_char (replace_runs (\<lambda>c. c = hyphen) [hyphen]
     (replace_runs slug_sep [hyphen] (filter slug_keep (trim (toLowerCase text)))))"
proof -
  have low: "c \<in> set (trim (toLowerCase text)) \<Longrightarrow> \<not> is_upper_ascii c" for c
    using set_trim [of "toLowerCase text"] by (auto simp: toLowerCase_def lower_not_upper)
  have "slug_char c" if "slug_keep c" "\<not> slug_sep c" "\<not> is_upper_ascii c" for c
    using that by (auto simp: slug_char_def slug_keep_def slug_sep_def is_word_char_def is_alnum_ascii_def)
  moreover have "slug_char hyphen" by (simp add: slug_char_def)
  ultimately have "c \<in> set (replace_runs slug_sep [hyphen] (filter slug_keep (trim (toLowerCase text))))
      \<Longrightarrow> slug_char c" for c
    using set_replace_runs [of slug_sep "[hyphen]" "filter slug_keep (trim (toLowerCase text))"] low by auto
  then show ?thesis
    using set_replace_runs [of "\<lambda>c. c = hyphen" "[hyphen]"] \<open>slug_char hyphen\<close>
    by (fastforce simp: list_all_iff)
qed

lemma slugify_ok: "slug_ok (slugify text)"
  unfolding slugify_def by (rule strip_hyphens_ok [OF slugify_chars no_double_collapse])

lemma slug_char_cases: "slug_char c \<Longrightarrow> \<not> is_ws c \<and> slug_keep c \<and> \<not> slug_sep c \<and> lower_char c = c"
  by (auto simp: slug_char_def slug_keep_def slug_sep_def is_ws_def is_word_char_def is_alnum_ascii_def
      is_lower_ascii_def is_digit_def lower_char_def Let_def code_unit_def)

lemma replace_runs_none: "list_all (\<lambda>c. \<not> p c) s \<Longrightarrow> replace_runs p r s = s"
  by (induction s) auto

lemma trim_none: "list_all (\<lambda>c. \<not> is_ws c) s \<Longrightarrow> trim s = s"
proof -
  assume a: "list_all (\<lambda>c. \<not> is_ws c) s"
  then have "dropWhile is_ws s = s" "dropWhile is_ws (rev s) = rev s"
    by (cases s, auto) (cases "rev s", auto simp: list_all_iff simp flip: set_rev [of s])
  then show ?thesis by (simp add: trim_def trimStart_def trimEnd_def)
qed

lemma slugify_id:
  assumes "slug_ok s"
  shows "slugify s = s"
proof -
  have c: "list_all slug_char s" using assms by (simp add: slug_ok_def)
  then have "map lower_char s = s" "filter slug_keep s = s" "list_all (\<lambda>c. \<not> slug_sep c) s"
    "list_all (\<lambda>c. \<not> is_ws c) s"
    by (auto simp: list_all_iff slug_char_cases intro: map_idI)
  then show ?thesis
    using assms
    by (simp add: slugify_def toLowerCase_def trim_none replace_runs_none collapse_id strip_hyphens_id slug_ok_def)
qed

section \<open>Properties\<close>

text \<open>
  a slug is a clean anchor: only lower-case ASCII letters, digits and single hyphens, with no
  hyphen at either end, and slugifying it again changes nothing.
\<close>

theorem slugify_clean: "slug_ok (slugify text) \<and> slugify (slugify text) = slugify text"
  by (simp add: slugify_ok slugify_id)

text \<open>
  the anchors of an outline are not unique. The suffix that numbers a repeated heading is not
  checked against the other slugs, so the headings \<open>a\<close>, \<open>a\<close> and \<open>a 1\<close> get the anchors \<open>a\<close>,
  \<open>a-1\<close> and \<open>a-1\<close>, and the link to the third heading goes to the second.
\<close>

theorem outline_anchor_collision:
  "map_option (map hd_slug)
     (extractHeadings (\<lambda>_. Some (parent_node ''root''
        [heading_node 1 ''a'', heading_node 1 ''a'', heading_node 1 ''a 1''])) md)
   = Some [''a'', ''a-1'', ''a-1'']"
proof -
  have "collect_headings [] (visit_nodes ''heading'' (parent_node ''root''
      [heading_node 1 ''a'', heading_node 1 ''a'', heading_node 1 ''a 1'']))
    = [\<lparr>hd_text = ''a'', hd_level = 1, hd_slug = ''a''\<rparr>,
       \<lparr>hd_text = ''a'', hd_level = 1, hd_slug = ''a-1''\<rparr>,
       \<lparr>hd_text = ''a 1'', hd_level = 1, hd_slug = ''a-1''\<rparr>]"
    by code_simp
  then show ?thesis by (simp add: extractHeadings_def)
qed

end
