(* ===== verification/Tags.thy ===== *)
theory Tags
  imports Mdast
begin

text \<open>
  Tags: the grammar (\<^verbatim>\<open>utils/tag-grammar.ts\<close>), the renderer's lexer and tree pass
  (\<^verbatim>\<open>utils/remark-plugins/remark-tag.ts\<close>), the editor's tokenizer
  (\<^verbatim>\<open>components/MemoEditor/Editor/Tag.ts\<close>) and the escape the editor applies when it writes
  markdown (\<^verbatim>\<open>components/MemoEditor/Editor/tagMarkdown.ts\<close>). The character class is the exact
  restriction of the Unicode class of the code to the characters below 256.
\<close>

abbreviation hash :: char where
  "hash \<equiv> CHR ''#''"

abbreviation backslash :: char where
  "backslash \<equiv> CHR 0x5C"

section \<open>The grammar\<close>

definition isTagChar :: "char \<Rightarrow> bool" where
  "isTagChar c \<longleftrightarrow>
     (let n = code_unit c in
      n = 36 \<or> n = 38 \<or> n = 43 \<or> n = 45 \<or> (47 \<le> n \<and> n \<le> 57) \<or> (60 \<le> n \<and> n \<le> 62)
      \<or> (65 \<le> n \<and> n \<le> 90) \<or> (94 \<le> n \<and> n \<le> 122) \<or> n = 124 \<or> n = 126
      \<or> (162 \<le> n \<and> n \<le> 166) \<or> (168 \<le> n \<and> n \<le> 170) \<or> n = 172 \<or> (174 \<le> n \<and> n \<le> 181)
      \<or> (184 \<le> n \<and> n \<le> 186) \<or> (188 \<le> n \<and> n \<le> 190) \<or> 192 \<le> n)"

definition MAX_TAG_LENGTH :: nat where
  "MAX_TAG_LENGTH = 100"

text \<open>
  \<open>TAG_RUN\<close> at the start of a string: a maximal run of 1 to 100 tag characters. A shorter match
  of the counted class is always followed by a tag character, which the lookahead refuses.
\<close>

definition match_tag_run :: "string \<Rightarrow> string option" where
  "match_tag_run s =
     (let run = takeWhile isTagChar s in
      if 1 \<le> length run \<and> length run \<le> MAX_TAG_LENGTH then Some run else None)"

lemma hash_not_tag [simp]: "\<not> isTagChar hash"
  by (simp add: isTagChar_def Let_def code_unit_def)

lemma backslash_not_tag [simp]: "\<not> isTagChar backslash"
  by (simp add: isTagChar_def Let_def code_unit_def)

section \<open>The renderer's lexer\<close>

datatype segment = TextSeg string | TagSeg string

definition isAsciiPunctuation :: "char \<Rightarrow> bool" where
  "isAsciiPunctuation c \<longleftrightarrow>
     (let code = code_unit c in
      (0x21 \<le> code \<and> code \<le> 0x2f) \<or> (0x3a \<le> code \<and> code \<le> 0x40)
      \<or> (0x5b \<le> code \<and> code \<le> 0x60) \<or> (0x7b \<le> code \<and> code \<le> 0x7e))"

text \<open>The two arrays \<open>chars\<close> and \<open>escaped\<close> are one list of pairs.\<close>

fun unescapeBackslashes :: "string \<Rightarrow> (char \<times> bool) list" where
  "unescapeBackslashes [] = []"
| "unescapeBackslashes [c] = [(c, False)]"
| "unescapeBackslashes (c # d # cs) =
     (if c = backslash \<and> isAsciiPunctuation d then (d, True) # unescapeBackslashes cs
      else (c, False) # unescapeBackslashes (d # cs))"

text \<open>What ends a run of plain text: a hash that was not escaped.\<close>

definition live_hash :: "char \<times> bool \<Rightarrow> bool" where
  "live_hash x \<longleftrightarrow> fst x = hash \<and> \<not> snd x"

definition tag_content :: "(char \<times> bool) list \<Rightarrow> string" where
  "tag_content cs = takeWhile isTagChar (map fst cs)"

definition text_run :: "(char \<times> bool) list \<Rightarrow> string" where
  "text_run cs = map fst (takeWhile (\<lambda>x. \<not> live_hash x) cs)"

text \<open>
  \<open>parseSegments\<close> from the index \<open>i\<close> on: \<open>prev\<close> is the character before it and the list the
  characters from it.
\<close>

definition eligible :: "char \<times> bool \<Rightarrow> (char \<times> bool) list \<Rightarrow> bool" where
  "eligible x cs \<longleftrightarrow> live_hash x \<and> (case cs of [] \<Rightarrow> False | y # _ \<Rightarrow> isTagChar (fst y))"

definition blocked :: "char option \<Rightarrow> (char \<times> bool) list \<Rightarrow> bool" where
  "blocked prev cs \<longleftrightarrow>
     prev = Some hash \<or> (case cs of [] \<Rightarrow> False | y # _ \<Rightarrow> fst y = hash \<or> fst y = CHR '' '')"

function parseSegments :: "char option \<Rightarrow> (char \<times> bool) list \<Rightarrow> segment list" where
  "parseSegments prev [] = []"
| "parseSegments prev (x # cs) =
     (let run = text_run cs;
          plain = TextSeg (fst x # run) # parseSegments (Some (last (fst x # run))) (drop (length run) cs) in
      if eligible x cs then
        if blocked prev cs then TextSeg [fst x] # parseSegments (Some (fst x)) cs
        else
          let tagContent = tag_content cs in
          if 0 < length tagContent \<and> length tagContent \<le> MAX_TAG_LENGTH
          then TagSeg tagContent # parseSegments (Some (last tagContent)) (drop (length tagContent) cs)
          else plain
      else plain)"
  by pat_completeness auto
termination
  by (relation "measure (\<lambda>(prev, cs). length cs)") auto

definition plain_chars :: "string \<Rightarrow> (char \<times> bool) list" where
  "plain_chars s = map (\<lambda>c. (c, False)) s"

text \<open>JavaScript's \<open>source.slice(a, b)\<close> for offsets that are not negative.\<close>

definition slice :: "string \<Rightarrow> nat \<Rightarrow> nat \<Rightarrow> string" where
  "slice s a b = take (b - a) (drop a s)"

definition segmentsForTextNode :: "string \<Rightarrow> position option \<Rightarrow> string \<Rightarrow> segment list" where
  "segmentsForTextNode val pos source =
     (let plain = parseSegments None (plain_chars val) in
      case pos of
        None \<Rightarrow> plain
      | Some p \<Rightarrow>
          (case (pos_start p, pos_end p) of
             (Some a, Some b) \<Rightarrow>
               if source \<noteq> [] then
                 (let cs = unescapeBackslashes (slice source a b) in
                  if map fst cs = val then parseSegments None cs else plain)
               else plain
           | _ \<Rightarrow> plain))"

section \<open>The renderer's tree pass\<close>

definition createTagNode :: "string \<Rightarrow> mdast" where
  "createTagNode tagValue =
     MdNode ''tagNode'' (Some tagValue) None 0 False None
       (Some \<lparr>nd_hName = Some ''span'', nd_className = Some ''tag'',
              nd_attribute = Some (''data-tag'', tagValue), nd_hChildren = [hash # tagValue],
              nd_mdastType = None\<rparr>) []"

definition isLinkNode :: "mdast \<Rightarrow> bool" where
  "isLinkNode n \<longleftrightarrow> md_type n = ''link'' \<or> md_type n = ''linkReference''"

definition is_text_seg :: "segment \<Rightarrow> bool" where
  "is_text_seg s \<longleftrightarrow> (case s of TextSeg _ \<Rightarrow> True | TagSeg _ \<Rightarrow> False)"

definition seg_node :: "segment \<Rightarrow> mdast" where
  "seg_node s = (case s of TextSeg t \<Rightarrow> text_node t | TagSeg t \<Rightarrow> createTagNode t)"

text \<open>The nodes that replace one child of a parent.\<close>

definition tag_text_nodes :: "mdast \<Rightarrow> string \<Rightarrow> mdast list" where
  "tag_text_nodes child source =
     (let segments = segmentsForTextNode (text_value child) (md_position child) source in
      if list_all is_text_seg segments then [child] else map seg_node segments)"

fun transformTagTextNodes :: "bool \<Rightarrow> string \<Rightarrow> mdast \<Rightarrow> mdast" where
  "transformTagTextNodes insideLink source (MdNode ty v ch d sp p dt cs) =
     MdNode ty v ch d sp p dt
       (concat (map (\<lambda>child.
          let childInsideLink = insideLink \<or> isLinkNode child in
          if md_type child = ''text'' \<and> \<not> childInsideLink then tag_text_nodes child source
          else [transformTagTextNodes childInsideLink source child]) cs))"

definition remarkTag :: "string \<Rightarrow> mdast \<Rightarrow> mdast" where
  "remarkTag source tree = transformTagTextNodes False source tree"

section \<open>The editor\<close>

record tag_token =
  tt_raw :: string
  tt_tag :: string

text \<open>\<open>start\<close> (\<open>-1\<close> is \<open>None\<close>) and \<open>tokenize\<close>.\<close>

definition tag_start :: "string \<Rightarrow> nat option" where
  "tag_start src = find_index (\<lambda>c. c = hash) src"

definition tag_tokenize :: "string \<Rightarrow> tag_token option" where
  "tag_tokenize src =
     (case src of
        [] \<Rightarrow> None
      | c # r \<Rightarrow>
          if c = hash then
            (case match_tag_run r of
               None \<Rightarrow> None
             | Some run \<Rightarrow>
                 if startsWith (drop (length run) r) [hash] then None
                 else Some \<lparr>tt_raw = hash # run, tt_tag = run\<rparr>)
          else None)"

text \<open>\<open>TAG_HASH\<close> is a hash before a \<open>TAG_RUN\<close>; the replacement \<open>\\#\<close> inserts a backslash.\<close>

fun escapeTagHashes :: "string \<Rightarrow> string" where
  "escapeTagHashes [] = []"
| "escapeTagHashes (c # cs) =
     (if c = hash \<and> match_tag_run cs \<noteq> None then backslash # hash # escapeTagHashes cs
      else c # escapeTagHashes cs)"

text \<open>
  \<open>escapesTagsHere\<close>: the names of the node's marks, which marks and node types the schema marks
  as \<open>code\<close> (the schema is built by the editor library), and the type of the parent.
\<close>

fun marks_escape :: "(string \<Rightarrow> bool) \<Rightarrow> string list \<Rightarrow> bool" where
  "marks_escape mark_code [] = True"
| "marks_escape mark_code (name # names) =
     (if name = ''link'' then False
      else if mark_code name then False
      else marks_escape mark_code names)"

definition escapesTagsHere ::
  "(string \<Rightarrow> bool) \<Rightarrow> (string \<Rightarrow> bool) \<Rightarrow> string list \<Rightarrow> string option \<Rightarrow> bool" where
  "escapesTagsHere mark_code node_code marks parentType =
     (if \<not> marks_escape mark_code marks then False
      else case parentType of
             None \<Rightarrow> True
           | Some t \<Rightarrow> if t \<noteq> [] \<and> node_code t then False else True)"

text \<open>
  A node of the editor's document, with its marks by name. \<open>None\<close> is a mark list that is absent.
\<close>

datatype json_content = JsonNode (jn_type: string) (jn_text: string) (jn_marks: "string list option")
  (jn_content: "json_content list")

fun stripTagInsideLinks :: "json_content \<Rightarrow> json_content" where
  "stripTagInsideLinks (JsonNode ty t marks cs) =
     JsonNode ty t
       (case marks of
          None \<Rightarrow> None
        | Some ms \<Rightarrow> Some (if ''link'' \<in> set ms then filter (\<lambda>m. m \<noteq> ''tag'') ms else ms))
       (map stripTagInsideLinks cs)"

text \<open>What the patched manager does with the text \<open>encoded\<close> that the library returns.\<close>

definition encodeTextForMarkdown ::
  "(string \<Rightarrow> bool) \<Rightarrow> (string \<Rightarrow> bool) \<Rightarrow> string \<Rightarrow> string list \<Rightarrow> string option \<Rightarrow> string" where
  "encodeTextForMarkdown mark_code node_code encoded marks parentType =
     (if escapesTagsHere mark_code node_code marks parentType then escapeTagHashes encoded else encoded)"

section \<open>Lemmas on the lexer\<close>

definition spell :: "segment \<Rightarrow> string" where
  "spell s = (case s of TextSeg t \<Rightarrow> t | TagSeg t \<Rightarrow> hash # t)"

definition seg_ok :: "segment \<Rightarrow> bool" where
  "seg_ok s = (case s of
     TextSeg t \<Rightarrow> t \<noteq> []
   | TagSeg t \<Rightarrow> 1 \<le> length t \<and> length t \<le> MAX_TAG_LENGTH \<and> list_all isTagChar t)"

lemma seg_simps [simp]:
  "spell (TextSeg t) = t" "spell (TagSeg t) = hash # t"
  "seg_ok (TextSeg t) \<longleftrightarrow> t \<noteq> []"
  "seg_ok (TagSeg t) \<longleftrightarrow> 1 \<le> length t \<and> length t \<le> MAX_TAG_LENGTH \<and> list_all isTagChar t"
  "is_text_seg (TextSeg t)" "\<not> is_text_seg (TagSeg t)"
  by (simp_all add: spell_def seg_ok_def is_text_seg_def)

lemma map_fst_split: "map fst (takeWhile (\<lambda>x. P x) cs) @ map fst (drop (length (takeWhile P cs)) cs) = map fst cs"
  by (metis append_take_drop_id map_append takeWhile_eq_take)

lemma text_run_split: "text_run cs @ map fst (drop (length (text_run cs)) cs) = map fst cs"
  by (simp add: text_run_def map_fst_split)

lemma tag_content_split: "tag_content cs @ map fst (drop (length (tag_content cs)) cs) = map fst cs"
  by (metis append_take_drop_id drop_map tag_content_def takeWhile_eq_take)

lemma tag_content_chars: "list_all isTagChar (tag_content cs)"
  by (auto simp: tag_content_def list_all_iff dest: set_takeWhileD)

lemma match_tag_run_content:
  "match_tag_run (map fst cs)
   = (if 1 \<le> length (tag_content cs) \<and> length (tag_content cs) \<le> MAX_TAG_LENGTH
      then Some (tag_content cs) else None)"
  by (simp add: match_tag_run_def tag_content_def Let_def)

lemma parseSegments_spell: "concat (map spell (parseSegments prev cs)) = map fst cs"
proof (induction prev cs rule: parseSegments.induct)
  case (1 prev)
  then show ?case by simp
next
  case (2 prev x cs)
  then show ?case
    by (auto simp: Let_def text_run_split tag_content_split eligible_def live_hash_def)
qed

lemma parseSegments_ok: "list_all seg_ok (parseSegments prev cs)"
proof (induction prev cs rule: parseSegments.induct)
  case (1 prev)
  then show ?case by simp
next
  case (2 prev x cs)
  then show ?case by (auto simp: Let_def tag_content_chars Suc_le_eq)
qed

text \<open>Where a tag comes from: a hash that was not escaped, before a \<open>TAG_RUN\<close>.\<close>

lemma tag_origin:
  "TagSeg t \<in> set (parseSegments prev cs) \<Longrightarrow>
     \<exists>pre post. cs = pre @ (hash, False) # post \<and> match_tag_run (map fst post) = Some t"
proof (induction prev cs rule: parseSegments.induct)
  case (1 prev)
  then show ?case by simp
next
  case (2 prev x cs)
  let ?r = "text_run cs" and ?t = "tag_content cs"
  have later: "\<exists>pre post. x # cs = pre @ (hash, False) # post \<and> match_tag_run (map fst post) = Some t"
    if "\<exists>pre post. drop n cs = pre @ (hash, False) # post \<and> match_tag_run (map fst post) = Some t" for n
  proof -
    from that obtain pre post where "drop n cs = pre @ (hash, False) # post" "match_tag_run (map fst post) = Some t"
      by blast
    then have "x # cs = (x # take n cs @ pre) @ (hash, False) # post"
      by (metis append_Cons append_assoc append_take_drop_id)
    with \<open>match_tag_run (map fst post) = Some t\<close> show ?thesis by blast
  qed
  note ih = "2.IH"
  consider (blocked) "eligible x cs" "blocked prev cs" "TagSeg t \<in> set (parseSegments (Some (fst x)) cs)"
    | (tag) "eligible x cs" "t = ?t" "0 < length ?t" "length ?t \<le> MAX_TAG_LENGTH"
    | (more) "TagSeg t \<in> set (parseSegments (Some (last ?t)) (drop (length ?t) cs))" "eligible x cs"
        "\<not> blocked prev cs" "0 < length ?t \<and> length ?t \<le> MAX_TAG_LENGTH"
    | (plain) "TagSeg t \<in> set (parseSegments (Some (last (fst x # ?r))) (drop (length ?r) cs))"
    using "2.prems" by (auto simp: Let_def split: if_splits)
  then show ?case
  proof cases
    case blocked
    then show ?thesis using ih(2) later [of 0] by simp
  next
    case tag
    then have "x = (hash, False)" by (cases x) (simp add: eligible_def live_hash_def)
    moreover have "match_tag_run (map fst cs) = Some t" using tag by (simp add: match_tag_run_content Suc_le_eq)
    ultimately show ?thesis by blast
  next
    case more
    then show ?thesis using ih(3) later by blast
  next
    case plain
    then show ?thesis using ih(1) later by blast
  qed
qed

lemma map_fst_plain [simp]: "map fst (plain_chars s) = s"
  by (simp add: plain_chars_def o_def)

lemma segmentsForTextNode_cases:
  obtains cs where "segmentsForTextNode v pos source = parseSegments None cs" "map fst cs = v"
proof -
  have "segmentsForTextNode v pos source = parseSegments None (plain_chars v)
      \<or> (\<exists>cs. map fst cs = v \<and> segmentsForTextNode v pos source = parseSegments None cs)"
    by (auto simp: segmentsForTextNode_def Let_def split: option.splits)
  then show thesis using that map_fst_plain by metis
qed

lemma segmentsForTextNode_spell: "concat (map spell (segmentsForTextNode v pos source)) = v"
  by (metis parseSegments_spell segmentsForTextNode_cases)

lemma segmentsForTextNode_ok: "list_all seg_ok (segmentsForTextNode v pos source)"
  by (metis parseSegments_ok segmentsForTextNode_cases)

section \<open>Lemmas on the escape\<close>

lemma unescape_Cons: "c \<noteq> backslash \<Longrightarrow> unescapeBackslashes (c # s) = (c, False) # unescapeBackslashes s"
  by (cases s) auto

lemma hash_punct: "isAsciiPunctuation hash"
  by (simp add: isAsciiPunctuation_def Let_def code_unit_def)

text \<open>No backslash stands next to a hash, on either side.\<close>

fun hash_apart :: "string \<Rightarrow> bool" where
  "hash_apart [] = True"
| "hash_apart [c] = True"
| "hash_apart (c # d # cs) =
     ((c = backslash \<longrightarrow> d \<noteq> hash) \<and> (c = hash \<longrightarrow> d \<noteq> backslash) \<and> hash_apart (d # cs))"

lemma hash_apart_Cons: "hash_apart (c # cs) \<Longrightarrow> hash_apart cs"
  by (cases cs) auto

text \<open>The run of tag characters in the text is the beginning of the run its reading has.\<close>

lemma unescape_run:
  "\<exists>r. takeWhile isTagChar (map fst (unescapeBackslashes s)) = takeWhile isTagChar s @ r"
proof (induction s rule: unescapeBackslashes.induct)
  case (3 c d cs)
  then show ?case by (cases "c = backslash") (auto simp: unescape_Cons)
qed auto

lemma unescape_no_run:
  assumes "match_tag_run s = None" and "s = [] \<or> hd s \<noteq> backslash"
  shows "match_tag_run (map fst (unescapeBackslashes s)) = None"
proof (cases "takeWhile isTagChar s = []")
  case True
  then have "takeWhile isTagChar (map fst (unescapeBackslashes s)) = []"
    using assms(2) by (cases s) (auto simp: unescape_Cons split: if_splits)
  then show ?thesis by (simp add: match_tag_run_def)
next
  case False
  obtain r where "takeWhile isTagChar (map fst (unescapeBackslashes s)) = takeWhile isTagChar s @ r"
    using unescape_run by blast
  moreover have "MAX_TAG_LENGTH < length (takeWhile isTagChar s)"
    using False assms(1) by (cases "takeWhile isTagChar s") (auto simp: match_tag_run_def Let_def split: if_splits)
  ultimately show ?thesis by (simp add: match_tag_run_def Let_def)
qed

text \<open>Reading the escaped text gives the characters of the text as read before.\<close>

lemma escape_plain: "c \<noteq> hash \<Longrightarrow> escapeTagHashes (c # cs) = c # escapeTagHashes cs"
  by simp

lemma unescape_escape:
  "hash_apart t \<Longrightarrow> map fst (unescapeBackslashes (escapeTagHashes t)) = map fst (unescapeBackslashes t)"
proof (induction t rule: unescapeBackslashes.induct)
  case (2 c)
  then show ?case by (auto simp: match_tag_run_def)
next
  case (3 c d cs)
  show ?case
  proof (cases "c = backslash")
    case True
    then have "d \<noteq> hash" using "3.prems" by simp
    then have e: "escapeTagHashes (c # d # cs) = c # d # escapeTagHashes cs" using True by simp
    show ?thesis
    proof (cases "isAsciiPunctuation d")
      case punct: True
      then have "map fst (unescapeBackslashes (escapeTagHashes cs)) = map fst (unescapeBackslashes cs)"
        using 3 True by (auto intro: hash_apart_Cons)
      then show ?thesis using True punct \<open>d \<noteq> hash\<close> by simp
    next
      case False
      then have "map fst (unescapeBackslashes (d # escapeTagHashes cs)) = map fst (unescapeBackslashes (d # cs))"
        using 3 \<open>d \<noteq> hash\<close> by (simp add: True)
      then show ?thesis using True False \<open>d \<noteq> hash\<close> by simp
    qed
  next
    case False
    then have "map fst (unescapeBackslashes (escapeTagHashes (d # cs))) = map fst (unescapeBackslashes (d # cs))"
      using 3 by simp
    then show ?thesis using False by (simp add: unescape_Cons hash_punct del: escapeTagHashes.simps(2))
        (simp add: unescape_Cons hash_punct)
  qed
qed simp

text \<open>No hash that is left without a backslash begins a tag.\<close>

lemma unescape_escape_live:
  "hash_apart t \<Longrightarrow> unescapeBackslashes (escapeTagHashes t) = pre @ (hash, False) # post
     \<Longrightarrow> match_tag_run (map fst post) = None"
proof (induction t arbitrary: pre rule: unescapeBackslashes.induct)
  case (2 c)
  have "escapeTagHashes [c] = [c]" by (simp add: match_tag_run_def)
  then show ?case using "2.prems" by (cases pre) (auto simp: match_tag_run_def)
next
  case (3 c d cs)
  have later: "match_tag_run (map fst post) = None"
    if "unescapeBackslashes (escapeTagHashes u) = tl pre @ (hash, False) # post" "pre \<noteq> []"
      "u = cs \<and> c = backslash \<and> isAsciiPunctuation d \<or> u = d # cs \<and> \<not> (c = backslash \<and> isAsciiPunctuation d)" for u
    using that(3)
  proof
    assume u: "u = cs \<and> c = backslash \<and> isAsciiPunctuation d"
    then have "hash_apart cs" using "3.prems"(1) by (auto intro: hash_apart_Cons)
    then show ?thesis using "3.IH"(1) [of "tl pre"] u that(1) by simp
  next
    assume u: "u = d # cs \<and> \<not> (c = backslash \<and> isAsciiPunctuation d)"
    then show ?thesis using "3.IH"(2) [of "tl pre"] "3.prems"(1) that(1) by simp
  qed
  show ?case
  proof (cases "c = hash \<and> match_tag_run (d # cs) = None")
    case True
    then have e: "unescapeBackslashes (escapeTagHashes (c # d # cs)) = (c, False) # unescapeBackslashes (escapeTagHashes (d # cs))"
      by (simp add: unescape_Cons del: escapeTagHashes.simps(2)) (simp add: unescape_Cons)
    show ?thesis
    proof (cases pre)
      case Nil
      then have "post = unescapeBackslashes (escapeTagHashes (d # cs))" using "3.prems"(2) e by simp
      then have "map fst post = map fst (unescapeBackslashes (d # cs))"
        using unescape_escape [of "d # cs"] "3.prems"(1) by simp
      then show ?thesis using unescape_no_run [of "d # cs"] True "3.prems"(1) by simp
    next
      case (Cons x xs)
      then show ?thesis using "3.prems"(2) e True by (intro later [of "d # cs"]) simp_all
    qed
  next
    case False
    have "\<exists>x u. unescapeBackslashes (escapeTagHashes (c # d # cs)) = x # unescapeBackslashes (escapeTagHashes u)
        \<and> x \<noteq> (hash, False)
        \<and> (u = cs \<and> c = backslash \<and> isAsciiPunctuation d \<or> u = d # cs \<and> \<not> (c = backslash \<and> isAsciiPunctuation d))"
    proof (cases "c = backslash")
      case True
      then have "d \<noteq> hash" using "3.prems"(1) by simp
      then show ?thesis using True by (cases "isAsciiPunctuation d") auto
    next
      case False
      then have "unescapeBackslashes (escapeTagHashes (c # d # cs))
          = (c, c = hash) # unescapeBackslashes (escapeTagHashes (d # cs))"
        using \<open>\<not> (c = hash \<and> _)\<close> by (cases "c = hash") (simp_all add: unescape_Cons hash_punct del: escapeTagHashes.simps(2), simp_all add: unescape_Cons hash_punct)
      then show ?thesis using False by blast
    qed
    then obtain x u where x: "unescapeBackslashes (escapeTagHashes (c # d # cs)) = x # unescapeBackslashes (escapeTagHashes u)"
        "x \<noteq> (hash, False)"
        "u = cs \<and> c = backslash \<and> isAsciiPunctuation d \<or> u = d # cs \<and> \<not> (c = backslash \<and> isAsciiPunctuation d)" by blast
    then show ?thesis using "3.prems"(2) by (intro later [of u]) (cases pre; simp)+
  qed
qed simp

lemma escaped_no_tag:
  assumes "hash_apart t"
  shows "list_all is_text_seg (parseSegments prev (unescapeBackslashes (escapeTagHashes t)))"
proof -
  have "TagSeg u \<notin> set (parseSegments prev (unescapeBackslashes (escapeTagHashes t)))" for u
    using tag_origin unescape_escape_live [OF assms] by fastforce
  then show ?thesis unfolding list_all_iff using segment.exhaust seg_simps(5) by metis
qed

section \<open>Lemmas on the tree\<close>

lemma shown_seg [simp]: "shown (seg_node s) = spell s"
  by (cases s) (simp_all add: seg_node_def text_node_def createTagNode_def)

lemma shown_tag_text_nodes:
  "md_type n = ''text'' \<Longrightarrow> concat (map shown (tag_text_nodes n source)) = shown n"
  using segmentsForTextNode_spell [of "text_value n"]
  by (simp add: tag_text_nodes_def Let_def shown_text o_def)

lemma shown_transform: "shown (transformTagTextNodes b source n) = shown n"
proof (induction b source n rule: transformTagTextNodes.induct)
  case (1 b source ty v ch d sp p dt cs)
  have "concat (map shown (if md_type c = ''text'' \<and> \<not> (b \<or> isLinkNode c) then tag_text_nodes c source
          else [transformTagTextNodes (b \<or> isLinkNode c) source c])) = shown c" if "c \<in> set cs" for c
    using 1 [OF that] that shown_tag_text_nodes by auto
  then show ?case by (simp add: Let_def concat_map_concat o_def cong: map_cong)
qed

lemma transform_inside_link: "transformTagTextNodes True source n = n"
proof (induction n)
  case (MdNode ty v ch d sp p dt cs)
  then have "map (transformTagTextNodes True source) cs = cs" by (simp add: map_idI)
  then have "concat (map (\<lambda>c. [transformTagTextNodes True source c]) cs) = cs"
    by (metis concat_map_singleton)
  then show ?case by (simp add: Let_def)
qed

section \<open>Properties\<close>

text \<open>
  the renderer's lexer loses no character, and a tag it finds has 1 to 100 characters, all of
  the tag class: spelling the segments of a text node again gives the node's text.
\<close>

theorem tag_segments_lossless:
  "concat (map spell (segmentsForTextNode v pos source)) = v
   \<and> list_all seg_ok (segmentsForTextNode v pos source)"
  by (simp add: segmentsForTextNode_spell segmentsForTextNode_ok)



text \<open>
  Next to a hash a backslash defeats the escape: an already escaped hash loses its escape, and behind
  a hash an escaped tag character hides the tag from the editor but not from the renderer.
\<close>

lemma escape_defeated:
  "unescapeBackslashes (escapeTagHashes (backslash # ''#x'')) = [(backslash, True), (hash, False), (CHR ''x'', False)]
   \<and> parseSegments None (unescapeBackslashes (escapeTagHashes (backslash # ''#x''))) = [TextSeg [backslash], TagSeg ''x'']
   \<and> parseSegments None (unescapeBackslashes (escapeTagHashes (hash # backslash # ''_x''))) = [TagSeg ''_x'']"
  by code_simp

text \<open>
  the editor's tokenizer and the renderer agree at a hash, but for one case: the tokenizer
  takes exactly the tag with which the renderer's segments of the rest begin, and declines it when
  another hash follows directly.
\<close>

theorem tokenizer_agrees:
  "tag_tokenize src
   = (case parseSegments None (plain_chars src) of
        TagSeg t # rest \<Rightarrow>
          if startsWith (concat (map spell rest)) [hash] then None
          else Some \<lparr>tt_raw = hash # t, tt_tag = t\<rparr>
      | _ \<Rightarrow> None)"
proof (cases src)
  case Nil
  then show ?thesis by (simp add: tag_tokenize_def plain_chars_def)
next
  case (Cons c r)
  let ?cs = "plain_chars r"
  have m: "match_tag_run r = (if 1 \<le> length (tag_content ?cs) \<and> length (tag_content ?cs) \<le> MAX_TAG_LENGTH
      then Some (tag_content ?cs) else None)"
    using match_tag_run_content [of ?cs] by simp
  have el: "eligible (c, False) ?cs \<longleftrightarrow> c = hash \<and> tag_content ?cs \<noteq> []"
    by (cases r) (auto simp: eligible_def live_hash_def tag_content_def plain_chars_def)
  have bl: "tag_content ?cs \<noteq> [] \<Longrightarrow> \<not> blocked None ?cs"
    by (cases r) (auto simp: blocked_def tag_content_def plain_chars_def isTagChar_def code_unit_def Let_def
        split: if_splits)
  have dr: "concat (map spell (parseSegments p (drop n ?cs))) = drop n r" for p n
    by (simp add: parseSegments_spell flip: drop_map)
  have src: "plain_chars src = (c, False) # ?cs" by (simp add: Cons plain_chars_def)
  show ?thesis
  proof (cases "c = hash \<and> tag_content ?cs \<noteq> [] \<and> length (tag_content ?cs) \<le> MAX_TAG_LENGTH")
    case True
    then have "parseSegments None (plain_chars src) =
        TagSeg (tag_content ?cs) # parseSegments (Some (last (tag_content ?cs))) (drop (length (tag_content ?cs)) ?cs)"
      using bl el by (simp add: src Let_def)
    with True show ?thesis by (simp add: tag_tokenize_def Cons m dr Suc_le_eq)
  next
    case False
    then have "\<exists>t ss. parseSegments None (plain_chars src) = TextSeg t # ss"
      using bl by (auto simp: src el Let_def)
    with False show ?thesis by (auto simp: tag_tokenize_def Cons m Suc_le_eq)
  qed
qed

text \<open>
  where the two lexers drift. The renderer reads \<open>#a#b\<close> as the tags \<open>a\<close> and \<open>b\<close>; the editor
  declines the first one, keeps \<open>#a\<close> as text, and writes it back escaped, after which the
  renderer shows the tag \<open>b\<close> only. In \<open>##x\<close> the renderer sees no tag, and the tokenizer takes \<open>x\<close>
  at the second hash.
\<close>

theorem tag_lexers_drift:
  "parseSegments None (plain_chars ''#a#b'') = [TagSeg ''a'', TagSeg ''b'']
   \<and> tag_tokenize ''#a#b'' = None
   \<and> parseSegments None (unescapeBackslashes (escapeTagHashes ''#a'' @ ''#b'')) = [TextSeg ''#a'', TagSeg ''b'']
   \<and> list_all is_text_seg (parseSegments None (plain_chars ''##x''))
   \<and> tag_tokenize ''#x'' = Some \<lparr>tt_raw = ''#x'', tt_tag = ''x''\<rparr>"
  by code_simp

text \<open>
  the renderer's pass over the tree keeps the text the reader sees, and changes nothing below
  a link.
\<close>

theorem remark_tag_keeps_text:
  "shown (remarkTag source tree) = shown tree \<and> transformTagTextNodes True source tree = tree"
  by (simp add: remarkTag_def shown_transform transform_inside_link)

end
