(* ===== verification/Mentions.thy ===== *)
theory Mentions
  imports Mdast
begin

text \<open>
  Mentions: the grammar (\<^verbatim>\<open>utils/mention-grammar.ts\<close>), the renderer's lexer and plugin
  (\<^verbatim>\<open>utils/remark-plugins/remark-mention.ts\<close>) and the editor's tokenizer
  (\<^verbatim>\<open>components/MemoEditor/Editor/Mention.ts\<close>). The plugin splices nodes into the tree while
  \<open>visit\<close> walks it; the walk, which goes on behind the first of the new nodes, is written out.
\<close>

abbreviation at_sign :: char where
  "at_sign \<equiv> CHR ''@''"

section \<open>The grammar\<close>

definition isMentionChar :: "char \<Rightarrow> bool" where
  "isMentionChar c \<longleftrightarrow> is_alnum_ascii c \<or> c = CHR ''-''"

definition MAX_MENTION_LENGTH :: nat where
  "MAX_MENTION_LENGTH = 32"

text \<open>
  \<open>MENTION_RUN\<close> at the start of a string: the lookahead (at most 31 mention characters, then a
  letter or digit), then as many mention characters as there are, 32 at most.
\<close>

definition mention_lookahead :: "string \<Rightarrow> bool" where
  "mention_lookahead s \<longleftrightarrow>
     list_ex (\<lambda>k. k < length s \<and> list_all isMentionChar (take k s) \<and> is_alnum_ascii (s ! k))
       [0..<MAX_MENTION_LENGTH]"

definition match_mention_run :: "string \<Rightarrow> string option" where
  "match_mention_run s =
     (if mention_lookahead s then
        (let run = take MAX_MENTION_LENGTH (takeWhile isMentionChar s) in
         if run \<noteq> [] then Some run else None)
      else None)"

section \<open>The renderer's lexer\<close>

datatype mention_segment = PlainSeg string | MentionSeg string

definition isMentionBoundary :: "char option \<Rightarrow> bool" where
  "isMentionBoundary c = (case c of None \<Rightarrow> True | Some d \<Rightarrow> \<not> isMentionChar d)"

definition mention_name :: "string \<Rightarrow> string" where
  "mention_name s = take MAX_MENTION_LENGTH (takeWhile isMentionChar s)"

definition before_at :: "string \<Rightarrow> string" where
  "before_at s = takeWhile (\<lambda>c. c \<noteq> at_sign) s"

text \<open>The loop from index \<open>i\<close> on: \<open>prev\<close> is the character before it.\<close>

function parse_mentions :: "char option \<Rightarrow> string \<Rightarrow> mention_segment list" where
  "parse_mentions prev [] = []"
| "parse_mentions prev (c # cs) =
     (let run = before_at cs;
          plain = PlainSeg (c # run) # parse_mentions (Some (last (c # run))) (drop (length run) cs);
          username = mention_name cs in
      if c = at_sign \<and> isMentionBoundary prev \<and> (case cs of [] \<Rightarrow> False | d # _ \<Rightarrow> isMentionChar d) then
        (if username \<noteq> [] \<and> list_ex is_alnum_ascii username
         then MentionSeg (toLowerCase username)
                # parse_mentions (Some (last username)) (drop (length username) cs)
         else plain)
      else plain)"
  by pat_completeness auto
termination
  by (relation "measure (\<lambda>(prev, cs). length cs)") auto

definition parseMentionsFromText :: "string \<Rightarrow> mention_segment list" where
  "parseMentionsFromText text = parse_mentions None text"

definition mention_value :: "mention_segment \<Rightarrow> string option" where
  "mention_value s = (case s of PlainSeg _ \<Rightarrow> None | MentionSeg u \<Rightarrow> Some u)"

definition extractMentionUsernames :: "string \<Rightarrow> string list" where
  "extractMentionUsernames text = js_uniq (List.map_filter mention_value (parseMentionsFromText text))"

section \<open>The renderer's tree pass\<close>

definition createMentionNode :: "string \<Rightarrow> mdast" where
  "createMentionNode username =
     MdNode ''mentionNode'' (Some username) None 0 False None
       (Some \<lparr>nd_hName = Some ''span'', nd_className = Some ''mention'',
              nd_attribute = Some (''data-mention'', username), nd_hChildren = [at_sign # username],
              nd_mdastType = None\<rparr>) []"

definition mention_node :: "mention_segment \<Rightarrow> mdast" where
  "mention_node s = (case s of PlainSeg t \<Rightarrow> text_node t | MentionSeg u \<Rightarrow> createMentionNode u)"

definition mspell :: "mention_segment \<Rightarrow> string" where
  "mspell s = (case s of PlainSeg t \<Rightarrow> t | MentionSeg u \<Rightarrow> at_sign # u)"

definition plain_length :: "mention_segment \<Rightarrow> nat" where
  "plain_length s = (case s of PlainSeg t \<Rightarrow> length t | MentionSeg _ \<Rightarrow> 0)"

lemma mseg_simps [simp]:
  "mspell (PlainSeg t) = t" "mspell (MentionSeg u) = at_sign # u"
  "mention_value (PlainSeg t) = None" "mention_value (MentionSeg u) = Some u"
  "mention_node (PlainSeg t) = text_node t" "mention_node (MentionSeg u) = createMentionNode u"
  "plain_length (PlainSeg t) = length t" "plain_length (MentionSeg u) = 0"
  by (simp_all add: mspell_def mention_value_def mention_node_def plain_length_def)

lemma split_before_at: "before_at cs @ drop (length (before_at cs)) cs = cs"
  unfolding before_at_def by (metis append_take_drop_id takeWhile_eq_take)

lemma split_mention_name: "mention_name cs @ drop (length (mention_name cs)) cs = cs"
proof -
  obtain m where "mention_name cs = take m cs"
    unfolding mention_name_def by (metis takeWhile_eq_take take_take)
  moreover have "take m cs @ drop (length (take m cs)) cs = cs" by (simp add: min_def)
  ultimately show ?thesis by metis
qed

lemma parse_mentions_spell:
  "toLowerCase (concat (map mspell (parse_mentions prev cs))) = toLowerCase cs"
proof (induction prev cs rule: parse_mentions.induct)
  case (1 prev)
  then show ?case by simp
next
  case (2 prev c cs)
  have c: "toLowerCase (c # s) = lower_char c # toLowerCase s" for c s by (simp add: toLowerCase_def)
  have a: "toLowerCase (before_at cs) @ toLowerCase (drop (length (before_at cs)) cs) = toLowerCase cs"
    "toLowerCase (mention_name cs) @ toLowerCase (drop (length (mention_name cs)) cs) = toLowerCase cs"
    by (metis split_before_at toLowerCase_append) (metis split_mention_name toLowerCase_append)
  from 2 show ?case by (auto simp: Let_def toLowerCase_append c a)
qed

lemma parse_mentions_length:
  "sum_list (map plain_length (parse_mentions prev cs)) \<le> length cs
   \<and> sum_list (map plain_length (tl (parse_mentions prev cs))) \<le> length cs - 1"
proof (induction prev cs rule: parse_mentions.induct)
  case (1 prev)
  then show ?case by simp
next
  case (2 prev c cs)
  have "length (before_at cs) \<le> length cs" by (metis before_at_def length_takeWhile_le)
  with 2 show ?case by (fastforce simp: Let_def)
qed

fun text_size :: "mdast \<Rightarrow> nat" where
  "text_size (MdNode ty v ch d sp p dt cs) =
     (if ty = ''text'' then length (case v of None \<Rightarrow> [] | Some s \<Rightarrow> s) else 0) + sum_list (map text_size cs)"

fun node_size :: "mdast \<Rightarrow> nat" where
  "node_size (MdNode ty v ch d sp p dt cs) = Suc (sum_list (map node_size cs))"

lemma text_size_mention_node [simp]: "text_size (mention_node s) = plain_length s"
  by (cases s) (simp_all add: text_node_def createMentionNode_def)

lemma text_size_text: "md_type n = ''text'' \<Longrightarrow> length (text_value n) \<le> text_size n"
  by (cases n) (auto simp: text_value_def split: option.splits)

lemma text_size_children: "sum_list (map text_size (md_children n)) \<le> text_size n"
  by (cases n) auto

lemma node_size_children: "sum_list (map node_size (md_children n)) < node_size n"
  by (cases n) auto

lemma node_size_pos: "0 < node_size n"
  by (cases n) simp

definition mention_text_nodes :: "mdast \<Rightarrow> mdast list option" where
  "mention_text_nodes n =
     (let segments = parseMentionsFromText (text_value n) in
      if md_type n \<noteq> ''text'' \<or> list_all (\<lambda>s. mention_value s = None) segments then None
      else Some (map mention_node segments))"

lemma mention_text_nodes_size:
  "mention_text_nodes n = Some ns \<Longrightarrow> sum_list (map text_size (tl ns)) < text_size n \<and> ns \<noteq> []"
proof -
  assume a: "mention_text_nodes n = Some ns"
  let ?v = "text_value n"
  have ns: "ns = map mention_node (parseMentionsFromText ?v)" "md_type n = ''text''"
    "\<not> list_all (\<lambda>s. mention_value s = None) (parseMentionsFromText ?v)"
    using a by (auto simp: mention_text_nodes_def Let_def split: if_splits)
  then have "?v \<noteq> []" by (auto simp: parseMentionsFromText_def)
  then have "sum_list (map plain_length (tl (parseMentionsFromText ?v))) < length ?v"
    using parse_mentions_length [of None ?v]
    by (simp add: parseMentionsFromText_def) (metis Suc_pred le_imp_less_Suc length_greater_0_conv)
  with ns text_size_text [of n] show ?thesis
    by (auto simp: map_tl [symmetric] o_def)
qed

definition with_children :: "mdast \<Rightarrow> mdast list \<Rightarrow> mdast" where
  "with_children n cs =
     (case n of MdNode ty v ch d sp p dt _ \<Rightarrow> MdNode ty v ch d sp p dt cs)"

text \<open>
  \<open>visit\<close> over the children of a node, from one index on. The visitor replaces a text node that
  has a mention by the nodes of its segments and returns nothing, so the walk goes on with the
  second of the new nodes. Every other node is kept and its children are walked.
\<close>

function mention_children :: "mdast list \<Rightarrow> mdast list" where
  "mention_children [] = []"
| "mention_children (n # ns) =
     (case mention_text_nodes n of
        Some new \<Rightarrow> hd new # mention_children (tl new @ ns)
      | None \<Rightarrow> with_children n (mention_children (md_children n)) # mention_children ns)"
  by pat_completeness auto
termination
proof (relation "measures [\<lambda>ns. sum_list (map text_size ns), \<lambda>ns. sum_list (map node_size ns)]", goal_cases)
  case (2 n ns)
  then show ?case using text_size_children [of n] node_size_children [of n] by auto
qed (auto dest!: mention_text_nodes_size simp: node_size_pos)

text \<open>The plugin. The root has no parent and is never replaced itself.\<close>

definition remarkMention :: "mdast \<Rightarrow> mdast" where
  "remarkMention tree = with_children tree (mention_children (md_children tree))"

section \<open>The editor's tokenizer\<close>

record mention_token =
  mt_raw :: string
  mt_username :: string

text \<open>\<open>start\<close>: the first at sign at a boundary (\<open>-1\<close> is \<open>None\<close>).\<close>

definition mention_start :: "string \<Rightarrow> nat option" where
  "mention_start src =
     List.find (\<lambda>i. src ! i = at_sign \<and> (i = 0 \<or> \<not> isMentionChar (src ! (i - 1)))) [0..<length src]"

text \<open>\<open>tokenize\<close>: \<open>raws\<close> are the raw texts of the tokens so far.\<close>

definition mention_tokenize :: "string \<Rightarrow> string list \<Rightarrow> mention_token option" where
  "mention_tokenize src raws =
     (case src of
        [] \<Rightarrow> None
      | c # r \<Rightarrow>
          if c = at_sign then
            (case match_mention_run r of
               None \<Rightarrow> None
             | Some run \<Rightarrow>
                 let lastRaw = (if raws = [] then [] else last raws);
                     prevChar = (if lastRaw = [] then None else Some (last lastRaw)) in
                 if (case prevChar of None \<Rightarrow> False | Some p \<Rightarrow> isMentionChar p) then None
                 else Some \<lparr>mt_raw = at_sign # run, mt_username = run\<rparr>)
          else None)"

section \<open>Lemmas\<close>

text \<open>What a user name looks like.\<close>

definition username_ok :: "string \<Rightarrow> bool" where
  "username_ok u \<longleftrightarrow> 1 \<le> length u \<and> length u \<le> MAX_MENTION_LENGTH \<and> list_all isMentionChar u
     \<and> list_ex is_alnum_ascii u \<and> toLowerCase u = u"

lemma lower_alnum: "is_alnum_ascii c \<Longrightarrow> is_alnum_ascii (lower_char c)"
  by (auto simp: is_alnum_ascii_def is_upper_ascii_def is_lower_ascii_def is_digit_def code_unit_lower_char)

lemma lower_mention_char: "isMentionChar c \<Longrightarrow> isMentionChar (lower_char c)"
proof -
  have "lower_char CHR ''-'' = CHR ''-''" by (simp add: lower_char_def code_unit_def)
  then show "isMentionChar c \<Longrightarrow> isMentionChar (lower_char c)"
    using lower_alnum by (auto simp: isMentionChar_def)
qed

lemma mention_name_chars: "c \<in> set (mention_name s) \<Longrightarrow> isMentionChar c"
  by (auto simp: mention_name_def dest!: in_set_takeD set_takeWhileD)

lemma username_ok_name:
  assumes "mention_name s \<noteq> []" and "list_ex is_alnum_ascii (mention_name s)"
  shows "username_ok (toLowerCase (mention_name s))"
proof -
  have "length (mention_name s) \<le> MAX_MENTION_LENGTH" by (simp add: mention_name_def)
  moreover have "list_ex is_alnum_ascii (toLowerCase (mention_name s))"
    using assms(2) lower_alnum by (auto simp: list_ex_iff toLowerCase_def)
  moreover have "list_all isMentionChar (toLowerCase (mention_name s))"
    by (auto simp: list_all_iff toLowerCase_def lower_mention_char mention_name_chars)
  ultimately show ?thesis using assms(1) by (simp add: username_ok_def Suc_le_eq)
qed

lemma mention_value_Some: "mention_value s = Some u \<longleftrightarrow> s = MentionSeg u"
  by (cases s) auto

lemma parse_mentions_ok:
  "MentionSeg u \<in> set (parse_mentions prev cs) \<Longrightarrow> username_ok u"
proof (induction prev cs rule: parse_mentions.induct)
  case (1 prev)
  then show ?case by simp
next
  case (2 prev c cs)
  then show ?case by (auto simp: Let_def username_ok_name split: if_splits)
qed

lemma lookahead_name: "mention_lookahead s \<longleftrightarrow> list_ex is_alnum_ascii (mention_name s)"
proof
  assume "mention_lookahead s"
  then obtain k where k: "k < MAX_MENTION_LENGTH" "k < length s" "list_all isMentionChar (take k s)"
    "is_alnum_ascii (s ! k)"
    by (auto simp: mention_lookahead_def list_ex_iff)
  have s: "s = take k s @ s ! k # drop (Suc k) s" using k(2) by (rule id_take_nth_drop)
  have "isMentionChar (s ! k)" using k(4) by (simp add: isMentionChar_def)
  then have "takeWhile isMentionChar s = take k s @ s ! k # takeWhile isMentionChar (drop (Suc k) s)"
    using k(3) by (subst s) (simp add: takeWhile_append2 list_all_iff)
  then have "mention_name s ! k = s ! k \<and> k < length (mention_name s)"
    using k(1,2) by (simp add: mention_name_def nth_append)
  then have "s ! k \<in> set (mention_name s)" by (metis nth_mem)
  with k(4) show "list_ex is_alnum_ascii (mention_name s)" by (auto simp: list_ex_iff)
next
  assume "list_ex is_alnum_ascii (mention_name s)"
  then obtain k where k: "k < length (mention_name s)" "is_alnum_ascii (mention_name s ! k)"
    by (auto simp: list_ex_iff in_set_conv_nth)
  have len: "k < MAX_MENTION_LENGTH" "k < length s"
    using k(1) length_takeWhile_le [of isMentionChar s] by (auto simp: mention_name_def)
  obtain r where eq: "s = mention_name s @ r" using split_mention_name [of s] by metis
  have at: "s ! k = mention_name s ! k" using k(1) by (subst eq) (simp add: nth_append)
  have tk: "take k s = take k (mention_name s)" using k(1) by (subst eq) simp
  have "list_all isMentionChar (take k s)"
    unfolding tk by (auto simp: list_all_iff mention_name_chars dest!: in_set_takeD)
  then show "mention_lookahead s"
    using k(2) at len by (auto simp: mention_lookahead_def list_ex_iff intro!: bexI [of _ k])
qed

lemma match_mention_run_name:
  "match_mention_run s = (if list_ex is_alnum_ascii (mention_name s) then Some (mention_name s) else None)"
  by (auto simp: match_mention_run_def lookahead_name mention_name_def [symmetric] Let_def list_ex_iff)

lemma shown_mention_node: "shown (mention_node s) = mspell s"
  by (cases s) (simp_all add: text_node_def createMentionNode_def)

lemma shown_mention_text_nodes:
  "mention_text_nodes n = Some new \<Longrightarrow> toLowerCase (concat (map shown new)) = toLowerCase (shown n)"
  using parse_mentions_spell [of None "text_value n"]
  by (auto simp: mention_text_nodes_def Let_def shown_text parseMentionsFromText_def shown_mention_node o_def
      split: if_splits)

lemma shown_with_children:
  "toLowerCase (concat (map shown cs)) = toLowerCase (concat (map shown (md_children n))) \<Longrightarrow>
   toLowerCase (shown (with_children n cs)) = toLowerCase (shown n)"
  by (cases n) (simp add: with_children_def Let_def toLowerCase_append)

lemma shown_mention_children:
  "toLowerCase (concat (map shown (mention_children ns))) = toLowerCase (concat (map shown ns))"
proof (induction ns rule: mention_children.induct)
  case 1
  then show ?case by simp
next
  case (2 n ns)
  show ?case
  proof (cases "mention_text_nodes n")
    case None
    then show ?thesis using "2.IH"(1,2) by (simp add: toLowerCase_append shown_with_children)
  next
    case (Some new)
    then have ne: "new \<noteq> []" using mention_text_nodes_size by blast
    then have "toLowerCase (shown (hd new)) @ toLowerCase (concat (map shown (tl new))) = toLowerCase (shown n)"
      using shown_mention_text_nodes [OF Some] by (cases new) (simp_all add: toLowerCase_append)
    then show ?thesis using "2.IH"(3) [OF Some] Some by (simp add: toLowerCase_append)
  qed
qed

section \<open>Properties\<close>

text \<open>
  the lexer of mentions keeps the text up to the case of the names, and every name it reports
  has 1 to 32 characters (lower-case letters, digits, hyphens), one of them not a hyphen; the list
  of mentioned users has each of them once.
\<close>

theorem mention_names:
  "toLowerCase (concat (map mspell (parseMentionsFromText text))) = toLowerCase text
   \<and> list_all username_ok (extractMentionUsernames text)
   \<and> distinct (extractMentionUsernames text)"
  using parse_mentions_ok [of _ None "text"]
  by (auto simp: parseMentionsFromText_def parse_mentions_spell extractMentionUsernames_def list_all_iff
      set_map_filter mention_value_Some)

definition prev_char :: "string list \<Rightarrow> char option" where
  "prev_char raws = (if raws = [] \<or> last raws = [] then None else Some (last (last raws)))"

text \<open>
  the editor's tokenizer takes a mention exactly where the renderer's lexer does, given the
  character before it, and it is the same user: the regular expression with its lookahead and the
  hand-written loop agree.
\<close>

theorem mention_lexers_agree:
  "map_option (\<lambda>t. toLowerCase (mt_username t)) (mention_tokenize src raws)
   = (case parse_mentions (prev_char raws) src of MentionSeg u # ss \<Rightarrow> Some u | _ \<Rightarrow> None)"
proof (cases src)
  case Nil
  then show ?thesis by (simp add: mention_tokenize_def)
next
  case (Cons c r)
  have b: "isMentionBoundary (prev_char raws) \<longleftrightarrow>
      \<not> (case (if (if raws = [] then [] else last raws) = [] then None
              else Some (last (if raws = [] then [] else last raws))) of None \<Rightarrow> False | Some p \<Rightarrow> isMentionChar p)"
    by (auto simp: isMentionBoundary_def prev_char_def)
  have n: "list_ex is_alnum_ascii (mention_name r) \<Longrightarrow>
      mention_name r \<noteq> [] \<and> (case r of [] \<Rightarrow> False | d # _ \<Rightarrow> isMentionChar d)"
    by (cases r) (auto simp: mention_name_def MAX_MENTION_LENGTH_def split: if_splits)
  show ?thesis
  proof (cases "c = at_sign \<and> isMentionBoundary (prev_char raws) \<and> list_ex is_alnum_ascii (mention_name r)")
    case True
    then show ?thesis using n b
      by (simp add: Cons mention_tokenize_def match_mention_run_name Let_def)
  next
    case False
    then have "\<exists>t ss. parse_mentions (prev_char raws) src = PlainSeg t # ss"
      by (auto simp: Cons Let_def)
    moreover have "mention_tokenize src raws = None"
      using False b by (auto simp: Cons mention_tokenize_def match_mention_run_name Let_def)
    ultimately show ?thesis by auto
  qed
qed

text \<open>
  the plugin keeps the text the reader sees, up to the case of the names it links, in every
  part of the tree.
\<close>

theorem remark_mention_keeps_text:
  "toLowerCase (shown (remarkMention tree)) = toLowerCase (shown tree)"
  by (simp add: remarkMention_def shown_with_children shown_mention_children)

text \<open>
  the plugin finds mentions the lexer rules out. The text nodes it has just inserted are walked
  again, each on its own, so an at sign that follows a word is taken for a boundary: after \<open>@al\<close>, the
  address \<open>x@b\<close> of the same paragraph gets a mention of the user \<open>b\<close>, although the lexer gives \<open>al\<close>
  only.
\<close>

theorem mention_revisited:
  "extractMentionUsernames ''@al x@b'' = [''al'']
   \<and> map md_type (mention_children [text_node ''@al x@b'']) = [''mentionNode'', ''text'', ''mentionNode'']
   \<and> map text_value (mention_children [text_node ''@al x@b'']) = [''al'', '' x'', ''b'']"
  by code_simp

end
