(* ===== verification/EditorSyntax.thy ===== *)
theory EditorSyntax
  imports MarkdownTasks Mentions
begin

text \<open>
  Smaller pieces of the markdown pipeline: the tokenizers that keep raw HTML and math as they are
  in the editor (\<^verbatim>\<open>components/MemoEditor/Editor/PreservedBlock.ts\<close>) and two renderer plugins,
  \<^verbatim>\<open>remark-preserve-type.ts\<close> and \<^verbatim>\<open>remark-split-mixed-task-lists.ts\<close>.
\<close>

section \<open>Preserved syntax\<close>

record token =
  tk_raw :: string
  tk_block :: bool

abbreviation dollar :: char where
  "dollar \<equiv> CHR ''$''"

definition is_letter_ascii :: "char \<Rightarrow> bool" where
  "is_letter_ascii c \<longleftrightarrow> is_upper_ascii c \<or> is_lower_ascii c"

definition is_tag_name_char :: "char \<Rightarrow> bool" where
  "is_tag_name_char c \<longleftrightarrow> is_alnum_ascii c \<or> c = CHR ''-''"

text \<open>
  The attributes: quoted values, or characters other than angle brackets and quotes. The result is
  what is left where no further one matches.
\<close>

abbreviation dquote :: char where
  "dquote \<equiv> CHR 0x22"

abbreviation squote :: char where
  "squote \<equiv> CHR 0x27"

function html_attributes :: "string \<Rightarrow> string" where
  "html_attributes [] = []"
| "html_attributes (c # s) =
     (if c = dquote \<or> c = squote then
        (if dropWhile (\<lambda>d. d \<noteq> c) s = [] then c # s
         else html_attributes (tl (dropWhile (\<lambda>d. d \<noteq> c) s)))
      else if c = CHR ''<'' \<or> c = CHR ''>'' then c # s
      else html_attributes s)"
  by pat_completeness auto
termination
  by (relation "measure length") (auto simp: less_Suc_eq_le intro: order_trans [OF diff_le_self length_dropWhile_le])

text \<open>\<open>/?>\<close>: what is left behind it.\<close>

definition tag_close :: "string \<Rightarrow> string option" where
  "tag_close s =
     (case s of
        c # d # r \<Rightarrow> if c = CHR ''/'' \<and> d = CHR ''>'' then Some r
                     else if c = CHR ''>'' then Some (d # r) else None
      | [c] \<Rightarrow> if c = CHR ''>'' then Some [] else None
      | [] \<Rightarrow> None)"

definition html_tag_rest :: "string \<Rightarrow> string option" where
  "html_tag_rest s =
     (let s1 = (case s of [] \<Rightarrow> [] | c # r \<Rightarrow> if c = CHR ''/'' then r else s) in
      case s1 of
        [] \<Rightarrow> None
      | c # r \<Rightarrow>
          if is_letter_ascii c then
            (let s2 = dropWhile is_tag_name_char r in
             case s2 of
               [] \<Rightarrow> None
             | d # s3 \<Rightarrow> if is_ws d then tag_close (html_attributes s3) else tag_close s2)
          else None)"

text \<open>The first place, from the start, where \<open>pat\<close> occurs; the rest behind it.\<close>

fun after_first :: "string \<Rightarrow> string \<Rightarrow> string option" where
  "after_first pat [] = (if pat = [] then Some [] else None)"
| "after_first pat (c # s) =
     (if startsWith (c # s) pat then Some (drop (length pat) (c # s)) else after_first pat s)"

definition html_rest :: "string \<Rightarrow> string option" where
  "html_rest src =
     (if startsWith src ''<!--'' \<and> after_first ''-->'' (drop 4 src) \<noteq> None
      then after_first ''-->'' (drop 4 src)
      else case src of
             [] \<Rightarrow> None
           | c # s \<Rightarrow> if c = CHR ''<'' then html_tag_rest s else None)"

definition raw_token :: "string \<Rightarrow> bool \<Rightarrow> string option \<Rightarrow> token option" where
  "raw_token src block rest =
     map_option (\<lambda>r. \<lparr>tk_raw = take (length src - length r) src, tk_block = block\<rparr>) rest"

definition tokenizePreservedHtmlInline :: "string \<Rightarrow> token option" where
  "tokenizePreservedHtmlInline src = raw_token src False (html_rest src)"

text \<open>
  \<open>/^\$\$[\s\S]+?\$\$(?=\n|$)/\<close>: the closing dollars are the first, at least one character on,
  that end a line.
\<close>

definition ends_line :: "string \<Rightarrow> bool" where
  "ends_line s \<longleftrightarrow> (case s of [] \<Rightarrow> True | c # _ \<Rightarrow> c = nl)"

definition math_block_close :: "string \<Rightarrow> nat option" where
  "math_block_close s =
     List.find (\<lambda>k. startsWith (drop k s) [dollar, dollar] \<and> ends_line (drop (k + 2) s)) [1..<length s]"

definition tokenizePreservedMathBlock :: "string \<Rightarrow> token option" where
  "tokenizePreservedMathBlock src =
     (if startsWith src [dollar, dollar] then
        map_option (\<lambda>k. \<lparr>tk_raw = take (k + 4) src, tk_block = True\<rparr>) (math_block_close (drop 2 src))
      else None)"

text \<open>\<open>/^\$[^$\n]+\$/\<close>.\<close>

definition tokenizePreservedMathInline :: "string \<Rightarrow> token option" where
  "tokenizePreservedMathInline src =
     (case src of
        [] \<Rightarrow> None
      | c # s \<Rightarrow>
          let body = takeWhile (\<lambda>d. d \<noteq> dollar \<and> d \<noteq> nl) s in
          if c = dollar \<and> body \<noteq> [] \<and> startsWith (drop (length body) s) [dollar]
          then Some \<lparr>tk_raw = take (length body + 2) src, tk_block = False\<rparr> else None)"

text \<open>The \<open>start\<close> of the block tokenizer: behind the first newline that dollars follow.\<close>

definition math_block_start :: "string \<Rightarrow> nat option" where
  "math_block_start src =
     map_option Suc (List.find (\<lambda>i. startsWith (drop i src) [nl, dollar, dollar]) [0..<length src])"

text \<open>\<open>preservedBlockFromToken\<close>: the node's text, or nothing for an empty source.\<close>

definition preservedBlockFromToken :: "token \<Rightarrow> string option" where
  "preservedBlockFromToken token =
     (let source = rev (dropWhile (\<lambda>c. c = nl) (rev (tk_raw token))) in
      if source = [] then None else Some source)"

definition preservedHtmlBlock :: "token \<Rightarrow> string option" where
  "preservedHtmlBlock token = (if \<not> tk_block token then None else preservedBlockFromToken token)"

section \<open>Marking the node types\<close>

definition STANDARD_NODE_TYPES :: "string list" where
  "STANDARD_NODE_TYPES = [''text'', ''root'', ''paragraph'', ''heading'', ''list'', ''listItem'']"

fun remarkPreserveType :: "mdast \<Rightarrow> mdast" where
  "remarkPreserveType (MdNode ty v ch d sp p dt cs) =
     MdNode ty v ch d sp p
       (if ty \<in> set STANDARD_NODE_TYPES then dt
        else Some ((case dt of None \<Rightarrow> no_data | Some x \<Rightarrow> x)\<lparr>nd_mdastType := Some ty\<rparr>))
       (map remarkPreserveType cs)"

section \<open>Splitting mixed task lists\<close>

definition isTaskItem :: "mdast \<Rightarrow> bool" where
  "isTaskItem item \<longleftrightarrow> md_checked item \<noteq> None"

definition isSingleBlockItem :: "mdast \<Rightarrow> bool" where
  "isSingleBlockItem item \<longleftrightarrow> length (md_children item) \<le> 1"

definition hasLooseBlockItem :: "mdast \<Rightarrow> bool" where
  "hasLooseBlockItem item \<longleftrightarrow> \<not> isSingleBlockItem item \<and> md_spread item"

definition with_spread :: "mdast \<Rightarrow> bool \<Rightarrow> mdast" where
  "with_spread n b = (case n of MdNode ty v ch d sp p dt cs \<Rightarrow> MdNode ty v ch d b p dt cs)"

definition normalizeSplitListItems :: "mdast list \<Rightarrow> mdast list" where
  "normalizeSplitListItems items = map (\<lambda>item. if isSingleBlockItem item then with_spread item False else item) items"

text \<open>One step of the grouping loop; the groups so far are in order.\<close>

definition add_to_groups :: "(bool \<times> mdast list) list \<Rightarrow> mdast \<Rightarrow> (bool \<times> mdast list) list" where
  "add_to_groups groups item =
     (let isTaskGroup = isTaskItem item in
      if groups \<noteq> [] \<and> fst (last groups) = isTaskGroup
      then butlast groups @ [(isTaskGroup, snd (last groups) @ [item])]
      else groups @ [(isTaskGroup, [item])])"

definition splitMixedList :: "mdast \<Rightarrow> mdast list" where
  "splitMixedList l =
     (let items = md_children l;
          hasTaskItem = list_ex isTaskItem items;
          hasRegularItem = list_ex (\<lambda>item. \<not> isTaskItem item) items in
      if \<not> hasTaskItem \<or> \<not> hasRegularItem then [l]
      else map (\<lambda>(_, items).
             let children = normalizeSplitListItems items in
             with_spread (with_children l children) (list_ex hasLooseBlockItem children))
           (foldl add_to_groups [] items))"

fun splitMixedTaskListsInParent :: "mdast \<Rightarrow> mdast" where
  "splitMixedTaskListsInParent (MdNode ty v ch d sp p dt cs) =
     MdNode ty v ch d sp p dt
       (concat (map (\<lambda>child.
          let child' = splitMixedTaskListsInParent child in
          if md_type child \<noteq> ''list'' then [child']
          else (let splitLists = splitMixedList child' in
                if length splitLists > 1 then splitLists else [child'])) cs))"

definition remarkSplitMixedTaskLists :: "mdast \<Rightarrow> mdast" where
  "remarkSplitMixedTaskLists tree = splitMixedTaskListsInParent tree"

section \<open>Lemmas\<close>

definition group_ok :: "bool \<times> mdast list \<Rightarrow> bool" where
  "group_ok g \<longleftrightarrow> list_all (\<lambda>i. isTaskItem i = fst g) (snd g)"

lemma groups_snoc:
  "list_all group_ok groups \<Longrightarrow> list_all group_ok (add_to_groups groups item)"
  "concat (map snd (add_to_groups groups item)) = concat (map snd groups) @ [item]"
proof -
  have "(list_all group_ok groups \<longrightarrow> list_all group_ok (add_to_groups groups item))
      \<and> concat (map snd (add_to_groups groups item)) = concat (map snd groups) @ [item]"
  proof (cases groups rule: rev_cases)
    case Nil
    then show ?thesis by (simp add: add_to_groups_def group_ok_def)
  next
    case (snoc ys y)
    then show ?thesis
      by (cases "fst y = isTaskItem item") (simp_all add: add_to_groups_def group_ok_def)
  qed
  then show "list_all group_ok groups \<Longrightarrow> list_all group_ok (add_to_groups groups item)"
    "concat (map snd (add_to_groups groups item)) = concat (map snd groups) @ [item]"
    by blast+
qed

lemma groups_fold:
  "list_all group_ok groups \<Longrightarrow>
   list_all group_ok (foldl add_to_groups groups xs)
   \<and> concat (map snd (foldl add_to_groups groups xs)) = concat (map snd groups) @ xs"
  by (induction xs arbitrary: groups) (simp_all add: groups_snoc)

definition homogeneous :: "mdast \<Rightarrow> bool" where
  "homogeneous n \<longleftrightarrow> (if md_type n = ''list''
     then list_all isTaskItem (md_children n) \<or> list_all (\<lambda>i. \<not> isTaskItem i) (md_children n) else True)"

lemma with_spread_simps [simp]:
  "md_type (with_spread n b) = md_type n" "md_children (with_spread n b) = md_children n"
  "md_checked (with_spread n b) = md_checked n" "shown (with_spread n b) = shown n"
  by (cases n; simp add: with_spread_def)+

lemma with_children_simps [simp]:
  "md_type (with_children n cs) = md_type n" "md_children (with_children n cs) = cs"
  by (cases n; simp add: with_children_def)+

lemma isTaskItem_spread [simp]: "isTaskItem (with_spread n b) = isTaskItem n"
  by (simp add: isTaskItem_def)

lemma preorder_children: "preorder n = n # concat (map preorder (md_children n))"
  by (cases n) simp

lemma homogeneous_spread [simp]: "homogeneous (with_spread n b) = homogeneous n"
  by (simp add: homogeneous_def)

text \<open>Lists below a node.\<close>

definition below_ok :: "mdast \<Rightarrow> bool" where
  "below_ok n \<longleftrightarrow> list_all (\<lambda>c. list_all homogeneous (preorder c)) (md_children n)"

lemma below_ok_alt: "below_ok n \<longleftrightarrow> list_all homogeneous (tl (preorder n))"
  by (auto simp: below_ok_def preorder_children [of n] list_all_iff)

lemma preorder_ok_iff: "list_all homogeneous (preorder n) \<longleftrightarrow> homogeneous n \<and> below_ok n"
  by (simp add: below_ok_alt preorder_children [of n])

lemma preorder_ok_spread [simp]:
  "list_all homogeneous (preorder (with_spread n b)) = list_all homogeneous (preorder n)"
  unfolding preorder_ok_iff unfolding below_ok_def by simp

lemma splitMixedList_items:
  assumes "l' \<in> set (splitMixedList l)" and "md_type l = ''list''" and "below_ok l"
  shows "homogeneous l' \<and> below_ok l'"
proof (cases "list_ex isTaskItem (md_children l) \<and> list_ex (\<lambda>i. \<not> isTaskItem i) (md_children l)")
  case False
  then have "l' = l" using assms(1) by (auto simp: splitMixedList_def Let_def)
  then show ?thesis using False assms by (auto simp: homogeneous_def list_all_iff list_ex_iff)
next
  case True
  let ?g = "foldl add_to_groups [] (md_children l)"
  have g: "list_all group_ok ?g" "concat (map snd ?g) = md_children l"
    using groups_fold [of "[]" "md_children l"] by simp_all
  from True assms(1) obtain b items where bi: "(b, items) \<in> set ?g"
    and l': "l' = with_spread (with_children l (normalizeSplitListItems items))
        (list_ex hasLooseBlockItem (normalizeSplitListItems items))"
    by (auto simp: splitMixedList_def Let_def)
  have task: "\<forall>i \<in> set items. isTaskItem i = b" using g(1) bi by (auto simp: list_all_iff group_ok_def)
  have sub: "set items \<subseteq> set (md_children l)" using bi by (subst g(2) [symmetric]) force
  have "homogeneous l'"
    using task by (cases b) (auto simp: l' homogeneous_def normalizeSplitListItems_def list_all_iff)
  moreover have "below_ok l'"
    using assms(3) sub
    by (auto simp: l' below_ok_def normalizeSplitListItems_def list_all_iff [where P = "\<lambda>c. list_all homogeneous (preorder c)"])
  ultimately show ?thesis by blast
qed

lemma shown_normalize: "map shown (normalizeSplitListItems items) = map shown items"
  by (simp add: normalizeSplitListItems_def)

lemma splitMixedList_children:
  "map shown (concat (map md_children (splitMixedList l))) = map shown (md_children l)"
proof (cases "list_ex isTaskItem (md_children l) \<and> list_ex (\<lambda>i. \<not> isTaskItem i) (md_children l)")
  case False
  then show ?thesis by (auto simp: splitMixedList_def Let_def)
next
  case True
  have g: "concat (map snd (foldl add_to_groups [] (md_children l))) = md_children l"
    using groups_fold [of "[]" "md_children l"] by simp
  have "concat (map (map shown) (map snd (foldl add_to_groups [] (md_children l)))) = map shown (md_children l)"
    by (subst (2) g [symmetric]) (simp only: map_concat)
  then show ?thesis using True
    by (simp add: splitMixedList_def Let_def case_prod_beta o_def map_concat shown_normalize)
qed

lemma single_group_homogeneous:
  assumes "\<not> 1 < length (splitMixedList l)"
  shows "homogeneous l"
proof (cases "list_ex isTaskItem (md_children l) \<and> list_ex (\<lambda>i. \<not> isTaskItem i) (md_children l)")
  case False
  then show ?thesis by (auto simp: homogeneous_def list_all_iff list_ex_iff)
next
  case True
  let ?g = "foldl add_to_groups [] (md_children l)"
  have g: "list_all group_ok ?g" "concat (map snd ?g) = md_children l"
    using groups_fold [of "[]" "md_children l"] by simp_all
  have "length ?g \<le> 1" using assms True by (simp add: splitMixedList_def)
  then have "\<exists>b. list_all (\<lambda>i. isTaskItem i = b) (md_children l)"
    using g by (cases ?g) (auto simp: group_ok_def)
  then obtain b where "list_all (\<lambda>i. isTaskItem i = b) (md_children l)" by blast
  then show ?thesis by (cases b) (simp_all add: homogeneous_def)
qed

lemma split_child_ok:
  assumes "below_ok c'" and "md_type c' = ty"
    and "l \<in> set (if ty \<noteq> ''list'' then [c']
          else (let splitLists = splitMixedList c' in if length splitLists > 1 then splitLists else [c']))"
  shows "list_all homogeneous (preorder l)"
proof -
  have "homogeneous l \<and> below_ok l"
  proof (cases "ty = ''list'' \<and> 1 < length (splitMixedList c')")
    case True
    then show ?thesis using assms splitMixedList_items by (auto simp: Let_def)
  next
    case False
    then have "l = c'" using assms(3) by (auto simp: Let_def split: if_splits)
    then show ?thesis using False assms single_group_homogeneous by (auto simp: homogeneous_def)
  qed
  then show ?thesis by (simp only: preorder_ok_iff)
qed

lemma split_type: "md_type (splitMixedTaskListsInParent c) = md_type c"
  by (cases c) simp

lemma below_ok_split: "below_ok (splitMixedTaskListsInParent n)"
proof (induction n)
  case (MdNode ty v ch d sp p dt cs)
  then show ?case
    using split_child_ok [OF MdNode.IH split_type]
    by (auto simp: below_ok_def [of "MdNode _ _ _ _ _ _ _ _"] list_all_iff [where P = "\<lambda>c. list_all homogeneous (preorder c)"] Let_def
        simp del: preorder.simps)
qed

section \<open>Properties\<close>

text \<open>
  after the renderer has split the lists, no list below the root mixes task items and plain
  items, and splitting one list keeps what its items show, in order.
\<close>

theorem split_lists_homogeneous:
  "below_ok (remarkSplitMixedTaskLists tree)
   \<and> map shown (concat (map md_children (splitMixedList l))) = map shown (md_children l)"
  unfolding remarkSplitMixedTaskLists_def using below_ok_split splitMixedList_children by blast

end
