(* ===== verification/Attachments.thy ===== *)
theory Attachments
  imports Proto "HOL-Library.Multiset"
begin

text \<open>
  Attachments: their types and addresses (\<^verbatim>\<open>utils/attachment.ts\<close>), the visual items a memo
  shows (\<^verbatim>\<open>utils/media-item.ts\<close>), the items of the editor's list
  (\<^verbatim>\<open>components/MemoEditor/types/attachment.ts\<close>), the groups and labels of the memo view
  (\<^verbatim>\<open>attachmentHelpers.ts\<close>, \<^verbatim>\<open>utils/format.ts\<close>), the gallery layout
  (\<^verbatim>\<open>visualGalleryLayout.ts\<close>) and the pairing of live photos on upload (\<^verbatim>\<open>useFileUpload.ts\<close>).
  \<open>origin\<close> is \<open>window.location.origin\<close>.
\<close>

section \<open>Types and addresses\<close>

definition getAttachmentUrl :: "string \<Rightarrow> attachment \<Rightarrow> string" where
  "getAttachmentUrl origin a =
     (if a_externalLink a \<noteq> [] then a_externalLink a
      else origin @ ''/file/'' @ a_name a @ ''/'' @ a_filename a)"

definition getAttachmentThumbnailUrl :: "string \<Rightarrow> attachment \<Rightarrow> string" where
  "getAttachmentThumbnailUrl origin a =
     origin @ ''/file/'' @ a_name a @ ''/'' @ a_filename a @ ''?thumbnail=true''"

definition getAttachmentMotionClipUrl :: "string \<Rightarrow> attachment \<Rightarrow> string" where
  "getAttachmentMotionClipUrl origin a =
     origin @ ''/file/'' @ a_name a @ ''/'' @ a_filename a @ ''?motion=true''"

definition isPSD :: "string \<Rightarrow> bool" where
  "isPSD t \<longleftrightarrow> t = ''image/vnd.adobe.photoshop'' \<or> t = ''image/x-photoshop'' \<or> t = ''image/photoshop''"

definition isImage :: "string \<Rightarrow> bool" where
  "isImage t \<longleftrightarrow> startsWith t ''image/'' \<and> \<not> isPSD t"

definition isMidiFile :: "string \<Rightarrow> bool" where
  "isMidiFile t \<longleftrightarrow>
     t = ''audio/midi'' \<or> t = ''audio/mid'' \<or> t = ''audio/x-midi'' \<or> t = ''application/x-midi''"

definition getAttachmentType :: "attachment \<Rightarrow> string" where
  "getAttachmentType a =
     (let t = a_type a in
      if isImage t then ''image/*''
      else if startsWith t ''video'' then ''video/*''
      else if startsWith t ''audio'' \<and> \<not> isMidiFile t then ''audio/*''
      else if startsWith t ''text'' then ''text/*''
      else if startsWith t ''application/epub+zip'' then ''application/epub+zip''
      else if startsWith t ''application/pdf'' then ''application/pdf''
      else if includes_str t ''word'' then ''application/msword''
      else if includes_str t ''excel'' then ''application/msexcel''
      else if startsWith t ''application/zip'' then ''application/zip''
      else if startsWith t ''application/x-java-archive'' then ''application/x-java-archive''
      else ''application/octet-stream'')"

definition getAttachmentMotionGroupId :: "attachment \<Rightarrow> string option" where
  "getAttachmentMotionGroupId a =
     (case a_motionMedia a of
        None \<Rightarrow> None
      | Some m \<Rightarrow> if mm_groupId m = [] then None else Some (mm_groupId m))"

definition has_motion :: "motion_media option \<Rightarrow> motion_family \<Rightarrow> motion_role \<Rightarrow> bool" where
  "has_motion mm f r \<longleftrightarrow> (case mm of None \<Rightarrow> False | Some m \<Rightarrow> mm_family m = f \<and> mm_role m = r)"

definition isAppleLivePhotoStill :: "attachment \<Rightarrow> bool" where
  "isAppleLivePhotoStill a \<longleftrightarrow> has_motion (a_motionMedia a) APPLE_LIVE_PHOTO STILL"

definition isAppleLivePhotoVideo :: "attachment \<Rightarrow> bool" where
  "isAppleLivePhotoVideo a \<longleftrightarrow> has_motion (a_motionMedia a) APPLE_LIVE_PHOTO VIDEO"

definition isAndroidMotionContainer :: "attachment \<Rightarrow> bool" where
  "isAndroidMotionContainer a \<longleftrightarrow>
     has_motion (a_motionMedia a) ANDROID_MOTION_PHOTO CONTAINER
     \<and> (case a_motionMedia a of None \<Rightarrow> False | Some m \<Rightarrow> mm_hasEmbeddedVideo m)"

definition isMotionAttachment :: "attachment \<Rightarrow> bool" where
  "isMotionAttachment a \<longleftrightarrow>
     isAppleLivePhotoStill a \<or> isAppleLivePhotoVideo a \<or> isAndroidMotionContainer a"

section \<open>Visual items\<close>

datatype preview_media_item =
    ImagePreview (pv_id: string) (pv_filename: string) (pv_sourceUrl: string) (pv_posterUrl: "string option")
  | VideoPreview (pv_id: string) (pv_filename: string) (pv_sourceUrl: string) (pv_posterUrl: "string option")
  | MotionPreview (pv_id: string) (pv_filename: string) (pv_motionPosterUrl: string) (pv_motionUrl: string)
      (pv_presentationTimestampUs: "int option")

datatype media_kind = KImage | KVideo | KMotion

record visual_item =
  vi_id :: string
  vi_kind :: media_kind
  vi_filename :: string
  vi_posterUrl :: string
  vi_sourceUrl :: string
  vi_attachmentNames :: "string list"
  vi_attachments :: "attachment list"
  vi_previewItem :: preview_media_item
  vi_mimeType :: string

definition buildSingleAttachmentItem :: "string \<Rightarrow> attachment \<Rightarrow> visual_item" where
  "buildSingleAttachmentItem origin a =
     (let attachmentType = getAttachmentType a;
          sourceUrl = getAttachmentUrl origin a;
          posterUrl = (if attachmentType = ''image/*'' then getAttachmentThumbnailUrl origin a else sourceUrl);
          video = (attachmentType = ''video/*'') in
      \<lparr>vi_id = a_name a, vi_kind = (if video then KVideo else KImage), vi_filename = a_filename a,
       vi_posterUrl = posterUrl, vi_sourceUrl = sourceUrl, vi_attachmentNames = [a_name a],
       vi_attachments = [a],
       vi_previewItem = (if video then VideoPreview (a_name a) (a_filename a) sourceUrl (Some posterUrl)
                         else ImagePreview (a_name a) (a_filename a) sourceUrl (Some posterUrl)),
       vi_mimeType = a_type a\<rparr>)"

definition buildAppleMotionItem :: "string \<Rightarrow> attachment \<Rightarrow> attachment \<Rightarrow> visual_item" where
  "buildAppleMotionItem origin still video =
     (let sourceUrl = getAttachmentUrl origin video;
          posterUrl = getAttachmentThumbnailUrl origin still;
          i = (case getAttachmentMotionGroupId still of None \<Rightarrow> a_name still | Some g \<Rightarrow> g) in
      \<lparr>vi_id = i, vi_kind = KMotion, vi_filename = a_filename still, vi_posterUrl = posterUrl,
       vi_sourceUrl = sourceUrl, vi_attachmentNames = [a_name still, a_name video],
       vi_attachments = [still, video],
       vi_previewItem = MotionPreview i (a_filename still) posterUrl sourceUrl None,
       vi_mimeType = a_type still\<rparr>)"

definition buildAndroidMotionItem :: "string \<Rightarrow> attachment \<Rightarrow> visual_item" where
  "buildAndroidMotionItem origin a =
     \<lparr>vi_id = a_name a, vi_kind = KMotion, vi_filename = a_filename a,
      vi_posterUrl = getAttachmentThumbnailUrl origin a,
      vi_sourceUrl = getAttachmentMotionClipUrl origin a, vi_attachmentNames = [a_name a],
      vi_attachments = [a],
      vi_previewItem = MotionPreview (a_name a) (a_filename a) (getAttachmentThumbnailUrl origin a)
        (getAttachmentMotionClipUrl origin a)
        (map_option mm_presentationTimestampUs (a_motionMedia a)),
      vi_mimeType = a_type a\<rparr>"

definition dedupeVisualItems :: "visual_item list \<Rightarrow> visual_item list" where
  "dedupeVisualItems items = uniq_by vi_id [] items"

text \<open>The grouping loop that the \<open>ordered_map\<close> facts are about.\<close>

definition group_by :: "('a \<Rightarrow> 'k option) \<Rightarrow> 'a list \<Rightarrow> ('k \<times> 'a list) list" where
  "group_by f xs =
     foldl (\<lambda>m x. case f x of None \<Rightarrow> m
              | Some k \<Rightarrow> AList.update k ((case map_of m k of None \<Rightarrow> [] | Some g \<Rightarrow> g) @ [x]) m) [] xs"

definition group_of :: "('k \<times> 'a list) list \<Rightarrow> 'k \<Rightarrow> 'a list" where
  "group_of m k = (case map_of m k of None \<Rightarrow> [] | Some g \<Rightarrow> g)"

text \<open>One round of the main loop: the consumed groups and the items so far.\<close>

definition visual_step ::
  "string \<Rightarrow> (string \<times> attachment list) list \<Rightarrow> string list \<times> visual_item list \<Rightarrow> attachment
     \<Rightarrow> string list \<times> visual_item list" where
  "visual_step origin groups st a =
     (let (consumed, items) = st in
      if isAndroidMotionContainer a then (consumed, items @ [buildAndroidMotionItem origin a])
      else case getAttachmentMotionGroupId a of
             None \<Rightarrow> (consumed, items @ [buildSingleAttachmentItem origin a])
           | Some g \<Rightarrow>
               if g \<in> set consumed then (consumed, items)
               else
                 let group = group_of groups g;
                     plain = (g # consumed, items @ buildSingleAttachmentItem origin a
                       # map (buildSingleAttachmentItem origin) (filter (\<lambda>m. a_name m \<noteq> a_name a) group)) in
                 case (List.find isAppleLivePhotoStill group, List.find isAppleLivePhotoVideo group) of
                   (Some still, Some video) \<Rightarrow>
                     if length group = 2 then (g # consumed, items @ [buildAppleMotionItem origin still video])
                     else plain
                 | _ \<Rightarrow> plain)"

definition buildAttachmentVisualItems :: "string \<Rightarrow> attachment list \<Rightarrow> visual_item list" where
  "buildAttachmentVisualItems origin attachments =
     (let attachmentsByGroup = group_by getAttachmentMotionGroupId attachments in
      dedupeVisualItems (snd (foldl (visual_step origin attachmentsByGroup) ([], []) attachments)))"

definition countLogicalAttachmentItems :: "string \<Rightarrow> attachment list \<Rightarrow> nat" where
  "countLogicalAttachmentItems origin attachments =
     (let visualAttachments = filter (\<lambda>a. getAttachmentType a = ''image/*'' \<or> getAttachmentType a = ''video/*''
                                \<or> isMotionAttachment a) attachments;
          visualNames = map a_name visualAttachments in
      length (buildAttachmentVisualItems origin visualAttachments)
      + length (filter (\<lambda>a. a_name a \<notin> set visualNames) attachments))"

section \<open>The items of the editor\<close>

datatype file_category = CImage | CVideo | CMotion | CAudio | CDocument

datatype file_origin = AudioRecording | Upload

record js_file =
  f_name :: string
  f_type :: string
  f_size :: int
  f_bytes :: "nat list"

record local_file =
  lf_file :: js_file
  lf_previewUrl :: string
  lf_origin :: "file_origin option"
  lf_audioMeta :: "rat option"
  lf_motionMedia :: "motion_media option"

record attachment_item =
  ai_id :: string
  ai_memberIds :: "string list"
  ai_filename :: string
  ai_category :: file_category
  ai_mimeType :: string
  ai_thumbnailUrl :: string
  ai_sourceUrl :: string
  ai_size :: int
  ai_isLocal :: bool
  ai_isVoiceNote :: bool
  ai_audioMeta :: "rat option"

text \<open>
  \<open>/^(?:voice-(?:recording|note)|audio-recording)-(\d{8})-(\d{4,6})/i\<close>: the second group.
\<close>

definition recording_prefixes :: "string list" where
  "recording_prefixes = [''voice-recording-'', ''voice-note-'', ''audio-recording-'']"

definition match_recording :: "string \<Rightarrow> string option" where
  "match_recording filename =
     (case List.find (\<lambda>p. startsWith (toLowerCase filename) p) recording_prefixes of
        None \<Rightarrow> None
      | Some p \<Rightarrow>
          let r = drop (length p) filename;
              time = takeWhile is_digit (drop 9 r) in
          if 9 \<le> length r \<and> list_all is_digit (take 8 r) \<and> r ! 8 = CHR ''-'' \<and> 4 \<le> length time
          then Some (take 6 time) else None)"

definition isAudioRecordingFilename :: "string \<Rightarrow> bool" where
  "isAudioRecordingFilename filename \<longleftrightarrow> match_recording filename \<noteq> None"

definition getAudioRecordingTimeLabel :: "string \<Rightarrow> string option" where
  "getAudioRecordingTimeLabel filename =
     (case match_recording filename of
        None \<Rightarrow> None
      | Some t \<Rightarrow>
          if length t = 4 then Some (take 2 t @ '':'' @ take 2 (drop 2 t))
          else if length t = 6 then Some (take 2 t @ '':'' @ take 2 (drop 2 t) @ '':'' @ take 2 (drop 4 t))
          else None)"

definition categorizeFile :: "string \<Rightarrow> motion_media option \<Rightarrow> file_category" where
  "categorizeFile mimeType motionMedia =
     (if motionMedia \<noteq> None then CMotion
      else if startsWith mimeType ''image/'' then CImage
      else if startsWith mimeType ''video/'' then CVideo
      else if startsWith mimeType ''audio/'' then CAudio
      else CDocument)"

definition attachmentGroupToItem :: "string \<Rightarrow> attachment \<Rightarrow> attachment_item" where
  "attachmentGroupToItem origin a =
     (let sourceUrl = getAttachmentUrl origin a in
      \<lparr>ai_id = a_name a, ai_memberIds = [a_name a], ai_filename = a_filename a,
       ai_category = categorizeFile (a_type a) None, ai_mimeType = a_type a,
       ai_thumbnailUrl = (if getAttachmentType a = ''image/*'' then getAttachmentThumbnailUrl origin a
                          else sourceUrl),
       ai_sourceUrl = sourceUrl, ai_size = a_size a, ai_isLocal = False,
       ai_isVoiceNote = (categorizeFile (a_type a) None = CAudio \<and> isAudioRecordingFilename (a_filename a)),
       ai_audioMeta = None\<rparr>)"

definition visualItemToAttachmentItem :: "visual_item \<Rightarrow> attachment_item" where
  "visualItemToAttachmentItem item =
     \<lparr>ai_id = vi_id item, ai_memberIds = vi_attachmentNames item, ai_filename = vi_filename item,
      ai_category = (case vi_kind item of KMotion \<Rightarrow> CMotion | KImage \<Rightarrow> CImage | KVideo \<Rightarrow> CVideo),
      ai_mimeType = vi_mimeType item, ai_thumbnailUrl = vi_posterUrl item,
      ai_sourceUrl = vi_sourceUrl item, ai_size = foldl (\<lambda>total a. total + a_size a) 0 (vi_attachments item),
      ai_isLocal = False, ai_isVoiceNote = False, ai_audioMeta = None\<rparr>"

definition fileToItem :: "local_file \<Rightarrow> attachment_item" where
  "fileToItem file =
     (let category = categorizeFile (f_type (lf_file file)) (lf_motionMedia file) in
      \<lparr>ai_id = (case lf_motionMedia file of
                  None \<Rightarrow> lf_previewUrl file
                | Some m \<Rightarrow> if mm_groupId m = [] then lf_previewUrl file else mm_groupId m),
       ai_memberIds = [lf_previewUrl file], ai_filename = f_name (lf_file file),
       ai_category = category, ai_mimeType = f_type (lf_file file),
       ai_thumbnailUrl = lf_previewUrl file, ai_sourceUrl = lf_previewUrl file,
       ai_size = f_size (lf_file file), ai_isLocal = True,
       ai_isVoiceNote = (category = CAudio
         \<and> (lf_origin file = Some AudioRecording \<or> isAudioRecordingFilename (f_name (lf_file file)))),
       ai_audioMeta = lf_audioMeta file\<rparr>)"

definition local_group_id :: "local_file \<Rightarrow> string option" where
  "local_group_id file =
     (case lf_motionMedia file of
        None \<Rightarrow> None
      | Some m \<Rightarrow> if mm_groupId m = [] then None else Some (mm_groupId m))"

definition local_group_items :: "string \<times> local_file list \<Rightarrow> attachment_item list" where
  "local_group_items g =
     (let (groupId, files) = g in
      case (List.find (\<lambda>f. has_motion (lf_motionMedia f) APPLE_LIVE_PHOTO STILL) files,
            List.find (\<lambda>f. has_motion (lf_motionMedia f) APPLE_LIVE_PHOTO VIDEO) files) of
        (Some still, Some video) \<Rightarrow>
          if length files = 2 then
            [\<lparr>ai_id = groupId, ai_memberIds = [lf_previewUrl still, lf_previewUrl video],
              ai_filename = f_name (lf_file still), ai_category = CMotion,
              ai_mimeType = f_type (lf_file still), ai_thumbnailUrl = lf_previewUrl still,
              ai_sourceUrl = lf_previewUrl video,
              ai_size = f_size (lf_file still) + f_size (lf_file video),
              ai_isLocal = True, ai_isVoiceNote = False, ai_audioMeta = None\<rparr>]
          else map fileToItem files
      | _ \<Rightarrow> map fileToItem files)"

definition toLocalMotionItems :: "local_file list \<Rightarrow> attachment_item list" where
  "toLocalMotionItems localFiles =
     concat (map local_group_items (group_by local_group_id localFiles))
     @ map fileToItem (filter (\<lambda>f. local_group_id f = None) localFiles)"

definition toAttachmentItems :: "string \<Rightarrow> attachment list \<Rightarrow> local_file list \<Rightarrow> attachment_item list" where
  "toAttachmentItems origin attachments localFiles =
     (let visualAttachments = filter (\<lambda>a. getAttachmentType a = ''image/*'' \<or> getAttachmentType a = ''video/*''
                                \<or> a_motionMedia a \<noteq> None) attachments;
          visualItems = buildAttachmentVisualItems origin visualAttachments;
          attachmentVisualIds = concat (map vi_attachmentNames visualItems);
          nonVisualItems = filter (\<lambda>i. ai_category i = CAudio \<or> ai_category i = CDocument)
            (map (attachmentGroupToItem origin) (filter (\<lambda>a. a_name a \<notin> set attachmentVisualIds) attachments)) in
      map visualItemToAttachmentItem visualItems @ nonVisualItems @ toLocalMotionItems localFiles)"

definition filterByCategory :: "attachment_item list \<Rightarrow> file_category list \<Rightarrow> attachment_item list" where
  "filterByCategory items categories = filter (\<lambda>i. ai_category i \<in> set categories) items"

record media_and_docs =
  md_media :: "attachment_item list"
  md_docs :: "attachment_item list"

definition separateMediaAndDocs :: "attachment_item list \<Rightarrow> media_and_docs" where
  "separateMediaAndDocs items =
     foldl (\<lambda>g item. if ai_category item = CImage \<or> ai_category item = CVideo \<or> ai_category item = CMotion
              then g\<lparr>md_media := md_media g @ [item]\<rparr> else g\<lparr>md_docs := md_docs g @ [item]\<rparr>)
       \<lparr>md_media = [], md_docs = []\<rparr> items"

section \<open>Groups and labels of the memo view\<close>

record attachment_groups =
  ag_visual :: "attachment list"
  ag_audio :: "attachment list"
  ag_docs :: "attachment list"

definition isImageAttachment :: "attachment \<Rightarrow> bool" where
  "isImageAttachment a \<longleftrightarrow> getAttachmentType a = ''image/*''"

definition isVideoAttachment :: "attachment \<Rightarrow> bool" where
  "isVideoAttachment a \<longleftrightarrow> getAttachmentType a = ''video/*''"

definition isAudioAttachment :: "attachment \<Rightarrow> bool" where
  "isAudioAttachment a \<longleftrightarrow> getAttachmentType a = ''audio/*''"

definition separateAttachments :: "attachment list \<Rightarrow> attachment_groups" where
  "separateAttachments attachments =
     foldl (\<lambda>g a. if isImageAttachment a \<or> isVideoAttachment a then g\<lparr>ag_visual := ag_visual g @ [a]\<rparr>
              else if isAudioAttachment a then g\<lparr>ag_audio := ag_audio g @ [a]\<rparr>
              else g\<lparr>ag_docs := ag_docs g @ [a]\<rparr>)
       \<lparr>ag_visual = [], ag_audio = [], ag_docs = []\<rparr> attachments"

text \<open>A number of seconds; \<open>None\<close> stands for the values that are not finite.\<close>

definition formatAudioTime :: "rat option \<Rightarrow> string" where
  "formatAudioTime seconds =
     (case seconds of
        None \<Rightarrow> ''0:00''
      | Some s \<Rightarrow>
          if s < 0 then ''0:00''
          else
            let rounded = nat \<lfloor>s\<rfloor>;
                hours = rounded div 3600;
                minutes = rounded mod 3600 div 60;
                secs = rounded mod 60 in
            if hours > 0
            then show_nat hours @ '':'' @ pad_start 2 CHR ''0'' (show_nat minutes) @ '':''
                 @ pad_start 2 CHR ''0'' (show_nat secs)
            else show_nat minutes @ '':'' @ pad_start 2 CHR ''0'' (show_nat secs))"

text \<open>
  The label of a MIME type. The tables are plain objects in the code; a key that names a member of
  \<open>Object.prototype\<close> is outside the model.
\<close>

definition special_labels :: "(string \<times> string) list" where
  "special_labels =
     [(''application/pdf'', ''PDF''), (''application/zip'', ''ZIP''),
      (''application/x-zip-compressed'', ''ZIP''), (''application/json'', ''JSON''),
      (''application/xml'', ''XML''), (''text/plain'', ''TXT''), (''text/html'', ''HTML''),
      (''text/css'', ''CSS''), (''text/javascript'', ''JS''), (''application/javascript'', ''JS'')]"

definition image_labels :: "(string \<times> string) list" where
  "image_labels =
     [(''jpeg'', ''JPEG''), (''jpg'', ''JPEG''), (''png'', ''PNG''), (''gif'', ''GIF''),
      (''webp'', ''WebP''), (''svg'', ''SVG''), (''svg+xml'', ''SVG''), (''bmp'', ''BMP''), (''ico'', ''ICO'')]"

definition video_labels :: "(string \<times> string) list" where
  "video_labels =
     [(''mp4'', ''MP4''), (''webm'', ''WEBM''), (''ogg'', ''OGG''), (''avi'', ''AVI''), (''mov'', ''MOV''),
      (''quicktime'', ''MOV'')]"

definition audio_labels :: "(string \<times> string) list" where
  "audio_labels =
     [(''mp3'', ''MP3''), (''mpeg'', ''MP3''), (''wav'', ''WAV''), (''ogg'', ''OGG''), (''webm'', ''WEBM'')]"

definition label_or :: "(string \<times> string) list \<Rightarrow> string \<Rightarrow> string" where
  "label_or table subtype = (case map_of table subtype of Some l \<Rightarrow> l | None \<Rightarrow> toUpperCase subtype)"

definition getFileTypeLabel :: "string \<Rightarrow> string" where
  "getFileTypeLabel mimeType =
     (if mimeType = [] then ''File''
      else
        let normalized = trim (hd (split_char CHR '';'' (toLowerCase mimeType)));
            parts = split_char CHR ''/'' normalized;
            category = hd parts;
            subtype = (case tl parts of [] \<Rightarrow> [] | s # _ \<Rightarrow> s) in
        case map_of special_labels normalized of
          Some l \<Rightarrow> l
        | None \<Rightarrow>
            if category = ''image'' then label_or image_labels subtype
            else if category = ''video'' then label_or video_labels subtype
            else if category = ''audio'' then label_or audio_labels subtype
            else if subtype \<noteq> [] then toUpperCase subtype else toUpperCase category)"

section \<open>The gallery\<close>

text \<open>\<open>cn\<close> (third-party) joins class names.\<close>

record gallery_cell =
  gc_item :: visual_item
  gc_className :: "string option"
  gc_overlayLabel :: "string option"

datatype gallery_layout =
    GallerySingle visual_item
  | GalleryCollage string "gallery_cell list"

definition TWO_ITEM_GRID_HEIGHT_CLASS :: string where
  "TWO_ITEM_GRID_HEIGHT_CLASS = ''h-[11rem] sm:h-[13rem] md:h-[15rem]''"

definition MOSAIC_GRID_HEIGHT_CLASS :: string where
  "MOSAIC_GRID_HEIGHT_CLASS = ''h-[13rem] sm:h-[16rem] md:h-[18rem]''"

definition SIX_UP_GRID_HEIGHT_CLASS :: string where
  "SIX_UP_GRID_HEIGHT_CLASS = ''h-[14rem] sm:h-[17rem] md:h-[20rem]''"

definition COLLAGE_MAX_VISIBLE_CELLS :: nat where
  "COLLAGE_MAX_VISIBLE_CELLS = 6"

definition plain_cell :: "visual_item \<Rightarrow> gallery_cell" where
  "plain_cell item = \<lparr>gc_item = item, gc_className = None, gc_overlayLabel = None\<rparr>"

definition resolveVisualGalleryLayout ::
  "(string list \<Rightarrow> string) \<Rightarrow> visual_item list \<Rightarrow> gallery_layout option" where
  "resolveVisualGalleryLayout cn items =
     (let count = length items in
      if count = 0 then None
      else if count = 1 then Some (GallerySingle (items ! 0))
      else if count = 2 then
        Some (GalleryCollage (cn [''grid grid-cols-2 gap-2'', TWO_ITEM_GRID_HEIGHT_CLASS]) (map plain_cell items))
      else if count = 3 then
        Some (GalleryCollage (cn [''grid grid-cols-2 grid-rows-2 gap-2'', MOSAIC_GRID_HEIGHT_CLASS])
          [(plain_cell (items ! 0))\<lparr>gc_className := Some ''row-span-2''\<rparr>, plain_cell (items ! 1),
           plain_cell (items ! 2)])
      else if count = 4 then
        Some (GalleryCollage (cn [''grid grid-cols-2 grid-rows-2 gap-2'', MOSAIC_GRID_HEIGHT_CLASS])
          (map plain_cell items))
      else
        let visible = take COLLAGE_MAX_VISIBLE_CELLS items;
            overflowCount = length items - length visible in
        Some (GalleryCollage (cn [''grid grid-cols-3 grid-rows-2 gap-2'', SIX_UP_GRID_HEIGHT_CLASS])
          (map (\<lambda>i. (plain_cell (visible ! i))\<lparr>gc_overlayLabel :=
              (if i = length visible - 1 \<and> overflowCount > 0 then Some (CHR ''+'' # show_nat overflowCount)
               else None)\<rparr>) [0..<length visible])))"

section \<open>Pairing live photos on upload\<close>

definition normalizeFilenameStem :: "string \<Rightarrow> string" where
  "normalizeFilenameStem filename =
     (let parts = split_char CHR ''.'' filename in
      if length parts \<le> 1 then toLowerCase filename
      else toLowerCase (join ''.'' (butlast parts)))"

definition buildLocalMotionMedia :: "string \<Rightarrow> motion_role \<Rightarrow> motion_media" where
  "buildLocalMotionMedia groupId role =
     \<lparr>mm_family = APPLE_LIVE_PHOTO, mm_role = role, mm_groupId = groupId,
      mm_presentationTimestampUs = 0, mm_hasEmbeddedVideo = False\<rparr>"

definition local_stem :: "local_file \<Rightarrow> string" where
  "local_stem f = normalizeFilenameStem (f_name (lf_file f))"

text \<open>
  One call of the mapping function, with the \<open>groupIds\<close> map threaded through; \<open>uuid n\<close> is the
  \<open>n\<close>-th result of \<open>crypto.randomUUID()\<close>, and one is drawn for each new stem of the map.
\<close>

definition pair_file ::
  "(nat \<Rightarrow> string) \<Rightarrow> (string \<times> local_file list) list \<Rightarrow> (string \<times> string) list \<Rightarrow> local_file
     \<Rightarrow> local_file \<times> (string \<times> string) list" where
  "pair_file uuid stemMap groupIds f =
     (let stem = local_stem f;
          group = group_of stemMap stem;
          images = filter (\<lambda>i. startsWith (f_type (lf_file i)) ''image/'') group;
          videos = filter (\<lambda>i. startsWith (f_type (lf_file i)) ''video/'') group in
      if length images \<noteq> 1 \<or> length videos \<noteq> 1 then (f, groupIds)
      else
        let groupId = (case map_of groupIds stem of Some g \<Rightarrow> g
                       | None \<Rightarrow> stem @ ''-'' @ uuid (length groupIds));
            groupIds' = AList.update stem groupId groupIds in
        if lf_previewUrl f = lf_previewUrl (images ! 0)
        then (f\<lparr>lf_motionMedia := Some (buildLocalMotionMedia groupId STILL)\<rparr>, groupIds')
        else if lf_previewUrl f = lf_previewUrl (videos ! 0)
        then (f\<lparr>lf_motionMedia := Some (buildLocalMotionMedia groupId VIDEO)\<rparr>, groupIds')
        else (f, groupIds'))"

fun pair_files ::
  "(nat \<Rightarrow> string) \<Rightarrow> (string \<times> local_file list) list \<Rightarrow> (string \<times> string) list \<Rightarrow> local_file list
     \<Rightarrow> local_file list" where
  "pair_files uuid stemMap groupIds [] = []"
| "pair_files uuid stemMap groupIds (f # fs) =
     (let (f', groupIds') = pair_file uuid stemMap groupIds f in f' # pair_files uuid stemMap groupIds' fs)"

definition pairAppleLivePhotoFiles :: "(nat \<Rightarrow> string) \<Rightarrow> local_file list \<Rightarrow> local_file list" where
  "pairAppleLivePhotoFiles uuid localFiles =
     pair_files uuid (group_by (\<lambda>f. Some (local_stem f)) localFiles) [] localFiles"

section \<open>Lemmas on groups\<close>

text \<open>The map's laws at work: a group is the sublist of its key, and the keys are those that occur.\<close>

lemma group_of_filter: "group_of (group_by f xs) k = filter (\<lambda>x. f x = Some k) xs"
  using jsmap.group_get [of f "[]" xs k]
  by (simp add: group_of_def group_by_def Let_def split: option.splits if_splits)

lemma group_by_keys: "map fst (group_by f xs) = js_uniq (List.map_filter f xs)"
  using jsmap.group_keys [of f "[]" xs] by (simp add: group_by_def js_uniq_def)

lemma group_by_entries: "(k, g) \<in> set (group_by f xs) \<Longrightarrow> g = filter (\<lambda>x. f x = Some k) xs"
proof -
  assume a: "(k, g) \<in> set (group_by f xs)"
  have "distinct (map fst (group_by f xs))" by (simp add: group_by_keys)
  then have "map_of (group_by f xs) k = Some g" using a by (rule map_of_is_SomeI)
  then show ?thesis using group_of_filter [of f xs k] by (simp add: group_of_def)
qed

lemma entries_by_key: "(\<And>k g. (k, g) \<in> set m \<Longrightarrow> g = h k) \<Longrightarrow> m = map (\<lambda>k. (k, h k)) (map fst m)"
  by (induction m) auto

lemma group_by_eq: "group_by f xs = map (\<lambda>k. (k, filter (\<lambda>x. f x = Some k) xs)) (js_uniq (List.map_filter f xs))"
  using entries_by_key [of "group_by f xs" "\<lambda>k. filter (\<lambda>x. f x = Some k) xs", OF group_by_entries]
  by (simp only: group_by_keys)

lemma mset_filter_keys:
  "distinct ks \<Longrightarrow> (\<And>x k. x \<in> set xs \<Longrightarrow> f x = Some k \<Longrightarrow> k \<in> set ks) \<Longrightarrow>
   mset (concat (map (\<lambda>k. filter (\<lambda>x. f x = Some k) xs) ks)) + mset (filter (\<lambda>x. f x = None) xs) = mset xs"
proof (induction xs)
  case Nil
  then show ?case by (induction ks) auto
next
  case (Cons x xs)
  have step: "mset (concat (map (\<lambda>k. filter (\<lambda>x. f x = Some k) (x # xs)) ks))
      = mset (concat (map (\<lambda>k. filter (\<lambda>x. f x = Some k) xs) ks))
        + (case f x of None \<Rightarrow> {#} | Some k \<Rightarrow> if k \<in> set ks then {#x#} else {#})"
    using Cons.prems(1) by (induction ks) (auto split: option.splits)
  have ih: "mset (concat (map (\<lambda>k. filter (\<lambda>x. f x = Some k) xs) ks)) + mset (filter (\<lambda>x. f x = None) xs) = mset xs"
    by (rule Cons.IH) (use Cons.prems in auto)
  show ?case
  proof (cases "f x")
    case None
    then show ?thesis unfolding step using ih by simp
  next
    case (Some k)
    then have "k \<in> set ks" using Cons.prems(2) [of x k] by simp
    then show ?thesis unfolding step using Some ih by simp
  qed
qed

lemma group_by_mset:
  "mset (concat (map snd (group_by f xs))) + mset (filter (\<lambda>x. f x = None) xs) = mset xs"
proof -
  have "map snd (group_by f xs) = map (\<lambda>k. filter (\<lambda>x. f x = Some k) xs) (js_uniq (List.map_filter f xs))"
    by (simp add: group_by_eq)
  moreover have "x \<in> set xs \<Longrightarrow> f x = Some k \<Longrightarrow> k \<in> set (js_uniq (List.map_filter f xs))" for x k
    by (auto simp: set_map_filter)
  ultimately show ?thesis using mset_filter_keys [OF distinct_js_uniq] by metis
qed

text \<open>A group of two with a still and a video consists of them.\<close>

lemma pair_of_two:
  assumes "List.find P xs = Some s" and "List.find Q xs = Some v" and "length xs = 2"
    and "\<And>x. \<not> (P x \<and> Q x)"
  shows "xs = [s, v] \<or> xs = [v, s]"
proof -
  obtain x y where xs: "xs = [x, y]" using assms(3) by (auto simp: numeral_2_eq_2 length_Suc_conv)
  from assms(1,2,4) show ?thesis unfolding xs by (auto split: if_splits)
qed

lemma motion_roles_differ:
  "\<not> (has_motion m f STILL \<and> has_motion m f VIDEO)"
  by (auto simp: has_motion_def split: option.splits)

lemma still_not_video: "\<not> (isAppleLivePhotoStill a \<and> isAppleLivePhotoVideo a)"
  by (simp add: isAppleLivePhotoStill_def isAppleLivePhotoVideo_def motion_roles_differ)

section \<open>Lemmas on visual items\<close>

definition group_names :: "attachment list \<Rightarrow> string \<Rightarrow> string list" where
  "group_names atts g =
     (let group = filter (\<lambda>a. getAttachmentMotionGroupId a = Some g) atts in
      case (List.find isAppleLivePhotoStill group, List.find isAppleLivePhotoVideo group) of
        (Some s, Some v) \<Rightarrow> [a_name s, a_name v]
      | _ \<Rightarrow> [])"

definition group_ids :: "attachment list \<Rightarrow> string set" where
  "group_ids atts = set (List.map_filter getAttachmentMotionGroupId atts)"

text \<open>An item is about one attachment, or about a live photo.\<close>

definition item_ok :: "attachment list \<Rightarrow> visual_item \<Rightarrow> bool" where
  "item_ok atts i \<longleftrightarrow>
     vi_id i \<in> a_name ` set atts \<and> vi_attachmentNames i = [vi_id i]
     \<or> vi_id i \<in> group_ids atts \<and> vi_attachmentNames i = group_names atts (vi_id i)
        \<and> set (group_names atts (vi_id i)) \<subseteq> a_name ` set atts"

definition covered :: "visual_item list \<Rightarrow> string set" where
  "covered items = (\<Union>i \<in> set items. set (vi_attachmentNames i))"

lemma covered_simps [simp]:
  "covered [] = {}" "covered (i # is) = set (vi_attachmentNames i) \<union> covered is"
  "covered (is @ js) = covered is \<union> covered js"
  by (auto simp: covered_def)

lemma single_item [simp]:
  "vi_id (buildSingleAttachmentItem og a) = a_name a"
  "vi_attachmentNames (buildSingleAttachmentItem og a) = [a_name a]"
  "vi_id (buildAndroidMotionItem og a) = a_name a"
  "vi_attachmentNames (buildAndroidMotionItem og a) = [a_name a]"
  "vi_attachmentNames (buildAppleMotionItem og s v) = [a_name s, a_name v]"
  by (simp_all add: buildSingleAttachmentItem_def buildAndroidMotionItem_def buildAppleMotionItem_def Let_def)

text \<open>What every round of the loop keeps.\<close>

definition round_inv :: "attachment list \<Rightarrow> string list \<times> visual_item list \<Rightarrow> bool" where
  "round_inv atts st \<longleftrightarrow> list_all (item_ok atts) (snd st)
     \<and> (\<forall>a \<in> set atts. \<forall>g \<in> set (fst st). getAttachmentMotionGroupId a = Some g \<longrightarrow> a_name a \<in> covered (snd st))"

lemma item_ok_single: "a \<in> set atts \<Longrightarrow> item_ok atts (buildSingleAttachmentItem og a)"
  by (simp add: item_ok_def)

lemma visual_step_plain:
  assumes "round_inv atts (c, items)" and "a \<in> set atts"
  shows "round_inv atts (g # c, items @ buildSingleAttachmentItem og a
     # map (buildSingleAttachmentItem og)
         (filter (\<lambda>m. a_name m \<noteq> a_name a) (filter (\<lambda>a. getAttachmentMotionGroupId a = Some g) atts)))"
  using assms by (auto simp: round_inv_def list_all_iff item_ok_single covered_def)

lemma apple_item_ok:
  assumes "List.find isAppleLivePhotoStill grp = Some s" and "List.find isAppleLivePhotoVideo grp = Some v"
    and "grp = filter (\<lambda>a. getAttachmentMotionGroupId a = Some g) atts"
  shows "item_ok atts (buildAppleMotionItem og s v)"
proof -
  have "s \<in> set grp" "v \<in> set grp" using assms(1,2) by (auto simp: find_Some_iff)
  then have sv: "s \<in> set atts" "getAttachmentMotionGroupId s = Some g" "v \<in> set atts"
    using assms(3) by auto
  then have id: "vi_id (buildAppleMotionItem og s v) = g" by (simp add: buildAppleMotionItem_def Let_def)
  have n: "group_names atts g = [a_name s, a_name v]"
    using assms by (simp add: group_names_def Let_def)
  have "g \<in> group_ids atts" using sv by (auto simp: group_ids_def set_map_filter)
  then show ?thesis using sv by (simp add: item_ok_def id n)
qed

lemma visual_step_inv:
  assumes inv: "round_inv atts st" and a: "a \<in> set atts"
  shows "round_inv atts (visual_step og (group_by getAttachmentMotionGroupId atts) st a)"
    and "a_name a \<in> covered (snd (visual_step og (group_by getAttachmentMotionGroupId atts) st a))"
proof -
  obtain c items where st: "st = (c, items)" by fastforce
  let ?st' = "visual_step og (group_by getAttachmentMotionGroupId atts) st a"
  have "round_inv atts ?st' \<and> a_name a \<in> covered (snd ?st')"
  proof (cases "isAndroidMotionContainer a")
    case True
    then show ?thesis using inv a by (auto simp: st visual_step_def round_inv_def item_ok_def)
  next
    case noandroid: False
    show ?thesis
    proof (cases "getAttachmentMotionGroupId a")
      case None
      then show ?thesis using noandroid inv a by (auto simp: st visual_step_def round_inv_def item_ok_def)
    next
      case (Some g)
      let ?group = "filter (\<lambda>a. getAttachmentMotionGroupId a = Some g) atts"
      show ?thesis
      proof (cases "g \<in> set c")
        case True
        then show ?thesis using noandroid Some inv a by (auto simp: st visual_step_def round_inv_def)
      next
        case False
        let ?plain = "(g # c, items @ buildSingleAttachmentItem og a
            # map (buildSingleAttachmentItem og) (filter (\<lambda>m. a_name m \<noteq> a_name a) ?group))"
        consider (pair) s v where "List.find isAppleLivePhotoStill ?group = Some s"
            "List.find isAppleLivePhotoVideo ?group = Some v" "length ?group = 2"
            "?st' = (g # c, items @ [buildAppleMotionItem og s v])"
          | (plain) "?st' = ?plain"
          using noandroid Some False
          by (cases "List.find isAppleLivePhotoStill ?group"; cases "List.find isAppleLivePhotoVideo ?group";
              cases "length ?group = 2")
             (auto simp: st visual_step_def group_of_filter Let_def)
        then show ?thesis
        proof cases
          case pair
          have mem: "x = s \<or> x = v" if "x \<in> set atts" "getAttachmentMotionGroupId x = Some g" for x
          proof -
            from that have "x \<in> set ?group" by simp
            with pair_of_two [OF pair(1-3) still_not_video] show ?thesis by (elim disjE) (simp_all only: list.set insert_iff empty_iff disj_comms simp_thms)
          qed
          show ?thesis
            using inv mem [OF a Some] mem apple_item_ok [OF pair(1,2) refl, of og]
            unfolding pair(4) unfolding st round_inv_def by auto
        next
          case plain
          show ?thesis
            using visual_step_plain [of atts c items a g og] inv a unfolding plain unfolding st by auto
        qed
      qed
    qed
  qed
  then show "round_inv atts ?st'" "a_name a \<in> covered (snd ?st')" by blast+
qed

lemma covered_mono_step: "covered (snd st) \<subseteq> covered (snd (visual_step og groups st a))"
  by (cases st) (auto simp: visual_step_def Let_def split: option.splits if_splits)

lemma visual_fold:
  "round_inv atts st \<Longrightarrow> set xs \<subseteq> set atts \<Longrightarrow>
   (let st' = foldl (visual_step og (group_by getAttachmentMotionGroupId atts)) st xs in
    round_inv atts st' \<and> covered (snd st) \<union> a_name ` set xs \<subseteq> covered (snd st'))"
proof (induction xs arbitrary: st)
  case Nil
  then show ?case by simp
next
  case (Cons x xs)
  let ?st = "visual_step og (group_by getAttachmentMotionGroupId atts) st x"
  have "round_inv atts ?st" "a_name x \<in> covered (snd ?st)"
    using visual_step_inv [of atts st x og] Cons.prems by auto
  with Cons.IH [of ?st] Cons.prems(2) covered_mono_step [of st og "group_by getAttachmentMotionGroupId atts" x]
  show ?case by (auto simp: Let_def)
qed

lemma item_ok_id:
  assumes "item_ok atts i" "item_ok atts j" "vi_id i = vi_id j" "a_name ` set atts \<inter> group_ids atts = {}"
  shows "vi_attachmentNames i = vi_attachmentNames j"
  using assms by (auto simp: item_ok_def)

lemma dedupe_covered:
  assumes "list_all (item_ok atts) items" and "a_name ` set atts \<inter> group_ids atts = {}"
  shows "covered (dedupeVisualItems items) = covered items"
proof
  show "covered (dedupeVisualItems items) \<subseteq> covered items"
    using set_uniq_by [of vi_id "[]" items] by (auto simp: covered_def dedupeVisualItems_def)
  show "covered items \<subseteq> covered (dedupeVisualItems items)"
  proof
    fix n assume "n \<in> covered items"
    then obtain i where i: "i \<in> set items" "n \<in> set (vi_attachmentNames i)" by (auto simp: covered_def)
    obtain j where j: "j \<in> set (dedupeVisualItems items)" "vi_id j = vi_id i"
      using uniq_by_covers [of i items vi_id "[]"] i(1) by (auto simp: dedupeVisualItems_def)
    have "item_ok atts i" "item_ok atts j"
      using assms(1) i(1) j(1) set_uniq_by [of vi_id "[]" items] by (auto simp: list_all_iff dedupeVisualItems_def)
    then have "vi_attachmentNames j = vi_attachmentNames i"
      using item_ok_id [of atts j i] j(2) assms(2) by blast
    then have "n \<in> set (vi_attachmentNames j)" using i(2) by simp
    then show "n \<in> covered (dedupeVisualItems items)" using j(1) by (auto simp: covered_def)
  qed
qed

lemma distinct_visual_ids: "distinct (map vi_id (buildAttachmentVisualItems og atts))"
  by (simp add: buildAttachmentVisualItems_def dedupeVisualItems_def map_uniq_by distinct_uniq_acc Let_def)

lemma visual_names_cover:
  assumes "a_name ` set atts \<inter> group_ids atts = {}"
  shows "(\<Union>i \<in> set (buildAttachmentVisualItems og atts). set (vi_attachmentNames i)) = a_name ` set atts
   \<and> distinct (map vi_id (buildAttachmentVisualItems og atts))"
proof -
  let ?st = "foldl (visual_step og (group_by getAttachmentMotionGroupId atts)) ([], []) atts"
  have "round_inv atts ?st" "a_name ` set atts \<subseteq> covered (snd ?st)"
    using visual_fold [of atts "([], [])" atts og] by (auto simp: round_inv_def Let_def)
  moreover have "covered (snd ?st) \<subseteq> a_name ` set atts" if "round_inv atts ?st"
    using that by (force simp: round_inv_def list_all_iff covered_def item_ok_def)
  ultimately have "covered (snd ?st) = a_name ` set atts" "list_all (item_ok atts) (snd ?st)"
    by (auto simp: round_inv_def)
  with dedupe_covered [OF _ assms] show ?thesis
    using distinct_visual_ids [of og atts] by (simp add: buildAttachmentVisualItems_def Let_def covered_def)
qed

section \<open>Lemmas on local files\<close>

lemma local_group_members:
  "mset (concat (map ai_memberIds (local_group_items (k, files)))) = mset (map lf_previewUrl files)"
proof (cases "local_group_items (k, files) = map fileToItem files")
  case True
  have "concat (map ai_memberIds (map fileToItem files)) = map lf_previewUrl files"
    by (induction files) (simp_all add: fileToItem_def Let_def)
  with True show ?thesis by simp
next
  case False
  then obtain s v where sv: "List.find (\<lambda>f. has_motion (lf_motionMedia f) APPLE_LIVE_PHOTO STILL) files = Some s"
    "List.find (\<lambda>f. has_motion (lf_motionMedia f) APPLE_LIVE_PHOTO VIDEO) files = Some v" "length files = 2"
    by (auto simp: local_group_items_def split: option.splits if_splits)
  then have "concat (map ai_memberIds (local_group_items (k, files))) = [lf_previewUrl s, lf_previewUrl v]"
    by (simp add: local_group_items_def)
  moreover have "files = [s, v] \<or> files = [v, s]"
    by (rule pair_of_two [OF sv]) (rule motion_roles_differ)
  ultimately show ?thesis by auto
qed

lemma local_groups_members:
  "mset (concat (map ai_memberIds (concat (map local_group_items gs)))) = mset (map lf_previewUrl (concat (map snd gs)))"
  by (induction gs) (auto simp: local_group_members)

lemma fileToItem_members: "concat (map ai_memberIds (map fileToItem files)) = map lf_previewUrl files"
  by (induction files) (simp_all add: fileToItem_def Let_def)

section \<open>Lemmas on pairing\<close>

text \<open>What pairing does to one file, given the group id of each stem.\<close>

definition paired :: "local_file list \<Rightarrow> (string \<Rightarrow> string) \<Rightarrow> local_file \<Rightarrow> local_file" where
  "paired files gid f =
     (let same = filter (\<lambda>i. local_stem i = local_stem f) files;
          images = filter (\<lambda>i. startsWith (f_type (lf_file i)) ''image/'') same;
          videos = filter (\<lambda>i. startsWith (f_type (lf_file i)) ''video/'') same in
      if length images = 1 \<and> length videos = 1 then
        if lf_previewUrl f = lf_previewUrl (images ! 0)
        then f\<lparr>lf_motionMedia := Some (buildLocalMotionMedia (gid (local_stem f)) STILL)\<rparr>
        else if lf_previewUrl f = lf_previewUrl (videos ! 0)
        then f\<lparr>lf_motionMedia := Some (buildLocalMotionMedia (gid (local_stem f)) VIDEO)\<rparr>
        else f
      else f)"

lemma pair_file_paired:
  assumes "pair_file uuid (group_by (\<lambda>f. Some (local_stem f)) files) ids f = (f', ids')"
    and "\<And>s v. map_of ids' s = Some v \<Longrightarrow> gid s = v"
  shows "f' = paired files gid f" and "map_of ids s = Some v \<Longrightarrow> map_of ids' s = Some v"
  using assms
  by (auto simp: pair_file_def paired_def group_of_filter Let_def update_conv' split: if_splits option.splits)

text \<open>Every group identifier is its stem, a hyphen and one of the UUIDs.\<close>

definition ids_ok :: "(nat \<Rightarrow> string) \<Rightarrow> (string \<times> string) list \<Rightarrow> bool" where
  "ids_ok uuid ids \<longleftrightarrow> (\<forall>s v. map_of ids s = Some v \<longrightarrow> (\<exists>n. v = s @ ''-'' @ uuid n))"

lemma pair_file_ids:
  "pair_file uuid m ids f = (f', ids') \<Longrightarrow> ids_ok uuid ids \<Longrightarrow> ids_ok uuid ids'"
  by (auto simp: pair_file_def ids_ok_def Let_def update_conv' split: if_splits option.splits)

lemma pair_files_paired:
  "ids_ok uuid ids \<Longrightarrow> \<exists>gid. (\<forall>s v. map_of ids s = Some v \<longrightarrow> gid s = v) \<and> (\<forall>s. \<exists>n. gid s = s @ ''-'' @ uuid n)
     \<and> pair_files uuid (group_by (\<lambda>f. Some (local_stem f)) files) ids fs = map (paired files gid) fs"
proof (induction fs arbitrary: ids)
  case Nil
  then show ?case
    by (auto simp: ids_ok_def intro!: exI [of _ "\<lambda>s. case map_of ids s of None \<Rightarrow> s @ ''-'' @ uuid 0 | Some v \<Rightarrow> v"]
        split: option.splits)
next
  case (Cons f fs)
  obtain f' ids' where p: "pair_file uuid (group_by (\<lambda>f. Some (local_stem f)) files) ids f = (f', ids')"
    by fastforce
  obtain gid where gid: "\<forall>s v. map_of ids' s = Some v \<longrightarrow> gid s = v" "\<forall>s. \<exists>n. gid s = s @ ''-'' @ uuid n"
    "pair_files uuid (group_by (\<lambda>f. Some (local_stem f)) files) ids' fs = map (paired files gid) fs"
    using Cons.IH [OF pair_file_ids [OF p Cons.prems]] by blast
  have "f' = paired files gid f" "\<And>s v. map_of ids s = Some v \<Longrightarrow> map_of ids' s = Some v"
    using pair_file_paired [OF p] gid(1) by blast+
  with gid p show ?case by (auto intro!: exI [of _ gid])
qed

section \<open>Properties\<close>

text \<open>
  the visual items of a memo show every attachment, and no two items have the same identifier.
  The names of the attachments are distinct from the group identifiers of live photos (names are
  \<open>attachments/...\<close>, identifiers are made on upload).
\<close>

theorem visual_items_cover:
  assumes "a_name ` set atts \<inter> group_ids atts = {}"
  shows "(\<Union>i \<in> set (buildAttachmentVisualItems og atts). set (vi_attachmentNames i)) = a_name ` set atts
   \<and> distinct (map vi_id (buildAttachmentVisualItems og atts))"
  using assms by (rule visual_names_cover)

definition live_still :: attachment where
  "live_still = empty_attachment\<lparr>a_name := ''attachments/1'', a_type := ''image/heic'',
     a_motionMedia := Some \<lparr>mm_family = APPLE_LIVE_PHOTO, mm_role = STILL, mm_groupId = ''g'',
       mm_presentationTimestampUs = 0, mm_hasEmbeddedVideo = False\<rparr>\<rparr>"

definition live_video :: attachment where
  "live_video = empty_attachment\<lparr>a_name := ''attachments/2'', a_type := ''video/quicktime'',
     a_motionMedia := Some \<lparr>mm_family = APPLE_LIVE_PHOTO, mm_role = VIDEO, mm_groupId = ''g'',
       mm_presentationTimestampUs = 0, mm_hasEmbeddedVideo = False\<rparr>\<rparr>"

theorem visual_items_cover_witness:
  "(\<Union>i \<in> set (buildAttachmentVisualItems ''https://m'' [live_video, live_still]). set (vi_attachmentNames i))
   = {''attachments/1'', ''attachments/2''}"
proof -
  have "group_ids [live_video, live_still] = {''g''}"
    by (simp add: group_ids_def List.map_filter_def getAttachmentMotionGroupId_def live_still_def live_video_def)
  then show ?thesis
    using visual_items_cover [of "[live_video, live_still]" "''https://m''"]
    by (auto simp: live_still_def live_video_def)
qed

text \<open>
  the items of the files to upload hold each file exactly once, whether the files are single or
  joined to a live photo.
\<close>

theorem local_items_cover:
  "mset (concat (map ai_memberIds (toLocalMotionItems files))) = mset (map lf_previewUrl files)"
proof -
  have "mset (map lf_previewUrl (concat (map snd (group_by local_group_id files))))
      + mset (map lf_previewUrl (filter (\<lambda>f. local_group_id f = None) files)) = mset (map lf_previewUrl files)"
    using arg_cong [OF group_by_mset [of local_group_id files], of "image_mset lf_previewUrl"]
    by simp
  then show ?thesis
    using local_groups_members [of "group_by local_group_id files"]
      fileToItem_members [of "filter (\<lambda>f. local_group_id f = None) files"]
    unfolding toLocalMotionItems_def by simp
qed

text \<open>
  pairing marks the one image and the one video of a stem as the two halves of one live photo,
  under one group identifier for the stem, and leaves every other file as it is; the order is kept.
\<close>

theorem pairing_by_stem:
  "\<exists>gid. (\<forall>stem. \<exists>n. gid stem = stem @ ''-'' @ uuid n)
     \<and> pairAppleLivePhotoFiles uuid files = map (paired files gid) files"
  unfolding pairAppleLivePhotoFiles_def using pair_files_paired [of uuid "[]"] by (auto simp: ids_ok_def)

text \<open>
  the gallery shows at most six cells, in the order of the items, and what it does not show is
  counted: the last cell of a full collage carries a plus sign and the number of the items left out,
  and no other cell has a label.
\<close>

definition layout_cells :: "gallery_layout option \<Rightarrow> gallery_cell list" where
  "layout_cells l =
     (case l of None \<Rightarrow> [] | Some (GallerySingle i) \<Rightarrow> [plain_cell i] | Some (GalleryCollage _ cs) \<Rightarrow> cs)"

theorem gallery_cells:
  "map gc_item (layout_cells (resolveVisualGalleryLayout cn items)) = take 6 items
   \<and> map gc_overlayLabel (layout_cells (resolveVisualGalleryLayout cn items))
     = (if length items \<le> 6 then replicate (length items) None
        else replicate 5 None @ [Some (CHR ''+'' # show_nat (length items - 6))])"
proof -
  consider "items = []" | a where "items = [a]" | a b where "items = [a, b]" | a b c where "items = [a, b, c]"
    | a b c d where "items = [a, b, c, d]" | a b c d e where "items = [a, b, c, d, e]"
    | a b c d e f r where "items = a # b # c # d # e # f # r"
    by (metis list.exhaust)
  then show ?thesis
    by cases (simp_all add: resolveVisualGalleryLayout_def layout_cells_def plain_cell_def
        COLLAGE_MAX_VISIBLE_CELLS_def upt_rec eval_nat_numeral)
qed

text \<open>
  an attachment whose type is that of a Photoshop document is missing from the editor's list: it
  is no visual attachment, since PSD files are not shown as images, but the list's own category for
  it is image, and only audio and documents are taken from the rest.
\<close>

theorem psd_not_listed:
  "toAttachmentItems og [empty_attachment\<lparr>a_name := ''attachments/1'', a_filename := ''a.psd'',
     a_type := ''image/vnd.adobe.photoshop''\<rparr>] [] = []"
  by code_simp

end
