(* ===== verification/Json.thy ===== *)
theory Json
  imports JsBase Complex_Main
begin

text \<open>
  \<open>JSON.parse\<close> and \<open>JSON.stringify\<close>, as far as the client uses them: the parser of whole texts,
  and the writer of strings. Numbers are exact rationals, and an escape above \<open>\u00ff\<close> is outside
  the model's strings and fails. The parser recurses with fuel; the theorem \<open>parse_fuel\<close>
  shows that the length of the text is always enough.
\<close>

datatype json = JNull | JBool bool | JNum rat | JStr string | JArr "json list" | JObj "(string \<times> json) list"

abbreviation quote_mark :: char where
  "quote_mark \<equiv> CHR 0x22"

abbreviation escape_mark :: char where
  "escape_mark \<equiv> CHR 0x5C"

definition json_ws :: "char \<Rightarrow> bool" where
  "json_ws c \<longleftrightarrow> code_unit c \<in> {9, 10, 13, 32}"

definition skip_ws :: "string \<Rightarrow> string" where
  "skip_ws s = dropWhile json_ws s"

section \<open>Strings\<close>

definition hex_val :: "char \<Rightarrow> nat option" where
  "hex_val c =
     (let n = code_unit c in
      if 48 \<le> n \<and> n \<le> 57 then Some (n - 48)
      else if 97 \<le> n \<and> n \<le> 102 then Some (n - 87)
      else if 65 \<le> n \<and> n \<le> 70 then Some (n - 55)
      else None)"

definition hex4 :: "char \<Rightarrow> char \<Rightarrow> char \<Rightarrow> char \<Rightarrow> nat option" where
  "hex4 a b c d =
     (case (hex_val a, hex_val b, hex_val c, hex_val d) of
        (Some a', Some b', Some c', Some d') \<Rightarrow> Some (((a' * 16 + b') * 16 + c') * 16 + d')
      | _ \<Rightarrow> None)"

definition simple_escape :: "char \<Rightarrow> char option" where
  "simple_escape e =
     (if e = quote_mark \<or> e = escape_mark \<or> e = CHR ''/'' then Some e
      else if e = CHR ''b'' then Some (unit_char 8)
      else if e = CHR ''f'' then Some (unit_char 12)
      else if e = CHR ''n'' then Some (unit_char 10)
      else if e = CHR ''r'' then Some (unit_char 13)
      else if e = CHR ''t'' then Some (unit_char 9)
      else None)"

text \<open>One character of a string literal and the text behind it.\<close>

definition string_char :: "string \<Rightarrow> (char \<times> string) option" where
  "string_char s =
     (case s of
        [] \<Rightarrow> None
      | c # r \<Rightarrow>
          if c = escape_mark then
            (case r of
               [] \<Rightarrow> None
             | e # t \<Rightarrow>
                 if e = CHR ''u'' then
                   (case t of
                      h1 # h2 # h3 # h4 # u \<Rightarrow>
                        (case hex4 h1 h2 h3 h4 of
                           None \<Rightarrow> None
                         | Some n \<Rightarrow> if n < 256 then Some (unit_char n, u) else None)
                    | _ \<Rightarrow> None)
                 else map_option (\<lambda>d. (d, t)) (simple_escape e))
          else if code_unit c < 32 then None
          else Some (c, r))"

lemma string_char_shorter: "string_char s = Some (d, r) \<Longrightarrow> length r < length s"
  by (auto simp: string_char_def split: list.splits if_splits option.splits)

text \<open>The literal behind its opening quote.\<close>

function string_body :: "string \<Rightarrow> (string \<times> string) option" where
  "string_body s =
     (case s of
        [] \<Rightarrow> None
      | c # r \<Rightarrow>
          if c = quote_mark then Some ([], r)
          else case string_char s of
                 None \<Rightarrow> None
               | Some (d, t) \<Rightarrow> map_option (\<lambda>(ds, u). (d # ds, u)) (string_body t))"
  by pat_completeness auto
termination
  by (relation "measure length") (auto dest: string_char_shorter)

declare string_body.simps [simp del]

lemma string_body_shorter: "string_body s = Some (d, r) \<Longrightarrow> length r < length s"
proof (induction s arbitrary: d r rule: string_body.induct)
  case (1 s)
  show ?case
  proof (cases s)
    case Nil
    then show ?thesis using 1(2) by (simp add: string_body.simps [of "[]"])
  next
    case (Cons c t)
    show ?thesis
    proof (cases "c = quote_mark")
      case True
      then show ?thesis using 1(2) Cons by (simp add: string_body.simps [of "quote_mark # t"])
    next
      case False
      then obtain e u ds where e: "string_char s = Some (e, u)" "string_body u = Some (ds, r)"
        using 1(2) Cons by (subst (asm) string_body.simps) (auto split: option.splits)
      then show ?thesis
        using 1(1) [OF Cons False e(1) refl e(2)] string_char_shorter [OF e(1)] by simp
    qed
  qed
qed

text \<open>\<open>JSON.stringify\<close> of a string.\<close>

definition hex_digit :: "nat \<Rightarrow> char" where
  "hex_digit n = unit_char (if n < 10 then 48 + n else 87 + n)"

definition escape_char :: "char \<Rightarrow> string" where
  "escape_char c =
     (let n = code_unit c in
      if c = quote_mark \<or> c = escape_mark then [escape_mark, c]
      else if n = 8 then [escape_mark, CHR ''b'']
      else if n = 12 then [escape_mark, CHR ''f'']
      else if n = 10 then [escape_mark, CHR ''n'']
      else if n = 13 then [escape_mark, CHR ''r'']
      else if n = 9 then [escape_mark, CHR ''t'']
      else if n < 32 then [escape_mark, CHR ''u'', CHR ''0'', CHR ''0'', hex_digit (n div 16), hex_digit (n mod 16)]
      else [c])"

definition stringify_str :: "string \<Rightarrow> string" where
  "stringify_str s = quote_mark # concat (map escape_char s) @ [quote_mark]"

lemma hex_val_digit: "n < 16 \<Longrightarrow> hex_val (hex_digit n) = Some n"
  by (auto simp: hex_val_def hex_digit_def Let_def)

lemma escape_char_hd: "escape_char c \<noteq> [] \<and> hd (escape_char c) \<noteq> quote_mark"
  by (auto simp: escape_char_def Let_def)

lemma string_char_escape: "string_char (escape_char c @ r) = Some (c, r)"
proof -
  define n where "n = code_unit c"
  have c: "c = unit_char n" "n < 256"
    by (simp_all add: n_def code_unit_less)
  have s: "simple_escape CHR ''b'' = Some (unit_char 8)" "simple_escape CHR ''f'' = Some (unit_char 12)"
    "simple_escape CHR ''n'' = Some (unit_char 10)" "simple_escape CHR ''r'' = Some (unit_char 13)"
    "simple_escape CHR ''t'' = Some (unit_char 9)" "simple_escape quote_mark = Some quote_mark"
    "simple_escape escape_mark = Some escape_mark"
    by (simp_all add: simple_escape_def)
  consider "c = quote_mark \<or> c = escape_mark" | "n \<in> {8, 9, 10, 12, 13}"
    | "n < 32" "n \<notin> {8, 9, 10, 12, 13}" "c \<noteq> quote_mark" "c \<noteq> escape_mark"
    | "32 \<le> n" "c \<noteq> quote_mark" "c \<noteq> escape_mark" by force
  then show ?thesis
  proof cases
    case 1
    then show ?thesis by (auto simp: escape_char_def string_char_def s)
  next
    case 2
    then have "c = unit_char 8 \<or> c = unit_char 9 \<or> c = unit_char 10 \<or> c = unit_char 12 \<or> c = unit_char 13"
      unfolding c(1) by blast
    moreover have "unit_char k \<noteq> quote_mark" "unit_char k \<noteq> escape_mark" if "k < 32" for k
    proof -
      have "code_unit quote_mark = 34" "code_unit escape_mark = 92" by (simp_all add: code_unit_def)
      then show "unit_char k \<noteq> quote_mark" "unit_char k \<noteq> escape_mark" using that code_unit_unit_char [of k] by fastforce+
    qed
    ultimately show ?thesis
      by (elim disjE) (simp_all add: escape_char_def string_char_def s)
  next
    case 3
    have "hex_val CHR ''0'' = Some 0" by (simp add: hex_val_def code_unit_def)
    moreover have "n div 16 < 16" "n mod 16 < 16" "n div 16 * 16 + n mod 16 = n" using 3 by auto
    ultimately have "hex4 CHR ''0'' CHR ''0'' (hex_digit (n div 16)) (hex_digit (n mod 16)) = Some n"
      by (simp add: hex4_def hex_val_digit)
    then show ?thesis using 3 c by (simp add: escape_char_def string_char_def n_def [symmetric] Let_def)
  next
    case 4
    then show ?thesis by (auto simp: escape_char_def string_char_def n_def [symmetric] Let_def)
  qed
qed

lemma string_body_escape: "string_body (concat (map escape_char s) @ quote_mark # r) = Some (s, r)"
proof (induction s)
  case Nil
  then show ?case by (simp add: string_body.simps [of "quote_mark # r"])
next
  case (Cons c s)
  let ?t = "concat (map escape_char s) @ quote_mark # r"
  obtain d e where e: "escape_char c = d # e" "d \<noteq> quote_mark"
    using escape_char_hd [of c] by (cases "escape_char c") auto
  then have "string_char (d # e @ ?t) = Some (c, ?t)" using string_char_escape [of c ?t] by simp
  then show ?case using Cons e by (simp add: string_body.simps [of "d # e @ ?t"])
qed

section \<open>Numbers\<close>

definition take_digits :: "string \<Rightarrow> string \<times> string" where
  "take_digits s = (takeWhile is_digit s, dropWhile is_digit s)"

definition int_part :: "string \<Rightarrow> (nat \<times> string) option" where
  "int_part s =
     (case s of
        [] \<Rightarrow> None
      | c # r \<Rightarrow>
          if c = CHR ''0'' then Some (0, r)
          else if is_digit c then Some (parse_digits (takeWhile is_digit s), dropWhile is_digit s)
          else None)"

definition frac_part :: "string \<Rightarrow> (rat \<times> string) option" where
  "frac_part s =
     (if startsWith s ''.'' then
        (let ds = takeWhile is_digit (tl s) in
         if ds = [] then None
         else Some (of_nat (parse_digits ds) / 10 ^ length ds, dropWhile is_digit (tl s)))
      else Some (0, s))"

definition exp_part :: "string \<Rightarrow> (rat \<times> string) option" where
  "exp_part s =
     (if startsWith s ''e'' \<or> startsWith s ''E'' then
        (let r = tl s; neg = startsWith r ''-'';
             r' = (if neg \<or> startsWith r ''+'' then tl r else r); ds = takeWhile is_digit r' in
         if ds = [] then None
         else Some ((if neg then 1 / 10 ^ parse_digits ds else 10 ^ parse_digits ds), dropWhile is_digit r'))
      else Some (1, s))"

definition json_number :: "string \<Rightarrow> (rat \<times> string) option" where
  "json_number s =
     (let neg = startsWith s ''-''; s' = (if neg then tl s else s) in
      case int_part s' of
        None \<Rightarrow> None
      | Some (i, r) \<Rightarrow>
          (case frac_part r of
             None \<Rightarrow> None
           | Some (f, r') \<Rightarrow>
               (case exp_part r' of
                  None \<Rightarrow> None
                | Some (e, r'') \<Rightarrow> Some ((if neg then - 1 else 1) * (of_nat i + f) * e, r''))))"

lemma startsWith_single: "startsWith s [c] \<longleftrightarrow> (\<exists>r. s = c # r)"
  by (auto simp: startsWith_iff)

lemma int_part_shorter: "int_part s = Some (n, r) \<Longrightarrow> length r < length s"
  by (auto simp: int_part_def le_imp_less_Suc length_dropWhile_le split: list.splits if_splits)

lemma frac_part_shorter: "frac_part s = Some (n, r) \<Longrightarrow> length r \<le> length s"
  by (auto simp: frac_part_def Let_def startsWith_single split: if_splits
      intro: order_trans [OF length_dropWhile_le] le_SucI)

lemma length_tl_le: "length (tl s) \<le> length s"
  by simp

lemma exp_part_shorter: "exp_part s = Some (n, r) \<Longrightarrow> length r \<le> length s"
proof -
  assume "exp_part s = Some (n, r)"
  then have "r = s \<or> r = dropWhile is_digit (tl (tl s)) \<or> r = dropWhile is_digit (tl s)"
    by (auto simp: exp_part_def Let_def split: if_splits)
  then show ?thesis
    using length_dropWhile_le [of is_digit "tl (tl s)"] length_dropWhile_le [of is_digit "tl s"] by auto
qed

lemma json_number_shorter: "json_number s = Some (n, r) \<Longrightarrow> length r < length s"
proof -
  assume "json_number s = Some (n, r)"
  then obtain i f e s' r1 r2 where s': "s' = (if startsWith s ''-'' then tl s else s)"
    "int_part s' = Some (i, r1)" "frac_part r1 = Some (f, r2)" "exp_part r2 = Some (e, r)"
    by (auto simp: json_number_def Let_def split: option.splits)
  have "length s' \<le> length s" by (simp add: s'(1))
  with int_part_shorter [OF s'(2)] frac_part_shorter [OF s'(3)] exp_part_shorter [OF s'(4)] show ?thesis by simp
qed

section \<open>Values\<close>

text \<open>
  \<open>json_value\<close> reads one value, \<open>json_elements\<close> the elements of an array and \<open>json_members\<close> the
  members of an object up to the closing bracket. A later member replaces an earlier one of its
  name.
\<close>

fun json_value :: "nat \<Rightarrow> string \<Rightarrow> (json \<times> string) option"
  and json_elements :: "nat \<Rightarrow> string \<Rightarrow> (json list \<times> string) option"
  and json_members :: "nat \<Rightarrow> (string \<times> json) list \<Rightarrow> string \<Rightarrow> ((string \<times> json) list \<times> string) option" where
  "json_value 0 s = None"
| "json_value (Suc n) s =
     (case skip_ws s of
        [] \<Rightarrow> None
      | c # r \<Rightarrow>
          if c = quote_mark then map_option (\<lambda>(t, u). (JStr t, u)) (string_body r)
          else if c = CHR ''{'' then
            (if startsWith (skip_ws r) ''}'' then Some (JObj [], tl (skip_ws r))
             else map_option (\<lambda>(ms, u). (JObj ms, u)) (json_members n [] r))
          else if c = CHR ''['' then
            (if startsWith (skip_ws r) '']'' then Some (JArr [], tl (skip_ws r))
             else map_option (\<lambda>(vs, u). (JArr vs, u)) (json_elements n r))
          else if startsWith (c # r) ''true'' then Some (JBool True, drop 4 (c # r))
          else if startsWith (c # r) ''false'' then Some (JBool False, drop 5 (c # r))
          else if startsWith (c # r) ''null'' then Some (JNull, drop 4 (c # r))
          else map_option (\<lambda>(q, u). (JNum q, u)) (json_number (c # r)))"
| "json_elements 0 s = None"
| "json_elements (Suc n) s =
     (case json_value n s of
        None \<Rightarrow> None
      | Some (v, r) \<Rightarrow>
          (case skip_ws r of
             [] \<Rightarrow> None
           | c # r' \<Rightarrow>
               if c = CHR '']'' then Some ([v], r')
               else if c = CHR '','' then map_option (\<lambda>(vs, u). (v # vs, u)) (json_elements n r')
               else None))"
| "json_members 0 ms s = None"
| "json_members (Suc n) ms s =
     (case skip_ws s of
        [] \<Rightarrow> None
      | q # t \<Rightarrow>
          if q = quote_mark then
            (case string_body t of
               None \<Rightarrow> None
             | Some (k, r) \<Rightarrow>
                 if startsWith (skip_ws r) '':'' then
                   (case json_value n (tl (skip_ws r)) of
                      None \<Rightarrow> None
                    | Some (v, r2) \<Rightarrow>
                        (case skip_ws r2 of
                           [] \<Rightarrow> None
                         | c # r3 \<Rightarrow>
                             if c = CHR ''}'' then Some (AList.update k v ms, r3)
                             else if c = CHR '','' then json_members n (AList.update k v ms) r3
                             else None))
                 else None)
          else None)"

text \<open>\<open>JSON.parse\<close>; \<open>None\<close> stands for the exception.\<close>

definition JSON_parse :: "string \<Rightarrow> json option" where
  "JSON_parse s =
     (case json_value (2 * length s + 2) s of
        None \<Rightarrow> None
      | Some (v, r) \<Rightarrow> if skip_ws r = [] then Some v else None)"

section \<open>Fuel\<close>

lemma skip_ws_le: "length (skip_ws s) \<le> length s"
  by (simp add: skip_ws_def length_dropWhile_le)

lemma skip_ws_Cons: "skip_ws s = c # r \<Longrightarrow> length r < length s"
  using skip_ws_le [of s] by simp

lemma tl_skip_ws: "startsWith (skip_ws s) [c] \<Longrightarrow> length (tl (skip_ws s)) < length s"
  using skip_ws_le [of s] by (auto simp: startsWith_single)

text \<open>Every value, element list and member list leaves a shorter text.\<close>

definition shortens :: "(string \<Rightarrow> ('a \<times> string) option) \<Rightarrow> bool" where
  "shortens p \<longleftrightarrow> (\<forall>s v r. p s = Some (v, r) \<longrightarrow> length r < length s)"

lemma shortensD: "shortens p \<Longrightarrow> p s = Some (v, r) \<Longrightarrow> length r < length s"
  by (simp add: shortens_def)

lemma map_option_pair: "map_option (\<lambda>(a, u). (f a, u)) x = Some (b, r) \<longleftrightarrow> (\<exists>a. x = Some (a, r) \<and> b = f a)"
  by auto

lemma value_shortens:
  assumes "shortens (json_elements n)" "shortens (json_members n [])"
  shows "shortens (json_value (Suc n))"
  unfolding shortens_def
proof (intro allI impI)
  fix s v r assume a: "json_value (Suc n) s = Some (v, r)"
  then obtain c t where c: "skip_ws s = c # t" by (auto split: list.splits)
  have le: "length (c # t) \<le> length s" using skip_ws_le [of s] c by simp
  consider (str) u where "string_body t = Some (u, r)" | (mem) u where "json_members n [] t = Some (u, r)"
    | (el) u where "json_elements n t = Some (u, r)" | (num) q where "json_number (c # t) = Some (q, r)"
    | (empty) "r = tl (skip_ws t)" | (word) "r = drop 4 (c # t) \<or> r = drop 5 (c # t)"
    using a c by (auto split: if_splits)
  then have "length r < length (c # t)"
  proof cases
    case empty
    then show ?thesis using skip_ws_le [of t] by simp
  next
    case word
    then show ?thesis by auto
  qed (auto dest!: string_body_shorter json_number_shorter dest: assms [THEN shortensD])
  with le show "length r < length s" by simp
qed

lemma elements_shortens:
  assumes "shortens (json_value n)" "shortens (json_elements n)"
  shows "shortens (json_elements (Suc n))"
  unfolding shortens_def
proof (intro allI impI)
  fix s v r assume a: "json_elements (Suc n) s = Some (v, r)"
  then obtain v1 r1 c t where s1: "json_value n s = Some (v1, r1)" "skip_ws r1 = c # t"
    and r: "r = t \<or> (\<exists>vs. json_elements n t = Some (vs, r))"
    by (auto split: option.splits list.splits if_splits)
  have "length r1 < length s" "length t < length r1"
    using shortensD [OF assms(1) s1(1)] skip_ws_Cons [OF s1(2)] .
  then show "length r < length s" using r shortensD [OF assms(2)] by fastforce
qed

lemma members_shortens:
  assumes "shortens (json_value n)" "\<And>ms. shortens (json_members n ms)"
  shows "shortens (json_members (Suc n) ms)"
  unfolding shortens_def
proof (intro allI impI)
  fix s v r assume a: "json_members (Suc n) ms s = Some (v, r)"
  then obtain q t where s1: "skip_ws s = q # t" "q = quote_mark" by (auto split: list.splits if_splits)
  with a obtain k r0 v1 r2 c r3 where s2: "string_body t = Some (k, r0)" "startsWith (skip_ws r0) '':''"
      "json_value n (tl (skip_ws r0)) = Some (v1, r2)" "skip_ws r2 = c # r3"
    and r: "r = r3 \<or> (\<exists>ms'. json_members n ms' r3 = Some (v, r))"
    by (auto split: option.splits list.splits if_splits; blast)
  have "length t < length s" "length r0 < length t" "length (tl (skip_ws r0)) < length r0"
    "length r2 < length (tl (skip_ws r0))" "length r3 < length r2"
    using skip_ws_Cons [OF s1(1)] string_body_shorter [OF s2(1)] tl_skip_ws [OF s2(2)]
      shortensD [OF assms(1) s2(3)] skip_ws_Cons [OF s2(4)] .
  moreover have "length r \<le> length r3" using r shortensD [OF assms(2)] by (auto intro: less_imp_le)
  ultimately show "length r < length s" by simp
qed

lemma json_shortens:
  "shortens (json_value n) \<and> shortens (json_elements n) \<and> (\<forall>ms. shortens (json_members n ms))"
proof (induction n)
  case 0
  show ?case by (simp add: shortens_def)
next
  case (Suc n)
  then show ?case using value_shortens elements_shortens members_shortens by blast
qed

text \<open>Beyond a bound that is linear in the text, one unit of fuel more changes nothing.\<close>

lemma json_fuel_step:
  "(\<forall>s. 2 * length s < n \<longrightarrow> json_value (Suc n) s = json_value n s)
   \<and> (\<forall>s. 2 * length s + 1 < n \<longrightarrow> json_elements (Suc n) s = json_elements n s)
   \<and> (\<forall>ms s. 2 * length s < n \<longrightarrow> json_members (Suc n) ms s = json_members n ms s)"
proof (induction n)
  case 0
  show ?case by simp
next
  case (Suc n)
  have v: "json_value (Suc n) s = json_value n s" if "2 * length s < n" for s using Suc that by blast
  have e: "json_elements (Suc n) s = json_elements n s" if "2 * length s + 1 < n" for s using Suc that by blast
  have m: "json_members (Suc n) ms s = json_members n ms s" if "2 * length s < n" for ms s using Suc that by blast
  have sh: "json_value n s = Some (x, r) \<Longrightarrow> length r < length s" for s x r
    by (rule shortensD [OF conjunct1 [OF json_shortens]])
  show ?case
  proof (intro conjI allI impI)
    fix s :: string assume l: "2 * length s < Suc n"
    have "json_elements (Suc n) t = json_elements n t" "json_members (Suc n) [] t = json_members n [] t"
      if "skip_ws s = c # t" for c t
      using e [of t] m [of t "[]"] l skip_ws_Cons [OF that] by auto
    then show "json_value (Suc (Suc n)) s = json_value (Suc n) s"
      unfolding json_value.simps(2) [of "Suc n"] json_value.simps(2) [of n]
      by (cases "skip_ws s") (simp_all only: list.case)
  next
    fix s :: string assume l: "2 * length s + 1 < Suc n"
    have "json_elements (Suc n) t = json_elements n t"
      if "json_value n s = Some (x, r)" "skip_ws r = c # t" for x r c t
      using e [of t] l sh [OF that(1)] skip_ws_Cons [OF that(2)] by simp
    then show "json_elements (Suc (Suc n)) s = json_elements (Suc n) s"
      unfolding json_elements.simps(2) [of "Suc n"] json_elements.simps(2) [of n]
      using v [of s] l by (auto split: option.split list.split simp del: json_elements.simps json_value.simps)
  next
    fix ms and s :: string assume l: "2 * length s < Suc n"
    have "json_value (Suc n) (tl (skip_ws r)) = json_value n (tl (skip_ws r))"
      if "skip_ws s = q # t" "string_body t = Some (k, r)" "startsWith (skip_ws r) '':''" for q t k r
      using v [of "tl (skip_ws r)"] l skip_ws_Cons [OF that(1)] string_body_shorter [OF that(2)] tl_skip_ws [OF that(3)]
      by simp
    moreover have "json_members (Suc n) ms' r3 = json_members n ms' r3"
      if "skip_ws s = q # t" "string_body t = Some (k, r)" "startsWith (skip_ws r) '':''"
        "json_value n (tl (skip_ws r)) = Some (x, r2)" "skip_ws r2 = c # r3" for q t k r x r2 c r3 ms'
      using m [of r3] l skip_ws_Cons [OF that(1)] string_body_shorter [OF that(2)] tl_skip_ws [OF that(3)]
        sh [OF that(4)] skip_ws_Cons [OF that(5)] by simp
    ultimately show "json_members (Suc (Suc n)) ms s = json_members (Suc n) ms s"
      unfolding json_members.simps(2) [of "Suc n"] json_members.simps(2) [of n]
      by (auto split: option.split list.split simp del: json_members.simps json_value.simps)
  qed
qed

lemma json_value_fuel: "2 * length s < n \<Longrightarrow> json_value (n + k) s = json_value n s"
  by (induction k) (use json_fuel_step in auto)

text \<open>More fuel than \<open>JSON_parse\<close> takes never gives another result.\<close>

lemma parse_fuel:
  assumes "2 * length s + 2 \<le> n"
  shows "json_value n s = json_value (2 * length s + 2) s"
proof -
  have "json_value ((2 * length s + 2) + (n - (2 * length s + 2))) s = json_value (2 * length s + 2) s"
    by (rule json_value_fuel) simp
  then show ?thesis using assms by (simp only: le_add_diff_inverse)
qed

lemma parse_stringify: "JSON_parse (stringify_str s) = Some (JStr s)"
proof -
  have "skip_ws (stringify_str s) = stringify_str s"
    by (simp add: skip_ws_def stringify_str_def json_ws_def code_unit_def)
  moreover have "string_body (tl (stringify_str s)) = Some (s, [])"
    using string_body_escape [of s "[]"] by (simp add: stringify_str_def)
  ultimately have "json_value (Suc n) (stringify_str s) = Some (JStr s, [])" for n
    by (simp add: stringify_str_def)
  then have "json_value (2 * length (stringify_str s) + 2) (stringify_str s) = Some (JStr s, [])"
    by (metis add_2_eq_Suc')
  then show ?thesis by (simp add: JSON_parse_def skip_ws_def)
qed

end
