(* ===== verification/EditorState.thy ===== *)
theory EditorState
  imports Attachments
begin

text \<open>
  The editor's state (\<^verbatim>\<open>components/MemoEditor/state\<close>), the mode preference
  (\<^verbatim>\<open>editorMode.ts\<close>) and the check before a save (\<^verbatim>\<open>services/validationService.ts\<close>). A \<open>Date\<close>
  is its time value in milliseconds. The local storage is a map, or \<open>None\<close> where access to it
  throws.
\<close>

type_synonym date = int

type_synonym local_storage = "(string \<Rightarrow> string option) option"

section \<open>The mode preference\<close>

datatype editor_mode = Wysiwyg | Raw

definition mode_text :: "editor_mode \<Rightarrow> string" where
  "mode_text m = (case m of Wysiwyg \<Rightarrow> ''wysiwyg'' | Raw \<Rightarrow> ''raw'')"

definition EDITOR_MODE_KEY :: string where
  "EDITOR_MODE_KEY = ''memos-editor-mode''"

definition getPreferredEditorMode :: "local_storage \<Rightarrow> editor_mode" where
  "getPreferredEditorMode ls =
     (case ls of
        None \<Rightarrow> Wysiwyg
      | Some m \<Rightarrow> if m EDITOR_MODE_KEY = Some ''raw'' then Raw else Wysiwyg)"

definition setPreferredEditorMode :: "editor_mode \<Rightarrow> local_storage \<Rightarrow> local_storage" where
  "setPreferredEditorMode mode ls = map_option (\<lambda>m. m(EDITOR_MODE_KEY \<mapsto> mode_text mode)) ls"

lemma mode_roundtrip:
  "getPreferredEditorMode (setPreferredEditorMode mode (Some m)) = mode"
  by (cases mode) (simp_all add: getPreferredEditorMode_def setPreferredEditorMode_def mode_text_def)

section \<open>The state\<close>

datatype loading_key = Saving | Uploading | Loading

record editor_metadata =
  em_visibility :: visibility
  em_attachments :: "attachment list"
  em_relations :: "memo_relation list"
  em_location :: "location option"

record loading_flags =
  ld_saving :: bool
  ld_uploading :: bool
  ld_loading :: bool

record editor_ui =
  ui_isFocusMode :: bool
  ui_isLoading :: loading_flags
  ui_editorMode :: editor_mode

record editor_timestamps =
  et_createTime :: "date option"
  et_updateTime :: "date option"

record editor_state =
  es_content :: string
  es_metadata :: editor_metadata
  es_ui :: editor_ui
  es_timestamps :: editor_timestamps
  es_localFiles :: "local_file list"
  es_recorderBusy :: bool

text \<open>\<open>Partial\<close> of the metadata and of the timestamps.\<close>

record metadata_patch =
  mdp_visibility :: "visibility option"
  mdp_attachments :: "attachment list option"
  mdp_relations :: "memo_relation list option"
  mdp_location :: "location option option"

record timestamps_patch =
  tsp_createTime :: "date option option"
  tsp_updateTime :: "date option option"

datatype editor_action =
    INIT_MEMO string editor_metadata editor_timestamps
  | UPDATE_CONTENT string
  | SET_METADATA metadata_patch
  | ADD_LOCAL_FILE local_file
  | REMOVE_LOCAL_FILE string
  | SET_LOCAL_FILES "local_file list"
  | TOGGLE_FOCUS_MODE
  | SET_LOADING loading_key bool
  | SET_TIMESTAMPS timestamps_patch
  | SET_RECORDER_BUSY bool
  | SET_EDITOR_MODE editor_mode
  | RESET

definition defaultState :: editor_state where
  "defaultState = \<lparr>es_content = [],
     es_metadata = \<lparr>em_visibility = PRIVATE, em_attachments = [], em_relations = [], em_location = None\<rparr>,
     es_ui = \<lparr>ui_isFocusMode = False,
              ui_isLoading = \<lparr>ld_saving = False, ld_uploading = False, ld_loading = False\<rparr>,
              ui_editorMode = Wysiwyg\<rparr>,
     es_timestamps = \<lparr>et_createTime = None, et_updateTime = None\<rparr>,
     es_localFiles = [], es_recorderBusy = False\<rparr>"

definition createInitialState :: "local_storage \<Rightarrow> editor_state" where
  "createInitialState ls =
     defaultState\<lparr>es_ui := (es_ui defaultState)\<lparr>ui_editorMode := getPreferredEditorMode ls\<rparr>\<rparr>"

definition set_loading :: "loading_key \<Rightarrow> bool \<Rightarrow> loading_flags \<Rightarrow> loading_flags" where
  "set_loading key val l =
     (case key of Saving \<Rightarrow> l\<lparr>ld_saving := val\<rparr> | Uploading \<Rightarrow> l\<lparr>ld_uploading := val\<rparr>
      | Loading \<Rightarrow> l\<lparr>ld_loading := val\<rparr>)"

text \<open>The reducer; \<open>ls\<close> is the local storage that \<open>RESET\<close> reads.\<close>

definition editorReducer :: "local_storage \<Rightarrow> editor_state \<Rightarrow> editor_action \<Rightarrow> editor_state" where
  "editorReducer ls s action =
     (case action of
        INIT_MEMO c m t \<Rightarrow> s\<lparr>es_content := c, es_metadata := m, es_timestamps := t\<rparr>
      | UPDATE_CONTENT c \<Rightarrow> s\<lparr>es_content := c\<rparr>
      | SET_METADATA p \<Rightarrow>
          (let m = es_metadata s in
           s\<lparr>es_metadata := \<lparr>em_visibility = override (em_visibility m) (mdp_visibility p),
               em_attachments = override (em_attachments m) (mdp_attachments p),
               em_relations = override (em_relations m) (mdp_relations p),
               em_location = override (em_location m) (mdp_location p)\<rparr>\<rparr>)
      | ADD_LOCAL_FILE f \<Rightarrow> s\<lparr>es_localFiles := es_localFiles s @ [f]\<rparr>
      | REMOVE_LOCAL_FILE url \<Rightarrow> s\<lparr>es_localFiles := filter (\<lambda>f. lf_previewUrl f \<noteq> url) (es_localFiles s)\<rparr>
      | SET_LOCAL_FILES fs \<Rightarrow> s\<lparr>es_localFiles := fs\<rparr>
      | TOGGLE_FOCUS_MODE \<Rightarrow> s\<lparr>es_ui := (es_ui s)\<lparr>ui_isFocusMode := \<not> ui_isFocusMode (es_ui s)\<rparr>\<rparr>
      | SET_LOADING key val \<Rightarrow>
          s\<lparr>es_ui := (es_ui s)\<lparr>ui_isLoading := set_loading key val (ui_isLoading (es_ui s))\<rparr>\<rparr>
      | SET_TIMESTAMPS p \<Rightarrow>
          (let t = es_timestamps s in
           s\<lparr>es_timestamps := \<lparr>et_createTime = override (et_createTime t) (tsp_createTime p),
               et_updateTime = override (et_updateTime t) (tsp_updateTime p)\<rparr>\<rparr>)
      | SET_RECORDER_BUSY b \<Rightarrow> s\<lparr>es_recorderBusy := b\<rparr>
      | SET_EDITOR_MODE mode \<Rightarrow> s\<lparr>es_ui := (es_ui s)\<lparr>ui_editorMode := mode\<rparr>\<rparr>
      | RESET \<Rightarrow> createInitialState ls)"

text \<open>
  The store runs the reducer for each dispatched action; \<open>inv\<close> is trivial here, what the runs keep
  is stated by the frames.
\<close>

interpretation editor_store: machine "editorReducer ls" "\<lambda>_. True" for ls
  by unfold_locales simp

section \<open>The check before a save\<close>

record validation_result =
  vr_valid :: bool
  vr_reason :: "string option"

definition invalid :: "string \<Rightarrow> validation_result" where
  "invalid reason = \<lparr>vr_valid = False, vr_reason = Some reason\<rparr>"

definition canSave :: "editor_state \<Rightarrow> validation_result" where
  "canSave s =
     (if ld_loading (ui_isLoading (es_ui s)) then invalid ''Loading memo content''
      else if trim (es_content s) = [] \<and> length (em_attachments (es_metadata s)) = 0 \<and> length (es_localFiles s) = 0
      then invalid ''Content, attachment, or file required''
      else if ld_uploading (ui_isLoading (es_ui s)) then invalid ''Wait for upload to complete''
      else if es_recorderBusy s then invalid ''Finish audio recording before saving''
      else if ld_saving (ui_isLoading (es_ui s)) then invalid ''Save in progress''
      else \<lparr>vr_valid = True, vr_reason = None\<rparr>)"

lemma canSave_iff:
  "vr_valid (canSave s) \<longleftrightarrow>
     \<not> ld_loading (ui_isLoading (es_ui s)) \<and> \<not> ld_uploading (ui_isLoading (es_ui s))
     \<and> \<not> ld_saving (ui_isLoading (es_ui s)) \<and> \<not> es_recorderBusy s
     \<and> ((\<exists>c \<in> set (es_content s). \<not> is_ws c) \<or> em_attachments (es_metadata s) \<noteq> [] \<or> es_localFiles s \<noteq> [])"
  by (auto simp: canSave_def invalid_def trim_blank_iff)

section \<open>Properties\<close>

text \<open>Actions that neither end a save nor start the editor afresh.\<close>

definition keeps_saving :: "editor_action \<Rightarrow> bool" where
  "keeps_saving a = (case a of SET_LOADING Saving _ \<Rightarrow> False | RESET \<Rightarrow> False | _ \<Rightarrow> True)"

lemma reducer_saving_frame:
  "keeps_saving a \<Longrightarrow>
     ld_saving (ui_isLoading (es_ui (editorReducer ls s a))) = ld_saving (ui_isLoading (es_ui s))"
  by (cases a) (auto simp: editorReducer_def keeps_saving_def set_loading_def Let_def split: loading_key.splits)

text \<open>
  no second save while one is running. Once the saving flag is set, no sequence of editor actions
  short of clearing the flag or resetting the editor makes \<open>canSave\<close> accept.
\<close>

theorem no_double_save:
  assumes "list_all keeps_saving actions"
  shows "\<not> vr_valid (canSave (foldl (editorReducer ls) (editorReducer ls s (SET_LOADING Saving True)) actions))"
proof -
  let ?s = "editorReducer ls s (SET_LOADING Saving True)"
  have "ld_saving (ui_isLoading (es_ui (foldl (editorReducer ls) ?s actions))) = ld_saving (ui_isLoading (es_ui ?s))"
    by (rule editor_store.run_frame [where E = "{a. keeps_saving a}"])
      (use assms reducer_saving_frame in \<open>auto simp: list_all_iff\<close>)
  then show ?thesis by (simp add: canSave_iff editorReducer_def set_loading_def)
qed

theorem no_double_save_witness:
  "\<not> vr_valid (canSave (foldl (editorReducer None)
      (editorReducer None defaultState (SET_LOADING Saving True)) [UPDATE_CONTENT ''x'', SET_LOADING Loading False]))"
  by (rule no_double_save) (simp add: keeps_saving_def)

text \<open>
  a save is allowed exactly when the editor is idle (nothing loading, uploading, saving or
  recording) and there is something to save: a character that is not white space, an attachment or
  a file. Otherwise a reason is given.
\<close>

theorem can_save_exact:
  "(vr_valid (canSave s) \<longleftrightarrow>
     \<not> ld_loading (ui_isLoading (es_ui s)) \<and> \<not> ld_uploading (ui_isLoading (es_ui s))
     \<and> \<not> ld_saving (ui_isLoading (es_ui s)) \<and> \<not> es_recorderBusy s
     \<and> (list_ex (\<lambda>c. \<not> is_ws c) (es_content s) \<or> em_attachments (es_metadata s) \<noteq> [] \<or> es_localFiles s \<noteq> []))
   \<and> (vr_reason (canSave s) = None \<longleftrightarrow> vr_valid (canSave s))"
  unfolding canSave_iff by (auto simp: canSave_def invalid_def trim_blank_iff list_ex_iff)

end
