(* ===== verification/DraftCache.thy ===== *)
theory DraftCache
  imports Json
begin

text \<open>
  Drafts: the debounced writes to the local storage
  (\<^verbatim>\<open>components/MemoEditor/services/cacheService.ts\<close>) and the hook that saves, flushes and
  discards the draft of an editor (\<^verbatim>\<open>hooks/useAutoSave.ts\<close>). A timer of \<open>window.setTimeout\<close> is
  an entry of \<open>dc_timers\<close>; that it fires is the event \<open>Fire\<close>, at any later time, and a cleared
  timer never fires. Timer identifiers count from 1.
\<close>

section \<open>The cache service\<close>

record draft_cache =
  dc_storage :: "string \<Rightarrow> string option"
  dc_pending :: "(string \<times> nat) list"
  dc_timers :: "(nat \<times> string \<times> string) list"
  dc_next :: nat

definition ENTRY_KIND :: string where
  "ENTRY_KIND = ''memos.editor-cache''"

definition deserializeContent :: "string \<Rightarrow> string" where
  "deserializeContent raw =
     (case JSON_parse raw of
        Some (JObj ms) \<Rightarrow>
          (if map_of ms ''kind'' = Some (JStr ENTRY_KIND) \<and> map_of ms ''version'' = Some (JNum 1)
           then (case map_of ms ''content'' of Some (JStr c) \<Rightarrow> c | _ \<Rightarrow> raw) else raw)
      | _ \<Rightarrow> raw)"

definition writeEntry :: "string \<Rightarrow> string \<Rightarrow> draft_cache \<Rightarrow> draft_cache" where
  "writeEntry key content c =
     (if trim content \<noteq> [] then c\<lparr>dc_storage := (dc_storage c)(key \<mapsto> content)\<rparr>
      else c\<lparr>dc_storage := (dc_storage c)(key := None)\<rparr>)"

definition cache_key :: "string \<Rightarrow> string option \<Rightarrow> string" where
  "cache_key username cacheKey = username @ ''-'' @ (case cacheKey of None \<Rightarrow> [] | Some k \<Rightarrow> k)"

definition clearTimeout :: "nat \<Rightarrow> draft_cache \<Rightarrow> draft_cache" where
  "clearTimeout i c = c\<lparr>dc_timers := filter (\<lambda>t. fst t \<noteq> i) (dc_timers c)\<rparr>"

text \<open>\<open>if (pendingSave) { clearTimeout(pendingSave); \<dots> }\<close>\<close>

definition cancel_pending :: "bool \<Rightarrow> string \<Rightarrow> draft_cache \<Rightarrow> draft_cache" where
  "cancel_pending forget key c =
     (case map_of (dc_pending c) key of
        None \<Rightarrow> c
      | Some i \<Rightarrow>
          (let c1 = clearTimeout i c in
           if forget then c1\<lparr>dc_pending := AList.delete key (dc_pending c1)\<rparr> else c1))"

definition cache_save :: "string \<Rightarrow> string \<Rightarrow> draft_cache \<Rightarrow> draft_cache" where
  "cache_save key content c =
     (let c1 = cancel_pending False key c; timeoutId = dc_next c1 in
      c1\<lparr>dc_timers := (timeoutId, key, content) # dc_timers c1, dc_next := timeoutId + 1,
         dc_pending := AList.update key timeoutId (dc_pending c1)\<rparr>)"

definition cache_saveNow :: "string \<Rightarrow> string \<Rightarrow> draft_cache \<Rightarrow> draft_cache" where
  "cache_saveNow key content c = writeEntry key content (cancel_pending True key c)"

definition cache_load :: "string \<Rightarrow> draft_cache \<Rightarrow> string" where
  "cache_load key c =
     (case dc_storage c key of
        None \<Rightarrow> []
      | Some raw \<Rightarrow> if raw \<noteq> [] then deserializeContent raw else [])"

definition cache_clear :: "string \<Rightarrow> draft_cache \<Rightarrow> draft_cache" where
  "cache_clear key c =
     (let c1 = cancel_pending True key c in c1\<lparr>dc_storage := (dc_storage c1)(key := None)\<rparr>)"

definition cache_clearAll :: "draft_cache \<Rightarrow> draft_cache" where
  "cache_clearAll c = (foldl (\<lambda>c (_, i). clearTimeout i c) c (dc_pending c))\<lparr>dc_pending := []\<rparr>"

text \<open>The callback of a timer that is still set.\<close>

definition timer_fires :: "nat \<Rightarrow> draft_cache \<Rightarrow> draft_cache" where
  "timer_fires i c =
     (case map_of (dc_timers c) i of
        None \<Rightarrow> c
      | Some (key, content) \<Rightarrow>
          (let c1 = clearTimeout i c in
           writeEntry key content (c1\<lparr>dc_pending := AList.delete key (dc_pending c1)\<rparr>)))"

datatype cache_event = Save string string | SaveNow string string | Clear string | ClearAll | Fire nat

definition cache_step :: "draft_cache \<Rightarrow> cache_event \<Rightarrow> draft_cache" where
  "cache_step c e =
     (case e of
        Save k v \<Rightarrow> cache_save k v c
      | SaveNow k v \<Rightarrow> cache_saveNow k v c
      | Clear k \<Rightarrow> cache_clear k c
      | ClearAll \<Rightarrow> cache_clearAll c
      | Fire i \<Rightarrow> timer_fires i c)"

section \<open>The invariant\<close>

text \<open>The set timers are exactly the pending ones, and each has its own identifier.\<close>

definition cache_inv :: "draft_cache \<Rightarrow> bool" where
  "cache_inv c \<longleftrightarrow>
     distinct (map fst (dc_timers c)) \<and> (\<forall>t \<in> set (dc_timers c). fst t < dc_next c)
     \<and> (\<forall>k i. map_of (dc_pending c) k = Some i \<longleftrightarrow> (\<exists>v. (i, k, v) \<in> set (dc_timers c)))
     \<and> distinct (map fst (dc_pending c))"

lemma clearTimeout_simps [simp]:
  "dc_storage (clearTimeout i c) = dc_storage c" "dc_pending (clearTimeout i c) = dc_pending c"
  "dc_next (clearTimeout i c) = dc_next c"
  "dc_timers (clearTimeout i c) = filter (\<lambda>t. fst t \<noteq> i) (dc_timers c)"
  by (simp_all add: clearTimeout_def)

lemma writeEntry_simps [simp]:
  "dc_pending (writeEntry k v c) = dc_pending c" "dc_timers (writeEntry k v c) = dc_timers c"
  "dc_next (writeEntry k v c) = dc_next c"
  "dc_storage (writeEntry k v c) = (dc_storage c)(k := (if trim v = [] then None else Some v))"
  by (auto simp: writeEntry_def)

lemma distinct_filter_fst: "distinct (map fst ts) \<Longrightarrow> distinct (map fst (filter P ts))"
  by (rule distinct_map_filter)

lemma cache_invD:
  assumes "cache_inv c"
  shows "distinct (map fst (dc_timers c))" "t \<in> set (dc_timers c) \<Longrightarrow> fst t < dc_next c"
    "map_of (dc_pending c) k = Some i \<longleftrightarrow> (\<exists>v. (i, k, v) \<in> set (dc_timers c))"
    "distinct (map fst (dc_pending c))"
  using assms unfolding cache_inv_def by blast+

lemma timer_unique:
  "cache_inv c \<Longrightarrow> (i, k, v) \<in> set (dc_timers c) \<Longrightarrow> (i, k', v') \<in> set (dc_timers c) \<Longrightarrow> k = k' \<and> v = v'"
  using eq_key_imp_eq_value [OF cache_invD(1)] by blast

lemma timer_of_key:
  "cache_inv c \<Longrightarrow> (i, k, v) \<in> set (dc_timers c) \<Longrightarrow> (j, k, v') \<in> set (dc_timers c) \<Longrightarrow> i = j"
  by (metis cache_invD(3) option.inject)

lemma cancel_pending_simps [simp]:
  "dc_next (cancel_pending f key c) = dc_next c" "dc_storage (cancel_pending f key c) = dc_storage c"
  "map_of (dc_pending (cancel_pending f key c))
     = (if f then (map_of (dc_pending c))(key := None) else map_of (dc_pending c))"
  by (auto simp: cancel_pending_def Let_def AList.delete_conv' split: option.splits)

lemma cancel_pending_timers:
  assumes "cache_inv c"
  shows "set (dc_timers (cancel_pending f key c)) = {t \<in> set (dc_timers c). fst (snd t) \<noteq> key}"
proof (cases "map_of (dc_pending c) key")
  case None
  then have "(i, key, v) \<notin> set (dc_timers c)" for i v using cache_invD(3) [OF assms, of key i] by auto
  then show ?thesis using None by (auto simp: cancel_pending_def)
next
  case (Some i)
  then obtain v where v: "(i, key, v) \<in> set (dc_timers c)" using cache_invD(3) [OF assms] by blast
  have "fst t = i \<longleftrightarrow> fst (snd t) = key" if "t \<in> set (dc_timers c)" for t
  proof -
    obtain j k' v' where t: "t = (j, k', v')" by (cases t)
    have "j = i \<Longrightarrow> k' = key" using timer_unique [OF assms v] that t by blast
    moreover have "k' = key \<Longrightarrow> j = i" using timer_of_key [OF assms v] that t by blast
    ultimately show ?thesis using t by auto
  qed
  then show ?thesis using Some by (auto simp: cancel_pending_def Let_def)
qed

lemma cancel_pending_distinct:
  assumes "cache_inv c"
  shows "distinct (map fst (dc_timers (cancel_pending f key c)))"
    "distinct (map fst (dc_pending (cancel_pending f key c)))"
  using cache_invD(1,4) [OF assms]
  by (auto simp: cancel_pending_def Let_def distinct_map_filter distinct_delete split: option.splits)

text \<open>After cancelling, nothing is set for the key.\<close>

lemma cancel_inv: "cache_inv c \<Longrightarrow> cache_inv (cancel_pending True key c)"
  unfolding cache_inv_def [of "cancel_pending True key c"]
  by (simp add: cancel_pending_timers cancel_pending_distinct cache_invD(2)) (simp add: cache_invD(3))

lemma save_inv:
  assumes "cache_inv c"
  shows "cache_inv (cache_save key v c)"
proof -
  let ?c = "cancel_pending False key c"
  have fresh: "dc_next c \<notin> fst ` set (dc_timers ?c)"
    using cache_invD(2) [OF assms] by (force simp: cancel_pending_timers [OF assms])
  have "map_of (dc_pending c) k = Some i \<longleftrightarrow> (\<exists>v. (i, k, v) \<in> set (dc_timers ?c))" if "k \<noteq> key" for k i
    using that cache_invD(3) [OF assms, of k i] by (auto simp: cancel_pending_timers [OF assms])
  moreover have "(i, key, v) \<notin> set (dc_timers ?c)" for i v by (simp add: cancel_pending_timers [OF assms])
  moreover have "fst t < Suc (dc_next c)" if "t \<in> set (dc_timers ?c)" for t
    using that cache_invD(2) [OF assms, of t] by (simp add: cancel_pending_timers [OF assms])
  ultimately show ?thesis
    using fresh cancel_pending_distinct [OF assms, of False key]
    unfolding cache_inv_def cache_save_def
    by (auto simp: Let_def update_conv' distinct_update split: if_splits simp del: map_of_eq_Some_iff)
qed

lemma write_inv: "cache_inv (writeEntry k v c) = cache_inv c"
  by (simp add: cache_inv_def)

lemma fire_inv:
  assumes "cache_inv c"
  shows "cache_inv (timer_fires i c)"
proof (cases "map_of (dc_timers c) i")
  case None
  then show ?thesis using assms by (simp add: timer_fires_def)
next
  case (Some kv)
  obtain key v where kv: "kv = (key, v)" by fastforce
  have t: "(i, key, v) \<in> set (dc_timers c)" using Some kv by (auto dest: map_of_SomeD)
  then have "map_of (dc_pending c) key = Some i" using cache_invD(3) [OF assms] by blast
  then have "timer_fires i c = writeEntry key v (cancel_pending True key c)"
    using Some kv by (simp add: timer_fires_def cancel_pending_def)
  then show ?thesis by (simp add: write_inv cancel_inv [OF assms])
qed

lemma clearAll_timers:
  "set (dc_timers (foldl (\<lambda>c (_, i). clearTimeout i c) c ps)) = {t \<in> set (dc_timers c). fst t \<notin> snd ` set ps}
   \<and> dc_storage (foldl (\<lambda>c (_, i). clearTimeout i c) c ps) = dc_storage c"
  by (induction ps arbitrary: c) auto

lemma clearAll_inv:
  assumes "cache_inv c"
  shows "cache_inv (cache_clearAll c)" and "dc_timers (cache_clearAll c) = []"
    and "dc_storage (cache_clearAll c) = dc_storage c"
proof -
  have "fst t \<in> snd ` set (dc_pending c)" if "t \<in> set (dc_timers c)" for t
  proof -
    have "(fst t, fst (snd t), snd (snd t)) \<in> set (dc_timers c)" using that by simp
    then have "map_of (dc_pending c) (fst (snd t)) = Some (fst t)"
      using cache_invD(3) [OF assms] by blast
    then show ?thesis by (force dest: map_of_SomeD)
  qed
  then have "set (dc_timers (cache_clearAll c)) = {}"
    unfolding cache_clearAll_def using clearAll_timers [of c "dc_pending c"] by auto
  then show ts: "dc_timers (cache_clearAll c) = []" by simp
  show "dc_storage (cache_clearAll c) = dc_storage c"
    using clearAll_timers [of c "dc_pending c"] by (simp add: cache_clearAll_def)
  show "cache_inv (cache_clearAll c)" unfolding cache_inv_def ts by (simp add: cache_clearAll_def)
qed

lemma cache_step_inv: "cache_inv c \<Longrightarrow> cache_inv (cache_step c e)"
proof (cases e)
  case (Clear k)
  assume a: "cache_inv c"
  have "cache_inv ((cancel_pending True k c)\<lparr>dc_storage := f\<rparr>)" for f
    using cancel_inv [OF a, of k] by (simp add: cache_inv_def)
  then show ?thesis using Clear by (simp add: cache_step_def cache_clear_def Let_def)
qed (simp_all add: cache_step_def save_inv cache_saveNow_def write_inv cancel_inv clearAll_inv fire_inv)

interpretation cache: machine cache_step cache_inv
  by unfold_locales (rule cache_step_inv)

section \<open>What the writes amount to\<close>

text \<open>
  The draft of a key once its timer has fired: the text that is waiting, or the stored entry. Blank
  texts are no drafts.
\<close>

definition entry_of :: "string \<Rightarrow> string option" where
  "entry_of v = (if trim v = [] then None else Some v)"

definition waiting :: "draft_cache \<Rightarrow> string \<Rightarrow> string option" where
  "waiting c k = map_option (\<lambda>t. snd (snd t)) (List.find (\<lambda>t. fst (snd t) = k) (dc_timers c))"

definition draft :: "draft_cache \<Rightarrow> string \<Rightarrow> string option" where
  "draft c k = (case waiting c k of Some v \<Rightarrow> entry_of v | None \<Rightarrow> dc_storage c k)"

definition spec_step :: "(string \<Rightarrow> string option) \<Rightarrow> cache_event \<Rightarrow> string \<Rightarrow> string option" where
  "spec_step d e =
     (case e of
        Save k v \<Rightarrow> d(k := entry_of v)
      | SaveNow k v \<Rightarrow> d(k := entry_of v)
      | Clear k \<Rightarrow> d(k := None)
      | ClearAll \<Rightarrow> d
      | Fire _ \<Rightarrow> d)"

lemma waiting_None: "waiting c k = None \<longleftrightarrow> (\<forall>t \<in> set (dc_timers c). fst (snd t) \<noteq> k)"
  by (auto simp: waiting_def find_None_iff)

lemma waiting_Some:
  assumes "cache_inv c"
  shows "waiting c k = Some v \<longleftrightarrow> (\<exists>i. (i, k, v) \<in> set (dc_timers c))"
proof
  assume "waiting c k = Some v"
  then obtain t where t: "List.find (\<lambda>t. fst (snd t) = k) (dc_timers c) = Some t" "snd (snd t) = v"
    by (auto simp: waiting_def)
  then have "(fst t, k, v) \<in> set (dc_timers c)" by (auto simp: find_Some_iff)
  then show "\<exists>i. (i, k, v) \<in> set (dc_timers c)" by blast
next
  assume "\<exists>i. (i, k, v) \<in> set (dc_timers c)"
  then obtain i where i: "(i, k, v) \<in> set (dc_timers c)" by blast
  then obtain t where t: "List.find (\<lambda>t. fst (snd t) = k) (dc_timers c) = Some t"
    by (cases "List.find (\<lambda>t. fst (snd t) = k) (dc_timers c)") (auto simp: find_None_iff)
  then have m: "(fst t, k, snd (snd t)) \<in> set (dc_timers c)" by (auto simp: find_Some_iff)
  then have "(i, k, snd (snd t)) \<in> set (dc_timers c)" using timer_of_key [OF assms i m] by simp
  then have "snd (snd t) = v" using timer_unique [OF assms i] by blast
  then show "waiting c k = Some v" using t by (simp add: waiting_def)
qed

lemma waiting_eqI:
  assumes "cache_inv c" "cache_inv c'"
    and "\<And>i v. (i, k, v) \<in> set (dc_timers c') \<longleftrightarrow> (i, k, v) \<in> set (dc_timers c)"
  shows "waiting c' k = waiting c k"
  using waiting_Some [OF assms(1)] waiting_Some [OF assms(2)] assms(3) by (metis option.exhaust)

lemma waiting_cancel:
  assumes "cache_inv c"
  shows "waiting (cancel_pending True key c) k = (if k = key then None else waiting c k)"
proof (cases "k = key")
  case True
  then show ?thesis by (simp add: waiting_None cancel_pending_timers [OF assms])
next
  case False
  then show ?thesis
    by (auto intro!: waiting_eqI assms cancel_inv simp: cancel_pending_timers [OF assms])
qed

lemma waiting_save:
  assumes "cache_inv c"
  shows "waiting (cache_save key v c) k = (if k = key then Some v else waiting c k)"
proof -
  have ts: "set (dc_timers (cache_save key v c))
      = insert (dc_next c, key, v) {t \<in> set (dc_timers c). fst (snd t) \<noteq> key}"
    by (simp add: cache_save_def Let_def cancel_pending_timers [OF assms])
  show ?thesis
  proof (cases "k = key")
    case True
    then show ?thesis using waiting_Some [OF save_inv [OF assms], of key v k v] ts by auto
  next
    case False
    then show ?thesis
      by (auto intro!: waiting_eqI assms save_inv simp: ts)
  qed
qed

lemma waiting_writeEntry [simp]: "waiting (writeEntry k v c) = waiting c"
  by (simp add: waiting_def fun_eq_iff)

lemma waiting_storage [simp]: "waiting (c\<lparr>dc_storage := f\<rparr>) = waiting c"
  by (simp add: waiting_def fun_eq_iff)

lemma draft_write:
  "cache_inv c \<Longrightarrow> draft (writeEntry key v (cancel_pending True key c)) = (draft c)(key := entry_of v)"
  by (rule ext) (simp add: draft_def waiting_cancel entry_of_def split: option.split)

lemma draft_fire:
  assumes "cache_inv c"
  shows "draft (timer_fires i c) = draft c"
proof (cases "map_of (dc_timers c) i")
  case None
  then show ?thesis by (simp add: timer_fires_def)
next
  case (Some kv)
  obtain key v where kv: "kv = (key, v)" by fastforce
  have t: "(i, key, v) \<in> set (dc_timers c)" using Some kv by (auto dest: map_of_SomeD)
  then have "map_of (dc_pending c) key = Some i" using cache_invD(3) [OF assms] by blast
  then have "timer_fires i c = writeEntry key v (cancel_pending True key c)"
    using Some kv by (simp add: timer_fires_def cancel_pending_def)
  moreover have "waiting c key = Some v" using t waiting_Some [OF assms] by blast
  then have "draft c key = entry_of v" by (simp add: draft_def)
  ultimately show ?thesis by (simp add: draft_write [OF assms] fun_upd_idem)
qed

definition keeps_drafts :: "cache_event \<Rightarrow> bool" where
  "keeps_drafts e = (case e of ClearAll \<Rightarrow> False | _ \<Rightarrow> True)"

lemma draft_step:
  assumes "cache_inv c" and "keeps_drafts e"
  shows "draft (cache_step c e) = spec_step (draft c) e"
proof (cases e)
  case (Save k v)
  have "dc_storage (cache_save k v c) = dc_storage c" by (simp add: cache_save_def Let_def)
  then show ?thesis using Save
    by (auto simp: cache_step_def spec_step_def fun_eq_iff draft_def waiting_save [OF assms(1)]
        split: option.split)
next
  case (Clear k)
  then show ?thesis
    by (auto simp: cache_step_def spec_step_def cache_clear_def Let_def fun_eq_iff draft_def
        waiting_cancel [OF assms(1)] split: option.split)
qed (use assms in \<open>simp_all add: cache_step_def spec_step_def cache_saveNow_def draft_write draft_fire keeps_drafts_def\<close>)

lemma draft_run:
  "cache_inv c \<Longrightarrow> list_all keeps_drafts es \<Longrightarrow> draft (foldl cache_step c es) = foldl spec_step (draft c) es"
  by (induction es arbitrary: c) (simp_all add: draft_step cache_step_inv)

definition empty_cache :: draft_cache where
  "empty_cache = \<lparr>dc_storage = (\<lambda>_. None), dc_pending = [], dc_timers = [], dc_next = 1\<rparr>"

lemma empty_cache_inv: "cache_inv empty_cache"
  by (simp add: empty_cache_def cache_inv_def)

section \<open>The hook\<close>

text \<open>
  The refs of one mounted hook, for one key. \<open>StoreChange\<close> is a notification of the editor's store
  with its content, \<open>Mounted\<close> the run of the first effect, \<open>Flush\<close> what hiding the page, leaving it
  and unmounting do, \<open>Discard\<close> the returned callback, and \<open>Timer\<close> a timer of the cache that fires.
\<close>

record auto_save =
  as_latest :: string
  as_discarded :: "string option"
  as_cache :: draft_cache

datatype auto_event = Mounted string | StoreChange string | Flush | Discard | Timer nat

definition persist :: "string \<Rightarrow> string \<Rightarrow> auto_save \<Rightarrow> auto_save" where
  "persist key content s =
     s\<lparr>as_latest := content,
       as_discarded := (if as_discarded s \<noteq> None \<and> as_discarded s \<noteq> Some content then None
                        else as_discarded s),
       as_cache := cache_save key content (as_cache s)\<rparr>"

definition flushDraft :: "string \<Rightarrow> auto_save \<Rightarrow> auto_save" where
  "flushDraft key s =
     (if as_discarded s = Some (as_latest s) then s
      else s\<lparr>as_cache := cache_saveNow key (as_latest s) (as_cache s)\<rparr>)"

definition discardDraft :: "string \<Rightarrow> auto_save \<Rightarrow> auto_save" where
  "discardDraft key s =
     s\<lparr>as_discarded := Some (as_latest s), as_cache := cache_clear key (as_cache s)\<rparr>"

definition auto_step :: "string \<Rightarrow> auto_save \<Rightarrow> auto_event \<Rightarrow> auto_save" where
  "auto_step key s e =
     (case e of
        Mounted content \<Rightarrow> persist key content s
      | StoreChange content \<Rightarrow> if content \<noteq> as_latest s then persist key content s else s
      | Flush \<Rightarrow> flushDraft key s
      | Discard \<Rightarrow> discardDraft key s
      | Timer i \<Rightarrow> s\<lparr>as_cache := timer_fires i (as_cache s)\<rparr>)"

lemma auto_step_inv: "cache_inv (as_cache s) \<Longrightarrow> cache_inv (as_cache (auto_step key s e))"
  using cache_step_inv [of "as_cache s" "Clear key"]
  by (cases e)
     (auto simp: auto_step_def persist_def flushDraft_def discardDraft_def save_inv fire_inv write_inv
       cache_saveNow_def cancel_inv cache_step_def)

interpretation auto_save: machine "auto_step key" "\<lambda>s. cache_inv (as_cache s)" for key
  by unfold_locales (rule auto_step_inv)

lemma auto_step_draft:
  assumes "cache_inv (as_cache s)"
  shows "draft (as_cache (auto_step key s e)) =
     (case e of
        Mounted c \<Rightarrow> (draft (as_cache s))(key := entry_of c)
      | StoreChange c \<Rightarrow> if c \<noteq> as_latest s then (draft (as_cache s))(key := entry_of c) else draft (as_cache s)
      | Flush \<Rightarrow> if as_discarded s = Some (as_latest s) then draft (as_cache s)
                 else (draft (as_cache s))(key := entry_of (as_latest s))
      | Discard \<Rightarrow> (draft (as_cache s))(key := None)
      | Timer i \<Rightarrow> draft (as_cache s))"
  using draft_step [OF assms, of "Save key c" for c] draft_step [OF assms, of "Clear key"]
  by (cases e)
     (simp_all add: auto_step_def persist_def flushDraft_def discardDraft_def draft_fire [OF assms]
       cache_saveNow_def draft_write [OF assms] cache_step_def spec_step_def keeps_drafts_def)

section \<open>Properties\<close>

text \<open>
  What the cache means: the stored entries and the texts still waiting, each a map over the keys.
  A save sets what waits, an immediate save and a clear settle the key at once, \<open>clearAll\<close> forgets
  what waits and leaves the stored entries, and a firing timer stores what waits for its key.
\<close>

datatype map_event =
    Set_Waiting string string
  | Set_Stored string string
  | Remove_Key string
  | Forget_Waiting
  | Store_Waiting string

type_synonym two_maps = "(string \<Rightarrow> string option) \<times> (string \<Rightarrow> string option)"

fun two_maps_step :: "two_maps \<Rightarrow> map_event \<Rightarrow> two_maps" where
  "two_maps_step (st, w) (Set_Waiting k v) = (st, w(k \<mapsto> v))"
| "two_maps_step (st, w) (Set_Stored k v) = (st(k := entry_of v), w(k := None))"
| "two_maps_step (st, w) (Remove_Key k) = (st(k := None), w(k := None))"
| "two_maps_step (st, w) Forget_Waiting = (st, \<lambda>_. None)"
| "two_maps_step (st, w) (Store_Waiting k) =
     (case w k of None \<Rightarrow> (st, w) | Some v \<Rightarrow> (st(k := entry_of v), w(k := None)))"

text \<open>The operations as changes of the maps; a timer that is not set any more changes nothing.\<close>

fun map_events :: "draft_cache \<Rightarrow> cache_event list \<Rightarrow> map_event list" where
  "map_events c [] = []"
| "map_events c (e # es) =
     (case e of
        Save k v \<Rightarrow> [Set_Waiting k v]
      | SaveNow k v \<Rightarrow> [Set_Stored k v]
      | Clear k \<Rightarrow> [Remove_Key k]
      | ClearAll \<Rightarrow> [Forget_Waiting]
      | Fire i \<Rightarrow> (case map_of (dc_timers c) i of None \<Rightarrow> [] | Some (k, _) \<Rightarrow> [Store_Waiting k]))
     @ map_events (cache_step c e) es"

definition abs_cache :: "draft_cache \<Rightarrow> two_maps" where
  "abs_cache c = (dc_storage c, waiting c)"

text \<open>The page as it loads: whatever the storage holds, and no timer.\<close>

definition loaded_cache :: "(string \<Rightarrow> string option) \<Rightarrow> draft_cache" where
  "loaded_cache st = empty_cache\<lparr>dc_storage := st\<rparr>"

lemma loaded_cache_inv: "cache_inv (loaded_cache st)"
  by (simp add: loaded_cache_def empty_cache_def cache_inv_def)

lemma abs_write:
  "cache_inv c \<Longrightarrow> abs_cache (writeEntry k v (cancel_pending True k c))
     = ((dc_storage c)(k := entry_of v), (waiting c)(k := None))"
  by (simp add: abs_cache_def entry_of_def fun_eq_iff waiting_cancel)

lemma abs_fire:
  assumes "cache_inv c" and "map_of (dc_timers c) i = Some (k, v)"
  shows "abs_cache (timer_fires i c) = two_maps_step (abs_cache c) (Store_Waiting k)"
proof -
  have t: "(i, k, v) \<in> set (dc_timers c)" using assms(2) by (auto dest: map_of_SomeD)
  then have "map_of (dc_pending c) k = Some i" using cache_invD(3) [OF assms(1)] by blast
  then have "timer_fires i c = writeEntry k v (cancel_pending True k c)"
    using assms(2) by (simp add: timer_fires_def cancel_pending_def)
  moreover have "waiting c k = Some v" using t waiting_Some [OF assms(1)] by blast
  ultimately show ?thesis by (simp add: abs_write [OF assms(1)]) (simp add: abs_cache_def)
qed

lemma abs_clearAll:
  assumes "cache_inv c"
  shows "abs_cache (cache_clearAll c) = (dc_storage c, \<lambda>_. None)"
  by (simp add: abs_cache_def clearAll_inv [OF assms] fun_eq_iff waiting_None)

lemma abs_step:
  assumes "cache_inv c"
  shows "abs_cache (cache_step c e) = foldl two_maps_step (abs_cache c) (map_events c [e])"
proof (cases e)
  case (Save k v)
  then show ?thesis
    by (simp add: cache_step_def abs_cache_def fun_eq_iff waiting_save [OF assms])
       (simp add: cache_save_def Let_def)
next
  case (SaveNow k v)
  then show ?thesis
    by (simp add: cache_step_def cache_saveNow_def abs_write [OF assms]) (simp add: abs_cache_def)
next
  case (Clear k)
  then show ?thesis
    by (simp add: cache_step_def cache_clear_def Let_def abs_cache_def fun_eq_iff waiting_cancel [OF assms])
next
  case ClearAll
  then show ?thesis by (simp add: cache_step_def abs_clearAll [OF assms]) (simp add: abs_cache_def)
next
  case (Fire i)
  then show ?thesis
    using abs_fire [OF assms, of i]
    by (cases "map_of (dc_timers c) i") (auto simp: cache_step_def timer_fires_def)
qed

lemma abs_run:
  "cache_inv c \<Longrightarrow> abs_cache (foldl cache_step c es) = foldl two_maps_step (abs_cache c) (map_events c es)"
proof (induction es arbitrary: c)
  case (Cons e es)
  have "map_events c (e # es) = map_events c [e] @ map_events (cache_step c e) es" by simp
  then show ?case using Cons.IH [OF cache_step_inv [OF Cons.prems]] abs_step [OF Cons.prems] by simp
qed simp

text \<open>
  C2: the debounced cache implements two plain maps, for every sequence of operations over any stored
  entries. The storage and the texts still waiting are what assigning to the maps gives: a save
  replaces what waits for its key and nothing else, an immediate save and a clear settle their key and
  leave nothing waiting for it, clearing all forgets what waits and no stored entry, and a timer
  stores exactly the text that waits for its key. So the draft of a key (what waits, else what is
  stored) is the same before and after any timer fires.
\<close>

theorem cache_refines_map:
  "let c = foldl cache_step (loaded_cache st) es;
       (stored, awaited) = foldl two_maps_step (st, \<lambda>_. None) (map_events (loaded_cache st) es) in
   dc_storage c = stored \<and> waiting c = awaited
   \<and> draft c = (\<lambda>k. case awaited k of Some v \<Rightarrow> entry_of v | None \<Rightarrow> stored k)
   \<and> draft (timer_fires i c) = draft c"
proof -
  have start: "abs_cache (loaded_cache st) = (st, \<lambda>_. None)"
    by (simp add: abs_cache_def loaded_cache_def empty_cache_def waiting_def fun_eq_iff)
  define c where "c = foldl cache_step (loaded_cache st) es"
  obtain stored awaited where m:
      "foldl two_maps_step (st, \<lambda>_. None) (map_events (loaded_cache st) es) = (stored, awaited)"
    by fastforce
  have inv: "cache_inv c" unfolding c_def by (rule cache.run_inv [OF loaded_cache_inv])
  have "abs_cache c = (stored, awaited)"
    using abs_run [OF loaded_cache_inv, of st es] m by (simp add: start c_def)
  then show ?thesis
    unfolding Let_def m c_def [symmetric] prod.case
    by (auto simp: abs_cache_def draft_fire [OF inv]) (simp add: draft_def fun_eq_iff)
qed

text \<open>
  A discarded draft stays discarded. After \<open>discardDraft\<close>, no flush (hiding the page, leaving it,
  unmounting the editor) and no timer that still was running brings an entry of the key back, as long
  as the editor's content does not change.
\<close>

definition unchanged :: "string \<Rightarrow> auto_event \<Rightarrow> bool" where
  "unchanged content e = (case e of Mounted _ \<Rightarrow> False | StoreChange c \<Rightarrow> c = content | _ \<Rightarrow> True)"

theorem discarded_stays:
  assumes "cache_inv (as_cache s)" and "list_all (unchanged (as_latest s)) es"
  shows "dc_storage (as_cache (foldl (auto_step key) (discardDraft key s) es)) key = None"
proof -
  let ?inv = "\<lambda>t. cache_inv (as_cache t) \<and> as_latest t = as_latest s \<and> as_discarded t = Some (as_latest s)
      \<and> waiting (as_cache t) key = None \<and> dc_storage (as_cache t) key = None"
  have none: "draft c key = None" if "waiting c key = None" "dc_storage c key = None" for c
    using that by (simp add: draft_def)
  have start: "?inv (discardDraft key s)"
    using assms(1) cache_step_inv [OF assms(1), of "Clear key"] waiting_cancel [OF assms(1), of key key]
    by (simp add: discardDraft_def cache_clear_def cache_step_def Let_def)
  have "?inv (auto_step key t e)" if t: "?inv t" and e: "unchanged (as_latest s) e" for t e
  proof (cases e)
    case (Timer i)
    have "timer_fires i (as_cache t) = as_cache t \<or>
        (\<exists>k v. k \<noteq> key \<and> timer_fires i (as_cache t) = writeEntry k v (cancel_pending True k (as_cache t)))"
    proof (cases "map_of (dc_timers (as_cache t)) i")
      case None
      then show ?thesis by (simp add: timer_fires_def)
    next
      case (Some kv)
      obtain k v where kv: "kv = (k, v)" by fastforce
      have m: "(i, k, v) \<in> set (dc_timers (as_cache t))" using Some kv by (auto dest: map_of_SomeD)
      then have "map_of (dc_pending (as_cache t)) k = Some i" using t cache_invD(3) by blast
      then have "timer_fires i (as_cache t) = writeEntry k v (cancel_pending True k (as_cache t))"
        using Some kv by (simp add: timer_fires_def cancel_pending_def)
      moreover have "k \<noteq> key" using m t by (auto simp: waiting_None)
      ultimately show ?thesis by blast
    qed
    then show ?thesis using t auto_step_inv [of t key e] Timer
      by (auto simp: auto_step_def waiting_cancel)
  next
    case Discard
    then show ?thesis using t auto_step_inv [of t key e] waiting_cancel [of "as_cache t" key key]
      by (simp add: auto_step_def discardDraft_def cache_clear_def Let_def)
  qed (use t e in \<open>auto simp: auto_step_def flushDraft_def unchanged_def\<close>)
  then have "list_all (unchanged (as_latest s)) es \<Longrightarrow> ?inv t \<Longrightarrow> ?inv (foldl (auto_step key) t es)" for t
    by (induction es arbitrary: t) auto
  with start assms(2) show ?thesis by blast
qed

theorem discarded_stays_witness:
  "dc_storage (as_cache (foldl (auto_step ''u-'')
     (discardDraft ''u-'' \<lparr>as_latest = ''x'', as_discarded = None, as_cache = cache_save ''u-'' ''x'' empty_cache\<rparr>)
     [Timer 1, Flush, StoreChange ''x'', Flush])) ''u-'' = None"
  by (rule discarded_stays) (simp_all add: save_inv empty_cache_inv unchanged_def)

text \<open>
  a draft survives the page. When the hook flushes content that was not discarded, the entry of
  its key is exactly that content, and a new editor loads it again unless it reads as an entry of the
  older, structured format.
\<close>

theorem flush_roundtrip:
  assumes "cache_inv (as_cache s)" and "as_discarded s \<noteq> Some (as_latest s)" and "trim (as_latest s) \<noteq> []"
    and "JSON_parse (as_latest s) = None"
  shows "cache_load key (as_cache (flushDraft key s)) = as_latest s"
proof -
  have "as_latest s \<noteq> []" using assms(3) by (auto simp: trim_blank_iff)
  then show ?thesis using assms by (simp add: flushDraft_def cache_load_def cache_saveNow_def deserializeContent_def)
qed

theorem flush_roundtrip_witness:
  "cache_load ''u-'' (as_cache (flushDraft ''u-''
     \<lparr>as_latest = ''- a'', as_discarded = None, as_cache = empty_cache\<rparr>)) = ''- a''"
proof -
  have p: "JSON_parse ''- a'' = None" by code_simp
  have t: "trim ''- a'' \<noteq> []" by (simp add: trim_blank_iff is_ws_def code_unit_def)
  show ?thesis
    using flush_roundtrip [of "\<lparr>as_latest = ''- a'', as_discarded = None, as_cache = empty_cache\<rparr>" "''u-''"] p t
    by (simp add: empty_cache_inv)
qed

end
