(* ===== verification/MemoService.thy ===== *)
theory MemoService
  imports EditorState DraftCache
begin

text \<open>
  Saving a memo: the upload of local files (\<^verbatim>\<open>services/uploadService.ts\<close>), the update mask and
  the calls of a save (\<^verbatim>\<open>services/memoService.ts\<close>), the start of an editor
  (\<^verbatim>\<open>hooks/useMemoInit.ts\<close>) and the save handler of the editor
  (\<^verbatim>\<open>components/MemoEditor/index.tsx\<close>). The API client is a record of functions on the state \<open>'s\<close>
  of the server; each returns an error or its response. \<open>ts_date\<close> and \<open>date_ts\<close> stand for the
  third-party conversions \<open>timestampDate\<close> and \<open>timestampFromDate\<close>.
\<close>

type_synonym error = string

record 's memo_api =
  api_createAttachment :: "attachment \<Rightarrow> 's \<Rightarrow> (error + attachment) \<times> 's"
  api_getMemo :: "string \<Rightarrow> 's \<Rightarrow> (error + memo) \<times> 's"
  api_updateMemo :: "memo \<Rightarrow> string list \<Rightarrow> 's \<Rightarrow> (error + memo) \<times> 's"
  api_createMemo :: "memo \<Rightarrow> 's \<Rightarrow> (error + memo) \<times> 's"
  api_createMemoComment :: "string \<Rightarrow> memo \<Rightarrow> 's \<Rightarrow> (error + memo) \<times> 's"

section \<open>Uploads\<close>

definition upload_request :: "local_file \<Rightarrow> attachment" where
  "upload_request lf =
     empty_attachment\<lparr>a_filename := f_name (lf_file lf), a_size := f_size (lf_file lf),
       a_type := f_type (lf_file lf), a_content := f_bytes (lf_file lf),
       a_motionMedia := lf_motionMedia lf\<rparr>"

fun upload_loop ::
  "'s memo_api \<Rightarrow> attachment list \<Rightarrow> local_file list \<Rightarrow> 's \<Rightarrow> (error + attachment list) \<times> 's" where
  "upload_loop api attachments [] st = (Inr attachments, st)"
| "upload_loop api attachments (lf # lfs) st =
     (case api_createAttachment api (upload_request lf) st of
        (Inl e, st') \<Rightarrow> (Inl e, st')
      | (Inr a, st') \<Rightarrow> upload_loop api (attachments @ [a]) lfs st')"

definition uploadFiles :: "'s memo_api \<Rightarrow> local_file list \<Rightarrow> 's \<Rightarrow> (error + attachment list) \<times> 's" where
  "uploadFiles api localFiles st =
     (if length localFiles = 0 then (Inr [], st) else upload_loop api [] localFiles st)"

section \<open>The update mask\<close>

definition toAttachmentReferences :: "attachment list \<Rightarrow> attachment list" where
  "toAttachmentReferences attachments = map (\<lambda>a. empty_attachment\<lparr>a_name := a_name a\<rparr>) attachments"

text \<open>\<open>mask.add(path)\<close>: the set keeps the order of insertion.\<close>

definition add_path :: "string \<Rightarrow> string list \<Rightarrow> string list" where
  "add_path p paths = (if p \<in> set paths then paths else paths @ [p])"

definition if_changed ::
  "bool \<Rightarrow> string \<Rightarrow> (memo_patch \<Rightarrow> memo_patch) \<Rightarrow> string list \<times> memo_patch \<Rightarrow> string list \<times> memo_patch" where
  "if_changed changed path set_field mp =
     (if changed then (add_path path (fst mp), set_field (snd mp)) else mp)"

definition date_changed :: "(timestamp \<Rightarrow> date) \<Rightarrow> date option \<Rightarrow> timestamp option \<Rightarrow> bool" where
  "date_changed ts_date d prev = (d \<noteq> None \<and> d \<noteq> map_option ts_date prev)"

definition content_changed :: "memo \<Rightarrow> editor_state \<Rightarrow> attachment list \<Rightarrow> bool" where
  "content_changed prev s atts \<longleftrightarrow>
     es_content s \<noteq> m_content prev \<or> atts \<noteq> m_attachments prev
     \<or> em_relations (es_metadata s) \<noteq> m_relations prev \<or> em_location (es_metadata s) \<noteq> m_location prev"

definition buildUpdateMask ::
  "(timestamp \<Rightarrow> date) \<Rightarrow> (date \<Rightarrow> timestamp) \<Rightarrow> memo \<Rightarrow> editor_state \<Rightarrow> attachment list
     \<Rightarrow> string list \<times> memo_patch" where
  "buildUpdateMask ts_date date_ts prevMemo s allAttachments =
     (let meta = es_metadata s; times = es_timestamps s;
          mp0 = ([], no_patch\<lparr>p_name := Some (m_name prevMemo), p_content := Some (es_content s)\<rparr>);
          mp1 = if_changed (es_content s \<noteq> m_content prevMemo) ''content''
                  (\<lambda>p. p\<lparr>p_content := Some (es_content s)\<rparr>) mp0;
          mp2 = if_changed (em_visibility meta \<noteq> m_visibility prevMemo) ''visibility''
                  (\<lambda>p. p\<lparr>p_visibility := Some (em_visibility meta)\<rparr>) mp1;
          mp3 = if_changed (allAttachments \<noteq> m_attachments prevMemo) ''attachments''
                  (\<lambda>p. p\<lparr>p_attachments := Some (toAttachmentReferences allAttachments)\<rparr>) mp2;
          mp4 = if_changed (em_relations meta \<noteq> m_relations prevMemo) ''relations''
                  (\<lambda>p. p\<lparr>p_relations := Some (em_relations meta)\<rparr>) mp3;
          mp5 = if_changed (em_location meta \<noteq> m_location prevMemo) ''location''
                  (\<lambda>p. p\<lparr>p_location := Some (em_location meta)\<rparr>) mp4;
          mp6 = if_changed (list_ex (\<lambda>k. k \<in> set (fst mp5)) [''content'', ''attachments'', ''relations'', ''location''])
                  ''update_time'' id mp5;
          mp7 = if_changed (date_changed ts_date (et_createTime times) (m_createTime prevMemo)) ''create_time''
                  (\<lambda>p. p\<lparr>p_createTime := Some (map_option date_ts (et_createTime times))\<rparr>) mp6 in
      if_changed (date_changed ts_date (et_updateTime times) (m_updateTime prevMemo)) ''update_time''
        (\<lambda>p. p\<lparr>p_updateTime := Some (map_option date_ts (et_updateTime times))\<rparr>) mp7)"

section \<open>Saving\<close>

record save_result =
  sr_memoName :: string
  sr_hasChanges :: bool

text \<open>\<open>create(MemoSchema, \<dots>)\<close> of a new memo.\<close>

definition new_memo :: "(date \<Rightarrow> timestamp) \<Rightarrow> editor_state \<Rightarrow> attachment list \<Rightarrow> memo" where
  "new_memo date_ts s allAttachments =
     empty_memo\<lparr>m_content := es_content s, m_visibility := em_visibility (es_metadata s),
       m_attachments := toAttachmentReferences allAttachments, m_relations := em_relations (es_metadata s),
       m_location := em_location (es_metadata s),
       m_createTime := map_option date_ts (et_createTime (es_timestamps s)),
       m_updateTime := map_option date_ts (et_updateTime (es_timestamps s))\<rparr>"

text \<open>An absent or empty \<open>memoName\<close> or \<open>parentMemoName\<close> counts as none.\<close>

definition given :: "string option \<Rightarrow> bool" where
  "given n \<longleftrightarrow> (case n of None \<Rightarrow> False | Some s \<Rightarrow> s \<noteq> [])"

definition result_of :: "(error + memo) \<times> 's \<Rightarrow> (error + save_result) \<times> 's" where
  "result_of r =
     (case r of
        (Inl e, st) \<Rightarrow> (Inl e, st)
      | (Inr memo, st) \<Rightarrow> (Inr \<lparr>sr_memoName = m_name memo, sr_hasChanges = True\<rparr>, st))"

definition save_memo ::
  "'s memo_api \<Rightarrow> (timestamp \<Rightarrow> date) \<Rightarrow> (date \<Rightarrow> timestamp) \<Rightarrow> editor_state
     \<Rightarrow> string option \<Rightarrow> string option \<Rightarrow> 's \<Rightarrow> (error + save_result) \<times> 's" where
  "save_memo api ts_date date_ts s memoName parentMemoName st =
     (case uploadFiles api (es_localFiles s) st of
        (Inl e, st1) \<Rightarrow> (Inl e, st1)
      | (Inr newAttachments, st1) \<Rightarrow>
          let allAttachments = em_attachments (es_metadata s) @ newAttachments in
          if given memoName then
            (case api_getMemo api (the memoName) st1 of
               (Inl e, st2) \<Rightarrow> (Inl e, st2)
             | (Inr prevMemo, st2) \<Rightarrow>
                 let (paths, patch) = buildUpdateMask ts_date date_ts prevMemo s allAttachments in
                 if length paths = 0
                 then (Inr \<lparr>sr_memoName = m_name prevMemo, sr_hasChanges = False\<rparr>, st2)
                 else result_of (api_updateMemo api (spread_memo empty_memo patch) paths st2))
          else
            let memoData = new_memo date_ts s allAttachments in
            if given parentMemoName
            then result_of (api_createMemoComment api (the parentMemoName) memoData st1)
            else result_of (api_createMemo api memoData st1))"

definition fromMemo :: "(timestamp \<Rightarrow> date) \<Rightarrow> memo \<Rightarrow> string \<times> editor_metadata \<times> editor_timestamps" where
  "fromMemo ts_date m =
     (m_content m,
      \<lparr>em_visibility = m_visibility m, em_attachments = m_attachments m, em_relations = m_relations m,
       em_location = m_location m\<rparr>,
      \<lparr>et_createTime = map_option ts_date (m_createTime m), et_updateTime = map_option ts_date (m_updateTime m)\<rparr>)"

section \<open>The editor\<close>

text \<open>
  One mounted editor: its store and its draft hook, which listens to the store while the editor
  creates a memo (\<open>isDraftCacheEnabled\<close>). \<open>ed_initialized\<close> is \<open>initializedRef\<close>.
\<close>

record editor =
  ed_state :: editor_state
  ed_auto :: auto_save
  ed_initialized :: bool

definition ed_dispatch :: "local_storage \<Rightarrow> bool \<Rightarrow> string \<Rightarrow> editor_action \<Rightarrow> editor \<Rightarrow> editor" where
  "ed_dispatch ls drafts key a ed =
     (let s' = editorReducer ls (ed_state ed) a in
      ed\<lparr>ed_state := s',
         ed_auto := (if drafts then auto_step key (ed_auto ed) (StoreChange (es_content s')) else ed_auto ed)\<rparr>)"

text \<open>
  The effect of \<open>useMemoInit\<close>: \<open>lossless\<close> is the round trip check of the editor library
  (\<open>isLosslessRoundTrip\<close>). The draft hook is not enabled yet.
\<close>

definition memo_init ::
  "local_storage \<Rightarrow> (timestamp \<Rightarrow> date) \<Rightarrow> (string \<Rightarrow> bool) \<Rightarrow> string \<Rightarrow> memo option \<Rightarrow> visibility option
     \<Rightarrow> date option \<Rightarrow> editor \<Rightarrow> editor" where
  "memo_init ls ts_date lossless key memo defaultVisibility defaultCreateTime ed0 =
     (if ed_initialized ed0 then ed0
      else
        let ed = ed0\<lparr>ed_initialized := True\<rparr>; dispatch = ed_dispatch ls False key in
        case memo of
          Some m \<Rightarrow>
            (let (content, meta, times) = fromMemo ts_date m;
                 ed1 = ed\<lparr>ed_auto := (ed_auto ed)\<lparr>as_cache := cache_clear key (as_cache (ed_auto ed))\<rparr>\<rparr>;
                 ed2 = dispatch (INIT_MEMO content meta times) ed1 in
             if getPreferredEditorMode ls = Wysiwyg \<and> content \<noteq> [] \<and> \<not> lossless content
             then dispatch (SET_EDITOR_MODE Raw) ed2 else ed2)
        | None \<Rightarrow>
            (let cachedContent = cache_load key (as_cache (ed_auto ed));
                 ed1 = (if cachedContent \<noteq> [] then dispatch (UPDATE_CONTENT cachedContent) ed else ed);
                 ed2 = (case defaultVisibility of None \<Rightarrow> ed1
                        | Some v \<Rightarrow> dispatch (SET_METADATA \<lparr>mdp_visibility = Some v, mdp_attachments = None,
                                     mdp_relations = None, mdp_location = None\<rparr>) ed1) in
             case defaultCreateTime of None \<Rightarrow> ed2
             | Some d \<Rightarrow> dispatch (SET_TIMESTAMPS \<lparr>tsp_createTime = Some (Some d), tsp_updateTime = Some (Some d)\<rparr>) ed2))"

text \<open>
  \<open>handleSave\<close> up to its \<open>await\<close>: the check and the saving flag; the result is the state that is
  sent. Behind the \<open>await\<close> of a save that reported changes: the draft is discarded and the editor
  reset, with the defaults of a new memo; the \<open>finally\<close> clears the flag.
\<close>

definition save_begin :: "local_storage \<Rightarrow> bool \<Rightarrow> string \<Rightarrow> editor \<Rightarrow> (editor_state \<times> editor) option" where
  "save_begin ls drafts key ed =
     (if vr_valid (canSave (ed_state ed))
      then Some (ed_state ed, ed_dispatch ls drafts key (SET_LOADING Saving True) ed) else None)"

definition save_succeeded ::
  "local_storage \<Rightarrow> string \<Rightarrow> string option \<Rightarrow> visibility option \<Rightarrow> date option \<Rightarrow> editor \<Rightarrow> editor" where
  "save_succeeded ls key memoName defaultVisibility defaultCreateTime ed =
     (let drafts = (memoName = None);
          dispatch = ed_dispatch ls drafts key;
          ed1 = ed\<lparr>ed_auto := discardDraft key (ed_auto ed)\<rparr>;
          ed2 = dispatch RESET ed1;
          ed3 = (case defaultVisibility of
                   Some v \<Rightarrow> if \<not> given memoName \<and> v \<noteq> VISIBILITY_UNSPECIFIED
                     then dispatch (SET_METADATA \<lparr>mdp_visibility = Some v, mdp_attachments = None,
                                     mdp_relations = None, mdp_location = None\<rparr>) ed2 else ed2
                 | None \<Rightarrow> ed2);
          ed4 = (case defaultCreateTime of
                   Some d \<Rightarrow> if \<not> given memoName
                     then dispatch (SET_TIMESTAMPS \<lparr>tsp_createTime = Some (Some d), tsp_updateTime = Some (Some d)\<rparr>) ed3
                     else ed3
                 | None \<Rightarrow> ed3) in
      dispatch (SET_LOADING Saving False) ed4)"

section \<open>Lemmas on the mask\<close>

lemma add_path_set: "set (add_path p m) = insert p (set m)"
  by (auto simp: add_path_def)

lemma add_path_distinct: "distinct m \<Longrightarrow> distinct (add_path p m)"
  by (simp add: add_path_def)

lemma if_changed_simps [simp]:
  "set (fst (if_changed b p f mp)) = (if b then insert p (set (fst mp)) else set (fst mp))"
  "snd (if_changed b p f mp) = (if b then f (snd mp) else snd mp)"
  "distinct (fst mp) \<Longrightarrow> distinct (fst (if_changed b p f mp))"
  "fst (if_changed b p f mp) = [] \<longleftrightarrow> \<not> b \<and> fst mp = []"
  by (auto simp: if_changed_def add_path_set add_path_distinct add_path_def)

lemma mask_set:
  "set (fst (buildUpdateMask ts_date date_ts prev s atts)) =
     (if es_content s \<noteq> m_content prev then {''content''} else {})
     \<union> (if em_visibility (es_metadata s) \<noteq> m_visibility prev then {''visibility''} else {})
     \<union> (if atts \<noteq> m_attachments prev then {''attachments''} else {})
     \<union> (if em_relations (es_metadata s) \<noteq> m_relations prev then {''relations''} else {})
     \<union> (if em_location (es_metadata s) \<noteq> m_location prev then {''location''} else {})
     \<union> (if content_changed prev s atts
           \<or> date_changed ts_date (et_updateTime (es_timestamps s)) (m_updateTime prev) then {''update_time''} else {})
     \<union> (if date_changed ts_date (et_createTime (es_timestamps s)) (m_createTime prev) then {''create_time''} else {})"
  by (simp add: buildUpdateMask_def content_changed_def Let_def insert_commute)

lemma mask_distinct: "distinct (fst (buildUpdateMask ts_date date_ts prev s atts))"
  by (simp add: buildUpdateMask_def Let_def)

lemma mem_if_insert: "x \<in> (if b then insert y A else A) \<longleftrightarrow> b \<and> x = y \<or> x \<in> A"
  by simp

text \<open>A conditional change of a field as a change to a conditional value.\<close>

lemma if_patch:
  "(if b then id q else q) = q" "(if b then q\<lparr>p_content := x0\<rparr> else q) = q\<lparr>p_content := (if b then x0 else p_content q)\<rparr>"
  "(if b then q\<lparr>p_visibility := x1\<rparr> else q) = q\<lparr>p_visibility := (if b then x1 else p_visibility q)\<rparr>"
  "(if b then q\<lparr>p_attachments := x2\<rparr> else q) = q\<lparr>p_attachments := (if b then x2 else p_attachments q)\<rparr>"
  "(if b then q\<lparr>p_relations := x3\<rparr> else q) = q\<lparr>p_relations := (if b then x3 else p_relations q)\<rparr>"
  "(if b then q\<lparr>p_location := x4\<rparr> else q) = q\<lparr>p_location := (if b then x4 else p_location q)\<rparr>"
  "(if b then q\<lparr>p_createTime := x5\<rparr> else q) = q\<lparr>p_createTime := (if b then x5 else p_createTime q)\<rparr>"
  "(if b then q\<lparr>p_updateTime := x6\<rparr> else q) = q\<lparr>p_updateTime := (if b then x6 else p_updateTime q)\<rparr>"
  by simp_all

lemma no_patch_fields:
  "p_visibility no_patch = None" "p_attachments no_patch = None" "p_relations no_patch = None" "p_location no_patch = None"
  "p_createTime no_patch = None" "p_updateTime no_patch = None" "p_content no_patch = None"
  by (simp_all add: no_patch_def)

lemma mask_patch:
  "snd (buildUpdateMask ts_date date_ts prev s atts) =
     no_patch\<lparr>p_name := Some (m_name prev), p_content := Some (es_content s),
       p_visibility := (if em_visibility (es_metadata s) \<noteq> m_visibility prev
                        then Some (em_visibility (es_metadata s)) else None),
       p_attachments := (if atts \<noteq> m_attachments prev then Some (toAttachmentReferences atts) else None),
       p_relations := (if em_relations (es_metadata s) \<noteq> m_relations prev
                       then Some (em_relations (es_metadata s)) else None),
       p_location := (if em_location (es_metadata s) \<noteq> m_location prev
                      then Some (em_location (es_metadata s)) else None),
       p_createTime := (if date_changed ts_date (et_createTime (es_timestamps s)) (m_createTime prev)
                        then Some (map_option date_ts (et_createTime (es_timestamps s))) else None),
       p_updateTime := (if date_changed ts_date (et_updateTime (es_timestamps s)) (m_updateTime prev)
                        then Some (map_option date_ts (et_updateTime (es_timestamps s))) else None)\<rparr>"
  by (simp add: buildUpdateMask_def Let_def no_patch_fields if_patch mem_if_insert cong: if_cong split del: if_split)

section \<open>Properties\<close>

text \<open>
  C11: an update request says exactly what the editor changed. A path is in the mask just when the
  editor's value differs from the memo's (\<open>update_time\<close> also when the content, the attachments, the
  relations or the location do), none is listed twice and there are no others; and for each path in
  the mask the message has the editor's value: for the attachments their names in order, for
  \<open>update_time\<close> the date the user set, or none so that the server sets it.
\<close>

theorem update_mask_exact:
  "let (paths, patch) = buildUpdateMask ts_date date_ts prev s atts;
       request = spread_memo empty_memo patch; meta = es_metadata s; times = es_timestamps s;
       created = date_changed ts_date (et_createTime times) (m_createTime prev);
       updated = date_changed ts_date (et_updateTime times) (m_updateTime prev) in
   distinct paths
   \<and> set paths \<subseteq> {''content'', ''visibility'', ''attachments'', ''relations'', ''location'', ''update_time'', ''create_time''}
   \<and> (''content'' \<in> set paths \<longleftrightarrow> es_content s \<noteq> m_content prev)
   \<and> (''visibility'' \<in> set paths \<longleftrightarrow> em_visibility meta \<noteq> m_visibility prev)
   \<and> (''attachments'' \<in> set paths \<longleftrightarrow> atts \<noteq> m_attachments prev)
   \<and> (''relations'' \<in> set paths \<longleftrightarrow> em_relations meta \<noteq> m_relations prev)
   \<and> (''location'' \<in> set paths \<longleftrightarrow> em_location meta \<noteq> m_location prev)
   \<and> (''create_time'' \<in> set paths \<longleftrightarrow> created)
   \<and> (''update_time'' \<in> set paths \<longleftrightarrow> content_changed prev s atts \<or> updated)
   \<and> m_name request = m_name prev \<and> m_content request = es_content s
   \<and> (if ''visibility'' \<in> set paths then m_visibility request = em_visibility meta else True)
   \<and> (if ''attachments'' \<in> set paths then map a_name (m_attachments request) = map a_name atts else True)
   \<and> (if ''relations'' \<in> set paths then m_relations request = em_relations meta else True)
   \<and> (if ''location'' \<in> set paths then m_location request = em_location meta else True)
   \<and> m_createTime request = (if created then map_option date_ts (et_createTime times) else None)
   \<and> m_updateTime request = (if updated then map_option date_ts (et_updateTime times) else None)"
proof -
  let ?m = "buildUpdateMask ts_date date_ts prev s atts"
  have paths: "(p \<in> set (fst ?m)) = (p \<in>
     (if es_content s \<noteq> m_content prev then {''content''} else {})
     \<union> (if em_visibility (es_metadata s) \<noteq> m_visibility prev then {''visibility''} else {})
     \<union> (if atts \<noteq> m_attachments prev then {''attachments''} else {})
     \<union> (if em_relations (es_metadata s) \<noteq> m_relations prev then {''relations''} else {})
     \<union> (if em_location (es_metadata s) \<noteq> m_location prev then {''location''} else {})
     \<union> (if content_changed prev s atts
           \<or> date_changed ts_date (et_updateTime (es_timestamps s)) (m_updateTime prev) then {''update_time''} else {})
     \<union> (if date_changed ts_date (et_createTime (es_timestamps s)) (m_createTime prev) then {''create_time''} else {}))"
    for p by (simp only: mask_set)
  have mem: "''content'' \<in> set (fst ?m) \<longleftrightarrow> es_content s \<noteq> m_content prev"
    "''visibility'' \<in> set (fst ?m) \<longleftrightarrow> em_visibility (es_metadata s) \<noteq> m_visibility prev"
    "''attachments'' \<in> set (fst ?m) \<longleftrightarrow> atts \<noteq> m_attachments prev"
    "''relations'' \<in> set (fst ?m) \<longleftrightarrow> em_relations (es_metadata s) \<noteq> m_relations prev"
    "''location'' \<in> set (fst ?m) \<longleftrightarrow> em_location (es_metadata s) \<noteq> m_location prev"
    "''create_time'' \<in> set (fst ?m) \<longleftrightarrow> date_changed ts_date (et_createTime (es_timestamps s)) (m_createTime prev)"
    "''update_time'' \<in> set (fst ?m) \<longleftrightarrow> content_changed prev s atts
      \<or> date_changed ts_date (et_updateTime (es_timestamps s)) (m_updateTime prev)"
    unfolding paths by simp_all
  have sub: "set (fst ?m) \<subseteq> {''content'', ''visibility'', ''attachments'', ''relations'', ''location'', ''update_time'', ''create_time''}"
    unfolding mask_set by auto
  show ?thesis
    using mask_distinct [of ts_date date_ts prev s atts] sub
    by (simp add: case_prod_beta Let_def mem mask_patch spread_memo_def no_patch_def empty_memo_def
        toAttachmentReferences_def o_def del: subset_insert_iff)
qed

lemma unchanged_mask:
  assumes "fromMemo ts_date prev = (es_content s, es_metadata s, es_timestamps s)"
  shows "fst (buildUpdateMask ts_date date_ts prev s (em_attachments (es_metadata s))) = []"
proof -
  have "es_content s = m_content prev"
    "es_metadata s = \<lparr>em_visibility = m_visibility prev, em_attachments = m_attachments prev,
       em_relations = m_relations prev, em_location = m_location prev\<rparr>"
    "es_timestamps s = \<lparr>et_createTime = map_option ts_date (m_createTime prev),
       et_updateTime = map_option ts_date (m_updateTime prev)\<rparr>"
    using assms by (simp_all add: fromMemo_def)
  then have "set (fst (buildUpdateMask ts_date date_ts prev s (em_attachments (es_metadata s)))) = {}"
    unfolding mask_set by (simp add: content_changed_def date_changed_def)
  then show ?thesis by simp
qed

text \<open>
  saving without a change writes nothing. When the editor still holds what it loaded from the
  memo and no file is waiting, a save reads the memo once, reports no changes and sends no update.
\<close>

theorem save_unchanged:
  assumes "fromMemo ts_date prev = (es_content s, es_metadata s, es_timestamps s)" and "es_localFiles s = []"
    and "api_getMemo api n st = (Inr prev, st')" and "n \<noteq> []"
  shows "save_memo api ts_date date_ts s (Some n) parent st
         = (Inr \<lparr>sr_memoName = m_name prev, sr_hasChanges = False\<rparr>, st')"
  using assms unchanged_mask [OF assms(1), of date_ts]
  by (simp add: save_memo_def uploadFiles_def given_def case_prod_beta Let_def)

text \<open>A server whose state is the list of the requests it got.\<close>

definition log_api :: "string list memo_api" where
  "log_api = \<lparr>api_createAttachment = (\<lambda>a st. (Inr a, st @ [''createAttachment''])),
     api_getMemo = (\<lambda>n st. (Inr (empty_memo\<lparr>m_name := n, m_content := ''a''\<rparr>), st @ [''getMemo''])),
     api_updateMemo = (\<lambda>m p st. (Inr m, st @ [''updateMemo''])),
     api_createMemo = (\<lambda>m st. (Inr m, st @ [''createMemo''])),
     api_createMemoComment = (\<lambda>n m st. (Inr m, st @ [''createMemoComment'']))\<rparr>"

theorem save_unchanged_witness:
  "save_memo log_api ts_seconds (\<lambda>d. \<lparr>ts_seconds = d, ts_nanos = 0\<rparr>)
     (defaultState\<lparr>es_content := ''a'', es_metadata := \<lparr>em_visibility = VISIBILITY_UNSPECIFIED, em_attachments = [],
        em_relations = [], em_location = None\<rparr>\<rparr>) (Some ''memos/1'') None []
   = (Inr \<lparr>sr_memoName = ''memos/1'', sr_hasChanges = False\<rparr>, [''getMemo''])"
  using save_unchanged [of ts_seconds "empty_memo\<lparr>m_name := ''memos/1'', m_content := ''a''\<rparr>"
      "defaultState\<lparr>es_content := ''a'', es_metadata := \<lparr>em_visibility = VISIBILITY_UNSPECIFIED, em_attachments = [],
        em_relations = [], em_location = None\<rparr>\<rparr>" log_api "''memos/1''" "[]" "[''getMemo'']"]
  by (simp add: fromMemo_def empty_memo_def defaultState_def log_api_def)

lemma upload_loop_fails:
  "fst (upload_loop api atts lfs st) = Inl e \<longleftrightarrow> fst (upload_loop api [] lfs st) = Inl e"
proof (induction lfs arbitrary: atts st)
  case Nil
  then show ?case by simp
next
  case (Cons lf lfs)
  show ?case
  proof (cases "api_createAttachment api (upload_request lf) st")
    case (Pair r st')
    then show ?thesis using Cons.IH [of "atts @ [a]" st' for a] Cons.IH [of "[a]" st' for a]
      by (cases r) auto
  qed
qed

definition ed_empty :: "string \<Rightarrow> editor \<Rightarrow> bool" where
  "ed_empty key e \<longleftrightarrow> cache_inv (as_cache (ed_auto e)) \<and> es_content (ed_state e) = []
     \<and> as_latest (ed_auto e) = [] \<and> draft (as_cache (ed_auto e)) key = None"

lemma ed_empty_keep:
  "ed_empty key e \<Longrightarrow> ed_empty key (ed_dispatch ls True key (SET_METADATA m) e)"
  "ed_empty key e \<Longrightarrow> ed_empty key (ed_dispatch ls True key (SET_TIMESTAMPS t) e)"
  "ed_empty key e \<Longrightarrow> ed_empty key (ed_dispatch ls True key (SET_LOADING l b) e)"
  by (simp_all add: ed_empty_def ed_dispatch_def Let_def editorReducer_def auto_step_def)

text \<open>
  what is typed while a save is running is lost. The state is sent as it was when the save began,
  the editor accepts input until the answer comes, and then it is emptied and its draft discarded:
  whatever actions came between, the editor ends empty and no draft of the key is left.
\<close>

theorem typing_during_save_lost:
  assumes "cache_inv (as_cache (ed_auto ed))" and "save_begin ls True key ed = Some (sent, ed1)"
  shows "sent = ed_state ed
   \<and> (let ed2 = save_succeeded ls key None vis ctime (foldl (\<lambda>e a. ed_dispatch ls True key a e) ed1 actions) in
      es_content (ed_state ed2) = [] \<and> draft (as_cache (ed_auto ed2)) key = None)"
proof -
  let ?inv = "\<lambda>e. cache_inv (as_cache (ed_auto e))"
  have inv: "?inv e \<Longrightarrow> ?inv (ed_dispatch ls True key a e)" for e a
    using auto_step_inv by (simp add: ed_dispatch_def Let_def)
  have sent: "sent = ed_state ed" "?inv ed1"
    using assms inv by (auto simp: save_begin_def split: if_splits)
  have run: "?inv e \<Longrightarrow> ?inv (foldl (\<lambda>e a. ed_dispatch ls True key a e) e actions)" for e
    by (induction actions arbitrary: e) (auto intro: inv)
  define ed2 where "ed2 = foldl (\<lambda>e a. ed_dispatch ls True key a e) ed1 actions"
  define ed3 where "ed3 = ed_dispatch ls True key RESET (ed2\<lparr>ed_auto := discardDraft key (ed_auto ed2)\<rparr>)"
  have i2: "?inv ed2" unfolding ed2_def using run sent(2) by blast
  then have d2: "?inv (ed2\<lparr>ed_auto := discardDraft key (ed_auto ed2)\<rparr>)"
    "draft (as_cache (discardDraft key (ed_auto ed2))) key = None"
    using auto_step_inv [of "ed_auto ed2" key Discard] auto_step_draft [of "ed_auto ed2" key Discard]
    by (simp_all add: auto_step_def)
  have e3: "es_content (ed_state ed3) = []"
    "ed_auto ed3 = auto_step key (discardDraft key (ed_auto ed2)) (StoreChange [])"
    by (simp_all add: ed3_def ed_dispatch_def Let_def editorReducer_def createInitialState_def defaultState_def)
  have "as_latest (ed_auto ed3) = []"
    by (simp add: e3(2) auto_step_def persist_def)
  moreover have "draft (as_cache (ed_auto ed3)) key = None"
    using d2 auto_step_draft [of "discardDraft key (ed_auto ed2)" key "StoreChange []"]
    by (simp add: e3(2) entry_of_def trim_blank_iff)
  moreover have "?inv ed3" using d2(1) auto_step_inv by (simp add: e3(2))
  ultimately have d3: "ed_empty key ed3" using e3(1) by (simp add: ed_empty_def)
  have "ed_empty key (save_succeeded ls key None vis ctime ed2)"
    unfolding save_succeeded_def Let_def given_def
    using d3 by (auto simp: ed3_def [symmetric] intro!: ed_empty_keep split: option.split)
  then have "es_content (ed_state (save_succeeded ls key None vis ctime ed2)) = []"
    "draft (as_cache (ed_auto (save_succeeded ls key None vis ctime ed2))) key = None"
    by (simp_all add: ed_empty_def)
  then show ?thesis using sent by (simp add: ed2_def [symmetric] Let_def)
qed

theorem typing_during_save_lost_witness:
  "let ed = \<lparr>ed_state = defaultState\<lparr>es_content := ''first''\<rparr>,
             ed_auto = \<lparr>as_latest = ''first'', as_discarded = None, as_cache = empty_cache\<rparr>, ed_initialized = True\<rparr>;
       ed1 = ed_dispatch None True ''u-'' (SET_LOADING Saving True) ed;
       ed2 = save_succeeded None ''u-'' None None None
               (foldl (\<lambda>e a. ed_dispatch None True ''u-'' a e) ed1 [UPDATE_CONTENT ''first and second'']) in
   es_content (ed_state ed2) = [] \<and> draft (as_cache (ed_auto ed2)) ''u-'' = None"
proof -
  let ?ed = "\<lparr>ed_state = defaultState\<lparr>es_content := ''first''\<rparr>,
     ed_auto = \<lparr>as_latest = ''first'', as_discarded = None, as_cache = empty_cache\<rparr>, ed_initialized = True\<rparr>"
  have "vr_valid (canSave (ed_state ?ed))"
    by (simp add: canSave_iff defaultState_def is_ws_def code_unit_def)
  then have "save_begin None True ''u-'' ?ed = Some (ed_state ?ed, ed_dispatch None True ''u-'' (SET_LOADING Saving True) ?ed)"
    by (simp add: save_begin_def)
  from typing_during_save_lost [OF _ this, where vis = None and ctime = None and actions = "[UPDATE_CONTENT ''first and second'']"]
  show ?thesis by (simp add: empty_cache_inv Let_def)
qed

end
