(* ===== verification/AuthFlow.thy ===== *)
theory AuthFlow
  imports JsBase
begin

text \<open>
  Sign-in: the redirect targets (\<^verbatim>\<open>utils/redirect-safety.ts\<close>, \<^verbatim>\<open>utils/auth-redirect.ts\<close>,
  \<^verbatim>\<open>router/routes.ts\<close>) and the state of the OAuth flow (\<^verbatim>\<open>utils/oauth.ts\<close>). Random bytes and
  the digest of the browser's crypto interface are arguments. The session storage is \<open>None\<close>
  where access to it throws; it holds the JSON text of an OAuth state, modelled as the record, or
  a text that does not parse.
\<close>

section \<open>Routes and redirect targets\<close>

definition ROUTES_AUTH :: string where "ROUTES_AUTH = ''/auth''"
definition ROUTES_ABOUT :: string where "ROUTES_ABOUT = ''/about''"
definition ROUTES_EXPLORE :: string where "ROUTES_EXPLORE = ''/explore''"
definition ROUTES_SHARED_MEMO :: string where "ROUTES_SHARED_MEMO = ''/memos/shares''"

definition getSafeRedirectPath :: "string option \<Rightarrow> string option" where
  "getSafeRedirectPath path =
     (case path of
        None \<Rightarrow> None
      | Some p \<Rightarrow>
          if p = [] then None
          else if \<not> startsWith p ''/'' \<or> startsWith p ''//'' then None
          else if p = ROUTES_AUTH \<or> startsWith p (ROUTES_AUTH @ ''/'') \<or> startsWith p (ROUTES_AUTH @ ''?'') then None
          else Some p)"

text \<open>
  \<open>URLSearchParams.prototype.toString\<close>: the form encoding of UTF-8 bytes. A character of the model
  has one or two bytes.
\<close>

definition utf8 :: "char \<Rightarrow> nat list" where
  "utf8 c = (let n = code_unit c in if n < 128 then [n] else [192 + n div 64, 128 + n mod 64])"

definition upper_hex :: "nat \<Rightarrow> char" where
  "upper_hex n = unit_char (if n < 10 then 48 + n else 55 + n)"

definition form_safe :: "char \<Rightarrow> bool" where
  "form_safe c \<longleftrightarrow> is_alnum_ascii c \<or> c = CHR ''*'' \<or> c = CHR ''-'' \<or> c = CHR ''.'' \<or> c = CHR ''_''"

definition form_encode_char :: "char \<Rightarrow> string" where
  "form_encode_char c =
     (if form_safe c then [c]
      else if c = CHR '' '' then ''+''
      else concat (map (\<lambda>b. [CHR 0x25, upper_hex (b div 16), upper_hex (b mod 16)]) (utf8 c)))"

definition form_encode :: "string \<Rightarrow> string" where
  "form_encode s = concat (map form_encode_char s)"

definition search_string :: "(string \<times> string) list \<Rightarrow> string" where
  "search_string params = join ''&'' (map (\<lambda>(k, v). form_encode k @ ''='' @ form_encode v) params)"

definition AUTH_REDIRECT_PARAM :: string where "AUTH_REDIRECT_PARAM = ''redirect''"
definition AUTH_REASON_PARAM :: string where "AUTH_REASON_PARAM = ''reason''"

definition buildAuthRoute :: "string option \<Rightarrow> string option \<Rightarrow> string" where
  "buildAuthRoute redirect reason =
     (let searchParams =
            (case getSafeRedirectPath redirect of None \<Rightarrow> [] | Some p \<Rightarrow> [(AUTH_REDIRECT_PARAM, p)])
            @ (case reason of None \<Rightarrow> [] | Some r \<Rightarrow> if r = [] then [] else [(AUTH_REASON_PARAM, r)]);
          search = search_string searchParams in
      if search \<noteq> [] then ROUTES_AUTH @ ''?'' @ search else ROUTES_AUTH)"

definition PUBLIC_ROUTE_PREFIXES :: "string list" where
  "PUBLIC_ROUTE_PREFIXES = [ROUTES_AUTH, ROUTES_ABOUT, ROUTES_EXPLORE, ROUTES_SHARED_MEMO @ ''/'', ''/u/'', ''/memos/'']"

definition isPublicRoute :: "string \<Rightarrow> bool" where
  "isPublicRoute path = list_ex (\<lambda>route. startsWith path route) PUBLIC_ROUTE_PREFIXES"

record window_location =
  wl_pathname :: string
  wl_search :: string
  wl_hash :: string

text \<open>\<open>redirectOnAuthFailure\<close>: the address the document is replaced with, if it is.\<close>

definition redirectOnAuthFailure ::
  "bool \<Rightarrow> string option \<Rightarrow> string option \<Rightarrow> window_location \<Rightarrow> string option" where
  "redirectOnAuthFailure forceRedirect redirect reason loc =
     (let currentPath = wl_pathname loc;
          currentRedirectPath = wl_pathname loc @ wl_search loc @ wl_hash loc in
      if startsWith currentPath ROUTES_AUTH then None
      else if \<not> forceRedirect \<and> isPublicRoute currentPath then None
      else Some (buildAuthRoute (Some (case redirect of None \<Rightarrow> currentRedirectPath | Some r \<Rightarrow> r)) reason))"

section \<open>OAuth\<close>

definition STATE_EXPIRY_MS :: int where
  "STATE_EXPIRY_MS = 10 * 60 * 1000"

datatype oauth_flow_mode = Signin | Link

record oauth_state =
  oa_state :: string
  oa_identityProviderName :: string
  oa_flowMode :: "oauth_flow_mode option"
  oa_timestamp :: int
  oa_returnUrl :: "string option"
  oa_linkingUserName :: "string option"
  oa_codeVerifier :: "string option"

datatype stored_state = Stored oauth_state | Unreadable

text \<open>The session storage's entry, if access does not throw.\<close>

type_synonym session_storage = "stored_state option option"

definition lower_hex :: "nat \<Rightarrow> char" where
  "lower_hex n = unit_char (if n < 10 then 48 + n else 87 + n)"

definition generateSecureState :: "nat list \<Rightarrow> string" where
  "generateSecureState bytes = concat (map (\<lambda>b. [lower_hex (b div 16), lower_hex (b mod 16)]) bytes)"

text \<open>\<open>btoa\<close>: six bits a character, padded to a multiple of four.\<close>

definition base64_char :: "nat \<Rightarrow> char" where
  "base64_char n =
     (if n < 26 then unit_char (65 + n) else if n < 52 then unit_char (71 + n)
      else if n < 62 then unit_char (n - 4) else if n = 62 then CHR ''+'' else CHR ''/'')"

fun base64 :: "nat list \<Rightarrow> string" where
  "base64 [] = []"
| "base64 [a] = [base64_char (a div 4), base64_char (a mod 4 * 16), CHR ''='', CHR ''='']"
| "base64 [a, b] = [base64_char (a div 4), base64_char (a mod 4 * 16 + b div 16), base64_char (b mod 16 * 4), CHR ''='']"
| "base64 (a # b # c # r) =
     [base64_char (a div 4), base64_char (a mod 4 * 16 + b div 16), base64_char (b mod 16 * 4 + c div 64),
      base64_char (c mod 64)] @ base64 r"

definition base64UrlEncode :: "nat list \<Rightarrow> string" where
  "base64UrlEncode buffer =
     rev (dropWhile (\<lambda>c. c = CHR ''='')
       (rev (map (\<lambda>c. if c = CHR ''+'' then CHR ''-'' else if c = CHR ''/'' then CHR ''_'' else c) (base64 buffer))))"

definition generateCodeVerifier :: "nat list \<Rightarrow> string" where
  "generateCodeVerifier bytes = base64UrlEncode bytes"

definition generateCodeChallenge :: "(nat list \<Rightarrow> nat list) \<Rightarrow> string \<Rightarrow> string" where
  "generateCodeChallenge sha256 codeVerifier = base64UrlEncode (sha256 (concat (map utf8 codeVerifier)))"

text \<open>
  \<open>storeOAuthState\<close>: \<open>subtle\<close> is the digest where \<open>crypto.subtle\<close> exists and works (\<open>None\<close>
  otherwise, and then there is no PKCE); \<open>bytes1\<close> and \<open>bytes2\<close> are the random bytes it draws. The
  result is an error or the state and challenge for the address of the provider.
\<close>

definition storeOAuthState ::
  "nat list \<Rightarrow> nat list \<Rightarrow> (nat list \<Rightarrow> nat list) option \<Rightarrow> int \<Rightarrow> string \<Rightarrow> oauth_flow_mode
     \<Rightarrow> string option \<Rightarrow> string option \<Rightarrow> session_storage
     \<Rightarrow> (string + string \<times> string option) \<times> session_storage" where
  "storeOAuthState bytes1 bytes2 subtle now identityProviderName flowMode returnUrl linkingUserName ss =
     (let state = generateSecureState bytes1;
          codeVerifier = map_option (\<lambda>_. generateCodeVerifier bytes2) subtle;
          codeChallenge = map_option (\<lambda>sha. generateCodeChallenge sha (generateCodeVerifier bytes2)) subtle;
          stateData = \<lparr>oa_state = state, oa_identityProviderName = identityProviderName,
            oa_flowMode = Some flowMode, oa_timestamp = now, oa_returnUrl = returnUrl,
            oa_linkingUserName = linkingUserName, oa_codeVerifier = codeVerifier\<rparr> in
      case ss of
        None \<Rightarrow> (Inl ''Failed to initialize OAuth flow'', None)
      | Some _ \<Rightarrow> (Inr (state, codeChallenge), Some (Some (Stored stateData))))"

record oauth_result =
  or_identityProviderName :: string
  or_flowMode :: oauth_flow_mode
  or_returnUrl :: "string option"
  or_linkingUserName :: "string option"
  or_codeVerifier :: "string option"

text \<open>
  \<open>validateOAuthState\<close>: \<open>Inl\<close> is an exception that leaves the function (the \<open>catch\<close> itself accesses
  the storage), \<open>Inr None\<close> its \<open>null\<close>.
\<close>

definition validateOAuthState ::
  "int \<Rightarrow> string \<Rightarrow> session_storage \<Rightarrow> (string + oauth_result option) \<times> session_storage" where
  "validateOAuthState now stateParam ss =
     (case ss of
        None \<Rightarrow> (Inl ''SecurityError'', None)
      | Some None \<Rightarrow> (Inr None, Some None)
      | Some (Some Unreadable) \<Rightarrow> (Inr None, Some None)
      | Some (Some (Stored d)) \<Rightarrow>
          if now - oa_timestamp d > STATE_EXPIRY_MS then (Inr None, Some None)
          else if oa_state d \<noteq> stateParam then (Inr None, Some None)
          else (Inr (Some \<lparr>or_identityProviderName = oa_identityProviderName d,
                       or_flowMode = (case oa_flowMode d of None \<Rightarrow> Signin | Some m \<Rightarrow> m),
                       or_returnUrl = oa_returnUrl d, or_linkingUserName = oa_linkingUserName d,
                       or_codeVerifier = oa_codeVerifier d\<rparr>), Some None))"

definition cleanupExpiredOAuthState :: "int \<Rightarrow> session_storage \<Rightarrow> (string + unit) \<times> session_storage" where
  "cleanupExpiredOAuthState now ss =
     (case ss of
        None \<Rightarrow> (Inl ''SecurityError'', None)
      | Some None \<Rightarrow> (Inr (), Some None)
      | Some (Some Unreadable) \<Rightarrow> (Inr (), Some None)
      | Some (Some (Stored d)) \<Rightarrow>
          (Inr (), if now - oa_timestamp d > STATE_EXPIRY_MS then Some None else ss))"

section \<open>The decoder of the address\<close>

text \<open>What the auth page reads from the address: the decoding of one form-encoded value.\<close>

definition hex_value :: "char \<Rightarrow> nat" where
  "hex_value c = (let n = code_unit c in if n < 58 then n - 48 else n - 55)"

fun form_bytes :: "string \<Rightarrow> nat list" where
  "form_bytes (p # a # b # r) =
     (if p = CHR 0x25 then (hex_value a * 16 + hex_value b) # form_bytes r
      else (if p = CHR ''+'' then 32 else code_unit p) # form_bytes (a # b # r))"
| "form_bytes (c # r) = (if c = CHR ''+'' then 32 else code_unit c) # form_bytes r"
| "form_bytes [] = []"

fun from_utf8 :: "nat list \<Rightarrow> string" where
  "from_utf8 (a # b # r) =
     (if a < 128 then unit_char a # from_utf8 (b # r) else unit_char ((a - 192) * 64 + (b - 128)) # from_utf8 r)"
| "from_utf8 [a] = [unit_char a]"
| "from_utf8 [] = []"

definition form_decode :: "string \<Rightarrow> string" where
  "form_decode s = from_utf8 (form_bytes s)"

lemma hex_value_upper: "n < 16 \<Longrightarrow> hex_value (upper_hex n) = n"
  by (simp add: hex_value_def upper_hex_def Let_def)

lemma form_safe_plain: "form_safe c \<Longrightarrow> c \<noteq> CHR 0x25 \<and> c \<noteq> CHR ''+'' \<and> code_unit c < 128"
  by (auto simp: form_safe_def is_alnum_ascii_def is_upper_ascii_def is_lower_ascii_def is_digit_def code_unit_def)

lemma form_bytes_plain:
  "c \<noteq> CHR 0x25 \<Longrightarrow> form_bytes (c # r) = (if c = CHR ''+'' then 32 else code_unit c) # form_bytes r"
  by (cases r rule: form_bytes.cases) auto

lemma form_bytes_hex:
  "b < 256 \<Longrightarrow> form_bytes (CHR 0x25 # upper_hex (b div 16) # upper_hex (b mod 16) # r) = b # form_bytes r"
  by (simp add: hex_value_upper)

lemma form_bytes_char: "form_bytes (form_encode_char c @ r) = utf8 c @ form_bytes r"
proof -
  define n where "n = code_unit c"
  have n: "n < 256" by (simp add: n_def code_unit_less)
  consider "form_safe c" | "c = CHR '' ''" | "\<not> form_safe c" "c \<noteq> CHR '' ''" by blast
  then show ?thesis
  proof cases
    case 1
    then show ?thesis using form_safe_plain [OF 1]
      by (simp add: form_encode_char_def form_bytes_plain utf8_def)
  next
    case 2
    have "\<not> form_safe CHR '' ''"
      by (simp add: form_safe_def is_alnum_ascii_def is_upper_ascii_def is_lower_ascii_def is_digit_def code_unit_def)
    then show ?thesis using 2
      by (simp add: form_encode_char_def form_bytes_plain utf8_def code_unit_def)
  next
    case 3
    show ?thesis
    proof (cases "n < 128")
      case True
      then show ?thesis using 3 by (simp add: form_encode_char_def utf8_def n_def [symmetric] form_bytes_hex del: form_bytes.simps)
    next
      case False
      then have "192 + n div 64 < 256" "128 + n mod 64 < 256" using n by auto
      then show ?thesis using 3 False
        by (simp add: form_encode_char_def utf8_def n_def [symmetric] form_bytes_hex del: form_bytes.simps)
    qed
  qed
qed

lemma from_utf8_char: "from_utf8 (utf8 c @ r) = c # from_utf8 r"
proof -
  have n: "code_unit c < 256" by (rule code_unit_less)
  show ?thesis
  proof (cases "code_unit c < 128")
    case True
    then show ?thesis by (cases r) (simp_all add: utf8_def)
  next
    case False
    have "code_unit c div 64 * 64 + code_unit c mod 64 = code_unit c" by simp
    then show ?thesis using False by (simp add: utf8_def Let_def)
  qed
qed

lemma form_decode_encode: "form_decode (form_encode s) = s"
proof -
  have "form_bytes (form_encode s) = concat (map utf8 s)"
    by (induction s) (simp_all add: form_encode_def form_bytes_char)
  moreover have "from_utf8 (concat (map utf8 s)) = s"
    by (induction s) (simp_all add: from_utf8_char)
  ultimately show ?thesis by (simp add: form_decode_def)
qed

section \<open>Lemmas on base64\<close>

definition url_safe :: "char \<Rightarrow> bool" where
  "url_safe c \<longleftrightarrow> is_alnum_ascii c \<or> c = CHR ''-'' \<or> c = CHR ''_''"

definition to_url :: "char \<Rightarrow> char" where
  "to_url c = (if c = CHR ''+'' then CHR ''-'' else if c = CHR ''/'' then CHR ''_'' else c)"

lemma url_safe_base64_char: "url_safe (to_url (base64_char n))"
proof -
  consider "n < 26" | "26 \<le> n" "n < 52" | "52 \<le> n" "n < 62" | "n = 62" | "62 < n" by linarith
  then show ?thesis
  proof cases
    case 4
    then show ?thesis by (simp add: base64_char_def to_url_def url_safe_def)
  next
    case 5
    then show ?thesis by (simp add: base64_char_def to_url_def url_safe_def)
  qed (auto simp: base64_char_def to_url_def url_safe_def is_alnum_ascii_def is_upper_ascii_def
      is_lower_ascii_def is_digit_def)
qed

lemma url_safe_not_pad: "url_safe c \<Longrightarrow> c \<noteq> CHR ''=''"
  by (auto simp: url_safe_def is_alnum_ascii_def is_upper_ascii_def is_lower_ascii_def is_digit_def code_unit_def)

text \<open>The encoding without its padding.\<close>

fun base64_body :: "nat list \<Rightarrow> string" where
  "base64_body [] = []"
| "base64_body [a] = [base64_char (a div 4), base64_char (a mod 4 * 16)]"
| "base64_body [a, b] = [base64_char (a div 4), base64_char (a mod 4 * 16 + b div 16), base64_char (b mod 16 * 4)]"
| "base64_body (a # b # c # r) =
     [base64_char (a div 4), base64_char (a mod 4 * 16 + b div 16), base64_char (b mod 16 * 4 + c div 64),
      base64_char (c mod 64)] @ base64_body r"

lemma base64_body: "\<exists>k. base64 bs = base64_body bs @ replicate k CHR ''=''"
proof (induction bs rule: base64.induct)
  case (2 a)
  show ?case by (rule exI [of _ 2]) (simp add: numeral_2_eq_2)
next
  case (3 a b)
  show ?case by (rule exI [of _ 1]) simp
qed auto

lemma base64_body_safe: "list_all url_safe (map to_url (base64_body bs))"
  by (induction bs rule: base64_body.induct) (simp_all add: url_safe_base64_char)

lemma drop_pad: "list_all url_safe s \<Longrightarrow> dropWhile (\<lambda>c. c = CHR ''='') (rev s) = rev s"
  by (cases s rule: rev_cases) (auto dest: url_safe_not_pad)

lemma base64Url_body: "base64UrlEncode bs = map to_url (base64_body bs)"
proof -
  obtain k where k: "base64 bs = base64_body bs @ replicate k CHR ''=''" using base64_body by blast
  have eq: "map (\<lambda>c. if c = CHR ''+'' then CHR ''-'' else if c = CHR ''/'' then CHR ''_'' else c) s = map to_url s" for s
    by (simp add: to_url_def)
  have "dropWhile (\<lambda>c. c = CHR ''='') (replicate k CHR ''='' @ t) = dropWhile (\<lambda>c. c = CHR ''='') t" for t
    by (induction k) auto
  then show ?thesis
    using drop_pad [OF base64_body_safe [of bs]]
    by (simp add: base64UrlEncode_def eq k to_url_def [of "CHR ''=''"] rev_map [symmetric])
qed

lemma base64_body_length: "3 * length (base64_body bs) = 4 * length bs + (case length bs mod 3 of 0 \<Rightarrow> 0 | Suc 0 \<Rightarrow> 2 | _ \<Rightarrow> 1)"
  by (induction bs rule: base64_body.induct) (auto simp: mod_Suc split: nat.splits)

section \<open>Properties\<close>

text \<open>
  an accepted redirect target is the path itself, begins with one slash and is no address of the
  auth pages below or at \<open>/auth\<close>; and it survives the trip through the address of the auth page.
\<close>

theorem safe_redirect:
  "(case getSafeRedirectPath path of
      None \<Rightarrow> True
    | Some p \<Rightarrow> path = Some p \<and> startsWith p ''/'' \<and> \<not> startsWith p ''//'' \<and> p \<noteq> ''/auth''
        \<and> \<not> startsWith p ''/auth/'' \<and> \<not> startsWith p ''/auth?''
        \<and> buildAuthRoute path None = ''/auth?redirect='' @ form_encode p)
   \<and> form_decode (form_encode s) = s"
proof (cases "getSafeRedirectPath path")
  case None
  then show ?thesis by (simp add: form_decode_encode)
next
  case (Some p)
  have "form_encode ''redirect'' = ''redirect''" by code_simp
  then have "buildAuthRoute path None = ''/auth?redirect='' @ form_encode p"
    using Some by (simp add: buildAuthRoute_def search_string_def AUTH_REDIRECT_PARAM_def ROUTES_AUTH_def)
  then show ?thesis
    using Some by (auto simp: getSafeRedirectPath_def ROUTES_AUTH_def form_decode_encode split: option.splits if_splits)
qed

text \<open>
  the check lets through targets its comment rules out. A browser reads a backslash as a slash and
  drops tabs, so a slash and a backslash (or a tab) before a host name make a protocol-relative
  address of another host; and an address of the auth page with a fragment is accepted.
\<close>

theorem unsafe_redirects_accepted:
  "getSafeRedirectPath (Some (''/'' @ [CHR 0x5C] @ ''evil.com'')) = Some (''/'' @ [CHR 0x5C] @ ''evil.com'')
   \<and> getSafeRedirectPath (Some (''/'' @ [CHR 0x09] @ ''/evil.com'')) = Some (''/'' @ [CHR 0x09] @ ''/evil.com'')
   \<and> getSafeRedirectPath (Some ''/auth#x'') = Some ''/auth#x''"
  by code_simp

text \<open>
  an OAuth state is used once, within ten minutes, and only by the flow that stored it. The
  callback is accepted exactly when its parameter is the stored state and the state is not older than
  ten minutes, it gives back what was stored, and whatever the outcome nothing is left in the
  storage: a second callback is refused.
\<close>

theorem oauth_state_single_use:
  "let (r, ss) = storeOAuthState bytes1 bytes2 subtle t idp mode url user (Some old);
       (v, ss1) = validateOAuthState now param ss;
       (v2, ss2) = validateOAuthState now2 param2 ss1 in
   (v = (if now - t \<le> 600000 \<and> param = generateSecureState bytes1
         then Inr (Some \<lparr>or_identityProviderName = idp, or_flowMode = mode, or_returnUrl = url,
                    or_linkingUserName = user,
                    or_codeVerifier = map_option (\<lambda>_. generateCodeVerifier bytes2) subtle\<rparr>)
         else Inr None))
   \<and> ss1 = Some None \<and> v2 = Inr None \<and> ss2 = Some None"
  by (auto simp: storeOAuthState_def validateOAuthState_def STATE_EXPIRY_MS_def Let_def)

text \<open>
  the PKCE verifier made from 32 random bytes has 43 characters, all of them letters, digits,
  hyphens or underscores, as RFC 7636 asks for.
\<close>

theorem code_verifier_format:
  "list_all url_safe (generateCodeVerifier bytes)
   \<and> (if length bytes = 32 then length (generateCodeVerifier bytes) = 43 else True)"
proof -
  have "length bytes = 32 \<Longrightarrow> length (base64_body bytes) = 43"
    using base64_body_length [of bytes] by simp
  then show ?thesis by (simp add: generateCodeVerifier_def base64Url_body base64_body_safe)
qed

end
