(* ===== verification/AuthTokens.thy ===== *)
theory AuthTokens
  imports AuthFlow
begin

text \<open>
  Access tokens: their storage and their exchange between tabs (\<^verbatim>\<open>auth-state.ts\<close>), the refresh and
  the interceptor of the API client (\<^verbatim>\<open>connect.ts\<close>), the refresh on focus
  (\<^verbatim>\<open>hooks/useTokenRefreshOnFocus.ts\<close>) and the retry rule of the query client
  (\<^verbatim>\<open>lib/query-client.ts\<close>). The server's answers, the clock and whatever other tabs do while a
  request is awaited are arguments.
\<close>

section \<open>Token storage\<close>

datatype js_date = Date_ms int | Invalid_Date

text \<open>
  The local storage: the two entries (the expiry as the date its text stands for) and the number of
  \<open>setItem\<close> calls the quota still admits, if it is limited. The whole is \<open>None\<close> where access throws.
\<close>

record local_storage =
  ls_token :: "string option"
  ls_expires :: "js_date option"
  ls_quota :: "nat option"

record token_state =
  ts_token :: "string option"
  ts_expires :: "js_date option"

type_synonym session = "token_state \<times> local_storage option"

definition REQUEST_TOKEN_EXPIRY_BUFFER_MS :: int where
  "REQUEST_TOKEN_EXPIRY_BUFFER_MS = 30 * 1000"

definition FOCUS_TOKEN_EXPIRY_BUFFER_MS :: int where
  "FOCUS_TOKEN_EXPIRY_BUFFER_MS = 2 * 60 * 1000"

text \<open>A string or \<open>null\<close> in a condition.\<close>

definition truthy :: "string option \<Rightarrow> bool" where
  "truthy s = (case s of None \<Rightarrow> False | Some t \<Rightarrow> t \<noteq> [])"

definition date_after :: "js_date \<Rightarrow> int \<Rightarrow> bool" where
  "date_after d now = (case d of Date_ms t \<Rightarrow> now < t | Invalid_Date \<Rightarrow> False)"

definition getAccessToken :: "int \<Rightarrow> session \<Rightarrow> string option \<times> session" where
  "getAccessToken now s =
     (let (tab, store) = s;
          tab' = (if truthy (ts_token tab) then tab
                  else case store of
                    None \<Rightarrow> tab
                  | Some ls \<Rightarrow>
                      (case ls_expires ls of
                         None \<Rightarrow> tab
                       | Some d \<Rightarrow>
                           if truthy (ls_token ls) \<and> date_after d now
                           then \<lparr>ts_token = ls_token ls, ts_expires = Some d\<rparr> else tab)) in
      (ts_token tab', (tab', store)))"

definition quota_left :: "local_storage \<Rightarrow> bool" where
  "quota_left ls = (ls_quota ls \<noteq> Some 0)"

definition use_quota :: "local_storage \<Rightarrow> local_storage" where
  "use_quota ls = ls\<lparr>ls_quota := map_option (\<lambda>n. n - 1) (ls_quota ls)\<rparr>"

text \<open>
  \<open>setAccessToken\<close>: the session and the message that is broadcast, if any. An exception on the way
  (no storage, no quota, \<open>toISOString\<close> of an invalid date) ends the block.
\<close>

definition setAccessToken ::
  "string option \<Rightarrow> js_date option \<Rightarrow> session \<Rightarrow> session \<times> (string \<times> js_date) option" where
  "setAccessToken token expiresAt s =
     (let tab = \<lparr>ts_token = token, ts_expires = expiresAt\<rparr> in
      case snd s of
        None \<Rightarrow> ((tab, None), None)
      | Some ls \<Rightarrow>
          (case (token, expiresAt) of
             (Some t, Some d) \<Rightarrow>
               if t = [] then ((tab, Some (ls\<lparr>ls_token := None, ls_expires := None\<rparr>)), None)
               else if \<not> quota_left ls then ((tab, Some ls), None)
               else
                 let ls1 = (use_quota ls)\<lparr>ls_token := Some t\<rparr> in
                 if d = Invalid_Date \<or> \<not> quota_left ls1 then ((tab, Some ls1), None)
                 else ((tab, Some ((use_quota ls1)\<lparr>ls_expires := Some d\<rparr>)), Some (t, d))
           | _ \<Rightarrow> ((tab, Some (ls\<lparr>ls_token := None, ls_expires := None\<rparr>)), None)))"

definition isTokenExpired :: "int \<Rightarrow> int \<Rightarrow> session \<Rightarrow> bool" where
  "isTokenExpired bufferMs now s =
     (case ts_expires (fst s) of
        None \<Rightarrow> True
      | Some (Date_ms t) \<Rightarrow> t - bufferMs \<le> now
      | Some Invalid_Date \<Rightarrow> False)"

definition hasStoredToken :: "session \<Rightarrow> bool" where
  "hasStoredToken s =
     (truthy (ts_token (fst s))
      \<or> (case snd s of None \<Rightarrow> False | Some ls \<Rightarrow> truthy (ls_token ls)))"

definition clearAccessToken :: "session \<Rightarrow> session" where
  "clearAccessToken s =
     (\<lparr>ts_token = None, ts_expires = None\<rparr>,
      map_option (\<lambda>ls. ls\<lparr>ls_token := None, ls_expires := None\<rparr>) (snd s))"

text \<open>The handler of the broadcast channel: another tab's token is adopted in memory only.\<close>

definition on_message :: "string \<times> js_date \<Rightarrow> token_state \<Rightarrow> token_state" where
  "on_message m tab =
     (if fst m \<noteq> [] then \<lparr>ts_token = Some (fst m), ts_expires = Some (snd m)\<rparr> else tab)"

section \<open>Tabs of one browser\<close>

text \<open>Each tab has its memory and the messages not yet delivered to it; the storage is shared.\<close>

record browser =
  br_tabs :: "(token_state \<times> (string \<times> js_date) list) list"
  br_store :: "local_storage option"

datatype tab_event =
    Set_Token nat "string option" "js_date option"
  | Clear_Token nat
  | Read_Token nat int
  | Deliver nat

definition in_session :: "nat \<Rightarrow> (session \<Rightarrow> session) \<Rightarrow> browser \<Rightarrow> browser" where
  "in_session i f b =
     (if i < length (br_tabs b)
      then let (tab, store) = f (fst (br_tabs b ! i), br_store b) in
           b\<lparr>br_tabs := (br_tabs b)[i := (tab, snd (br_tabs b ! i))], br_store := store\<rparr>
      else b)"

definition post :: "nat \<Rightarrow> string \<times> js_date \<Rightarrow> browser \<Rightarrow> browser" where
  "post i m b = b\<lparr>br_tabs := map (\<lambda>(j, tab, inbox). (tab, if j = i then inbox else inbox @ [m]))
                              (enumerate 0 (br_tabs b))\<rparr>"

definition tab_step :: "browser \<Rightarrow> tab_event \<Rightarrow> browser" where
  "tab_step b e =
     (case e of
        Set_Token i t d \<Rightarrow>
          (let b' = in_session i (\<lambda>s. fst (setAccessToken t d s)) b in
           if i < length (br_tabs b)
           then case snd (setAccessToken t d (fst (br_tabs b ! i), br_store b)) of
                  None \<Rightarrow> b' | Some m \<Rightarrow> post i m b'
           else b)
      | Clear_Token i \<Rightarrow> in_session i clearAccessToken b
      | Read_Token i now \<Rightarrow> in_session i (\<lambda>s. snd (getAccessToken now s)) b
      | Deliver i \<Rightarrow>
          if i < length (br_tabs b)
          then case br_tabs b ! i of
                 (tab, []) \<Rightarrow> b
               | (tab, m # inbox) \<Rightarrow> b\<lparr>br_tabs := (br_tabs b)[i := (on_message m tab, inbox)]\<rparr>
          else b)"

section \<open>The refresh manager\<close>

text \<open>
  \<open>createTokenRefreshManager\<close>. The promise is the number of its flight; \<open>rm_calls\<close> counts the calls of
  \<open>refreshFn\<close>, \<open>rm_settled\<close> holds the outcomes of the flights that ended, in order, and \<open>rm_waiting\<close>
  which flight each caller was given.
\<close>

datatype api_code = Unauthenticated | Internal | Other_code nat

datatype api_error = Connect_Error api_code | Other_error

record refresh_manager =
  rm_isRefreshing :: bool
  rm_promise :: "nat option"
  rm_calls :: nat
  rm_settled :: "(api_error + unit) list"
  rm_waiting :: "(nat \<times> nat) list"

datatype refresh_event = Refresh_Call nat | Settle "api_error + unit"

definition manager_init :: refresh_manager where
  "manager_init = \<lparr>rm_isRefreshing = False, rm_promise = None, rm_calls = 0, rm_settled = [], rm_waiting = []\<rparr>"

definition manager_step :: "refresh_manager \<Rightarrow> refresh_event \<Rightarrow> refresh_manager" where
  "manager_step m e =
     (case e of
        Refresh_Call caller \<Rightarrow>
          (case (rm_isRefreshing m, rm_promise m) of
             (True, Some p) \<Rightarrow> m\<lparr>rm_waiting := rm_waiting m @ [(caller, p)]\<rparr>
           | _ \<Rightarrow> m\<lparr>rm_isRefreshing := True, rm_promise := Some (rm_calls m), rm_calls := rm_calls m + 1,
                     rm_waiting := rm_waiting m @ [(caller, rm_calls m)]\<rparr>)
      | Settle r \<Rightarrow>
          (case rm_promise m of
             None \<Rightarrow> m
           | Some _ \<Rightarrow> m\<lparr>rm_isRefreshing := False, rm_promise := None, rm_settled := rm_settled m @ [r]\<rparr>))"

definition manager_inv :: "refresh_manager \<Rightarrow> bool" where
  "manager_inv m =
     (rm_isRefreshing m = (rm_promise m \<noteq> None)
      \<and> (case rm_promise m of None \<Rightarrow> rm_calls m = length (rm_settled m)
         | Some p \<Rightarrow> p = length (rm_settled m) \<and> rm_calls m = Suc p)
      \<and> list_all (\<lambda>(c, p). p < rm_calls m) (rm_waiting m))"

lemma manager_step_inv: "manager_inv m \<Longrightarrow> manager_inv (manager_step m e)"
  by (cases e) (auto simp: manager_inv_def manager_step_def list_all_iff split: option.splits bool.splits)

interpretation refresh_runs: machine manager_step manager_inv
  by unfold_locales (rule manager_step_inv)

section \<open>The interceptor\<close>

record request_headers =
  rh_authorization :: "string option"
  rh_retry :: "string option"

datatype net_event = Refresh_Sent | Sent request_headers | Redirected string

record net =
  n_now :: int
  n_session :: session
  n_log :: "net_event list"

text \<open>
  The surroundings of a request, by the number of the event: what a refresh and a request answer, and
  what happens to the clock and the session while the answer is awaited.
\<close>

record 'r net_env =
  env_refresh :: "nat \<Rightarrow> api_error + (string \<times> js_date option)"
  env_next :: "nat \<Rightarrow> request_headers \<Rightarrow> api_error + 'r"
  env_meanwhile :: "nat \<Rightarrow> int \<times> session \<Rightarrow> int \<times> session"
  env_location :: window_location

definition RETRY_HEADER_VALUE :: string where
  "RETRY_HEADER_VALUE = ''true''"

definition await :: "'r net_env \<Rightarrow> net_event \<Rightarrow> net \<Rightarrow> net" where
  "await env e n =
     (let (now, s) = env_meanwhile env (length (n_log n)) (n_now n, n_session n) in
      \<lparr>n_now = now, n_session = s, n_log = n_log n @ [e]\<rparr>)"

definition doRefreshAccessToken :: "'r net_env \<Rightarrow> net \<Rightarrow> (api_error + unit) \<times> net" where
  "doRefreshAccessToken env n =
     (let n' = await env Refresh_Sent n in
      case env_refresh env (length (n_log n)) of
        Inl e \<Rightarrow> (Inl e, n')
      | Inr (token, expiresAt) \<Rightarrow>
          if token = [] then (Inl (Connect_Error Internal), n')
          else (Inr (), n'\<lparr>n_session := fst (setAccessToken (Some token) expiresAt (n_session n'))\<rparr>))"

definition setAuthorizationHeader :: "string option \<Rightarrow> request_headers \<Rightarrow> request_headers" where
  "setAuthorizationHeader token req =
     (if truthy token then req\<lparr>rh_authorization := Some (''Bearer '' @ the token)\<rparr> else req)"

definition shouldHandleUnauthenticatedRetry :: "api_error \<Rightarrow> bool \<Rightarrow> bool" where
  "shouldHandleUnauthenticatedRetry err isRetryAttempt =
     (case err of
        Other_error \<Rightarrow> False
      | Connect_Error code \<Rightarrow>
          if code \<noteq> Unauthenticated then False else if isRetryAttempt then False else True)"

definition read_token :: "net \<Rightarrow> string option \<times> net" where
  "read_token n =
     (let (t, s) = getAccessToken (n_now n) (n_session n) in (t, n\<lparr>n_session := s\<rparr>))"

definition refreshAndGetAccessToken :: "'r net_env \<Rightarrow> net \<Rightarrow> (api_error + string) \<times> net" where
  "refreshAndGetAccessToken env n =
     (case doRefreshAccessToken env n of
        (Inl e, n1) \<Rightarrow> (Inl e, n1)
      | (Inr _, n1) \<Rightarrow>
          (let (token, n2) = read_token n1 in
           if truthy token then (Inr (the token), n2) else (Inl (Connect_Error Internal), n2)))"

definition getRequestToken :: "'r net_env \<Rightarrow> net \<Rightarrow> string option \<times> net" where
  "getRequestToken env n =
     (let (token, n1) = read_token n in
      if \<not> truthy token then
        (if \<not> hasStoredToken (n_session n1) then (None, n1)
         else case refreshAndGetAccessToken env n1 of
                (Inl _, n2) \<Rightarrow> (None, n2)
              | (Inr t, n2) \<Rightarrow> (Some t, n2))
      else if isTokenExpired REQUEST_TOKEN_EXPIRY_BUFFER_MS (n_now n1) (n_session n1) then
        (case refreshAndGetAccessToken env n1 of
           (Inl _, n2) \<Rightarrow> (token, n2)
         | (Inr t, n2) \<Rightarrow> (Some t, n2))
      else (token, n1))"

definition send :: "'r net_env \<Rightarrow> request_headers \<Rightarrow> net \<Rightarrow> (api_error + 'r) \<times> net" where
  "send env req n = (env_next env (length (n_log n)) req, await env (Sent req) n)"

definition redirect_on_failure :: "'r net_env \<Rightarrow> net \<Rightarrow> net" where
  "redirect_on_failure env n =
     (case redirectOnAuthFailure False None None (env_location env) of
        None \<Rightarrow> n
      | Some url \<Rightarrow> n\<lparr>n_session := clearAccessToken (n_session n), n_log := n_log n @ [Redirected url]\<rparr>)"

definition retry_request :: "'r net_env \<Rightarrow> request_headers \<Rightarrow> net \<Rightarrow> (api_error + 'r) \<times> net" where
  "retry_request env req n =
     (case refreshAndGetAccessToken env n of
        (Inl e, n1) \<Rightarrow> (Inl e, redirect_on_failure env n1)
      | (Inr newToken, n1) \<Rightarrow>
          (case send env ((setAuthorizationHeader (Some newToken) req)\<lparr>rh_retry := Some RETRY_HEADER_VALUE\<rparr>) n1 of
             (Inl e, n2) \<Rightarrow> (Inl e, redirect_on_failure env n2)
           | (Inr r, n2) \<Rightarrow> (Inr r, n2)))"

definition authInterceptor :: "'r net_env \<Rightarrow> request_headers \<Rightarrow> net \<Rightarrow> (api_error + 'r) \<times> net" where
  "authInterceptor env req n =
     (let isRetryAttempt = (rh_retry req = Some RETRY_HEADER_VALUE);
          (token, n1) = getRequestToken env n;
          req1 = setAuthorizationHeader token req in
      case send env req1 n1 of
        (Inr r, n2) \<Rightarrow> (Inr r, n2)
      | (Inl e, n2) \<Rightarrow>
          if \<not> shouldHandleUnauthenticatedRetry e isRetryAttempt then (Inl e, n2)
          else retry_request env req1 n2)"

text \<open>\<open>useTokenRefreshOnFocus\<close>: the handler of a change of visibility; a failed refresh is dropped.\<close>

definition handleVisibilityChange :: "'r net_env \<Rightarrow> bool \<Rightarrow> net \<Rightarrow> net" where
  "handleVisibilityChange env visible n =
     (if \<not> visible then n
      else if \<not> hasStoredToken (n_session n) then n
      else if isTokenExpired FOCUS_TOKEN_EXPIRY_BUFFER_MS (n_now n) (n_session n)
           then snd (doRefreshAccessToken env n)
      else n)"

text \<open>The retry rule of the query client.\<close>

definition shouldRetry :: "nat \<Rightarrow> api_error \<Rightarrow> bool" where
  "shouldRetry failureCount err = (if err = Connect_Error Unauthenticated then False else failureCount < 1)"

section \<open>What each step adds to the log\<close>

named_theorems net_log \<open>the events each step of the interceptor adds\<close>

lemma await_log [net_log]: "n_log (await env e n) = n_log n @ [e]"
  by (simp add: await_def split: prod.splits)

lemma send_log [net_log]: "send env req n = (r, n') \<Longrightarrow> n_log n' = n_log n @ [Sent req]"
  by (auto simp: send_def await_log)

lemma doRefresh_log: "doRefreshAccessToken env n = (r, n') \<Longrightarrow> n_log n' = n_log n @ [Refresh_Sent]"
  by (auto simp: doRefreshAccessToken_def Let_def await_log split: sum.splits prod.splits if_splits)

lemma read_token_log: "read_token n = (t, n') \<Longrightarrow> n_log n' = n_log n"
  by (auto simp: read_token_def split: prod.splits)

lemma refreshAnd_log:
  "refreshAndGetAccessToken env n = (r, n') \<Longrightarrow> n_log n' = n_log n @ [Refresh_Sent]"
  by (auto simp: refreshAndGetAccessToken_def dest!: doRefresh_log read_token_log
      split: prod.splits sum.splits if_splits)

lemma refreshAnd_token: "refreshAndGetAccessToken env n = (Inr t, n') \<Longrightarrow> t \<noteq> []"
  by (auto simp: refreshAndGetAccessToken_def truthy_def split: prod.splits sum.splits if_splits option.splits)

lemma getRequestToken_log:
  "getRequestToken env n = (t, n') \<Longrightarrow> n_log n' = n_log n \<or> n_log n' = n_log n @ [Refresh_Sent]"
  by (auto simp: getRequestToken_def dest!: read_token_log refreshAnd_log
      split: prod.splits sum.splits if_splits)

lemma redirect_log:
  "n_log (redirect_on_failure env n) = n_log n @
     (case redirectOnAuthFailure False None None (env_location env) of None \<Rightarrow> [] | Some u \<Rightarrow> [Redirected u])"
  by (simp add: redirect_on_failure_def split: option.splits)

text \<open>A refresh with its answer: the token it leaves in memory is the one it was answered.\<close>

lemma refreshAnd_answer:
  "refreshAndGetAccessToken env n = (q, n') \<Longrightarrow>
   q = (case env_refresh env (length (n_log n)) of
          Inl e \<Rightarrow> Inl e
        | Inr (t, _) \<Rightarrow> if t = [] then Inl (Connect_Error Internal) else Inr t)"
  by (auto simp: refreshAndGetAccessToken_def doRefreshAccessToken_def read_token_def setAccessToken_def
      getAccessToken_def truthy_def Let_def await_def split: sum.splits prod.splits if_splits option.splits)

lemma set_no_token: "\<not> truthy t \<Longrightarrow> setAuthorizationHeader t req = req" "setAuthorizationHeader None req = req"
  by (simp_all add: setAuthorizationHeader_def truthy_def)

lemma getRequestToken_trail:
  assumes "getRequestToken env n = (token, n')"
  shows "\<exists>pre. n_log n' = n_log n @ pre
    \<and> (pre = [] \<and> setAuthorizationHeader token req = setAuthorizationHeader (fst (read_token n)) req
       \<or> pre = [Refresh_Sent] \<and> setAuthorizationHeader token req = setAuthorizationHeader
           (case env_refresh env (length (n_log n)) of
              Inl _ \<Rightarrow> fst (read_token n)
            | Inr (t, _) \<Rightarrow> if t = [] then fst (read_token n) else Some t) req)"
proof -
  obtain t n1 where r: "read_token n = (t, n1)" by (cases "read_token n")
  obtain q n2 where q: "refreshAndGetAccessToken env n1 = (q, n2)" by (cases "refreshAndGetAccessToken env n1")
  have l: "n_log n1 = n_log n" by (rule read_token_log [OF r])
  have l2: "n_log n2 = n_log n @ [Refresh_Sent]" using refreshAnd_log [OF q] l by simp
  note a = refreshAnd_answer [OF q, unfolded l]
  show ?thesis
    using assms l l2 a
    by (auto simp: getRequestToken_def r q set_no_token split: if_splits sum.splits prod.splits)
qed

definition failure_redirect :: "'r net_env \<Rightarrow> net_event list" where
  "failure_redirect env =
     (case redirectOnAuthFailure False None None (env_location env) of None \<Rightarrow> [] | Some u \<Rightarrow> [Redirected u])"

definition retried :: "string \<Rightarrow> request_headers" where
  "retried t = \<lparr>rh_authorization = Some (''Bearer '' @ t), rh_retry = Some ''true''\<rparr>"

lemma retried_header:
  "t \<noteq> [] \<Longrightarrow> (setAuthorizationHeader (Some t) h)\<lparr>rh_retry := Some RETRY_HEADER_VALUE\<rparr> = retried t"
  by (simp add: setAuthorizationHeader_def truthy_def retried_def RETRY_HEADER_VALUE_def)

lemma retry_request_trail:
  assumes "retry_request env h n = (r, n')"
  shows "\<exists>rest. n_log n' = n_log n @ rest \<and> (case env_refresh env (length (n_log n)) of
              Inl e \<Rightarrow> r = Inl e \<and> rest = Refresh_Sent # failure_redirect env
            | Inr (t, _) \<Rightarrow>
                if t = [] then r = Inl (Connect_Error Internal) \<and> rest = Refresh_Sent # failure_redirect env
                else r = env_next env (length (n_log n) + 1) (retried t)
                  \<and> rest = Refresh_Sent # Sent (retried t) # (case r of Inl _ \<Rightarrow> failure_redirect env | Inr _ \<Rightarrow> []))"
proof -
  obtain q n1 where q: "refreshAndGetAccessToken env n = (q, n1)" by (cases "refreshAndGetAccessToken env n")
  have l: "n_log n1 = n_log n @ [Refresh_Sent]" by (rule refreshAnd_log [OF q])
  note a = refreshAnd_answer [OF q]
  show ?thesis
  proof (cases q)
    case (Inl e)
    then show ?thesis
      using assms a l
      by (auto simp: retry_request_def q redirect_log failure_redirect_def
          split: sum.splits prod.splits if_splits)
  next
    case (Inr t)
    then obtain d where d: "env_refresh env (length (n_log n)) = Inr (t, d)" and t: "t \<noteq> []"
      using a by (auto split: sum.splits prod.splits if_splits)
    obtain r2 n2 where s: "send env (retried t) n1 = (r2, n2)" by (cases "send env (retried t) n1")
    have l2: "n_log n2 = n_log n @ [Refresh_Sent, Sent (retried t)]" using send_log [OF s] l by simp
    have r2: "r2 = env_next env (length (n_log n) + 1) (retried t)" using s l by (simp add: send_def)
    show ?thesis
      using assms l2 t
      by (auto simp: retry_request_def q Inr retried_header s d redirect_log failure_redirect_def r2 [symmetric]
          simp del: One_nat_def split: sum.splits)
  qed
qed

section \<open>Tabs: lemmas\<close>

definition quiet :: "token_state list \<Rightarrow> local_storage \<Rightarrow> browser" where
  "quiet tabs ls = \<lparr>br_tabs = map (\<lambda>t. (t, [])) tabs, br_store = Some ls\<rparr>"

lemma set_token_posts:
  assumes "i < length tabs" and "t \<noteq> []" and "ls_quota ls = None"
  shows "tab_step (quiet tabs ls) (Set_Token i (Some t) (Some (Date_ms d))) =
    \<lparr>br_tabs = map (\<lambda>j. if j = i then (\<lparr>ts_token = Some t, ts_expires = Some (Date_ms d)\<rparr>, [])
                        else (tabs ! j, [(t, Date_ms d)])) [0..<length tabs],
     br_store = Some (ls\<lparr>ls_token := Some t, ls_expires := Some (Date_ms d)\<rparr>)\<rparr>"
  using assms
  by (auto simp: tab_step_def in_session_def post_def quiet_def setAccessToken_def quota_left_def use_quota_def
      Let_def enumerate_eq_zip nth_list_update intro!: nth_equalityI)

lemma deliver_one:
  "k < length (br_tabs b) \<Longrightarrow> br_tabs (tab_step b (Deliver k)) =
     (br_tabs b)[k := (case br_tabs b ! k of (tab, []) \<Rightarrow> (tab, []) | (tab, m # r) \<Rightarrow> (on_message m tab, r))]"
  using list_update_id [of "br_tabs b" k]
  by (auto simp: tab_step_def simp del: list_update_id split: prod.splits list.splits)

lemma deliver_store: "br_store (tab_step b (Deliver k)) = br_store b"
  by (auto simp: tab_step_def split: prod.splits list.splits)

lemma deliver_all:
  "n \<le> length (br_tabs b) \<Longrightarrow>
   br_store (foldl tab_step b (map Deliver [0..<n])) = br_store b
   \<and> br_tabs (foldl tab_step b (map Deliver [0..<n])) =
     map (\<lambda>j. if j < n then (case br_tabs b ! j of (tab, []) \<Rightarrow> (tab, []) | (tab, m # r) \<Rightarrow> (on_message m tab, r))
              else br_tabs b ! j) [0..<length (br_tabs b)]"
proof (induction n)
  case 0
  show ?case by (simp add: map_nth)
next
  case (Suc n)
  then show ?case
    by (auto simp: deliver_one deliver_store nth_list_update less_Suc_eq intro!: nth_equalityI)
qed

section \<open>Properties\<close>

text \<open>
  C4: what a request does. It sends at most one refresh first, then the request once: with the token
  that refresh answered, or, without one, with the token held before. A second time the request goes
  out only when the first answer was Unauthenticated, the request was no retry itself, and a second
  refresh was answered with a token; it then carries exactly that token and the retry mark. When that
  refresh fails, or its answer has no token, nothing is sent again and the error of the refresh is the
  result. The result is else the answer of the last send; on a failure of the second attempt, and only
  then, the page is redirected. (A refresh that joins one under way counts with that one's answer.)
\<close>

theorem interceptor_trail:
  "let (r, n') = authInterceptor env req n;
       redirect = (case redirectOnAuthFailure False None None (env_location env) of
                     None \<Rightarrow> [] | Some u \<Rightarrow> [Redirected u]);
       old = fst (read_token n);
       renewed = (case env_refresh env (length (n_log n)) of
                    Inl _ \<Rightarrow> old | Inr (t, _) \<Rightarrow> if t = [] then old else Some t) in
   \<exists>pre h rest. n_log n' = n_log n @ pre @ Sent h # rest
     \<and> (pre = [] \<and> h = setAuthorizationHeader old req
        \<or> pre = [Refresh_Sent] \<and> h = setAuthorizationHeader renewed req)
     \<and> (let answer = env_next env (length (n_log n @ pre)) h in
        if answer = Inl (Connect_Error Unauthenticated) \<and> rh_retry req \<noteq> Some ''true''
        then case env_refresh env (length (n_log n @ pre) + 1) of
               Inl e \<Rightarrow> r = Inl e \<and> rest = Refresh_Sent # redirect
             | Inr (t, _) \<Rightarrow>
                 if t = [] then r = Inl (Connect_Error Internal) \<and> rest = Refresh_Sent # redirect
                 else let h2 = \<lparr>rh_authorization = Some (''Bearer '' @ t), rh_retry = Some ''true''\<rparr> in
                   r = env_next env (length (n_log n @ pre) + 2) h2
                   \<and> rest = Refresh_Sent # Sent h2 # (case r of Inl _ \<Rightarrow> redirect | Inr _ \<Rightarrow> [])
        else r = answer \<and> rest = [])"
proof -
  obtain token n1 where g: "getRequestToken env n = (token, n1)" by (cases "getRequestToken env n")
  define h where "h = setAuthorizationHeader token req"
  define renewed where "renewed = (case env_refresh env (length (n_log n)) of
      Inl _ \<Rightarrow> fst (read_token n) | Inr (t, _) \<Rightarrow> if t = [] then fst (read_token n) else Some t)"
  obtain pre where pre: "n_log n1 = n_log n @ pre"
      "pre = [] \<and> h = setAuthorizationHeader (fst (read_token n)) req
       \<or> pre = [Refresh_Sent] \<and> h = setAuthorizationHeader renewed req"
    using getRequestToken_trail [OF g, of req] unfolding h_def renewed_def by blast
  define answer where "answer = env_next env (length (n_log n @ pre)) h"
  define n2 where "n2 = await env (Sent h) n1"
  have s: "send env h n1 = (answer, n2)" by (simp add: send_def answer_def n2_def pre)
  have n2: "n_log n2 = n_log n @ pre @ [Sent h]" by (simp add: n2_def await_log pre)
  have answer_eq: "env_next env (length (n_log n) + length pre) h = answer" by (simp add: answer_def)
  have trail: "?thesis" if "authInterceptor env req n = (r, n')" "n_log n' = n_log n @ pre @ Sent h # rest"
      "if answer = Inl (Connect_Error Unauthenticated) \<and> rh_retry req \<noteq> Some ''true''
       then case env_refresh env (length (n_log n2)) of
              Inl e \<Rightarrow> r = Inl e \<and> rest = Refresh_Sent # failure_redirect env
            | Inr (t, _) \<Rightarrow>
                if t = [] then r = Inl (Connect_Error Internal) \<and> rest = Refresh_Sent # failure_redirect env
                else r = env_next env (length (n_log n2) + 1) (retried t)
                  \<and> rest = Refresh_Sent # Sent (retried t) # (case r of Inl _ \<Rightarrow> failure_redirect env | Inr _ \<Rightarrow> [])
       else r = answer \<and> rest = []" for r n' rest
    unfolding that(1) Let_def prod.case
    by (rule exI [of _ pre], rule exI [of _ h], rule exI [of _ rest])
       (use that(2,3) pre(2) in \<open>simp add: renewed_def answer_eq n2 failure_redirect_def
          retried_def split del: if_split cong: if_cong sum.case_cong\<close>)
  show ?thesis
  proof (cases "answer = Inl (Connect_Error Unauthenticated) \<and> rh_retry req \<noteq> Some ''true''")
    case False
    then have i: "authInterceptor env req n = (answer, n2)"
      by (auto simp: authInterceptor_def g h_def [symmetric] s RETRY_HEADER_VALUE_def
          shouldHandleUnauthenticatedRetry_def split: sum.splits api_error.splits)
    show ?thesis by (rule trail [OF i, of "[]"]) (use False in \<open>auto simp: n2\<close>)
  next
    case True
    then have i: "authInterceptor env req n = retry_request env h n2"
      by (simp add: authInterceptor_def g h_def [symmetric] s RETRY_HEADER_VALUE_def
          shouldHandleUnauthenticatedRetry_def)
    obtain r n' where r: "retry_request env h n2 = (r, n')" by (cases "retry_request env h n2")
    obtain rest where rest: "n_log n' = n_log n2 @ rest" "case env_refresh env (length (n_log n2)) of
              Inl e \<Rightarrow> r = Inl e \<and> rest = Refresh_Sent # failure_redirect env
            | Inr (t, _) \<Rightarrow>
                if t = [] then r = Inl (Connect_Error Internal) \<and> rest = Refresh_Sent # failure_redirect env
                else r = env_next env (length (n_log n2) + 1) (retried t)
                  \<and> rest = Refresh_Sent # Sent (retried t) # (case r of Inl _ \<Rightarrow> failure_redirect env | Inr _ \<Rightarrow> [])"
      using retry_request_trail [OF r] by blast
    show ?thesis by (rule trail [OF i [unfolded r], of rest]) (use True rest n2 in simp_all)
  qed
qed

text \<open>
  when no refresh is awaited before a request, its token is the one in memory and is valid for at
  least another 30 seconds; without a token it goes out only if none was ever stored.
\<close>

theorem preflight_fresh:
  "let (token, n') = getRequestToken env n in
   if n_log n' = n_log n
   then (case token of
           None \<Rightarrow> \<not> hasStoredToken (n_session n')
         | Some t \<Rightarrow> t \<noteq> [] \<and> ts_token (fst (n_session n')) = Some t
             \<and> \<not> isTokenExpired 30000 (n_now n') (n_session n'))
   else n_log n' = n_log n @ [Refresh_Sent]"
proof -
  obtain t n1 where r: "read_token n = (t, n1)" by (cases "read_token n")
  have tok: "ts_token (fst (n_session n1)) = t"
    using r by (auto simp: read_token_def getAccessToken_def Let_def split: prod.splits)
  have l: "n_log n1 = n_log n" by (rule read_token_log [OF r])
  obtain q n2 where q: "refreshAndGetAccessToken env n1 = (q, n2)" by (cases "refreshAndGetAccessToken env n1")
  have l2: "n_log n2 = n_log n @ [Refresh_Sent]" using refreshAnd_log [OF q] l by simp
  have b: "REQUEST_TOKEN_EXPIRY_BUFFER_MS = 30000" by (simp add: REQUEST_TOKEN_EXPIRY_BUFFER_MS_def)
  show ?thesis
    using tok l l2 by (cases t; cases q) (auto simp: getRequestToken_def r q b truthy_def Let_def)
qed

text \<open>
  at most one refresh is under way. Whatever calls and answers came before, the number of refresh
  requests exceeds the number of answers by one exactly while one is under way; two calls with no
  answer between them share one request, both get its outcome, and the answer frees the manager.
\<close>

theorem single_flight:
  "let m = foldl manager_step manager_init es;
       m2 = manager_step (manager_step m (Refresh_Call a)) (Refresh_Call b);
       m3 = manager_step m2 (Settle r);
       p = length (rm_settled m) in
   rm_calls m = p + (if rm_isRefreshing m then 1 else 0)
   \<and> rm_waiting m2 = rm_waiting m @ [(a, p), (b, p)] \<and> rm_calls m2 = p + 1
   \<and> rm_settled m3 = rm_settled m @ [r] \<and> \<not> rm_isRefreshing m3 \<and> rm_calls m3 = p + 1"
proof -
  have "manager_inv (foldl manager_step manager_init es)"
    by (rule refresh_runs.run_inv) (simp add: manager_inv_def manager_init_def)
  then show ?thesis
    by (cases "rm_promise (foldl manager_step manager_init es)")
       (auto simp: Let_def manager_inv_def manager_step_def)
qed

text \<open>
  a token one tab gets reaches every tab: once the messages are delivered all tabs hold it, with
  its expiry. Signing out in one tab clears the storage and that tab only; the others keep the token
  in memory and go on using it.
\<close>

theorem token_shared:
  assumes "i < length tabs" and "t \<noteq> []" and "ls_quota ls = None"
  shows "let b = foldl tab_step (quiet tabs ls)
                  (Set_Token i (Some t) (Some (Date_ms d)) # map Deliver [0..<length tabs]);
             new = (\<lparr>ts_token = Some t, ts_expires = Some (Date_ms d)\<rparr>, []) in
         br_tabs b = replicate (length tabs) new
         \<and> br_tabs (tab_step b (Clear_Token i)) =
             (replicate (length tabs) new)[i := (\<lparr>ts_token = None, ts_expires = None\<rparr>, [])]
         \<and> br_store (tab_step b (Clear_Token i)) = Some (ls\<lparr>ls_token := None, ls_expires := None\<rparr>)"
proof -
  define b0 where "b0 = tab_step (quiet tabs ls) (Set_Token i (Some t) (Some (Date_ms d)))"
  define b where "b = foldl tab_step b0 (map Deliver [0..<length tabs])"
  define new where "new = (\<lparr>ts_token = Some t, ts_expires = Some (Date_ms d)\<rparr>, [] :: (string \<times> js_date) list)"
  note b0 = set_token_posts [OF assms, of d, folded b0_def]
  have l: "length (br_tabs b0) = length tabs" by (simp add: b0)
  have "br_tabs b = replicate (length tabs) new"
    using deliver_all [of "length tabs" b0] assms(2)
    by (auto simp: b_def b0 on_message_def new_def intro!: nth_equalityI)
  moreover have "br_store b = Some (ls\<lparr>ls_token := Some t, ls_expires := Some (Date_ms d)\<rparr>)"
    using deliver_all [of "length tabs" b0] by (simp add: b_def b0)
  ultimately have "br_tabs (tab_step b (Clear_Token i)) =
             (replicate (length tabs) new)[i := (\<lparr>ts_token = None, ts_expires = None\<rparr>, [])]
         \<and> br_store (tab_step b (Clear_Token i)) = Some (ls\<lparr>ls_token := None, ls_expires := None\<rparr>)"
    using assms(1) by (simp add: tab_step_def in_session_def clearAccessToken_def) (simp add: new_def)
  with \<open>br_tabs b = _\<close> show ?thesis
    unfolding Let_def foldl_Cons b0_def [symmetric] b_def [symmetric] new_def [symmetric] by simp
qed

theorem token_shared_witness:
  "br_tabs (foldl tab_step (quiet [\<lparr>ts_token = None, ts_expires = None\<rparr>, \<lparr>ts_token = Some ''old'', ts_expires = None\<rparr>]
       \<lparr>ls_token = None, ls_expires = None, ls_quota = None\<rparr>)
     (Set_Token 0 (Some ''new'') (Some (Date_ms 9)) # map Deliver [0..<2])) =
   replicate 2 (\<lparr>ts_token = Some ''new'', ts_expires = Some (Date_ms 9)\<rparr>, [])"
  using token_shared [of 0 "[\<lparr>ts_token = None, ts_expires = None\<rparr>, \<lparr>ts_token = Some ''old'', ts_expires = None\<rparr>]"
      "''new''" "\<lparr>ls_token = None, ls_expires = None, ls_quota = None\<rparr>" 9]
  by (simp add: Let_def numeral_2_eq_2)

end
