(* ===== verification/Queries.thy ===== *)
theory Queries
  imports MemoService
begin

text \<open>
  The query cache as the memo hooks use it (\<^verbatim>\<open>hooks/useMemoQueries.ts\<close>): keys, the patch of a
  memo in the cached lists, and the mutations with their optimistic update and rollback. The query
  client is a library: its operations are an argument of the definitions, and the locale states the
  documented behaviour the hooks rely on.
\<close>

section \<open>Keys and data\<close>

record list_request =
  lr_pageSize :: "int option"
  lr_pageToken :: "string option"
  lr_state :: "memo_state option"
  lr_orderBy :: "string option"
  lr_filter :: "string option"
  lr_showDeleted :: "bool option"

datatype key_part = Key string | Key_Num int | Key_Request list_request | Key_Json json

type_synonym query_key = "key_part list"

definition memoKeys_all :: query_key where
  "memoKeys_all = [Key ''memos'']"

definition memoKeys_lists :: query_key where
  "memoKeys_lists = memoKeys_all @ [Key ''list'']"

definition memoKeys_list :: "list_request \<Rightarrow> query_key" where
  "memoKeys_list filters = memoKeys_lists @ [Key_Request filters]"

definition memoKeys_details :: query_key where
  "memoKeys_details = memoKeys_all @ [Key ''detail'']"

definition memoKeys_detail :: "string \<Rightarrow> query_key" where
  "memoKeys_detail name = memoKeys_details @ [Key name]"

definition memoKeys_comments :: "string \<Rightarrow> query_key" where
  "memoKeys_comments name = memoKeys_all @ [Key ''comments'', Key name]"

definition memoKeys_linkMetadata :: "string \<Rightarrow> query_key" where
  "memoKeys_linkMetadata url = memoKeys_all @ [Key ''linkMetadata'', Key url]"

definition userKeys_all :: query_key where
  "userKeys_all = [Key ''users'']"

definition userKeys_stats :: query_key where
  "userKeys_stats = userKeys_all @ [Key ''stats'']"

text \<open>
  The answer to a list of memos or of comments (which has a total), the pages of an infinite query
  with their page parameters, a single memo, and any other data.
\<close>

record memo_list =
  ml_memos :: "memo list"
  ml_nextPageToken :: string
  ml_totalSize :: "int option"

datatype query_data =
    List_Data memo_list
  | Pages_Data "memo_list list" "string list"
  | Memo_Data memo
  | User_Data user
  | Other_Data string

section \<open>Patching the cached lists\<close>

definition patchMemoListResponse :: "memo_list \<Rightarrow> memo_patch \<Rightarrow> memo_list" where
  "patchMemoListResponse response update =
     (let changed = list_ex (\<lambda>memo. Some (m_name memo) = p_name update) (ml_memos response);
          memos = map (\<lambda>memo. if Some (m_name memo) \<noteq> p_name update then memo else spread_memo memo update)
                    (ml_memos response) in
      if changed then response\<lparr>ml_memos := memos\<rparr> else response)"

definition patchMemoListQueryData :: "query_data option \<Rightarrow> memo_patch \<Rightarrow> query_data option" where
  "patchMemoListQueryData data update =
     (case data of
        None \<Rightarrow> None
      | Some (List_Data response) \<Rightarrow> Some (List_Data (patchMemoListResponse response update))
      | Some (Pages_Data pages params) \<Rightarrow>
          (let patched = map (\<lambda>page. patchMemoListResponse page update) pages;
               changed = list_ex (\<lambda>(a, b). a \<noteq> b) (zip patched pages) in
           Some (if changed then Pages_Data patched params else Pages_Data pages params))
      | Some d \<Rightarrow> Some d)"

definition findMemoInListResponse :: "memo_list \<Rightarrow> string \<Rightarrow> memo option" where
  "findMemoInListResponse response name = find (\<lambda>memo. m_name memo = name) (ml_memos response)"

fun first_some :: "('a \<Rightarrow> 'b option) \<Rightarrow> 'a list \<Rightarrow> 'b option" where
  "first_some f [] = None"
| "first_some f (x # xs) = (case f x of Some y \<Rightarrow> Some y | None \<Rightarrow> first_some f xs)"

definition findMemoInQueryData :: "query_data option \<Rightarrow> string \<Rightarrow> memo option" where
  "findMemoInQueryData data name =
     (case data of
        None \<Rightarrow> None
      | Some (List_Data response) \<Rightarrow> findMemoInListResponse response name
      | Some (Pages_Data pages _) \<Rightarrow> first_some (\<lambda>page. findMemoInListResponse page name) pages
      | Some _ \<Rightarrow> None)"

section \<open>The query client\<close>

text \<open>
  The calls of the query client: \<open>getQueryData\<close>, \<open>getQueriesData\<close>, \<open>setQueryData\<close>,
  \<open>setQueriesData\<close>, \<open>invalidateQueries\<close>, \<open>removeQueries\<close> and \<open>cancelQueries\<close>, the last five and
  \<open>getQueriesData\<close> on the keys with a given prefix.
\<close>

record 'q query_client =
  qc_get :: "query_key \<Rightarrow> 'q \<Rightarrow> query_data option"
  qc_entries :: "query_key \<Rightarrow> 'q \<Rightarrow> (query_key \<times> query_data option) list"
  qc_set :: "query_key \<Rightarrow> query_data \<Rightarrow> 'q \<Rightarrow> 'q"
  qc_update :: "query_key \<Rightarrow> (query_data option \<Rightarrow> query_data option) \<Rightarrow> 'q \<Rightarrow> 'q"
  qc_invalidate :: "query_key \<Rightarrow> 'q \<Rightarrow> 'q"
  qc_remove :: "query_key \<Rightarrow> 'q \<Rightarrow> 'q"
  qc_cancel :: "query_key \<Rightarrow> 'q \<Rightarrow> 'q"

definition has_prefix :: "query_key \<Rightarrow> query_key \<Rightarrow> bool" where
  "has_prefix p k = (take (length p) k = p)"

definition findMemoInCollectionQueries :: "'q query_client \<Rightarrow> string \<Rightarrow> 'q \<Rightarrow> memo option" where
  "findMemoInCollectionQueries qc name q =
     first_some (\<lambda>(_, data). findMemoInQueryData data name) (qc_entries qc memoKeys_all q)"

definition patchMemoInCollectionQueries :: "'q query_client \<Rightarrow> memo_patch \<Rightarrow> 'q \<Rightarrow> 'q" where
  "patchMemoInCollectionQueries qc update q =
     qc_update qc memoKeys_all (\<lambda>data. patchMemoListQueryData data update) q"

section \<open>Mutations\<close>

definition create_onSuccess :: "'q query_client \<Rightarrow> memo \<Rightarrow> 'q \<Rightarrow> 'q" where
  "create_onSuccess qc newMemo q =
     (let q1 = qc_invalidate qc memoKeys_lists q;
          q2 = qc_set qc (memoKeys_detail (m_name newMemo)) (Memo_Data newMemo) q1 in
      qc_invalidate qc userKeys_stats q2)"

text \<open>
  \<open>onMutate\<close> of an update: its context is the memo before the update, if one is known. A detail query
  holds a memo.
\<close>

definition update_onMutate :: "'q query_client \<Rightarrow> memo_patch \<Rightarrow> 'q \<Rightarrow> memo option \<times> 'q" where
  "update_onMutate qc update q =
     (case p_name update of
        None \<Rightarrow> (None, q)
      | Some name \<Rightarrow>
          if name = [] then (None, q)
          else
            (let q1 = qc_cancel qc memoKeys_all q;
                 previousMemo = (case qc_get qc (memoKeys_detail name) q1 of
                    Some (Memo_Data m) \<Rightarrow> Some m
                  | _ \<Rightarrow> findMemoInCollectionQueries qc name q1);
                 memoPatch = update\<lparr>p_name := Some name\<rparr>;
                 q2 = (case previousMemo of
                    None \<Rightarrow> q1
                  | Some m \<Rightarrow> qc_set qc (memoKeys_detail name) (Memo_Data (spread_memo m memoPatch)) q1) in
             (previousMemo, patchMemoInCollectionQueries qc memoPatch q2)))"

definition update_onError :: "'q query_client \<Rightarrow> memo_patch \<Rightarrow> memo option \<Rightarrow> 'q \<Rightarrow> 'q" where
  "update_onError qc update previousMemo q =
     (case (previousMemo, p_name update) of
        (Some m, Some name) \<Rightarrow>
          if name = [] then qc_invalidate qc memoKeys_all q
          else patchMemoInCollectionQueries qc (whole_patch m) (qc_set qc (memoKeys_detail name) (Memo_Data m) q)
      | _ \<Rightarrow> qc_invalidate qc memoKeys_all q)"

definition update_onSuccess :: "'q query_client \<Rightarrow> memo \<Rightarrow> 'q \<Rightarrow> 'q" where
  "update_onSuccess qc updatedMemo q =
     (let q1 = qc_set qc (memoKeys_detail (m_name updatedMemo)) (Memo_Data updatedMemo) q;
          q2 = patchMemoInCollectionQueries qc (whole_patch updatedMemo) q1;
          q3 = qc_invalidate qc memoKeys_lists q2;
          q4 = (case m_parent updatedMemo of
                  None \<Rightarrow> q3
                | Some parent \<Rightarrow> if parent = [] then q3 else qc_invalidate qc (memoKeys_comments parent) q3) in
      qc_invalidate qc userKeys_stats q4)"

text \<open>\<open>mutateAsync\<close> of \<open>useUpdateMemo\<close>: the handlers around the request.\<close>

definition updateMemo ::
  "'q query_client \<Rightarrow> 's memo_api \<Rightarrow> memo_patch \<Rightarrow> string list \<Rightarrow> 'q \<times> 's \<Rightarrow> (error + memo) \<times> 'q \<times> 's" where
  "updateMemo qc api update updateMask qs =
     (let (previousMemo, q1) = update_onMutate qc update (fst qs) in
      case api_updateMemo api (spread_memo empty_memo update) updateMask (snd qs) of
        (Inl e, s') \<Rightarrow> (Inl e, update_onError qc update previousMemo q1, s')
      | (Inr m, s') \<Rightarrow> (Inr m, update_onSuccess qc m q1, s'))"

definition delete_onSuccess :: "'q query_client \<Rightarrow> string \<Rightarrow> 'q \<Rightarrow> 'q" where
  "delete_onSuccess qc name q =
     (let q1 = qc_remove qc (memoKeys_detail name) q;
          q2 = qc_invalidate qc memoKeys_lists q1 in
      qc_invalidate qc userKeys_stats q2)"

text \<open>\<open>getNextPageParam\<close> and \<open>select\<close> of the infinite queries.\<close>

definition getNextPageParam :: "memo_list \<Rightarrow> string option" where
  "getNextPageParam lastPage = (if ml_nextPageToken lastPage = [] then None else Some (ml_nextPageToken lastPage))"

definition select_comments :: "memo_list list \<Rightarrow> memo list" where
  "select_comments pages = concat (map ml_memos pages)"

section \<open>Lemmas on patches\<close>

text \<open>The memos a query shows.\<close>

definition memos_of :: "query_data \<Rightarrow> memo list" where
  "memos_of d = (case d of List_Data r \<Rightarrow> ml_memos r | Pages_Data ps _ \<Rightarrow> concat (map ml_memos ps) | _ \<Rightarrow> [])"

text \<open>One memo under the patch.\<close>

definition patched :: "memo_patch \<Rightarrow> memo \<Rightarrow> memo" where
  "patched update memo = (if Some (m_name memo) = p_name update then spread_memo memo update else memo)"

lemma patch_response: "patchMemoListResponse r u = r\<lparr>ml_memos := map (patched u) (ml_memos r)\<rparr>"
proof (cases "list_ex (\<lambda>memo. Some (m_name memo) = p_name u) (ml_memos r)")
  case True
  then show ?thesis by (simp add: patchMemoListResponse_def patched_def [abs_def] if_distrib cong: if_cong)
next
  case False
  then have "map (patched u) (ml_memos r) = ml_memos r"
    by (intro map_idI) (auto simp: patched_def list_ex_iff)
  then show ?thesis using False by (simp add: patchMemoListResponse_def)
qed

definition patch_data :: "memo_patch \<Rightarrow> query_data \<Rightarrow> query_data" where
  "patch_data u d =
     (case d of
        List_Data r \<Rightarrow> List_Data (r\<lparr>ml_memos := map (patched u) (ml_memos r)\<rparr>)
      | Pages_Data ps q \<Rightarrow> Pages_Data (map (\<lambda>r. r\<lparr>ml_memos := map (patched u) (ml_memos r)\<rparr>) ps) q
      | _ \<Rightarrow> d)"

lemma map_eq_zip: "\<not> list_ex (\<lambda>(a, b). a \<noteq> b) (zip (map f xs) xs) \<Longrightarrow> map f xs = xs"
  by (induction xs) auto

lemma patch_query_data: "patchMemoListQueryData data u = map_option (patch_data u) data"
  using map_eq_zip [of "\<lambda>page. patchMemoListResponse page u", THEN sym]
  by (auto simp: patchMemoListQueryData_def patch_data_def patch_response Let_def
      split: option.split query_data.split)

lemma memos_of_patch: "memos_of (patch_data u d) = map (patched u) (memos_of d)"
  by (cases d) (simp_all add: patch_data_def memos_of_def map_concat o_def)

lemma patch_data_id: "list_all (\<lambda>m. patched u m = m) (memos_of d) \<Longrightarrow> patch_data u d = d"
  by (cases d) (auto simp: patch_data_def memos_of_def list_all_iff map_idI)

lemma patch_data_comp: "patch_data v (patch_data u d) = (case d of
     List_Data r \<Rightarrow> List_Data (r\<lparr>ml_memos := map (patched v \<circ> patched u) (ml_memos r)\<rparr>)
   | Pages_Data ps q \<Rightarrow> Pages_Data (map (\<lambda>r. r\<lparr>ml_memos := map (patched v \<circ> patched u) (ml_memos r)\<rparr>) ps) q
   | _ \<Rightarrow> d)"
  by (cases d) (simp_all add: patch_data_def o_def)

lemma rollback_data:
  assumes "list_all (\<lambda>x. m_name x = m_name m \<longrightarrow> x = m) (memos_of d)" and "p_name u = Some (m_name m)"
    and "\<not> adds_field m u"
  shows "patch_data (whole_patch m) (patch_data u d) = d"
proof -
  have "p_name (whole_patch m) = Some (m_name m)" by (simp add: whole_patch_def)
  then have id: "m_name x = m_name m \<longrightarrow> x = m \<Longrightarrow> (patched (whole_patch m) \<circ> patched u) x = x" for x
    using assms(2) spread_whole_back [OF assms(3)] by (auto simp: patched_def m_name_spread)
  have "map (patched (whole_patch m) \<circ> patched u) xs = xs"
    if "list_all (\<lambda>x. m_name x = m_name m \<longrightarrow> x = m) xs" for xs
    using that id by (induction xs) auto
  then show ?thesis using assms(1)
    by (cases d) (auto simp: patch_data_comp memos_of_def list_all_iff intro!: map_idI)
qed

text \<open>The memo found in the lists is one of those they show.\<close>

lemma first_some_Some: "first_some f xs = Some y \<Longrightarrow> \<exists>x \<in> set xs. f x = Some y"
  by (induction xs) (auto split: option.splits)

lemma first_some_None: "first_some f xs = None \<longleftrightarrow> (\<forall>x \<in> set xs. f x = None)"
  by (induction xs) (auto split: option.splits)

lemma find_data_Some:
  "findMemoInQueryData (Some d) n = Some m \<Longrightarrow> m \<in> set (memos_of d) \<and> m_name m = n"
  by (auto simp: findMemoInQueryData_def findMemoInListResponse_def memos_of_def find_Some_iff
      dest!: first_some_Some split: query_data.splits) force

lemma find_data_None:
  "findMemoInQueryData (Some d) n = None \<Longrightarrow> p_name u = Some n \<Longrightarrow> patch_data u d = d"
  by (rule patch_data_id)
     (auto simp: findMemoInQueryData_def findMemoInListResponse_def memos_of_def find_None_iff first_some_None
       list_all_iff patched_def split: query_data.splits)

section \<open>What the hooks rely on\<close>

locale query_cache =
  fixes qc :: "'q query_client"
  assumes get_set: "qc_get qc k (qc_set qc k' d q) = (if k = k' then Some d else qc_get qc k q)"
    and get_update: "f None = None \<Longrightarrow> (\<And>d. f (Some d) \<noteq> None) \<Longrightarrow>
      qc_get qc k (qc_update qc p f q) = (if has_prefix p k then f (qc_get qc k q) else qc_get qc k q)"
    and get_invalidate: "qc_get qc k (qc_invalidate qc p q) = qc_get qc k q"
    and get_cancel: "qc_get qc k (qc_cancel qc p q) = qc_get qc k q"
    and get_remove: "qc_get qc k (qc_remove qc p q) = (if has_prefix p k then None else qc_get qc k q)"
    and entries: "(k, Some d) \<in> set (qc_entries qc p q) \<longleftrightarrow> has_prefix p k \<and> qc_get qc k q = Some d"
begin

lemma get_patch:
  "qc_get qc k (patchMemoInCollectionQueries qc u q) =
     (if has_prefix memoKeys_all k then map_option (patch_data u) (qc_get qc k q) else qc_get qc k q)"
  unfolding patchMemoInCollectionQueries_def by (subst get_update) (auto simp: patch_query_data)

lemma mutate_known:
  assumes "p_name u = Some n" and "n \<noteq> []" and "fst (update_onMutate qc u q) = Some m"
  shows "qc_get qc k (snd (update_onMutate qc u q)) =
       (if k = memoKeys_detail n then Some (Memo_Data (spread_memo m u))
        else if has_prefix memoKeys_all k then map_option (patch_data u) (qc_get qc k q) else qc_get qc k q)"
proof -
  have u: "u\<lparr>p_name := Some n\<rparr> = u" using assms(1) by simp
  show ?thesis
    using assms by (auto simp: update_onMutate_def Let_def u get_cancel get_patch get_set patch_data_def)
qed

lemma mutate_get:
  assumes "p_name u = Some n" and "n \<noteq> []" and "qc_get qc (memoKeys_detail n) q = Some (Memo_Data m)"
  shows "fst (update_onMutate qc u q) = Some m"
    and "qc_get qc k (snd (update_onMutate qc u q)) =
       (if k = memoKeys_detail n then Some (Memo_Data (spread_memo m u))
        else if has_prefix memoKeys_all k then map_option (patch_data u) (qc_get qc k q) else qc_get qc k q)"
proof -
  show f: "fst (update_onMutate qc u q) = Some m"
    using assms by (simp add: update_onMutate_def get_cancel Let_def)
  show "qc_get qc k (snd (update_onMutate qc u q)) =
       (if k = memoKeys_detail n then Some (Memo_Data (spread_memo m u))
        else if has_prefix memoKeys_all k then map_option (patch_data u) (qc_get qc k q) else qc_get qc k q)"
    by (rule mutate_known [OF assms(1,2) f])
qed

lemma find_collections:
  "findMemoInCollectionQueries qc n q = Some m \<Longrightarrow> \<exists>k d. qc_get qc k q = Some d \<and> m \<in> set (memos_of d) \<and> m_name m = n"
proof -
  assume "findMemoInCollectionQueries qc n q = Some m"
  then obtain k d where kd: "(k, d) \<in> set (qc_entries qc memoKeys_all q)" "findMemoInQueryData d n = Some m"
    by (auto simp: findMemoInCollectionQueries_def dest!: first_some_Some)
  then obtain d' where "d = Some d'" by (cases d) (simp_all add: findMemoInQueryData_def)
  then show ?thesis using kd entries [of k d' memoKeys_all q] find_data_Some [of d' n m] by blast
qed

lemma not_found_unpatched:
  assumes "findMemoInCollectionQueries qc n q = None" and "p_name u = Some n" and "has_prefix memoKeys_all k"
  shows "map_option (patch_data u) (qc_get qc k q) = qc_get qc k q"
proof (cases "qc_get qc k q")
  case (Some d)
  then have "(k, Some d) \<in> set (qc_entries qc memoKeys_all q)" using entries assms(3) by blast
  then have "findMemoInQueryData (Some d) n = None"
    using assms(1) by (auto simp: findMemoInCollectionQueries_def first_some_None)
  then show ?thesis using find_data_None [OF _ assms(2)] Some by simp
qed simp

text \<open>
  The rollback, when the copies of the memo agree: with a copy cached, the memo is the context and
  also the data of its detail afterwards; with none, nothing was changed.
\<close>

lemma mutate_context:
  assumes "n \<noteq> []" and "p_name u = Some n" and "qc_get qc (memoKeys_detail n) q \<in> {None, Some (Memo_Data m)}"
    and "\<And>k d. qc_get qc k q = Some d \<Longrightarrow> list_all (\<lambda>x. m_name x = n \<longrightarrow> x = m) (memos_of d)"
  shows "fst (update_onMutate qc u q) \<in> {None, Some m}"
proof -
  have "findMemoInCollectionQueries qc n (qc_cancel qc memoKeys_all q) \<in> {None, Some m}"
  proof (cases "findMemoInCollectionQueries qc n (qc_cancel qc memoKeys_all q)")
    case (Some m')
    from find_collections [OF this] obtain k d
      where "qc_get qc k q = Some d" "m' \<in> set (memos_of d)" "m_name m' = n" by (auto simp: get_cancel)
    then have "m' = m" using assms(4) [of k d] by (auto simp: list_all_iff)
    then show ?thesis using Some by simp
  qed simp
  then show ?thesis using assms(1-3)
    by (auto simp: update_onMutate_def Let_def get_cancel split: option.split query_data.split)
qed

lemma rollback_get:
  assumes "p_name u = Some n" and "n \<noteq> []" and "m_name m = n" and "\<not> adds_field m u"
    and "qc_get qc (memoKeys_detail n) q \<in> {None, Some (Memo_Data m)}"
    and "\<And>k d. qc_get qc k q = Some d \<Longrightarrow> list_all (\<lambda>x. m_name x = n \<longrightarrow> x = m) (memos_of d)"
  shows "qc_get qc k (update_onError qc u (fst (update_onMutate qc u q)) (snd (update_onMutate qc u q))) =
    (if k = memoKeys_detail n \<and> fst (update_onMutate qc u q) \<noteq> None then Some (Memo_Data m) else qc_get qc k q)"
proof (cases "fst (update_onMutate qc u q)")
  case None
  have u: "u\<lparr>p_name := Some n\<rparr> = u" using assms(1) by simp
  have none: "findMemoInCollectionQueries qc n (qc_cancel qc memoKeys_all q) = None"
    using None assms(1,2,5)
    by (auto simp: update_onMutate_def Let_def get_cancel split: option.splits query_data.splits)
  have "qc_get qc k (snd (update_onMutate qc u q)) = qc_get qc k q"
    using None assms(1,2) not_found_unpatched [OF none assms(1), of k]
    by (auto simp: update_onMutate_def Let_def u get_patch get_cancel split: option.splits)
  then show ?thesis using None by (simp add: update_onError_def get_invalidate)
next
  case (Some m')
  then have m: "fst (update_onMutate qc u q) = Some m" using mutate_context [OF assms(2,1,5,6)] by auto
  note mutate = mutate_known [OF assms(1,2) m]
  have "map_option (patch_data (whole_patch m) \<circ> patch_data u) (qc_get qc k q) = qc_get qc k q"
    using assms(6) rollback_data [OF _ _ assms(4)] assms(1,3) by (cases "qc_get qc k q") simp_all
  then show ?thesis
    using assms(1-3) m
    by (auto simp: update_onError_def get_patch get_set mutate patch_data_def option.map_comp)
qed

end

section \<open>A client kept as a list\<close>

text \<open>
  The data by key, in the order of creation, and the prefixes invalidated so far: the smallest client
  with the behaviour above.
\<close>

record listed_cache =
  lc_data :: "(query_key \<times> query_data) list"
  lc_invalidated :: "query_key list"

definition listed_client :: "listed_cache query_client" where
  "listed_client = \<lparr>
     qc_get = (\<lambda>k q. map_of (lc_data q) k),
     qc_entries = (\<lambda>p q. map (\<lambda>k. (k, map_of (lc_data q) k)) (filter (has_prefix p) (map fst (lc_data q)))),
     qc_set = (\<lambda>k d q. q\<lparr>lc_data := AList.update k d (lc_data q)\<rparr>),
     qc_update = (\<lambda>p f q. q\<lparr>lc_data := map (\<lambda>(k, d). (k, if has_prefix p k then (case f (Some d) of None \<Rightarrow> d | Some d' \<Rightarrow> d') else d)) (lc_data q)\<rparr>),
     qc_invalidate = (\<lambda>p q. q\<lparr>lc_invalidated := lc_invalidated q @ [p]\<rparr>),
     qc_remove = (\<lambda>p q. q\<lparr>lc_data := filter (\<lambda>(k, _). \<not> has_prefix p k) (lc_data q)\<rparr>),
     qc_cancel = (\<lambda>_ q. q)\<rparr>"

lemma map_of_listed_update:
  "map_of (map (\<lambda>(k, d). (k, g k d)) q) k = map_option (g k) (map_of q k)"
  by (induction q) auto

lemma map_of_filter_key: "map_of (filter (\<lambda>(k, _). P k) q) k = (if P k then map_of q k else None)"
  by (induction q) auto

interpretation listed: query_cache listed_client
proof unfold_locales
  fix f :: "query_data option \<Rightarrow> query_data option" and k p and q :: listed_cache
  assume none: "f None = None" and some: "\<And>d. f (Some d) \<noteq> None"
  let ?g = "\<lambda>k d. if has_prefix p k then (case f (Some d) of None \<Rightarrow> d | Some d' \<Rightarrow> d') else d"
  have g: "Some (?g k a) = (if has_prefix p k then f (Some a) else Some a)" for a
    using some [of a] by auto
  show "qc_get listed_client k (qc_update listed_client p f q) =
      (if has_prefix p k then f (qc_get listed_client k q) else qc_get listed_client k q)"
    using none g by (cases "map_of (lc_data q) k") (simp_all add: listed_client_def map_of_listed_update [of ?g])
next
  fix k p d and q :: listed_cache
  show "(k, Some d) \<in> set (qc_entries listed_client p q) \<longleftrightarrow> has_prefix p k \<and> qc_get listed_client k q = Some d"
    by (auto simp: listed_client_def dom_map_of_conv_image_fst [symmetric])
qed (simp_all add: listed_client_def update_Some_unfold update_conv map_of_filter_key)

section \<open>Properties\<close>

text \<open>
  the optimistic update shows everywhere and touches nothing else. With the memo's detail cached,
  the detail holds the memo with the update applied, each cached list and infinite list has the
  memos it had, those of that name with the update applied, and all queries of other kinds keep
  their data.
\<close>

theorem optimistic_update:
  assumes "query_cache qc" and "p_name u = Some n" and "n \<noteq> []"
    and "qc_get qc (memoKeys_detail n) q = Some (Memo_Data m)"
  shows "let (previous, q') = update_onMutate qc u q in
         previous = Some m
         \<and> qc_get qc (memoKeys_detail n) q' = Some (Memo_Data (spread_memo m u))
         \<and> (\<forall>k. k = memoKeys_detail n
              \<or> (case qc_get qc k q of
                   None \<Rightarrow> qc_get qc k q' = None
                 | Some d \<Rightarrow> (\<exists>d'. qc_get qc k q' = Some d'
                     \<and> memos_of d' = (if has_prefix memoKeys_all k
                         then map (\<lambda>x. if m_name x = n then spread_memo x u else x) (memos_of d)
                         else memos_of d)
                     \<and> (memos_of d = memos_of d' \<longrightarrow> d' = d))))"
proof -
  note mutate = query_cache.mutate_get [OF assms]
  have patched: "patched u = (\<lambda>x. if m_name x = n then spread_memo x u else x)"
    using assms(2) by (auto simp: patched_def)
  have same: "patch_data u d = d" if "memos_of d = map (patched u) (memos_of d)" for d
  proof (rule patch_data_id)
    show "list_all (\<lambda>m. patched u m = m) (memos_of d)"
      using that by (auto simp: list_all_length) (metis nth_map)
  qed
  show ?thesis
    using mutate same
    by (auto simp: case_prod_beta patched [symmetric] memos_of_patch split: option.splits)
qed

definition cached_memo :: memo where
  "cached_memo = empty_memo\<lparr>m_name := ''memos/1'', m_content := ''old''\<rparr>"

definition one_list :: listed_cache where
  "one_list = \<lparr>lc_data = [(memoKeys_detail ''memos/1'', Memo_Data cached_memo),
      (memoKeys_lists, List_Data \<lparr>ml_memos = [cached_memo, empty_memo], ml_nextPageToken = [], ml_totalSize = None\<rparr>)],
     lc_invalidated = []\<rparr>"

definition new_content :: memo_patch where
  "new_content = no_patch\<lparr>p_name := Some ''memos/1'', p_content := Some ''new''\<rparr>"

lemma one_list_detail: "qc_get listed_client (memoKeys_detail ''memos/1'') one_list = Some (Memo_Data cached_memo)"
  by (simp add: listed_client_def one_list_def)

lemma new_content_name: "p_name new_content = Some ''memos/1''"
  by (simp add: new_content_def)

theorem optimistic_update_witness:
  "qc_get listed_client (memoKeys_detail ''memos/1'') (snd (update_onMutate listed_client new_content one_list)) =
     Some (Memo_Data (cached_memo\<lparr>m_content := ''new''\<rparr>))"
  using optimistic_update [OF listed.query_cache_axioms new_content_name _ one_list_detail]
  by (auto simp: case_prod_beta spread_memo_def new_content_def no_patch_def cached_memo_def)

text \<open>
  C6: a failed update leaves no trace in what the queries show. When the cached copies of the memo
  agree (or there is none) and the update adds no optional field the memo was without, the rollback
  after the optimistic update gives every query the data it had before; only the memo's detail, where
  it was not cached and a list has the memo, appears with the memo as it was.
\<close>

theorem rollback_restores:
  assumes "query_cache qc" and "p_name u = Some n" and "n \<noteq> []" and "m_name m = n" and "\<not> adds_field m u"
    and "qc_get qc (memoKeys_detail n) q \<in> {None, Some (Memo_Data m)}"
    and "\<And>k d. qc_get qc k q = Some d \<Longrightarrow> list_all (\<lambda>x. m_name x = n \<longrightarrow> x = m) (memos_of d)"
  shows "let (previous, q') = update_onMutate qc u q in
         \<forall>k. qc_get qc k (update_onError qc u previous q') =
           (if k = memoKeys_detail n \<and> previous \<noteq> None then Some (Memo_Data m) else qc_get qc k q)"
  using query_cache.rollback_get [OF assms] by (simp add: case_prod_beta)

definition only_list :: listed_cache where
  "only_list = one_list\<lparr>lc_data := tl (lc_data one_list)\<rparr>"

lemma new_content_adds: "\<not> adds_field m new_content"
  by (simp add: adds_field_def sets_new_def new_content_def no_patch_def split: option.split)

theorem rollback_restores_witness:
  "let (previous, q') = update_onMutate listed_client new_content only_list in
   \<forall>k. qc_get listed_client k (update_onError listed_client new_content previous q') =
     (if k = memoKeys_detail ''memos/1'' \<and> previous \<noteq> None then Some (Memo_Data cached_memo)
      else qc_get listed_client k only_list)"
proof (rule rollback_restores [where m = cached_memo])
  fix k d
  assume "qc_get listed_client k only_list = Some d"
  then show "list_all (\<lambda>x. m_name x = ''memos/1'' \<longrightarrow> x = cached_memo) (memos_of d)"
    by (auto simp: listed_client_def only_list_def one_list_def memos_of_def empty_memo_def cached_memo_def split: if_splits)
next
  show "qc_get listed_client (memoKeys_detail ''memos/1'') only_list \<in> {None, Some (Memo_Data cached_memo)}"
    by (simp add: listed_client_def only_list_def one_list_def memoKeys_detail_def memoKeys_lists_def)
qed (use listed.query_cache_axioms new_content_name new_content_adds in \<open>simp_all add: cached_memo_def\<close>)

text \<open>
  A field that a memo is without does not come off the copies in the lists: neither the rollback of an
  update that added a location nor the server's answer without one takes it away there.
\<close>

lemma location_stays_in_lists:
  assumes "m_name x = m_name m" and "m_location m = None"
  shows "m_location (patched (whole_patch m) x) = m_location x"
  using assms by (simp add: patched_def whole_patch_def spread_memo_def)

end
