(* ===== verification/LiveRefresh.thy ===== *)
theory LiveRefresh
  imports Queries Json
begin

text \<open>
  Live updates (\<^verbatim>\<open>hooks/useLiveMemoRefresh.ts\<close>): the parser of the event stream, the handler of
  an event, and the effect that connects, reconnects with growing delays and is cleaned up. The
  network's answers are the events of a step function; the text decoder's output is its input.
\<close>

section \<open>The stream of events\<close>

definition blank_line :: string where
  "blank_line = [CHR 0x0A, CHR 0x0A]"

definition data_prefix :: string where
  "data_prefix = ''data: ''"

text \<open>The payloads of one message: the lines that begin with \<open>data: \<close>.\<close>

definition message_payloads :: "string \<Rightarrow> string list" where
  "message_payloads message =
     (if trim message = [] then []
      else map (drop 6) (filter (\<lambda>line. startsWith line data_prefix) (split_char (CHR 0x0A) message)))"

text \<open>One chunk: the payloads of the messages it completes, and the rest kept in the buffer.\<close>

definition feed :: "string \<Rightarrow> string \<Rightarrow> string list \<times> string" where
  "feed buffer chunk =
     (let messages = split_str blank_line (buffer @ chunk) in
      (concat (map message_payloads (butlast messages)), last messages))"

record sse_event =
  se_type :: string
  se_name :: json
  se_parent :: json

text \<open>
  The fields of the parsed event; a missing field is \<open>JNull\<close>, which the code treats alike. Text that
  does not parse, and \<open>null\<close>, whose fields cannot be read, are dropped. A type that is no string
  matches no case.
\<close>

definition parse_event :: "string \<Rightarrow> sse_event option" where
  "parse_event s =
     (case JSON_parse s of
        None \<Rightarrow> None
      | Some JNull \<Rightarrow> None
      | Some (JObj ms) \<Rightarrow>
          (let field = \<lambda>k. (case map_of ms k of None \<Rightarrow> JNull | Some v \<Rightarrow> v) in
           Some \<lparr>se_type = (case field ''type'' of JStr ty \<Rightarrow> ty | _ \<Rightarrow> []),
                 se_name = field ''name'', se_parent = field ''parent''\<rparr>)
      | Some _ \<Rightarrow> Some \<lparr>se_type = [], se_name = JNull, se_parent = JNull\<rparr>)"

definition json_key :: "json \<Rightarrow> key_part" where
  "json_key j = (case j of JStr s \<Rightarrow> Key s | _ \<Rightarrow> Key_Json j)"

definition detail_key :: "json \<Rightarrow> query_key" where
  "detail_key name = memoKeys_details @ [json_key name]"

definition comments_key :: "json \<Rightarrow> query_key" where
  "comments_key name = memoKeys_all @ [Key ''comments'', json_key name]"

text \<open>\<open>if (event.parent)\<close>.\<close>

definition json_truthy :: "json \<Rightarrow> bool" where
  "json_truthy j = (case j of JNull \<Rightarrow> False | JBool b \<Rightarrow> b | JNum n \<Rightarrow> n \<noteq> 0 | JStr s \<Rightarrow> s \<noteq> [] | _ \<Rightarrow> True)"

definition handleSSEEvent :: "'q query_client \<Rightarrow> sse_event \<Rightarrow> 'q \<Rightarrow> 'q" where
  "handleSSEEvent qc event q =
     (if se_type event = ''memo.created'' then
        qc_invalidate qc userKeys_stats (qc_invalidate qc memoKeys_lists q)
      else if se_type event = ''memo.updated'' then
        (let q1 = qc_invalidate qc memoKeys_lists (qc_invalidate qc (detail_key (se_name event)) q) in
         if json_truthy (se_parent event) then qc_invalidate qc (comments_key (se_parent event)) q1 else q1)
      else if se_type event = ''memo.deleted'' then
        qc_invalidate qc userKeys_stats
          (qc_invalidate qc memoKeys_lists (qc_remove qc (detail_key (se_name event)) q))
      else if se_type event = ''memo.comment.created'' then
        qc_invalidate qc (detail_key (se_name event)) (qc_invalidate qc (comments_key (se_name event)) q)
      else if se_type event = ''reaction.upserted'' \<or> se_type event = ''reaction.deleted'' then
        (let q1 = qc_invalidate qc memoKeys_lists (qc_invalidate qc (detail_key (se_name event)) q) in
         if json_truthy (se_parent event) then qc_invalidate qc (comments_key (se_parent event)) q1 else q1)
      else q)"

definition handle_payload :: "'q query_client \<Rightarrow> 'q \<Rightarrow> string \<Rightarrow> 'q" where
  "handle_payload qc q payload =
     (case parse_event payload of None \<Rightarrow> q | Some event \<Rightarrow> handleSSEEvent qc event q)"

section \<open>Connections\<close>

definition INITIAL_RETRY_DELAY_MS :: nat where "INITIAL_RETRY_DELAY_MS = 1000"
definition MAX_RETRY_DELAY_MS :: nat where "MAX_RETRY_DELAY_MS = 30000"
definition RETRY_BACKOFF_MULTIPLIER :: nat where "RETRY_BACKOFF_MULTIPLIER = 2"

datatype sse_status = Connected | Disconnected | Connecting

text \<open>Where a call of \<open>connect\<close> waits. A fetch is the first one or the one after a refresh.\<close>

datatype phase = Awaiting_Token | Fetching bool | Refreshing | Reading string | Done

record connection =
  cn_effect :: nat
  cn_phase :: phase

text \<open>
  The state of the hook. \<open>lv_effect\<close> numbers the runs of the effect; only the last one can be mounted.
  \<open>lv_timer\<close> is the delay of its pending reconnect. Connections are the calls of \<open>connect\<close>, in order;
  the abort controller is the number of the connection that made it.
\<close>

record 'q live =
  lv_status :: sse_status
  lv_delay :: nat
  lv_connectedOnce :: bool
  lv_user :: bool
  lv_effect :: nat
  lv_mounted :: bool
  lv_timer :: "nat option"
  lv_controller :: "nat option"
  lv_aborted :: "nat list"
  lv_conns :: "connection list"
  lv_cache :: 'q

definition live_init :: "'q \<Rightarrow> 'q live" where
  "live_init q = \<lparr>lv_status = Disconnected, lv_delay = INITIAL_RETRY_DELAY_MS, lv_connectedOnce = False,
     lv_user = False, lv_effect = 0, lv_mounted = False, lv_timer = None, lv_controller = None,
     lv_aborted = [], lv_conns = [], lv_cache = q\<rparr>"

text \<open>
  What can happen: the effect runs (with a user signed in or not), its cleanup runs, the timer fires;
  the token of a connection arrives, a response arrives (its status and whether it is fine), a
  refresh ends, a chunk is read, the stream ends, or an exception is thrown.
\<close>

datatype live_event =
    Run bool
  | Cleanup
  | Fire
  | Token nat "string option"
  | Response nat nat bool
  | Refresh_Done nat "string option"
  | Chunk nat string
  | Stream_End nat
  | Failure nat

definition set_phase :: "nat \<Rightarrow> phase \<Rightarrow> 'q live \<Rightarrow> 'q live" where
  "set_phase c p s = s\<lparr>lv_conns := (lv_conns s)[c := (lv_conns s ! c)\<lparr>cn_phase := p\<rparr>]\<rparr>"

definition is_mounted :: "nat \<Rightarrow> 'q live \<Rightarrow> bool" where
  "is_mounted c s = (lv_mounted s \<and> cn_effect (lv_conns s ! c) = lv_effect s)"

text \<open>The call of \<open>connect\<close> up to its first \<open>await\<close>.\<close>

definition connect :: "'q live \<Rightarrow> 'q live" where
  "connect s =
     (if \<not> lv_mounted s then s
      else if \<not> lv_user s then s\<lparr>lv_status := Disconnected\<rparr>
      else s\<lparr>lv_conns := lv_conns s @ [\<lparr>cn_effect = lv_effect s, cn_phase = Awaiting_Token\<rparr>]\<rparr>)"

text \<open>After the \<open>try\<close> block: the reconnect with backoff.\<close>

definition reconnect :: "nat \<Rightarrow> 'q live \<Rightarrow> 'q live" where
  "reconnect c s =
     (let s1 = set_phase c Done (s\<lparr>lv_status := Disconnected\<rparr>) in
      if is_mounted c s1
      then s1\<lparr>lv_timer := Some (lv_delay s1),
              lv_delay := min (lv_delay s1 * RETRY_BACKOFF_MULTIPLIER) MAX_RETRY_DELAY_MS\<rparr>
      else s1)"

definition on_token :: "nat \<Rightarrow> string option \<Rightarrow> 'q live \<Rightarrow> 'q live" where
  "on_token c token s =
     (if \<not> (case token of None \<Rightarrow> False | Some t \<Rightarrow> t \<noteq> [])
      then set_phase c Done (s\<lparr>lv_status := Disconnected\<rparr>)
      else set_phase c (Fetching False) (s\<lparr>lv_status := Connecting, lv_controller := Some c\<rparr>))"

definition on_connected :: "'q query_client \<Rightarrow> nat \<Rightarrow> 'q live \<Rightarrow> 'q live" where
  "on_connected qc c s =
     (let q = (if lv_connectedOnce s
               then qc_invalidate qc userKeys_stats (qc_invalidate qc memoKeys_all (lv_cache s))
               else lv_cache s);
          s1 = s\<lparr>lv_delay := INITIAL_RETRY_DELAY_MS, lv_status := Connected, lv_cache := q,
                 lv_connectedOnce := True\<rparr> in
      if is_mounted c s1 then set_phase c (Reading []) s1 else reconnect c s1)"

definition on_response :: "'q query_client \<Rightarrow> nat \<Rightarrow> nat \<Rightarrow> bool \<Rightarrow> bool \<Rightarrow> 'q live \<Rightarrow> 'q live" where
  "on_response qc c code ok retried s =
     (if \<not> retried \<and> code = 401 then set_phase c Refreshing s
      else if \<not> ok then reconnect c s
      else on_connected qc c s)"

definition on_chunk :: "'q query_client \<Rightarrow> nat \<Rightarrow> string \<Rightarrow> string \<Rightarrow> 'q live \<Rightarrow> 'q live" where
  "on_chunk qc c buffer chunk s =
     (let (payloads, rest) = feed buffer chunk;
          s1 = set_phase c (Reading rest) (s\<lparr>lv_cache := foldl (handle_payload qc) (lv_cache s) payloads\<rparr>) in
      if is_mounted c s1 then s1 else reconnect c s1)"

text \<open>An exception: a fetch or read that was aborted ends the call, any other leads to a reconnect.\<close>

definition on_failure :: "nat \<Rightarrow> 'q live \<Rightarrow> 'q live" where
  "on_failure c s =
     (if c \<in> set (lv_aborted s) then set_phase c Done (s\<lparr>lv_status := Disconnected\<rparr>) else reconnect c s)"

definition conn_event :: "'q query_client \<Rightarrow> nat \<Rightarrow> live_event \<Rightarrow> phase \<Rightarrow> 'q live \<Rightarrow> 'q live" where
  "conn_event qc c e p s =
     (case (p, e) of
        (Awaiting_Token, Token _ t) \<Rightarrow> on_token c t s
      | (Fetching retried, Response _ code ok) \<Rightarrow>
          if c \<in> set (lv_aborted s) then on_failure c s else on_response qc c code ok retried s
      | (Fetching _, Failure _) \<Rightarrow> on_failure c s
      | (Refreshing, Refresh_Done _ (Some t)) \<Rightarrow>
          if t = [] then reconnect c s else set_phase c (Fetching True) s
      | (Refreshing, Refresh_Done _ None) \<Rightarrow> reconnect c s
      | (Reading buffer, Chunk _ chunk) \<Rightarrow>
          if c \<in> set (lv_aborted s) then on_failure c s else on_chunk qc c buffer chunk s
      | (Reading _, Stream_End _) \<Rightarrow> if c \<in> set (lv_aborted s) then on_failure c s else reconnect c s
      | (Reading _, Failure _) \<Rightarrow> on_failure c s
      | _ \<Rightarrow> s)"

definition event_conn :: "live_event \<Rightarrow> nat option" where
  "event_conn e =
     (case e of Token c _ \<Rightarrow> Some c | Response c _ _ \<Rightarrow> Some c | Refresh_Done c _ \<Rightarrow> Some c | Chunk c _ \<Rightarrow> Some c
      | Stream_End c \<Rightarrow> Some c | Failure c \<Rightarrow> Some c | _ \<Rightarrow> None)"

definition live_step :: "'q query_client \<Rightarrow> 'q live \<Rightarrow> live_event \<Rightarrow> 'q live" where
  "live_step qc s e =
     (case e of
        Run user \<Rightarrow>
          if lv_mounted s then s
          else connect (s\<lparr>lv_effect := lv_effect s + 1, lv_mounted := True, lv_user := user\<rparr>)
      | Cleanup \<Rightarrow>
          if \<not> lv_mounted s then s
          else s\<lparr>lv_mounted := False, lv_status := Disconnected, lv_delay := INITIAL_RETRY_DELAY_MS,
                 lv_timer := None,
                 lv_aborted := (case lv_controller s of None \<Rightarrow> lv_aborted s | Some c \<Rightarrow> c # lv_aborted s)\<rparr>
      | Fire \<Rightarrow> (case lv_timer s of None \<Rightarrow> s | Some _ \<Rightarrow> connect (s\<lparr>lv_timer := None\<rparr>))
      | _ \<Rightarrow> (case event_conn e of
               None \<Rightarrow> s
             | Some c \<Rightarrow> if c < length (lv_conns s) then conn_event qc c e (cn_phase (lv_conns s ! c)) s else s))"

section \<open>Lemmas on the parser\<close>

lemma startsWith_append_long:
  "length p \<le> length s \<Longrightarrow> startsWith (s @ t) p = startsWith s p"
  by (auto simp: startsWith_iff append_eq_append_conv2)

lemma split_str_short: "length s < length sep \<Longrightarrow> split_str sep s = [s]"
proof (induction s)
  case (Cons x xs)
  then have "\<not> startsWith (x # xs) sep" by (auto simp: startsWith_iff dest!: arg_cong [where f = length])
  then show ?case using Cons by simp
qed simp

lemma split_str_append:
  "sep \<noteq> [] \<Longrightarrow> split_str sep (s @ t) = butlast (split_str sep s) @ split_str sep (last (split_str sep s) @ t)"
proof (induction sep s rule: split_str.induct)
  case (2 sep x xs)
  show ?case
  proof (cases "length (x # xs) < length sep")
    case True
    then show ?thesis by (simp add: split_str_short del: split_str.simps)
  next
    case False
    then have long: "length sep \<le> length (x # xs)" by simp
    have eq: "startsWith (x # xs @ t) sep = startsWith (x # xs) sep"
      using startsWith_append_long [OF long, of t] by simp
    show ?thesis
    proof (cases "startsWith (x # xs) sep")
      case True
      then have "split_str sep (drop (length sep) (x # xs) @ t)
          = butlast (split_str sep (drop (length sep) (x # xs)))
            @ split_str sep (last (split_str sep (drop (length sep) (x # xs))) @ t)"
        using 2 by blast
      moreover have "drop (length sep) (x # xs @ t) = drop (length sep) (x # xs) @ t"
        using long by (metis append_Cons append_eq_append_conv_if append_take_drop_id drop_append diff_is_0_eq drop0)
      ultimately show ?thesis using True eq 2(3) by simp
    next
      case False
      then have "split_str sep (xs @ t) = butlast (split_str sep xs) @ split_str sep (last (split_str sep xs) @ t)"
        using 2 by blast
      moreover have "join sep (split_str sep xs) = xs" using 2(3) by (rule join_split_str)
      ultimately show ?thesis using False eq 2(3)
        by (cases "split_str sep xs"; cases "tl (split_str sep xs)") (auto split: list.splits)
    qed
  qed
qed simp

lemma last_split_str: "sep \<noteq> [] \<Longrightarrow> split_str sep (last (split_str sep s)) = [last (split_str sep s)]"
proof -
  assume "sep \<noteq> []"
  from split_str_append [OF this, of s "[]"]
  have "split_str sep s = butlast (split_str sep s) @ split_str sep (last (split_str sep s))" by simp
  then show ?thesis by (metis append_butlast_last_id same_append_eq split_str_ne)
qed

text \<open>All chunks fed to the parser.\<close>

definition feed_all :: "string list \<times> string \<Rightarrow> string list \<Rightarrow> string list \<times> string" where
  "feed_all = foldl (\<lambda>(ps, b) c. (ps @ fst (feed b c), snd (feed b c)))"

lemma feed_append: "feed b (c @ d) =
  (fst (feed b c) @ fst (feed (snd (feed b c)) d), snd (feed (snd (feed b c)) d))"
  using split_str_append [of blank_line "b @ c" d]
  by (simp add: feed_def Let_def blank_line_def butlast_append)

lemma feed_nil: "feed (snd (feed b c)) [] = ([], snd (feed b c))"
  by (simp add: feed_def Let_def last_split_str blank_line_def)

section \<open>The invariant of the hook\<close>

definition active :: "'q live \<Rightarrow> nat" where
  "active s = length (filter (\<lambda>c. cn_effect c = lv_effect s \<and> cn_phase c \<noteq> Done) (lv_conns s))"

definition backoff :: "nat \<Rightarrow> bool" where
  "backoff d = (d \<in> {1000, 2000, 4000, 8000, 16000, 30000})"

definition live_inv :: "'q live \<Rightarrow> bool" where
  "live_inv s =
     (list_all (\<lambda>c. cn_effect c \<le> lv_effect s) (lv_conns s)
      \<and> (lv_timer s = None \<or> lv_mounted s)
      \<and> active s + (if lv_timer s = None then 0 else 1) \<le> 1
      \<and> backoff (lv_delay s) \<and> (case lv_timer s of None \<Rightarrow> True | Some d \<Rightarrow> backoff d))"

lemma filter_update_length:
  assumes "c < length xs" and "P (xs ! c)"
  shows "length (filter P (xs[c := y])) + (if P y then 0 else 1) = length (filter P xs)"
proof -
  have "filter P xs = filter P (take c xs) @ filter P [xs ! c] @ filter P (drop (Suc c) xs)"
    by (subst id_take_nth_drop [OF assms(1)]) simp
  then have "length (filter P xs) = length (filter P (take c xs)) + 1 + length (filter P (drop (Suc c) xs))"
    using assms(2) by simp
  then show ?thesis using assms(1) by (simp add: upd_conv_take_nth_drop)
qed

lemma filter_update_other:
  "c < length xs \<Longrightarrow> \<not> P (xs ! c) \<Longrightarrow> \<not> P y \<Longrightarrow> filter P (xs[c := y]) = filter P xs"
  by (subst (2) id_take_nth_drop [of c xs]) (simp_all add: upd_conv_take_nth_drop)

lemma active_set_phase:
  assumes "c < length (lv_conns s)" and "cn_phase (lv_conns s ! c) \<noteq> Done"
  shows "active (set_phase c p s) + (if cn_effect (lv_conns s ! c) = lv_effect s \<and> p = Done then 1 else 0) = active s"
proof (cases "cn_effect (lv_conns s ! c) = lv_effect s")
  case True
  then show ?thesis
    using filter_update_length [of c "lv_conns s" "\<lambda>c. cn_effect c = lv_effect s \<and> cn_phase c \<noteq> Done"
        "(lv_conns s ! c)\<lparr>cn_phase := p\<rparr>"] assms
    by (auto simp: active_def set_phase_def)
next
  case False
  then show ?thesis
    using filter_update_other [of c "lv_conns s" "\<lambda>c. cn_effect c = lv_effect s \<and> cn_phase c \<noteq> Done"
        "(lv_conns s ! c)\<lparr>cn_phase := p\<rparr>"] assms
    by (simp add: active_def set_phase_def)
qed

lemma effects_set_phase:
  "list_all (\<lambda>c. cn_effect c \<le> n) (lv_conns s) \<Longrightarrow> c < length (lv_conns s)
     \<Longrightarrow> list_all (\<lambda>c. cn_effect c \<le> n) (lv_conns (set_phase c p s))"
  by (simp add: set_phase_def list_all_length nth_list_update)

lemma set_phase_fields [simp]:
  "lv_effect (set_phase c p s) = lv_effect s" "lv_timer (set_phase c p s) = lv_timer s"
  "lv_mounted (set_phase c p s) = lv_mounted s" "lv_delay (set_phase c p s) = lv_delay s"
  by (simp_all add: set_phase_def)

text \<open>A connection may be changed when it exists and has not ended.\<close>

definition open_conn :: "nat \<Rightarrow> 'q live \<Rightarrow> bool" where
  "open_conn c s \<longleftrightarrow> c < length (lv_conns s) \<and> cn_phase (lv_conns s ! c) \<noteq> Done"

lemma set_phase_inv: "live_inv s \<Longrightarrow> open_conn c s \<Longrightarrow> live_inv (set_phase c p s)"
  using active_set_phase [of c s p] effects_set_phase [of "lv_effect s" s c p]
  unfolding live_inv_def open_conn_def by (auto split: if_splits)

lemma backoff_next: "backoff d \<Longrightarrow> backoff (min (d * RETRY_BACKOFF_MULTIPLIER) MAX_RETRY_DELAY_MS)"
  by (auto simp: backoff_def RETRY_BACKOFF_MULTIPLIER_def MAX_RETRY_DELAY_MS_def)

lemma active_frame [simp]:
  "active (s\<lparr>lv_status := x\<rparr>) = active s" "active (s\<lparr>lv_timer := d\<rparr>) = active s"
  by (simp_all add: active_def)

lemma frame_inv [simp]:
  "live_inv (s\<lparr>lv_status := x\<rparr>) = live_inv s" "live_inv (s\<lparr>lv_controller := k\<rparr>) = live_inv s"
  "live_inv (s\<lparr>lv_cache := q\<rparr>) = live_inv s" "live_inv (s\<lparr>lv_connectedOnce := b\<rparr>) = live_inv s"
  "open_conn c (s\<lparr>lv_status := x\<rparr>) = open_conn c s" "open_conn c (s\<lparr>lv_controller := k\<rparr>) = open_conn c s"
  "open_conn c (s\<lparr>lv_cache := q\<rparr>) = open_conn c s" "open_conn c (s\<lparr>lv_connectedOnce := b\<rparr>) = open_conn c s"
  "open_conn c (s\<lparr>lv_delay := n\<rparr>) = open_conn c s"
  by (simp_all add: live_inv_def active_def open_conn_def)

lemma reconnect_inv:
  assumes "live_inv s" and "open_conn c s"
  shows "live_inv (reconnect c s)"
proof -
  let ?s = "set_phase c Done (s\<lparr>lv_status := Disconnected\<rparr>)"
  have inv: "live_inv ?s" using assms by (simp add: set_phase_inv)
  have eff: "cn_effect (lv_conns ?s ! c) = cn_effect (lv_conns s ! c)"
    using assms(2) by (simp add: set_phase_def open_conn_def)
  have "active ?s = 0 \<and> lv_timer s = None" if "is_mounted c ?s"
    using active_set_phase [of c "s\<lparr>lv_status := Disconnected\<rparr>" Done] assms that eff
    by (auto simp: live_inv_def open_conn_def is_mounted_def split: if_splits)
  then show ?thesis
    using inv by (auto simp: reconnect_def Let_def live_inv_def active_def backoff_next is_mounted_def)
qed

lemma delay_reset_inv: "live_inv s \<Longrightarrow> live_inv (s\<lparr>lv_delay := INITIAL_RETRY_DELAY_MS\<rparr>)"
  by (simp add: live_inv_def active_def backoff_def INITIAL_RETRY_DELAY_MS_def)

lemma set_phase_open: "open_conn c s \<Longrightarrow> p \<noteq> Done \<Longrightarrow> open_conn c (set_phase c p s)"
  by (simp add: open_conn_def set_phase_def)

lemmas step_invs = set_phase_inv reconnect_inv delay_reset_inv set_phase_open

lemma on_connected_inv: "live_inv s \<Longrightarrow> open_conn c s \<Longrightarrow> live_inv (on_connected qc c s)"
  by (simp add: on_connected_def Let_def step_invs)

lemma on_failure_inv: "live_inv s \<Longrightarrow> open_conn c s \<Longrightarrow> live_inv (on_failure c s)"
  by (simp add: on_failure_def step_invs)

lemma on_token_inv: "live_inv s \<Longrightarrow> open_conn c s \<Longrightarrow> live_inv (on_token c t s)"
  by (simp add: on_token_def step_invs)

lemma on_response_inv: "live_inv s \<Longrightarrow> open_conn c s \<Longrightarrow> live_inv (on_response qc c code ok retried s)"
  by (simp add: on_response_def step_invs on_connected_inv)

lemma on_chunk_inv: "live_inv s \<Longrightarrow> open_conn c s \<Longrightarrow> live_inv (on_chunk qc c buffer chunk s)"
  by (simp add: on_chunk_def Let_def case_prod_beta step_invs)

lemmas handler_invs = on_token_inv on_response_inv on_chunk_inv on_failure_inv reconnect_inv set_phase_inv

lemma conn_event_inv:
  "live_inv s \<Longrightarrow> open_conn c s \<Longrightarrow> live_inv (conn_event qc c e p s)"
  by (cases p; cases e) (simp_all add: conn_event_def handler_invs split: option.split)

lemma conn_event_step:
  "live_inv s \<Longrightarrow> c < length (lv_conns s) \<Longrightarrow> live_inv (conn_event qc c e (cn_phase (lv_conns s ! c)) s)"
proof (cases "cn_phase (lv_conns s ! c) = Done")
  case True
  then show "live_inv s \<Longrightarrow> live_inv (conn_event qc c e (cn_phase (lv_conns s ! c)) s)"
    by (simp add: conn_event_def)
qed (simp add: conn_event_inv open_conn_def)

lemma connect_inv:
  assumes "live_inv s" and "lv_timer s = None" and "active s = 0"
  shows "live_inv (connect s)"
  using assms by (auto simp: connect_def live_inv_def active_def)

lemma live_step_inv: "live_inv s \<Longrightarrow> live_inv (live_step qc s e)"
proof (cases e)
  case (Run user)
  assume inv: "live_inv s"
  let ?s = "s\<lparr>lv_effect := lv_effect s + 1, lv_mounted := True, lv_user := user\<rparr>"
  have act: "active ?s = 0"
    using inv by (auto simp: active_def live_inv_def list_all_iff filter_empty_conv)
  show "live_inv (live_step qc s e)"
  proof (cases "lv_mounted s")
    case False
    then have "lv_timer ?s = None" using inv by (simp add: live_inv_def)
    moreover have "live_inv ?s"
      using inv act False by (auto simp: live_inv_def list_all_iff le_SucI)
    ultimately show ?thesis using act Run False by (simp add: live_step_def connect_inv)
  qed (simp add: live_step_def Run inv)
next
  case Cleanup
  assume inv: "live_inv s"
  have "active (live_step qc s Cleanup) = active s" by (simp add: live_step_def active_def)
  then show "live_inv (live_step qc s e)"
    using inv unfolding Cleanup
    by (simp add: live_step_def live_inv_def backoff_def INITIAL_RETRY_DELAY_MS_def split: if_splits)
next
  case Fire
  assume inv: "live_inv s"
  have "lv_timer s \<noteq> None \<Longrightarrow> active s = 0 \<and> live_inv (s\<lparr>lv_timer := None\<rparr>)"
    using inv by (auto simp: live_inv_def split: if_splits)
  then show "live_inv (live_step qc s e)"
    using inv unfolding Fire by (auto simp: live_step_def split: option.split intro!: connect_inv)
qed (simp_all add: live_step_def event_conn_def conn_event_step)

interpretation live_runs: machine "live_step qc" live_inv for qc :: "'q query_client"
  by unfold_locales (rule live_step_inv)

section \<open>Properties\<close>

text \<open>
  C10: the events of the stream do not depend on how the network cuts it. Feeding any chunks one after
  the other gives the payloads and the rest that feeding their concatenation at once gives.
\<close>

theorem chunking_irrelevant:
  "feed_all ([], []) chunks = feed [] (concat chunks)"
proof (induction chunks rule: rev_induct)
  case Nil
  show ?case by (simp add: feed_all_def feed_def Let_def)
next
  case (snoc c cs)
  then have "feed_all ([], []) cs = (fst (feed [] (concat cs)), snd (feed [] (concat cs)))" by simp
  then show ?case by (simp add: feed_all_def feed_append [of "[]"] case_prod_beta)
qed

text \<open>
  C9: reconnects back off and do not pile up. Whatever the user and the network do, the delay of the
  next reconnect is 1, 2, 4, 8, 16 or 30 seconds, and so is that of a pending one; a reconnect is
  pending only while the effect is mounted, and the running effect never has more than one
  connection open or pending.
\<close>

theorem backoff_bounded:
  "let s = foldl (live_step qc) (live_init q) es in
   lv_delay s \<in> {1000, 2000, 4000, 8000, 16000, 30000}
   \<and> (case lv_timer s of None \<Rightarrow> True | Some d \<Rightarrow> d \<in> {1000, 2000, 4000, 8000, 16000, 30000} \<and> lv_mounted s)
   \<and> active s + (if lv_timer s = None then 0 else 1) \<le> 1"
proof -
  have "live_inv (foldl (live_step qc) (live_init q) es)"
    by (rule live_runs.run_inv) (simp add: live_inv_def live_init_def active_def backoff_def INITIAL_RETRY_DELAY_MS_def)
  then show ?thesis
    unfolding Let_def live_inv_def backoff_def by (simp split: option.splits)
qed

text \<open>
  a call of \<open>connect\<close> left over from an earlier run of the effect spoils the status. The call does
  not look whether its effect is still mounted when its token arrives, and its abort controller does
  not exist yet when the cleanup runs: it opens a second connection and then reports
  \<open>disconnected\<close> while the connection of the current run is open and being read.
\<close>

theorem stale_connect_status:
  "let s = foldl (live_step listed_client) (live_init \<lparr>lc_data = [], lc_invalidated = []\<rparr>)
             [Run True, Cleanup, Run True, Token 1 (Some ''new''), Response 1 200 True,
              Token 0 (Some ''old''), Response 0 200 True] in
   lv_status s = Disconnected \<and> lv_mounted s
   \<and> lv_conns s = [\<lparr>cn_effect = 1, cn_phase = Done\<rparr>, \<lparr>cn_effect = 2, cn_phase = Reading []\<rparr>]"
  by code_simp

end
