(* ===== verification/MemoFilters.thy ===== *)
theory MemoFilters
  imports AuthFlow Json Proto
begin

text \<open>
  The filters of a memo list: the context with its form in the address
  (\<^verbatim>\<open>contexts/MemoFilterContext.tsx\<close>), the filter expression sent to the server
  (\<^verbatim>\<open>hooks/useMemoFilters.ts\<close>, \<^verbatim>\<open>helpers/resource-names.ts\<close>), the search of the link dialog
  (\<^verbatim>\<open>components/MemoEditor/hooks/useLinkMemo.ts\<close>) and the date a filter gives new memos
  (\<^verbatim>\<open>components/MemoEditor/utils/deriveDefaultCreateTime.ts\<close>).
\<close>

section \<open>Filters and their text\<close>

text \<open>The code casts any text of the address to a factor, so a factor is a text.\<close>

record memo_filter =
  mf_factor :: string
  mf_value :: string

definition filter_factors :: "string list" where
  "filter_factors = [''tagSearch'', ''visibility'', ''contentSearch'', ''displayTime'', ''pinned'',
     ''property.hasLink'', ''property.hasTaskList'', ''property.hasCode'']"

text \<open>
  \<open>encodeURIComponent\<close> and \<open>decodeURIComponent\<close> on the characters of the model, which have one or two
  bytes; the latter is \<open>None\<close> where it throws. An escape of a character outside the model counts as
  malformed.
\<close>

definition uri_plain :: "char \<Rightarrow> bool" where
  "uri_plain c \<longleftrightarrow> is_alnum_ascii c \<or> c \<in> set ''-_.!~*()'' \<or> code_unit c = 39"

definition percent_byte :: "nat \<Rightarrow> string" where
  "percent_byte b = [CHR 0x25, upper_hex (b div 16), upper_hex (b mod 16)]"

definition encodeURIComponent :: "string \<Rightarrow> string" where
  "encodeURIComponent s =
     concat (map (\<lambda>c. if uri_plain c then [c] else concat (map percent_byte (utf8 c))) s)"

definition take_percent :: "string \<Rightarrow> (nat \<times> string) option" where
  "take_percent s =
     (case s of
        p # a # b # r \<Rightarrow>
          (case (hex_val a, hex_val b) of
             (Some x, Some y) \<Rightarrow> if p = CHR 0x25 then Some (x * 16 + y, r) else None
           | _ \<Rightarrow> None)
      | _ \<Rightarrow> None)"

lemma take_percent_shorter: "take_percent s = Some (n, r) \<Longrightarrow> length r < length s"
  by (auto simp: take_percent_def split: list.splits option.splits if_splits)

function decodeURIComponent :: "string \<Rightarrow> string option" where
  "decodeURIComponent s =
     (case s of
        [] \<Rightarrow> Some []
      | c # r \<Rightarrow>
          if c \<noteq> CHR 0x25 then map_option ((#) c) (decodeURIComponent r)
          else
            (case take_percent s of
               None \<Rightarrow> None
             | Some (n, r1) \<Rightarrow>
                 if n < 128 then map_option ((#) (unit_char n)) (decodeURIComponent r1)
                 else if n = 194 \<or> n = 195 then
                   (case take_percent r1 of
                      None \<Rightarrow> None
                    | Some (k, r2) \<Rightarrow>
                        if 128 \<le> k \<and> k < 192
                        then map_option ((#) (unit_char ((n - 192) * 64 + (k - 128)))) (decodeURIComponent r2)
                        else None)
                 else None))"
  by pat_completeness auto
termination
  by (relation "measure length") (auto dest!: take_percent_shorter)

declare decodeURIComponent.simps [simp del]

definition parseFilterQuery :: "string option \<Rightarrow> memo_filter list" where
  "parseFilterQuery query =
     (case query of
        None \<Rightarrow> []
      | Some [] \<Rightarrow> []
      | Some q \<Rightarrow>
          (let parsed = map (\<lambda>filterStr.
                 let parts = split_char CHR '':'' filterStr;
                     factor = parts ! 0;
                     val = (if 1 < length parts then parts ! 1 else []) in
                 map_option (\<lambda>v. \<lparr>mf_factor = factor, mf_value = v\<rparr>) (decodeURIComponent val))
               (split_char CHR '','' q) in
           if list_ex (\<lambda>f. f = None) parsed then [] else map the parsed))"

definition stringifyFilters :: "memo_filter list \<Rightarrow> string" where
  "stringifyFilters filters =
     join '','' (map (\<lambda>f. mf_factor f @ '':'' @ encodeURIComponent (mf_value f)) filters)"

definition getMemoFilterKey :: "memo_filter \<Rightarrow> string" where
  "getMemoFilterKey f = mf_factor f @ '':'' @ mf_value f"

section \<open>The context\<close>

record filter_state =
  fs_filters :: "memo_filter list"
  fs_shortcut :: "string option"

definition getFiltersByFactor :: "string \<Rightarrow> filter_state \<Rightarrow> memo_filter list" where
  "getFiltersByFactor factor s = filter (\<lambda>f. mf_factor f = factor) (fs_filters s)"

definition setFilters :: "memo_filter list \<Rightarrow> filter_state \<Rightarrow> filter_state" where
  "setFilters newFilters s = s\<lparr>fs_filters := newFilters\<rparr>"

definition addFilter :: "memo_filter \<Rightarrow> filter_state \<Rightarrow> filter_state" where
  "addFilter f s = s\<lparr>fs_filters := uniq_by getMemoFilterKey [] (fs_filters s @ [f])\<rparr>"

definition removeFilter :: "(memo_filter \<Rightarrow> bool) \<Rightarrow> filter_state \<Rightarrow> filter_state" where
  "removeFilter predicate s = s\<lparr>fs_filters := filter (\<lambda>f. \<not> predicate f) (fs_filters s)\<rparr>"

definition removeFiltersByFactor :: "string \<Rightarrow> filter_state \<Rightarrow> filter_state" where
  "removeFiltersByFactor factor s = s\<lparr>fs_filters := filter (\<lambda>f. mf_factor f \<noteq> factor) (fs_filters s)\<rparr>"

definition clearAllFilters :: "filter_state \<Rightarrow> filter_state" where
  "clearAllFilters s = \<lparr>fs_filters = [], fs_shortcut = None\<rparr>"

definition setShortcut :: "string option \<Rightarrow> filter_state \<Rightarrow> filter_state" where
  "setShortcut newShortcut s =
     (let s1 = s\<lparr>fs_shortcut := newShortcut\<rparr> in
      if newShortcut \<noteq> None then removeFiltersByFactor ''contentSearch'' s1 else s1)"

definition hasFilter :: "memo_filter \<Rightarrow> filter_state \<Rightarrow> bool" where
  "hasFilter f s = list_ex (\<lambda>g. getMemoFilterKey g = getMemoFilterKey f) (fs_filters s)"

definition hasActiveFilters :: "filter_state \<Rightarrow> bool" where
  "hasActiveFilters s \<longleftrightarrow> fs_filters s \<noteq> [] \<or> fs_shortcut s \<noteq> None"

section \<open>The filter expression\<close>

definition getVisibilityName :: "visibility \<Rightarrow> string" where
  "getVisibilityName v =
     (case v of PUBLIC \<Rightarrow> ''PUBLIC'' | PROTECTED \<Rightarrow> ''PROTECTED'' | PRIVATE \<Rightarrow> ''PRIVATE'' | _ \<Rightarrow> ''PRIVATE'')"

definition getShortcutId :: "string \<Rightarrow> string" where
  "getShortcutId name =
     (let parts = split_char CHR ''/'' name in if length parts = 4 then parts ! 3 else [])"

definition escapeFilterValue :: "string \<Rightarrow> string" where
  "escapeFilterValue value = stringify_str value"

definition userNamePrefix :: string where "userNamePrefix = ''users/''"
definition memoNamePrefix :: string where "memoNamePrefix = ''memos/''"
definition identityProviderNamePrefix :: string where "identityProviderNamePrefix = ''identity-providers/''"

definition buildMemoCreatorFilter :: "string \<Rightarrow> string option" where
  "buildMemoCreatorFilter name =
     (if name = [] then None
      else
        (let normalizedName = (if startsWith name userNamePrefix then name else userNamePrefix @ name) in
         Some (''creator == '' @ stringify_str normalizedName)))"

definition extractMemoIdFromName :: "string \<Rightarrow> string" where
  "extractMemoIdFromName name = last (split_str memoNamePrefix name)"

definition extractIdentityProviderUidFromName :: "string \<Rightarrow> string" where
  "extractIdentityProviderUidFromName name = last (split_str identityProviderNamePrefix name)"

record memo_filter_options =
  fo_creatorName :: "string option"
  fo_includeShortcuts :: bool
  fo_includePinned :: bool
  fo_visibilities :: "visibility list option"

text \<open>
  A number in a template literal: a date is what \<open>new Date\<close> makes of the text, its time and the offset
  of its zone in minutes, or invalid (\<open>None\<close>).
\<close>

definition date_condition :: "(int \<times> int) option \<Rightarrow> string" where
  "date_condition date =
     (let (a, b) = (case date of
            None \<Rightarrow> (''NaN'', ''NaN'')
          | Some (time, offset) \<Rightarrow>
              (let start = (time + offset * 60 * 1000) div 1000 in
               (show_int start, show_int (start + 60 * 60 * 24)))) in
      ''created_ts >= timestamp('' @ a @ '') && created_ts < timestamp('' @ b @ '')'')"

definition filter_condition :: "(string \<Rightarrow> (int \<times> int) option) \<Rightarrow> bool \<Rightarrow> memo_filter \<Rightarrow> string option" where
  "filter_condition parse_date includePinned f =
     (if mf_factor f = ''contentSearch'' then Some (''content.contains('' @ escapeFilterValue (mf_value f) @ '')'')
      else if mf_factor f = ''tagSearch'' then Some (''tag in ['' @ escapeFilterValue (mf_value f) @ '']'')
      else if mf_factor f = ''pinned'' then (if includePinned then Some ''pinned'' else None)
      else if mf_factor f = ''property.hasLink'' then Some ''has_link''
      else if mf_factor f = ''property.hasTaskList'' then Some ''has_task_list''
      else if mf_factor f = ''property.hasCode'' then Some ''has_code''
      else if mf_factor f = ''displayTime'' then Some (date_condition (parse_date (mf_value f)))
      else None)"

definition selectedShortcut :: "bool \<Rightarrow> string option \<Rightarrow> shortcut list \<Rightarrow> shortcut option" where
  "selectedShortcut includeShortcuts currentShortcut shortcuts =
     (if \<not> includeShortcuts then None
      else find (\<lambda>sc. Some (getShortcutId (sc_name sc)) = currentShortcut) shortcuts)"

definition shortcut_condition :: "shortcut option \<Rightarrow> string list" where
  "shortcut_condition selected =
     (case selected of None \<Rightarrow> [] | Some sc \<Rightarrow> if sc_filter sc = [] then [] else [sc_filter sc])"

definition useMemoFilters ::
  "(string \<Rightarrow> (int \<times> int) option) \<Rightarrow> memo_filter_options \<Rightarrow> shortcut list \<Rightarrow> filter_state \<Rightarrow> string option" where
  "useMemoFilters parse_date options shortcuts context =
     (let creator = (case fo_creatorName options of
            None \<Rightarrow> []
          | Some n \<Rightarrow> (case buildMemoCreatorFilter n of None \<Rightarrow> [] | Some c \<Rightarrow> [c]));
          shortcut = (if fo_includeShortcuts options
            then shortcut_condition (selectedShortcut (fo_includeShortcuts options) (fs_shortcut context) shortcuts)
            else []);
          active = List.map_filter (filter_condition parse_date (fo_includePinned options)) (fs_filters context);
          visibility = (case fo_visibilities options of
            None \<Rightarrow> []
          | Some [] \<Rightarrow> []
          | Some vs \<Rightarrow> [''visibility in ['' @ join '', '' (map (\<lambda>v. [CHR 0x22] @ getVisibilityName v @ [CHR 0x22]) vs) @ '']'']);
          conditions = creator @ shortcut @ active @ visibility in
      if length conditions > 0 then Some (join '' && '' conditions) else None)"

text \<open>The filter of the search in the link dialog.\<close>

definition link_search_filter :: "string \<Rightarrow> string \<Rightarrow> string" where
  "link_search_filter userName searchText =
     join '' && ''
       ((case buildMemoCreatorFilter userName of None \<Rightarrow> [] | Some c \<Rightarrow> [c])
        @ (if searchText = [] then [] else [''content.contains('' @ [CHR 0x22] @ searchText @ [CHR 0x22] @ '')'']))"

definition linkable_memos :: "string option \<Rightarrow> memo list \<Rightarrow> memo list" where
  "linkable_memos currentMemoName fetchedMemos = filter (\<lambda>memo. Some (m_name memo) \<noteq> currentMemoName) fetchedMemos"

definition isAlreadyLinked :: "memo_relation list \<Rightarrow> string \<Rightarrow> bool" where
  "isAlreadyLinked existingRelations memoName \<longleftrightarrow>
     Some memoName \<in> set (map (\<lambda>r. map_option rm_name (r_relatedMemo r)) existingRelations)"

definition addMemoRelation :: "memo \<Rightarrow> memo_relation" where
  "addMemoRelation m = \<lparr>r_memo = None,
     r_relatedMemo = Some \<lparr>rm_name = m_name m, rm_snippet = m_snippet m\<rparr>, r_type = REFERENCE\<rparr>"

section \<open>The date of new memos\<close>

text \<open>A local date and time: year, month (from 0), day, hours, minutes and seconds.\<close>

record local_date =
  ld_year :: int
  ld_month :: int
  ld_day :: int
  ld_time :: "int \<times> int \<times> int"

definition leap_year :: "int \<Rightarrow> bool" where
  "leap_year y \<longleftrightarrow> y mod 4 = 0 \<and> (y mod 100 \<noteq> 0 \<or> y mod 400 = 0)"

definition month_days :: "int \<Rightarrow> int \<Rightarrow> int" where
  "month_days y m = (if m = 1 then (if leap_year y then 29 else 28) else if m \<in> {3, 5, 8, 10} then 30 else 31)"

text \<open>
  \<open>new Date(y, m, d, \<dots>)\<close> for at most two digits of month and day: the year of two digits counts from
  1900, a month past the year and a day past the month roll on.
\<close>

fun roll_days :: "nat \<Rightarrow> int \<Rightarrow> int \<Rightarrow> int \<Rightarrow> int \<times> int \<times> int" where
  "roll_days 0 y m d = (y, m, d)"
| "roll_days (Suc n) y m d =
     (if d < 1 then (let (y', m') = (if m = 0 then (y - 1, 11) else (y, m - 1)) in roll_days n y' m' (d + month_days y' m'))
      else if month_days y m < d
      then roll_days n (if m = 11 then y + 1 else y) (if m = 11 then 0 else m + 1) (d - month_days y m)
      else (y, m, d))"

definition make_date :: "int \<Rightarrow> int \<Rightarrow> int \<Rightarrow> int \<times> int \<times> int \<Rightarrow> local_date" where
  "make_date y m d time =
     (let y1 = (if 0 \<le> y \<and> y \<le> 99 then 1900 + y else y);
          (y2, m2, d2) = roll_days 5 (y1 + m div 12) (m mod 12) d in
      \<lparr>ld_year = y2, ld_month = m2, ld_day = d2, ld_time = time\<rparr>)"

text \<open>The groups of \<open>/^(\d{4})-(\d{2})-(\d{2})$/\<close>.\<close>

definition match_date :: "string \<Rightarrow> (string \<times> string \<times> string) option" where
  "match_date s =
     (if length s = 10 \<and> list_all is_digit (take 4 s) \<and> s ! 4 = CHR ''-'' \<and> list_all is_digit (take 2 (drop 5 s))
         \<and> s ! 7 = CHR ''-'' \<and> list_all is_digit (drop 8 s)
      then Some (take 4 s, take 2 (drop 5 s), drop 8 s) else None)"

definition deriveDefaultCreateTimeFromFilters :: "memo_filter list \<Rightarrow> int \<times> int \<times> int \<Rightarrow> local_date option" where
  "deriveDefaultCreateTimeFromFilters filters now =
     (case find (\<lambda>f. mf_factor f = ''displayTime'') filters of
        None \<Rightarrow> None
      | Some f \<Rightarrow>
          (case match_date (mf_value f) of
             None \<Rightarrow> None
           | Some (a, b, c) \<Rightarrow>
               (let year = int (parse_digits a); month = int (parse_digits b); day = int (parse_digits c);
                    candidate = make_date year (month - 1) day now in
                if ld_year candidate \<noteq> year \<or> ld_month candidate \<noteq> month - 1 \<or> ld_day candidate \<noteq> day
                then None else Some candidate)))"

section \<open>Lemmas on the address\<close>

lemma hex_val_upper: "n < 16 \<Longrightarrow> hex_val (upper_hex n) = Some n"
  by (auto simp: hex_val_def upper_hex_def Let_def)

lemma take_percent_byte: "b < 256 \<Longrightarrow> take_percent (percent_byte b @ r) = Some (b, r)"
  by (simp add: take_percent_def percent_byte_def hex_val_upper)

lemma percent_byte_first: "percent_byte b @ r = CHR 0x25 # tl (percent_byte b) @ r"
  by (simp add: percent_byte_def)

lemma uri_plain_safe: "uri_plain c \<Longrightarrow> c \<noteq> CHR 0x25 \<and> c \<noteq> CHR '','' \<and> c \<noteq> CHR '':''"
  by (auto simp: uri_plain_def is_alnum_ascii_def is_upper_ascii_def is_lower_ascii_def is_digit_def code_unit_def)

definition uri_char :: "char \<Rightarrow> string" where
  "uri_char c = (if uri_plain c then [c] else concat (map percent_byte (utf8 c)))"

lemma encode_uri_char: "encodeURIComponent s = concat (map uri_char s)"
  by (simp add: encodeURIComponent_def uri_char_def [abs_def])

lemma decode_byte:
  "b < 128 \<Longrightarrow> decodeURIComponent (percent_byte b @ r) = map_option ((#) (unit_char b)) (decodeURIComponent r)"
  by (subst decodeURIComponent.simps) (simp add: percent_byte_first take_percent_byte [unfolded percent_byte_first])

lemma decode_two_bytes:
  assumes "a \<in> {194, 195}" and "128 \<le> b" and "b < 192"
  shows "decodeURIComponent (percent_byte a @ percent_byte b @ r) =
    map_option ((#) (unit_char ((a - 192) * 64 + (b - 128)))) (decodeURIComponent r)"
proof -
  have "take_percent (percent_byte a @ percent_byte b @ r) = Some (a, percent_byte b @ r)"
    "take_percent (percent_byte b @ r) = Some (b, r)" using assms by (auto intro!: take_percent_byte)
  then show ?thesis using assms
    by (subst decodeURIComponent.simps) (auto simp: percent_byte_first [of a])
qed

lemma decode_uri_char: "decodeURIComponent (uri_char c @ r) = map_option ((#) c) (decodeURIComponent r)"
proof -
  have n: "code_unit c < 256" by (rule code_unit_less)
  consider "uri_plain c" | "\<not> uri_plain c" "code_unit c < 128" | "\<not> uri_plain c" "128 \<le> code_unit c" by linarith
  then show ?thesis
  proof cases
    case 1
    then show ?thesis using uri_plain_safe [OF 1]
      by (subst decodeURIComponent.simps) (simp add: uri_char_def)
  next
    case 2
    then show ?thesis by (simp add: uri_char_def utf8_def decode_byte)
  next
    case 3
    have a: "192 + code_unit c div 64 \<in> {194, 195}"
      using n 3 by (auto simp: div_le_mono less_mult_imp_div_less)
    have "code_unit c div 64 * 64 + code_unit c mod 64 = code_unit c" by simp
    then show ?thesis using 3 decode_two_bytes [OF a, of "128 + code_unit c mod 64" r]
      by (simp add: uri_char_def utf8_def Let_def)
  qed
qed

lemma decode_encode_uri: "decodeURIComponent (encodeURIComponent s) = Some s"
proof (induction s)
  case Nil
  then show ?case by (subst decodeURIComponent.simps) (simp add: encodeURIComponent_def)
next
  case (Cons c s)
  then show ?case by (simp add: encode_uri_char decode_uri_char)
qed

lemma upper_hex_no_sep: "n < 16 \<Longrightarrow> upper_hex n \<noteq> CHR '','' \<and> upper_hex n \<noteq> CHR '':''"
proof -
  assume "n < 16"
  then have "code_unit (upper_hex n) \<in> {48..<58} \<union> {65..<71}" by (auto simp: upper_hex_def)
  then show ?thesis by (auto simp: code_unit_def)
qed

lemma percent_byte_no_sep: "b < 256 \<Longrightarrow> CHR '','' \<notin> set (percent_byte b) \<and> CHR '':'' \<notin> set (percent_byte b)"
  using upper_hex_no_sep [of "b div 16"] upper_hex_no_sep [of "b mod 16"]
  by (simp add: percent_byte_def less_mult_imp_div_less) auto

lemma utf8_bytes: "b \<in> set (utf8 c) \<Longrightarrow> b < 256"
  using code_unit_less [of c] by (auto simp: utf8_def Let_def split: if_splits)

lemma encode_no_sep: "CHR '','' \<notin> set (encodeURIComponent s) \<and> CHR '':'' \<notin> set (encodeURIComponent s)"
  using uri_plain_safe percent_byte_no_sep utf8_bytes
  by (auto simp: encode_uri_char uri_char_def split: if_splits)

section \<open>A scanner of filter expressions\<close>

text \<open>
  The lexical structure of an expression: string literals with backslash escapes, brackets, and
  whether a disjunction occurs outside of both.
\<close>

datatype cel_mode = Plain | Pipe | In_String | Escaped

definition cel_step :: "cel_mode \<times> int \<times> bool \<Rightarrow> char \<Rightarrow> cel_mode \<times> int \<times> bool" where
  "cel_step s c =
     (let (mode, depth, found) = s in
      case mode of
        Escaped \<Rightarrow> (In_String, depth, found)
      | In_String \<Rightarrow>
          if c = escape_mark then (Escaped, depth, found)
          else if c = quote_mark then (Plain, depth, found) else s
      | _ \<Rightarrow>
          if c = quote_mark then (In_String, depth, found)
          else if c = CHR ''('' \<or> c = CHR ''['' then (Plain, depth + 1, found)
          else if c = CHR '')'' \<or> c = CHR '']'' then (Plain, depth - 1, found)
          else if c = CHR ''|'' then (if mode = Pipe then (Plain, depth, found \<or> depth = 0) else (Pipe, depth, found))
          else (Plain, depth, found))"

definition cel_scan :: "cel_mode \<times> int \<times> bool \<Rightarrow> string \<Rightarrow> cel_mode \<times> int \<times> bool" where
  "cel_scan = foldl cel_step"

text \<open>An expression whose strings and brackets are closed and that has no disjunction outside of them.\<close>

definition one_conjunct :: "string \<Rightarrow> bool" where
  "one_conjunct s = (cel_scan (Plain, 0, False) s = (Plain, 0, False))"

text \<open>A text that leaves the scanner where it was, at any depth.\<close>

definition closed_text :: "string \<Rightarrow> bool" where
  "closed_text s \<longleftrightarrow> (\<forall>d f. cel_scan (Plain, d, f) s = (Plain, d, f))"

lemma scan_append [simp]: "cel_scan st (a @ b) = cel_scan (cel_scan st a) b"
  by (simp add: cel_scan_def)

lemma scan_Cons [simp]: "cel_scan st (c # s) = cel_scan (cel_step st c) s"
  by (simp add: cel_scan_def)

lemma scan_Nil [simp]: "cel_scan st [] = st"
  by (simp add: cel_scan_def)

lemma scan_escape_char: "cel_scan (In_String, d, f) (escape_char c) = (In_String, d, f)"
proof -
  have "hex_digit k \<noteq> quote_mark \<and> hex_digit k \<noteq> escape_mark" if "k < 16" for k
  proof -
    have "code_unit (hex_digit k) \<in> {48..<58} \<union> {97..<103}" using that by (auto simp: hex_digit_def)
    then show ?thesis by (auto simp: code_unit_def)
  qed
  then show ?thesis
    by (auto simp: escape_char_def Let_def cel_step_def)
qed

lemma scan_escapes: "cel_scan (In_String, d, f) (concat (map escape_char s)) = (In_String, d, f)"
  by (induction s) (simp_all add: scan_escape_char)

lemma scan_literal: "cel_scan (Plain, d, f) (stringify_str s) = (Plain, d, f)"
  by (simp add: stringify_str_def scan_escapes) (simp add: cel_step_def scan_escapes)

lemma closed_char: "c \<notin> set ''()[]|'' \<Longrightarrow> c \<noteq> quote_mark \<Longrightarrow> cel_step (Plain, d, f) c = (Plain, d, f)"
  by (auto simp: cel_step_def)

lemma closed_plain: "list_all (\<lambda>c. c \<notin> set ''()[]|'' \<and> c \<noteq> quote_mark) s \<Longrightarrow> cel_scan (Plain, d, f) s = (Plain, d, f)"
  by (induction s) (simp_all add: closed_char)

lemma closed_append: "closed_text a \<Longrightarrow> closed_text b \<Longrightarrow> closed_text (a @ b)"
  by (simp add: closed_text_def)

lemma closed_literal: "closed_text (stringify_str s)"
  by (simp add: closed_text_def scan_literal)

lemma closed_bracket:
  "closed_text s \<Longrightarrow> closed_text (CHR ''('' # s @ [CHR '')''])" "closed_text s \<Longrightarrow> closed_text (CHR ''['' # s @ [CHR '']''])"
  by (simp_all add: closed_text_def cel_step_def)

lemma closed_join: "closed_text sep \<Longrightarrow> list_all closed_text xs \<Longrightarrow> closed_text (join sep xs)"
  by (induction sep xs rule: join.induct) (auto simp: closed_append closed_text_def)

lemma closed_words:
  "closed_text ''creator == ''" "closed_text ''content.contains''" "closed_text ''tag in ''" "closed_text ''pinned''"
  "closed_text ''has_link''" "closed_text ''has_task_list''" "closed_text ''has_code''"
  "closed_text ''created_ts >= timestamp''" "closed_text '' && created_ts < timestamp''" "closed_text ''visibility in ''"
  "closed_text '', ''" "closed_text '' && ''" "closed_text ''NaN''"
  by (simp_all add: closed_text_def cel_step_def)

lemma closed_digits: "list_all (\<lambda>c. is_digit c \<or> c = CHR ''-'') s \<Longrightarrow> closed_text s"
  unfolding closed_text_def
  by (intro allI closed_plain) (auto simp: list_all_iff is_digit_def code_unit_def)

lemma closed_int: "closed_text (show_int i)"
  by (rule closed_digits) (auto simp: show_int_def list_all_iff dest: show_nat_digits)

lemma closed_date: "closed_text (date_condition d)"
proof -
  have "closed_text (''created_ts >= timestamp'' @ (CHR ''('' # a @ [CHR '')'']) @ '' && created_ts < timestamp''
      @ (CHR ''('' # b @ [CHR '')'']))" if "closed_text a" "closed_text b" for a b
    by (intro closed_append closed_bracket closed_words that)
  then have g: "closed_text (''created_ts >= timestamp('' @ a @ '') && created_ts < timestamp('' @ b @ '')'')"
    if "closed_text a" "closed_text b" for a b using that by simp
  show ?thesis
    by (cases d) (simp_all only: date_condition_def Let_def option.case prod.case case_prod_beta fst_conv snd_conv,
        rule g [OF closed_words(13) closed_words(13)], rule g [OF closed_int closed_int])
qed

lemma closed_creator: "buildMemoCreatorFilter n = Some c \<Longrightarrow> closed_text c"
  using closed_append [OF closed_words(1) closed_literal]
  by (auto simp: buildMemoCreatorFilter_def Let_def split: if_splits)

lemma closed_condition: "filter_condition pd pin f = Some c \<Longrightarrow> closed_text c"
proof -
  have "closed_text (''content.contains'' @ CHR ''('' # stringify_str s @ [CHR '')''])"
    "closed_text (''tag in '' @ CHR ''['' # stringify_str s @ [CHR '']''])" for s
    by (intro closed_append closed_words closed_bracket closed_literal)+
  then show "filter_condition pd pin f = Some c \<Longrightarrow> closed_text c"
    by (auto simp: filter_condition_def escapeFilterValue_def closed_words closed_date split: if_splits)
      (metis closed_words(4))
qed

lemma closed_visibility:
  "closed_text (''visibility in ['' @ join '', '' (map (\<lambda>v. [CHR 0x22] @ getVisibilityName v @ [CHR 0x22]) vs) @ '']'')"
proof -
  have "closed_text ([CHR 0x22] @ getVisibilityName v @ [CHR 0x22])" for v
    by (cases v) (simp_all add: getVisibilityName_def closed_text_def cel_step_def)
  then have "closed_text (''visibility in '' @ CHR ''['' # join '', '' (map (\<lambda>v. [CHR 0x22] @ getVisibilityName v @ [CHR 0x22]) vs) @ '']'')"
    by (intro closed_append closed_words closed_bracket closed_join) (simp add: list_all_iff)
  then show ?thesis by simp
qed

lemma split_stringified:
  assumes "list_all (\<lambda>f. mf_factor f \<in> set filter_factors) fs" and "fs \<noteq> []"
  shows "split_char CHR '','' (stringifyFilters fs) = map (\<lambda>f. mf_factor f @ '':'' @ encodeURIComponent (mf_value f)) fs"
    and "stringifyFilters fs \<noteq> []"
proof -
  have no: "CHR '','' \<notin> set (mf_factor f @ '':'' @ encodeURIComponent (mf_value f))" if "f \<in> set fs" for f
    using assms(1) that encode_no_sep by (auto simp: list_all_iff filter_factors_def)
  then show split: "split_char CHR '','' (stringifyFilters fs) = map (\<lambda>f. mf_factor f @ '':'' @ encodeURIComponent (mf_value f)) fs"
    unfolding stringifyFilters_def using assms(2) by (intro split_join_char) auto
  show "stringifyFilters fs \<noteq> []"
    using assms(2) by (cases fs; cases "tl fs") (auto simp: stringifyFilters_def)
qed

lemma split_filter:
  "mf_factor f \<in> set filter_factors \<Longrightarrow>
   split_char CHR '':'' (mf_factor f @ '':'' @ encodeURIComponent (mf_value f)) = [mf_factor f, encodeURIComponent (mf_value f)]"
proof -
  assume "mf_factor f \<in> set filter_factors"
  then have "CHR '':'' \<notin> set (mf_factor f)" by (auto simp: filter_factors_def)
  then show ?thesis
    using encode_no_sep split_char_append_sep [of "CHR '':''" "mf_factor f"] by (simp add: split_char_plain)
qed

section \<open>Properties\<close>

text \<open>
  C12: without a shortcut the expression is a conjunction of exactly the selected conditions: whatever
  text the user searches for, every string and bracket is closed and no disjunction escapes, and the
  text stands in the expression as a literal that reads back as that text.
\<close>

theorem filter_expression_safe:
  "(case useMemoFilters parse_date (options\<lparr>fo_includeShortcuts := False\<rparr>) shortcuts context of
      None \<Rightarrow> True | Some e \<Rightarrow> one_conjunct e)
   \<and> JSON_parse (escapeFilterValue text) = Some (JStr text)"
proof -
  let ?o = "options\<lparr>fo_includeShortcuts := False\<rparr>"
  define creator where "creator = (case fo_creatorName ?o of
      None \<Rightarrow> [] | Some n \<Rightarrow> (case buildMemoCreatorFilter n of None \<Rightarrow> [] | Some c \<Rightarrow> [c]))"
  define active where "active = List.map_filter (filter_condition parse_date (fo_includePinned ?o)) (fs_filters context)"
  define visibility where "visibility = (case fo_visibilities ?o of None \<Rightarrow> [] | Some [] \<Rightarrow> []
      | Some vs \<Rightarrow> [''visibility in ['' @ join '', '' (map (\<lambda>v. [CHR 0x22] @ getVisibilityName v @ [CHR 0x22]) vs) @ '']''])"
  have "list_all closed_text creator"
    by (auto simp: creator_def closed_creator split: option.split)
  moreover have "list_all closed_text active"
    by (auto simp: active_def list_all_iff set_map_filter dest: closed_condition)
  moreover have "list_all closed_text visibility"
    unfolding visibility_def using closed_visibility by (simp only: list.pred_inject simp_thms split: option.split list.split)
  ultimately have "one_conjunct (join '' && '' (creator @ active @ visibility))"
    using closed_join [OF closed_words(12), of "creator @ active @ visibility"]
    by (simp add: closed_text_def one_conjunct_def)
  moreover have "useMemoFilters parse_date ?o shortcuts context =
      (if 0 < length (creator @ active @ visibility) then Some (join '' && '' (creator @ active @ visibility)) else None)"
    unfolding useMemoFilters_def creator_def active_def visibility_def by (simp add: Let_def del: append_Cons)
  ultimately show ?thesis
    by (simp add: escapeFilterValue_def parse_stringify)
qed

text \<open>
  two places leave the conjunction open. A shortcut's own expression is joined without
  brackets, so one with a disjunction takes the other conditions (here the creator) out of force for
  its second part; and the search of the link dialog puts the text between quotes as it is, so a
  quote in it changes the expression.
\<close>

theorem filter_expression_open:
  "useMemoFilters (\<lambda>_. None)
      \<lparr>fo_creatorName = Some ''users/1'', fo_includeShortcuts = True, fo_includePinned = False, fo_visibilities = None\<rparr>
      [\<lparr>sc_name = ''users/1/shortcuts/s'', sc_title = [], sc_filter = ''pinned || has_link''\<rparr>]
      \<lparr>fs_filters = [], fs_shortcut = Some ''s''\<rparr>
     = Some (''creator == '' @ stringify_str ''users/1'' @ '' && pinned || has_link'')
   \<and> \<not> one_conjunct (''creator == '' @ stringify_str ''users/1'' @ '' && pinned || has_link'')
   \<and> \<not> one_conjunct (link_search_filter ''users/1'' [CHR 0x22])"
  by code_simp

text \<open>
  the filters survive the trip through the address: what is written to the query is read back as
  the same filters, whatever their values hold.
\<close>

theorem filters_roundtrip:
  assumes "list_all (\<lambda>f. mf_factor f \<in> set filter_factors) fs"
  shows "parseFilterQuery (Some (stringifyFilters fs)) = fs"
proof (cases "fs = []")
  case True
  then show ?thesis by (simp add: parseFilterQuery_def stringifyFilters_def)
next
  case False
  have each: "f \<in> set fs \<Longrightarrow> split_char CHR '':'' (mf_factor f @ '':'' @ encodeURIComponent (mf_value f))
      = [mf_factor f, encodeURIComponent (mf_value f)]" for f
    using assms by (intro split_filter) (auto simp: list_all_iff)
  obtain c r where q: "stringifyFilters fs = c # r"
    using split_stringified(2) [OF assms False] by (cases "stringifyFilters fs") auto
  show ?thesis
    using split_stringified(1) [OF assms False, unfolded q] each
    by (auto simp: parseFilterQuery_def q Let_def o_def list_ex_iff decode_encode_uri cong: map_cong
        simp del: split_char.simps append.simps intro!: map_idI)
qed

theorem filters_roundtrip_witness:
  "parseFilterQuery (Some (stringifyFilters [\<lparr>mf_factor = ''contentSearch'', mf_value = ''a:b,c%''\<rparr>]))
     = [\<lparr>mf_factor = ''contentSearch'', mf_value = ''a:b,c%''\<rparr>]"
  by (rule filters_roundtrip) (simp add: filter_factors_def)

end
