(* ===== verification/MemoLists.thy ===== *)
theory MemoLists
  imports Proto "HOL-Library.Product_Lexorder" "HOL-Library.Multiset"
begin

text \<open>
  What the memo lists show: their order (\<^verbatim>\<open>hooks/useMemoSorting.ts\<close>), the counts of the activity
  calendar and of the tags (\<^verbatim>\<open>hooks/useFilteredMemoStats.ts\<close>), the relations of a memo
  (\<^verbatim>\<open>components/MemoMetadata/Relation/relationHelpers.ts\<close>) and the names of the visibilities
  (\<^verbatim>\<open>utils/memo.ts\<close>).
\<close>

section \<open>Order\<close>

datatype time_basis = Create_Time | Update_Time

definition basis_text :: "time_basis \<Rightarrow> string" where
  "basis_text b = (case b of Create_Time \<Rightarrow> ''create_time'' | Update_Time \<Rightarrow> ''update_time'')"

definition getMemoSortTime :: "memo \<Rightarrow> time_basis \<Rightarrow> timestamp option" where
  "getMemoSortTime m timeBasis = (if timeBasis = Update_Time then m_updateTime m else m_createTime m)"

text \<open>
  \<open>dayjs(time).unix()\<close>: the seconds of the time, rounded down; of the present if there is none.
  \<open>ts_date\<close> is the library's \<open>timestampDate\<close>, in milliseconds.
\<close>

definition unix :: "(timestamp \<Rightarrow> int) \<Rightarrow> int \<Rightarrow> timestamp option \<Rightarrow> int" where
  "unix ts_date now t = (case t of None \<Rightarrow> now div 1000 | Some ts \<Rightarrow> ts_date ts div 1000)"

definition hoistMemoToFront :: "memo list \<Rightarrow> string option \<Rightarrow> memo list" where
  "hoistMemoToFront memos name =
     (case name of
        None \<Rightarrow> memos
      | Some n \<Rightarrow>
          if n = [] then memos
          else
            (case find_index (\<lambda>m. m_name m = n) memos of
               None \<Rightarrow> memos
             | Some i \<Rightarrow> if i = 0 then memos else memos ! i # take i memos @ drop (Suc i) memos))"

definition orderBy :: "bool \<Rightarrow> bool \<Rightarrow> time_basis \<Rightarrow> string" where
  "orderBy pinnedFirst orderByTimeAsc timeBasis =
     (let timeOrder = (if orderByTimeAsc then basis_text timeBasis @ '' asc'' else basis_text timeBasis @ '' desc'') in
      if pinnedFirst then ''pinned desc, '' @ timeOrder else timeOrder)"

definition compare_memos :: "(timestamp \<Rightarrow> int) \<Rightarrow> bool \<Rightarrow> bool \<Rightarrow> time_basis \<Rightarrow> int \<Rightarrow> memo \<Rightarrow> memo \<Rightarrow> int" where
  "compare_memos ts_date pinnedFirst orderByTimeAsc timeBasis now a b =
     (if pinnedFirst \<and> m_pinned a \<noteq> m_pinned b then (if m_pinned b then 1 else - 1)
      else
        (let aTime = getMemoSortTime a timeBasis; bTime = getMemoSortTime b timeBasis in
         if orderByTimeAsc then unix ts_date now aTime - unix ts_date now bTime else unix ts_date now bTime - unix ts_date now aTime))"

text \<open>\<open>Array.prototype.sort\<close> with a comparator: stable, so an element goes before those it equals.\<close>

fun insert_cmp :: "('a \<Rightarrow> 'a \<Rightarrow> int) \<Rightarrow> 'a \<Rightarrow> 'a list \<Rightarrow> 'a list" where
  "insert_cmp cmp x [] = [x]"
| "insert_cmp cmp x (y # ys) = (if cmp x y \<le> 0 then x # y # ys else y # insert_cmp cmp x ys)"

definition js_sort :: "('a \<Rightarrow> 'a \<Rightarrow> int) \<Rightarrow> 'a list \<Rightarrow> 'a list" where
  "js_sort cmp xs = foldr (insert_cmp cmp) xs []"

definition listSort :: "(timestamp \<Rightarrow> int) \<Rightarrow> bool \<Rightarrow> memo_state \<Rightarrow> bool \<Rightarrow> time_basis \<Rightarrow> int \<Rightarrow> memo list \<Rightarrow> memo list" where
  "listSort ts_date pinnedFirst st orderByTimeAsc timeBasis now memos =
     js_sort (compare_memos ts_date pinnedFirst orderByTimeAsc timeBasis now) (filter (\<lambda>m. m_state m = st) memos)"

section \<open>Counts\<close>

definition timestampsForBasis :: "user_stats \<Rightarrow> time_basis \<Rightarrow> timestamp list" where
  "timestampsForBasis stats basis =
     (let createdArray = us_memoCreatedTimestamps stats; updatedArray = us_memoUpdatedTimestamps stats;
          wantUpdated = (basis = Update_Time);
          oldServerFallback = (wantUpdated \<and> length updatedArray = 0 \<and> length createdArray > 0) in
      if wantUpdated \<and> \<not> oldServerFallback then updatedArray else createdArray)"

text \<open>\<open>countBy\<close>: how often each element occurs, in the order of the first occurrences.\<close>

definition countBy :: "string list \<Rightarrow> (string \<times> int) list" where
  "countBy xs = foldl (\<lambda>m x. AList.update x (case map_of m x of None \<Rightarrow> 1 | Some n \<Rightarrow> n + 1) m) [] xs"

text \<open>
  The values of an object used as a table: numbers, or text, which an addition to an inherited
  function makes. \<open>inherited\<close> gives the text of the function an object inherits under a name.
\<close>

datatype js_count = Count int | Text string

definition add_count :: "js_count \<Rightarrow> int \<Rightarrow> js_count" where
  "add_count v n = (case v of Count k \<Rightarrow> Count (k + n) | Text s \<Rightarrow> Text (s @ show_int n))"

definition add_tag :: "(string \<Rightarrow> string option) \<Rightarrow> (string \<times> js_count) list \<Rightarrow> string \<times> int \<Rightarrow> (string \<times> js_count) list" where
  "add_tag inherited tagCount tc =
     (let (tag, count) = tc;
          old = (case map_of tagCount tag of
                   Some v \<Rightarrow> v
                 | None \<Rightarrow> (case inherited tag of Some source \<Rightarrow> Text source | None \<Rightarrow> Count 0)) in
      AList.update tag (add_count old count) tagCount)"

definition aggregate_tags :: "(string \<Rightarrow> string option) \<Rightarrow> user_stats list \<Rightarrow> (string \<times> js_count) list" where
  "aggregate_tags inherited allUserStats =
     foldl (\<lambda>m stats. foldl (add_tag inherited) m (us_tagCount stats)) [] allUserStats"

datatype explorer_context = Explore | Archived | Home | Profile

record filtered_stats =
  fl_activityStats :: "(string \<times> int) list"
  fl_tags :: "(string \<times> js_count) list"

text \<open>\<open>to_date\<close> is the local date \<open>YYYY-MM-DD\<close> of a timestamp.\<close>

definition filtered_memo_stats ::
  "(string \<Rightarrow> string option) \<Rightarrow> (timestamp \<Rightarrow> string) \<Rightarrow> explorer_context option \<Rightarrow> string option \<Rightarrow> time_basis
     \<Rightarrow> user_stats option \<Rightarrow> user_stats list \<Rightarrow> filtered_stats" where
  "filtered_memo_stats inherited to_date ctx userName timeBasis userStats allUserStats =
     (if ctx = Some Explore \<or> ctx = Some Archived then
        \<lparr>fl_activityStats = countBy (concat (map (\<lambda>s. map to_date (timestampsForBasis s timeBasis)) allUserStats)),
         fl_tags = aggregate_tags inherited allUserStats\<rparr>
      else
        case (userName, userStats) of
          (Some n, Some s) \<Rightarrow>
            if n = [] then \<lparr>fl_activityStats = [], fl_tags = []\<rparr>
            else \<lparr>fl_activityStats = countBy (map to_date (timestampsForBasis s timeBasis)),
                  fl_tags = map (\<lambda>(t, n). (t, Count n)) (us_tagCount s)\<rparr>
        | _ \<Rightarrow> \<lparr>fl_activityStats = [], fl_tags = []\<rparr>)"

section \<open>Relations\<close>

datatype relation_direction = Referencing | Referenced

definition isReferenceRelation :: "memo_relation \<Rightarrow> bool" where
  "isReferenceRelation r \<longleftrightarrow> r_type r = REFERENCE"

definition getEditorReferenceRelations :: "memo_relation list \<Rightarrow> string option \<Rightarrow> memo_relation list" where
  "getEditorReferenceRelations relations memoName =
     filter (\<lambda>r. isReferenceRelation r
       \<and> ((case memoName of None \<Rightarrow> True | Some n \<Rightarrow> n = [])
          \<or> (case r_memo r of None \<Rightarrow> True | Some m \<Rightarrow> rm_name m = [])
          \<or> map_option rm_name (r_memo r) = memoName)) relations"

definition bucket_step :: "string option \<Rightarrow> memo_relation list \<times> memo_relation list \<Rightarrow> memo_relation
    \<Rightarrow> memo_relation list \<times> memo_relation list" where
  "bucket_step current groups r =
     (if \<not> isReferenceRelation r then groups
      else if map_option rm_name (r_memo r) = current \<and> map_option rm_name (r_relatedMemo r) \<noteq> current
      then (fst groups @ [r], snd groups)
      else if map_option rm_name (r_memo r) \<noteq> current \<and> map_option rm_name (r_relatedMemo r) = current
      then (fst groups, snd groups @ [r])
      else groups)"

definition getRelationBuckets :: "memo_relation list \<Rightarrow> string option \<Rightarrow> memo_relation list \<times> memo_relation list" where
  "getRelationBuckets relations currentMemoName = foldl (bucket_step currentMemoName) ([], []) relations"

definition getRelationMemo :: "memo_relation \<Rightarrow> relation_direction \<Rightarrow> relation_memo option" where
  "getRelationMemo r d = (case d of Referencing \<Rightarrow> r_relatedMemo r | Referenced \<Rightarrow> r_memo r)"

definition getRelationMemoName :: "memo_relation \<Rightarrow> relation_direction \<Rightarrow> string" where
  "getRelationMemoName r d = (case getRelationMemo r d of None \<Rightarrow> [] | Some m \<Rightarrow> rm_name m)"

section \<open>Visibilities\<close>

definition convertVisibilityFromString :: "string \<Rightarrow> visibility" where
  "convertVisibilityFromString v =
     (if v = ''PUBLIC'' then PUBLIC else if v = ''PROTECTED'' then PROTECTED
      else if v = ''PRIVATE'' then PRIVATE else PUBLIC)"

definition convertVisibilityToString :: "visibility \<Rightarrow> string" where
  "convertVisibilityToString v =
     (case v of PUBLIC \<Rightarrow> ''PUBLIC'' | PROTECTED \<Rightarrow> ''PROTECTED'' | PRIVATE \<Rightarrow> ''PRIVATE'' | _ \<Rightarrow> ''PRIVATE'')"

section \<open>Lemmas\<close>

text \<open>A comparator given by a key sorts as the library's stable sort does.\<close>

locale keyed_order =
  fixes cmp :: "'a \<Rightarrow> 'a \<Rightarrow> int" and key :: "'a \<Rightarrow> 'k::linorder"
  assumes cmp_key: "cmp x y \<le> 0 \<longleftrightarrow> key x \<le> key y"
begin

lemma insert_key: "insert_cmp cmp x ys = insort_key key x ys"
  by (induction ys) (simp_all add: cmp_key)

lemma sort_key_eq: "js_sort cmp xs = sort_key key xs"
  by (simp add: js_sort_def sort_key_def insert_key [abs_def])

end

definition memo_key :: "(timestamp \<Rightarrow> int) \<Rightarrow> bool \<Rightarrow> bool \<Rightarrow> time_basis \<Rightarrow> int \<Rightarrow> memo \<Rightarrow> int \<times> int" where
  "memo_key ts_date pinnedFirst orderByTimeAsc timeBasis now m =
     (if pinnedFirst \<and> m_pinned m then 0 else 1,
      if orderByTimeAsc then unix ts_date now (getMemoSortTime m timeBasis) else - unix ts_date now (getMemoSortTime m timeBasis))"

interpretation memo_order: keyed_order "compare_memos ts p a b now" "memo_key ts p a b now" for ts p a b now
  by unfold_locales (auto simp: compare_memos_def memo_key_def Let_def)

lemma bucket_fold:
  "foldl (bucket_step c) (x, y) rs =
     (x @ filter (\<lambda>r. isReferenceRelation r \<and> map_option rm_name (r_memo r) = c \<and> map_option rm_name (r_relatedMemo r) \<noteq> c) rs,
      y @ filter (\<lambda>r. isReferenceRelation r \<and> map_option rm_name (r_memo r) \<noteq> c \<and> map_option rm_name (r_relatedMemo r) = c) rs)"
  by (induction rs arbitrary: x y) (auto simp: bucket_step_def)

lemma count_fold:
  "map_of (foldl (\<lambda>m x. AList.update x (case map_of m x of None \<Rightarrow> 1 | Some n \<Rightarrow> n + 1) m) m xs) k =
     (if k \<in> set xs then Some ((case map_of m k of None \<Rightarrow> 0 | Some n \<Rightarrow> n) + int (count_list xs k)) else map_of m k)"
  by (induction xs arbitrary: m) (auto simp: update_conv' split: option.splits)

definition tag_sum :: "string \<Rightarrow> (string \<times> int) list \<Rightarrow> int" where
  "tag_sum tag tcs = sum_list (map snd (filter (\<lambda>(t, _). t = tag) tcs))"

lemma tags_fold:
  assumes "inherited tag = None" and "map_of m tag = map_option Count v"
  shows "map_of (foldl (add_tag inherited) m tcs) tag =
    (if tag \<in> fst ` set tcs then Some (Count ((case v of None \<Rightarrow> 0 | Some k \<Rightarrow> k) + tag_sum tag tcs))
     else map_option Count v)"
  using assms(2)
proof (induction tcs arbitrary: m v)
  case Nil
  then show ?case by simp
next
  case (Cons tc tcs)
  obtain t n where tc: "tc = (t, n)" by fastforce
  show ?case
  proof (cases "t = tag")
    case True
    have "map_of (add_tag inherited m tc) tag = map_option Count (Some ((case v of None \<Rightarrow> 0 | Some k \<Rightarrow> k) + n))"
      using Cons.prems assms(1) True by (cases v) (simp_all add: add_tag_def tc update_conv' add_count_def)
    from Cons.IH [OF this] show ?thesis
      using True by (auto simp: tc tag_sum_def)
         (metis (mono_tags, lifting) case_prodE filter_False image_eqI fst_conv sum_list.Nil list.simps(8) add_0_right)
  next
    case False
    have "map_of (add_tag inherited m tc) tag = map_option Count v"
      using Cons.prems False by (simp add: add_tag_def tc update_conv')
    from Cons.IH [OF this] show ?thesis using False by (auto simp: tc tag_sum_def)
  qed
qed

lemma aggregate_concat:
  "aggregate_tags inherited stats = foldl (add_tag inherited) [] (concat (map us_tagCount stats))"
proof -
  have "foldl (\<lambda>m stats. foldl (add_tag inherited) m (us_tagCount stats)) m stats =
      foldl (add_tag inherited) m (concat (map us_tagCount stats))" for m
    by (induction stats arbitrary: m) simp_all
  then show ?thesis by (simp add: aggregate_tags_def)
qed

lemma hoist_mset: "mset (hoistMemoToFront memos name) = mset memos"
proof (cases "find_index (\<lambda>m. Some (m_name m) = name) memos")
  case None
  then show ?thesis by (auto simp: hoistMemoToFront_def split: option.split)
next
  case (Some i)
  then have "mset memos = mset (take i memos @ memos ! i # drop (Suc i) memos)"
    using id_take_nth_drop [of i memos] find_index_Some [OF Some] by simp
  then show ?thesis using Some by (auto simp: hoistMemoToFront_def split: option.split)
qed

section \<open>Properties\<close>

text \<open>
  the list is sorted as the view asks and loses nothing. It holds exactly the memos of the state
  shown, each once; with pinned memos first these precede the others; among equals the times rise or
  fall as asked; and memos with the same key keep their order. Moving a new memo to the front
  permutes the list.
\<close>

theorem list_sort_correct:
  "let xs = listSort ts_date pinnedFirst st asc basis now memos in
   mset xs = mset (filter (\<lambda>m. m_state m = st) memos)
   \<and> sorted (map (\<lambda>m. (if pinnedFirst \<and> m_pinned m then 0 else 1 :: int,
        if asc then unix ts_date now (getMemoSortTime m basis) else - unix ts_date now (getMemoSortTime m basis))) xs)
   \<and> filter (\<lambda>m. memo_key ts_date pinnedFirst asc basis now m = k) xs
       = filter (\<lambda>m. m_state m = st \<and> memo_key ts_date pinnedFirst asc basis now m = k) memos
   \<and> mset (hoistMemoToFront xs name) = mset xs"
proof -
  have xs: "listSort ts_date pinnedFirst st asc basis now memos
      = sort_key (memo_key ts_date pinnedFirst asc basis now) (filter (\<lambda>m. m_state m = st) memos)"
    by (simp add: listSort_def memo_order.sort_key_eq)
  have "sorted (map (memo_key ts_date pinnedFirst asc basis now) (listSort ts_date pinnedFirst st asc basis now memos))"
    by (simp add: xs)
  moreover have "filter (\<lambda>m. memo_key ts_date pinnedFirst asc basis now m = k) (listSort ts_date pinnedFirst st asc basis now memos)
      = filter (\<lambda>m. memo_key ts_date pinnedFirst asc basis now m = k) (filter (\<lambda>m. m_state m = st) memos)"
    unfolding xs by (rule sort_key_stable)
  ultimately show ?thesis
    by (simp add: Let_def hoist_mset memo_key_def [abs_def] conj_commute) (simp add: xs)
qed

text \<open>
  the counts of the explore page add up, for ordinary tags: the count of a tag is the sum of its
  counts over all users, and the activity of a day is the number of timestamps on it. A tag with the
  name of something every object inherits, such as \<open>constructor\<close>, gets no number but the text of
  the inherited function with the count behind it.
\<close>

theorem explore_counts:
  "let s = filtered_memo_stats inherited to_date (Some Explore) user basis stats all in
   map_of (fl_activityStats s) day =
     (let n = count_list (concat (map (\<lambda>u. map to_date (timestampsForBasis u basis)) all)) day in
      if n = 0 then None else Some (int n))
   \<and> (case inherited tag of
        None \<Rightarrow> map_of (fl_tags s) tag =
          (let tcs = concat (map us_tagCount all) in
           if tag \<in> fst ` set tcs then Some (Count (sum_list (map snd (filter (\<lambda>(t, _). t = tag) tcs)))) else None)
      | Some source \<Rightarrow> map_of (aggregate_tags inherited
            [\<lparr>us_name = n, us_tagCount = [(tag, 3)], us_memoCreatedTimestamps = [], us_memoUpdatedTimestamps = []\<rparr>]) tag
          = Some (Text (source @ ''3'')))"
proof -
  have "show_int 3 = ''3''" by code_simp
  then show ?thesis
    using tags_fold [of inherited tag "[]" None "concat (map us_tagCount all)"]
    by (auto simp: filtered_memo_stats_def countBy_def count_fold aggregate_concat tag_sum_def Let_def count_list_0_iff
        add_tag_def add_count_def split: option.split)
qed

text \<open>
  the relations of a memo are split without loss: the referencing bucket holds the references
  that start at the memo and lead elsewhere, the referenced bucket those that come from elsewhere, each in
  order; no reference is in both.
\<close>

theorem relation_buckets:
  "getRelationBuckets relations current =
     (filter (\<lambda>r. r_type r = REFERENCE \<and> map_option rm_name (r_memo r) = current \<and> map_option rm_name (r_relatedMemo r) \<noteq> current) relations,
      filter (\<lambda>r. r_type r = REFERENCE \<and> map_option rm_name (r_memo r) \<noteq> current \<and> map_option rm_name (r_relatedMemo r) = current) relations)"
  by (simp add: getRelationBuckets_def bucket_fold isReferenceRelation_def)

end
