(* ===== verification/AudioRecorder.thy ===== *)
theory AudioRecorder
  imports Attachments
begin

text \<open>
  The audio recorder of the editor (\<^verbatim>\<open>components/MemoEditor/hooks/useAudioRecorder.ts\<close>, with the
  click handlers of \<^verbatim>\<open>components/MemoEditor/index.tsx\<close>). The browser's media interface is the
  environment of a step relation: it grants or denies the microphone, delivers data, and fires the
  stop event of a recorder once. Streams and recorders are numbered in the order of their creation.
\<close>

section \<open>File names and types\<close>

definition FALLBACK_AUDIO_MIME_TYPE :: string where
  "FALLBACK_AUDIO_MIME_TYPE = ''audio/webm''"

definition AUDIO_MIME_TYPE_CANDIDATES :: "string list" where
  "AUDIO_MIME_TYPE_CANDIDATES = [''audio/webm;codecs=opus'', ''audio/webm'', ''audio/mp4'', ''audio/ogg;codecs=opus'']"

definition getSupportedAudioMimeType :: "(string \<Rightarrow> bool) \<Rightarrow> string option" where
  "getSupportedAudioMimeType isTypeSupported = List.find isTypeSupported AUDIO_MIME_TYPE_CANDIDATES"

definition getFileExtension :: "string \<Rightarrow> string" where
  "getFileExtension mimeType =
     (if includes_str mimeType ''ogg'' then ''ogg'' else if includes_str mimeType ''mp4'' then ''m4a'' else ''webm'')"

text \<open>The local time of a date: year, month (from 0), day, hours, minutes, seconds.\<close>

record local_time =
  lt_year :: nat
  lt_month :: nat
  lt_day :: nat
  lt_hours :: nat
  lt_minutes :: nat
  lt_seconds :: nat

definition two_digits :: "nat \<Rightarrow> string" where
  "two_digits n = pad_start 2 CHR ''0'' (show_nat n)"

definition createRecordedFile :: "nat list \<Rightarrow> string \<Rightarrow> local_time \<Rightarrow> js_file" where
  "createRecordedFile bytes mimeType now =
     (let extension = getFileExtension mimeType;
          datePart = show_nat (lt_year now) @ two_digits (lt_month now + 1) @ two_digits (lt_day now);
          timePart = two_digits (lt_hours now) @ two_digits (lt_minutes now) @ two_digits (lt_seconds now) in
      \<lparr>f_name = ''voice-note-'' @ datePart @ ''-'' @ timePart @ ''.'' @ extension, f_type = mimeType,
       f_size = int (length bytes), f_bytes = bytes\<rparr>)"

section \<open>State\<close>

datatype recorder_status = Idle | Requesting_Permission | Recording | Failed | Unsupported

datatype complete_mode = Attach | Transcribe

text \<open>A \<open>MediaRecorder\<close>: the request its listeners were made for, its stream, whether it records, and
  whether its stop event is still to come.\<close>

record media_recorder =
  mr_request :: nat
  mr_stream :: nat
  mr_active :: bool
  mr_stop_due :: bool

text \<open>
  The hook's state and references; then the environment: the streams (whether their tracks run), the
  recorders, the requests for the microphone not yet answered, and what the callbacks were given.
\<close>

record recorder =
  rc_status :: recorder_status
  rc_elapsed :: int
  rc_error :: "string option"
  rc_shown_stream :: "nat option"
  rc_recorder :: "nat option"
  rc_stream :: "nat option"
  rc_chunks :: "nat list list"
  rc_startedAt :: "int option"
  rc_timer :: "nat option"
  rc_mimeType :: string
  rc_mode :: complete_mode
  rc_requestId :: nat
  rc_mounted :: bool
  rc_intervals :: "nat list"
  rc_next_interval :: nat
  rc_streams :: "bool list"
  rc_recorders :: "media_recorder list"
  rc_pending :: "nat list"
  rc_completed :: "(local_file \<times> complete_mode) list"
  rc_empty :: "complete_mode list"

definition UNSUPPORTED_MESSAGE :: string where
  "UNSUPPORTED_MESSAGE = ''Audio recording is not supported in this browser.''"

text \<open>The hook after its mount effect.\<close>

definition recorder_init :: "bool \<Rightarrow> recorder" where
  "recorder_init supported = \<lparr>rc_status = (if supported then Idle else Unsupported), rc_elapsed = 0,
     rc_error = (if supported then None else Some UNSUPPORTED_MESSAGE), rc_shown_stream = None, rc_recorder = None,
     rc_stream = None, rc_chunks = [], rc_startedAt = None, rc_timer = None, rc_mimeType = FALLBACK_AUDIO_MIME_TYPE,
     rc_mode = Attach, rc_requestId = 0, rc_mounted = True, rc_intervals = [], rc_next_interval = 0,
     rc_streams = [], rc_recorders = [], rc_pending = [], rc_completed = [], rc_empty = []\<rparr>"

definition isBusy :: "recorder \<Rightarrow> bool" where
  "isBusy s \<longleftrightarrow> rc_status s = Recording \<or> rc_status s = Requesting_Permission"

section \<open>Operations\<close>

definition stop_tracks :: "nat \<Rightarrow> recorder \<Rightarrow> recorder" where
  "stop_tracks i s = s\<lparr>rc_streams := (rc_streams s)[i := False]\<rparr>"

definition cleanupTimer :: "recorder \<Rightarrow> recorder" where
  "cleanupTimer s =
     (case rc_timer s of None \<Rightarrow> s
      | Some t \<Rightarrow> s\<lparr>rc_intervals := filter (\<lambda>x. x \<noteq> t) (rc_intervals s), rc_timer := None\<rparr>)"

definition cleanupStream :: "recorder \<Rightarrow> recorder" where
  "cleanupStream s =
     (let s1 = (case rc_stream s of None \<Rightarrow> s | Some i \<Rightarrow> stop_tracks i s) in
      s1\<lparr>rc_stream := None, rc_shown_stream := None\<rparr>)"

definition resetRecorderRefs :: "recorder \<Rightarrow> recorder" where
  "resetRecorderRefs s =
     (cleanupStream (cleanupTimer s))\<lparr>rc_recorder := None, rc_chunks := [], rc_startedAt := None\<rparr>"

text \<open>\<open>startRecording\<close> up to its \<open>await\<close>.\<close>

definition startRecording :: "bool \<Rightarrow> recorder \<Rightarrow> recorder" where
  "startRecording supported s =
     (let requestId = rc_requestId s + 1; s1 = s\<lparr>rc_requestId := requestId\<rparr> in
      if \<not> supported then s1\<lparr>rc_status := Unsupported, rc_error := Some UNSUPPORTED_MESSAGE\<rparr>
      else s1\<lparr>rc_error := None, rc_status := Requesting_Permission, rc_elapsed := 0,
              rc_pending := rc_pending s @ [requestId]\<rparr>)"

text \<open>The \<open>catch\<close> block.\<close>

definition start_failed :: "nat \<Rightarrow> bool \<Rightarrow> recorder \<Rightarrow> recorder" where
  "start_failed requestId permissionDenied s =
     (if rc_requestId s \<noteq> requestId then s
      else resetRecorderRefs (s\<lparr>rc_status := Failed,
        rc_error := Some (if permissionDenied then ''Microphone permission was denied.''
                          else ''Failed to start audio recording.'')\<rparr>))"

text \<open>
  The rest of the \<open>try\<close> block, with a new stream: \<open>construct_ok\<close> and \<open>start_ok\<close> say whether the
  constructor of the recorder and its start succeed, \<open>now\<close> is the clock.
\<close>

definition on_stream :: "(string \<Rightarrow> bool) \<Rightarrow> bool \<Rightarrow> bool \<Rightarrow> int \<Rightarrow> nat \<Rightarrow> recorder \<Rightarrow> recorder" where
  "on_stream isTypeSupported construct_ok start_ok now requestId s =
     (let stream = length (rc_streams s);
          s0 = s\<lparr>rc_pending := filter (\<lambda>r. r \<noteq> requestId) (rc_pending s), rc_streams := rc_streams s @ [True]\<rparr> in
      if rc_requestId s0 \<noteq> requestId then stop_tracks stream s0
      else if \<not> construct_ok then start_failed requestId False s0
      else
        (let recorder = length (rc_recorders s0);
             mimeType = (case getSupportedAudioMimeType isTypeSupported of None \<Rightarrow> FALLBACK_AUDIO_MIME_TYPE | Some m \<Rightarrow> m);
             s1 = s0\<lparr>rc_recorders := rc_recorders s0 @
                       [\<lparr>mr_request = requestId, mr_stream = stream, mr_active = start_ok, mr_stop_due = start_ok\<rparr>],
                     rc_mimeType := mimeType, rc_stream := Some stream, rc_shown_stream := Some stream,
                     rc_recorder := Some recorder, rc_chunks := []\<rparr> in
         if \<not> start_ok then start_failed requestId False s1
         else s1\<lparr>rc_startedAt := Some now, rc_status := Recording,
                 rc_intervals := rc_intervals s1 @ [rc_next_interval s1], rc_timer := Some (rc_next_interval s1),
                 rc_next_interval := rc_next_interval s1 + 1\<rparr>))"

definition on_denied :: "bool \<Rightarrow> nat \<Rightarrow> recorder \<Rightarrow> recorder" where
  "on_denied permissionDenied requestId s =
     start_failed requestId permissionDenied (s\<lparr>rc_pending := filter (\<lambda>r. r \<noteq> requestId) (rc_pending s)\<rparr>)"

text \<open>The interval's callback. A start time of zero counts as none.\<close>

definition on_tick :: "int \<Rightarrow> recorder \<Rightarrow> recorder" where
  "on_tick now s =
     (case rc_startedAt s of None \<Rightarrow> s
      | Some t \<Rightarrow> if t = 0 then s else s\<lparr>rc_elapsed := max 0 ((now - t) div 1000)\<rparr>)"

definition on_data :: "nat list \<Rightarrow> nat \<Rightarrow> recorder \<Rightarrow> recorder" where
  "on_data chunk r s =
     (if rc_requestId s \<noteq> mr_request (rc_recorders s ! r) then s
      else if length chunk > 0 then s\<lparr>rc_chunks := rc_chunks s @ [chunk]\<rparr> else s)"

text \<open>\<open>Math.round\<close> of a quotient by 1000.\<close>

definition round_seconds :: "int \<Rightarrow> int" where
  "round_seconds ms = (ms + 500) div 1000"

definition duration_seconds :: "int \<Rightarrow> recorder \<Rightarrow> int" where
  "duration_seconds now s =
     (case rc_startedAt s of None \<Rightarrow> 0 | Some t \<Rightarrow> if t = 0 then 0 else max 0 (round_seconds (now - t)))"

definition on_stop :: "int \<Rightarrow> local_time \<Rightarrow> string \<Rightarrow> nat \<Rightarrow> recorder \<Rightarrow> recorder" where
  "on_stop now local_now previewUrl r s0 =
     (let s = s0\<lparr>rc_recorders := (rc_recorders s0)[r := (rc_recorders s0 ! r)\<lparr>mr_active := False, mr_stop_due := False\<rparr>]\<rparr> in
      if rc_requestId s \<noteq> mr_request (rc_recorders s ! r) then s
      else
        (let durationSeconds = duration_seconds now s;
             blob = concat (rc_chunks s);
             completionMode = rc_mode s;
             s1 = s\<lparr>rc_mode := Attach, rc_elapsed := 0, rc_error := None, rc_status := Idle\<rparr> in
         if length blob = 0 then resetRecorderRefs (s1\<lparr>rc_empty := rc_empty s1 @ [completionMode]\<rparr>)
         else
           resetRecorderRefs (s1\<lparr>rc_completed := rc_completed s1 @
             [(\<lparr>lf_file = createRecordedFile blob (rc_mimeType s1) local_now, lf_previewUrl = previewUrl,
                lf_origin = Some AudioRecording, lf_audioMeta = Some (of_int durationSeconds),
                lf_motionMedia = None\<rparr>, completionMode)]\<rparr>)))"

definition stopRecording :: "complete_mode \<Rightarrow> recorder \<Rightarrow> bool \<times> recorder" where
  "stopRecording mode s =
     (case rc_recorder s of
        None \<Rightarrow> (False, s)
      | Some r \<Rightarrow>
          if \<not> mr_active (rc_recorders s ! r) then (False, s)
          else
            (let s1 = cleanupTimer (s\<lparr>rc_mode := mode\<rparr>) in
             (True, s1\<lparr>rc_recorders := (rc_recorders s1)[r := (rc_recorders s1 ! r)\<lparr>mr_active := False\<rparr>]\<rparr>)))"

definition resetRecording :: "recorder \<Rightarrow> recorder" where
  "resetRecording s =
     (resetRecorderRefs (s\<lparr>rc_requestId := rc_requestId s + 1, rc_mode := Attach\<rparr>))
       \<lparr>rc_elapsed := 0, rc_error := None, rc_status := Idle\<rparr>"

definition unmount :: "bool \<Rightarrow> recorder \<Rightarrow> recorder" where
  "unmount supported s = (if supported then resetRecorderRefs s else s)\<lparr>rc_mounted := False\<rparr>"

text \<open>The click handler: a busy recorder is not started again.\<close>

definition handleAudioRecorderClick :: "bool \<Rightarrow> recorder \<Rightarrow> recorder" where
  "handleAudioRecorderClick supported s = (if isBusy s then s else startRecording supported s)"

section \<open>The step relation\<close>

datatype rec_event =
    Click
  | Stream bool bool int nat
  | Denied bool nat
  | Data "nat list" nat
  | Stop_Fired int local_time string nat
  | Stop_Click complete_mode
  | Cancel
  | Tick int
  | Unmount

text \<open>
  What can happen in a state: the user acts on a mounted editor; the microphone is granted or denied
  for a request that waits; a recorder delivers data until its stop event, which fires once; and the
  interval ticks while it runs.
\<close>

inductive rec_step :: "bool \<Rightarrow> (string \<Rightarrow> bool) \<Rightarrow> recorder \<Rightarrow> rec_event \<Rightarrow> recorder \<Rightarrow> bool"
  for supported isTypeSupported where
  click: "rc_mounted s \<Longrightarrow> rec_step supported isTypeSupported s Click (handleAudioRecorderClick supported s)"
| stream: "req \<in> set (rc_pending s) \<Longrightarrow>
    rec_step supported isTypeSupported s (Stream c_ok s_ok now req) (on_stream isTypeSupported c_ok s_ok now req s)"
| denied: "req \<in> set (rc_pending s) \<Longrightarrow> rec_step supported isTypeSupported s (Denied d req) (on_denied d req s)"
| data: "r < length (rc_recorders s) \<Longrightarrow> mr_stop_due (rc_recorders s ! r) \<Longrightarrow>
    rec_step supported isTypeSupported s (Data chunk r) (on_data chunk r s)"
| stop_fired: "r < length (rc_recorders s) \<Longrightarrow> mr_stop_due (rc_recorders s ! r) \<Longrightarrow>
    rec_step supported isTypeSupported s (Stop_Fired now lt url r) (on_stop now lt url r s)"
| stop_click: "rc_mounted s \<Longrightarrow> rec_step supported isTypeSupported s (Stop_Click mode) (snd (stopRecording mode s))"
| cancel: "rc_mounted s \<Longrightarrow> rec_step supported isTypeSupported s Cancel (resetRecording s)"
| tick: "rc_intervals s \<noteq> [] \<Longrightarrow> rec_step supported isTypeSupported s (Tick now) (on_tick now s)"
| unmount: "rc_mounted s \<Longrightarrow> rec_step supported isTypeSupported s Unmount (unmount supported s)"

inductive rec_run :: "bool \<Rightarrow> (string \<Rightarrow> bool) \<Rightarrow> recorder \<Rightarrow> rec_event list \<Rightarrow> recorder \<Rightarrow> bool"
  for supported isTypeSupported where
  stay: "rec_run supported isTypeSupported s [] s"
| more: "rec_step supported isTypeSupported s e s1 \<Longrightarrow> rec_run supported isTypeSupported s1 es s2 \<Longrightarrow>
    rec_run supported isTypeSupported s (e # es) s2"

inductive_cases rec_runE: "rec_run supported isTypeSupported s (e # es) s2"

inductive_simps rec_step_simps [simp]:
  "rec_step su its s Click s'" "rec_step su its s (Stream c_ok s_ok now req) s'"
  "rec_step su its s (Denied d req) s'" "rec_step su its s (Data chunk r) s'"
  "rec_step su its s (Stop_Fired now lt url r) s'" "rec_step su its s (Stop_Click mode) s'"
  "rec_step su its s Cancel s'" "rec_step su its s (Tick now) s'" "rec_step su its s Unmount s'"

inductive_simps rec_run_simps [simp]:
  "rec_run su its s [] s'" "rec_run su its s (e # es) s'"

text \<open>The same steps as a function, to run concrete sequences of events.\<close>

fun rec_exec :: "bool \<Rightarrow> (string \<Rightarrow> bool) \<Rightarrow> recorder \<Rightarrow> rec_event list \<Rightarrow> recorder option" where
  "rec_exec su its s [] = Some s"
| "rec_exec su its s (e # es) =
     (let s' = (case e of
          Click \<Rightarrow> if rc_mounted s then Some (handleAudioRecorderClick su s) else None
        | Stream c_ok s_ok now req \<Rightarrow> if req \<in> set (rc_pending s) then Some (on_stream its c_ok s_ok now req s) else None
        | Denied d req \<Rightarrow> if req \<in> set (rc_pending s) then Some (on_denied d req s) else None
        | Data chunk r \<Rightarrow>
            if r < length (rc_recorders s) \<and> mr_stop_due (rc_recorders s ! r) then Some (on_data chunk r s) else None
        | Stop_Fired now lt url r \<Rightarrow>
            if r < length (rc_recorders s) \<and> mr_stop_due (rc_recorders s ! r) then Some (on_stop now lt url r s) else None
        | Stop_Click mode \<Rightarrow> if rc_mounted s then Some (snd (stopRecording mode s)) else None
        | Cancel \<Rightarrow> if rc_mounted s then Some (resetRecording s) else None
        | Tick now \<Rightarrow> if rc_intervals s \<noteq> [] then Some (on_tick now s) else None
        | Unmount \<Rightarrow> if rc_mounted s then Some (unmount su s) else None) in
      case s' of None \<Rightarrow> None | Some s1 \<Rightarrow> rec_exec su its s1 es)"

lemma rec_exec_run: "rec_exec su its s es = Some s' \<Longrightarrow> rec_run su its s es s'"
proof (induction es arbitrary: s)
  case (Cons e es)
  then show ?case by (cases e) (simp_all add: Let_def split: if_splits)
qed simp

text \<open>An invariant of the steps with events of a kind holds along the runs of such events.\<close>

lemma rec_run_inv:
  assumes "rec_run su its s es s'" and "I s" and "list_all ok es"
    and "\<And>s e s'. I s \<Longrightarrow> ok e \<Longrightarrow> rec_step su its s e s' \<Longrightarrow> I s'"
  shows "I s'"
  using assms(1-3) by (induction rule: rec_run.induct) (auto simp del: rec_step_simps intro: assms(4))

section \<open>The invariant of a mounted recorder\<close>

text \<open>The events of a mounted editor whose browser can construct recorders.\<close>

definition benign :: "rec_event \<Rightarrow> bool" where
  "benign e = (case e of Unmount \<Rightarrow> False | Stream c_ok _ _ _ \<Rightarrow> c_ok | _ \<Rightarrow> True)"

text \<open>The recorder that records now, if any: it belongs to the last request and its stop event is to come.\<close>

definition current :: "recorder \<Rightarrow> nat \<Rightarrow> bool" where
  "current s r \<longleftrightarrow> r < length (rc_recorders s) \<and> mr_stop_due (rc_recorders s ! r)
     \<and> mr_request (rc_recorders s ! r) = rc_requestId s"

definition rec_inv :: "recorder \<Rightarrow> bool" where
  "rec_inv s \<longleftrightarrow>
     (\<forall>i < length (rc_streams s). rc_streams s ! i \<longrightarrow> rc_stream s = Some i)
     \<and> (\<forall>i. rc_stream s = Some i \<longrightarrow> i < length (rc_streams s))
     \<and> (\<forall>r. current s r \<longrightarrow> rc_recorder s = Some r)
     \<and> (\<forall>r < length (rc_recorders s). mr_request (rc_recorders s ! r) \<le> rc_requestId s)
     \<and> (\<forall>q \<in> set (rc_pending s). q \<le> rc_requestId s)
     \<and> (rc_requestId s \<in> set (rc_pending s) \<longrightarrow> rc_status s = Requesting_Permission)
     \<and> set (rc_intervals s) \<subseteq> set_option (rc_timer s)
     \<and> (rc_status s = Recording \<longrightarrow> (\<exists>r. rc_recorder s = Some r \<and> current s r) \<and> rc_stream s \<noteq> None)
     \<and> (rc_status s \<noteq> Recording \<longrightarrow> rc_stream s = None \<and> rc_recorder s = None \<and> rc_timer s = None)"

lemma reset_fields [simp]:
  "rc_status (resetRecorderRefs s) = rc_status s" "rc_stream (resetRecorderRefs s) = None"
  "rc_recorder (resetRecorderRefs s) = None" "rc_timer (resetRecorderRefs s) = None"
  "rc_requestId (resetRecorderRefs s) = rc_requestId s" "rc_mode (resetRecorderRefs s) = rc_mode s"
  "rc_recorders (resetRecorderRefs s) = rc_recorders s" "rc_pending (resetRecorderRefs s) = rc_pending s"
  "rc_completed (resetRecorderRefs s) = rc_completed s" "rc_empty (resetRecorderRefs s) = rc_empty s"
  "rc_mounted (resetRecorderRefs s) = rc_mounted s" "rc_chunks (resetRecorderRefs s) = []"
  "length (rc_streams (resetRecorderRefs s)) = length (rc_streams s)"
  by (simp_all add: resetRecorderRefs_def cleanupStream_def cleanupTimer_def stop_tracks_def Let_def split: option.split)

lemma reset_streams:
  "rc_streams (resetRecorderRefs s) = (case rc_stream s of None \<Rightarrow> rc_streams s | Some i \<Rightarrow> (rc_streams s)[i := False])"
  by (simp add: resetRecorderRefs_def cleanupStream_def cleanupTimer_def stop_tracks_def Let_def split: option.split)

lemma reset_intervals:
  "set (rc_intervals (resetRecorderRefs s)) = set (rc_intervals s) - set_option (rc_timer s)"
  by (auto simp: resetRecorderRefs_def cleanupStream_def cleanupTimer_def stop_tracks_def Let_def split: option.split)

text \<open>Once the references are reset, no track runs and no interval.\<close>

definition silent :: "recorder \<Rightarrow> bool" where
  "silent s \<longleftrightarrow> (\<forall>i < length (rc_streams s). \<not> rc_streams s ! i) \<and> rc_intervals s = []"

lemma reset_silent:
  assumes "\<forall>i < length (rc_streams s). rc_streams s ! i \<longrightarrow> rc_stream s = Some i"
    and "set (rc_intervals s) \<subseteq> set_option (rc_timer s)"
  shows "silent (resetRecorderRefs s)"
proof -
  have "set (rc_intervals (resetRecorderRefs s)) = {}" using assms(2) by (auto simp: reset_intervals)
  moreover have "\<forall>i < length (rc_streams s). \<not> rc_streams (resetRecorderRefs s) ! i"
    using assms(1) by (auto simp: reset_streams split: option.split) (metis nth_list_update_eq nth_list_update_neq)
  ultimately show ?thesis by (simp add: silent_def)
qed

text \<open>A state with the references reset and no recording satisfies the invariant.\<close>

lemma idle_inv:
  assumes "silent s" and "rc_stream s = None" and "rc_recorder s = None" and "rc_timer s = None"
    and "rc_status s \<noteq> Recording" and "\<And>r. \<not> current s r"
    and "\<forall>r < length (rc_recorders s). mr_request (rc_recorders s ! r) \<le> rc_requestId s"
    and "\<forall>q \<in> set (rc_pending s). q \<le> rc_requestId s"
    and "rc_requestId s \<in> set (rc_pending s) \<longrightarrow> rc_status s = Requesting_Permission"
  shows "rec_inv s"
  using assms by (auto simp: rec_inv_def silent_def)

lemma rec_invI:
  assumes "\<And>i. i < length (rc_streams s) \<Longrightarrow> rc_streams s ! i \<Longrightarrow> rc_stream s = Some i"
    and "\<And>i. rc_stream s = Some i \<Longrightarrow> i < length (rc_streams s)"
    and "\<And>r. current s r \<Longrightarrow> rc_recorder s = Some r"
    and "\<And>r. r < length (rc_recorders s) \<Longrightarrow> mr_request (rc_recorders s ! r) \<le> rc_requestId s"
    and "\<And>q. q \<in> set (rc_pending s) \<Longrightarrow> q \<le> rc_requestId s"
    and "rc_requestId s \<in> set (rc_pending s) \<Longrightarrow> rc_status s = Requesting_Permission"
    and "set (rc_intervals s) \<subseteq> set_option (rc_timer s)"
    and "rc_status s = Recording \<Longrightarrow> (\<exists>r. rc_recorder s = Some r \<and> current s r) \<and> rc_stream s \<noteq> None"
    and "rc_status s \<noteq> Recording \<Longrightarrow> rc_stream s = None \<and> rc_recorder s = None \<and> rc_timer s = None"
  shows "rec_inv s"
  unfolding rec_inv_def using assms by blast

lemma inv_shown: "rec_inv s \<Longrightarrow> rc_stream s = Some i \<Longrightarrow> i < length (rc_streams s)"
  by (simp add: rec_inv_def)

lemma inv_streams: "rec_inv s \<Longrightarrow> \<forall>i < length (rc_streams s). rc_streams s ! i \<longrightarrow> rc_stream s = Some i"
  and inv_intervals: "rec_inv s \<Longrightarrow> set (rc_intervals s) \<subseteq> set_option (rc_timer s)"
  and inv_requests: "rec_inv s \<Longrightarrow> \<forall>r < length (rc_recorders s). mr_request (rc_recorders s ! r) \<le> rc_requestId s"
  and inv_pending: "rec_inv s \<Longrightarrow> \<forall>q \<in> set (rc_pending s). q \<le> rc_requestId s"
  and inv_waiting: "rec_inv s \<Longrightarrow> rc_requestId s \<in> set (rc_pending s) \<Longrightarrow> rc_status s = Requesting_Permission"
  and inv_current: "rec_inv s \<Longrightarrow> current s r \<Longrightarrow> rc_recorder s = Some r"
  and inv_recording: "rec_inv s \<Longrightarrow> rc_status s = Recording \<Longrightarrow>
    (\<exists>r. rc_recorder s = Some r \<and> current s r) \<and> rc_stream s \<noteq> None"
  and inv_idle: "rec_inv s \<Longrightarrow> rc_status s \<noteq> Recording \<Longrightarrow> rc_stream s = None \<and> rc_recorder s = None \<and> rc_timer s = None"
  unfolding rec_inv_def by blast+

lemma inv_silent: "rec_inv s \<Longrightarrow> rc_status s \<noteq> Recording \<Longrightarrow> silent s"
  using inv_idle [of s] inv_streams [of s] inv_intervals [of s] by (auto simp: silent_def)

lemma inv_no_current: "rec_inv s \<Longrightarrow> rc_status s \<noteq> Recording \<Longrightarrow> \<not> current s r"
  using inv_idle [of s] inv_current [of s r] by auto

lemmas inv_facts = inv_requests inv_pending inv_waiting

lemma click_inv:
  assumes "rec_inv s"
  shows "rec_inv (handleAudioRecorderClick True s)"
proof (cases "isBusy s")
  case False
  then have st: "rc_status s \<noteq> Recording" by (simp add: isBusy_def)
  have "silent (startRecording True s)"
    using inv_silent [OF assms st] by (simp add: silent_def startRecording_def Let_def)
  then show ?thesis using False inv_idle [OF assms st] inv_facts [OF assms]
    by (auto simp: handleAudioRecorderClick_def startRecording_def Let_def current_def intro!: idle_inv)
       (metis Suc_n_not_le_n le_SucI)+
qed (simp add: handleAudioRecorderClick_def assms)

lemma cancel_click_inv:
  assumes "rec_inv s"
  shows "rec_inv (resetRecording s)"
proof -
  let ?s = "s\<lparr>rc_requestId := rc_requestId s + 1, rc_mode := Attach\<rparr>"
  have "silent (resetRecorderRefs ?s)"
    using inv_streams [OF assms] inv_intervals [OF assms] by (intro reset_silent) simp_all
  then show ?thesis using inv_facts [OF assms]
    by (auto simp: resetRecording_def current_def silent_def intro!: idle_inv) (metis Suc_n_not_le_n le_SucI)+
qed

lemma rec_inv_frame [simp]:
  "rec_inv (s\<lparr>rc_chunks := x\<rparr>) = rec_inv s" "rec_inv (s\<lparr>rc_elapsed := n\<rparr>) = rec_inv s"
  "current (s\<lparr>rc_chunks := x\<rparr>) r = current s r" "current (s\<lparr>rc_elapsed := n\<rparr>) r = current s r"
  by (simp_all add: rec_inv_def current_def cong: option.case_cong)

lemma data_inv: "rec_inv s \<Longrightarrow> rec_inv (on_data chunk r s)"
  by (simp add: on_data_def)

lemma tick_inv: "rec_inv s \<Longrightarrow> rec_inv (on_tick now s)"
  by (simp add: on_tick_def split: option.split)

lemma late_answer_inv:
  assumes inv: "rec_inv s" and "list_all Not bs"
  shows "rec_inv (s\<lparr>rc_pending := filter P (rc_pending s), rc_streams := rc_streams s @ bs\<rparr>)"
proof (rule rec_invI, goal_cases)
  case (1 i)
  then show ?case using inv_streams [OF inv] assms(2) by (auto simp: nth_append list_all_length split: if_splits)
next
  case (2 i)
  then show ?case using inv_shown [OF inv] by (simp add: trans_less_add1)
next
  case (3 r)
  then show ?case using inv_current [OF inv, of r] by (simp add: current_def)
next
  case (4 r)
  then show ?case using inv_requests [OF inv] by simp
next
  case (5 q)
  then show ?case using inv_pending [OF inv] by simp
next
  case 6
  then show ?case using inv_waiting [OF inv] by simp
next
  case 7
  then show ?case using inv_intervals [OF inv] by simp
next
  case 8
  then show ?case using inv_recording [OF inv] by (simp add: current_def)
next
  case 9
  then show ?case using inv_idle [OF inv] by simp
qed

lemma answered_inv: "rec_inv s \<Longrightarrow> rec_inv (s\<lparr>rc_pending := filter P (rc_pending s)\<rparr>)"
  using late_answer_inv [of s "[]" P] by simp

lemma denied_inv:
  assumes "rec_inv s" and "q \<in> set (rc_pending s)"
  shows "rec_inv (on_denied d q s)"
proof (cases "rc_requestId s = q")
  case True
  let ?s = "s\<lparr>rc_pending := filter (\<lambda>r. r \<noteq> q) (rc_pending s), rc_status := Failed,
      rc_error := Some (if d then ''Microphone permission was denied.'' else ''Failed to start audio recording.'')\<rparr>"
  have st: "rc_status s \<noteq> Recording" using inv_waiting [OF assms(1)] True assms(2) by simp
  have "silent (resetRecorderRefs ?s)"
    using inv_streams [OF assms(1)] inv_intervals [OF assms(1)] by (intro reset_silent) simp_all
  then have "rec_inv (resetRecorderRefs ?s)"
    using inv_no_current [OF assms(1) st] inv_facts [OF assms(1)] True
    by (intro idle_inv) (auto simp: current_def)
  then show ?thesis using True by (simp add: on_denied_def start_failed_def)
next
  case False
  then show ?thesis using answered_inv [OF assms(1)] by (simp add: on_denied_def start_failed_def)
qed

lemma stream_inv:
  assumes "rec_inv s" and "q \<in> set (rc_pending s)"
  shows "rec_inv (on_stream its True s_ok now q s)"
proof (cases "rc_requestId s = q")
  case False
  have "(rc_streams s @ [True])[length (rc_streams s) := False] = rc_streams s @ [False]" by simp
  then show ?thesis
    using False late_answer_inv [OF assms(1), of "[False]"] by (simp add: on_stream_def Let_def stop_tracks_def)
next
  case True
  have st: "rc_status s = Requesting_Permission" using inv_waiting [OF assms(1)] True assms(2) by simp
  then have idle: "rc_stream s = None" "rc_recorder s = None" "rc_timer s = None" "silent s" "\<And>r. \<not> current s r"
    using inv_idle [OF assms(1)] inv_silent [OF assms(1)] inv_no_current [OF assms(1)] by auto
  define mime where "mime = (case getSupportedAudioMimeType its of None \<Rightarrow> FALLBACK_AUDIO_MIME_TYPE | Some m \<Rightarrow> m)"
  define s1 where "s1 = s\<lparr>rc_pending := filter (\<lambda>r. r \<noteq> q) (rc_pending s), rc_streams := rc_streams s @ [True],
      rc_recorders := rc_recorders s @ [\<lparr>mr_request = q, mr_stream = length (rc_streams s), mr_active = s_ok, mr_stop_due = s_ok\<rparr>],
      rc_mimeType := mime, rc_stream := Some (length (rc_streams s)), rc_shown_stream := Some (length (rc_streams s)),
      rc_recorder := Some (length (rc_recorders s)), rc_chunks := []\<rparr>"
  have eq: "on_stream its True s_ok now q s = (if \<not> s_ok then start_failed q False s1
      else s1\<lparr>rc_startedAt := Some now, rc_status := Recording, rc_intervals := rc_intervals s1 @ [rc_next_interval s1],
        rc_timer := Some (rc_next_interval s1), rc_next_interval := rc_next_interval s1 + 1\<rparr>)"
    using True by (simp add: on_stream_def Let_def s1_def mime_def)
  have live: "\<forall>i < length (rc_streams s1). rc_streams s1 ! i \<longrightarrow> rc_stream s1 = Some i"
    using idle(4) by (auto simp: s1_def silent_def nth_append)
  have cur: "current s1 r \<longleftrightarrow> r = length (rc_recorders s) \<and> s_ok" for r
    using idle(5) [of r] True by (auto simp: s1_def current_def nth_append)
  have req: "\<forall>r < length (rc_recorders s1). mr_request (rc_recorders s1 ! r) \<le> rc_requestId s1"
    using inv_requests [OF assms(1)] True by (auto simp: s1_def nth_append)
  show ?thesis
  proof (cases s_ok)
    case True
    then show ?thesis unfolding eq
      using live cur req inv_pending [OF assms(1)] idle(4) \<open>rc_requestId s = q\<close>
      by (auto simp: rec_inv_def s1_def silent_def current_def)
  next
    case False
    let ?s = "s1\<lparr>rc_status := Failed, rc_error := Some ''Failed to start audio recording.''\<rparr>"
    have "silent (resetRecorderRefs ?s)"
      using live idle(4) by (intro reset_silent) (auto simp: s1_def silent_def)
    moreover have "\<And>r. \<not> current (resetRecorderRefs ?s) r" using cur False by (simp add: current_def)
    ultimately have "rec_inv (resetRecorderRefs ?s)"
      using req inv_pending [OF assms(1)] \<open>rc_requestId s = q\<close> by (intro idle_inv) (auto simp: s1_def)
    then show ?thesis unfolding eq using False \<open>rc_requestId s = q\<close> by (simp add: start_failed_def) (simp add: s1_def)
  qed
qed

text \<open>Marking a recorder as inactive changes neither requests nor stop events.\<close>

lemma deactivate_nth:
  "(rs[r := (rs ! r)\<lparr>mr_active := False\<rparr>] ! k) = (if k = r \<and> r < length rs then (rs ! r)\<lparr>mr_active := False\<rparr> else rs ! k)"
  by (cases "r < length rs") (auto simp: nth_list_update list_update_beyond)

lemma stop_click_inv:
  assumes inv: "rec_inv s"
  shows "rec_inv (snd (stopRecording mode s))"
proof (cases "\<exists>r. rc_recorder s = Some r \<and> mr_active (rc_recorders s ! r)")
  case False
  then have "snd (stopRecording mode s) = s" by (auto simp: stopRecording_def split: option.split)
  then show ?thesis using inv by simp
next
  case True
  then obtain r where r: "rc_recorder s = Some r" "mr_active (rc_recorders s ! r)" by blast
  define s1 where "s1 = cleanupTimer (s\<lparr>rc_mode := mode\<rparr>)"
  have f: "rc_recorders s1 = rc_recorders s" "rc_streams s1 = rc_streams s" "rc_stream s1 = rc_stream s"
      "rc_recorder s1 = rc_recorder s" "rc_requestId s1 = rc_requestId s" "rc_pending s1 = rc_pending s"
      "rc_status s1 = rc_status s" "rc_timer s1 = None"
    by (simp_all add: s1_def cleanupTimer_def split: option.split)
  have tm: "rc_intervals s1 = []"
    using inv_intervals [OF inv] by (auto simp: s1_def cleanupTimer_def filter_empty_conv split: option.split)
  define s2 where "s2 = s1\<lparr>rc_recorders := (rc_recorders s1)[r := (rc_recorders s1 ! r)\<lparr>mr_active := False\<rparr>]\<rparr>"
  have g: "rc_streams s2 = rc_streams s" "rc_stream s2 = rc_stream s" "rc_recorder s2 = rc_recorder s"
      "rc_requestId s2 = rc_requestId s" "rc_pending s2 = rc_pending s" "rc_status s2 = rc_status s"
      "rc_timer s2 = None" "rc_intervals s2 = []" "length (rc_recorders s2) = length (rc_recorders s)"
      "mr_request (rc_recorders s2 ! k) = mr_request (rc_recorders s ! k)" "current s2 k = current s k" for k
    by (simp_all add: s2_def f tm current_def deactivate_nth)
  have "snd (stopRecording mode s) = s2" using r by (simp add: stopRecording_def Let_def s2_def s1_def)
  moreover have "rec_inv s2"
  proof (rule rec_invI, goal_cases)
    case (1 i) then show ?case using inv_streams [OF inv] by (simp add: g)
  next
    case (2 i) then show ?case using inv_shown [OF inv] by (simp add: g)
  next
    case (3 k) then show ?case using inv_current [OF inv] by (simp add: g)
  next
    case (4 k) then show ?case using inv_requests [OF inv] by (simp add: g)
  next
    case (5 q) then show ?case using inv_pending [OF inv] by (simp add: g)
  next
    case 6 then show ?case using inv_waiting [OF inv] by (simp add: g)
  next
    case 7 then show ?case by (simp add: g)
  next
    case 8 then show ?case using inv_recording [OF inv] by (simp add: g)
  next
    case 9 then show ?case using inv_idle [OF inv] by (simp add: g)
  qed
  ultimately show ?thesis by simp
qed

lemma reset_inv:
  assumes "\<forall>i < length (rc_streams t). rc_streams t ! i \<longrightarrow> rc_stream t = Some i"
    and "set (rc_intervals t) \<subseteq> set_option (rc_timer t)"
    and "rc_status t \<noteq> Recording" and "\<And>r. \<not> current t r"
    and "\<forall>r < length (rc_recorders t). mr_request (rc_recorders t ! r) \<le> rc_requestId t"
    and "\<forall>q \<in> set (rc_pending t). q \<le> rc_requestId t" and "rc_requestId t \<notin> set (rc_pending t)"
  shows "rec_inv (resetRecorderRefs t)"
  using assms reset_silent [OF assms(1,2)] by (intro idle_inv) (auto simp: current_def)

lemma stop_fired_inv:
  assumes inv: "rec_inv s" and r: "r < length (rc_recorders s)" "mr_stop_due (rc_recorders s ! r)"
  shows "rec_inv (on_stop now lt url r s)"
proof -
  define s1 where "s1 = s\<lparr>rc_recorders := (rc_recorders s)[r := (rc_recorders s ! r)\<lparr>mr_active := False, mr_stop_due := False\<rparr>]\<rparr>"
  have q: "mr_request (rc_recorders s1 ! k) = mr_request (rc_recorders s ! k)"
      "mr_stop_due (rc_recorders s1 ! k) = (k \<noteq> r \<and> mr_stop_due (rc_recorders s ! k))"
      "length (rc_recorders s1) = length (rc_recorders s)" for k
    using r by (cases "k = r"; simp add: s1_def nth_list_update)+
  have f: "rc_streams s1 = rc_streams s" "rc_stream s1 = rc_stream s" "rc_recorder s1 = rc_recorder s"
      "rc_requestId s1 = rc_requestId s" "rc_pending s1 = rc_pending s" "rc_status s1 = rc_status s"
      "rc_timer s1 = rc_timer s" "rc_intervals s1 = rc_intervals s"
    by (simp_all add: s1_def)
  show ?thesis
  proof (cases "rc_requestId s = mr_request (rc_recorders s ! r)")
    case False
    have cur: "current s1 k = current s k" for k
      using False by (auto simp: current_def q f)
    have "on_stop now lt url r s = s1" using False r by (simp add: on_stop_def Let_def s1_def)
    moreover have "rec_inv s1"
    proof (rule rec_invI, goal_cases)
      case (1 i) then show ?case using inv_streams [OF inv] by (simp add: f)
    next
      case (2 i) then show ?case using inv_shown [OF inv] by (simp add: f)
    next
      case (3 k) then show ?case using inv_current [OF inv] by (simp add: f cur)
    next
      case (4 k) then show ?case using inv_requests [OF inv] by (simp add: f q)
    next
      case (5 q) then show ?case using inv_pending [OF inv] by (simp add: f)
    next
      case 6 then show ?case using inv_waiting [OF inv] by (simp add: f)
    next
      case 7 then show ?case using inv_intervals [OF inv] by (simp add: f)
    next
      case 8 then show ?case using inv_recording [OF inv] by (simp add: f cur)
    next
      case 9 then show ?case using inv_idle [OF inv] by (simp add: f)
    qed
    ultimately show ?thesis by simp
  next
    case True
    then have cr: "current s r" using r by (simp add: current_def)
    then have st: "rc_status s = Recording" using inv_no_current [OF inv] by blast
    have none: "\<not> (k < length (rc_recorders s1) \<and> mr_stop_due (rc_recorders s1 ! k) \<and> mr_request (rc_recorders s1 ! k) = rc_requestId s)" for k
      using inv_current [OF inv cr] inv_current [OF inv, of k] by (auto simp: current_def q)
    have np: "rc_requestId s \<notin> set (rc_pending s)" using inv_waiting [OF inv] st by auto
    let ?t = "s1\<lparr>rc_mode := Attach, rc_elapsed := 0, rc_error := None, rc_status := Idle\<rparr>"
    have t: "rec_inv (resetRecorderRefs (?t\<lparr>rc_empty := x, rc_completed := y\<rparr>))" for x y
      using none np inv_streams [OF inv] inv_intervals [OF inv] inv_requests [OF inv] inv_pending [OF inv]
      by (intro reset_inv) (simp_all add: f q current_def)
    have "\<exists>x y. on_stop now lt url r s = resetRecorderRefs (?t\<lparr>rc_empty := x, rc_completed := y\<rparr>)"
    proof (cases "concat (rc_chunks s) = []")
      case True
      then show ?thesis using \<open>rc_requestId s = _\<close> r
        by (intro exI [of _ "rc_empty s @ [rc_mode s]"] exI [of _ "rc_completed s"])
          (simp add: on_stop_def Let_def s1_def)
    next
      case False
      then show ?thesis using \<open>rc_requestId s = _\<close> r
        by (intro exI [of _ "rc_empty s"] exI) (simp add: on_stop_def Let_def s1_def del: concat_eq_Nil_conv)
    qed
    then show ?thesis using t by auto
  qed
qed

text \<open>The invariant holds on the runs of benign events.\<close>

lemma init_inv: "rec_inv (recorder_init True)"
  by (simp add: rec_inv_def recorder_init_def current_def)

lemma rec_step_inv:
  assumes "rec_step True its s e s'" and "benign e" and "rec_inv s"
  shows "rec_inv s'"
  using assms
  by (cases rule: rec_step.cases)
    (auto simp: benign_def simp del: rec_step_simps intro: click_inv stream_inv denied_inv data_inv stop_fired_inv
       stop_click_inv cancel_click_inv tick_inv)

lemma reach_inv:
  assumes "rec_run True its (recorder_init True) es s" and "list_all benign es"
  shows "rec_inv s"
  using rec_run_inv [OF assms(1), of rec_inv benign] assms(2) init_inv rec_step_inv by blast

section \<open>Properties\<close>

lemma reach_mounted:
  assumes "rec_run True its (recorder_init True) es s" and "list_all benign es"
  shows "rc_mounted s"
proof (rule rec_run_inv [OF assms(1) _ assms(2), of rc_mounted])
  show "rc_mounted (recorder_init True)" by (simp add: recorder_init_def)
next
  fix s e s' assume "rc_mounted s" "benign e" "rec_step True its s e s'"
  then show "rc_mounted s'"
    by (cases e)
      (auto simp: benign_def handleAudioRecorderClick_def startRecording_def on_stream_def on_denied_def start_failed_def
        stop_tracks_def on_data_def on_stop_def stopRecording_def cleanupTimer_def resetRecording_def on_tick_def Let_def
        split: option.split)
qed

text \<open>C7: While the editor is mounted and its browser can construct recorders, whatever the order in which the user
  clicks, the microphone is granted or denied and recorders deliver and stop: the only stream whose tracks run is the
  one the hook refers to, it runs only in the status Recording, and so does the interval. A stream granted to a
  request that was cancelled is stopped at once.\<close>

theorem mic_safe:
  assumes "rec_run True its (recorder_init True) es s" and "list_all benign es"
  shows "(\<forall>i < length (rc_streams s). rc_streams s ! i \<longrightarrow> rc_stream s = Some i \<and> rc_status s = Recording)
    \<and> set (rc_intervals s) \<subseteq> set_option (rc_timer s) \<and> (rc_intervals s \<noteq> [] \<longrightarrow> rc_status s = Recording)"
  using reach_inv [OF assms] inv_streams [of s] inv_idle [of s] inv_intervals [of s] by fastforce

theorem mic_safe_witness:
  "\<exists>s. rec_run True (\<lambda>m. True) (recorder_init True) [Click, Cancel, Click, Stream True True 7 1, Stream True True 9 3] s
    \<and> rc_streams s = [False, True] \<and> rc_stream s = Some 1 \<and> rc_status s = Recording"
proof -
  let ?es = "[Click, Cancel, Click, Stream True True 7 1, Stream True True 9 3]"
  have "case rec_exec True (\<lambda>m. True) (recorder_init True) ?es of None \<Rightarrow> False | Some s \<Rightarrow> rc_streams s = [False, True]"
    by code_simp
  then obtain s where s: "rec_run True (\<lambda>m. True) (recorder_init True) ?es s" "rc_streams s = [False, True]"
    by (auto split: option.splits dest!: rec_exec_run simp del: rec_exec.simps rec_run_simps)
  have "list_all benign ?es" by (simp add: benign_def)
  with s show ?thesis using mic_safe [OF s(1)] by fastforce
qed

text \<open>What the stop event does to a state of the invariant.\<close>

lemma on_stop_delivers:
  assumes "rec_inv s" and "current s r"
  shows "let s' = on_stop now lt url r s in rc_status s' = Idle \<and> silent s' \<and>
    (if concat (rc_chunks s) = [] then rc_completed s' = rc_completed s \<and> rc_empty s' = rc_empty s @ [rc_mode s]
     else rc_empty s' = rc_empty s \<and> (\<exists>f. rc_completed s' = rc_completed s @ [(f, rc_mode s)]
       \<and> f_bytes (lf_file f) = concat (rc_chunks s) \<and> lf_origin f = Some AudioRecording))"
proof -
  have r: "r < length (rc_recorders s)" "mr_stop_due (rc_recorders s ! r)" "mr_request (rc_recorders s ! r) = rc_requestId s"
    using assms(2) by (auto simp: current_def)
  have "rc_status (on_stop now lt url r s) = Idle" using r by (simp add: on_stop_def Let_def)
  then have "silent (on_stop now lt url r s)" using inv_silent [OF stop_fired_inv [OF assms(1) r(1,2)]] by simp
  moreover have "rc_completed (on_stop now lt url r s) = rc_completed s \<and> rc_empty (on_stop now lt url r s) = rc_empty s @ [rc_mode s]"
    if "concat (rc_chunks s) = []"
    using that r(1,3) by (simp add: on_stop_def Let_def del: concat_eq_Nil_conv)
  moreover have "rc_empty (on_stop now lt url r s) = rc_empty s \<and> (\<exists>f. rc_completed (on_stop now lt url r s) = rc_completed s @ [(f, rc_mode s)]
       \<and> f_bytes (lf_file f) = concat (rc_chunks s) \<and> lf_origin f = Some AudioRecording)" if "concat (rc_chunks s) \<noteq> []"
    using that r(1,3) by (simp add: on_stop_def Let_def createRecordedFile_def del: concat_eq_Nil_conv)
  ultimately show ?thesis using \<open>rc_status (on_stop now lt url r s) = Idle\<close> by (simp add: Let_def del: concat_eq_Nil_conv)
qed

text \<open>The recorder that records delivers data, after a click on stop too.\<close>

lemma data_run:
  assumes "current s r"
  shows "\<exists>s'. rec_run True its s (map (\<lambda>c. Data c r) cs) s' \<and> current s' r
    \<and> concat (rc_chunks s') = concat (rc_chunks s) @ concat cs \<and> rc_completed s' = rc_completed s
    \<and> rc_empty s' = rc_empty s \<and> rc_mode s' = rc_mode s \<and> (rec_inv s \<longrightarrow> rec_inv s')"
  using assms
proof (induction cs arbitrary: s)
  case (Cons c cs)
  define t where "t = on_data c r s"
  have c: "r < length (rc_recorders s)" "mr_stop_due (rc_recorders s ! r)" "mr_request (rc_recorders s ! r) = rc_requestId s"
    using Cons.prems by (auto simp: current_def)
  have t: "current t r" "concat (rc_chunks t) = concat (rc_chunks s) @ c" "rc_completed t = rc_completed s"
      "rc_empty t = rc_empty s" "rc_mode t = rc_mode s" "rec_inv s \<longrightarrow> rec_inv t"
    using Cons.prems c(3) data_inv [of s c r] by (auto simp: t_def on_data_def current_def)
  have step: "rec_step True its s (Data c r) t" using c by (simp add: t_def)
  from Cons.IH [OF t(1)] obtain s' where "rec_run True its t (map (\<lambda>c. Data c r) cs) s'" "current s' r"
      "concat (rc_chunks s') = concat (rc_chunks t) @ concat cs" "rc_completed s' = rc_completed t"
      "rc_empty s' = rc_empty t" "rc_mode s' = rc_mode t" "rec_inv t \<longrightarrow> rec_inv s'" by blast
  then show ?case using step t
    by (intro exI [of _ s']) (auto simp del: rec_step_simps rec_run_simps intro: rec_run.more)
qed (auto intro: rec_run.stay simp del: rec_run_simps)

lemma rec_run_append:
  "rec_run su its s es t \<Longrightarrow> rec_run su its t fs u \<Longrightarrow> rec_run su its s (es @ fs) u"
  by (induction rule: rec_run.induct) (auto simp del: rec_step_simps rec_run_simps intro: rec_run.more)

text \<open>C28: Stopping a recording always ends it, while the editor is mounted and its browser can construct recorders:
  from every state reached so that records, the click on stop, whatever data the recorder still delivers, and its stop
  event are possible, and after them the hook is idle, no track and no interval runs, and exactly one callback was
  called: with one file whose bytes are the chunks in their order, those delivered after the click included, or with
  nothing when nothing was recorded. The first click decides whether the file is attached or transcribed.\<close>

theorem stop_delivers:
  assumes "rec_run True its (recorder_init True) es s" and "list_all benign es" and "rc_status s = Recording"
  shows "\<exists>r s'. rc_recorder s = Some r
    \<and> rec_run True its s (Stop_Click mode # map (\<lambda>c. Data c r) cs @ [Stop_Fired now lt url r]) s'
    \<and> rc_status s' = Idle \<and> silent s'
    \<and> (let m = (if mr_active (rc_recorders s ! r) then mode else rc_mode s);
           bytes = concat (rc_chunks s) @ concat cs in
       if bytes = [] then rc_completed s' = rc_completed s \<and> rc_empty s' = rc_empty s @ [m]
       else rc_empty s' = rc_empty s \<and> (\<exists>f. rc_completed s' = rc_completed s @ [(f, m)]
         \<and> f_bytes (lf_file f) = bytes \<and> lf_origin f = Some AudioRecording))"
proof -
  have inv: "rec_inv s" and mounted: "rc_mounted s" using reach_inv [OF assms(1,2)] reach_mounted [OF assms(1,2)] by auto
  obtain r where r: "rc_recorder s = Some r" "current s r" using inv_recording [OF inv assms(3)] by blast
  define s1 where "s1 = snd (stopRecording mode s)"
  have inv1: "rec_inv s1" unfolding s1_def by (rule stop_click_inv [OF inv])
  have f: "rc_chunks s1 = rc_chunks s" "rc_completed s1 = rc_completed s" "rc_empty s1 = rc_empty s"
      "rc_mode s1 = (if mr_active (rc_recorders s ! r) then mode else rc_mode s)"
    using r(1) by (auto simp: s1_def stopRecording_def Let_def cleanupTimer_def split: option.split)
  have c1: "current s1 r"
    using r by (auto simp: s1_def stopRecording_def Let_def cleanupTimer_def current_def deactivate_nth split: option.split)
  obtain s2 where s2: "rec_run True its s1 (map (\<lambda>c. Data c r) cs) s2" "current s2 r"
      "concat (rc_chunks s2) = concat (rc_chunks s1) @ concat cs" "rc_completed s2 = rc_completed s1"
      "rc_empty s2 = rc_empty s1" "rc_mode s2 = rc_mode s1" "rec_inv s2"
    using data_run [OF c1, of its cs] inv1 by blast
  have "rec_run True its s2 [Stop_Fired now lt url r] (on_stop now lt url r s2)"
    using s2(2) by (simp add: current_def)
  then have "rec_run True its s1 (map (\<lambda>c. Data c r) cs @ [Stop_Fired now lt url r]) (on_stop now lt url r s2)"
    by (rule rec_run_append [OF s2(1)])
  then have "rec_run True its s (Stop_Click mode # map (\<lambda>c. Data c r) cs @ [Stop_Fired now lt url r]) (on_stop now lt url r s2)"
    by (rule rec_run.more [rotated]) (use mounted in \<open>simp add: s1_def\<close>)
  then show ?thesis
    using on_stop_delivers [OF s2(7,2), of now lt url] r(1) unfolding s2(3-6) f Let_def by blast
qed

theorem stop_delivers_witness:
  "\<exists>s r s'. rec_run True (\<lambda>m. True) (recorder_init True) [Click, Stream True True 5 1, Data [1, 2] 0] s
    \<and> rec_run True (\<lambda>m. True) s
        [Stop_Click Transcribe, Data [3] r, Stop_Fired 9 (local_time.make 2024 0 1 2 3 4) ''blob:1'' r] s'
    \<and> rc_status s' = Idle \<and> silent s' \<and> (\<exists>f m. rc_completed s' = rc_completed s @ [(f, m)]
        \<and> f_bytes (lf_file f) = concat (rc_chunks s) @ [3])"
proof -
  let ?es = "[Click, Stream True True 5 1, Data [1, 2] 0]"
  have "case rec_exec True (\<lambda>m. True) (recorder_init True) ?es of None \<Rightarrow> False | Some s \<Rightarrow> rc_status s = Recording"
    by code_simp
  then obtain s where s: "rec_run True (\<lambda>m. True) (recorder_init True) ?es s" "rc_status s = Recording"
    by (auto split: option.splits dest!: rec_exec_run simp del: rec_exec.simps rec_run_simps)
  have "list_all benign ?es" by (simp add: benign_def)
  from stop_delivers [OF s(1) this s(2), of Transcribe "[[3]]" 9 "local_time.make 2024 0 1 2 3 4" "''blob:1''"]
  obtain r s' where r: "rec_run True (\<lambda>m. True) s
        [Stop_Click Transcribe, Data [3] r, Stop_Fired 9 (local_time.make 2024 0 1 2 3 4) ''blob:1'' r] s'"
      "rc_status s' = Idle" "silent s'" "\<exists>f m. rc_completed s' = rc_completed s @ [(f, m)]
        \<and> f_bytes (lf_file f) = concat (rc_chunks s) @ [3]"
    by (auto simp: Let_def simp del: rec_run_simps rec_step_simps)
  show ?thesis using s(1) r by blast
qed

text \<open>Two ways in which the microphone stays on. When the editor is closed while the browser still asks for
  permission, the stream granted afterwards is recorded although no editor is left. When the recorder cannot be
  constructed for a granted stream, neither the failure, nor cancelling, nor closing the editor stops the stream.\<close>

theorem mic_leaks:
  "(\<exists>s. rec_run True (\<lambda>m. True) (recorder_init True) [Click, Unmount, Stream True True 5 1] s
      \<and> \<not> rc_mounted s \<and> rc_streams s = [True] \<and> rc_status s = Recording)
   \<and> (\<exists>s. rec_run True (\<lambda>m. False) (recorder_init True) [Click, Stream False True 5 1, Cancel, Unmount] s
      \<and> rc_status s = Idle \<and> \<not> rc_mounted s \<and> rc_streams s = [True])"
proof
  have "case rec_exec True (\<lambda>m. True) (recorder_init True) [Click, Unmount, Stream True True 5 1] of None \<Rightarrow> False
    | Some s \<Rightarrow> \<not> rc_mounted s \<and> rc_streams s = [True] \<and> rc_status s = Recording" by code_simp
  then show "\<exists>s. rec_run True (\<lambda>m. True) (recorder_init True) [Click, Unmount, Stream True True 5 1] s
      \<and> \<not> rc_mounted s \<and> rc_streams s = [True] \<and> rc_status s = Recording"
    by (auto split: option.splits dest!: rec_exec_run simp del: rec_exec.simps rec_run_simps)
next
  have "case rec_exec True (\<lambda>m. False) (recorder_init True) [Click, Stream False True 5 1, Cancel, Unmount] of None \<Rightarrow> False
    | Some s \<Rightarrow> rc_status s = Idle \<and> \<not> rc_mounted s \<and> rc_streams s = [True]" by code_simp
  then show "\<exists>s. rec_run True (\<lambda>m. False) (recorder_init True) [Click, Stream False True 5 1, Cancel, Unmount] s
      \<and> rc_status s = Idle \<and> \<not> rc_mounted s \<and> rc_streams s = [True]"
    by (auto split: option.splits dest!: rec_exec_run simp del: rec_exec.simps rec_run_simps)
qed

section \<open>The name of a recorded file\<close>

lemma digit_chars: "digit_char 0 = CHR ''0''" "digit_char 1 = CHR ''1''" "digit_char 2 = CHR ''2''" "digit_char 3 = CHR ''3''"
  "digit_char 4 = CHR ''4''" "digit_char 5 = CHR ''5''" "digit_char 6 = CHR ''6''" "digit_char 7 = CHR ''7''"
  "digit_char 8 = CHR ''8''" "digit_char 9 = CHR ''9''"
  by code_simp+

lemma two_digits_eq: "n < 100 \<Longrightarrow> two_digits n = [digit_char (n div 10), digit_char n]"
  by (cases "n < 10")
    (simp_all add: two_digits_def pad_start_def show_nat.simps [of n] show_nat.simps [of "n div 10"] digit_chars
      numeral_2_eq_2)

lemma show_nat_year:
  "1000 \<le> y \<Longrightarrow> y < 10000 \<Longrightarrow>
    show_nat y = [digit_char (y div 1000), digit_char (y div 100), digit_char (y div 10), digit_char y]"
proof -
  assume y: "1000 \<le> y" "y < 10000"
  have step: "show_nat n = show_nat (n div 10) @ [digit_char n]" if "\<not> n < 10" for n
    using that by (simp add: show_nat.simps [of n])
  have "\<not> y < 10" "\<not> y div 10 < 10" "\<not> y div 100 < 10" "y div 1000 < 10" using y by auto
  moreover have "y div 10 div 10 = y div 100" "y div 100 div 10 = y div 1000" by (simp_all add: div_mult2_eq [symmetric])
  ultimately show ?thesis
    using step [OF \<open>\<not> y < 10\<close>] step [OF \<open>\<not> y div 10 < 10\<close>] step [OF \<open>\<not> y div 100 < 10\<close>] by (simp only: show_nat.simps [of "y div 1000"] if_True append.simps)
qed

lemma digit_not_sep: "digit_char n \<noteq> CHR ''.''" "\<not> is_digit CHR ''.''"
proof -
  show "\<not> is_digit CHR ''.''" by code_simp
  then show "digit_char n \<noteq> CHR ''.''" using is_digit_digit_char [of n] by metis
qed

text \<open>The name given to a recording is recognized as one, and the label shown for it is the time at which it
  ended.\<close>

theorem recorded_name_label:
  assumes "1000 \<le> lt_year t" "lt_year t < 10000" "lt_month t < 12" "lt_day t < 32"
    and "lt_hours t < 24" "lt_minutes t < 60" "lt_seconds t < 60"
  shows "getAudioRecordingTimeLabel (f_name (createRecordedFile bytes mimeType t))
    = Some (two_digits (lt_hours t) @ '':'' @ two_digits (lt_minutes t) @ '':'' @ two_digits (lt_seconds t))"
proof -
  let ?d = "show_nat (lt_year t) @ two_digits (lt_month t + 1) @ two_digits (lt_day t)"
  let ?t = "two_digits (lt_hours t) @ two_digits (lt_minutes t) @ two_digits (lt_seconds t)"
  have name: "f_name (createRecordedFile bytes mimeType t) = ''voice-note-'' @ ?d @ ''-'' @ ?t @ ''.'' @ getFileExtension mimeType"
    by (simp add: createRecordedFile_def Let_def)
  have find: "List.find (\<lambda>p. startsWith (toLowerCase (''voice-note-'' @ r)) p) recording_prefixes = Some ''voice-note-''" for r
  proof -
    have "toLowerCase ''voice-note-'' = ''voice-note-''" by code_simp
    then have "toLowerCase (''voice-note-'' @ r) = ''voice-note-'' @ toLowerCase r" by (simp only: toLowerCase_def map_append)
    then show ?thesis by (simp add: recording_prefixes_def)
  qed
  show ?thesis unfolding name getAudioRecordingTimeLabel_def match_recording_def find using assms
    by (simp add: show_nat_year two_digits_eq digit_not_sep)
qed

theorem recorded_name_label_witness:
  "getAudioRecordingTimeLabel (f_name (createRecordedFile [1] ''audio/mp4'' (local_time.make 2024 0 31 9 5 0)))
    = Some ''09:05:00''"
  using recorded_name_label [of "local_time.make 2024 0 31 9 5 0" "[1]" "''audio/mp4''"]
  by (simp add: local_time.defs two_digits_eq digit_chars [simplified])

end
