(* ===== verification/ProtoInstance.thy ===== *)
theory ProtoInstance
  imports Proto
begin

text \<open>
  The messages of the instance settings (\<^verbatim>\<open>web/src/types/proto/api/v1/instance_service_pb.ts\<close>), with
  the fields in the order of their declaration. The value of a setting is one of several messages, or
  absent. A colour of a tag is kept as the library's text of it.
\<close>

record custom_profile =
  cp_title :: string
  cp_description :: string
  cp_logoUrl :: string

record general_setting =
  gs_disallowUserRegistration :: bool
  gs_disallowPasswordAuth :: bool
  gs_additionalScript :: string
  gs_additionalStyle :: string
  gs_customProfile :: "custom_profile option"
  gs_weekStartDayOffset :: int
  gs_disallowChangeUsername :: bool
  gs_disallowChangeNickname :: bool

datatype storage_type = STORAGE_TYPE_UNSPECIFIED | DATABASE | LOCAL | S3

record s3_config =
  s3_accessKeyId :: string
  s3_accessKeySecret :: string
  s3_endpoint :: string
  s3_region :: string
  s3_bucket :: string
  s3_usePathStyle :: bool
  s3_insecureSkipTlsVerify :: bool

record storage_setting =
  ss_storageType :: storage_type
  ss_filepathTemplate :: string
  ss_uploadSizeLimitMb :: int
  ss_s3Config :: "s3_config option"

record memo_related_setting =
  mr_contentLengthLimit :: int
  mr_enableDoubleClickEdit :: bool
  mr_reactions :: "string list"

record tag_metadata =
  tm_backgroundColor :: "string option"
  tm_blurContent :: bool

record tags_setting =
  tg_tags :: "(string \<times> tag_metadata) list"

record email_setting =
  ems_enabled :: bool
  ems_smtpHost :: string
  ems_smtpPort :: int
  ems_smtpUsername :: string
  ems_smtpPassword :: string
  ems_fromEmail :: string
  ems_fromName :: string
  ems_replyTo :: string
  ems_useTls :: bool
  ems_useSsl :: bool

record notification_setting =
  ns_email :: "email_setting option"

datatype ai_provider_type = AI_PROVIDER_TYPE_UNSPECIFIED | OPENAI | GEMINI

record ai_provider =
  ap_id :: string
  ap_title :: string
  ap_type :: ai_provider_type
  ap_endpoint :: string
  ap_apiKey :: string
  ap_apiKeySet :: bool
  ap_apiKeyHint :: string

record transcription_config =
  tc_providerId :: string
  tc_model :: string
  tc_language :: string
  tc_prompt :: string

record ai_setting =
  as_providers :: "ai_provider list"
  as_transcription :: "transcription_config option"

datatype setting_key = KEY_UNSPECIFIED | GENERAL | STORAGE | MEMO_RELATED | TAGS | NOTIFICATION | AI

datatype setting_value =
    GeneralSetting general_setting
  | StorageSetting storage_setting
  | MemoRelatedSetting memo_related_setting
  | TagsSetting tags_setting
  | NotificationSetting notification_setting
  | AiSetting ai_setting
  | NoSetting

record instance_setting =
  is_name :: string
  is_value :: setting_value

record instance_profile =
  ip_version :: string
  ip_demo :: bool
  ip_instanceUrl :: string
  ip_admin :: "user option"
  ip_commit :: string
  ip_needsSetup :: bool

text \<open>The messages with the default values, as \<open>create\<close> makes them.\<close>

definition empty_profile :: instance_profile where
  "empty_profile = \<lparr>ip_version = [], ip_demo = False, ip_instanceUrl = [], ip_admin = None, ip_commit = [], ip_needsSetup = False\<rparr>"

definition empty_general :: general_setting where
  "empty_general = \<lparr>gs_disallowUserRegistration = False, gs_disallowPasswordAuth = False, gs_additionalScript = [],
     gs_additionalStyle = [], gs_customProfile = None, gs_weekStartDayOffset = 0,
     gs_disallowChangeUsername = False, gs_disallowChangeNickname = False\<rparr>"

definition empty_storage :: storage_setting where
  "empty_storage = \<lparr>ss_storageType = STORAGE_TYPE_UNSPECIFIED, ss_filepathTemplate = [], ss_uploadSizeLimitMb = 0, ss_s3Config = None\<rparr>"

definition empty_memo_related :: memo_related_setting where
  "empty_memo_related = \<lparr>mr_contentLengthLimit = 0, mr_enableDoubleClickEdit = False, mr_reactions = []\<rparr>"

definition empty_notification :: notification_setting where
  "empty_notification = \<lparr>ns_email = None\<rparr>"

definition empty_ai :: ai_setting where
  "empty_ai = \<lparr>as_providers = [], as_transcription = None\<rparr>"

end
