(* ===== verification/AttachmentLibrary.thy ===== *)
theory AttachmentLibrary
  imports Attachments MemoLists
begin

text \<open>
  The attachment library: the lists and month groups that \<^verbatim>\<open>hooks/useAttachmentLibrary.ts\<close>
  makes of the loaded pages, and the page's own operations (\<^verbatim>\<open>pages/Attachments.tsx\<close>): the
  tab that is shown, the preview that is opened, and the deletion of all unused attachments. Dates are in
  milliseconds; what the platform's and dayjs's formatters make of them is a field of \<open>library_env\<close>.
\<close>

section \<open>Labels\<close>

text \<open>
  \<open>formatFileSize\<close>: \<open>lg n\<close> is the rounded-down quotient of the floating-point logarithms, \<open>fixed\<close> is
  \<open>toFixed(1)\<close>. Beyond the last unit the array gives \<open>undefined\<close>.
\<close>

definition size_units :: "string list" where
  "size_units = [''B'', ''KB'', ''MB'', ''GB'', ''TB'']"

definition formatFileSize :: "(int \<Rightarrow> nat) \<Rightarrow> (rat \<Rightarrow> string) \<Rightarrow> int \<Rightarrow> string" where
  "formatFileSize lg fixed bytes =
     (if bytes = 0 then ''0 B''
      else if bytes < 0 then ''Invalid size''
      else
        let i = lg bytes; size = rat_of_int bytes / 1024 ^ i;
            formatted = (if i = 0 then show_int bytes else fixed size) in
        formatted @ '' '' @ (if i < length size_units then size_units ! i else ''undefined''))"

record library_env =
  le_origin :: string
  le_ts_date :: "timestamp \<Rightarrow> int"
  le_locale_date :: "int \<Rightarrow> string"
  le_month :: "int \<Rightarrow> string"
  le_month_label :: "string \<Rightarrow> string"
  le_collate :: "string \<Rightarrow> string \<Rightarrow> int"
  le_size :: "int \<Rightarrow> string"
  le_live_photo :: string
  le_unknown_date :: string

record attachment_metadata =
  am_fileTypeLabel :: string
  am_fileSizeLabel :: "string option"

definition getAttachmentMetadata :: "library_env \<Rightarrow> attachment \<Rightarrow> attachment_metadata" where
  "getAttachmentMetadata e a =
     \<lparr>am_fileTypeLabel = getFileTypeLabel (a_type a),
      am_fileSizeLabel = (if a_size a \<noteq> 0 then Some (le_size e (a_size a)) else None)\<rparr>"

section \<open>Items of the library\<close>

datatype attachment_library_tab = TabMedia | TabDocuments | TabAudio

record attachment_library_stats =
  as_unused :: nat
  as_media :: nat
  as_documents :: nat
  as_audio :: nat

record library_list_item =
  ll_attachment :: attachment
  ll_createdAt :: "int option"
  ll_createdLabel :: string
  ll_fileTypeLabel :: string
  ll_fileSizeLabel :: "string option"
  ll_memoName :: "string option"
  ll_sourceUrl :: string

record library_media_item = visual_item +
  lm_primaryAttachment :: attachment
  lm_createdAt :: "int option"
  lm_createdLabel :: string
  lm_fileTypeLabel :: string

record library_month_group =
  lg_key :: string
  lg_label :: string
  lg_items :: "library_media_item list"

definition sortByNewest :: "int option \<Rightarrow> int option \<Rightarrow> int" where
  "sortByNewest a b = (case b of None \<Rightarrow> 0 | Some t \<Rightarrow> t) - (case a of None \<Rightarrow> 0 | Some t \<Rightarrow> t)"

definition isLinkedAttachment :: "attachment \<Rightarrow> bool" where
  "isLinkedAttachment a = (case a_memo a of None \<Rightarrow> False | Some m \<Rightarrow> m \<noteq> [])"

definition isVisualAttachment :: "attachment \<Rightarrow> bool" where
  "isVisualAttachment a \<longleftrightarrow> isImageAttachment a \<or> isVideoAttachment a \<or> isMotionAttachment a"

definition toCreatedAt :: "library_env \<Rightarrow> attachment \<Rightarrow> int option" where
  "toCreatedAt e a = map_option (le_ts_date e) (a_createTime a)"

text \<open>The dash of a missing date is kept as its ASCII neighbour.\<close>

definition formatCreatedAt :: "library_env \<Rightarrow> int option \<Rightarrow> string" where
  "formatCreatedAt e date = (case date of None \<Rightarrow> ''-'' | Some d \<Rightarrow> le_locale_date e d)"

definition toLibraryListItem :: "library_env \<Rightarrow> attachment \<Rightarrow> library_list_item" where
  "toLibraryListItem e a =
     (let createdAt = toCreatedAt e a; md = getAttachmentMetadata e a in
      \<lparr>ll_attachment = a, ll_createdAt = createdAt, ll_createdLabel = formatCreatedAt e createdAt,
       ll_fileTypeLabel = am_fileTypeLabel md, ll_fileSizeLabel = am_fileSizeLabel md, ll_memoName = a_memo a,
       ll_sourceUrl = (if a_externalLink a \<noteq> [] then a_externalLink a
                       else le_origin e @ ''/file/'' @ a_name a @ ''/'' @ a_filename a)\<rparr>)"

definition toLibraryMediaItem :: "library_env \<Rightarrow> visual_item \<Rightarrow> library_media_item" where
  "toLibraryMediaItem e item =
     (let primaryAttachment = hd (vi_attachments item);
          createdAt = toCreatedAt e primaryAttachment;
          fileTypeLabel = am_fileTypeLabel (getAttachmentMetadata e primaryAttachment) in
      visual_item.extend item
        \<lparr>lm_primaryAttachment = primaryAttachment, lm_createdAt = createdAt,
         lm_createdLabel = formatCreatedAt e createdAt,
         lm_fileTypeLabel = (if vi_kind item = KMotion then le_live_photo e else fileTypeLabel)\<rparr>)"

section \<open>Month groups\<close>

definition month_of :: "library_env \<Rightarrow> library_media_item \<Rightarrow> string" where
  "month_of e item = (case lm_createdAt item of None \<Rightarrow> ''unknown'' | Some d \<Rightarrow> le_month e d)"

definition compare_months :: "library_env \<Rightarrow> string \<Rightarrow> string \<Rightarrow> int" where
  "compare_months e a b = (if a = ''unknown'' then 1 else if b = ''unknown'' then - 1 else le_collate e b a)"

definition newest_items :: "library_media_item list \<Rightarrow> library_media_item list" where
  "newest_items = js_sort (\<lambda>a b. sortByNewest (lm_createdAt a) (lm_createdAt b))"

definition groupMediaByMonth :: "library_env \<Rightarrow> library_media_item list \<Rightarrow> library_month_group list" where
  "groupMediaByMonth e items =
     map (\<lambda>(key, groupedItems).
            \<lparr>lg_key = key, lg_label = (if key = ''unknown'' then le_unknown_date e else le_month_label e key),
             lg_items = newest_items groupedItems\<rparr>)
       (js_sort (\<lambda>a b. compare_months e (fst a) (fst b)) (group_by (\<lambda>i. Some (month_of e i)) items))"

section \<open>The hook\<close>

record attachment_library =
  al_attachments :: "attachment list"
  al_mediaGroups :: "library_month_group list"
  al_mediaItems :: "library_media_item list"
  al_mediaPreviewItems :: "preview_media_item list"
  al_documentItems :: "library_list_item list"
  al_audioItems :: "library_list_item list"
  al_unusedItems :: "library_list_item list"
  al_stats :: attachment_library_stats

definition newest_attachments :: "library_env \<Rightarrow> attachment list \<Rightarrow> attachment list" where
  "newest_attachments e = js_sort (\<lambda>a b. sortByNewest (toCreatedAt e a) (toCreatedAt e b))"

definition library_media :: "library_env \<Rightarrow> attachment list \<Rightarrow> library_media_item list" where
  "library_media e linkedAttachments =
     newest_items (map (toLibraryMediaItem e)
       (buildAttachmentVisualItems (le_origin e) (filter isVisualAttachment linkedAttachments)))"

definition useAttachmentLibrary :: "library_env \<Rightarrow> attachment list list \<Rightarrow> attachment_library" where
  "useAttachmentLibrary e pages =
     (let attachments = concat pages;
          linkedAttachments = newest_attachments e (filter isLinkedAttachment attachments);
          unusedAttachments = newest_attachments e (filter (\<lambda>a. \<not> isLinkedAttachment a) attachments);
          mediaItems = library_media e linkedAttachments;
          documentItems = map (toLibraryListItem e)
            (filter (\<lambda>a. \<not> isVisualAttachment a \<and> \<not> isAudioAttachment a) linkedAttachments);
          audioItems = map (toLibraryListItem e) (filter isAudioAttachment linkedAttachments);
          unusedItems = map (toLibraryListItem e) unusedAttachments in
      \<lparr>al_attachments = attachments,
       al_mediaGroups = groupMediaByMonth e mediaItems,
       al_mediaItems = mediaItems,
       al_mediaPreviewItems = map vi_previewItem mediaItems,
       al_documentItems = documentItems,
       al_audioItems = audioItems,
       al_unusedItems = unusedItems,
       al_stats = \<lparr>as_unused = length unusedAttachments, as_media = length mediaItems,
                   as_documents = length documentItems, as_audio = length audioItems\<rparr>\<rparr>)"

section \<open>The page\<close>

definition current_items_count :: "attachment_library_tab \<Rightarrow> attachment_library_stats \<Rightarrow> nat" where
  "current_items_count tab stats =
     (case tab of TabAudio \<Rightarrow> as_audio stats | TabDocuments \<Rightarrow> as_documents stats | TabMedia \<Rightarrow> as_media stats)"

datatype library_content =
    LibrarySkeleton
  | LibraryError
  | LibraryEmpty attachment_library_tab
  | LibraryMedia "library_month_group list"
  | LibraryDocuments "library_list_item list"
  | LibraryAudio "library_list_item list"

definition renderContent :: "bool \<Rightarrow> bool \<Rightarrow> attachment_library_tab \<Rightarrow> attachment_library \<Rightarrow> library_content" where
  "renderContent isLoading isError activeTab lib =
     (if isLoading then LibrarySkeleton
      else if isError then LibraryError
      else if current_items_count activeTab (al_stats lib) = 0 then LibraryEmpty activeTab
      else case activeTab of
             TabMedia \<Rightarrow> LibraryMedia (al_mediaGroups lib)
           | TabDocuments \<Rightarrow> LibraryDocuments (al_documentItems lib)
           | TabAudio \<Rightarrow> LibraryAudio (al_audioItems lib))"

definition preview_id :: "preview_media_item \<Rightarrow> string" where
  "preview_id p = (case p of ImagePreview i _ _ _ \<Rightarrow> i | VideoPreview i _ _ _ \<Rightarrow> i | MotionPreview i _ _ _ _ \<Rightarrow> i)"

definition handlePreview :: "preview_media_item list \<Rightarrow> string \<Rightarrow> bool \<times> nat" where
  "handlePreview mediaPreviewItems itemId =
     (True, case find_index (\<lambda>item. preview_id item = itemId) mediaPreviewItems of None \<Rightarrow> 0 | Some i \<Rightarrow> i)"

section \<open>Deleting what is unused\<close>

definition UNUSED_PAGE_SIZE :: nat where
  "UNUSED_PAGE_SIZE = 1000"

definition BATCH_DELETE_SIZE :: nat where
  "BATCH_DELETE_SIZE = 100"

text \<open>The loop of \<open>chunkNames\<close>: its index, and the chunks so far; a size of zero would not end.\<close>

function chunk_from :: "'a list \<Rightarrow> nat \<Rightarrow> nat \<Rightarrow> 'a list list" where
  "chunk_from names sz i =
     (if i < length names \<and> sz > 0 then take sz (drop i names) # chunk_from names sz (i + sz) else [])"
  by auto
termination by (relation "measure (\<lambda>(names, sz, i). length names - i)") auto

declare chunk_from.simps [simp del]

definition chunkNames :: "'a list \<Rightarrow> nat \<Rightarrow> 'a list list" where
  "chunkNames names sz = chunk_from names sz 0"

text \<open>
  The server as the page sees it: \<open>list tok s\<close> answers the request for the page of a token (the filter and the
  page size are constants of the page), \<open>delete names s\<close> the deletion of a batch; both may refuse.
\<close>

record ('s, 'e) attachment_server =
  sv_list :: "nat \<Rightarrow> string \<Rightarrow> 's \<Rightarrow> 'e + string list \<times> string"
  sv_delete :: "string list \<Rightarrow> 's \<Rightarrow> ('e + unit) \<times> 's"

partial_function (option) list_pages ::
  "('s, 'e) attachment_server \<Rightarrow> string list \<Rightarrow> string \<Rightarrow> 's \<Rightarrow> ('e + string list) option" where
  "list_pages sv names pageToken s =
     (case sv_list sv UNUSED_PAGE_SIZE pageToken s of
        Inl er \<Rightarrow> Some (Inl er)
      | Inr r \<Rightarrow> if snd r \<noteq> [] then list_pages sv (names @ fst r) (snd r) s else Some (Inr (names @ fst r)))"

definition listUnusedAttachmentNames :: "('s, 'e) attachment_server \<Rightarrow> 's \<Rightarrow> ('e + string list) option" where
  "listUnusedAttachmentNames sv s = list_pages sv [] [] s"

fun delete_chunks :: "('s, 'e) attachment_server \<Rightarrow> string list list \<Rightarrow> 's \<Rightarrow> ('e + unit) \<times> 's" where
  "delete_chunks sv [] s = (Inr (), s)"
| "delete_chunks sv (c # cs) s =
     (case sv_delete sv c s of (Inl er, s') \<Rightarrow> (Inl er, s') | (Inr _, s') \<Rightarrow> delete_chunks sv cs s')"

text \<open>How the handler ends: the list is fetched again, after the message of success or alone, or the error is shown.\<close>

datatype 'e delete_outcome = NothingUnused | DeletedUnused | DeleteFailed 'e

definition handleDeleteUnusedAttachments :: "('s, 'e) attachment_server \<Rightarrow> 's \<Rightarrow> ('e delete_outcome \<times> 's) option" where
  "handleDeleteUnusedAttachments sv s =
     (case listUnusedAttachmentNames sv s of
        None \<Rightarrow> None
      | Some (Inl er) \<Rightarrow> Some (DeleteFailed er, s)
      | Some (Inr names) \<Rightarrow>
          if length names = 0 then Some (NothingUnused, s)
          else
            (case delete_chunks sv (chunkNames names BATCH_DELETE_SIZE) s of
               (Inl er, s') \<Rightarrow> Some (DeleteFailed er, s')
             | (Inr _, s') \<Rightarrow> Some (DeletedUnused, s')))"

section \<open>The server's side\<close>

text \<open>
  The listing and the batch deletion of \<^verbatim>\<open>attachment_service.go\<close> over the attachments of the
  current user, in the order of the store: their names and whether a memo holds them. The page token is the
  offset in decimals; the only filter is the page's own. A name that is not one of the user's attachments is
  answered as not found. The user is signed in and the store does not fail: the answers
  \<open>Unauthenticated\<close> and \<open>Internal\<close> of the service, which every call of the page takes as an error, are
  left to the parameter \<open>sv\<close> of the page.
\<close>

definition scan_offset :: "string \<Rightarrow> nat option" where
  "scan_offset tok =
     (let ds = takeWhile is_digit tok in
      if tok = [] then Some 0 else if ds = [] then None else Some (parse_digits ds))"

definition list_attachments :: "nat \<Rightarrow> string \<Rightarrow> (string \<times> bool) list \<Rightarrow> string + string list \<times> string" where
  "list_attachments pageSize tok store =
     (let n = (if pageSize = 0 then 50 else min pageSize 1000) in
      case scan_offset tok of
        None \<Rightarrow> Inl ''invalid page token''
      | Some offset \<Rightarrow>
          let page = take n (drop offset (map fst (filter (\<lambda>(name, linked). \<not> linked) store))) in
          Inr (page, if length page = n then show_nat (offset + n) else []))"

definition maxBatchDeleteAttachments :: nat where
  "maxBatchDeleteAttachments = 100"

definition batch_delete_attachments :: "string list \<Rightarrow> (string \<times> bool) list \<Rightarrow> (string + unit) \<times> (string \<times> bool) list" where
  "batch_delete_attachments names store =
     (if length names = 0 then (Inl ''attachment names are required'', store)
      else if length names > maxBatchDeleteAttachments then (Inl ''too many attachment names; max 100'', store)
      else
        (case List.find (\<lambda>n. n = [] \<or> n \<notin> set (map fst store)) names of
           Some n \<Rightarrow> (Inl (if n = [] then ''attachment name is required'' else ''attachment not found''), store)
         | None \<Rightarrow> (Inr (), filter (\<lambda>(n, _). n \<notin> set names) store)))"

definition attachment_service :: "((string \<times> bool) list, string) attachment_server" where
  "attachment_service = \<lparr>sv_list = list_attachments, sv_delete = batch_delete_attachments\<rparr>"

section \<open>Lemmas on chunks\<close>

lemma concat_chunk_from: "sz > 0 \<Longrightarrow> concat (chunk_from names sz i) = drop i names"
  by (induction names sz i rule: chunk_from.induct)
    (subst chunk_from.simps, simp add: add.commute flip: drop_drop)

lemma chunk_from_sizes: "list_all (\<lambda>c. c \<noteq> [] \<and> length c \<le> sz) (chunk_from names sz i)"
  by (induction names sz i rule: chunk_from.induct) (subst chunk_from.simps, simp)

lemma concat_chunkNames: "sz > 0 \<Longrightarrow> concat (chunkNames names sz) = names"
  by (simp add: chunkNames_def concat_chunk_from)

lemma chunkNames_sizes: "list_all (\<lambda>c. c \<noteq> [] \<and> length c \<le> sz) (chunkNames names sz)"
  by (simp add: chunkNames_def chunk_from_sizes)

section \<open>The contract between the page and the server\<close>

text \<open>
  \<open>unused s\<close> are the names that no memo holds, \<open>rest tok s\<close> those from a token on. A page that is
  not the last brings at least one name, and a batch of at most a hundred of them is deleted; \<open>kept s\<close> is what
  a deletion leaves as it is.
\<close>

locale unused_store =
  fixes sv :: "('s, 'e) attachment_server"
    and ok :: "'s \<Rightarrow> bool"
    and unused :: "'s \<Rightarrow> string list"
    and rest :: "string \<Rightarrow> 's \<Rightarrow> string list"
    and kept :: "'s \<Rightarrow> 'k"
    and token :: "string \<Rightarrow> bool"
  assumes rest_start: "ok s \<Longrightarrow> rest [] s = unused s" and token_start: "token []"
    and page: "ok s \<Longrightarrow> token tok \<Longrightarrow>
      \<exists>ns tok'. sv_list sv UNUSED_PAGE_SIZE tok s = Inr (ns, tok') \<and> token tok'
        \<and> rest tok s = ns @ (if tok' = [] then [] else rest tok' s) \<and> (tok' \<noteq> [] \<longrightarrow> ns \<noteq> [])"
    and batch: "ok s \<Longrightarrow> ns \<noteq> [] \<Longrightarrow> length ns \<le> BATCH_DELETE_SIZE \<Longrightarrow> set ns \<subseteq> set (unused s) \<Longrightarrow>
      \<exists>s'. sv_delete sv ns s = (Inr (), s') \<and> ok s' \<and> unused s' = filter (\<lambda>n. n \<notin> set ns) (unused s) \<and> kept s' = kept s"
    and names_distinct: "ok s \<Longrightarrow> distinct (unused s)"
begin

lemma pages_listed:
  "ok s \<Longrightarrow> token tok \<Longrightarrow> list_pages sv acc tok s = Some (Inr (acc @ rest tok s))"
proof (induction "length (rest tok s)" arbitrary: tok acc rule: less_induct)
  case less
  obtain ns tok' where r: "sv_list sv UNUSED_PAGE_SIZE tok s = Inr (ns, tok')" "token tok'"
      "rest tok s = ns @ (if tok' = [] then [] else rest tok' s)" "tok' \<noteq> [] \<longrightarrow> ns \<noteq> []"
    using page [OF less.prems] by blast
  show ?case
  proof (cases "tok' = []")
    case True
    then show ?thesis using r by (simp add: list_pages.simps)
  next
    case False
    then have "length (rest tok' s) < length (rest tok s)" using r by simp
    from less.hyps [OF this less.prems(1) r(2)] False r show ?thesis by (simp add: list_pages.simps)
  qed
qed

lemma chunks_deleted:
  assumes "ok s" and "set (concat cs) \<subseteq> set (unused s)" and "distinct (concat cs)"
    and "list_all (\<lambda>c. c \<noteq> [] \<and> length c \<le> BATCH_DELETE_SIZE) cs"
  shows "\<exists>s'. delete_chunks sv cs s = (Inr (), s') \<and> ok s'
    \<and> unused s' = filter (\<lambda>n. n \<notin> set (concat cs)) (unused s) \<and> kept s' = kept s"
  using assms
proof (induction cs arbitrary: s)
  case Nil
  then show ?case by simp
next
  case (Cons c cs)
  obtain s' where s': "sv_delete sv c s = (Inr (), s')" "ok s'" "unused s' = filter (\<lambda>n. n \<notin> set c) (unused s)"
      "kept s' = kept s"
    using batch [of s c] Cons.prems by auto
  then have "set (concat cs) \<subseteq> set (unused s')" using Cons.prems by auto
  from Cons.IH [OF s'(2) this] Cons.prems obtain s'' where
    "delete_chunks sv cs s' = (Inr (), s'')" "ok s''" "unused s'' = filter (\<lambda>n. n \<notin> set (concat cs)) (unused s')"
    "kept s'' = kept s'" by auto
  then show ?case using s' by (auto intro: filter_cong simp: conj_commute)
qed

lemma unused_cleared:
  assumes "ok s"
  shows "\<exists>s'. handleDeleteUnusedAttachments sv s = Some (if unused s = [] then NothingUnused else DeletedUnused, s')
    \<and> ok s' \<and> unused s' = [] \<and> kept s' = kept s"
proof -
  have l: "listUnusedAttachmentNames sv s = Some (Inr (unused s))"
    using pages_listed [OF assms token_start, of "[]"] rest_start [OF assms]
    by (simp add: listUnusedAttachmentNames_def)
  have b: "BATCH_DELETE_SIZE > 0" by (simp add: BATCH_DELETE_SIZE_def)
  obtain s' where "delete_chunks sv (chunkNames (unused s) BATCH_DELETE_SIZE) s = (Inr (), s')" "ok s'" "unused s' = []"
      "kept s' = kept s"
    using chunks_deleted [OF assms, of "chunkNames (unused s) BATCH_DELETE_SIZE"] names_distinct [OF assms]
    by (auto simp: concat_chunkNames [OF b] chunkNames_sizes)
  then show ?thesis using l assms by (auto simp: handleDeleteUnusedAttachments_def)
qed

end

text \<open>The server's own operations keep the contract.\<close>

definition store_ok :: "(string \<times> bool) list \<Rightarrow> bool" where
  "store_ok s \<longleftrightarrow> distinct (map fst s) \<and> [] \<notin> set (map fst s)"

definition store_unused :: "(string \<times> bool) list \<Rightarrow> string list" where
  "store_unused s = map fst (filter (\<lambda>(n, linked). \<not> linked) s)"

definition store_linked :: "(string \<times> bool) list \<Rightarrow> (string \<times> bool) list" where
  "store_linked s = filter (\<lambda>(n, linked). linked) s"

definition store_rest :: "string \<Rightarrow> (string \<times> bool) list \<Rightarrow> string list" where
  "store_rest tok s = drop (case scan_offset tok of None \<Rightarrow> 0 | Some n \<Rightarrow> n) (store_unused s)"

definition issued_token :: "string \<Rightarrow> bool" where
  "issued_token tok \<longleftrightarrow> tok = [] \<or> (\<exists>n. tok = show_nat n)"

lemma scan_show_nat [simp]: "scan_offset (show_nat n) = Some n"
proof -
  have "takeWhile is_digit (show_nat n) = show_nat n"
    by (rule takeWhile_eq_all_conv [THEN iffD2]) (blast dest: show_nat_digits)
  then show ?thesis unfolding scan_offset_def Let_def by (simp del: takeWhile_eq_all_conv)
qed

lemma scan_issued: "issued_token tok \<Longrightarrow> \<exists>n. scan_offset tok = Some n"
  by (auto simp: issued_token_def) (simp add: scan_offset_def)

lemma distinct_unused: "store_ok s \<Longrightarrow> distinct (store_unused s)"
  by (simp add: store_ok_def store_unused_def distinct_map_filter)

lemma list_page:
  assumes "issued_token tok"
  shows "\<exists>ns tok'. list_attachments UNUSED_PAGE_SIZE tok s = Inr (ns, tok') \<and> issued_token tok'
    \<and> store_rest tok s = ns @ (if tok' = [] then [] else store_rest tok' s) \<and> (tok' \<noteq> [] \<longrightarrow> ns \<noteq> [])"
proof -
  obtain off where off: "scan_offset tok = Some off" using scan_issued [OF assms] by blast
  define pg where "pg = take 1000 (drop off (store_unused s))"
  have l: "list_attachments UNUSED_PAGE_SIZE tok s = Inr (pg, if length pg = 1000 then show_nat (off + 1000) else [])"
    by (simp add: list_attachments_def off pg_def store_unused_def UNUSED_PAGE_SIZE_def)
  show ?thesis
  proof (cases "length pg = 1000")
    case True
    have "store_rest tok s = pg @ store_rest (show_nat (off + 1000)) s"
      using append_take_drop_id [of 1000 "drop off (store_unused s)"]
      by (simp add: store_rest_def off pg_def add.commute)
    then show ?thesis using True l by (force simp: issued_token_def)
  next
    case False
    then have "store_rest tok s = pg" by (auto simp: store_rest_def off pg_def)
    then show ?thesis using False l by (force simp: issued_token_def)
  qed
qed

lemma delete_batch:
  assumes "store_ok s" "ns \<noteq> []" "length ns \<le> BATCH_DELETE_SIZE" "set ns \<subseteq> set (store_unused s)"
  shows "batch_delete_attachments ns s = (Inr (), filter (\<lambda>(n, _). n \<notin> set ns) s)
    \<and> store_ok (filter (\<lambda>(n, _). n \<notin> set ns) s)
    \<and> store_unused (filter (\<lambda>(n, _). n \<notin> set ns) s) = filter (\<lambda>n. n \<notin> set ns) (store_unused s)
    \<and> store_linked (filter (\<lambda>(n, _). n \<notin> set ns) s) = store_linked s"
proof (intro conjI)
  have sub: "set (store_unused s) \<subseteq> set (map fst s)" by (auto simp: store_unused_def)
  have "List.find (\<lambda>n. n = [] \<or> n \<notin> set (map fst s)) ns = None"
    using assms(1,4) sub unfolding store_ok_def find_None_iff by blast
  then show "batch_delete_attachments ns s = (Inr (), filter (\<lambda>(n, _). n \<notin> set ns) s)"
    using assms(2,3) by (simp add: batch_delete_attachments_def maxBatchDeleteAttachments_def BATCH_DELETE_SIZE_def)
  show "store_ok (filter (\<lambda>(n, _). n \<notin> set ns) s)"
    using assms(1) by (auto simp: store_ok_def distinct_map_filter)
  show "store_unused (filter (\<lambda>(n, _). n \<notin> set ns) s) = filter (\<lambda>n. n \<notin> set ns) (store_unused s)"
    by (induction s) (auto simp: store_unused_def)
  have "n \<notin> set ns" if "(n, True) \<in> set s" for n
  proof -
    have "(n, False) \<notin> set s" using that assms(1) by (auto simp: store_ok_def dest: eq_key_imp_eq_value)
    then show ?thesis using assms(4) by (auto simp: store_unused_def)
  qed
  then show "store_linked (filter (\<lambda>(n, _). n \<notin> set ns) s) = store_linked s"
    by (auto simp: store_linked_def filter_filter intro!: filter_cong)
qed

interpretation service: unused_store attachment_service store_ok store_unused store_rest store_linked issued_token
proof
  fix s :: "(string \<times> bool) list" and tok ns :: string and bs :: "string list"
  show "store_ok s \<Longrightarrow> store_rest [] s = store_unused s" by (simp add: store_rest_def scan_offset_def)
  show "issued_token []" by (simp add: issued_token_def)
  show "store_ok s \<Longrightarrow> distinct (store_unused s)" by (rule distinct_unused)
qed (use list_page delete_batch in \<open>auto simp: attachment_service_def\<close>)

section \<open>Lemmas on the order\<close>

definition newest_key :: "int option \<Rightarrow> int" where
  "newest_key d = - (case d of None \<Rightarrow> 0 | Some t \<Rightarrow> t)"

interpretation newest: keyed_order "\<lambda>a b. sortByNewest (date a) (date b)" "\<lambda>a. newest_key (date a)"
  for date :: "'a \<Rightarrow> int option"
  by unfold_locales (auto simp: sortByNewest_def newest_key_def)

lemma newest_attachments_eq: "newest_attachments e xs = sort_key (\<lambda>a. newest_key (toCreatedAt e a)) xs"
  by (simp add: newest_attachments_def newest.sort_key_eq)

lemma newest_items_eq: "newest_items xs = sort_key (\<lambda>a. newest_key (lm_createdAt a)) xs"
  by (simp add: newest_items_def newest.sort_key_eq)

lemma mset_newest [simp]:
  "mset (newest_attachments e xs) = mset xs" "mset (newest_items is) = mset is"
  by (simp_all add: newest_attachments_eq newest_items_eq)

lemma set_newest [simp]:
  "set (newest_attachments e xs) = set xs" "set (newest_items is) = set is"
  by (simp_all add: newest_attachments_eq newest_items_eq)

lemma newest_filter_sorted: "newest_items (filter P (newest_items xs)) = filter P (newest_items xs)"
  by (simp add: newest_items_eq sorted_filter sort_key_id_if_sorted)

text \<open>A comparator that follows a key on the elements compared sorts by that key.\<close>

lemma js_sort_on:
  assumes "\<And>x y. x \<in> set xs \<Longrightarrow> y \<in> set xs \<Longrightarrow> x \<noteq> y \<Longrightarrow> cmp x y \<le> 0 \<longleftrightarrow> key x \<le> (key y :: 'k::linorder)"
    and "distinct xs"
  shows "js_sort cmp xs = sort_key key xs"
proof -
  have ins: "insert_cmp cmp x ys = insort_key key x ys" if "\<And>y. y \<in> set ys \<Longrightarrow> cmp x y \<le> 0 \<longleftrightarrow> key x \<le> key y" for x ys
    using that by (induction ys) simp_all
  show ?thesis using assms
  proof (induction xs)
    case Nil
    then show ?case by (simp add: js_sort_def)
  next
    case (Cons x xs)
    then have "js_sort cmp xs = sort_key key xs" by simp
    then have "js_sort cmp (x # xs) = insert_cmp cmp x (sort_key key xs)" by (simp add: js_sort_def)
    also have "\<dots> = insort_key key x (sort_key key xs)" by (rule ins) (use Cons.prems in auto)
    finally show ?case by simp
  qed
qed

text \<open>A list that is sorted by a rank is the concatenation of its classes, taken in the order of the rank.\<close>

lemma concat_classes:
  fixes rank :: "'a \<Rightarrow> 'k::linorder" and cls :: "'a \<Rightarrow> 'c"
  assumes "sorted (map rank xs)" and "distinct ks" and "set ks = cls ` set xs"
    and same: "\<And>x y. x \<in> set xs \<Longrightarrow> y \<in> set xs \<Longrightarrow> rank x = rank y \<longleftrightarrow> cls x = cls y"
    and order: "sorted_wrt (\<lambda>k k'. \<forall>x \<in> set xs. \<forall>y \<in> set xs. cls x = k \<longrightarrow> cls y = k' \<longrightarrow> rank x \<le> rank y) ks"
  shows "concat (map (\<lambda>k. filter (\<lambda>x. cls x = k) xs) ks) = xs"
proof -
  let ?ys = "concat (map (\<lambda>k. filter (\<lambda>x. cls x = k) xs) ks)"
  have "mset ?ys = mset xs"
    using mset_filter_keys [OF assms(2), of xs "\<lambda>x. Some (cls x)"] assms(3) by auto
  moreover have "filter (\<lambda>x. rank k = rank x) ?ys = filter (\<lambda>x. rank k = rank x) xs" if "k \<in> set ?ys" for k
  proof -
    have k: "k \<in> set xs" using that by auto
    have "filter (\<lambda>x. rank k = rank x) ?ys = concat (map (\<lambda>c. filter (\<lambda>x. rank k = rank x) (filter (\<lambda>x. cls x = c) xs)) ks)"
      by (simp add: filter_concat comp_def)
    also have "\<dots> = concat (map (\<lambda>c. if c = cls k then filter (\<lambda>x. cls x = cls k) xs else []) ks)"
      by (rule arg_cong [where f = concat], rule map_cong [OF refl]) (use same [OF k] in \<open>auto intro!: filter_cong filter_False\<close>)
    also have "\<dots> = filter (\<lambda>x. cls x = cls k) xs"
    proof -
      have pick: "concat (map (\<lambda>c. if c = d then zs else []) cs) = (if d \<in> set cs then zs else [])" if "distinct cs" for d cs and zs :: "'a list"
        using that by (induction cs) auto
      show ?thesis unfolding pick [OF assms(2)] using assms(3) k by simp
    qed
    also have "\<dots> = filter (\<lambda>x. rank k = rank x) xs" by (rule filter_cong) (use same [OF k] in auto)
    finally show ?thesis .
  qed
  moreover have "sorted (map rank ?ys)"
    using order assms(2)
  proof (induction ks)
    case Nil
    then show ?case by simp
  next
    case (Cons c ks)
    have "sorted (map rank (filter (\<lambda>x. cls x = c) xs))" using assms(1) by (rule sorted_filter)
    with Cons show ?case by (auto simp: sorted_append)
  qed
  ultimately have "sort_key rank xs = ?ys" by (rule properties_for_sort_key)
  moreover have "sort_key rank xs = xs" using assms(1) by (rule sort_key_id_if_sorted)
  ultimately show ?thesis by simp
qed

section \<open>Lemmas on the lists\<close>

lemma mset_insert_cmp [simp]: "mset (insert_cmp cmp x ys) = add_mset x (mset ys)"
  by (induction ys) auto

lemma mset_js_sort [simp]: "mset (js_sort cmp xs) = mset xs"
  by (induction xs) (simp_all add: js_sort_def)

lemma mset_concat_perm: "mset xs = mset ys \<Longrightarrow> mset (concat (map f xs)) = mset (concat (map f ys))"
  by (metis mset_concat mset_map sum_mset_sum_list map_map)

lemma list_item_attachment [simp]: "ll_attachment (toLibraryListItem e a) = a"
  by (simp add: toLibraryListItem_def Let_def)

lemma media_item_fields [simp]:
  "vi_id (toLibraryMediaItem e i) = vi_id i"
  "vi_attachmentNames (toLibraryMediaItem e i) = vi_attachmentNames i"
  "lm_createdAt (toLibraryMediaItem e i) = toCreatedAt e (hd (vi_attachments i))"
  by (simp_all add: toLibraryMediaItem_def Let_def visual_item.extend_def)

lemma names_apart_subset:
  assumes "a_name ` set ys \<inter> group_ids ys = {}" and "set xs \<subseteq> set ys"
  shows "a_name ` set xs \<inter> group_ids xs = {}"
proof -
  have "group_ids xs \<subseteq> group_ids ys" using assms(2) unfolding group_ids_def subset_iff set_map_filter by blast
  then show ?thesis using assms by blast
qed

lemma media_names:
  assumes "a_name ` set xs \<inter> group_ids xs = {}"
  shows "(\<Union>i \<in> set (library_media e xs). set (vi_attachmentNames i)) = a_name ` {a \<in> set xs. isVisualAttachment a}
    \<and> distinct (map vi_id (library_media e xs))"
proof -
  let ?vs = "filter isVisualAttachment xs"
  have "a_name ` set ?vs \<inter> group_ids ?vs = {}" by (rule names_apart_subset [OF assms]) auto
  from visual_names_cover [OF this, of "le_origin e"]
  have c: "(\<Union>i \<in> set (buildAttachmentVisualItems (le_origin e) ?vs). set (vi_attachmentNames i)) = a_name ` set ?vs"
    and d: "distinct (map vi_id (buildAttachmentVisualItems (le_origin e) ?vs))" by blast+
  have "mset (map vi_id (library_media e xs)) = mset (map vi_id (buildAttachmentVisualItems (le_origin e) ?vs))"
    by (simp add: library_media_def multiset.map_comp comp_def)
  with d have "distinct (map vi_id (library_media e xs))" using mset_eq_imp_distinct_iff by blast
  with c show ?thesis by (simp add: library_media_def)
qed

definition month_entries :: "library_env \<Rightarrow> library_media_item list \<Rightarrow> (string \<times> library_media_item list) list" where
  "month_entries e items = map (\<lambda>k. (k, filter (\<lambda>i. month_of e i = k) items)) (js_uniq (map (month_of e) items))"

lemma groups_by_month:
  "groupMediaByMonth e items =
     map (\<lambda>(key, groupedItems).
            \<lparr>lg_key = key, lg_label = (if key = ''unknown'' then le_unknown_date e else le_month_label e key),
             lg_items = newest_items groupedItems\<rparr>)
       (js_sort (\<lambda>a b. compare_months e (fst a) (fst b)) (month_entries e items))"
proof -
  have "List.map_filter (\<lambda>i. Some (month_of e i)) items = map (month_of e) items"
    by (induction items) (simp_all add: List.map_filter_def)
  then show ?thesis by (simp add: groupMediaByMonth_def group_by_eq month_entries_def)
qed

lemma month_groups_complete:
  "mset (concat (map lg_items (groupMediaByMonth e items))) = mset items
   \<and> distinct (map lg_key (groupMediaByMonth e items))"
proof
  let ?cmp = "\<lambda>a b. compare_months e (fst a) (fst b)"
  have "mset (concat (map lg_items (groupMediaByMonth e items)))
      = mset (concat (map (\<lambda>(k, g). newest_items g) (js_sort ?cmp (month_entries e items))))"
    by (simp add: groups_by_month comp_def case_prod_unfold)
  also have "\<dots> = mset (concat (map (\<lambda>(k, g). newest_items g) (month_entries e items)))"
    by (rule mset_concat_perm) simp
  also have "\<dots> = mset (concat (map (\<lambda>k. filter (\<lambda>i. month_of e i = k) items) (js_uniq (map (month_of e) items))))"
    by (simp add: month_entries_def mset_concat comp_def)
  also have "\<dots> = mset items"
    using mset_filter_keys [OF distinct_js_uniq, of items "\<lambda>i. Some (month_of e i)" "map (month_of e) items"] by auto
  finally show "mset (concat (map lg_items (groupMediaByMonth e items))) = mset items" .
  have "mset (map lg_key (groupMediaByMonth e items)) = mset (js_uniq (map (month_of e) items))"
    by (simp add: groups_by_month month_entries_def comp_def case_prod_unfold multiset.map_comp)
  then show "distinct (map lg_key (groupMediaByMonth e items))"
    using mset_eq_imp_distinct_iff distinct_js_uniq by blast
qed

section \<open>Lemmas on the order of the groups\<close>

definition items_from :: "attachment list \<Rightarrow> visual_item list \<Rightarrow> bool" where
  "items_from atts is \<longleftrightarrow> list_all (\<lambda>i. hd (vi_attachments i) \<in> set atts) is"

lemma items_from_simps [simp]:
  "items_from atts []" "items_from atts (i # is) \<longleftrightarrow> hd (vi_attachments i) \<in> set atts \<and> items_from atts is"
  "items_from atts (is @ js) \<longleftrightarrow> items_from atts is \<and> items_from atts js"
  by (simp_all add: items_from_def)

lemma built_attachments [simp]:
  "vi_attachments (buildSingleAttachmentItem og a) = [a]"
  "vi_attachments (buildAndroidMotionItem og a) = [a]"
  "vi_attachments (buildAppleMotionItem og s v) = [s, v]"
  by (simp_all add: buildSingleAttachmentItem_def buildAndroidMotionItem_def buildAppleMotionItem_def Let_def)

lemma visual_step_from:
  assumes "items_from atts (snd st)" and "a \<in> set atts"
  shows "items_from atts (snd (visual_step og (group_by getAttachmentMotionGroupId atts) st a))"
proof (cases "getAttachmentMotionGroupId a")
  case None
  then show ?thesis using assms by (auto simp: visual_step_def Let_def split: prod.split)
next
  case (Some g)
  let ?group = "filter (\<lambda>x. getAttachmentMotionGroupId x = Some g) atts"
  have singles: "items_from atts (map (buildSingleAttachmentItem og) (filter P ?group))" for P
    by (simp add: items_from_def list_all_iff)
  have still: "s \<in> set atts" if "List.find isAppleLivePhotoStill ?group = Some s" for s
  proof -
    have "s \<in> set ?group" using that nth_mem by (fastforce simp: find_Some_iff)
    then show ?thesis by simp
  qed
  define plain where "plain = map (buildSingleAttachmentItem og) (filter (\<lambda>m. a_name m \<noteq> a_name a) ?group)"
  have p: "items_from atts plain" unfolding plain_def by (rule singles)
  define still where "still = List.find isAppleLivePhotoStill ?group"
  define video where "video = List.find isAppleLivePhotoVideo ?group"
  have "items_from atts (case (still, video) of (Some s, Some v) \<Rightarrow> [buildAppleMotionItem og s v] | _ \<Rightarrow> [])"
    using still unfolding still_def [symmetric] by (cases still; cases video) simp_all
  then show ?thesis
    unfolding visual_step_def Let_def case_prod_unfold Some option.case group_of_filter plain_def [symmetric]
      still_def [symmetric] video_def [symmetric]
    using assms p by (cases still; cases video) simp_all
qed

lemma visual_items_from: "i \<in> set (buildAttachmentVisualItems og atts) \<Longrightarrow> hd (vi_attachments i) \<in> set atts"
proof -
  have "items_from atts (snd st) \<Longrightarrow> set xs \<subseteq> set atts \<Longrightarrow>
      items_from atts (snd (foldl (visual_step og (group_by getAttachmentMotionGroupId atts)) st xs))" for st xs
  proof (induction xs arbitrary: st)
    case (Cons x xs)
    then show ?case using visual_step_from [of atts st x og] by simp
  qed simp
  from this [of "([], [])" atts]
  have "items_from atts (snd (foldl (visual_step og (group_by getAttachmentMotionGroupId atts)) ([], []) atts))" by simp
  then show "i \<in> set (buildAttachmentVisualItems og atts) \<Longrightarrow> hd (vi_attachments i) \<in> set atts"
    using set_uniq_by [of vi_id "[]"]
    by (auto simp: buildAttachmentVisualItems_def dedupeVisualItems_def Let_def items_from_def list_all_iff)
qed

text \<open>
  What the formatters promise on the times \<open>T\<close> that occur: \<open>le_month\<close> names the calendar month, which does not
  decrease with time, and the collation orders these names as their months.
\<close>

definition months_ok :: "library_env \<Rightarrow> (int \<Rightarrow> int) \<Rightarrow> int set \<Rightarrow> bool" where
  "months_ok e ym T \<longleftrightarrow> (\<forall>d \<in> T. 0 < d \<and> le_month e d \<noteq> ''unknown''
     \<and> (\<forall>d' \<in> T. (le_month e d = le_month e d' \<longleftrightarrow> ym d = ym d')
           \<and> (le_collate e (le_month e d') (le_month e d) \<le> 0 \<longleftrightarrow> ym d' \<le> ym d)
           \<and> (d \<le> d' \<longrightarrow> ym d \<le> ym d')))"

definition item_times :: "library_media_item list \<Rightarrow> int set" where
  "item_times items = set (List.map_filter lm_createdAt items)"

text \<open>The place of an item's month: undated items after all others, later months first.\<close>

definition month_rank :: "(int \<Rightarrow> int) \<Rightarrow> library_media_item \<Rightarrow> int \<times> int" where
  "month_rank ym i = (case lm_createdAt i of None \<Rightarrow> (1, 0) | Some d \<Rightarrow> (0, - ym d))"

lemma rank_same_month:
  assumes "months_ok e ym (item_times items)" and "x \<in> set items" and "y \<in> set items"
  shows "month_rank ym x = month_rank ym y \<longleftrightarrow> month_of e x = month_of e y"
proof -
  have t: "lm_createdAt z = Some d \<Longrightarrow> z \<in> set items \<Longrightarrow> d \<in> item_times items" for z d
    by (auto simp: item_times_def set_map_filter)
  show ?thesis using assms t
    by (cases "lm_createdAt x"; cases "lm_createdAt y") (auto simp: months_ok_def month_rank_def month_of_def)
qed

lemma compare_by_rank:
  assumes "months_ok e ym (item_times items)" and "x \<in> set items" and "y \<in> set items"
    and "month_of e x \<noteq> month_of e y"
  shows "compare_months e (month_of e x) (month_of e y) \<le> 0 \<longleftrightarrow> month_rank ym x \<le> month_rank ym y"
proof -
  have t: "lm_createdAt z = Some d \<Longrightarrow> z \<in> set items \<Longrightarrow> d \<in> item_times items" for z d
    by (auto simp: item_times_def set_map_filter)
  show ?thesis using assms t
    by (cases "lm_createdAt x"; cases "lm_createdAt y")
      (auto simp: months_ok_def month_rank_def month_of_def compare_months_def less_eq_prod_def)
qed

lemma rank_follows_newest:
  assumes "months_ok e ym (item_times items)"
  shows "sorted (map (month_rank ym) (newest_items items))"
proof -
  have t: "lm_createdAt z = Some d \<Longrightarrow> z \<in> set items \<Longrightarrow> d \<in> item_times items" for z d
    by (auto simp: item_times_def set_map_filter)
  have mono: "month_rank ym x \<le> month_rank ym y"
    if "x \<in> set items" "y \<in> set items" "newest_key (lm_createdAt x) \<le> newest_key (lm_createdAt y)" for x y
    using assms t that
    by (cases "lm_createdAt x"; cases "lm_createdAt y")
      (force simp: months_ok_def month_rank_def newest_key_def less_eq_prod_def)+
  have "sorted_wrt (\<lambda>x y. newest_key (lm_createdAt x) \<le> newest_key (lm_createdAt y)) (newest_items items)"
    using sorted_sort_key [of "\<lambda>i. newest_key (lm_createdAt i)" items] by (simp add: newest_items_eq sorted_map)
  then have "sorted_wrt (\<lambda>x y. month_rank ym x \<le> month_rank ym y) (newest_items items)"
    by (rule sorted_wrt_mono_rel [rotated]) (use mono in simp)
  then show ?thesis by (simp add: sorted_map)
qed

lemma entry_months:
  assumes "x \<in> set (month_entries e items)"
  shows "snd x = filter (\<lambda>i. month_of e i = fst x) items" "hd (snd x) \<in> set items" "month_of e (hd (snd x)) = fst x"
proof -
  show s: "snd x = filter (\<lambda>i. month_of e i = fst x) items" using assms by (auto simp: month_entries_def)
  have "\<exists>i \<in> set items. month_of e i = fst x" using assms by (auto simp: month_entries_def)
  then have "snd x \<noteq> []" unfolding s by (simp add: filter_empty_conv)
  then have "hd (snd x) \<in> set (filter (\<lambda>i. month_of e i = fst x) items)" using s by (metis hd_in_set)
  then show "hd (snd x) \<in> set items" "month_of e (hd (snd x)) = fst x" by auto
qed

lemma sorted_entries:
  assumes "months_ok e ym (item_times items)"
  shows "js_sort (\<lambda>a b. compare_months e (fst a) (fst b)) (month_entries e items)
     = sort_key (\<lambda>x. month_rank ym (hd (snd x))) (month_entries e items)"
proof (rule js_sort_on)
  have d: "distinct (map fst (month_entries e items))" by (simp add: month_entries_def comp_def)
  then show "distinct (month_entries e items)" by (simp add: distinct_map)
  fix x y assume xy: "x \<in> set (month_entries e items)" "y \<in> set (month_entries e items)" "x \<noteq> y"
  then have "fst x \<noteq> fst y" using d by (auto simp: distinct_map dest: inj_onD)
  then show "compare_months e (fst x) (fst y) \<le> 0 \<longleftrightarrow> month_rank ym (hd (snd x)) \<le> month_rank ym (hd (snd y))"
    using compare_by_rank [OF assms entry_months(2) [OF xy(1)] entry_months(2) [OF xy(2)]]
    by (simp add: entry_months(3) [OF xy(1)] entry_months(3) [OF xy(2)])
qed

lemma groups_in_order:
  assumes ok: "months_ok e ym (item_times items)" and fix_order: "newest_items items = items"
  shows "concat (map lg_items (groupMediaByMonth e items)) = items"
proof -
  define es where "es = sort_key (\<lambda>x. month_rank ym (hd (snd x))) (month_entries e items)"
  have in_es: "x \<in> set (month_entries e items)" if "x \<in> set es" for x using that by (simp add: es_def)
  have "map lg_items (groupMediaByMonth e items) = map (\<lambda>x. newest_items (snd x)) es"
    by (simp add: groups_by_month sorted_entries [OF ok] es_def case_prod_unfold comp_def)
  also have "\<dots> = map (\<lambda>x. filter (\<lambda>i. month_of e i = fst x) items) es"
    by (rule map_cong [OF refl])
      (metis entry_months(1) [OF in_es] fix_order newest_filter_sorted)
  also have "\<dots> = map (\<lambda>k. filter (\<lambda>i. month_of e i = k) items) (map fst es)" by simp
  finally have c: "map lg_items (groupMediaByMonth e items) = map (\<lambda>k. filter (\<lambda>i. month_of e i = k) items) (map fst es)" .
  have "concat (map (\<lambda>k. filter (\<lambda>i. month_of e i = k) items) (map fst es)) = items"
  proof (rule concat_classes)
    show "sorted (map (month_rank ym) items)" using rank_follows_newest [OF ok] by (simp add: fix_order)
    have "mset (map fst es) = mset (js_uniq (map (month_of e) items))"
      by (simp add: es_def month_entries_def multiset.map_comp comp_def)
    then show "distinct (map fst es)" "set (map fst es) = month_of e ` set items"
      using mset_eq_imp_distinct_iff distinct_js_uniq by (blast, metis set_js_uniq set_map set_mset_mset)
    show "month_rank ym x = month_rank ym y \<longleftrightarrow> month_of e x = month_of e y" if "x \<in> set items" "y \<in> set items" for x y
      by (rule rank_same_month [OF ok that])
    have "sorted (map (\<lambda>x. month_rank ym (hd (snd x))) es)" by (simp add: es_def)
    then have "sorted_wrt (\<lambda>x y. month_rank ym (hd (snd x)) \<le> month_rank ym (hd (snd y))) es" by (simp add: sorted_map)
    then have "sorted_wrt (\<lambda>a b. \<forall>x \<in> set items. \<forall>y \<in> set items. month_of e x = fst a \<longrightarrow> month_of e y = fst b
        \<longrightarrow> month_rank ym x \<le> month_rank ym y) es"
    proof (rule sorted_wrt_mono_rel [rotated], intro ballI impI)
      fix a b x y assume ab: "a \<in> set es" "b \<in> set es" "month_rank ym (hd (snd a)) \<le> month_rank ym (hd (snd b))"
        and xy: "x \<in> set items" "y \<in> set items" "month_of e x = fst a" "month_of e y = fst b"
      have "month_rank ym x = month_rank ym (hd (snd a))" "month_rank ym y = month_rank ym (hd (snd b))"
        using rank_same_month [OF ok] xy entry_months(2,3) [OF in_es [OF ab(1)]] entry_months(2,3) [OF in_es [OF ab(2)]]
        by simp_all
      then show "month_rank ym x \<le> month_rank ym y" using ab(3) by simp
    qed
    then show "sorted_wrt (\<lambda>k k'. \<forall>x \<in> set items. \<forall>y \<in> set items. month_of e x = k \<longrightarrow> month_of e y = k'
        \<longrightarrow> month_rank ym x \<le> month_rank ym y) (map fst es)"
      by (simp add: sorted_wrt_map)
  qed
  then show ?thesis using c by simp
qed

lemma media_times:
  "item_times (library_media e xs) \<subseteq> set (List.map_filter (toCreatedAt e) xs)"
proof
  fix d assume "d \<in> item_times (library_media e xs)"
  then obtain i where "i \<in> set (buildAttachmentVisualItems (le_origin e) (filter isVisualAttachment xs))"
      "toCreatedAt e (hd (vi_attachments i)) = Some d"
    by (auto simp: item_times_def set_map_filter library_media_def)
  then show "d \<in> set (List.map_filter (toCreatedAt e) xs)"
    using visual_items_from by (fastforce simp: set_map_filter)
qed

section \<open>Properties\<close>

text \<open>Every loaded attachment has its place in the library: the unused ones are listed under unused; of those a
  memo holds, the visual ones are in the media items, the audio ones under audio and the others under documents,
  and each list holds nothing else. The month groups hold the media items, each once, and the counts on the tabs
  are those of the lists.\<close>

theorem library_complete:
  assumes "a_name ` set (concat pages) \<inter> group_ids (concat pages) = {}"
  shows "let lib = useAttachmentLibrary e pages; all = mset (concat pages); st = al_stats lib in
    mset (map ll_attachment (al_unusedItems lib)) = filter_mset (\<lambda>a. \<not> isLinkedAttachment a) all
    \<and> mset (map ll_attachment (al_documentItems lib))
        = filter_mset (\<lambda>a. isLinkedAttachment a \<and> \<not> isVisualAttachment a \<and> \<not> isAudioAttachment a) all
    \<and> mset (map ll_attachment (al_audioItems lib)) = filter_mset (\<lambda>a. isLinkedAttachment a \<and> isAudioAttachment a) all
    \<and> (\<Union>i \<in> set (al_mediaItems lib). set (vi_attachmentNames i))
        = a_name ` {a \<in> set (concat pages). isLinkedAttachment a \<and> isVisualAttachment a}
    \<and> distinct (map vi_id (al_mediaItems lib))
    \<and> mset (concat (map lg_items (al_mediaGroups lib))) = mset (al_mediaItems lib)
    \<and> distinct (map lg_key (al_mediaGroups lib))
    \<and> [as_unused st, as_media st, as_documents st, as_audio st]
        = [length (al_unusedItems lib), length (al_mediaItems lib), length (al_documentItems lib), length (al_audioItems lib)]"
proof -
  let ?linked = "newest_attachments e (filter isLinkedAttachment (concat pages))"
  have "a_name ` set ?linked \<inter> group_ids ?linked = {}" by (rule names_apart_subset [OF assms]) auto
  from media_names [OF this, of e] month_groups_complete [of e "library_media e ?linked"]
  show ?thesis
    by (simp add: useAttachmentLibrary_def Let_def filter_filter_mset multiset.map_comp comp_def conj_ac) 
qed

text \<open>C15: The grid shows the media items in one order: the month groups, one after the other, are the media items from
  the newest to the oldest, which is also the order in which the preview goes through them. So the newest month comes
  first and what has no date last. (The months' names are the calendar months', and the collation orders them so.)\<close>

theorem library_in_order:
  assumes "months_ok e ym (set (List.map_filter (toCreatedAt e) (concat pages)))"
  shows "let lib = useAttachmentLibrary e pages in
    concat (map lg_items (al_mediaGroups lib)) = al_mediaItems lib
    \<and> al_mediaPreviewItems lib = map vi_previewItem (concat (map lg_items (al_mediaGroups lib)))
    \<and> sorted (map (\<lambda>i. - (case lm_createdAt i of None \<Rightarrow> 0 | Some d \<Rightarrow> d)) (al_mediaItems lib))"
proof -
  let ?linked = "newest_attachments e (filter isLinkedAttachment (concat pages))"
  let ?media = "library_media e ?linked"
  have "item_times ?media \<subseteq> set (List.map_filter (toCreatedAt e) ?linked)" by (rule media_times)
  also have "\<dots> \<subseteq> set (List.map_filter (toCreatedAt e) (concat pages))" unfolding subset_iff set_map_filter by auto
  finally have "months_ok e ym (item_times ?media)" using assms by (auto simp: months_ok_def subset_iff)
  moreover have "newest_items ?media = ?media"
    using newest_filter_sorted [of "\<lambda>_. True"] by (simp add: library_media_def)
  ultimately have g: "concat (map lg_items (groupMediaByMonth e ?media)) = ?media" by (rule groups_in_order)
  have "sorted (map (\<lambda>i. newest_key (lm_createdAt i)) ?media)" by (simp add: library_media_def newest_items_eq)
  with g show ?thesis by (simp add: useAttachmentLibrary_def Let_def newest_key_def)
qed

text \<open>C14: The button that deletes what is unused leaves no unused attachment on the server, whatever their number: the
  pages are listed to the end, which is reached, before the first batch is deleted, no batch is larger than the
  server takes, and an attachment that a memo holds stays.\<close>

theorem delete_unused_complete:
  assumes "distinct (map fst s)" and "[] \<notin> set (map fst s)"
  shows "handleDeleteUnusedAttachments attachment_service s
      = Some (if list_all (\<lambda>(n, linked). linked) s then NothingUnused else DeletedUnused, filter (\<lambda>(n, linked). linked) s)"
proof -
  obtain s' where h: "handleDeleteUnusedAttachments attachment_service s
      = Some (if store_unused s = [] then NothingUnused else DeletedUnused, s')"
    and u: "store_unused s' = []" and k: "store_linked s' = store_linked s"
    using service.unused_cleared [of s] assms by (auto simp: store_ok_def)
  have "store_linked s' = s'" using u by (auto simp: store_unused_def store_linked_def filter_empty_conv filter_id_conv)
  moreover have "store_unused s = [] \<longleftrightarrow> list_all (\<lambda>(n, linked). linked) s"
    by (auto simp: store_unused_def filter_empty_conv list_all_iff)
  ultimately show ?thesis using h k by (simp add: store_linked_def)
qed

theorem delete_unused_complete_witness:
  "handleDeleteUnusedAttachments attachment_service [(''attachments/a'', False), (''attachments/b'', True)]
     = Some (DeletedUnused, [(''attachments/b'', True)])"
  using delete_unused_complete [of "[(''attachments/a'', False), (''attachments/b'', True)]"] by simp

text \<open>An image with a date, a document without one, and a platform for them.\<close>

definition lib_time :: "nat \<Rightarrow> timestamp option" where
  "lib_time n = Some \<lparr>ts_seconds = int n, ts_nanos = 0\<rparr>"

definition lib_image :: attachment where
  "lib_image = empty_attachment\<lparr>a_name := ''attachments/3'', a_type := ''image/png'', a_memo := Some ''memos/1'',
     a_createTime := lib_time 5\<rparr>"

definition lib_document :: attachment where
  "lib_document = empty_attachment\<lparr>a_name := ''attachments/4'', a_type := ''application/pdf'', a_memo := Some ''memos/1''\<rparr>"

definition lib_env :: library_env where
  "lib_env = \<lparr>le_origin = ''https://m'', le_ts_date = (\<lambda>t. 1000 * ts_seconds t), le_locale_date = show_int,
     le_month = (\<lambda>d. ''2024-0'' @ show_int (d div 3000)), le_month_label = id,
     le_collate = (\<lambda>a b. int (parse_digits (drop 6 a)) - int (parse_digits (drop 6 b))), le_size = show_int,
     le_live_photo = ''Live'', le_unknown_date = ''Unknown''\<rparr>"

theorem library_complete_witness:
  "mset (map ll_attachment (al_documentItems (useAttachmentLibrary lib_env [[lib_image], [lib_document]]))) = {#lib_document#}"
proof -
  have "group_ids [lib_image, lib_document] = {}"
    by (simp add: group_ids_def List.map_filter_def getAttachmentMotionGroupId_def lib_image_def lib_document_def empty_attachment_def)
  then have "a_name ` set (concat [[lib_image], [lib_document]]) \<inter> group_ids (concat [[lib_image], [lib_document]]) = {}" by simp
  from library_complete [OF this, of lib_env] show ?thesis
    by (simp add: Let_def lib_image_def lib_document_def empty_attachment_def isLinkedAttachment_def isVisualAttachment_def
        isImageAttachment_def isVideoAttachment_def isAudioAttachment_def getAttachmentType_def isImage_def isPSD_def
        isMotionAttachment_def isAppleLivePhotoStill_def isAppleLivePhotoVideo_def isAndroidMotionContainer_def has_motion_def
        lib_time_def startsWith_iff)
qed

theorem library_in_order_witness:
  "let lib = useAttachmentLibrary lib_env [[lib_image], [lib_document]] in
     concat (map lg_items (al_mediaGroups lib)) = al_mediaItems lib"
proof -
  have "set (List.map_filter (toCreatedAt lib_env) (concat [[lib_image], [lib_document]])) = {5000}"
    by (simp add: List.map_filter_def toCreatedAt_def lib_image_def lib_document_def empty_attachment_def lib_time_def lib_env_def)
  then have "months_ok lib_env (\<lambda>d. d div 3000) (set (List.map_filter (toCreatedAt lib_env) (concat [[lib_image], [lib_document]])))"
    by (simp add: months_ok_def lib_env_def)
  from library_in_order [OF this] show ?thesis by (simp add: Let_def)
qed

end
