(* ===== verification/Calendar.thy ===== *)
theory Calendar
  imports Complex_Main JsBase "HOL-Library.Signed_Division"
begin

text \<open>
  The activity calendar (\<^verbatim>\<open>components/ActivityCalendar\<close>): the matrix of a month, the months and the
  data of a year, the shade of a cell and its tooltip, and the navigation between months
  (\<^verbatim>\<open>lib/calendar-utils.ts\<close>, \<^verbatim>\<open>StatisticsView/MonthNavigator.tsx\<close>). The date library dayjs is a
  record of functions; what the code relies on is the locale \<open>day_calendar\<close>, which the proleptic Gregorian
  calendar on day numbers meets.
\<close>

section \<open>The date library\<close>

record 'd dayjs =
  dj_parse :: "string \<Rightarrow> 'd"
  dj_start_of_month :: "'d \<Rightarrow> 'd"
  dj_end_of_month :: "'d \<Rightarrow> 'd"
  dj_day :: "'d \<Rightarrow> int"
  dj_date :: "'d \<Rightarrow> int"
  dj_add_days :: "'d \<Rightarrow> int \<Rightarrow> 'd"
  dj_add_months :: "'d \<Rightarrow> int \<Rightarrow> 'd"
  dj_diff_days :: "'d \<Rightarrow> 'd \<Rightarrow> int"
  dj_iso :: "'d \<Rightarrow> string"
  dj_month :: "'d \<Rightarrow> string"

section \<open>The matrix of a month\<close>

definition DAYS_IN_WEEK :: int where
  "DAYS_IN_WEEK = 7"

text \<open>The remainder of JavaScript has the sign of the dividend.\<close>

definition js_rem :: "int \<Rightarrow> int \<Rightarrow> int" where
  "js_rem a b = a smod b"

type_synonym calendar_data = "(string \<times> int) list"

record calendar_day_cell =
  cc_date :: string
  cc_label :: int
  cc_count :: int
  cc_isCurrentMonth :: bool
  cc_isToday :: bool
  cc_isSelected :: bool

record calendar_matrix =
  cm_weeks :: "calendar_day_cell list list"
  cm_weekDays :: "string list"

definition createCalendarDayCell ::
  "'d dayjs \<Rightarrow> 'd \<Rightarrow> string \<Rightarrow> calendar_data \<Rightarrow> string \<Rightarrow> string \<Rightarrow> calendar_day_cell" where
  "createCalendarDayCell dj current monthKey data today selectedDate =
     (let isoDate = dj_iso dj current in
      \<lparr>cc_date = isoDate, cc_label = dj_date dj current,
       cc_count = (case map_of data isoDate of None \<Rightarrow> 0 | Some n \<Rightarrow> n),
       cc_isCurrentMonth = (dj_month dj current = monthKey),
       cc_isToday = (isoDate = today), cc_isSelected = (isoDate = selectedDate)\<rparr>)"

definition calculateCalendarBoundaries :: "'d dayjs \<Rightarrow> 'd \<Rightarrow> int \<Rightarrow> 'd \<times> int" where
  "calculateCalendarBoundaries dj monthStart weekStartDayOffset =
     (let monthEnd = dj_end_of_month dj monthStart;
          startOffset = js_rem (dj_day dj monthStart - weekStartDayOffset + DAYS_IN_WEEK) DAYS_IN_WEEK;
          endOffset = js_rem (weekStartDayOffset + (DAYS_IN_WEEK - 1) - dj_day dj monthEnd + DAYS_IN_WEEK) DAYS_IN_WEEK;
          calendarStart = dj_add_days dj monthStart (- startOffset);
          calendarEnd = dj_add_days dj monthEnd endOffset in
      (calendarStart, dj_diff_days dj calendarEnd calendarStart + 1))"

text \<open>\<open>slice\<close> with one negative or positive bound.\<close>

definition slice_bound :: "int \<Rightarrow> 'a list \<Rightarrow> nat" where
  "slice_bound i xs = (if i < 0 then nat (int (length xs) + i) else nat i)"

definition slice_from :: "int \<Rightarrow> 'a list \<Rightarrow> 'a list" where
  "slice_from i xs = drop (slice_bound i xs) xs"

definition slice_to :: "int \<Rightarrow> 'a list \<Rightarrow> 'a list" where
  "slice_to i xs = take (slice_bound i xs) xs"

text \<open>One round of the loop: the day goes to the week of its index, which is made when it is not there yet.\<close>

definition add_cell :: "calendar_day_cell list list \<Rightarrow> nat \<Rightarrow> calendar_day_cell \<Rightarrow> calendar_day_cell list list" where
  "add_cell weeks index dayCell =
     (let weekIndex = index div nat DAYS_IN_WEEK;
          weeks' = (if weekIndex < length weeks then weeks else weeks @ [[]]) in
      weeks'[weekIndex := weeks' ! weekIndex @ [dayCell]])"

definition useCalendarMatrix ::
  "'d dayjs \<Rightarrow> string \<Rightarrow> calendar_data \<Rightarrow> string list \<Rightarrow> int \<Rightarrow> string \<Rightarrow> string \<Rightarrow> calendar_matrix" where
  "useCalendarMatrix dj month data weekDays weekStartDayOffset today selectedDate =
     (let monthStart = dj_start_of_month dj (dj_parse dj month);
          monthKey = dj_month dj monthStart;
          rotatedWeekDays = slice_from weekStartDayOffset weekDays @ slice_to weekStartDayOffset weekDays;
          (calendarStart, dayCount) = calculateCalendarBoundaries dj monthStart weekStartDayOffset in
      \<lparr>cm_weeks = foldl (\<lambda>weeks index. add_cell weeks index
           (createCalendarDayCell dj (dj_add_days dj calendarStart (int index)) monthKey data today selectedDate))
         [] [0..<nat dayCount],
       cm_weekDays = rotatedWeekDays\<rparr>)"

section \<open>Shades, years and tooltips\<close>

definition MONTHS_IN_YEAR :: nat where
  "MONTHS_IN_YEAR = 12"

definition MIN_COUNT :: int where
  "MIN_COUNT = 1"

definition MIN_YEAR :: int where
  "MIN_YEAR = 1970"

definition getMaxYear :: "int \<Rightarrow> int" where
  "getMaxYear thisYear = thisYear + 1"

datatype cell_style = Style_High | Style_Medium | Style_Low | Style_Minimal | Style_Empty

definition getCellIntensityClass :: "calendar_day_cell \<Rightarrow> int \<Rightarrow> cell_style" where
  "getCellIntensityClass day maxCount =
     (if \<not> cc_isCurrentMonth day \<or> cc_count day = 0 then Style_Empty
      else
        let ratio = rat_of_int (cc_count day) / rat_of_int maxCount in
        if ratio > 3 / 4 then Style_High
        else if ratio > 1 / 2 then Style_Medium
        else if ratio > 1 / 4 then Style_Low
        else Style_Minimal)"

definition calculateMaxCount :: "calendar_data \<Rightarrow> int" where
  "calculateMaxCount data = max (foldl (\<lambda>mx (_, count). max mx count) 0 data) MIN_COUNT"

definition generateMonthsForYear :: "'d dayjs \<Rightarrow> int \<Rightarrow> string list" where
  "generateMonthsForYear dj year =
     map (\<lambda>i. dj_month dj (dj_add_months dj (dj_parse dj (show_int year @ ''-01-01'')) (int i))) [0..<MONTHS_IN_YEAR]"

text \<open>\<open>isSameOrAfter\<close> and \<open>isSameOrBefore\<close> of two days, by their difference in whole days.\<close>

definition filterDataByYear :: "'d dayjs \<Rightarrow> calendar_data \<Rightarrow> int \<Rightarrow> calendar_data" where
  "filterDataByYear dj data year =
     (let yearStart = dj_parse dj (show_int year @ ''-01-01''); yearEnd = dj_parse dj (show_int year @ ''-12-31'') in
      filter (\<lambda>(dateStr, count). let date = dj_parse dj dateStr in
                0 \<le> dj_diff_days dj date yearStart \<and> dj_diff_days dj date yearEnd \<le> 0) data)"

record year_navigation =
  yn_canGoPrev :: bool
  yn_canGoNext :: bool
  yn_prev :: "int option"
  yn_next :: "int option"
  yn_today :: int

text \<open>The year the buttons of the year calendar ask for; none when the button does nothing.\<close>

definition year_calendar :: "int \<Rightarrow> int \<Rightarrow> year_navigation" where
  "year_calendar thisYear selectedYear =
     (let canGoPrev = selectedYear > MIN_YEAR; canGoNext = selectedYear < getMaxYear thisYear in
      \<lparr>yn_canGoPrev = canGoPrev, yn_canGoNext = canGoNext,
       yn_prev = (if canGoPrev then Some (selectedYear - 1) else None),
       yn_next = (if canGoNext then Some (selectedYear + 1) else None), yn_today = thisYear\<rparr>)"

datatype calendar_basis = By_Create_Time | By_Update_Time

text \<open>The tooltip: its key of the translation with its arguments.\<close>

definition getTooltipText :: "(string \<Rightarrow> int \<Rightarrow> string \<Rightarrow> string \<Rightarrow> string) \<Rightarrow> (string \<Rightarrow> string) \<Rightarrow> int \<Rightarrow> string \<Rightarrow> calendar_basis \<Rightarrow> string" where
  "getTooltipText t3 t count date timeBasis =
     (if count = 0 then date
      else
        let key = (if timeBasis = By_Update_Time then ''memo.count-memos-updated-in-date'' else ''memo.count-memos-in-date'') in
        toLowerCase (t3 key count (if count = 1 then t ''common.memo'' else t ''common.memos'') date))"

section \<open>Navigation between months\<close>

definition formatMonth :: "'d dayjs \<Rightarrow> string \<Rightarrow> string" where
  "formatMonth dj date = dj_month dj (dj_parse dj date)"

definition addMonths :: "'d dayjs \<Rightarrow> string \<Rightarrow> int \<Rightarrow> string" where
  "addMonths dj date count = dj_month dj (dj_add_months dj (dj_parse dj date) count)"

definition handlePrevMonth :: "'d dayjs \<Rightarrow> string \<Rightarrow> string" where
  "handlePrevMonth dj visibleMonth = addMonths dj visibleMonth (- 1)"

definition handleNextMonth :: "'d dayjs \<Rightarrow> string \<Rightarrow> string" where
  "handleNextMonth dj visibleMonth = addMonths dj visibleMonth 1"

lemma js_rem_pos: "0 \<le> a \<Longrightarrow> 0 < b \<Longrightarrow> js_rem a b = a mod b"
  by (cases "a = 0") (simp_all add: js_rem_def smod_int_alt_def)

lemma week_start: "(a - (a mod 7 - b + 7) mod 7) mod 7 = b mod (7::int)"
proof -
  have "(a - (a mod 7 - b + 7) mod 7) mod 7 = (a - (a mod 7 - b + 7)) mod 7" by (rule mod_diff_right_eq)
  also have "a - (a mod 7 - b + 7) = b + 7 * (a div 7 - 1)" using div_mult_mod_eq [of a 7] by (simp add: algebra_simps)
  also have "(b + 7 * (a div 7 - 1)) mod 7 = b mod 7" by (rule mod_mult_self2)
  finally show ?thesis .
qed

lemma week_end: "(z + (b + 6 - z mod 7 + 7) mod 7 + 1) mod 7 = b mod (7::int)"
proof -
  have "(z + (b + 6 - z mod 7 + 7) mod 7 + 1) mod 7 = ((z + 1) + (b + 6 - z mod 7 + 7)) mod 7"
    using mod_add_right_eq [of "z + 1" "b + 6 - z mod 7 + 7" 7] by (simp add: algebra_simps)
  also have "(z + 1) + (b + 6 - z mod 7 + 7) = b + 7 * (z div 7 + 2)" using div_mult_mod_eq [of z 7] by (simp add: algebra_simps)
  also have "(b + 7 * (z div 7 + 2)) mod 7 = b mod 7" by (rule mod_mult_self2)
  finally show ?thesis .
qed

text \<open>The loop cuts the days into weeks.\<close>

lemma weeks_by_seven:
  "foldl (\<lambda>weeks i. add_cell weeks i (f i)) [] [0..<n]
   = map (\<lambda>w. map f [7 * w..<7 * w + 7]) [0..<n div 7]
     @ (if n mod 7 = 0 then [] else [map f [7 * (n div 7)..<n]])"
proof (induction n)
  case 0
  then show ?case by simp
next
  case (Suc n)
  define ws where "ws = map (\<lambda>w. map f [7 * w..<7 * w + 7]) [0..<n div 7]"
  have len: "length ws = n div 7" by (simp add: ws_def)
  have n: "7 * (n div 7) + n mod 7 = n" by simp
  have fold: "foldl (\<lambda>weeks i. add_cell weeks i (f i)) [] [0..<Suc n]
      = add_cell (ws @ (if n mod 7 = 0 then [] else [map f [7 * (n div 7)..<n]])) n (f n)"
    by (simp add: Suc.IH ws_def)
  have cell: "\<dots> = ws @ [map f [7 * (n div 7)..<Suc n]]"
    using len n by (auto simp: add_cell_def Let_def DAYS_IN_WEEK_def nth_append list_update_append)
  show ?case
  proof (cases "Suc n mod 7 = 0")
    case True
    then have d: "Suc n div 7 = Suc (n div 7)" and e: "Suc n = 7 * (n div 7) + 7" by presburger+
    have "[7 * (n div 7)..<Suc n] = [7 * (n div 7)..<7 * (n div 7) + 7]" using e by (rule arg_cong)
    then show ?thesis unfolding fold cell d using True by (simp del: upt_Suc add: upt_Suc_append ws_def)
  next
    case False
    then have "Suc n div 7 = n div 7" by presburger
    then show ?thesis unfolding fold cell using False by (simp add: ws_def)
  qed
qed

lemma concat_weeks: "concat (map (\<lambda>w. map f [7 * w..<7 * w + 7]) [0..<k]) = map f [0..<7 * k]"
proof (induction k)
  case (Suc k)
  have "[0..<7 * Suc k] = [0..<7 * k] @ [7 * k..<7 * k + 7]"
    using upt_add_eq_append [of 0 "7 * k" 7] by (simp add: add.commute)
  then show ?case using Suc by simp
qed simp

lemma whole_weeks:
  assumes "n mod 7 = 0"
  shows "let ws = foldl (\<lambda>weeks i. add_cell weeks i (f i)) [] [0..<n] in
     concat ws = map f [0..<n] \<and> list_all (\<lambda>w. length w = 7) ws \<and> length ws = n div 7"
proof -
  have "7 * (n div 7) = n" using assms by auto
  then show ?thesis using concat_weeks [of f "n div 7"] assms by (simp add: weeks_by_seven list_all_iff)
qed

lemma rotated_labels:
  assumes "- 7 \<le> off" and "off \<le> 7" and "length ls = 7"
  shows "slice_from off ls @ slice_to off ls = map (\<lambda>i. ls ! nat ((off + i) mod 7)) [0..6]"
proof -
  obtain a b c d e f g where ls: "ls = [a, b, c, d, e, f, g]"
    using assms(3) by (auto simp: length_Suc_conv eval_nat_numeral)
  have "off = -7 \<or> off = -6 \<or> off = -5 \<or> off = -4 \<or> off = -3 \<or> off = -2 \<or> off = -1 \<or> off = 0 \<or> off = 1
      \<or> off = 2 \<or> off = 3 \<or> off = 4 \<or> off = 5 \<or> off = 6 \<or> off = 7" using assms(1,2) by presburger
  moreover have "[0..6] = [0, 1, 2, 3, 4, 5, 6::int]" by code_simp
  ultimately show ?thesis unfolding ls slice_from_def slice_to_def slice_bound_def by (elim disjE) simp_all
qed

section \<open>What the code relies on of dates\<close>

text \<open>
  \<open>num\<close> is the number of a date's day, \<open>mon\<close> that of its month. A month is a run of 28 to 31 days, weekdays
  follow each other, and what is formatted identifies the day or the month.
\<close>

locale day_calendar =
  fixes dj :: "'d dayjs" and num :: "'d \<Rightarrow> int" and mon :: "'d \<Rightarrow> int"
  assumes add_days: "num (dj_add_days dj d n) = num d + n"
    and diff_days: "dj_diff_days dj d d' = num d - num d'"
    and weekday: "\<exists>c. \<forall>d. dj_day dj d = (num d + c) mod 7"
    and in_month: "mon d' = mon d \<longleftrightarrow> num (dj_start_of_month dj d) \<le> num d' \<and> num d' \<le> num (dj_end_of_month dj d)"
    and month_days: "num (dj_end_of_month dj d) - num (dj_start_of_month dj d) \<in> {27..30}"
    and month_text: "dj_month dj d = dj_month dj d' \<longleftrightarrow> mon d = mon d'"
    and iso_text: "num d = num d' \<Longrightarrow> dj_iso dj d = dj_iso dj d'"
    and date_number: "dj_date dj d = num d - num (dj_start_of_month dj d) + 1"
    and add_months: "mon (dj_add_months dj d k) = mon d + k"
    and parse_month: "mon (dj_parse dj (dj_month dj d)) = mon d"
begin

lemma start_in_month: "mon (dj_start_of_month dj d) = mon d"
  using in_month [of "dj_start_of_month dj d" d] month_days [of d] by simp

lemma end_in_month: "mon (dj_end_of_month dj d) = mon d"
  using in_month [of "dj_end_of_month dj d" d] month_days [of d] by simp

lemma same_start:
  assumes "mon d = mon d'"
  shows "num (dj_start_of_month dj d) = num (dj_start_of_month dj d')"
proof -
  have "num (dj_start_of_month dj d') \<le> num (dj_start_of_month dj d)"
    using in_month [of "dj_start_of_month dj d" d'] start_in_month [of d] assms by simp
  moreover have "num (dj_start_of_month dj d) \<le> num (dj_start_of_month dj d')"
    using in_month [of "dj_start_of_month dj d'" d] start_in_month [of d'] assms by simp
  ultimately show ?thesis by simp
qed

lemma same_end:
  assumes "mon d = mon d'"
  shows "num (dj_end_of_month dj d) = num (dj_end_of_month dj d')"
proof -
  have "num (dj_end_of_month dj d) \<le> num (dj_end_of_month dj d')"
    using in_month [of "dj_end_of_month dj d" d'] end_in_month [of d] assms by simp
  moreover have "num (dj_end_of_month dj d') \<le> num (dj_end_of_month dj d)"
    using in_month [of "dj_end_of_month dj d'" d] end_in_month [of d'] assms by simp
  ultimately show ?thesis by simp
qed

text \<open>The grid begins on the weekday chosen, at most six days before the month, and ends with its week.\<close>

lemma boundaries:
  assumes "- 7 \<le> off" and "off \<le> 7" and s: "num (dj_start_of_month dj s) = num s"
  shows "let (start, count) = calculateCalendarBoundaries dj s off; before = num s - num start;
             days = num (dj_end_of_month dj s) - num s + 1 in
    0 \<le> before \<and> before < 7 \<and> dj_day dj start = off mod 7
    \<and> before + days \<le> count \<and> count < before + days + 7 \<and> count mod 7 = 0"
proof -
  obtain c where c: "\<And>d. dj_day dj d = (num d + c) mod 7" using weekday by blast
  define a where "a = num s + c"
  define z where "z = num (dj_end_of_month dj s) + c"
  have "0 \<le> a mod 7 - off + 7" "0 \<le> off + 6 - z mod 7 + 7"
    using assms(1,2) pos_mod_bound [of 7 a] pos_mod_sign [of 7 a] pos_mod_bound [of 7 z] pos_mod_sign [of 7 z] by linarith+
  then have r: "js_rem (dj_day dj s - off + DAYS_IN_WEEK) DAYS_IN_WEEK = (a mod 7 - off + 7) mod 7"
    "js_rem (off + (DAYS_IN_WEEK - 1) - dj_day dj (dj_end_of_month dj s) + DAYS_IN_WEEK) DAYS_IN_WEEK = (off + 6 - z mod 7 + 7) mod 7"
    by (simp_all add: DAYS_IN_WEEK_def c a_def z_def js_rem_pos)
  define p where "p = (a mod 7 - off + 7) mod 7"
  define q where "q = (off + 6 - z mod 7 + 7) mod 7"
  have p: "0 \<le> p" "p < 7" "(a - p) mod 7 = off mod 7"
    unfolding p_def by (simp, simp, rule week_start)
  have q: "0 \<le> q" "q < 7" "(z + q + 1) mod 7 = off mod 7"
    unfolding q_def by (simp, simp, rule week_end)
  have "(z + q + 1 - (a - p)) mod 7 = 0" using p(3) q(3) by (metis diff_self mod_diff_cong mod_0)
  then show ?thesis
    unfolding calculateCalendarBoundaries_def Let_def r case_prod_conv p_def [symmetric] q_def [symmetric]
    unfolding diff_days add_days c
    using month_days [of s] p q by (simp add: a_def z_def algebra_simps)
qed

lemma matrix_days:
  fixes month :: string
  assumes off: "- 7 \<le> off" "off \<le> 7" and labels: "length weekDays = 7"
  shows "let m = useCalendarMatrix dj month data weekDays off today sel;
      s = dj_start_of_month dj (dj_parse dj month); n = num (dj_end_of_month dj s) - num s + 1;
      start = fst (calculateCalendarBoundaries dj s off); days = concat (cm_weeks m) in
    list_all (\<lambda>w. length w = 7) (cm_weeks m) \<and> 4 \<le> length (cm_weeks m) \<and> length (cm_weeks m) \<le> 6
    \<and> days = map (\<lambda>i. createCalendarDayCell dj (dj_add_days dj start (int i)) (dj_month dj s) data today sel) [0..<length days]
    \<and> cm_weekDays m = map (\<lambda>i. weekDays ! nat (dj_day dj (dj_add_days dj start i))) [0..6]
    \<and> map cc_label (filter cc_isCurrentMonth days) = [1..n]
    \<and> map cc_date (filter cc_isCurrentMonth days) = map (\<lambda>i. dj_iso dj (dj_add_days dj s i)) [0..n - 1]"
proof -
  define s where "s = dj_start_of_month dj (dj_parse dj month)"
  define n where "n = num (dj_end_of_month dj s) - num s + 1"
  obtain start count where b: "calculateCalendarBoundaries dj s off = (start, count)" by fastforce
  have same: "num (dj_start_of_month dj s) = num s" unfolding s_def by (rule same_start [OF start_in_month])
  define before where "before = num s - num start"
  have bd: "0 \<le> before" "before < 7" "dj_day dj start = off mod 7" "before + n \<le> count" "count < before + n + 7" "count mod 7 = 0"
    using boundaries [OF off same] by (auto simp: b before_def n_def Let_def)
  have n: "28 \<le> n" "n \<le> 31" using month_days [of s] same by (auto simp: n_def)
  define cell where "cell i = createCalendarDayCell dj (dj_add_days dj start (int i)) (dj_month dj s) data today sel" for i
  define ws where "ws = foldl (\<lambda>weeks i. add_cell weeks i (cell i)) [] [0..<nat count]"
  have m: "useCalendarMatrix dj month data weekDays off today sel
      = \<lparr>cm_weeks = ws, cm_weekDays = slice_from off weekDays @ slice_to off weekDays\<rparr>"
    by (simp add: useCalendarMatrix_def Let_def s_def [symmetric] b ws_def cell_def)
  have "int (nat count mod 7) = 0" using bd n by (simp add: zmod_int)
  then have seven: "nat count mod 7 = 0" by simp
  then have w: "concat ws = map cell [0..<nat count]" "list_all (\<lambda>w. length w = 7) ws" "length ws = nat count div 7"
    using whole_weeks [of "nat count" cell] by (simp_all add: ws_def Let_def)
  have weeks: "4 \<le> length ws" "length ws \<le> 6" using w(3) bd n seven by linarith+
  obtain c where c: "\<And>d. dj_day dj d = (num d + c) mod 7" using weekday by blast
  have "dj_day dj (dj_add_days dj start i) = (off + i) mod 7" for i
  proof -
    have "dj_day dj (dj_add_days dj start i) = ((num start + c) mod 7 + i) mod 7"
      using mod_add_left_eq [of "num start + c" 7 i] by (simp add: c add_days add.assoc add.commute [of c i])
    also have "\<dots> = (off mod 7 + i) mod 7" using bd(3) by (simp add: c)
    finally show ?thesis by (simp add: mod_add_left_eq)
  qed
  then have header: "slice_from off weekDays @ slice_to off weekDays
      = map (\<lambda>i. weekDays ! nat (dj_day dj (dj_add_days dj start i))) [0..6]"
    using rotated_labels [OF off labels] by simp
  have cur: "cc_isCurrentMonth (cell i) \<longleftrightarrow> nat before \<le> i \<and> i < nat (before + n)" for i
    using in_month [of "dj_add_days dj start (int i)" s] bd(1) n same
    by (auto simp: cell_def createCalendarDayCell_def Let_def month_text add_days before_def n_def)
  have f: "filter (cc_isCurrentMonth \<circ> cell) [0..<nat count] = [nat before..<nat (before + n)]"
  proof -
    have app: "[i..<k] = [i..<j] @ [j..<k]" if "i \<le> j" "j \<le> k" for i j k :: nat
      using upt_add_eq_append [of i j "k - j"] that by simp
    have "[0..<nat count] = [0..<nat before] @ [nat before..<nat (before + n)] @ [nat (before + n)..<nat count]"
      using bd n app [of 0 "nat before" "nat count"] app [of "nat before" "nat (before + n)" "nat count"] by simp
    then show ?thesis by (simp add: cur filter_empty_conv filter_id_conv comp_def)
  qed
  have days: "filter cc_isCurrentMonth (concat ws) = map cell [nat before..<nat (before + n)]"
    by (simp add: w(1) filter_map f)
  have shift: "map g [nat before..<nat (before + n)] = map (\<lambda>i. g (nat (before + i))) [0..n - 1]" for g :: "nat \<Rightarrow> 'b"
    by (rule nth_equalityI) (use bd(1) n in \<open>auto simp: nat_add_distrib\<close>)
  have lab: "cc_label (cell (nat (before + i))) = i + 1" if "0 \<le> i" "i \<le> n - 1" for i
  proof -
    have "mon (dj_add_days dj start (before + i)) = mon s"
      using in_month [of "dj_add_days dj start (before + i)" s] that same by (simp add: add_days before_def n_def)
    from same_start [OF this] show ?thesis
      using that bd(1) same by (simp add: cell_def createCalendarDayCell_def Let_def date_number add_days before_def)
  qed
  have iso: "cc_date (cell (nat (before + i))) = dj_iso dj (dj_add_days dj s i)" if "0 \<le> i" for i
    using that bd(1) by (auto simp: cell_def createCalendarDayCell_def Let_def add_days before_def intro: iso_text)
  have "map cc_label (filter cc_isCurrentMonth (concat ws)) = map (\<lambda>i. i + 1) [0..n - 1]"
    unfolding days map_map comp_def shift by (rule map_cong [OF refl]) (use lab in auto)
  also have "\<dots> = [1..n]" by (rule nth_equalityI) (use n in auto)
  finally have labels: "map cc_label (filter cc_isCurrentMonth (concat ws)) = [1..n]" .
  have "map cc_date (filter cc_isCurrentMonth (concat ws)) = map (\<lambda>i. dj_iso dj (dj_add_days dj s i)) [0..n - 1]"
    unfolding days map_map comp_def shift by (rule map_cong [OF refl]) (use iso in auto)
  then show ?thesis
    using w weeks header labels
    unfolding Let_def m s_def [symmetric] n_def [symmetric] b fst_conv cell_def [symmetric] by simp
qed

text \<open>Going to the next month and back, and the twelve months of a year.\<close>

lemma next_then_prev:
  "mon (dj_parse dj (handlePrevMonth dj (handleNextMonth dj m))) = mon (dj_parse dj m)"
  by (simp add: handlePrevMonth_def handleNextMonth_def addMonths_def parse_month add_months)

lemma months_of_year:
  "map (\<lambda>m. mon (dj_parse dj m)) (generateMonthsForYear dj year)
   = map (\<lambda>i. mon (dj_parse dj (show_int year @ ''-01-01'')) + i) [0..11]"
  by (rule nth_equalityI) (simp_all add: generateMonthsForYear_def parse_month add_months MONTHS_IN_YEAR_def)

end

end
