(* ===== verification/Gregorian.thy ===== *)
theory Gregorian
  imports Calendar
begin

text \<open>
  The Gregorian calendar on day numbers (day 0 is 1970-01-01), as an instance of what the activity calendar
  relies on of dates, and the properties of the activity calendar.
\<close>

section \<open>Months\<close>

definition leap_year :: "int \<Rightarrow> bool" where
  "leap_year y \<longleftrightarrow> y mod 4 = 0 \<and> (y mod 100 \<noteq> 0 \<or> y mod 400 = 0)"

definition year_start :: "int \<Rightarrow> int" where
  "year_start y = 365 * (y - 1970) + (y - 1) div 4 - (y - 1) div 100 + (y - 1) div 400 - 477"

definition before_month :: "int list" where
  "before_month = [0, 31, 59, 90, 120, 151, 181, 212, 243, 273, 304, 334]"

text \<open>Months are counted from January 1970.\<close>

definition month_start :: "int \<Rightarrow> int" where
  "month_start mi =
     (let y = 1970 + mi div 12; m = mi mod 12 in
      year_start y + before_month ! nat m + (if m \<ge> 2 \<and> leap_year y then 1 else 0))"

text \<open>The month of a day, by trying the months from an early one on.\<close>

definition month_index :: "int \<Rightarrow> int" where
  "month_index n =
     (let lo = min (n div 31) (n div 28); hi = max (n div 31) (n div 28) in
      foldl (\<lambda>m _. if month_start (m + 1) \<le> n then m + 1 else m) lo [0..<nat (hi - lo)])"

lemma div_pred:
  assumes "0 < (k::int)"
  shows "y div k = (y - 1) div k + (if y mod k = 0 then 1 else 0)"
proof (cases "y mod k = 0")
  case True
  have "k * (y div k) = y" using True by auto
  then have "y - 1 = k * (y div k - 1) + (k - 1)" by (simp add: right_diff_distrib)
  then have "(y - 1) div k = y div k - 1" by (rule int_div_pos_eq) (use assms in auto)
  then show ?thesis using True by simp
next
  case False
  have "y - 1 = k * (y div k) + (y mod k - 1)" by simp
  then have "(y - 1) div k = y div k"
    by (rule int_div_pos_eq) (use assms False pos_mod_bound [of k y] pos_mod_sign [of k y] in linarith)+
  then show ?thesis using False by simp
qed

lemma year_length: "year_start (y + 1) = year_start y + (if leap_year y then 366 else 365)"
proof -
  have "y mod 400 mod 100 = y mod 100" "y mod 100 mod 4 = y mod 4" by (rule mod_mod_cancel, simp)+
  then have c: "y mod 400 = 0 \<Longrightarrow> y mod 100 = 0" "y mod 100 = 0 \<Longrightarrow> y mod 4 = 0" by auto
  define p q r where "p = (y - 1) div 4" and "q = (y - 1) div 100" and "r = (y - 1) div 400"
  have d: "y div 4 = p + (if y mod 4 = 0 then 1 else 0)" "y div 100 = q + (if y mod 100 = 0 then 1 else 0)"
    "y div 400 = r + (if y mod 400 = 0 then 1 else 0)"
    unfolding p_def q_def r_def by (rule div_pred, simp)+
  show ?thesis
    unfolding year_start_def leap_year_def add_diff_cancel_right' d p_def [symmetric] q_def [symmetric] r_def [symmetric]
    using c by (cases "y mod 400 = 0"; cases "y mod 100 = 0"; cases "y mod 4 = 0") simp_all
qed

lemma month_length: "28 \<le> month_start (mi + 1) - month_start mi \<and> month_start (mi + 1) - month_start mi \<le> 31"
proof -
  define q where "q = mi div 12"
  define m where "m = mi mod 12"
  have mi: "mi = 12 * q + m" by (simp add: q_def m_def)
  have "m = 0 \<or> m = 1 \<or> m = 2 \<or> m = 3 \<or> m = 4 \<or> m = 5 \<or> m = 6 \<or> m = 7 \<or> m = 8 \<or> m = 9 \<or> m = 10 \<or> m = 11"
    unfolding m_def by presburger
  then consider "m = 11" "(mi + 1) div 12 = q + 1" "(mi + 1) mod 12 = 0"
    | "m \<in> {0, 1, 2, 3, 4, 5, 6, 7, 8, 9, 10}" "(mi + 1) div 12 = q" "(mi + 1) mod 12 = m + 1"
    unfolding mi by force
  then show ?thesis
  proof cases
    case 1
    then show ?thesis using year_length [of "1970 + q"]
      by (simp add: month_start_def Let_def q_def [symmetric] m_def [symmetric] before_month_def add.assoc)
  next
    case 2
    then show ?thesis
      by (auto simp: month_start_def Let_def q_def [symmetric] m_def [symmetric] before_month_def)
  qed
qed

lemma month_start_0: "month_start 0 = 0"
  by (simp add: month_start_def year_start_def before_month_def leap_year_def)

lemma month_start_up: "0 \<le> mi \<Longrightarrow> 28 * mi \<le> month_start mi \<and> month_start mi \<le> 31 * mi"
proof (induction mi rule: int_ge_induct)
  case base
  then show ?case by (simp add: month_start_0)
next
  case (step mi)
  then show ?case using month_length [of mi] by simp
qed

lemma month_start_down: "mi \<le> 0 \<Longrightarrow> 31 * mi \<le> month_start mi \<and> month_start mi \<le> 28 * mi"
proof (induction mi rule: int_le_induct)
  case base
  then show ?case by (simp add: month_start_0)
next
  case (step mi)
  then show ?case using month_length [of "mi - 1"] by simp
qed

lemma month_start_mono: "a < b \<Longrightarrow> month_start a < month_start b"
proof (induction b rule: int_gr_induct)
  case base
  then show ?case using month_length [of a] by simp
next
  case (step b)
  then show ?case using month_length [of b] by simp
qed

lemma month_search:
  assumes "month_start lo \<le> n"
  shows "let m = foldl (\<lambda>m _. if month_start (m + 1) \<le> n then m + 1 else m) lo [0..<k] in
    month_start m \<le> n \<and> (n < month_start (m + 1) \<or> m = lo + int k)"
proof (induction k)
  case 0
  then show ?case using assms by simp
next
  case (Suc k)
  then show ?case by (auto simp: Let_def)
qed

lemma month_index_bounds: "month_start (month_index n) \<le> n \<and> n < month_start (month_index n + 1)"
proof -
  define lo where "lo = min (n div 31) (n div 28)"
  define hi where "hi = max (n div 31) (n div 28)"
  have le: "month_start lo \<le> n" and gt: "n < month_start (hi + 1)"
  proof -
    have a: "31 * (n div 31) \<le> n" "n < 31 * (n div 31) + 31" and b: "28 * (n div 28) \<le> n" "n < 28 * (n div 28) + 28"
      using div_mult_mod_eq [of n 31] div_mult_mod_eq [of n 28] pos_mod_bound [of 31 n] pos_mod_sign [of 31 n]
        pos_mod_bound [of 28 n] pos_mod_sign [of 28 n] by linarith+
    consider "0 \<le> n" | "n < 0" by linarith
    then have "month_start lo \<le> n \<and> n < month_start (hi + 1)"
    proof cases
      case 1
      then have "0 \<le> n div 31" "n div 31 \<le> n div 28" using a b by linarith+
      then have "month_start lo \<le> 31 * (n div 31)" "28 * (n div 28 + 1) \<le> month_start (hi + 1)"
        using month_start_up [of "n div 31"] month_start_up [of "n div 28 + 1"] by (simp_all add: lo_def hi_def)
      then show ?thesis using a b by auto
    next
      case 2
      then have "n div 31 < 0" "n div 28 \<le> n div 31" using a b by linarith+
      then have "month_start lo \<le> 28 * (n div 28)" "31 * (n div 31 + 1) \<le> month_start (hi + 1)"
        using month_start_down [of "n div 28"] month_start_down [of "n div 31 + 1"] by (simp_all add: lo_def hi_def)
      then show ?thesis using a b by auto
    qed
    then show "month_start lo \<le> n" "n < month_start (hi + 1)" by blast+
  qed
  define m where "m = foldl (\<lambda>m _. if month_start (m + 1) \<le> n then m + 1 else m) lo [0..<nat (hi - lo)]"
  have "lo + int (nat (hi - lo)) = hi" by (simp add: lo_def hi_def)
  then have "month_start m \<le> n \<and> (n < month_start (m + 1) \<or> m = hi)"
    using month_search [OF le, of "nat (hi - lo)"] unfolding m_def [symmetric] Let_def by simp
  moreover have "month_index n = m" unfolding month_index_def Let_def m_def lo_def hi_def ..
  ultimately show ?thesis using gt by auto
qed

lemma month_index_eq: "month_index n = mi \<longleftrightarrow> month_start mi \<le> n \<and> n < month_start (mi + 1)"
proof
  assume mi: "month_start mi \<le> n \<and> n < month_start (mi + 1)"
  have le: "a \<le> b \<Longrightarrow> month_start a \<le> month_start b" for a b
    using month_start_mono [of a b] by (cases "a = b") auto
  have "\<not> month_index n + 1 \<le> mi" "\<not> mi + 1 \<le> month_index n"
    using mi month_index_bounds [of n] le [of "month_index n + 1" mi] le [of "mi + 1" "month_index n"] by linarith+
  then show "month_index n = mi" by simp
qed (use month_index_bounds in blast)

lemma month_index_start [simp]: "month_index (month_start mi) = mi"
  using month_start_mono [of mi "mi + 1"] by (simp add: month_index_eq)

section \<open>Text\<close>

definition two_places :: "int \<Rightarrow> string" where
  "two_places n = pad_start 2 CHR ''0'' (show_nat (nat n))"

text \<open>Years before the common era are marked by a letter.\<close>

definition year_text :: "int \<Rightarrow> string" where
  "year_text y = (if y < 0 then ''B'' @ show_nat (nat (- y)) else pad_start 4 CHR ''0'' (show_nat (nat y)))"

definition read_year :: "string \<Rightarrow> int" where
  "read_year s = (if take 1 s = ''B'' then - int (parse_digits (drop 1 s)) else int (parse_digits s))"

definition month_text :: "int \<Rightarrow> string" where
  "month_text mi = year_text (1970 + mi div 12) @ ''-'' @ two_places (mi mod 12 + 1)"

definition day_text :: "int \<Rightarrow> string" where
  "day_text n = month_text (month_index n) @ ''-'' @ two_places (n - month_start (month_index n) + 1)"

definition read_date :: "string \<Rightarrow> int" where
  "read_date s =
     (case split_char CHR ''-'' s of
        [y, m] \<Rightarrow> month_start (12 * (read_year y - 1970) + int (parse_digits m) - 1)
      | [y, m, d] \<Rightarrow> month_start (12 * (read_year y - 1970) + int (parse_digits m) - 1) + int (parse_digits d) - 1
      | _ \<Rightarrow> 0)"

lemma parse_pad [simp]: "parse_digits (pad_start w CHR ''0'' s) = parse_digits s"
proof -
  have "foldl (\<lambda>acc d. acc * 10 + digit_val d) 0 (replicate k CHR ''0'' @ s) = foldl (\<lambda>acc d. acc * 10 + digit_val d) 0 s" for k
    by (induction k) (simp_all add: digit_val_def code_unit_def)
  then show ?thesis by (simp add: parse_digits_def pad_start_def)
qed

lemma digits_no_dash: "CHR ''-'' \<notin> set (pad_start w CHR ''0'' (show_nat n))" "CHR ''-'' \<notin> set (show_nat n)"
  using show_nat_digits [of "CHR ''-''" n] by (auto simp: pad_start_def is_digit_def code_unit_def)

lemma digits_no_letter: "take 1 (pad_start w CHR ''0'' (show_nat n)) \<noteq> ''B''"
proof
  assume a: "take 1 (pad_start w CHR ''0'' (show_nat n)) = ''B''"
  then have "CHR ''B'' \<in> set (pad_start w CHR ''0'' (show_nat n))" by (metis in_set_takeD list.set_intros(1))
  then show False using show_nat_digits [of "CHR ''B''" n] by (auto simp: pad_start_def is_digit_def code_unit_def)
qed

lemma read_year_text [simp]: "read_year (year_text y) = y"
  using digits_no_letter [of 4 "nat y"] by (simp add: read_year_def year_text_def)

lemma year_text_no_dash: "CHR ''-'' \<notin> set (year_text y)"
  using digits_no_dash by (simp add: year_text_def)

lemma read_month_text: "read_date (month_text mi) = month_start mi"
proof -
  have "split_char CHR ''-'' (month_text mi) = [year_text (1970 + mi div 12), two_places (mi mod 12 + 1)]"
    using split_char_append_sep [OF year_text_no_dash] digits_no_dash
    by (simp add: month_text_def two_places_def split_char_plain)
  then show ?thesis by (simp add: read_date_def two_places_def)
qed

section \<open>The instance\<close>

definition gregorian :: "int dayjs" where
  "gregorian =
     \<lparr>dj_parse = read_date,
      dj_start_of_month = (\<lambda>n. month_start (month_index n)),
      dj_end_of_month = (\<lambda>n. month_start (month_index n + 1) - 1),
      dj_day = (\<lambda>n. (n + 4) mod 7),
      dj_date = (\<lambda>n. n - month_start (month_index n) + 1),
      dj_add_days = (+),
      dj_add_months = (\<lambda>n k. let mi = month_index n + k in
         min (month_start mi + (n - month_start (month_index n))) (month_start (mi + 1) - 1)),
      dj_diff_days = (-),
      dj_iso = day_text,
      dj_month = (\<lambda>n. month_text (month_index n))\<rparr>"

interpretation gregorian: day_calendar gregorian id month_index
proof
  fix d d' k n :: int
  show "\<exists>c. \<forall>d. dj_day gregorian d = (id d + c) mod 7" by (auto simp: gregorian_def)
  show "id (dj_end_of_month gregorian d) - id (dj_start_of_month gregorian d) \<in> {27..30}"
    using month_length [of "month_index d"] by (simp add: gregorian_def)
  show "month_index d' = month_index d \<longleftrightarrow> id (dj_start_of_month gregorian d) \<le> id d' \<and> id d' \<le> id (dj_end_of_month gregorian d)"
    by (auto simp: gregorian_def month_index_eq)
  show "dj_month gregorian d = dj_month gregorian d' \<longleftrightarrow> month_index d = month_index d'"
    by (simp add: gregorian_def) (metis month_index_start read_month_text)
  show "month_index (dj_parse gregorian (dj_month gregorian d)) = month_index d"
    by (simp add: gregorian_def read_month_text)
  show "month_index (dj_add_months gregorian d k) = month_index d + k"
    using month_index_bounds [of d] month_start_mono [of "month_index d + k" "month_index d + k + 1"]
    by (auto simp: gregorian_def Let_def month_index_eq)
qed (simp_all add: gregorian_def)

section \<open>Properties\<close>

text \<open>C17: The grid of a month, for each first day of the week the settings offer (and any shift up to a week): four to
  six full weeks, every day of the month once, in order, with its number and its date, marked as of the current month
  and no other day so marked; every column has the name of its weekday.\<close>

theorem month_grid:
  assumes "day_calendar dj num mon" and "off \<in> {- 7..7}" and "length weekDays = 7"
  shows "let m = useCalendarMatrix dj month data weekDays off today sel;
      s = dj_start_of_month dj (dj_parse dj month); n = num (dj_end_of_month dj s) - num s + 1;
      start = fst (calculateCalendarBoundaries dj s off); days = concat (cm_weeks m) in
    list_all (\<lambda>w. length w = 7) (cm_weeks m) \<and> 4 \<le> length (cm_weeks m) \<and> length (cm_weeks m) \<le> 6
    \<and> days = map (\<lambda>i. createCalendarDayCell dj (dj_add_days dj start (int i)) (dj_month dj s) data today sel) [0..<length days]
    \<and> cm_weekDays m = map (\<lambda>i. weekDays ! nat (dj_day dj (dj_add_days dj start i))) [0..6]
    \<and> map cc_label (filter cc_isCurrentMonth days) = [1..n]
    \<and> map cc_date (filter cc_isCurrentMonth days) = map (\<lambda>i. dj_iso dj (dj_add_days dj s i)) [0..n - 1]"
  using day_calendar.matrix_days [OF assms(1)] assms(2,3) by simp

theorem month_grid_witness:
  "map cc_label (filter cc_isCurrentMonth (concat (cm_weeks
     (useCalendarMatrix gregorian ''2024-02'' [] [''Su'', ''Mo'', ''Tu'', ''We'', ''Th'', ''Fr'', ''Sa''] (- 1) [] [])))) = [1..29]"
proof -
  have "month_text 649 = ''2024-02''" by code_simp
  then have r: "read_date ''2024-02'' = month_start 649" using read_month_text [of 649] by simp
  have s: "dj_start_of_month gregorian (dj_parse gregorian ''2024-02'') = month_start 649"
    by (simp add: gregorian_def r)
  have "month_start 650 = month_start 649 + 29" by code_simp
  then have n: "id (dj_end_of_month gregorian (month_start 649)) - id (month_start 649) + 1 = 29"
    by (simp add: gregorian_def)
  show ?thesis
    using month_grid [OF gregorian.day_calendar_axioms, of "- 1" "[''Su'', ''Mo'', ''Tu'', ''We'', ''Th'', ''Fr'', ''Sa'']" "''2024-02''" "[]" "[]" "[]"]
    unfolding Let_def s n by simp
qed

text \<open>Next and previous are inverse on months, a year has its twelve months in a row, and the year stays between 1970
  and the next year.\<close>

theorem month_navigation:
  assumes "day_calendar dj num mon"
  shows "mon (dj_parse dj (handlePrevMonth dj (handleNextMonth dj m))) = mon (dj_parse dj m)
    \<and> map (\<lambda>m. mon (dj_parse dj m)) (generateMonthsForYear dj year)
        = map (\<lambda>i. mon (dj_parse dj (show_int year @ ''-01-01'')) + i) [0..11]
    \<and> list_all (\<lambda>y. MIN_YEAR \<le> y \<and> y \<le> getMaxYear now)
        (if MIN_YEAR \<le> year \<and> year \<le> getMaxYear now
         then List.map_filter id [yn_prev (year_calendar now year), yn_next (year_calendar now year)] else [])"
  using day_calendar.next_then_prev [OF assms] day_calendar.months_of_year [OF assms]
  by (simp add: year_calendar_def Let_def List.map_filter_def)

definition shade_rank :: "cell_style \<Rightarrow> nat" where
  "shade_rank s = (case s of Style_Empty \<Rightarrow> 0 | Style_Minimal \<Rightarrow> 1 | Style_Low \<Rightarrow> 2 | Style_Medium \<Rightarrow> 3 | Style_High \<Rightarrow> 4)"

definition shade_of :: "rat \<Rightarrow> cell_style" where
  "shade_of q = (if q > 3 / 4 then Style_High else if q > 1 / 2 then Style_Medium else if q > 1 / 4 then Style_Low else Style_Minimal)"

lemma shade_of_class:
  "cc_isCurrentMonth c \<Longrightarrow> cc_count c \<noteq> 0 \<Longrightarrow>
   getCellIntensityClass c m = shade_of (rat_of_int (cc_count c) / rat_of_int m)"
  by (simp add: getCellIntensityClass_def shade_of_def)

lemma shade_of_mono: "q \<le> q' \<Longrightarrow> shade_rank (shade_of q) \<le> shade_rank (shade_of q')"
  by (simp add: shade_of_def shade_rank_def)

lemma shade_of_pos: "0 < shade_rank (shade_of q)"
  by (simp add: shade_of_def shade_rank_def)

lemma shade_of_one: "shade_of 1 = Style_High"
  by (simp add: shade_of_def)

lemma max_count_fold: "n \<le> foldl (\<lambda>mx (_, c). max mx c) n data \<and> (\<forall>(d, c) \<in> set data. c \<le> foldl (\<lambda>mx (_, c). max mx c) n data)"
  for data :: calendar_data and n :: int
proof (induction data arbitrary: n)
  case (Cons x xs)
  have "max n (snd x) \<le> foldl (\<lambda>mx (_, c). max mx c) (max n (snd x)) xs"
    "\<forall>(d, c) \<in> set xs. c \<le> foldl (\<lambda>mx (_, c). max mx c) (max n (snd x)) xs"
    using Cons.IH [of "max n (snd x)"] by blast+
  then show ?case by (simp add: case_prod_unfold)
qed simp

lemma max_count_bound: "(d, c) \<in> set data \<Longrightarrow> c \<le> calculateMaxCount data"
  using max_count_fold [of 0 data] by (auto simp: calculateMaxCount_def)

text \<open>The shades of the calendar follow the counts of the data it is given: a day of the month with an activity is
  shaded, one with more activities is not lighter, and the busiest day of the data is dark.\<close>

theorem shades_follow_counts:
  assumes "(cc_date c, cc_count c) \<in> set data" and "(cc_date d, cc_count d) \<in> set data"
    and "cc_isCurrentMonth c" and "cc_isCurrentMonth d" and "0 < cc_count c" and "cc_count c \<le> cc_count d"
  shows "let shade = (\<lambda>x. getCellIntensityClass x (calculateMaxCount data)) in
    0 < shade_rank (shade c) \<and> shade_rank (shade c) \<le> shade_rank (shade d)
    \<and> (if cc_count d = calculateMaxCount data then shade d = Style_High else cc_count d < calculateMaxCount data)"
proof -
  define m where "m = rat_of_int (calculateMaxCount data)"
  have b: "cc_count c \<le> calculateMaxCount data" "cc_count d \<le> calculateMaxCount data"
    using max_count_bound assms(1,2) by blast+
  then have "0 < m" using assms(5) by (simp add: m_def)
  then have r: "rat_of_int (cc_count c) / m \<le> rat_of_int (cc_count d) / m"
    using assms(6) by (simp add: divide_right_mono)
  have e: "cc_count c \<noteq> 0" "cc_count d \<noteq> 0" using assms(5,6) by simp_all
  have "shade_of (rat_of_int (cc_count d) / m) = Style_High" if "cc_count d = calculateMaxCount data"
    using that \<open>0 < m\<close> shade_of_one by (simp add: m_def)
  then show ?thesis
    using shade_of_mono [OF r] shade_of_pos b(2) assms(3,4) e
    by (simp add: shade_of_class m_def [symmetric])
qed

theorem shades_follow_counts_witness:
  "let day = \<lparr>cc_date = ''2024-02-01'', cc_label = 1, cc_count = 3, cc_isCurrentMonth = True, cc_isToday = False, cc_isSelected = False\<rparr>
   in getCellIntensityClass day (calculateMaxCount [(''2024-02-01'', 3)]) = Style_High"
  using shades_follow_counts [of
      "\<lparr>cc_date = ''2024-02-01'', cc_label = 1, cc_count = 3, cc_isCurrentMonth = True, cc_isToday = False, cc_isSelected = False\<rparr>"
      "[(''2024-02-01'', 3)]"
      "\<lparr>cc_date = ''2024-02-01'', cc_label = 1, cc_count = 3, cc_isCurrentMonth = True, cc_isToday = False, cc_isSelected = False\<rparr>"]
  by (simp add: Let_def calculateMaxCount_def MIN_COUNT_def)

end
