(* ===== verification/JsonWriter.thy ===== *)
theory JsonWriter
  imports Json
begin

text \<open>
  \<open>JSON.stringify\<close> of whole values, and that \<open>JSON.parse\<close> reads back what it wrote. Numbers are integers
  below \<open>10^21\<close> (above, the language writes an exponent).
\<close>

section \<open>Writing\<close>

fun JSON_stringify :: "json \<Rightarrow> string" where
  "JSON_stringify JNull = ''null''"
| "JSON_stringify (JBool b) = (if b then ''true'' else ''false'')"
| "JSON_stringify (JNum q) = show_int \<lfloor>q\<rfloor>"
| "JSON_stringify (JStr s) = stringify_str s"
| "JSON_stringify (JArr vs) = ''['' @ join '','' (map JSON_stringify vs) @ '']''"
| "JSON_stringify (JObj ms) = ''{'' @ join '','' (map (\<lambda>m. stringify_str (fst m) @ '':'' @ JSON_stringify (snd m)) ms) @ ''}''"

fun plain :: "json \<Rightarrow> bool" where
  "plain (JNum q) \<longleftrightarrow> q \<in> \<int>"
| "plain (JArr vs) \<longleftrightarrow> (\<forall>v \<in> set vs. plain v)"
| "plain (JObj ms) \<longleftrightarrow> distinct (map fst ms) \<and> (\<forall>m \<in> set ms. plain (snd m))"
| "plain v \<longleftrightarrow> True"

section \<open>Reading back\<close>

text \<open>What may follow a value: nothing, a comma or a closing bracket.\<close>

definition tail_ok :: "string \<Rightarrow> bool" where
  "tail_ok r \<longleftrightarrow> r = [] \<or> hd r = CHR '','' \<or> hd r = CHR '']'' \<or> hd r = CHR ''}''"

lemma tail_ok_Cons [simp]: "tail_ok (CHR '','' # r)" "tail_ok (CHR '']'' # r)" "tail_ok (CHR ''}'' # r)" "tail_ok []"
  by (simp_all add: tail_ok_def)

lemma skip_mark [simp]:
  "skip_ws (CHR '','' # r) = CHR '','' # r" "skip_ws (CHR '']'' # r) = CHR '']'' # r"
  "skip_ws (CHR ''}'' # r) = CHR ''}'' # r" "skip_ws (CHR '':'' # r) = CHR '':'' # r"
  "skip_ws (quote_mark # r) = quote_mark # r"
  by (simp_all add: skip_ws_def json_ws_def code_unit_def)

text \<open>The first character of a value is neither blank nor a closing bracket.\<close>

definition head_ok :: "string \<Rightarrow> bool" where
  "head_ok s \<longleftrightarrow> s \<noteq> [] \<and> \<not> json_ws (hd s) \<and> hd s \<noteq> CHR '']'' \<and> hd s \<noteq> CHR ''}''"

lemma show_nat_hd: "show_nat n = c # r \<Longrightarrow> is_digit c"
  using show_nat_digits [of "hd (show_nat n)" n] by (cases "show_nat n") auto

lemma digit_not_mark: "is_digit c \<Longrightarrow> \<not> json_ws c \<and> c \<notin> {CHR '']'', CHR ''}'', CHR ''-'', quote_mark, CHR ''{'', CHR ''['',
    CHR ''t'', CHR ''f'', CHR ''n'', CHR ''.'', CHR ''e'', CHR ''E''}"
  by (auto simp: is_digit_def json_ws_def code_unit_def)

lemma head_ok_stringify: "head_ok (JSON_stringify v)"
proof (cases v)
  case (JNum q)
  obtain c r where "show_nat (nat \<lfloor>q\<rfloor>) = c # r" using show_nat_ne [of "nat \<lfloor>q\<rfloor>"] by (cases "show_nat (nat \<lfloor>q\<rfloor>)") auto
  with JNum show ?thesis using show_nat_hd [of "nat \<lfloor>q\<rfloor>" c r] digit_not_mark [of c]
    by (simp add: head_ok_def show_int_def) (simp add: json_ws_def code_unit_def)
qed (auto simp: head_ok_def json_ws_def code_unit_def stringify_str_def)

lemma skip_head [simp]: "head_ok s \<Longrightarrow> skip_ws (s @ r) = s @ r"
  by (cases s) (simp_all add: head_ok_def skip_ws_def)

section \<open>Numbers\<close>

lemma takeWhile_digits: "takeWhile is_digit (show_nat n @ r) = show_nat n @ takeWhile is_digit r"
  "dropWhile is_digit (show_nat n @ r) = dropWhile is_digit r"
  by (rule takeWhile_append2, erule show_nat_digits) (rule dropWhile_append2, erule show_nat_digits)

lemma show_nat_zero: "show_nat n = CHR ''0'' # r \<Longrightarrow> n = 0 \<and> r = []"
proof (induction n arbitrary: r rule: show_nat.induct)
  case (1 n)
  have z: "digit_val CHR ''0'' = 0" by (simp add: digit_val_def code_unit_def)
  have d: "n = 0" if "digit_char n = CHR ''0''" "n < 10"
    using digit_val_char [of n] that z by simp
  show ?case
  proof (cases "n < 10")
    case True
    then show ?thesis using 1(2) d by (simp add: show_nat.simps [of n])
  next
    case False
    then obtain r' where "show_nat (n div 10) = CHR ''0'' # r'"
      using 1(2) show_nat_ne [of "n div 10"] by (cases "show_nat (n div 10)") (auto simp: show_nat.simps [of n])
    then have "n div 10 = 0" using 1(1) [OF False] by blast
    then show ?thesis using False by simp
  qed
qed

lemma int_part_show: "tail_ok r \<Longrightarrow> int_part (show_nat n @ r) = Some (n, r)"
proof -
  assume r: "tail_ok r"
  then have t: "takeWhile is_digit r = []" "dropWhile is_digit r = r"
    by (cases r; auto simp: tail_ok_def is_digit_def code_unit_def)+
  obtain c cs where c: "show_nat n = c # cs" using show_nat_ne [of n] by (cases "show_nat n") auto
  show ?thesis
  proof (cases "c = CHR ''0''")
    case True
    then show ?thesis using show_nat_zero [of n cs] c by (simp add: int_part_def)
  next
    case False
    have "int_part (show_nat n @ r) = Some (parse_digits (takeWhile is_digit (show_nat n @ r)), dropWhile is_digit (show_nat n @ r))"
      using False show_nat_hd [OF c] by (simp add: int_part_def c)
    then show ?thesis by (simp add: takeWhile_digits t)
  qed
qed

lemma number_rest: "tail_ok r \<Longrightarrow> frac_part r = Some (0, r) \<and> exp_part r = Some (1, r)"
  by (cases r) (auto simp: tail_ok_def frac_part_def exp_part_def)

lemma json_number_show: "tail_ok r \<Longrightarrow> json_number (show_int i @ r) = Some (of_int i, r)"
proof -
  assume r: "tail_ok r"
  show ?thesis
  proof (cases "i < 0")
    case True
    then show ?thesis using int_part_show [OF r, of "nat (- i)"] number_rest [OF r]
      by (simp add: json_number_def show_int_def of_nat_nat)
  next
    case False
    obtain c cs where c: "show_nat (nat i) = c # cs" using show_nat_ne [of "nat i"] by (cases "show_nat (nat i)") auto
    then have "\<not> startsWith (show_nat (nat i) @ r) ''-''" using show_nat_hd [OF c] digit_not_mark [of c] by auto
    then show ?thesis using False int_part_show [OF r, of "nat i"] number_rest [OF r]
      by (simp add: json_number_def show_int_def of_nat_nat)
  qed
qed

section \<open>Values\<close>

text \<open>With enough fuel a value is read back, whatever may follow it.\<close>

definition reads :: "json \<Rightarrow> bool" where
  "reads v \<longleftrightarrow> (\<forall>r. tail_ok r \<longrightarrow> (\<exists>N. \<forall>n \<ge> N. json_value n (JSON_stringify v @ r) = Some (v, r)))"

lemma from_Suc: "(\<forall>n \<ge> Suc N. P n) \<longleftrightarrow> (\<forall>n \<ge> N. P (Suc n))"
  by (metis Suc_le_D Suc_le_mono)

lemma readsI:
  assumes "\<And>r. tail_ok r \<Longrightarrow> \<exists>N. \<forall>n \<ge> N. json_value (Suc n) (JSON_stringify v @ r) = Some (v, r)"
  shows "reads v"
  unfolding reads_def
proof (intro allI impI)
  fix r assume "tail_ok r"
  then obtain N where "\<forall>n \<ge> N. json_value (Suc n) (JSON_stringify v @ r) = Some (v, r)" using assms by blast
  then have "\<forall>n \<ge> Suc N. json_value n (JSON_stringify v @ r) = Some (v, r)" unfolding from_Suc .
  then show "\<exists>N. \<forall>n \<ge> N. json_value n (JSON_stringify v @ r) = Some (v, r)" by blast
qed

lemma reads_scalars: "reads JNull" "reads (JBool b)" "reads (JStr s)" "q \<in> \<int> \<Longrightarrow> reads (JNum q)"
proof -
  have w: "skip_ws (CHR ''n'' # x) = CHR ''n'' # x" "skip_ws (CHR ''t'' # x) = CHR ''t'' # x"
    "skip_ws (CHR ''f'' # x) = CHR ''f'' # x" for x
    by (simp_all add: skip_ws_def json_ws_def code_unit_def)
  show "reads JNull" by (rule readsI) (simp add: w)
  show "reads (JBool b)" by (rule readsI) (simp add: w)
  show "reads (JStr s)"
  proof (rule readsI)
    fix r
    have "string_body (concat (map escape_char s) @ quote_mark # r) = Some (s, r)" by (rule string_body_escape)
    then show "\<exists>N. \<forall>n \<ge> N. json_value (Suc n) (JSON_stringify (JStr s) @ r) = Some (JStr s, r)"
      by (simp add: stringify_str_def)
  qed
  assume "q \<in> \<int>"
  then obtain i where q: "q = of_int i" by (auto elim: Ints_cases)
  show "reads (JNum q)"
  proof (rule readsI)
    fix r assume r: "tail_ok r"
    obtain c cs where c: "show_int i @ r = c # cs" "is_digit c \<or> c = CHR ''-''"
    proof (cases "i < 0")
      case True
      then show ?thesis using that by (simp add: show_int_def)
    next
      case False
      obtain d ds where "show_nat (nat i) = d # ds" using show_nat_ne [of "nat i"] by (cases "show_nat (nat i)") auto
      then show ?thesis using that False show_nat_hd [of "nat i" d ds] by (simp add: show_int_def)
    qed
    have "c \<notin> {quote_mark, CHR ''{'', CHR ''['', CHR ''t'', CHR ''f'', CHR ''n''} \<and> \<not> json_ws c"
      using c(2) digit_not_mark [of c] by (auto simp: json_ws_def code_unit_def)
    then have "json_value (Suc n) (show_int i @ r) = map_option (\<lambda>(q, u). (JNum q, u)) (json_number (show_int i @ r))" for n
      unfolding c(1) by (simp add: skip_ws_def)
    then show "\<exists>N. \<forall>n \<ge> N. json_value (Suc n) (JSON_stringify (JNum q) @ r) = Some (JNum q, r)"
      using json_number_show [OF r, of i] by (simp add: q)
  qed
qed

lemma element_read:
  assumes "\<forall>n \<ge> N. json_value n (JSON_stringify v @ c # t) = Some (v, c # t)" and "c = CHR '','' \<or> c = CHR '']''" and "N \<le> n"
  shows "json_elements (Suc n) (JSON_stringify v @ c # t)
    = (if c = CHR '']'' then Some ([v], t) else map_option (\<lambda>(vs, u). (v # vs, u)) (json_elements n t))"
  using assms by auto

declare json_elements.simps [simp del] json_members.simps [simp del]

lemma elements_read:
  assumes "vs \<noteq> []" and "\<forall>v \<in> set vs. reads v"
  shows "\<exists>N. \<forall>n \<ge> N. json_elements n (join '','' (map JSON_stringify vs) @ CHR '']'' # r) = Some (vs, r)"
  using assms
proof (induction vs)
  case (Cons v vs)
  show ?case
  proof (cases "vs = []")
    case True
    obtain N where "\<forall>n \<ge> N. json_value n (JSON_stringify v @ CHR '']'' # r) = Some (v, CHR '']'' # r)"
      using Cons.prems(2) tail_ok_Cons(2) by (fastforce simp: reads_def)
    then have "\<forall>n \<ge> Suc N. json_elements n (JSON_stringify v @ CHR '']'' # r) = Some ([v], r)"
      unfolding from_Suc using element_read by simp
    then show ?thesis using True by auto
  next
    case False
    define t where "t = join '','' (map JSON_stringify vs) @ CHR '']'' # r"
    obtain N where N: "\<forall>n \<ge> N. json_value n (JSON_stringify v @ CHR '','' # t) = Some (v, CHR '','' # t)"
      using Cons.prems(2) tail_ok_Cons(1) by (fastforce simp: reads_def)
    obtain M where M: "\<forall>n \<ge> M. json_elements n t = Some (vs, r)"
      using Cons.IH [OF False] Cons.prems(2) by (auto simp: t_def)
    have whole: "join '','' (map JSON_stringify (v # vs)) @ CHR '']'' # r = JSON_stringify v @ CHR '','' # t"
      using False by (simp add: join_Cons t_def)
    have "\<forall>n \<ge> Suc (max N M). json_elements n (JSON_stringify v @ CHR '','' # t) = Some (v # vs, r)"
      unfolding from_Suc using element_read [OF N] M by simp
    then show ?thesis unfolding whole by blast
  qed
qed simp

definition member_text :: "string \<times> json \<Rightarrow> string" where
  "member_text m = stringify_str (fst m) @ '':'' @ JSON_stringify (snd m)"

lemma update_new: "k \<notin> fst ` set ms \<Longrightarrow> AList.update k v ms = ms @ [(k, v)]"
  by (induction ms) auto

lemma member_read:
  assumes N: "\<forall>n \<ge> N. json_value n (JSON_stringify v @ c # t) = Some (v, c # t)" and c: "c = CHR '','' \<or> c = CHR ''}''" and "N \<le> n"
  shows "json_members (Suc n) ms (member_text (k, v) @ c # t)
    = (if c = CHR ''}'' then Some (AList.update k v ms, t) else json_members n (AList.update k v ms) t)"
proof -
  have b: "string_body (concat (map escape_char k) @ quote_mark # CHR '':'' # JSON_stringify v @ c # t)
      = Some (k, CHR '':'' # JSON_stringify v @ c # t)"
    by (rule string_body_escape)
  have s: "skip_ws (c # t) = c # t" using c by auto
  have v: "json_value n (JSON_stringify v @ c # t) = Some (v, c # t)" using N assms(3) by blast
  show ?thesis using b s v c by (auto simp: member_text_def stringify_str_def json_members.simps)
qed

lemma members_read:
  assumes "ms \<noteq> []" and "\<forall>m \<in> set ms. reads (snd m)" and "distinct (map fst (acc @ ms))"
  shows "\<exists>N. \<forall>n \<ge> N. json_members n acc (join '','' (map member_text ms) @ CHR ''}'' # r) = Some (acc @ ms, r)"
  using assms
proof (induction ms arbitrary: acc)
  case (Cons m ms)
  obtain k v where m: "m = (k, v)" by fastforce
  have up: "AList.update k v acc = acc @ [(k, v)]" using Cons.prems(3) m by (intro update_new) auto
  show ?case
  proof (cases "ms = []")
    case True
    obtain N where N: "\<forall>n \<ge> N. json_value n (JSON_stringify v @ CHR ''}'' # r) = Some (v, CHR ''}'' # r)"
      using Cons.prems(2) tail_ok_Cons(3) m by (fastforce simp: reads_def)
    have "\<forall>n \<ge> Suc N. json_members n acc (member_text (k, v) @ CHR ''}'' # r) = Some (acc @ [(k, v)], r)"
      unfolding from_Suc using member_read [OF N, of _ acc k] up by simp
    then show ?thesis using True m by auto
  next
    case False
    define t where "t = join '','' (map member_text ms) @ CHR ''}'' # r"
    obtain N where N: "\<forall>n \<ge> N. json_value n (JSON_stringify v @ CHR '','' # t) = Some (v, CHR '','' # t)"
      using Cons.prems(2) tail_ok_Cons(1) m by (fastforce simp: reads_def)
    obtain M where M: "\<forall>n \<ge> M. json_members n (acc @ [(k, v)]) t = Some ((acc @ [(k, v)]) @ ms, r)"
      using Cons.IH [OF False, of "acc @ [(k, v)]"] Cons.prems(2,3) m by (auto simp: t_def)
    have whole: "join '','' (map member_text (m # ms)) @ CHR ''}'' # r = member_text (k, v) @ CHR '','' # t"
      using False by (simp add: join_Cons t_def m)
    have "\<forall>n \<ge> Suc (max N M). json_members n acc (member_text (k, v) @ CHR '','' # t) = Some (acc @ m # ms, r)"
      unfolding from_Suc using member_read [OF N, of _ acc k] M up m by simp
    then show ?thesis unfolding whole by blast
  qed
qed simp

lemma reads_array:
  assumes "\<forall>v \<in> set vs. reads v"
  shows "reads (JArr vs)"
proof (rule readsI)
  fix r
  show "\<exists>N. \<forall>n \<ge> N. json_value (Suc n) (JSON_stringify (JArr vs) @ r) = Some (JArr vs, r)"
  proof (cases "vs = []")
    case True
    then show ?thesis by (simp add: skip_ws_def json_ws_def code_unit_def)
  next
    case False
    define t where "t = join '','' (map JSON_stringify vs) @ CHR '']'' # r"
    obtain w ws where vs: "vs = w # ws" using False by (cases vs) auto
    have "head_ok t" using head_ok_stringify [of w] vs
      by (cases "ws = []") (auto simp: t_def join_Cons head_ok_def)
    then have s: "skip_ws t = t" "\<not> startsWith t '']''" using skip_head [of t "[]"] by (auto simp: head_ok_def startsWith_single)
    obtain N where "\<forall>n \<ge> N. json_elements n t = Some (vs, r)"
      using elements_read [OF False assms] unfolding t_def by blast
    then show ?thesis using s by (auto simp: t_def [symmetric] skip_ws_def [of "CHR ''['' # _"] json_ws_def code_unit_def)
  qed
qed

lemma reads_object:
  assumes "\<forall>m \<in> set ms. reads (snd m)" and "distinct (map fst ms)"
  shows "reads (JObj ms)"
proof (rule readsI)
  fix r
  show "\<exists>N. \<forall>n \<ge> N. json_value (Suc n) (JSON_stringify (JObj ms) @ r) = Some (JObj ms, r)"
  proof (cases "ms = []")
    case True
    then show ?thesis by (simp add: skip_ws_def json_ws_def code_unit_def)
  next
    case False
    define t where "t = join '','' (map member_text ms) @ CHR ''}'' # r"
    obtain w ws where ms: "ms = w # ws" using False by (cases ms) auto
    have "head_ok t" using ms
      by (cases "ws = []") (auto simp: t_def join_Cons head_ok_def member_text_def stringify_str_def json_ws_def code_unit_def)
    then have s: "skip_ws t = t" "\<not> startsWith t ''}''" using skip_head [of t "[]"] by (auto simp: head_ok_def startsWith_single)
    obtain N where "\<forall>n \<ge> N. json_members n [] t = Some (ms, r)"
      using members_read [OF False assms(1), of "[]" r] assms(2) unfolding t_def by auto
    moreover have "JSON_stringify (JObj ms) @ r = CHR ''{'' # t" by (simp add: t_def member_text_def [abs_def])
    ultimately show ?thesis using s by (auto simp: skip_ws_def [of "CHR ''{'' # _"] json_ws_def code_unit_def)
  qed
qed

lemma plain_reads: "plain v \<Longrightarrow> reads v"
proof (induction v rule: plain.induct)
  case (1 q)
  then show ?case using reads_scalars(4) by simp
next
  case (2 vs)
  then show ?case using reads_array by simp
next
  case (3 ms)
  then show ?case using reads_object by auto
qed (use reads_scalars in auto)

lemma parse_stringify_value: "plain v \<Longrightarrow> JSON_parse (JSON_stringify v) = Some v"
proof -
  assume "plain v"
  then obtain N where N: "\<forall>n \<ge> N. json_value n (JSON_stringify v @ []) = Some (v, [])"
    using plain_reads tail_ok_Cons(4) unfolding reads_def by blast
  let ?s = "JSON_stringify v"
  have "json_value (max N (2 * length ?s + 2)) ?s = json_value (2 * length ?s + 2) ?s" by (rule parse_fuel) simp
  moreover have "json_value (max N (2 * length ?s + 2)) ?s = Some (v, [])" using N by simp
  ultimately show ?thesis by (simp add: JSON_parse_def skip_ws_def)
qed

end
