(* ===== verification/ViewSettings.thy ===== *)
theory ViewSettings
  imports JsonWriter MemoLists
begin

text \<open>
  The view settings of the memo lists (\<^verbatim>\<open>contexts/ViewContext.tsx\<close>): how they are read from the local
  storage, changed, and written back. The storage is a text, or none; reading and writing may throw.
\<close>

section \<open>State\<close>

record view_state =
  vs_orderByTimeAsc :: bool
  vs_timeBasis :: "time_basis option"
  vs_compactMode :: bool
  vs_linkPreview :: bool

definition DEFAULT_VIEW_STATE :: view_state where
  "DEFAULT_VIEW_STATE = \<lparr>vs_orderByTimeAsc = False, vs_timeBasis = None, vs_compactMode = False, vs_linkPreview = True\<rparr>"

section \<open>Reading\<close>

text \<open>A property of a parsed value: \<open>None\<close> stands for undefined; reading one of \<open>null\<close> throws.\<close>

definition json_property :: "json \<Rightarrow> string \<Rightarrow> json option" where
  "json_property v k = (case v of JObj ms \<Rightarrow> map_of ms k | _ \<Rightarrow> None)"

text \<open>\<open>a ?? b\<close>: the second when the first is null or undefined.\<close>

definition nullish :: "json option \<Rightarrow> json option \<Rightarrow> json option" where
  "nullish a b = (case a of None \<Rightarrow> b | Some JNull \<Rightarrow> b | Some v \<Rightarrow> Some v)"

text \<open>\<open>Boolean(v)\<close>.\<close>

definition truthy :: "json option \<Rightarrow> bool" where
  "truthy v =
     (case v of
        None \<Rightarrow> False
      | Some JNull \<Rightarrow> False
      | Some (JBool b) \<Rightarrow> b
      | Some (JNum q) \<Rightarrow> q \<noteq> 0
      | Some (JStr s) \<Rightarrow> s \<noteq> []
      | Some _ \<Rightarrow> True)"

definition cached_basis :: "json option \<Rightarrow> time_basis option" where
  "cached_basis v =
     (case v of
        Some (JStr s) \<Rightarrow> if s = ''create_time'' then Some Create_Time else if s = ''update_time'' then Some Update_Time else None
      | _ \<Rightarrow> None)"

definition read_view_state :: "json \<Rightarrow> view_state" where
  "read_view_state data =
     \<lparr>vs_orderByTimeAsc = truthy (nullish (json_property data ''orderByTimeAsc'') (Some (JBool (vs_orderByTimeAsc DEFAULT_VIEW_STATE)))),
      vs_timeBasis = cached_basis (nullish (json_property data ''timeBasis'') (json_property data ''sortTimeField'')),
      vs_compactMode = truthy (nullish (json_property data ''compactMode'') (Some (JBool (vs_compactMode DEFAULT_VIEW_STATE)))),
      vs_linkPreview = truthy (nullish (json_property data ''linkPreview'') (Some (JBool (vs_linkPreview DEFAULT_VIEW_STATE))))\<rparr>"

text \<open>The first argument is what \<open>getItem\<close> gives: \<open>None\<close> when it throws, \<open>Some None\<close> when nothing is stored.\<close>

definition getInitialState :: "string option option \<Rightarrow> view_state" where
  "getInitialState item =
     (case item of
        None \<Rightarrow> DEFAULT_VIEW_STATE
      | Some None \<Rightarrow> DEFAULT_VIEW_STATE
      | Some (Some cached) \<Rightarrow>
          if cached = [] then DEFAULT_VIEW_STATE
          else
            (case JSON_parse cached of
               None \<Rightarrow> DEFAULT_VIEW_STATE
             | Some JNull \<Rightarrow> DEFAULT_VIEW_STATE
             | Some data \<Rightarrow> read_view_state data))"

section \<open>Writing\<close>

text \<open>A field that is undefined is not written.\<close>

definition view_json :: "view_state \<Rightarrow> json" where
  "view_json s = JObj (
     [(''orderByTimeAsc'', JBool (vs_orderByTimeAsc s))]
     @ (case vs_timeBasis s of None \<Rightarrow> [] | Some b \<Rightarrow> [(''timeBasis'', JStr (basis_text b))])
     @ [(''compactMode'', JBool (vs_compactMode s)), (''linkPreview'', JBool (vs_linkPreview s))])"

record view_context =
  vc_state :: view_state
  vc_stored :: "string option"

text \<open>\<open>writable\<close>: whether \<open>setItem\<close> succeeds; the exception is caught.\<close>

definition persistToStorage :: "bool \<Rightarrow> view_state \<Rightarrow> string option \<Rightarrow> string option" where
  "persistToStorage writable newState stored = (if writable then Some (JSON_stringify (view_json newState)) else stored)"

definition updateState :: "bool \<Rightarrow> (view_state \<Rightarrow> view_state) \<Rightarrow> view_context \<Rightarrow> view_context" where
  "updateState writable patch c =
     (let newState = patch (vc_state c) in
      \<lparr>vc_state = newState, vc_stored = persistToStorage writable newState (vc_stored c)\<rparr>)"

datatype view_action = Toggle_Sort_Order | Set_Time_Basis time_basis | Set_Compact_Mode bool | Set_Link_Preview bool

definition view_patch :: "view_action \<Rightarrow> view_state \<Rightarrow> view_state" where
  "view_patch a prev =
     (case a of
        Toggle_Sort_Order \<Rightarrow> prev\<lparr>vs_orderByTimeAsc := \<not> vs_orderByTimeAsc prev\<rparr>
      | Set_Time_Basis b \<Rightarrow> prev\<lparr>vs_timeBasis := Some b\<rparr>
      | Set_Compact_Mode v \<Rightarrow> prev\<lparr>vs_compactMode := v\<rparr>
      | Set_Link_Preview v \<Rightarrow> prev\<lparr>vs_linkPreview := v\<rparr>)"

definition view_step :: "view_context \<Rightarrow> bool \<times> view_action \<Rightarrow> view_context" where
  "view_step c e = updateState (fst e) (view_patch (snd e)) c"

definition view_mount :: "string option \<Rightarrow> view_context" where
  "view_mount stored = \<lparr>vc_state = getInitialState (Some stored), vc_stored = stored\<rparr>"

definition shown_time_basis :: "view_state \<Rightarrow> time_basis" where
  "shown_time_basis s = (case vs_timeBasis s of None \<Rightarrow> Create_Time | Some b \<Rightarrow> b)"

text \<open>Outside a provider the link preview is on.\<close>

definition useLinkPreviewEnabled :: "view_state option \<Rightarrow> bool" where
  "useLinkPreviewEnabled c = (case c of None \<Rightarrow> vs_linkPreview DEFAULT_VIEW_STATE | Some s \<Rightarrow> vs_linkPreview s)"

section \<open>The storage hook\<close>

text \<open>
  \<^verbatim>\<open>hooks/useLocalStorage.ts\<close>: a value of the local storage as state. What is stored is taken as it is
  parsed; \<open>hl_readable\<close> and \<open>hl_writable\<close> say whether the storage throws.
\<close>

record local_hook =
  hl_key :: string
  hl_value :: json
  hl_store :: "string \<rightharpoonup> string"
  hl_readable :: bool
  hl_writable :: bool

definition readLocalStorageValue :: "bool \<Rightarrow> (string \<rightharpoonup> string) \<Rightarrow> string \<Rightarrow> json \<Rightarrow> json" where
  "readLocalStorageValue readable store key defaultValue =
     (if \<not> readable then defaultValue
      else case store key of
             None \<Rightarrow> defaultValue
           | Some storedValue \<Rightarrow> (case JSON_parse storedValue of None \<Rightarrow> defaultValue | Some v \<Rightarrow> v))"

definition hook_key_changed :: "string \<Rightarrow> json \<Rightarrow> local_hook \<Rightarrow> local_hook" where
  "hook_key_changed key defaultValue h =
     h\<lparr>hl_key := key, hl_value := readLocalStorageValue (hl_readable h) (hl_store h) key defaultValue\<rparr>"

definition setValue :: "(json \<Rightarrow> json) \<Rightarrow> local_hook \<Rightarrow> local_hook" where
  "setValue f h =
     (let nextValue = f (hl_value h) in
      h\<lparr>hl_value := nextValue,
        hl_store := (if hl_writable h then (hl_store h)(hl_key h \<mapsto> JSON_stringify nextValue) else hl_store h)\<rparr>)"

section \<open>Properties\<close>

lemma read_written: "read_view_state (view_json s) = s"
proof -
  have "cached_basis (Some (JStr (basis_text b))) = Some b" for b
    by (cases b) (simp_all add: cached_basis_def basis_text_def)
  then show ?thesis
    by (cases "vs_timeBasis s")
      (simp_all add: read_view_state_def view_json_def json_property_def nullish_def truthy_def cached_basis_def)
qed

lemma plain_view_json: "plain (view_json s)"
  by (simp add: view_json_def split: option.split)

lemma reopen: "getInitialState (Some (Some (JSON_stringify (view_json s)))) = s"
proof -
  have "JSON_stringify (view_json s) \<noteq> []" by (simp add: view_json_def)
  moreover have "\<exists>ms. view_json s = JObj ms" by (simp add: view_json_def)
  ultimately show ?thesis
    using parse_stringify_value [OF plain_view_json, of s] read_written [of s]
    by (auto simp: getInitialState_def)
qed

text \<open>C18: The view settings survive a reload: whatever text was stored before, after any changes the storage holds
  exactly what is shown, so the page opens with the same settings again; and when nothing can be written, with those
  of the last change that could.\<close>

theorem view_settings_survive:
  "let c = foldl view_step (view_mount stored) es;
       written = foldl view_step (view_mount stored) (rev (dropWhile (\<lambda>e. \<not> fst e) (rev es))) in
   getInitialState (Some (vc_stored c)) = vc_state written
   \<and> (if list_all fst es then written = c else vc_stored c = vc_stored written)"
proof -
  define run where "run xs = foldl view_step (view_mount stored) xs" for xs
  have snoc: "run (xs @ [e]) = view_step (run xs) e" for xs e by (simp add: run_def)
  have last: "getInitialState (Some (vc_stored (run (rev (dropWhile (\<lambda>e. \<not> fst e) (rev xs))))))
      = vc_state (run (rev (dropWhile (\<lambda>e. \<not> fst e) (rev xs))))
    \<and> vc_stored (run xs) = vc_stored (run (rev (dropWhile (\<lambda>e. \<not> fst e) (rev xs))))" for xs
  proof (induction xs rule: rev_induct)
    case Nil
    then show ?case by (simp add: run_def view_mount_def)
  next
    case (snoc e xs)
    show ?case
    proof (cases "fst e")
      case True
      then show ?thesis using reopen
        by (simp add: \<open>\<And>xs e. run (xs @ [e]) = view_step (run xs) e\<close> view_step_def updateState_def Let_def persistToStorage_def)
    next
      case False
      then show ?thesis using snoc.IH
        by (simp add: \<open>\<And>xs e. run (xs @ [e]) = view_step (run xs) e\<close> view_step_def updateState_def Let_def persistToStorage_def)
    qed
  qed
  have "dropWhile (\<lambda>e. \<not> fst e) (rev es) = rev es" if "list_all fst es"
    using that by (cases "rev es") (auto simp: list_all_iff rev_swap)
  then show ?thesis using last [of es] by (auto simp: run_def Let_def)
qed

text \<open>What is set is what the next reading gives, for its key and no other.\<close>

theorem local_value_restored:
  assumes "plain (f (hl_value h))" and "hl_writable h"
  shows "readLocalStorageValue True (hl_store (setValue f h)) key d
    = (if key = hl_key h then hl_value (setValue f h) else readLocalStorageValue True (hl_store h) key d)"
  using parse_stringify_value [OF assms(1)] assms(2)
  by (simp add: setValue_def Let_def readLocalStorageValue_def)

end
