(* ===== verification/Routing.thy ===== *)
theory Routing
  imports AuthFlow MemoFilters
begin

text \<open>
  The pages and their guards (\<^verbatim>\<open>router/index.tsx\<close>, \<^verbatim>\<open>router/guards.tsx\<close>), and the places that
  navigate with a filter: a click on a tag (\<^verbatim>\<open>MemoContent/Tag.tsx\<close>) and on a day
  (\<^verbatim>\<open>hooks/useDateFilterNavigation.ts\<close>). The router of the library finds the leaf of the tree for a path
  (\<open>mt\<close>), and the browser decodes the parameters of an address (\<open>dec\<close>); both are arguments.
\<close>

section \<open>Addresses\<close>

definition split_first :: "char \<Rightarrow> string \<Rightarrow> string \<times> string" where
  "split_first c s = (takeWhile (\<lambda>x. x \<noteq> c) s, dropWhile (\<lambda>x. x \<noteq> c) s)"

text \<open>The router's own parsing of a target: the fragment first, then the query.\<close>

definition parse_path :: "string \<Rightarrow> window_location" where
  "parse_path t =
     (let (rest, hash) = split_first CHR ''#'' t; (path, search) = split_first CHR ''?'' rest in
      \<lparr>wl_pathname = path, wl_search = search, wl_hash = hash\<rparr>)"

definition full_path :: "window_location \<Rightarrow> string" where
  "full_path loc = wl_pathname loc @ wl_search loc @ wl_hash loc"

text \<open>\<open>searchParams.get\<close>: the value of the first parameter of that name.\<close>

definition search_get :: "(string \<Rightarrow> string) \<Rightarrow> string \<Rightarrow> string \<Rightarrow> string option" where
  "search_get dec search k =
     (let body = (if startsWith search ''?'' then tl search else search);
          pairs = map (\<lambda>p. (dec (fst (split_first CHR ''='' p)), dec (tl (snd (split_first CHR ''='' p))))) (split_char CHR ''&'' body) in
      map_of pairs k)"

section \<open>The tree of routes\<close>

datatype leaf =
    Leaf_Callback | Leaf_SignIn | Leaf_Admin | Leaf_SignUp | Leaf_HomeAlias | Leaf_Home | Leaf_About | Leaf_Explore
  | Leaf_User | Leaf_Archived | Leaf_Shortcuts | Leaf_Memo | Leaf_SharedMemo | Leaf_Attachments | Leaf_Inbox | Leaf_Setting
  | Leaf_403 | Leaf_404 | Leaf_Any

datatype guard = LandingRoute | RequireAuthRoute | RequireGuestRoute | NavigateHome

definition ROUTES_HOME :: string where
  "ROUTES_HOME = ''/''"

text \<open>The guards above each leaf, from the outside in.\<close>

definition route_guards :: "leaf \<Rightarrow> guard list" where
  "route_guards l =
     (if l \<in> {Leaf_SignIn, Leaf_Admin, Leaf_SignUp} then [RequireGuestRoute]
      else if l = Leaf_HomeAlias then [NavigateHome]
      else if l = Leaf_Home then [LandingRoute]
      else if l \<in> {Leaf_Archived, Leaf_Shortcuts, Leaf_Attachments, Leaf_Inbox, Leaf_Setting} then [RequireAuthRoute]
      else [])"

text \<open>Where a guard sends the visitor; \<open>None\<close> when it lets the page through.\<close>

definition guard_target :: "(string \<Rightarrow> string) \<Rightarrow> bool \<Rightarrow> window_location \<Rightarrow> guard \<Rightarrow> string option" where
  "guard_target dec currentUser loc g =
     (case g of
        LandingRoute \<Rightarrow> if \<not> currentUser then Some (ROUTES_EXPLORE @ wl_search loc @ wl_hash loc) else None
      | RequireAuthRoute \<Rightarrow> if \<not> currentUser then Some (buildAuthRoute (Some (full_path loc)) None) else None
      | RequireGuestRoute \<Rightarrow>
          if currentUser then
            Some (case getSafeRedirectPath (search_get dec (wl_search loc) AUTH_REDIRECT_PARAM) of None \<Rightarrow> ROUTES_HOME | Some p \<Rightarrow> p)
          else None
      | NavigateHome \<Rightarrow> Some ROUTES_HOME)"

definition route_target :: "(string \<Rightarrow> string) \<Rightarrow> (string \<Rightarrow> leaf) \<Rightarrow> bool \<Rightarrow> window_location \<Rightarrow> string option" where
  "route_target dec mt currentUser loc =
     (case List.map_filter (guard_target dec currentUser loc) (route_guards (mt (wl_pathname loc))) of [] \<Rightarrow> None | t # _ \<Rightarrow> Some t)"

text \<open>The page that is shown in the end, with its address.\<close>

partial_function (option) visit ::
  "(string \<Rightarrow> string) \<Rightarrow> (string \<Rightarrow> leaf) \<Rightarrow> bool \<Rightarrow> window_location \<Rightarrow> (leaf \<times> window_location) option" where
  "visit dec mt currentUser loc =
     (case route_target dec mt currentUser loc of
        None \<Rightarrow> Some (mt (wl_pathname loc), loc)
      | Some t \<Rightarrow> visit dec mt currentUser (parse_path t))"

section \<open>Navigation with a filter\<close>

datatype tag_click = Navigate_To string "(string \<times> string) list" | Filters_Changed filter_state

definition handleTagClick :: "string \<Rightarrow> string option \<Rightarrow> string \<Rightarrow> filter_state \<Rightarrow> tag_click" where
  "handleTagClick pathname parentPage tag s =
     (if startsWith pathname ''/m'' then
        Navigate_To (case parentPage of None \<Rightarrow> ROUTES_HOME | Some p \<Rightarrow> if p = [] then ROUTES_HOME else p)
          [(''filter'', stringifyFilters [\<lparr>mf_factor = ''tagSearch'', mf_value = tag\<rparr>])]
      else
        let isActive = list_ex (\<lambda>f. mf_value f = tag) (getFiltersByFactor ''tagSearch'' s) in
        Filters_Changed
          (if isActive then removeFilter (\<lambda>f. mf_factor f = ''tagSearch'' \<and> mf_value f = tag) s
           else addFilter \<lparr>mf_factor = ''tagSearch'', mf_value = tag\<rparr> (removeFilter (\<lambda>f. mf_factor f = ''tagSearch'') s)))"

definition navigateToDateFilter :: "string option \<Rightarrow> string \<Rightarrow> string \<Rightarrow> string" where
  "navigateToDateFilter targetPath pathname date =
     (let filterQuery = stringifyFilters [\<lparr>mf_factor = ''displayTime'', mf_value = date\<rparr>];
          basePath = (case targetPath of None \<Rightarrow> pathname | Some p \<Rightarrow> p) in
      basePath @ ''?filter='' @ filterQuery)"

section \<open>What the guards rely on\<close>

text \<open>
  The browser's decoding undoes its encoding and never lengthens a text; the router matches the three static
  paths the guards name.
\<close>

locale address_bar =
  fixes dec :: "string \<Rightarrow> string" and mt :: "string \<Rightarrow> leaf"
  assumes dec_encode: "dec (form_encode s) = s"
    and dec_length: "length (dec s) \<le> length s"
    and match_auth: "mt ROUTES_AUTH = Leaf_SignIn"
    and match_explore: "mt ROUTES_EXPLORE = Leaf_Explore"
    and match_home: "mt ROUTES_HOME = Leaf_Home"
begin

lemma search_get_length: "search_get dec search k = Some v \<Longrightarrow> length v \<le> length search"
proof -
  assume a: "search_get dec search k = Some v"
  define body where "body = (if startsWith search ''?'' then tl search else search)"
  obtain p where p: "p \<in> set (split_char CHR ''&'' body)" "v = dec (tl (snd (split_first CHR ''='' p)))"
    using map_of_SomeD [OF a [unfolded search_get_def Let_def body_def [symmetric]]] by auto
  have "length p \<le> length (join [CHR ''&''] ps)" if "p \<in> set ps" for ps
    using that by (induction "[CHR ''&'']" ps rule: join.induct) auto
  from this [OF p(1)] have "length p \<le> length body" by simp
  moreover have "length (tl (snd (split_first CHR ''='' p))) \<le> length p"
    using length_dropWhile_le [of "\<lambda>x. x \<noteq> CHR ''=''" p] by (simp add: split_first_def)
  moreover have "length body \<le> length search" by (simp add: body_def)
  ultimately show ?thesis using dec_length [of "tl (snd (split_first CHR ''='' p))"] p(2) by simp
qed

end

lemma parse_path_length: "length (wl_search (parse_path t)) \<le> length t - (if startsWith t ''/'' then 1 else 0)"
proof -
  have "length (wl_search (parse_path t)) \<le> length (takeWhile (\<lambda>x. x \<noteq> CHR ''#'') t) - (if startsWith t ''/'' then 1 else 0)"
  proof (cases t)
    case (Cons c r)
    then show ?thesis using length_dropWhile_le [of "\<lambda>x. x \<noteq> CHR ''?''" "takeWhile (\<lambda>x. x \<noteq> CHR ''#'') r"]
      by (auto simp: parse_path_def split_first_def)
  qed (simp add: parse_path_def split_first_def)
  then show ?thesis using length_takeWhile_le [of "\<lambda>x. x \<noteq> CHR ''#''" t] by linarith
qed

lemma parse_static [simp]:
  "wl_pathname (parse_path (''/'' @ [])) = ''/''" "parse_path ROUTES_HOME = \<lparr>wl_pathname = ROUTES_HOME, wl_search = [], wl_hash = []\<rparr>"
  by (simp_all add: parse_path_def split_first_def ROUTES_HOME_def)

section \<open>Lemmas on addresses\<close>

definition wf_location :: "window_location \<Rightarrow> bool" where
  "wf_location loc \<longleftrightarrow> list_all (\<lambda>c. c \<noteq> CHR ''?'' \<and> c \<noteq> CHR ''#'') (wl_pathname loc)
     \<and> (wl_search loc = [] \<or> hd (wl_search loc) = CHR ''?'') \<and> CHR ''#'' \<notin> set (wl_search loc)
     \<and> (wl_hash loc = [] \<or> hd (wl_hash loc) = CHR ''#'')"

lemma head_dropWhile: "dropWhile (\<lambda>x. x \<noteq> c) s = [] \<or> hd (dropWhile (\<lambda>x. x \<noteq> c) s) = c"
  using hd_dropWhile [of "\<lambda>x. x \<noteq> c" s] by blast

lemma wf_parse_path: "wf_location (parse_path t)"
proof -
  define rest where "rest = takeWhile (\<lambda>x. x \<noteq> CHR ''#'') t"
  have rest: "c \<in> set rest \<Longrightarrow> c \<noteq> CHR ''#''" for c unfolding rest_def by (blast dest: set_takeWhileD)
  have "c \<in> set (takeWhile (\<lambda>x. x \<noteq> CHR ''?'') rest) \<Longrightarrow> c \<noteq> CHR ''?'' \<and> c \<noteq> CHR ''#''" for c
    using rest by (blast dest: set_takeWhileD)
  moreover have "CHR ''#'' \<notin> set (dropWhile (\<lambda>x. x \<noteq> CHR ''?'') rest)" using rest by (blast dest: set_dropWhileD)
  ultimately show ?thesis
    using head_dropWhile [of "CHR ''?''" rest] head_dropWhile [of "CHR ''#''" t]
    by (simp only: wf_location_def parse_path_def split_first_def Let_def case_prod_conv rest_def [symmetric] list_all_iff
      window_location.select_convs) blast
qed

lemma path_of_full:
  assumes "wf_location loc"
  shows "wl_pathname loc = takeWhile (\<lambda>x. x \<noteq> CHR ''?'' \<and> x \<noteq> CHR ''#'') (full_path loc)"
proof -
  have "takeWhile (\<lambda>x. x \<noteq> CHR ''?'' \<and> x \<noteq> CHR ''#'') (wl_search loc @ wl_hash loc) = []"
    using assms by (cases "wl_search loc"; cases "wl_hash loc") (auto simp: wf_location_def)
  then show ?thesis using assms
      takeWhile_append2 [of "wl_pathname loc" "\<lambda>x. x \<noteq> CHR ''?'' \<and> x \<noteq> CHR ''#''" "wl_search loc @ wl_hash loc"]
    by (auto simp: wf_location_def full_path_def list_all_iff)
qed

lemma full_path_auth:
  assumes "wf_location loc" and "startsWith (full_path loc) ''/auth''"
  shows "startsWith (wl_pathname loc) ''/auth''"
proof -
  obtain r where "full_path loc = ''/auth'' @ r" using assms(2) by (auto simp: startsWith_iff)
  then have "wl_pathname loc = ''/auth'' @ takeWhile (\<lambda>x. x \<noteq> CHR ''?'' \<and> x \<noteq> CHR ''#'') r"
    using path_of_full [OF assms(1)] by simp
  then show ?thesis by simp
qed

lemma parse_full_path:
  assumes "wf_location loc"
  shows "parse_path (full_path loc) = loc"
proof -
  have p: "\<And>c. c \<in> set (wl_pathname loc) \<Longrightarrow> c \<noteq> CHR ''?'' \<and> c \<noteq> CHR ''#''"
    and h: "wl_hash loc = [] \<or> hd (wl_hash loc) = CHR ''#''"
    and q: "wl_search loc = [] \<or> hd (wl_search loc) = CHR ''?''" "CHR ''#'' \<notin> set (wl_search loc)"
    using assms by (auto simp: wf_location_def list_all_iff)
  have hn: "takeWhile (\<lambda>x. x \<noteq> CHR ''#'') (wl_hash loc) = []" "dropWhile (\<lambda>x. x \<noteq> CHR ''#'') (wl_hash loc) = wl_hash loc"
    using h by (cases "wl_hash loc"; simp)+
  have qn: "takeWhile (\<lambda>x. x \<noteq> CHR ''?'') (wl_search loc) = []" "dropWhile (\<lambda>x. x \<noteq> CHR ''?'') (wl_search loc) = wl_search loc"
    using q(1) by (cases "wl_search loc"; simp)+
  have pq: "x \<noteq> CHR ''#''" if "x \<in> set (wl_pathname loc @ wl_search loc)" for x using that p q(2) by auto
  have a: "takeWhile (\<lambda>x. x \<noteq> CHR ''#'') (full_path loc) = wl_pathname loc @ wl_search loc"
    "dropWhile (\<lambda>x. x \<noteq> CHR ''#'') (full_path loc) = wl_hash loc"
    using takeWhile_append2 [of "wl_pathname loc @ wl_search loc" "\<lambda>x. x \<noteq> CHR ''#''" "wl_hash loc", OF pq]
      dropWhile_append2 [of "wl_pathname loc @ wl_search loc" "\<lambda>x. x \<noteq> CHR ''#''" "wl_hash loc", OF pq]
    by (simp_all add: full_path_def hn)
  have b: "takeWhile (\<lambda>x. x \<noteq> CHR ''?'') (wl_pathname loc @ wl_search loc) = wl_pathname loc"
    "dropWhile (\<lambda>x. x \<noteq> CHR ''?'') (wl_pathname loc @ wl_search loc) = wl_search loc"
    using takeWhile_append2 [of "wl_pathname loc" "\<lambda>x. x \<noteq> CHR ''?''" "wl_search loc"]
      dropWhile_append2 [of "wl_pathname loc" "\<lambda>x. x \<noteq> CHR ''?''" "wl_search loc"] p
    by (simp_all add: qn)
  show ?thesis by (simp add: parse_path_def split_first_def a b)
qed

lemma form_encode_plain: "c \<in> set (form_encode s) \<Longrightarrow> c \<notin> {CHR ''?'', CHR ''#'', CHR ''&'', CHR ''='', CHR ''/''}"
proof -
  have hex: "upper_hex n \<notin> {CHR ''?'', CHR ''#'', CHR ''&'', CHR ''='', CHR ''/''}" if "n < 16" for n
  proof -
    have "n \<in> {0, 1, 2, 3, 4, 5, 6, 7, 8, 9, 10, 11, 12, 13, 14, 15}"
      unfolding insert_iff empty_iff using that by presburger
    then have "code_unit (upper_hex n) \<notin> {63, 35, 38, 61, 47}" by (auto simp: upper_hex_def)
    then show ?thesis by (auto simp: code_unit_def)
  qed
  have byte: "b < 256" if "b \<in> set (utf8 c)" for b c
    using that code_unit_less [of c] by (auto simp: utf8_def Let_def split: if_splits)
  have "c \<notin> {CHR ''?'', CHR ''#'', CHR ''&'', CHR ''='', CHR ''/''}" if m: "c \<in> set (form_encode_char d)" for c d
  proof (cases "form_safe d")
    case True
    then show ?thesis using m
      by (auto simp: form_encode_char_def form_safe_def is_alnum_ascii_def is_upper_ascii_def is_lower_ascii_def is_digit_def code_unit_def)
  next
    case False
    show ?thesis
    proof (cases "d = CHR '' ''")
      case True
      then show ?thesis using m False by (auto simp: form_encode_char_def)
    next
      case no: False
      then have "c = CHR 0x25 \<or> (\<exists>b \<in> set (utf8 d). c = upper_hex (b div 16) \<or> c = upper_hex (b mod 16))"
        using m False by (auto simp: form_encode_char_def split: if_splits)
      then show ?thesis using byte [of _ d] hex by (auto simp: less_mult_imp_div_less)
    qed
  qed
  then show "c \<in> set (form_encode s) \<Longrightarrow> c \<notin> {CHR ''?'', CHR ''#'', CHR ''&'', CHR ''='', CHR ''/''}"
    by (auto simp: form_encode_def)
qed

text \<open>The address of the sign-in page, with the page to return to.\<close>

lemma parse_auth_route:
  "parse_path (buildAuthRoute path None) =
     \<lparr>wl_pathname = ROUTES_AUTH,
      wl_search = (case getSafeRedirectPath path of None \<Rightarrow> [] | Some p \<Rightarrow> ''?redirect='' @ form_encode p), wl_hash = []\<rparr>"
proof (cases "getSafeRedirectPath path")
  case None
  then show ?thesis by (simp add: buildAuthRoute_def search_string_def parse_path_def split_first_def ROUTES_AUTH_def)
next
  case (Some p)
  have "form_encode ''redirect'' = ''redirect''" by code_simp
  then have b: "buildAuthRoute path None = ''/auth?redirect='' @ form_encode p"
    using Some by (simp add: buildAuthRoute_def search_string_def AUTH_REDIRECT_PARAM_def ROUTES_AUTH_def)
  have "wf_location \<lparr>wl_pathname = ROUTES_AUTH, wl_search = ''?redirect='' @ form_encode p, wl_hash = []\<rparr>"
    using form_encode_plain [of _ p] by (auto simp: wf_location_def ROUTES_AUTH_def)
  from parse_full_path [OF this] show ?thesis using Some b by (simp add: full_path_def ROUTES_AUTH_def)
qed

section \<open>The visits\<close>

definition shown_to :: "bool \<Rightarrow> leaf \<Rightarrow> bool" where
  "shown_to currentUser l \<longleftrightarrow> l \<noteq> Leaf_HomeAlias
     \<and> (if currentUser then l \<notin> {Leaf_SignIn, Leaf_Admin, Leaf_SignUp}
        else l \<notin> {Leaf_Home, Leaf_Archived, Leaf_Shortcuts, Leaf_Attachments, Leaf_Inbox, Leaf_Setting})"

lemma route_target_cases:
  "route_target dec mt u loc =
     (let l = mt (wl_pathname loc) in
      if l \<in> {Leaf_SignIn, Leaf_Admin, Leaf_SignUp} then guard_target dec u loc RequireGuestRoute
      else if l = Leaf_HomeAlias then Some ROUTES_HOME
      else if l = Leaf_Home then guard_target dec u loc LandingRoute
      else if l \<in> {Leaf_Archived, Leaf_Shortcuts, Leaf_Attachments, Leaf_Inbox, Leaf_Setting} then guard_target dec u loc RequireAuthRoute
      else None)"
  by (auto simp: route_target_def route_guards_def Let_def List.map_filter_def guard_target_def split: option.split)

lemma route_target_None: "route_target dec mt u loc = None \<Longrightarrow> shown_to u (mt (wl_pathname loc))"
  by (auto simp: route_target_cases Let_def guard_target_def shown_to_def split: if_splits)

context address_bar
begin

lemma visit_home: "visit dec mt True (parse_path ROUTES_HOME) = Some (Leaf_Home, parse_path ROUTES_HOME)"
  by (simp add: visit.simps route_target_cases match_home guard_target_def)

lemma visit_shown: "route_target dec mt u loc = None \<Longrightarrow> visit dec mt u loc = Some (mt (wl_pathname loc), loc)"
  by (subst visit.simps) simp

lemma visit_explore:
  assumes "wf_location loc"
  shows "visit dec mt u (parse_path (ROUTES_EXPLORE @ wl_search loc @ wl_hash loc))
    = Some (Leaf_Explore, parse_path (ROUTES_EXPLORE @ wl_search loc @ wl_hash loc))"
proof -
  have "wf_location \<lparr>wl_pathname = ROUTES_EXPLORE, wl_search = wl_search loc, wl_hash = wl_hash loc\<rparr>"
    using assms by (auto simp: wf_location_def ROUTES_EXPLORE_def)
  from parse_full_path [OF this]
  have "parse_path (ROUTES_EXPLORE @ wl_search loc @ wl_hash loc)
      = \<lparr>wl_pathname = ROUTES_EXPLORE, wl_search = wl_search loc, wl_hash = wl_hash loc\<rparr>"
    by (simp add: full_path_def)
  then show ?thesis by (simp add: visit.simps route_target_cases match_explore)
qed

lemma visit_auth: "visit dec mt False (parse_path (buildAuthRoute p None)) = Some (Leaf_SignIn, parse_path (buildAuthRoute p None))"
  by (simp add: visit.simps route_target_cases parse_auth_route match_auth guard_target_def)

lemma signed_in_target:
  assumes "route_target dec mt True loc = Some t"
  shows "t = ROUTES_HOME \<or> startsWith t ''/'' \<and> length t \<le> length (wl_search loc)"
proof -
  have "t = ROUTES_HOME \<or> getSafeRedirectPath (search_get dec (wl_search loc) AUTH_REDIRECT_PARAM) = Some t"
    using assms by (auto simp: route_target_cases Let_def guard_target_def split: if_splits option.splits)
  then show ?thesis using search_get_length
    by (auto simp: getSafeRedirectPath_def split: option.splits if_splits)
qed

lemma visit_ends:
  assumes "wf_location loc"
  shows "\<exists>l loc'. visit dec mt u loc = Some (l, loc') \<and> shown_to u l"
  using assms
proof (induction "length (wl_search loc)" arbitrary: loc rule: less_induct)
  case less
  show ?case
  proof (cases "route_target dec mt u loc")
    case None
    then show ?thesis using visit_shown route_target_None by blast
  next
    case (Some t)
    then have step: "visit dec mt u loc = visit dec mt u (parse_path t)" by (subst visit.simps) simp
    show ?thesis
    proof (cases u)
      case True
      then consider "t = ROUTES_HOME" | "startsWith t ''/''" "length t \<le> length (wl_search loc)"
        using signed_in_target [of loc t] Some True by auto
      then show ?thesis
      proof cases
        case 1
        then show ?thesis using step visit_home True by (simp add: shown_to_def)
      next
        case 2
        then have "length (wl_search (parse_path t)) < length (wl_search loc)"
          using parse_path_length [of t] by (cases t) auto
        from less.hyps [OF this wf_parse_path] show ?thesis using step by simp
      qed
    next
      case False
      then have "t = ROUTES_HOME \<or> t = ROUTES_EXPLORE @ wl_search loc @ wl_hash loc
          \<or> t = buildAuthRoute (Some (full_path loc)) None"
        using Some by (auto simp: route_target_cases Let_def guard_target_def split: if_splits)
      moreover have "visit dec mt False (parse_path ROUTES_HOME) = Some (Leaf_Explore, parse_path ROUTES_EXPLORE)"
        using visit_explore [of "parse_path ROUTES_HOME" False, OF wf_parse_path]
        by (subst visit.simps) (simp add: route_target_cases match_home guard_target_def)
      ultimately show ?thesis
        using step False visit_explore [OF less.prems, of False] visit_auth by (auto simp: shown_to_def)
    qed
  qed
qed

lemma search_get_redirect: "search_get dec (''?redirect='' @ form_encode p) AUTH_REDIRECT_PARAM = Some p"
proof -
  have "form_encode ''redirect'' = ''redirect''" by code_simp
  then have r: "dec ''redirect'' = ''redirect''" using dec_encode [of "''redirect''"] by simp
  have "CHR ''&'' \<notin> set (''redirect='' @ form_encode p)" using form_encode_plain [of _ p] by auto
  then have "split_char CHR ''&'' (''redirect='' @ form_encode p) = [''redirect='' @ form_encode p]" by (rule split_char_plain)
  then show ?thesis by (simp add: search_get_def Let_def split_first_def AUTH_REDIRECT_PARAM_def r dec_encode)
qed

lemma return_after_sign_in:
  assumes "wf_location loc" and "startsWith (wl_pathname loc) ''/''" and "\<not> startsWith (full_path loc) ''//''"
    and "\<not> startsWith (wl_pathname loc) ''/auth''"
    and "mt (wl_pathname loc) \<in> {Leaf_Archived, Leaf_Shortcuts, Leaf_Attachments, Leaf_Inbox, Leaf_Setting}"
  shows "\<exists>auth. visit dec mt False loc = Some (Leaf_SignIn, auth) \<and> visit dec mt True auth = Some (mt (wl_pathname loc), loc)"
proof -
  have safe: "getSafeRedirectPath (Some (full_path loc)) = Some (full_path loc)"
  proof -
    have "\<not> startsWith (full_path loc) ''/auth''" using full_path_auth [OF assms(1)] assms(4) by blast
    moreover have "startsWith (full_path loc) ''/''" using assms(2) by (auto simp: full_path_def startsWith_iff)
    moreover have "full_path loc \<noteq> []" using calculation(2) by auto
    ultimately show ?thesis using assms(3) by (auto simp: getSafeRedirectPath_def ROUTES_AUTH_def startsWith_iff)
  qed
  define auth where "auth = parse_path (buildAuthRoute (Some (full_path loc)) None)"
  have out: "visit dec mt False loc = Some (Leaf_SignIn, auth)"
    using assms(5) visit_auth by (subst visit.simps) (auto simp: route_target_cases Let_def guard_target_def auth_def)
  have "route_target dec mt True auth = Some (full_path loc)"
    using search_get_redirect [of "full_path loc"] safe
    by (simp add: route_target_cases auth_def parse_auth_route match_auth guard_target_def)
  moreover have "route_target dec mt True loc = None"
    using assms(5) by (auto simp: route_target_cases Let_def guard_target_def)
  ultimately have "visit dec mt True auth = Some (mt (wl_pathname loc), loc)"
    using visit_shown parse_full_path [OF assms(1)] by (subst visit.simps) simp
  with out show ?thesis by blast
qed

end

section \<open>A router\<close>

text \<open>The tree of the code, matched on the parts of a path, as an instance of the router.\<close>

definition match_route :: "string \<Rightarrow> leaf" where
  "match_route path =
     (case filter (\<lambda>p. p \<noteq> []) (split_char CHR ''/'' path) of
        [] \<Rightarrow> Leaf_Home
      | [a] \<Rightarrow>
          (if a = ''auth'' then Leaf_SignIn else if a = ''home'' then Leaf_HomeAlias else if a = ''about'' then Leaf_About
           else if a = ''explore'' then Leaf_Explore else if a = ''archived'' then Leaf_Archived
           else if a = ''shortcuts'' then Leaf_Shortcuts else if a = ''attachments'' then Leaf_Attachments
           else if a = ''inbox'' then Leaf_Inbox else if a = ''setting'' then Leaf_Setting
           else if a = ''403'' then Leaf_403 else if a = ''404'' then Leaf_404 else Leaf_Any)
      | [a, b] \<Rightarrow>
          (if a = ''auth'' \<and> b = ''callback'' then Leaf_Callback else if a = ''auth'' \<and> b = ''admin'' then Leaf_Admin
           else if a = ''auth'' \<and> b = ''signup'' then Leaf_SignUp else if a = ''u'' then Leaf_User
           else if a = ''memos'' then Leaf_Memo else Leaf_Any)
      | [a, b, c] \<Rightarrow> if a = ''memos'' \<and> b = ''shares'' then Leaf_SharedMemo else Leaf_Any
      | _ \<Rightarrow> Leaf_Any)"

lemma length_from_utf8: "length (from_utf8 bs) \<le> length bs"
  by (induction bs rule: from_utf8.induct) auto

lemma length_form_bytes: "length (form_bytes s) \<le> length s"
  by (induction s rule: form_bytes.induct) auto

interpretation bar: address_bar form_decode match_route
proof
  show "length (form_decode s) \<le> length s" for s
    using length_from_utf8 [of "form_bytes s"] length_form_bytes [of s] by (simp add: form_decode_def)
qed (simp_all add: form_decode_encode match_route_def ROUTES_AUTH_def ROUTES_EXPLORE_def ROUTES_HOME_def)

section \<open>Lemmas on filters\<close>

lemma uniq_by_distinct: "distinct (map key xs) \<Longrightarrow> set (map key xs) \<inter> set seen = {} \<Longrightarrow> uniq_by key seen xs = xs"
  by (induction xs arbitrary: seen) auto

lemma filter_key_factor:
  assumes "CHR '':'' \<notin> set (mf_factor f)" and "CHR '':'' \<notin> set (mf_factor g)" and "getMemoFilterKey f = getMemoFilterKey g"
  shows "mf_factor f = mf_factor g"
proof -
  have "split_char CHR '':'' (getMemoFilterKey f) = mf_factor f # split_char CHR '':'' (mf_value f)"
    "split_char CHR '':'' (getMemoFilterKey g) = mf_factor g # split_char CHR '':'' (mf_value g)"
    using assms(1,2) by (simp_all add: getMemoFilterKey_def split_char_append_sep)
  then show ?thesis using assms(3) by simp
qed

lemma add_tag_filter:
  assumes "distinct (map getMemoFilterKey fs)" and "list_all (\<lambda>f. CHR '':'' \<notin> set (mf_factor f) \<and> mf_factor f \<noteq> ''tagSearch'') fs"
  shows "uniq_by getMemoFilterKey [] (fs @ [\<lparr>mf_factor = ''tagSearch'', mf_value = tag\<rparr>])
    = fs @ [\<lparr>mf_factor = ''tagSearch'', mf_value = tag\<rparr>]"
proof (rule uniq_by_distinct)
  have "getMemoFilterKey f \<noteq> getMemoFilterKey \<lparr>mf_factor = ''tagSearch'', mf_value = tag\<rparr>" if "f \<in> set fs" for f
    using filter_key_factor [of f "\<lparr>mf_factor = ''tagSearch'', mf_value = tag\<rparr>"] assms(2) that by (auto simp: list_all_iff)
  then show "distinct (map getMemoFilterKey (fs @ [\<lparr>mf_factor = ''tagSearch'', mf_value = tag\<rparr>]))"
    using assms(1) by (force simp del: memo_filter.simps)
qed simp

section \<open>Properties\<close>

text \<open>C19: Navigation always ends at a page, whatever address is entered and however its redirect parameters are nested:
  a visitor who is not signed in never gets a page for users, and a user never gets a page for guests.\<close>

theorem navigation_ends:
  assumes "address_bar dec mt" and "wf_location loc"
  shows "case visit dec mt currentUser loc of None \<Rightarrow> False | Some (l, _) \<Rightarrow> shown_to currentUser l"
  using address_bar.visit_ends [OF assms, of currentUser] by auto

theorem navigation_ends_witness:
  "case visit form_decode match_route False (parse_path ''/archived?x=1#y'') of None \<Rightarrow> False | Some (l, _) \<Rightarrow> shown_to False l"
  by (rule navigation_ends [OF bar.address_bar_axioms wf_parse_path])

text \<open>C20: A visitor who asks for a page for users is shown the sign-in, and once signed in gets the page asked for, with
  its query and fragment.\<close>

theorem sign_in_returns:
  assumes "address_bar dec mt" and "wf_location loc" and "startsWith (wl_pathname loc) ''/''"
    and "\<not> startsWith (full_path loc) ''//''" and "\<not> startsWith (wl_pathname loc) ''/auth''"
    and "mt (wl_pathname loc) \<in> {Leaf_Archived, Leaf_Shortcuts, Leaf_Attachments, Leaf_Inbox, Leaf_Setting}"
  shows "case visit dec mt False loc of
     None \<Rightarrow> False
   | Some (l, auth) \<Rightarrow> l = Leaf_SignIn \<and> visit dec mt True auth = Some (mt (wl_pathname loc), loc)"
  using address_bar.return_after_sign_in [OF assms] by auto

theorem sign_in_returns_witness:
  "case visit form_decode match_route False (parse_path ''/archived?x=1#y'') of
     None \<Rightarrow> False
   | Some (l, auth) \<Rightarrow> l = Leaf_SignIn \<and> visit form_decode match_route True auth = Some (Leaf_Archived, parse_path ''/archived?x=1#y'')"
proof -
  have p: "parse_path ''/archived?x=1#y'' = \<lparr>wl_pathname = ''/archived'', wl_search = ''?x=1'', wl_hash = ''#y''\<rparr>" by code_simp
  have m: "match_route ''/archived'' = Leaf_Archived" by code_simp
  show ?thesis
    using sign_in_returns [OF bar.address_bar_axioms wf_parse_path, of "''/archived?x=1#y''"]
    by (simp add: p m full_path_def cong: option.case_cong prod.case_cong)
qed

text \<open>A click on a tag in a list toggles the filter of the tag and leaves the filters of other kinds: afterwards the
  tag is the only tag filtered by, or, if it was one already, it no longer is.\<close>

theorem tag_click_toggles:
  assumes "\<not> startsWith pathname ''/m''" and "distinct (map getMemoFilterKey (fs_filters s))"
    and "list_all (\<lambda>f. CHR '':'' \<notin> set (mf_factor f)) (fs_filters s)"
  shows "case handleTagClick pathname parentPage tag s of
     Navigate_To _ _ \<Rightarrow> False
   | Filters_Changed s' \<Rightarrow>
       filter (\<lambda>f. mf_factor f \<noteq> ''tagSearch'') (fs_filters s') = filter (\<lambda>f. mf_factor f \<noteq> ''tagSearch'') (fs_filters s)
       \<and> map mf_value (getFiltersByFactor ''tagSearch'' s')
         = (let tags = map mf_value (getFiltersByFactor ''tagSearch'' s) in
            if tag \<in> set tags then filter (\<lambda>v. v \<noteq> tag) tags else [tag])"
proof -
  let ?rest = "filter (\<lambda>f. mf_factor f \<noteq> ''tagSearch'') (fs_filters s)"
  have add: "uniq_by getMemoFilterKey [] (?rest @ [\<lparr>mf_factor = ''tagSearch'', mf_value = tag\<rparr>])
      = ?rest @ [\<lparr>mf_factor = ''tagSearch'', mf_value = tag\<rparr>]"
    by (rule add_tag_filter) (use assms(2,3) in \<open>auto simp: distinct_map_filter list_all_iff\<close>)
  show ?thesis
  proof (cases "tag \<in> set (map mf_value (getFiltersByFactor ''tagSearch'' s))")
    case True
    then have "list_ex (\<lambda>f. mf_value f = tag) (getFiltersByFactor ''tagSearch'' s)" by (auto simp: list_ex_iff)
    then have "handleTagClick pathname parentPage tag s
        = Filters_Changed (removeFilter (\<lambda>f. mf_factor f = ''tagSearch'' \<and> mf_value f = tag) s)"
      using assms(1) by (simp add: handleTagClick_def)
    moreover have "filter (\<lambda>f. mf_factor f \<noteq> ''tagSearch'') (filter (\<lambda>f. \<not> (mf_factor f = ''tagSearch'' \<and> mf_value f = tag)) fs)
        = filter (\<lambda>f. mf_factor f \<noteq> ''tagSearch'') fs" for fs :: "memo_filter list"
      by (induction fs) auto
    moreover have "map mf_value (filter (\<lambda>f. mf_factor f = ''tagSearch'') (filter (\<lambda>f. \<not> (mf_factor f = ''tagSearch'' \<and> mf_value f = tag)) fs))
        = filter (\<lambda>v. v \<noteq> tag) (map mf_value (filter (\<lambda>f. mf_factor f = ''tagSearch'') fs))" for fs :: "memo_filter list"
      by (induction fs) auto
    ultimately show ?thesis using True
      unfolding removeFilter_def getFiltersByFactor_def Let_def tag_click.case by (simp del: filter_filter)
  next
    case False
    then have "\<not> list_ex (\<lambda>f. mf_value f = tag) (getFiltersByFactor ''tagSearch'' s)" by (auto simp: list_ex_iff)
    then show ?thesis using assms(1) False add
      by (simp add: handleTagClick_def removeFilter_def addFilter_def getFiltersByFactor_def)
  qed
qed

theorem tag_click_toggles_witness:
  "case handleTagClick ''/'' None ''work'' \<lparr>fs_filters = [\<lparr>mf_factor = ''tagSearch'', mf_value = ''home''\<rparr>], fs_shortcut = None\<rparr> of
     Navigate_To _ _ \<Rightarrow> False
   | Filters_Changed s' \<Rightarrow> map mf_value (getFiltersByFactor ''tagSearch'' s') = [''work'']"
  using tag_click_toggles [of "''/''" "\<lparr>fs_filters = [\<lparr>mf_factor = ''tagSearch'', mf_value = ''home''\<rparr>], fs_shortcut = None\<rparr>" "''work''" None]
  by (auto simp: getFiltersByFactor_def Let_def split: tag_click.splits)

end
