(* ===== verification/ContentSafety.thy ===== *)
theory ContentSafety
  imports AuthFlow Complex_Main
begin

text \<open>
  What the rendered memo lets through (\<^verbatim>\<open>components/MemoContent\<close>): the addresses an embedded frame may
  have, when a long memo is folded, the code and language of a code block, and the colours of tags
  (\<^verbatim>\<open>lib/color.ts\<close>).
\<close>

section \<open>Embedded frames\<close>

text \<open>
  The regular expressions, which ignore case: a fixed beginning, a path up to a question mark or a hash, and the
  query, which has no line end.
\<close>

definition query_tail :: "string \<Rightarrow> bool" where
  "query_tail s \<longleftrightarrow> s = [] \<or> hd s = CHR ''?'' \<and> list_all (\<lambda>c. \<not> is_line_end c) (tl s)"

definition path_char :: "char \<Rightarrow> bool" where
  "path_char c \<longleftrightarrow> c \<noteq> CHR ''?'' \<and> c \<noteq> CHR ''#''"

datatype frame_tail = PathTail | PlayerTail | EmbedTail | AnyTail

definition tail_matches :: "frame_tail \<Rightarrow> string \<Rightarrow> bool" where
  "tail_matches k s =
     (case k of
        PathTail \<Rightarrow> takeWhile path_char s \<noteq> [] \<and> query_tail (dropWhile path_char s)
      | PlayerTail \<Rightarrow> query_tail (if startsWith s ''/'' then tl s else s)
      | EmbedTail \<Rightarrow> query_tail (if startsWith s ''/'' then dropWhile path_char (tl s) else s)
      | AnyTail \<Rightarrow> query_tail (dropWhile path_char s))"

definition TRUSTED_IFRAME_SRC_PATTERNS :: "(string \<times> frame_tail) list" where
  "TRUSTED_IFRAME_SRC_PATTERNS =
     [(''https://www.youtube.com/embed/'', PathTail),
      (''https://www.youtube-nocookie.com/embed/'', PathTail),
      (''https://player.vimeo.com/video/'', PathTail),
      (''https://open.spotify.com/embed/'', PathTail),
      (''https://w.soundcloud.com/player'', PlayerTail),
      (''https://www.loom.com/embed/'', PathTail),
      (''https://www.google.com/maps/embed'', EmbedTail),
      (''https://app.diagrams.net/'', AnyTail), (''https://diagrams.net/'', AnyTail),
      (''https://www.draw.io/'', AnyTail), (''https://draw.io/'', AnyTail)]"

definition isTrustedIframeSrc :: "string \<Rightarrow> bool" where
  "isTrustedIframeSrc src =
     list_ex (\<lambda>(prefix, k). startsWith (toLowerCase src) prefix \<and> tail_matches k (drop (length prefix) src))
       TRUSTED_IFRAME_SRC_PATTERNS"

text \<open>The component: the address of the frame it renders, if it does.\<close>

definition TrustedIframe :: "string option \<Rightarrow> string option" where
  "TrustedIframe src = (case src of None \<Rightarrow> None | Some s \<Rightarrow> if isTrustedIframeSrc s then Some s else None)"

section \<open>Folding\<close>

definition ROW_HEIGHT_PX :: rat where "ROW_HEIGHT_PX = 24"

definition previewRows :: rat where "previewRows = 6"

definition triggerRows :: rat where "triggerRows = 8"

definition getPreviewMaxHeightPx :: rat where "getPreviewMaxHeightPx = previewRows * ROW_HEIGHT_PX"

definition getCompactTriggerHeightPx :: rat where "getCompactTriggerHeightPx = triggerRows * ROW_HEIGHT_PX"

definition shouldCompactContent :: "rat \<Rightarrow> rat \<Rightarrow> bool" where
  "shouldCompactContent contentHeightPx triggerHeightPx \<longleftrightarrow> contentHeightPx > triggerHeightPx"

datatype compact_view = Show_All | Show_Snippet

definition compact_next :: "compact_view \<Rightarrow> compact_view" where
  "compact_next m = (case m of Show_All \<Rightarrow> Show_Snippet | Show_Snippet \<Rightarrow> Show_All)"

definition compact_text_key :: "compact_view \<Rightarrow> string" where
  "compact_text_key m = (case m of Show_All \<Rightarrow> ''memo.show-more'' | Show_Snippet \<Rightarrow> ''memo.show-less'')"

text \<open>The effect on a change of the content; the two heights are those the browser reports, \<open>None\<close> without an element.\<close>

definition compact_effect :: "bool \<Rightarrow> (rat \<times> rat) option \<Rightarrow> compact_view option \<Rightarrow> compact_view option" where
  "compact_effect enabled container currentMode =
     (case container of
        None \<Rightarrow> None
      | Some (scrollHeight, rectHeight) \<Rightarrow>
          if \<not> enabled then None
          else if \<not> shouldCompactContent (max scrollHeight rectHeight) getCompactTriggerHeightPx then None
          else case currentMode of None \<Rightarrow> Some Show_All | Some m \<Rightarrow> Some m)"

definition compact_toggle :: "compact_view option \<Rightarrow> compact_view option" where
  "compact_toggle mode = map_option compact_next mode"

definition useCompactLabel :: "compact_view option \<Rightarrow> (string \<Rightarrow> string) \<Rightarrow> string" where
  "useCompactLabel mode t = (case mode of None \<Rightarrow> [] | Some m \<Rightarrow> t (compact_text_key m))"

section \<open>Code blocks\<close>

text \<open>One line end at the end of the text is dropped.\<close>

definition extractCodeContent :: "string option \<Rightarrow> string" where
  "extractCodeContent children =
     (let s = (case children of None \<Rightarrow> [] | Some t \<Rightarrow> t) in
      if s \<noteq> [] \<and> code_unit (last s) = 10 then butlast s else s)"

text \<open>The word characters after the first \<open>language-\<close> that has any.\<close>

fun extractLanguage :: "string \<Rightarrow> string" where
  "extractLanguage [] = []"
| "extractLanguage (c # s) =
     (if startsWith (c # s) ''language-'' \<and> takeWhile is_word_char (drop 9 (c # s)) \<noteq> []
      then takeWhile is_word_char (drop 9 (c # s)) else extractLanguage s)"

section \<open>Colours\<close>

text \<open>A channel: absent, a finite number, or an infinite one or none.\<close>

datatype channel = NoChannel | Finite rat | NotFinite

definition clamp_channel :: "channel \<Rightarrow> rat" where
  "clamp_channel v = (case v of NoChannel \<Rightarrow> 0 | Finite n \<Rightarrow> max 0 (min 1 n) | NotFinite \<Rightarrow> 0)"

definition hex_byte :: "nat \<Rightarrow> string" where
  "hex_byte n = pad_start 2 CHR ''0'' (if n < 16 then [lower_hex n] else [lower_hex (n div 16), lower_hex (n mod 16)])"

definition channel_text :: "channel \<Rightarrow> string" where
  "channel_text v = hex_byte (nat \<lfloor>clamp_channel v * 255 + 1 / 2\<rfloor>)"

definition colorToHex :: "(channel \<times> channel \<times> channel) option \<Rightarrow> string option" where
  "colorToHex color =
     (case color of None \<Rightarrow> None | Some (r, g, b) \<Rightarrow> Some (''#'' @ channel_text r @ channel_text g @ channel_text b))"

section \<open>Properties\<close>

definition trusted_hosts :: "string list" where
  "trusted_hosts = [''www.youtube.com'', ''www.youtube-nocookie.com'', ''player.vimeo.com'', ''open.spotify.com'',
     ''w.soundcloud.com'', ''www.loom.com'', ''www.google.com'', ''app.diagrams.net'', ''diagrams.net'', ''www.draw.io'', ''draw.io'']"

text \<open>The authority of an address: what stands between the two slashes and the next slash, question mark or hash.\<close>

definition authority :: "string \<Rightarrow> string" where
  "authority src = takeWhile (\<lambda>c. c \<noteq> CHR ''/'' \<and> path_char c) (drop 8 (toLowerCase src))"

text \<open>C21: A frame is rendered only for an address of one of the listed hosts, over https: what a browser reads as the host
  is exactly that host, with no port, user or other text before the path. The address is rendered as it is.\<close>

theorem frames_trusted:
  "case TrustedIframe src of
     None \<Rightarrow> True
   | Some s \<Rightarrow> src = Some s \<and> startsWith (toLowerCase s) ''https://'' \<and> authority s \<in> set trusted_hosts"
proof -
  have "startsWith (toLowerCase s) ''https://'' \<and> authority s \<in> set trusted_hosts" if "isTrustedIframeSrc s" for s
    using that
    by (auto simp: isTrustedIframeSrc_def TRUSTED_IFRAME_SRC_PATTERNS_def startsWith_iff authority_def path_char_def trusted_hosts_def)
  then show ?thesis by (simp add: TrustedIframe_def split: option.split)
qed

lemma unit_char_letters:
  "unit_char 97 = CHR ''a''" "unit_char 98 = CHR ''b''" "unit_char 99 = CHR ''c''" "unit_char 100 = CHR ''d''"
  "unit_char 101 = CHR ''e''" "unit_char 102 = CHR ''f''"
  by (simp_all add: unit_char_def char_of_def bit_0)

lemma lower_hex_class: "k < 16 \<Longrightarrow> is_digit (lower_hex k) \<or> lower_hex k \<in> set ''abcdef''"
proof -
  assume "k < 16"
  then consider "k < 10" | "k = 10" | "k = 11" | "k = 12" | "k = 13" | "k = 14" | "k = 15" by linarith
  then show ?thesis by cases (simp_all add: lower_hex_def is_digit_def unit_char_letters)
qed

lemma hex_byte_shape: "n < 256 \<Longrightarrow> length (hex_byte n) = 2 \<and> list_all (\<lambda>c. is_digit c \<or> c \<in> set ''abcdef'') (hex_byte n)"
proof -
  have "is_digit (lower_hex k) \<or> lower_hex k \<in> set ''abcdef''" if "k < 16" for k
    using that by (rule lower_hex_class)
  moreover have "is_digit CHR ''0''" by (simp add: is_digit_def code_unit_def)
  ultimately show "n < 256 \<Longrightarrow> length (hex_byte n) = 2 \<and> list_all (\<lambda>c. is_digit c \<or> c \<in> set ''abcdef'') (hex_byte n)"
    by (auto simp: hex_byte_def pad_start_def)
qed

lemma channel_byte: "nat \<lfloor>clamp_channel v * 255 + 1 / 2\<rfloor> < 256"
proof -
  have "clamp_channel v \<le> 1" by (auto simp: clamp_channel_def split: channel.split)
  then have "clamp_channel v * 255 + 1 / 2 < 256" by simp
  then have "\<lfloor>clamp_channel v * 255 + 1 / 2\<rfloor> < 256" by (simp add: floor_less_iff)
  then show ?thesis by linarith
qed

text \<open>Whatever numbers a tag's colour has, out of range, infinite or missing, the text put into the style is a hash and
  six hexadecimal digits.\<close>

theorem color_shape:
  "case colorToHex color of
     None \<Rightarrow> color = None
   | Some t \<Rightarrow> length t = 7 \<and> hd t = CHR ''#'' \<and> list_all (\<lambda>c. is_digit c \<or> c \<in> set ''abcdef'') (tl t)"
proof -
  have "length (channel_text v) = 2 \<and> list_all (\<lambda>c. is_digit c \<or> c \<in> set ''abcdef'') (channel_text v)" for v
    unfolding channel_text_def by (rule hex_byte_shape [OF channel_byte])
  then show ?thesis by (auto simp: colorToHex_def split: option.split)
qed

text \<open>A memo that is folded is taller than what the fold shows by two rows at least, so unfolding always shows more;
  an edit keeps the reader's choice as long as the memo stays tall, and the button toggles.\<close>

theorem folding_useful:
  "(case compact_effect enabled container mode of
      None \<Rightarrow> True
    | Some m \<Rightarrow> (case container of None \<Rightarrow> False | Some (h, r) \<Rightarrow> getPreviewMaxHeightPx + 2 * ROW_HEIGHT_PX < max h r)
        \<and> m = (case mode of None \<Rightarrow> Show_All | Some m' \<Rightarrow> m'))
   \<and> compact_toggle (compact_toggle mode) = mode"
  by (auto simp: compact_effect_def shouldCompactContent_def getCompactTriggerHeightPx_def getPreviewMaxHeightPx_def
      previewRows_def triggerRows_def ROW_HEIGHT_PX_def compact_toggle_def compact_next_def option.map_comp comp_def
      split: option.splits compact_view.split)

end
