(* ===== verification/MemoActions.thy ===== *)
theory MemoActions
  imports Queries TaskActions
begin

text \<open>
  What the menu of a memo and its reactions do (\<^verbatim>\<open>components/MemoActionMenu/hooks.ts\<close>,
  \<^verbatim>\<open>components/MemoReactionListView/hooks.ts\<close>, \<^verbatim>\<open>lib/error.ts\<close>): each handler calls the mutations
  of the query cache and the server, shows messages and navigates. Messages are the keys of their
  translations; a handler runs with the memo of its last rendering.
\<close>

section \<open>Errors\<close>

text \<open>What can be thrown: an instance of \<open>Error\<close>, a text, an object with a message, anything else.\<close>

datatype thrown = Error_Instance string | Thrown_Text string | Thrown_Object string | Thrown_Other

definition getErrorMessage :: "thrown \<Rightarrow> string \<Rightarrow> string" where
  "getErrorMessage e fallback =
     (case e of
        Error_Instance message \<Rightarrow> message
      | Thrown_Text t \<Rightarrow> t
      | Thrown_Object message \<Rightarrow> message
      | Thrown_Other \<Rightarrow> fallback)"

text \<open>The message \<open>handleError\<close> shows.\<close>

definition handleError :: "thrown \<Rightarrow> string option \<Rightarrow> string option \<Rightarrow> string" where
  "handleError e context_text fallbackMessage =
     (let fallback = (case fallbackMessage of None \<Rightarrow> ''Unknown error'' | Some f \<Rightarrow> f) in
      case context_text of
        None \<Rightarrow> getErrorMessage e fallback
      | Some c \<Rightarrow> if c = [] then getErrorMessage e fallback else c @ '': '' @ getErrorMessage e fallback)"

section \<open>The menu\<close>

definition ROUTES_HOME :: string where "ROUTES_HOME = ''/''"
definition ROUTES_ARCHIVED :: string where "ROUTES_ARCHIVED = ''/archived''"

datatype toast = Toast_Success string | Toast_Error string

text \<open>The cache, the server, the messages shown, the pages gone to, the clipboard and the dialog.\<close>

record ('q, 's) action_state =
  as_cache :: 'q
  as_server :: 's
  as_toasts :: "toast list"
  as_visited :: "string list"
  as_clipboard :: "string option"
  as_deleteDialog :: bool

definition toast :: "toast \<Rightarrow> ('q, 's) action_state \<Rightarrow> ('q, 's) action_state" where
  "toast t s = s\<lparr>as_toasts := as_toasts s @ [t]\<rparr>"

definition navigateTo :: "string \<Rightarrow> ('q, 's) action_state \<Rightarrow> ('q, 's) action_state" where
  "navigateTo path s = s\<lparr>as_visited := as_visited s @ [path]\<rparr>"

definition in_cache :: "('q \<Rightarrow> 'q) \<Rightarrow> ('q, 's) action_state \<Rightarrow> ('q, 's) action_state" where
  "in_cache f s = s\<lparr>as_cache := f (as_cache s)\<rparr>"

definition isInMemoDetailPage :: "string \<Rightarrow> memo \<Rightarrow> bool" where
  "isInMemoDetailPage pathname memo = startsWith pathname (''/'' @ m_name memo)"

definition memoUpdatedCallback :: "'q query_client \<Rightarrow> ('q, 's) action_state \<Rightarrow> ('q, 's) action_state" where
  "memoUpdatedCallback qc = in_cache (qc_invalidate qc userKeys_stats)"

text \<open>\<open>await updateMemo\<close>.\<close>

definition mutate_memo ::
  "'q query_client \<Rightarrow> 's memo_api \<Rightarrow> memo_patch \<Rightarrow> string list \<Rightarrow> ('q, 's) action_state \<Rightarrow> (error + memo) \<times> ('q, 's) action_state" where
  "mutate_memo qc api update updateMask s =
     (let (r, q, s') = updateMemo qc api update updateMask (as_cache s, as_server s) in
      (r, s\<lparr>as_cache := q, as_server := s'\<rparr>))"

definition updateMemoContent ::
  "'q query_client \<Rightarrow> 's memo_api \<Rightarrow> memo \<Rightarrow> string \<Rightarrow> string \<Rightarrow> ('q, 's) action_state \<Rightarrow> ('q, 's) action_state" where
  "updateMemoContent qc api memo nextContent context_text s =
     (if nextContent = m_content memo then s
      else case mutate_memo qc api (no_patch\<lparr>p_name := Some (m_name memo), p_content := Some nextContent\<rparr>)
                  [''content'', ''update_time''] s of
          (Inr _, s1) \<Rightarrow> toast (Toast_Success ''memo.task-actions.updated'') s1
        | (Inl e, s1) \<Rightarrow> toast (Toast_Error (handleError (Error_Instance e) (Some context_text) (Some ''An error occurred''))) s1)"

definition handleTogglePinMemoBtnClick ::
  "'q query_client \<Rightarrow> 's memo_api \<Rightarrow> memo \<Rightarrow> ('q, 's) action_state \<Rightarrow> ('q, 's) action_state" where
  "handleTogglePinMemoBtnClick qc api memo s =
     snd (mutate_memo qc api (no_patch\<lparr>p_name := Some (m_name memo), p_pinned := Some (\<not> m_pinned memo)\<rparr>) [''pinned''] s)"

definition handleToggleMemoStatusClick ::
  "'q query_client \<Rightarrow> 's memo_api \<Rightarrow> string \<Rightarrow> memo \<Rightarrow> ('q, 's) action_state \<Rightarrow> ('q, 's) action_state" where
  "handleToggleMemoStatusClick qc api pathname memo s =
     (let isArchiving = (m_state memo \<noteq> ARCHIVED);
          state = (if m_state memo = ARCHIVED then NORMAL else ARCHIVED);
          message = (if m_state memo = ARCHIVED then ''message.restored-successfully'' else ''message.archived-successfully'') in
      case mutate_memo qc api (no_patch\<lparr>p_name := Some (m_name memo), p_state := Some state\<rparr>) [''state''] s of
        (Inl e, s1) \<Rightarrow>
          toast (Toast_Error (handleError (Error_Instance e)
            (Some ((if isArchiving then ''Archive'' else ''Restore'') @ '' memo'')) (Some ''An error occurred''))) s1
      | (Inr _, s1) \<Rightarrow>
          (let s2 = toast (Toast_Success message) s1;
               s3 = (if isInMemoDetailPage pathname memo
                     then navigateTo (if m_state memo = ARCHIVED then ROUTES_HOME else ROUTES_ARCHIVED) s2 else s2) in
           memoUpdatedCallback qc s3))"

definition handleCopyLink :: "string \<Rightarrow> string \<Rightarrow> memo \<Rightarrow> ('q, 's) action_state \<Rightarrow> ('q, 's) action_state" where
  "handleCopyLink instanceUrl origin memo s =
     (let host = (if instanceUrl = [] then origin else instanceUrl) in
      toast (Toast_Success ''message.succeed-copy-link'') (s\<lparr>as_clipboard := Some (host @ ''/'' @ m_name memo)\<rparr>))"

definition handleCopyContent :: "memo \<Rightarrow> ('q, 's) action_state \<Rightarrow> ('q, 's) action_state" where
  "handleCopyContent memo s =
     toast (Toast_Success ''message.succeed-copy-content'') (s\<lparr>as_clipboard := Some (m_content memo)\<rparr>)"

definition handleCheckAllTaskListItemsClick ::
  "'q query_client \<Rightarrow> 's memo_api \<Rightarrow> (string \<Rightarrow> mdast option) \<Rightarrow> memo \<Rightarrow> ('q, 's) action_state \<Rightarrow> ('q, 's) action_state" where
  "handleCheckAllTaskListItemsClick qc api parse memo =
     updateMemoContent qc api memo (checkAllTasks parse (m_content memo)) ''Check memo task list items''"

definition handleUncheckAllTaskListItemsClick ::
  "'q query_client \<Rightarrow> 's memo_api \<Rightarrow> (string \<Rightarrow> mdast option) \<Rightarrow> memo \<Rightarrow> ('q, 's) action_state \<Rightarrow> ('q, 's) action_state" where
  "handleUncheckAllTaskListItemsClick qc api parse memo =
     updateMemoContent qc api memo (uncheckAllTasks parse (m_content memo)) ''Uncheck memo task list items''"

definition handleDeleteMemoClick :: "('q, 's) action_state \<Rightarrow> ('q, 's) action_state" where
  "handleDeleteMemoClick s = s\<lparr>as_deleteDialog := True\<rparr>"

definition confirmDeleteMemo ::
  "'q query_client \<Rightarrow> (string \<Rightarrow> 's \<Rightarrow> (error + unit) \<times> 's) \<Rightarrow> string \<Rightarrow> memo \<Rightarrow> ('q, 's) action_state \<Rightarrow> ('q, 's) action_state" where
  "confirmDeleteMemo qc api_deleteMemo pathname memo s =
     (case api_deleteMemo (m_name memo) (as_server s) of
        (Inl e, s') \<Rightarrow> toast (Toast_Error (handleError (Error_Instance e) (Some ''Delete memo'') (Some ''An error occurred''))) (s\<lparr>as_server := s'\<rparr>)
      | (Inr _, s') \<Rightarrow>
          (let s1 = in_cache (delete_onSuccess qc (m_name memo)) (s\<lparr>as_server := s'\<rparr>);
               s2 = toast (Toast_Success ''message.deleted-successfully'') s1;
               s3 = (case m_parent memo of None \<Rightarrow> s2
                     | Some parent \<Rightarrow> if parent = [] then s2 else in_cache (qc_invalidate qc (memoKeys_comments parent)) s2);
               s4 = (if isInMemoDetailPage pathname memo then navigateTo ROUTES_HOME s3 else s3) in
           memoUpdatedCallback qc s4))"

section \<open>Reactions\<close>

text \<open>The groups of \<open>useReactionGroups\<close>: the users known by name, under the type of their reaction.\<close>

definition reaction_step :: "(string \<Rightarrow> user option) \<Rightarrow> (string \<times> user list) list \<Rightarrow> reaction \<Rightarrow> (string \<times> user list) list" where
  "reaction_step userMap m reaction =
     (case userMap (re_creator reaction) of None \<Rightarrow> m
      | Some u \<Rightarrow>
          AList.update (re_reactionType reaction)
            ((case map_of m (re_reactionType reaction) of None \<Rightarrow> [] | Some users \<Rightarrow> users) @ [u]) m)"

definition useReactionGroups :: "(string \<Rightarrow> user option) \<Rightarrow> reaction list \<Rightarrow> (string \<times> user list) list" where
  "useReactionGroups userMap reactions = foldl (reaction_step userMap) [] reactions"

text \<open>The requests of a click, besides reading the memo again.\<close>

record 's reaction_api =
  ra_delete :: "string \<Rightarrow> 's \<Rightarrow> (error + unit) \<times> 's"
  ra_upsert :: "string \<Rightarrow> string \<Rightarrow> 's \<Rightarrow> (error + unit) \<times> 's"
  ra_getMemo :: "string \<Rightarrow> 's \<Rightarrow> (error + memo) \<times> 's"

definition hasReacted :: "memo \<Rightarrow> user option \<Rightarrow> string \<Rightarrow> bool" where
  "hasReacted memo currentUser reactionType =
     list_ex (\<lambda>r. re_reactionType r = reactionType \<and> Some (re_creator r) = map_option u_name currentUser) (m_reactions memo)"

text \<open>\<open>Promise.all\<close> sends every request and fails when one fails.\<close>

primrec delete_all :: "'s reaction_api \<Rightarrow> string list \<Rightarrow> 's \<Rightarrow> (error + unit) \<times> 's" where
  "delete_all api [] s = (Inr (), s)"
| "delete_all api (n # ns) s =
     (let (r, s1) = ra_delete api n s; (rs, s2) = delete_all api ns s1 in
      (case r of Inl e \<Rightarrow> Inl e | Inr _ \<Rightarrow> rs, s2))"

definition refresh_memo ::
  "'q query_client \<Rightarrow> 's reaction_api \<Rightarrow> memo \<Rightarrow> 'q \<times> 's \<Rightarrow> 'q \<times> 's" where
  "refresh_memo qc api memo qs =
     (case ra_getMemo api (m_name memo) (snd qs) of
        (Inl _, s) \<Rightarrow> (fst qs, s)
      | (Inr updatedMemo, s) \<Rightarrow>
          (let q1 = qc_set qc (memoKeys_detail (m_name memo)) (Memo_Data updatedMemo) (fst qs);
               q2 = qc_invalidate qc memoKeys_lists q1;
               q3 = (case m_parent memo of None \<Rightarrow> q2
                     | Some parent \<Rightarrow> if parent = [] then q2 else qc_invalidate qc (memoKeys_comments parent) q2) in
           (q3, s)))"

definition handleReactionClick ::
  "'q query_client \<Rightarrow> 's reaction_api \<Rightarrow> memo \<Rightarrow> user option \<Rightarrow> string \<Rightarrow> 'q \<times> 's \<Rightarrow> 'q \<times> 's" where
  "handleReactionClick qc api memo currentUser reactionType qs =
     (case currentUser of
        None \<Rightarrow> qs
      | Some cu \<Rightarrow>
          (let (r, s) =
             (if hasReacted memo currentUser reactionType then
                delete_all api (map re_name (filter (\<lambda>reaction. re_reactionType reaction = reactionType
                  \<and> re_creator reaction = u_name cu) (m_reactions memo))) (snd qs)
              else ra_upsert api (m_name memo) reactionType (snd qs)) in
           case r of Inl _ \<Rightarrow> (fst qs, s) | Inr _ \<Rightarrow> refresh_memo qc api memo (fst qs, s)))"

definition formatUserName :: "user \<Rightarrow> string" where
  "formatUserName u = (if u_displayName u = [] then u_username u else u_displayName u)"

definition formatReactionTooltip :: "user list \<Rightarrow> string \<Rightarrow> string" where
  "formatReactionTooltip users reactionType =
     (if length users = 0 then []
      else if length users < 5 then
        join '', '' (map formatUserName users) @ '' reacted with '' @ toLowerCase reactionType
      else
        join '', '' (map formatUserName (take 4 users)) @ '' and '' @ show_nat (length users - 4)
          @ '' more reacted with '' @ toLowerCase reactionType)"


section \<open>Lemmas on the menu\<close>

text \<open>The actions of the menu that ask the server for something.\<close>

datatype menu_action = Toggle_Pin | Toggle_Status | Check_All | Uncheck_All | Delete_Memo

definition menu_step ::
  "'q query_client \<Rightarrow> 's memo_api \<Rightarrow> (string \<Rightarrow> 's \<Rightarrow> (error + unit) \<times> 's) \<Rightarrow> (string \<Rightarrow> mdast option) \<Rightarrow> string \<Rightarrow> memo
     \<Rightarrow> menu_action \<Rightarrow> ('q, 's) action_state \<Rightarrow> ('q, 's) action_state" where
  "menu_step qc api api_deleteMemo parse pathname memo a =
     (case a of
        Toggle_Pin \<Rightarrow> handleTogglePinMemoBtnClick qc api memo
      | Toggle_Status \<Rightarrow> handleToggleMemoStatusClick qc api pathname memo
      | Check_All \<Rightarrow> handleCheckAllTaskListItemsClick qc api parse memo
      | Uncheck_All \<Rightarrow> handleUncheckAllTaskListItemsClick qc api parse memo
      | Delete_Memo \<Rightarrow> confirmDeleteMemo qc api_deleteMemo pathname memo)"

text \<open>
  The states an action may leave when it failed: the page and the data of every query as before, and
  of the detail of the memo at most the memo as it was, where it was not cached.
\<close>

definition unchanged :: "'q query_client \<Rightarrow> memo \<Rightarrow> ('q, 's) action_state \<Rightarrow> ('q, 's) action_state \<Rightarrow> bool" where
  "unchanged qc m s s' \<longleftrightarrow>
     (\<forall>k. qc_get qc k (as_cache s') = qc_get qc k (as_cache s)
        \<or> k = memoKeys_detail (m_name m) \<and> qc_get qc k (as_cache s) = None
          \<and> qc_get qc k (as_cache s') = Some (Memo_Data m))
     \<and> as_visited s' = as_visited s"

context query_cache
begin

lemma refused_update:
  assumes "p_name u = Some (m_name m)" and "m_name m \<noteq> []" and "\<not> adds_field m u"
    and "qc_get qc (memoKeys_detail (m_name m)) (as_cache s) \<in> {None, Some (Memo_Data m)}"
    and "\<And>k d. qc_get qc k (as_cache s) = Some d \<Longrightarrow> list_all (\<lambda>x. m_name x = m_name m \<longrightarrow> x = m) (memos_of d)"
    and "\<And>m fs t. isl (fst (api_updateMemo api m fs t))"
  shows "\<exists>e s'. mutate_memo qc api u fs s = (Inl e, s') \<and> unchanged qc m s s' \<and> as_toasts s' = as_toasts s"
proof -
  obtain e t where e: "api_updateMemo api (spread_memo empty_memo u) fs (as_server s) = (Inl e, t)"
    using assms(6) [of "spread_memo empty_memo u" fs "as_server s"] by (metis isl_def prod.collapse)
  define q where "q = update_onError qc u (fst (update_onMutate qc u (as_cache s))) (snd (update_onMutate qc u (as_cache s)))"
  have "mutate_memo qc api u fs s = (Inl e, s\<lparr>as_cache := q, as_server := t\<rparr>)"
    using e by (simp add: mutate_memo_def updateMemo_def q_def Let_def case_prod_beta)
  moreover have "qc_get qc k q = qc_get qc k (as_cache s)
        \<or> k = memoKeys_detail (m_name m) \<and> qc_get qc k (as_cache s) = None \<and> qc_get qc k q = Some (Memo_Data m)" for k
    using rollback_get [where k = k, OF assms(1,2) refl assms(3,4,5)] assms(4) by (auto simp: q_def)
  ultimately show ?thesis by (simp add: unchanged_def)
qed

end

section \<open>Properties of the menu\<close>

text \<open>C16: An action of the menu that the server refuses leaves nothing changed, when the cached copies of the memo are
  the one the menu shows: every query has the data it had before the optimistic update, the page is the same, and no
  message of success is shown, at most one of the error. On a page where the detail of the memo was not cached, its
  detail is left in the cache with the memo as it was.\<close>

theorem refused_action_restores:
  assumes "query_cache qc" and "m_name memo \<noteq> []"
    and "qc_get qc (memoKeys_detail (m_name memo)) (as_cache s) \<in> {None, Some (Memo_Data memo)}"
    and "\<And>k d. qc_get qc k (as_cache s) = Some d \<Longrightarrow> list_all (\<lambda>x. m_name x = m_name memo \<longrightarrow> x = memo) (memos_of d)"
    and "\<And>m fs t. isl (fst (api_updateMemo api m fs t))" and "\<And>n t. isl (fst (api_deleteMemo n t))"
  shows "let s' = menu_step qc api api_deleteMemo parse pathname memo a s in
    (\<forall>k. qc_get qc k (as_cache s') = qc_get qc k (as_cache s)
       \<or> k = memoKeys_detail (m_name memo) \<and> qc_get qc k (as_cache s) = None
         \<and> qc_get qc k (as_cache s') = Some (Memo_Data memo))
    \<and> as_visited s' = as_visited s
    \<and> (\<exists>errors. as_toasts s' = as_toasts s @ map Toast_Error errors \<and> length errors \<le> 1)"
proof -
  have toasted: "unchanged qc memo s (toast t s') = unchanged qc memo s s'" "as_toasts (toast t s') = as_toasts s' @ [t]" for t s'
    by (simp_all add: unchanged_def toast_def)
  have quiet: "unchanged qc memo s s' \<and> (\<exists>errors. as_toasts s' = as_toasts s @ map Toast_Error errors \<and> length errors \<le> 1)"
    if "unchanged qc memo s s'" "as_toasts s' = as_toasts s \<or> (\<exists>e. as_toasts s' = as_toasts s @ [Toast_Error e])" for s'
    using that(2)
  proof
    assume "as_toasts s' = as_toasts s"
    then show ?thesis using that(1) by (intro conjI exI [where x = "[]"]) simp_all
  next
    assume "\<exists>e. as_toasts s' = as_toasts s @ [Toast_Error e]"
    then obtain e where "as_toasts s' = as_toasts s @ [Toast_Error e]" ..
    then show ?thesis using that(1) by (intro conjI exI [where x = "[e]"]) simp_all
  qed
  have refused: "\<exists>e s'. mutate_memo qc api u fs s = (Inl e, s') \<and> unchanged qc memo s s' \<and> as_toasts s' = as_toasts s"
    if "p_name u = Some (m_name memo)" "\<not> adds_field memo u" for u fs
    by (rule query_cache.refused_update [OF assms(1) that(1) assms(2) that(2) assms(3)]) (rule assms(4) assms(5), assumption?)+
  have plain: "\<not> adds_field memo (no_patch\<lparr>p_name := n, p_content := c\<rparr>)" "\<not> adds_field memo (no_patch\<lparr>p_name := n, p_pinned := b\<rparr>)"
      "\<not> adds_field memo (no_patch\<lparr>p_name := n, p_state := t\<rparr>)" for n c b t
    by (simp_all add: adds_field_def sets_new_def no_patch_def split: option.split)
  have content: "unchanged qc memo s s' \<and> (\<exists>errors. as_toasts s' = as_toasts s @ map Toast_Error errors \<and> length errors \<le> 1)"
    if "s' = updateMemoContent qc api memo c t s" for c t s'
    using refused [where u = "no_patch\<lparr>p_name := Some (m_name memo), p_content := Some c\<rparr>" and fs = "[''content'', ''update_time'']"] that
    by (intro quiet) (auto simp: plain updateMemoContent_def toasted unchanged_def [of _ _ s s])
  have "unchanged qc memo s s' \<and> (\<exists>errors. as_toasts s' = as_toasts s @ map Toast_Error errors \<and> length errors \<le> 1)"
    if s': "s' = menu_step qc api api_deleteMemo parse pathname memo a s" for s'
  proof (cases a)
    case Toggle_Pin
    show ?thesis using refused [where u = "no_patch\<lparr>p_name := Some (m_name memo), p_pinned := Some (\<not> m_pinned memo)\<rparr>" and fs = "[''pinned'']"]
      by (intro quiet) (auto simp: plain s' Toggle_Pin menu_step_def handleTogglePinMemoBtnClick_def)
  next
    case Toggle_Status
    show ?thesis using refused [where u = "no_patch\<lparr>p_name := Some (m_name memo),
        p_state := Some (if m_state memo = ARCHIVED then NORMAL else ARCHIVED)\<rparr>" and fs = "[''state'']"]
      by (intro quiet) (auto simp: plain s' Toggle_Status menu_step_def handleToggleMemoStatusClick_def toasted Let_def)
  next
    case Delete_Memo
    obtain e t where "api_deleteMemo (m_name memo) (as_server s) = (Inl e, t)"
      using assms(6) [of "m_name memo" "as_server s"] by (metis isl_def prod.collapse)
    then show ?thesis
      by (intro quiet) (simp_all add: s' Delete_Memo menu_step_def confirmDeleteMemo_def toasted unchanged_def toast_def)
  qed (rule content; simp add: s' menu_step_def handleCheckAllTaskListItemsClick_def handleUncheckAllTaskListItemsClick_def)+
  then show ?thesis by (simp add: unchanged_def Let_def)
qed

definition refusing_api :: "nat memo_api" where
  "refusing_api = \<lparr>api_createAttachment = (\<lambda>_ s. (Inl ''offline'', s)), api_getMemo = (\<lambda>_ s. (Inl ''offline'', s)),
     api_updateMemo = (\<lambda>_ _ s. (Inl ''offline'', s + 1)), api_createMemo = (\<lambda>_ s. (Inl ''offline'', s)),
     api_createMemoComment = (\<lambda>_ _ s. (Inl ''offline'', s))\<rparr>"

definition menu_state :: "(listed_cache, nat) action_state" where
  "menu_state = \<lparr>as_cache = one_list, as_server = 0, as_toasts = [], as_visited = [], as_clipboard = None, as_deleteDialog = False\<rparr>"

theorem refused_action_restores_witness:
  "let s' = menu_step listed_client refusing_api (\<lambda>_ s. (Inl ''offline'', s)) (\<lambda>_. None) ''/'' cached_memo Toggle_Pin
              (menu_state\<lparr>as_cache := only_list\<rparr>) in
    qc_get listed_client memoKeys_lists (as_cache s') = qc_get listed_client memoKeys_lists only_list \<and> as_visited s' = []"
proof -
  let ?s = "menu_state\<lparr>as_cache := only_list\<rparr>"
  have agree: "list_all (\<lambda>x. m_name x = m_name cached_memo \<longrightarrow> x = cached_memo) (memos_of d)"
    if "qc_get listed_client k (as_cache ?s) = Some d" for k d
    using that by (auto simp: listed_client_def only_list_def one_list_def memos_of_def empty_memo_def cached_memo_def split: if_splits)
  have "qc_get listed_client (memoKeys_detail (m_name cached_memo)) (as_cache ?s) \<in> {None, Some (Memo_Data cached_memo)}"
    by (simp add: listed_client_def only_list_def one_list_def memoKeys_detail_def memoKeys_lists_def cached_memo_def)
  from refused_action_restores [OF listed.query_cache_axioms _ this agree, where api = refusing_api and api_deleteMemo = "\<lambda>_ s. (Inl ''offline'', s)" and parse = "\<lambda>_. None"
      and pathname = "''/''" and a = Toggle_Pin]
  have "let s' = menu_step listed_client refusing_api (\<lambda>_ s. (Inl ''offline'', s)) (\<lambda>_. None) ''/'' cached_memo Toggle_Pin ?s in
    (\<forall>k. qc_get listed_client k (as_cache s') = qc_get listed_client k only_list
       \<or> k = memoKeys_detail (m_name cached_memo) \<and> qc_get listed_client k only_list = None
         \<and> qc_get listed_client k (as_cache s') = Some (Memo_Data cached_memo)) \<and> as_visited s' = []"
    by (simp add: refusing_api_def menu_state_def cached_memo_def Let_def)
  moreover have "memoKeys_lists \<noteq> memoKeys_detail n" for n by (simp add: memoKeys_detail_def memoKeys_lists_def memoKeys_details_def memoKeys_all_def)
  ultimately show ?thesis unfolding Let_def by blast
qed

text \<open>The detail that a refused action on a list page leaves behind.\<close>

lemma refused_action_adds_detail:
  "qc_get listed_client (memoKeys_detail ''memos/1'') (as_cache (menu_step listed_client refusing_api (\<lambda>_ s. (Inl ''offline'', s))
     (\<lambda>_. None) ''/'' cached_memo Toggle_Pin (menu_state\<lparr>as_cache := only_list\<rparr>))) = Some (Memo_Data cached_memo)"
  by code_simp

text \<open>Deleting a memo leaves the page of another memo when the other's identifier goes on where this one's ends.\<close>

theorem neighbour_page_left:
  assumes "api_deleteMemo (m_name memo) (as_server s) = (Inr (), t)"
  shows "as_visited (confirmDeleteMemo qc api_deleteMemo (''/'' @ m_name memo @ rest) memo s) = as_visited s @ [ROUTES_HOME]"
proof -
  have page: "isInMemoDetailPage (CHR ''/'' # m_name memo @ rest) memo"
    using startsWith_append [of "CHR ''/'' # m_name memo" rest] by (simp add: isInMemoDetailPage_def)
  show ?thesis using assms page
    by (simp add: confirmDeleteMemo_def memoUpdatedCallback_def navigateTo_def in_cache_def toast_def Let_def split: option.split)
qed

section \<open>Reactions\<close>

text \<open>
  The documented behaviour of the server for the user signed in: deleting a reaction removes it,
  adding one replaces the user's own of that type, and reading a memo shows what is stored.
\<close>

locale reaction_server =
  fixes api :: "'s reaction_api"
    and stored :: "'s \<Rightarrow> string \<Rightarrow> reaction list"
    and me :: string
  assumes delete: "ra_delete api n s = (Inr u, s') \<Longrightarrow> stored s' m = filter (\<lambda>r. re_name r \<noteq> n) (stored s m)"
    and upsert: "ra_upsert api m t s = (Inr u, s') \<Longrightarrow> \<exists>r. re_creator r = me \<and> re_reactionType r = t
      \<and> stored s' m = filter (\<lambda>r. \<not> (re_creator r = me \<and> re_reactionType r = t)) (stored s m) @ [r]"
    and getMemo: "ra_getMemo api m s = (Inr memo, s') \<Longrightarrow> m_reactions memo = stored s m"
begin

lemma delete_all_stored:
  "delete_all api ns s = (Inr u, s') \<Longrightarrow> stored s' m = filter (\<lambda>r. re_name r \<notin> set ns) (stored s m)"
proof (induction ns arbitrary: s)
  case (Cons n ns)
  obtain r s1 where 1: "ra_delete api n s = (r, s1)" by fastforce
  obtain rs s2 where 2: "delete_all api ns s1 = (rs, s2)" by fastforce
  have r: "r = Inr ()" "rs = Inr u" "s2 = s'" using Cons.prems 1 2 by (cases r; simp)+
  then have "stored s' m = filter (\<lambda>r. re_name r \<notin> set ns) (stored s1 m)" using Cons.IH 2 by simp
  then show ?case using delete [of n s "()" s1 m] 1 r(1) by (simp add: filter_filter)
qed simp

end

definition listed_reaction_api :: "string \<Rightarrow> ((string \<Rightarrow> reaction list) \<times> nat) reaction_api" where
  "listed_reaction_api me = \<lparr>
     ra_delete = (\<lambda>n (f, c). (Inr (), (\<lambda>m. filter (\<lambda>r. re_name r \<noteq> n) (f m), c))),
     ra_upsert = (\<lambda>m t (f, c). (Inr (), (f(m := filter (\<lambda>r. \<not> (re_creator r = me \<and> re_reactionType r = t)) (f m)
       @ [\<lparr>re_name = show_nat c, re_creator = me, re_contentId = m, re_reactionType = t, re_createTime = None\<rparr>]), c + 1))),
     ra_getMemo = (\<lambda>m (f, c). (Inr (empty_memo\<lparr>m_name := m, m_reactions := f m\<rparr>), (f, c)))\<rparr>"

interpretation listed_reactions: reaction_server "listed_reaction_api me" fst me for me
  by unfold_locales (auto simp: listed_reaction_api_def)

definition own_reaction :: "user \<Rightarrow> string \<Rightarrow> reaction \<Rightarrow> bool" where
  "own_reaction cu reactionType r \<longleftrightarrow> re_reactionType r = reactionType \<and> re_creator r = u_name cu"

lemma hasReacted_own: "hasReacted memo (Some cu) t = list_ex (own_reaction cu t) (m_reactions memo)"
  by (simp add: hasReacted_def own_reaction_def [abs_def])

text \<open>A click on a reaction toggles it: when the memo shown is the server's and the requests succeed, the memo put
  into the cache has the user's reaction of that type exactly if the memo shown had not, and all other reactions are
  the same, in the same order.\<close>

theorem reaction_toggles:
  assumes "query_cache qc" and server: "reaction_server api stored (u_name cu)"
    and shown: "stored s (m_name memo) = m_reactions memo" and names: "distinct (map re_name (m_reactions memo))"
    and ok: "\<And>n t. \<not> isl (fst (ra_delete api n t))" "\<And>n r t. \<not> isl (fst (ra_upsert api n r t))" "\<And>n t. \<not> isl (fst (ra_getMemo api n t))"
  shows "case qc_get qc (memoKeys_detail (m_name memo)) (fst (handleReactionClick qc api memo (Some cu) reactionType (q, s))) of
      Some (Memo_Data memo') \<Rightarrow>
        hasReacted memo' (Some cu) reactionType = (\<not> hasReacted memo (Some cu) reactionType)
        \<and> filter (\<lambda>r. \<not> own_reaction cu reactionType r) (m_reactions memo') = filter (\<lambda>r. \<not> own_reaction cu reactionType r) (m_reactions memo)
    | _ \<Rightarrow> False"
proof -
  note getMemo = reaction_server.getMemo [OF server] and upsert = reaction_server.upsert [OF server]
    and delete_all_stored = reaction_server.delete_all_stored [OF server]
  let ?own = "own_reaction cu reactionType"
  let ?r = "if hasReacted memo (Some cu) reactionType
    then delete_all api (map re_name (filter ?own (m_reactions memo))) s else ra_upsert api (m_name memo) reactionType s"
  have deletes: "\<exists>t'. delete_all api ns t = (Inr (), t')" for ns t
  proof (induction ns arbitrary: t)
    case (Cons n ns)
    then show ?case using ok(1) [of n t] by (auto simp: case_prod_beta isl_def split: sum.split) (metis fst_conv sum.exhaust_sel old.unit.exhaust)+
  qed simp
  have "\<exists>t'. ra_upsert api (m_name memo) reactionType s = (Inr (), t')"
    using ok(2) [of "m_name memo" reactionType s] by (metis isl_def old.unit.exhaust prod.collapse sum.exhaust)
  then obtain t where t: "?r = (Inr (), t)" using deletes by (cases "hasReacted memo (Some cu) reactionType") auto
  obtain memo' t' where m: "ra_getMemo api (m_name memo) t = (Inr memo', t')"
    using ok(3) [of "m_name memo" t] by (metis isl_def prod.collapse sum.exhaust)
  have got: "qc_get qc (memoKeys_detail (m_name memo)) (fst (handleReactionClick qc api memo (Some cu) reactionType (q, s))) = Some (Memo_Data memo')"
  proof -
    have "handleReactionClick qc api memo (Some cu) reactionType (q, s) = refresh_memo qc api memo (q, t)"
      using t by (simp add: handleReactionClick_def own_reaction_def [abs_def] split: if_splits)
    then show ?thesis using m query_cache.get_set [OF assms(1)] query_cache.get_invalidate [OF assms(1)]
      by (simp add: refresh_memo_def Let_def split: option.split)
  qed
  have "m_reactions memo' = stored t (m_name memo)" using getMemo [OF m] .
  moreover have "stored t (m_name memo) = filter (\<lambda>r. \<not> ?own r) (m_reactions memo)" if "hasReacted memo (Some cu) reactionType"
  proof -
    have "stored t (m_name memo) = filter (\<lambda>r. re_name r \<notin> set (map re_name (filter ?own (m_reactions memo)))) (m_reactions memo)"
      using delete_all_stored [of _ s "()" t "m_name memo"] t that shown by simp
    also have "\<dots> = filter (\<lambda>r. \<not> ?own r) (m_reactions memo)"
      using names by (intro filter_cong) (auto simp: distinct_map inj_on_def)
    finally show ?thesis .
  qed
  moreover have "\<exists>r. ?own r \<and> stored t (m_name memo) = filter (\<lambda>r. \<not> ?own r) (m_reactions memo) @ [r]"
    if "\<not> hasReacted memo (Some cu) reactionType"
    using upsert [of "m_name memo" reactionType s "()" t] t that shown by (auto simp: own_reaction_def conj_commute)
  ultimately show ?thesis unfolding got
    by (cases "hasReacted memo (Some cu) reactionType") (auto simp: hasReacted_own list_ex_iff)
qed


definition reacted_memo :: memo where
  "reacted_memo = empty_memo\<lparr>m_name := ''memos/1'', m_reactions :=
     [\<lparr>re_name = ''r/1'', re_creator = ''users/ann'', re_contentId = ''memos/1'', re_reactionType = ''+1'', re_createTime = None\<rparr>,
      \<lparr>re_name = ''r/2'', re_creator = ''users/bob'', re_contentId = ''memos/1'', re_reactionType = ''+1'', re_createTime = None\<rparr>]\<rparr>"

theorem reaction_toggles_witness:
  "case qc_get listed_client (memoKeys_detail ''memos/1'') (fst (handleReactionClick listed_client (listed_reaction_api ''users/ann'')
      reacted_memo (Some (empty_user\<lparr>u_name := ''users/ann''\<rparr>)) ''+1'' (one_list, (\<lambda>_. m_reactions reacted_memo, 3)))) of
    Some (Memo_Data memo') \<Rightarrow> \<not> hasReacted memo' (Some (empty_user\<lparr>u_name := ''users/ann''\<rparr>)) ''+1'' | _ \<Rightarrow> False"
proof -
  let ?cu = "empty_user\<lparr>u_name := ''users/ann''\<rparr>" and ?api = "listed_reaction_api ''users/ann''"
  have server: "reaction_server ?api fst (u_name ?cu)" using listed_reactions.reaction_server_axioms by simp
  have shown: "fst (\<lambda>_. m_reactions reacted_memo, 3) (m_name reacted_memo) = m_reactions reacted_memo" by simp
  have names: "distinct (map re_name (m_reactions reacted_memo))" by (simp add: reacted_memo_def)
  have reacted: "hasReacted reacted_memo (Some ?cu) ''+1''" by (simp add: reacted_memo_def hasReacted_def)
  have ok: "\<not> isl (fst (ra_delete ?api n t))" "\<not> isl (fst (ra_upsert ?api n r t))" "\<not> isl (fst (ra_getMemo ?api n t))" for n r t
    by (simp_all add: listed_reaction_api_def case_prod_beta)
  have name: "m_name reacted_memo = ''memos/1''" by (simp add: reacted_memo_def)
  show ?thesis
    using reaction_toggles [OF listed.query_cache_axioms server shown names ok, where q = one_list and reactionType = "''+1''"] reacted
    by (simp add: name split: option.splits query_data.splits)
qed

text \<open>The groups: every type with a known user once, in the order of its first reaction, with its users in order.\<close>

lemma reaction_groups:
  "map_of (useReactionGroups userMap reactions) t =
     (let users = List.map_filter (\<lambda>r. if re_reactionType r = t then userMap (re_creator r) else None) reactions in
      if users = [] then None else Some users)"
  unfolding useReactionGroups_def
  by (induction reactions rule: rev_induct)
    (auto simp: reaction_step_def update_conv' map_filter_def Let_def split: option.splits if_splits)

end
