(* ===== verification/IdentityProviders.thy ===== *)
theory IdentityProviders
  imports MemoActions MemoFilters
begin

text \<open>
  The sign-in providers in the settings: the dialog that creates or edits one
  (\<^verbatim>\<open>components/CreateIdentityProviderDialog.tsx\<close>), the section with the list
  (\<^verbatim>\<open>components/Settings/SSOSection.tsx\<close>), and the texts the list shows
  (\<^verbatim>\<open>helpers/sso-display.ts\<close>). The section and its dialogs are one step function over clicks, key
  strokes and the answers of the server. An open dialog covers the section, so its buttons cannot be clicked.
\<close>

section \<open>Messages\<close>

datatype idp_type = TYPE_UNSPECIFIED | OAUTH2

record field_mapping =
  fm_identifier :: string
  fm_displayName :: string
  fm_email :: string
  fm_avatarUrl :: string

record oauth2_config =
  oc_clientId :: string
  oc_clientSecret :: string
  oc_authUrl :: string
  oc_tokenUrl :: string
  oc_userInfoUrl :: string
  oc_scopes :: "string list"
  oc_fieldMapping :: "field_mapping option"

text \<open>The configuration is \<open>None\<close> when it is missing or its case is not set.\<close>

record identity_provider =
  ip_name :: string
  ip_type :: idp_type
  ip_title :: string
  ip_identifierFilter :: string
  ip_config :: "oauth2_config option"

section \<open>Templates\<close>

definition template :: "string \<Rightarrow> string \<Rightarrow> string \<Rightarrow> string \<Rightarrow> string list \<Rightarrow> string \<Rightarrow> string \<Rightarrow> string \<Rightarrow> identity_provider" where
  "template title authUrl tokenUrl userInfoUrl scopes identifier displayName email =
     \<lparr>ip_name = [], ip_type = OAUTH2, ip_title = title, ip_identifierFilter = [],
      ip_config = Some \<lparr>oc_clientId = [], oc_clientSecret = [], oc_authUrl = authUrl, oc_tokenUrl = tokenUrl,
        oc_userInfoUrl = userInfoUrl, oc_scopes = scopes,
        oc_fieldMapping = Some \<lparr>fm_identifier = identifier, fm_displayName = displayName, fm_email = email, fm_avatarUrl = []\<rparr>\<rparr>\<rparr>"

definition templateList :: "identity_provider list" where
  "templateList =
     [template ''GitHub'' ''https://github.com/login/oauth/authorize'' ''https://github.com/login/oauth/access_token''
        ''https://api.github.com/user'' [''read:user''] ''login'' ''name'' ''email'',
      template ''GitLab'' ''https://gitlab.com/oauth/authorize'' ''https://gitlab.com/oauth/token''
        ''https://gitlab.com/oauth/userinfo'' [''openid''] ''name'' ''name'' ''email'',
      template ''Google'' ''https://accounts.google.com/o/oauth2/v2/auth'' ''https://oauth2.googleapis.com/token''
        ''https://www.googleapis.com/oauth2/v2/userinfo''
        [''https://www.googleapis.com/auth/userinfo.email'', ''https://www.googleapis.com/auth/userinfo.profile'']
        ''email'' ''name'' ''email'',
      template ''Custom'' [] [] [] [] [] [] []]"

definition DEFAULT_TEMPLATE :: string where "DEFAULT_TEMPLATE = ''GitHub''"

section \<open>The fields of the dialog\<close>

record basic_info =
  bi_title :: string
  bi_identifier :: string
  bi_identifierFilter :: string

definition createEmptyFieldMapping :: field_mapping where
  "createEmptyFieldMapping = \<lparr>fm_identifier = [], fm_displayName = [], fm_email = [], fm_avatarUrl = []\<rparr>"

definition createEmptyOAuth2Config :: oauth2_config where
  "createEmptyOAuth2Config =
     \<lparr>oc_clientId = [], oc_clientSecret = [], oc_authUrl = [], oc_tokenUrl = [], oc_userInfoUrl = [], oc_scopes = [],
      oc_fieldMapping = Some createEmptyFieldMapping\<rparr>"

definition createEmptyBasicInfo :: basic_info where
  "createEmptyBasicInfo = \<lparr>bi_title = [], bi_identifier = [], bi_identifierFilter = []\<rparr>"

definition identifier_char :: "char \<Rightarrow> bool" where
  "identifier_char c \<longleftrightarrow> is_lower_ascii c \<or> is_digit c \<or> c = CHR ''-''"

text \<open>A run of hyphens becomes one.\<close>

fun collapse_hyphens :: "string \<Rightarrow> string" where
  "collapse_hyphens (c # d # s) =
     (if c = CHR ''-'' \<and> d = CHR ''-'' then collapse_hyphens (d # s) else c # collapse_hyphens (d # s))"
| "collapse_hyphens s = s"

definition strip_hyphens :: "string \<Rightarrow> string" where
  "strip_hyphens s = rev (dropWhile ((=) CHR ''-'') (rev (dropWhile ((=) CHR ''-'') s)))"

definition sanitizeIdentifier :: "string \<Rightarrow> string" where
  "sanitizeIdentifier value =
     strip_hyphens (collapse_hyphens (map (\<lambda>c. if identifier_char c then c else CHR ''-'') (toLowerCase value)))"

text \<open>\<open>split\<close> at each run of blanks.\<close>

function split_blanks :: "string \<Rightarrow> string list" where
  "split_blanks s =
     (case dropWhile (\<lambda>c. \<not> is_ws c) s of
        [] \<Rightarrow> [s]
      | c # r \<Rightarrow> takeWhile (\<lambda>c. \<not> is_ws c) s # split_blanks (dropWhile is_ws r))"
  by pat_completeness auto

termination
proof (relation "measure length")
  fix s :: string and c r
  assume "dropWhile (\<lambda>c. \<not> is_ws c) s = c # r"
  then have "length (c # r) \<le> length s" using length_dropWhile_le [of "\<lambda>c. \<not> is_ws c" s] by simp
  moreover have "length (dropWhile is_ws r) \<le> length r" by (rule length_dropWhile_le)
  ultimately show "(dropWhile is_ws r, s) \<in> measure length" by simp
qed simp

definition normalizeScopes :: "string \<Rightarrow> string list" where
  "normalizeScopes value = filter (\<lambda>s. s \<noteq> []) (map trim (split_blanks value))"

definition findTemplate :: "string \<Rightarrow> identity_provider" where
  "findTemplate templateName =
     (case List.find (\<lambda>p. ip_title p = templateName) templateList of None \<Rightarrow> hd templateList | Some p \<Rightarrow> p)"

record dialog_fields =
  df_basicInfo :: basic_info
  df_type :: idp_type
  df_oauth2Config :: oauth2_config
  df_oauth2Scopes :: string

definition provider_config :: "identity_provider \<Rightarrow> oauth2_config" where
  "provider_config p =
     (case ip_config p of
        None \<Rightarrow> createEmptyOAuth2Config
      | Some c \<Rightarrow> if ip_type p = OAUTH2 then c else createEmptyOAuth2Config)"

definition buildDialogStateFromTemplate :: "string \<Rightarrow> dialog_fields" where
  "buildDialogStateFromTemplate templateName =
     (let p = findTemplate templateName; oauth2Config = provider_config p in
      \<lparr>df_basicInfo = \<lparr>bi_title = ip_title p, bi_identifier = sanitizeIdentifier (ip_title p),
         bi_identifierFilter = ip_identifierFilter p\<rparr>,
       df_type = ip_type p, df_oauth2Config = oauth2Config, df_oauth2Scopes = join '' '' (oc_scopes oauth2Config)\<rparr>)"

definition buildDialogStateFromProvider :: "identity_provider \<Rightarrow> dialog_fields" where
  "buildDialogStateFromProvider p =
     (let oauth2Config = provider_config p in
      \<lparr>df_basicInfo = \<lparr>bi_title = ip_title p, bi_identifier = [], bi_identifierFilter = ip_identifierFilter p\<rparr>,
       df_type = ip_type p, df_oauth2Config = oauth2Config, df_oauth2Scopes = join '' '' (oc_scopes oauth2Config)\<rparr>)"

definition empty_fields :: dialog_fields where
  "empty_fields = \<lparr>df_basicInfo = createEmptyBasicInfo, df_type = OAUTH2, df_oauth2Config = createEmptyOAuth2Config, df_oauth2Scopes = []\<rparr>"

definition shown_mapping :: "oauth2_config \<Rightarrow> field_mapping" where
  "shown_mapping c = (case oc_fieldMapping c of None \<Rightarrow> createEmptyFieldMapping | Some m \<Rightarrow> m)"

section \<open>The state\<close>

datatype idp_request =
    Create_Provider string identity_provider
  | Update_Provider identity_provider "string list"
  | Delete_Provider string

text \<open>What follows the answer to a request for the list.\<close>

datatype after_fetch = Nothing_More | Saved_Dialog | Deleted_One

text \<open>A request of the dialog under way, with what its closure holds.\<close>

record pending_save =
  ps_creating :: bool
  ps_title :: string

record sso_state =
  ss_list :: "identity_provider list"
  ss_editing :: "identity_provider option"
  ss_deleteTarget :: "identity_provider option"
  ss_deleting :: bool
  ss_open :: bool
  ss_fields :: dialog_fields
  ss_template :: string
  ss_submitting :: bool
  ss_saves :: "pending_save list"
  ss_fetches :: "after_fetch list"
  ss_requests :: "idp_request list"
  ss_toasts :: "toast list"

abbreviation creating :: "sso_state \<Rightarrow> bool" where
  "creating s \<equiv> ss_editing s = None"

definition idp_dialog_effect :: "sso_state \<Rightarrow> sso_state" where
  "idp_dialog_effect s =
     (if \<not> ss_open s then
        s\<lparr>ss_template := DEFAULT_TEMPLATE, ss_fields := empty_fields, ss_submitting := False\<rparr>
      else
        s\<lparr>ss_fields := (case ss_editing s of
            None \<Rightarrow> buildDialogStateFromTemplate (ss_template s)
          | Some p \<Rightarrow> buildDialogStateFromProvider p)\<rparr>)"

definition allowConfirmAction :: "sso_state \<Rightarrow> bool" where
  "allowConfirmAction s =
     (let f = ss_fields s; b = df_basicInfo f; c = df_oauth2Config f in
      if trim (bi_title b) = [] then False
      else if creating s \<and> trim (bi_identifier b) = [] then False
      else if df_type f = OAUTH2
        \<and> (trim (oc_clientId c) = [] \<or> trim (oc_authUrl c) = [] \<or> trim (oc_tokenUrl c) = [] \<or> trim (oc_userInfoUrl c) = []
           \<or> normalizeScopes (df_oauth2Scopes f) = [] \<or> trim (fm_identifier (shown_mapping c)) = []) then False
      else if df_type f = OAUTH2 \<and> creating s \<and> trim (oc_clientSecret c) = [] then False
      else \<not> ss_submitting s)"

section \<open>The handlers\<close>

definition toast_sso :: "toast \<Rightarrow> sso_state \<Rightarrow> sso_state" where
  "toast_sso t s = s\<lparr>ss_toasts := ss_toasts s @ [t]\<rparr>"

definition fetch_list :: "after_fetch \<Rightarrow> sso_state \<Rightarrow> sso_state" where
  "fetch_list k s = s\<lparr>ss_fetches := ss_fetches s @ [k]\<rparr>"

definition built_provider :: "sso_state \<Rightarrow> identity_provider" where
  "built_provider s =
     (let f = ss_fields s in
      \<lparr>ip_name = (case ss_editing s of None \<Rightarrow> [] | Some p \<Rightarrow> ip_name p), ip_type = df_type f,
       ip_title = trim (bi_title (df_basicInfo f)), ip_identifierFilter = trim (bi_identifierFilter (df_basicInfo f)),
       ip_config = Some ((df_oauth2Config f)\<lparr>oc_scopes := normalizeScopes (df_oauth2Scopes f)\<rparr>)\<rparr>)"

definition handleConfirmBtnClick :: "sso_state \<Rightarrow> sso_state" where
  "handleConfirmBtnClick s =
     (let request = (if creating s then Create_Provider (bi_identifier (df_basicInfo (ss_fields s))) (built_provider s)
        else Update_Provider (built_provider s) [''title'', ''identifier_filter'', ''config'']) in
      s\<lparr>ss_submitting := True, ss_requests := ss_requests s @ [request],
        ss_saves := ss_saves s @ [\<lparr>ps_creating = creating s, ps_title = bi_title (df_basicInfo (ss_fields s))\<rparr>]\<rparr>)"

definition handleDialogOpenChange :: "bool \<Rightarrow> sso_state \<Rightarrow> sso_state" where
  "handleDialogOpenChange nextOpen s = s\<lparr>ss_open := nextOpen, ss_editing := if nextOpen then ss_editing s else None\<rparr>"

definition handleDialogClose :: "bool \<Rightarrow> sso_state \<Rightarrow> sso_state" where
  "handleDialogClose nextOpen s = (if ss_submitting s \<and> \<not> nextOpen then s else handleDialogOpenChange nextOpen s)"

definition without_nth :: "nat \<Rightarrow> 'a list \<Rightarrow> 'a list" where
  "without_nth i xs = take i xs @ drop (Suc i) xs"

text \<open>
  The rest of the click after the answer. \<open>handleDialogClose\<close> is that of the rendering of the click, when
  nothing was being submitted; \<open>onSuccess\<close> is not waited for.
\<close>

definition save_answered :: "nat \<Rightarrow> thrown option \<Rightarrow> sso_state \<Rightarrow> sso_state" where
  "save_answered i failure s =
     (if length (ss_saves s) \<le> i then s
      else
        let p = ss_saves s ! i; s1 = s\<lparr>ss_saves := without_nth i (ss_saves s), ss_submitting := False\<rparr> in
        case failure of
          Some e \<Rightarrow>
            toast_sso (Toast_Error (handleError e
              (Some (if ps_creating p then ''Create identity provider'' else ''Update identity provider'')) None)) s1
        | None \<Rightarrow>
            handleDialogOpenChange False (fetch_list Saved_Dialog
              (toast_sso (Toast_Success (if ps_creating p then ''setting.sso.sso-created'' else ''setting.sso.sso-updated'')) s1)))"

text \<open>The answer to a request for the list, and what its caller does after it.\<close>

definition fetch_answered :: "nat \<Rightarrow> thrown + identity_provider list \<Rightarrow> sso_state \<Rightarrow> sso_state" where
  "fetch_answered i answer s =
     (if length (ss_fetches s) \<le> i then s
      else
        let k = ss_fetches s ! i; s1 = s\<lparr>ss_fetches := without_nth i (ss_fetches s)\<rparr>;
            s2 = (case answer of
               Inr ps \<Rightarrow> s1\<lparr>ss_list := ps\<rparr>
             | Inl e \<Rightarrow> toast_sso (Toast_Error (handleError e (Some ''Load identity providers'') None)) s1) in
        case k of
          Nothing_More \<Rightarrow> s2
        | Saved_Dialog \<Rightarrow> s2\<lparr>ss_open := False, ss_editing := None\<rparr>
        | Deleted_One \<Rightarrow> s2\<lparr>ss_deleteTarget := None, ss_deleting := False\<rparr>)"

definition confirmDeleteIdentityProvider :: "sso_state \<Rightarrow> sso_state" where
  "confirmDeleteIdentityProvider s =
     (case ss_deleteTarget s of
        None \<Rightarrow> s
      | Some p \<Rightarrow> if ss_deleting s then s
          else s\<lparr>ss_deleting := True, ss_requests := ss_requests s @ [Delete_Provider (ip_name p)]\<rparr>)"

definition delete_answered :: "thrown option \<Rightarrow> sso_state \<Rightarrow> sso_state" where
  "delete_answered failure s =
     (if \<not> ss_deleting s \<or> Deleted_One \<in> set (ss_fetches s) then s
      else
        fetch_list Deleted_One
          (case failure of
             None \<Rightarrow> s
           | Some e \<Rightarrow> toast_sso (Toast_Error (handleError e (Some ''Delete identity provider'') None)) s))"

section \<open>The step function\<close>

datatype sso_event =
    Click_Create | Click_Edit nat | Click_Delete nat
  | Delete_Closed | Delete_Confirmed | Delete_Answered "thrown option"
  | Fetch_Answered nat "thrown + identity_provider list"
  | Select_Type idp_type | Select_Template string
  | Type_Identifier string | Type_Title string | Type_Filter string | Type_Scopes string
  | Type_Config "oauth2_config \<Rightarrow> oauth2_config" | Type_Mapping "field_mapping \<Rightarrow> field_mapping"
  | Click_Confirm | Click_Cancel | Dialog_Change bool | Save_Answered nat "thrown option"

definition covered :: "sso_state \<Rightarrow> bool" where
  "covered s \<longleftrightarrow> ss_open s \<or> ss_deleteTarget s \<noteq> None"

definition set_fields :: "(dialog_fields \<Rightarrow> dialog_fields) \<Rightarrow> sso_state \<Rightarrow> sso_state" where
  "set_fields f s = (if ss_open s then s\<lparr>ss_fields := f (ss_fields s)\<rparr> else s)"

definition set_basic :: "(basic_info \<Rightarrow> basic_info) \<Rightarrow> sso_state \<Rightarrow> sso_state" where
  "set_basic f = set_fields (\<lambda>d. d\<lparr>df_basicInfo := f (df_basicInfo d)\<rparr>)"

definition setPartialOAuth2Config :: "(oauth2_config \<Rightarrow> oauth2_config) \<Rightarrow> sso_state \<Rightarrow> sso_state" where
  "setPartialOAuth2Config f = set_fields (\<lambda>d. d\<lparr>df_oauth2Config := f (df_oauth2Config d)\<rparr>)"

definition setPartialFieldMapping :: "(field_mapping \<Rightarrow> field_mapping) \<Rightarrow> sso_state \<Rightarrow> sso_state" where
  "setPartialFieldMapping f =
     setPartialOAuth2Config (\<lambda>c. c\<lparr>oc_fieldMapping := Some (f (shown_mapping c))\<rparr>)"

text \<open>The longest text the browser lets the user enter as an identifier.\<close>

definition identifier_maxLength :: nat where "identifier_maxLength = 32"

definition sso_handle :: "sso_event \<Rightarrow> sso_state \<Rightarrow> sso_state" where
  "sso_handle e s =
     (case e of
        Click_Create \<Rightarrow> if covered s then s else s\<lparr>ss_editing := None, ss_open := True\<rparr>
      | Click_Edit i \<Rightarrow> if covered s \<or> length (ss_list s) \<le> i then s else s\<lparr>ss_editing := Some (ss_list s ! i), ss_open := True\<rparr>
      | Click_Delete i \<Rightarrow> if covered s \<or> length (ss_list s) \<le> i then s else s\<lparr>ss_deleteTarget := Some (ss_list s ! i)\<rparr>
      | Delete_Closed \<Rightarrow> if ss_deleting s then s else s\<lparr>ss_deleteTarget := None\<rparr>
      | Delete_Confirmed \<Rightarrow> confirmDeleteIdentityProvider s
      | Delete_Answered failure \<Rightarrow> delete_answered failure s
      | Fetch_Answered i answer \<Rightarrow> fetch_answered i answer s
      | Select_Type t \<Rightarrow> if creating s \<and> t \<in> ip_type ` set templateList then set_fields (\<lambda>d. d\<lparr>df_type := t\<rparr>) s else s
      | Select_Template t \<Rightarrow> if ss_open s \<and> creating s \<and> t \<in> ip_title ` set templateList then s\<lparr>ss_template := t\<rparr> else s
      | Type_Identifier v \<Rightarrow>
          if creating s \<and> length v \<le> identifier_maxLength then set_basic (\<lambda>b. b\<lparr>bi_identifier := sanitizeIdentifier v\<rparr>) s else s
      | Type_Title v \<Rightarrow> set_basic (\<lambda>b. b\<lparr>bi_title := v\<rparr>) s
      | Type_Filter v \<Rightarrow> set_basic (\<lambda>b. b\<lparr>bi_identifierFilter := v\<rparr>) s
      | Type_Scopes v \<Rightarrow> set_fields (\<lambda>d. d\<lparr>df_oauth2Scopes := v\<rparr>) s
      | Type_Config f \<Rightarrow> setPartialOAuth2Config f s
      | Type_Mapping f \<Rightarrow> setPartialFieldMapping f s
      | Click_Confirm \<Rightarrow> if ss_open s \<and> allowConfirmAction s then handleConfirmBtnClick s else s
      | Click_Cancel \<Rightarrow> if ss_open s \<and> \<not> ss_submitting s then handleDialogClose False s else s
      | Dialog_Change nextOpen \<Rightarrow> if ss_open s then handleDialogClose nextOpen s else s
      | Save_Answered i failure \<Rightarrow> save_answered i failure s)"

text \<open>After the event the effect of the dialog runs when one of its dependencies has changed.\<close>

definition sso_step :: "sso_state \<Rightarrow> sso_event \<Rightarrow> sso_state" where
  "sso_step s e =
     (let s' = sso_handle e s in
      if ss_open s' \<noteq> ss_open s \<or> ss_editing s' \<noteq> ss_editing s \<or> ss_template s' \<noteq> ss_template s then idp_dialog_effect s' else s')"

definition sso_mount :: sso_state where
  "sso_mount =
     \<lparr>ss_list = [], ss_editing = None, ss_deleteTarget = None, ss_deleting = False, ss_open = False, ss_fields = empty_fields,
      ss_template = DEFAULT_TEMPLATE, ss_submitting = False, ss_saves = [], ss_fetches = [Nothing_More], ss_requests = [], ss_toasts = []\<rparr>"

section \<open>What the list shows\<close>

record summary_item =
  si_key :: string
  si_label :: string
  si_value :: string
  si_tooltip :: "string option"

definition getIdentityProviderTypeLabel :: "idp_type \<Rightarrow> string" where
  "getIdentityProviderTypeLabel t = (case t of OAUTH2 \<Rightarrow> ''OAuth2'' | TYPE_UNSPECIFIED \<Rightarrow> ''Unknown'')"

text \<open>\<open>url\<close>: the host and the path of an address the browser accepts, \<open>None\<close> where its constructor throws.\<close>

definition drop_scheme :: "string \<Rightarrow> string" where
  "drop_scheme s = (if startsWith s ''http://'' then drop 7 s else if startsWith s ''https://'' then drop 8 s else s)"

definition drop_last_slash :: "string \<Rightarrow> string" where
  "drop_last_slash s = (if endsWith s ''/'' then butlast s else s)"

definition getEndpointSummary :: "(string \<Rightarrow> (string \<times> string) option) \<Rightarrow> string \<Rightarrow> string" where
  "getEndpointSummary url u =
     (if u = [] then []
      else case url u of
             Some (host, pathname) \<Rightarrow> host @ (if pathname = ''/'' then [] else drop_last_slash pathname)
           | None \<Rightarrow> drop_last_slash (drop_scheme u))"

definition middle_dot :: string where "middle_dot = [CHR '' '', CHR 0xB7, CHR '' '']"

definition getFieldMappingSummary :: "(string \<Rightarrow> string) \<Rightarrow> field_mapping option \<Rightarrow> string" where
  "getFieldMappingSummary t mapping =
     (case mapping of
        None \<Rightarrow> t ''setting.sso.mapping-none''
      | Some m \<Rightarrow>
          if fm_identifier m = [] then t ''setting.sso.mapping-none''
          else join middle_dot
            ([t ''setting.sso.mapping-identifier-short'' @ ''='' @ fm_identifier m]
             @ (if fm_displayName m = [] then [] else [t ''setting.sso.mapping-display-name-short'' @ ''='' @ fm_displayName m])
             @ (if fm_email m = [] then [] else [t ''setting.sso.mapping-email-short'' @ ''='' @ fm_email m])
             @ (if fm_avatarUrl m = [] then [] else [t ''setting.sso.mapping-avatar-short'' @ ''='' @ fm_avatarUrl m])))"

definition SUMMARY_TEXT_MAX :: nat where "SUMMARY_TEXT_MAX = 48"

text \<open>The ellipsis is a character beyond the model's, so it is an argument.\<close>

definition truncateMiddle :: "char \<Rightarrow> string \<Rightarrow> nat \<Rightarrow> string" where
  "truncateMiddle ellipsis value maxLength =
     (if length value \<le> maxLength then value
      else take (maxLength div 2) value @ [ellipsis]
        @ (if (maxLength - 1) div 2 = 0 then value else drop (length value - (maxLength - 1) div 2) value))"

definition getIdentifierFilterSummary :: "char \<Rightarrow> (string \<Rightarrow> string) \<Rightarrow> string \<Rightarrow> string" where
  "getIdentifierFilterSummary ellipsis t f =
     (if f = [] then t ''setting.sso.filter-disabled'' else truncateMiddle ellipsis f SUMMARY_TEXT_MAX)"

text \<open>\<open>t\<close> translates a key, \<open>plural\<close> a key with a number.\<close>

definition buildOAuth2SummaryItems ::
  "(string \<Rightarrow> (string \<times> string) option) \<Rightarrow> char \<Rightarrow> (string \<Rightarrow> string) \<Rightarrow> (string \<Rightarrow> nat \<Rightarrow> string) \<Rightarrow> oauth2_config \<Rightarrow> string \<Rightarrow> summary_item list" where
  "buildOAuth2SummaryItems url ellipsis t plural c identifierFilter =
     (let urls = [oc_authUrl c, oc_tokenUrl c, oc_userInfoUrl c];
          endpointSummaries = filter (\<lambda>s. s \<noteq> []) (map (getEndpointSummary url) urls) in
      filter (\<lambda>i. si_value i \<noteq> [])
        ([\<lparr>si_key = ''endpoints'', si_label = t ''setting.sso.endpoints'', si_value = join middle_dot (js_uniq endpointSummaries),
           si_tooltip = Some (join [CHR 0x0A] (filter (\<lambda>s. s \<noteq> []) urls))\<rparr>,
          \<lparr>si_key = ''mapping'', si_label = t ''setting.sso.mapping'', si_value = getFieldMappingSummary t (oc_fieldMapping c),
           si_tooltip = map_option (\<lambda>m. getFieldMappingSummary t (Some m)) (oc_fieldMapping c)\<rparr>,
          \<lparr>si_key = ''scopes'', si_label = t ''setting.sso.scopes'',
           si_value = (if length (oc_scopes c) = 1 then plural ''setting.sso.scope-count_one'' (length (oc_scopes c))
             else plural ''setting.sso.scope-count_other'' (length (oc_scopes c))),
           si_tooltip = (if oc_scopes c = [] then None else Some (join [CHR 0x0A] (oc_scopes c)))\<rparr>]
         @ (if identifierFilter = [] then []
            else [\<lparr>si_key = ''filter'', si_label = t ''setting.sso.identifier-filter'',
              si_value = getIdentifierFilterSummary ellipsis t identifierFilter, si_tooltip = Some identifierFilter\<rparr>])))"

definition getOAuth2SummaryItems ::
  "(string \<Rightarrow> (string \<times> string) option) \<Rightarrow> char \<Rightarrow> (string \<Rightarrow> string) \<Rightarrow> (string \<Rightarrow> nat \<Rightarrow> string) \<Rightarrow> identity_provider \<Rightarrow> summary_item list" where
  "getOAuth2SummaryItems url ellipsis t plural p =
     (case ip_config p of None \<Rightarrow> [] | Some c \<Rightarrow> buildOAuth2SummaryItems url ellipsis t plural c (ip_identifierFilter p))"

section \<open>Identifiers\<close>

text \<open>What the server accepts as an identifier: the pattern of \<^verbatim>\<open>internal/base/resource_name.go\<close>.\<close>

definition uid_ok :: "string \<Rightarrow> bool" where
  "uid_ok s \<longleftrightarrow> s \<noteq> [] \<and> length s \<le> 36 \<and> list_all (\<lambda>c. is_alnum_ascii c \<or> c = CHR ''-'') s
     \<and> is_alnum_ascii (hd s) \<and> is_alnum_ascii (last s)"

lemma set_collapse: "set (collapse_hyphens s) \<subseteq> set s"
  by (induction s rule: collapse_hyphens.induct) auto

lemma length_collapse: "length (collapse_hyphens s) \<le> length s"
  by (induction s rule: collapse_hyphens.induct) auto

lemma strip_hyphens_prefix: "\<exists>r. dropWhile ((=) CHR ''-'') s = strip_hyphens s @ r"
proof -
  define u where "u = dropWhile ((=) CHR ''-'') s"
  have "u = rev (dropWhile ((=) CHR ''-'') (rev u)) @ rev (takeWhile ((=) CHR ''-'') (rev u))"
    by (simp flip: rev_append)
  then show ?thesis unfolding strip_hyphens_def u_def [symmetric] by blast
qed

lemma strip_hyphens_ends:
  assumes "strip_hyphens s \<noteq> []"
  shows "hd (strip_hyphens s) \<noteq> CHR ''-''" "last (strip_hyphens s) \<noteq> CHR ''-''"
proof -
  obtain r where r: "dropWhile ((=) CHR ''-'') s = strip_hyphens s @ r" using strip_hyphens_prefix by blast
  then have "hd (strip_hyphens s) = hd (dropWhile ((=) CHR ''-'') s)" using assms by simp
  moreover have "dropWhile ((=) CHR ''-'') s \<noteq> []" using r assms by auto
  ultimately show "hd (strip_hyphens s) \<noteq> CHR ''-''" using hd_dropWhile [of "(=) CHR ''-''" s] by auto
  have "dropWhile ((=) CHR ''-'') (rev (dropWhile ((=) CHR ''-'') s)) \<noteq> []" using assms by (simp add: strip_hyphens_def)
  from hd_dropWhile [OF this] assms show "last (strip_hyphens s) \<noteq> CHR ''-''" by (auto simp: strip_hyphens_def last_rev)
qed

lemma strip_hyphens_part: "set (strip_hyphens s) \<subseteq> set s" "length (strip_hyphens s) \<le> length s"
proof -
  obtain r where r: "dropWhile ((=) CHR ''-'') s = strip_hyphens s @ r" using strip_hyphens_prefix by blast
  show "set (strip_hyphens s) \<subseteq> set s" using r set_dropWhileD [of _ "(=) CHR ''-''" s] by auto
  have "length (strip_hyphens s @ r) \<le> length s" unfolding r [symmetric] by (rule length_dropWhile_le)
  then show "length (strip_hyphens s) \<le> length s" by simp
qed

lemma sanitize_chars: "c \<in> set (sanitizeIdentifier v) \<Longrightarrow> identifier_char c"
proof -
  assume "c \<in> set (sanitizeIdentifier v)"
  then have "c \<in> set (map (\<lambda>c. if identifier_char c then c else CHR ''-'') (toLowerCase v))"
    unfolding sanitizeIdentifier_def using strip_hyphens_part(1) set_collapse by blast
  then show ?thesis by (auto simp: identifier_char_def split: if_splits)
qed

lemma length_sanitize: "length (sanitizeIdentifier v) \<le> length v"
  unfolding sanitizeIdentifier_def
  using strip_hyphens_part(2) [of "collapse_hyphens (map (\<lambda>c. if identifier_char c then c else CHR ''-'') (toLowerCase v))"]
    length_collapse [of "map (\<lambda>c. if identifier_char c then c else CHR ''-'') (toLowerCase v)"] by simp

lemma uid_sanitize:
  assumes "length v \<le> 36" and "sanitizeIdentifier v \<noteq> []"
  shows "uid_ok (sanitizeIdentifier v)"
proof -
  have alnum: "is_alnum_ascii c" if "c \<in> set (sanitizeIdentifier v)" "c \<noteq> CHR ''-''" for c
    using sanitize_chars [OF that(1)] that(2) by (auto simp: identifier_char_def is_alnum_ascii_def)
  moreover have "hd (sanitizeIdentifier v) \<noteq> CHR ''-''" "last (sanitizeIdentifier v) \<noteq> CHR ''-''"
    using assms(2) strip_hyphens_ends by (simp_all add: sanitizeIdentifier_def)
  ultimately show ?thesis using assms length_sanitize [of v] by (auto simp: uid_ok_def list_all_iff)
qed

section \<open>Scopes\<close>

definition scope_ok :: "string \<Rightarrow> bool" where
  "scope_ok s \<longleftrightarrow> s \<noteq> [] \<and> list_all (\<lambda>c. \<not> is_ws c) s"

lemma trim_idem [simp]: "trim (trim s) = trim s"
proof -
  define u where "u = dropWhile is_ws s"
  define t where "t = rev (dropWhile is_ws (rev u))"
  have t: "trim s = t" by (simp add: trim_def trimStart_def trimEnd_def u_def t_def)
  have pre: "u = t @ rev (takeWhile is_ws (rev u))" unfolding t_def by (simp flip: rev_append)
  have "dropWhile is_ws t = t"
  proof (cases t)
    case (Cons c r)
    then have "u \<noteq> [] \<and> hd u = c" using pre by (metis append_Cons list.distinct(1) list.sel(1))
    then have "\<not> is_ws c" unfolding u_def using hd_dropWhile by blast
    then show ?thesis using Cons by simp
  qed simp
  moreover have "rev (dropWhile is_ws (rev t)) = t" by (simp add: t_def dropWhile_idem)
  ultimately show ?thesis unfolding t by (simp add: trim_def trimStart_def trimEnd_def)
qed

lemma trim_no_ws: "list_all (\<lambda>c. \<not> is_ws c) s \<Longrightarrow> trim s = s"
proof -
  assume a: "list_all (\<lambda>c. \<not> is_ws c) s"
  have "dropWhile is_ws t = t" if "set t = set s" for t using a that by (cases t) (auto simp: list_all_iff)
  then show ?thesis by (simp add: trim_def trimStart_def trimEnd_def)
qed

declare split_blanks.simps [simp del]

lemma split_blanks_parts: "w \<in> set (split_blanks s) \<Longrightarrow> list_all (\<lambda>c. \<not> is_ws c) w"
proof (induction s rule: split_blanks.induct)
  case (1 s)
  have t: "list_all (\<lambda>c. \<not> is_ws c) (takeWhile (\<lambda>c. \<not> is_ws c) s)"
    by (auto simp: list_all_iff dest: set_takeWhileD)
  show ?case
  proof (cases "dropWhile (\<lambda>c. \<not> is_ws c) s")
    case Nil
    then have "takeWhile (\<lambda>c. \<not> is_ws c) s = s" by (metis append_Nil2 takeWhile_dropWhile_id)
    then show ?thesis using 1(2) t Nil by (simp add: split_blanks.simps [of s] list_all_iff)
  next
    case (Cons c r)
    then show ?thesis using 1 t by (auto simp: split_blanks.simps [of s])
  qed
qed

lemma normalize_scopes_ok: "list_all scope_ok (normalizeScopes v)"
  using split_blanks_parts by (auto simp: normalizeScopes_def scope_ok_def list_all_iff trim_no_ws)

lemma split_blanks_word:
  "list_all (\<lambda>c. \<not> is_ws c) w \<Longrightarrow> split_blanks (w @ CHR '' '' # r) = w # split_blanks (dropWhile is_ws r)"
  "list_all (\<lambda>c. \<not> is_ws c) w \<Longrightarrow> split_blanks w = [w]"
proof -
  have ws: "is_ws CHR '' ''" by (simp add: is_ws_def code_unit_def)
  assume a: "list_all (\<lambda>c. \<not> is_ws c) w"
  then have "takeWhile (\<lambda>c. \<not> is_ws c) (w @ CHR '' '' # r) = w"
    "dropWhile (\<lambda>c. \<not> is_ws c) (w @ CHR '' '' # r) = CHR '' '' # r"
    using ws by (simp_all add: list_all_iff takeWhile_append dropWhile_append)
  then show "split_blanks (w @ CHR '' '' # r) = w # split_blanks (dropWhile is_ws r)"
    by (simp add: split_blanks.simps [of "w @ CHR '' '' # r"])
  have "dropWhile (\<lambda>c. \<not> is_ws c) w = []" using a by (simp add: list_all_iff)
  then show "split_blanks w = [w]" unfolding split_blanks.simps [of w] by (simp only: list.case)
qed

lemma normalize_join: "list_all scope_ok ws \<Longrightarrow> normalizeScopes (join '' '' ws) = ws"
proof (induction "'' ''" ws rule: join.induct)
  case 1
  then show ?case by (simp add: normalizeScopes_def split_blanks.simps trim_no_ws)
next
  case (2 w)
  then show ?case by (simp add: normalizeScopes_def scope_ok_def split_blanks_word(2) trim_no_ws)
next
  case (3 w v vs)
  have "dropWhile is_ws (join '' '' (v # vs)) = join '' '' (v # vs)"
    using 3(2) by (cases v; cases vs) (auto simp: scope_ok_def)
  then have "split_blanks (join '' '' (w # v # vs)) = w # split_blanks (join '' '' (v # vs))"
    using 3(2) split_blanks_word(1) [of w "join '' '' (v # vs)"] by (simp add: scope_ok_def)
  then show ?case using 3 by (simp add: normalizeScopes_def scope_ok_def trim_no_ws)
qed

section \<open>What is sent\<close>

definition config_complete :: "bool \<Rightarrow> oauth2_config option \<Rightarrow> bool" where
  "config_complete secret config =
     (case config of
        None \<Rightarrow> False
      | Some c \<Rightarrow>
          trim (oc_clientId c) \<noteq> [] \<and> trim (oc_authUrl c) \<noteq> [] \<and> trim (oc_tokenUrl c) \<noteq> [] \<and> trim (oc_userInfoUrl c) \<noteq> []
          \<and> (secret \<longrightarrow> trim (oc_clientSecret c) \<noteq> []) \<and> oc_scopes c \<noteq> [] \<and> list_all scope_ok (oc_scopes c)
          \<and> (case oc_fieldMapping c of None \<Rightarrow> False | Some m \<Rightarrow> trim (fm_identifier m) \<noteq> []))"

definition title_ok :: "identity_provider \<Rightarrow> bool" where
  "title_ok p \<longleftrightarrow> ip_title p \<noteq> [] \<and> trim (ip_title p) = ip_title p"

definition request_ok :: "idp_request \<Rightarrow> bool" where
  "request_ok r =
     (case r of
        Create_Provider i p \<Rightarrow> uid_ok i \<and> ip_name p = [] \<and> title_ok p \<and> ip_type p = OAUTH2 \<and> config_complete True (ip_config p)
      | Update_Provider p paths \<Rightarrow>
          title_ok p \<and> paths = [''title'', ''identifier_filter'', ''config'']
          \<and> (ip_type p = OAUTH2 \<longrightarrow> config_complete False (ip_config p))
      | Delete_Provider _ \<Rightarrow> True)"

definition request_target :: "sso_state \<Rightarrow> idp_request \<Rightarrow> bool" where
  "request_target s r =
     (case r of
        Create_Provider _ _ \<Rightarrow> ss_editing s = None
      | Update_Provider p _ \<Rightarrow> map_option ip_name (ss_editing s) = Some (ip_name p)
      | Delete_Provider n \<Rightarrow> map_option ip_name (ss_deleteTarget s) = Some n)"

definition sso_ok :: "sso_state \<Rightarrow> bool" where
  "sso_ok s \<longleftrightarrow>
     (let i = bi_identifier (df_basicInfo (ss_fields s)) in i = [] \<or> uid_ok i)
     \<and> (creating s \<longrightarrow> df_type (ss_fields s) = OAUTH2)
     \<and> (\<not> ss_open s \<longrightarrow> \<not> ss_submitting s)
     \<and> list_all request_ok (ss_requests s)"

lemma templates_ok: "p \<in> set templateList \<Longrightarrow> uid_ok (sanitizeIdentifier (ip_title p)) \<and> ip_type p = OAUTH2"
proof -
  have "list_all (\<lambda>p. uid_ok (sanitizeIdentifier (ip_title p)) \<and> ip_type p = OAUTH2) templateList" by code_simp
  then show "p \<in> set templateList \<Longrightarrow> uid_ok (sanitizeIdentifier (ip_title p)) \<and> ip_type p = OAUTH2"
    unfolding list_all_iff by blast
qed

lemma find_template: "findTemplate t \<in> set templateList"
proof (cases "List.find (\<lambda>p. ip_title p = t) templateList")
  case None
  then show ?thesis by (simp add: findTemplate_def templateList_def)
next
  case (Some p)
  then have "findTemplate t = p" by (simp add: findTemplate_def)
  moreover have "p \<in> set templateList" using Some by (auto simp: find_Some_iff)
  ultimately show ?thesis by simp
qed

lemma confirm_request:
  assumes "allowConfirmAction s" and "sso_ok s"
  shows "\<exists>r. ss_requests (handleConfirmBtnClick s) = ss_requests s @ [r] \<and> request_ok r \<and> request_target s r"
proof -
  let ?f = "ss_fields s"
  have title: "title_ok (built_provider s)"
    using assms(1) by (auto simp: allowConfirmAction_def title_ok_def built_provider_def Let_def split: if_splits)
  have conf: "config_complete secret (ip_config (built_provider s))"
    if "df_type ?f = OAUTH2" "secret \<longrightarrow> trim (oc_clientSecret (df_oauth2Config ?f)) \<noteq> []" for secret
    using assms(1) that normalize_scopes_ok trim_blank_iff [of "[]"]
    by (auto simp: allowConfirmAction_def config_complete_def built_provider_def Let_def shown_mapping_def
        createEmptyFieldMapping_def split: if_splits option.splits)
  show ?thesis
  proof (cases "ss_editing s")
    case None
    then have t: "df_type ?f = OAUTH2" using assms(2) by (simp add: sso_ok_def)
    then have "trim (oc_clientSecret (df_oauth2Config ?f)) \<noteq> []" "bi_identifier (df_basicInfo ?f) \<noteq> []"
      using assms(1) None trim_blank_iff [of "[]"] by (auto simp: allowConfirmAction_def Let_def split: if_splits)
    then show ?thesis using None t title conf [of True] assms(2)
      by (auto simp: handleConfirmBtnClick_def request_ok_def request_target_def sso_ok_def Let_def built_provider_def)
  next
    case (Some p)
    then show ?thesis using title conf [of False]
      by (auto simp: handleConfirmBtnClick_def request_ok_def request_target_def Let_def built_provider_def)
  qed
qed

lemma effect_ok:
  assumes "list_all request_ok (ss_requests s)"
  shows "sso_ok (idp_dialog_effect s)"
  using assms templates_ok [OF find_template [of "ss_template s"]]
  by (auto simp: sso_ok_def idp_dialog_effect_def empty_fields_def createEmptyBasicInfo_def Let_def
      buildDialogStateFromTemplate_def buildDialogStateFromProvider_def split: option.splits)

lemma effect_requests [simp]: "ss_requests (idp_dialog_effect s) = ss_requests s"
  by (simp add: idp_dialog_effect_def)

lemma set_fields_frame [simp]:
  "ss_requests (set_fields f s) = ss_requests s" "ss_open (set_fields f s) = ss_open s" "ss_editing (set_fields f s) = ss_editing s"
  "ss_template (set_fields f s) = ss_template s" "ss_submitting (set_fields f s) = ss_submitting s"
  by (simp_all add: set_fields_def)

lemmas typing_defs = set_basic_def setPartialOAuth2Config_def setPartialFieldMapping_def

lemmas closing_defs = handleDialogClose_def handleDialogOpenChange_def save_answered_def fetch_answered_def
  delete_answered_def confirmDeleteIdentityProvider_def toast_sso_def fetch_list_def Let_def

lemma handle_requests:
  assumes "sso_ok s"
  shows "ss_requests (sso_handle e s) = ss_requests s
    \<or> (\<exists>r. ss_requests (sso_handle e s) = ss_requests s @ [r] \<and> request_ok r \<and> request_target s r)"
proof (cases e)
  case Click_Confirm
  then show ?thesis using confirm_request [OF _ assms] by (simp add: sso_handle_def)
next
  case Delete_Confirmed
  then show ?thesis
    by (simp add: sso_handle_def confirmDeleteIdentityProvider_def request_ok_def request_target_def split: option.split)
qed (auto simp: sso_handle_def typing_defs closing_defs split: option.split sum.split after_fetch.split)

definition fields_ok :: "sso_state \<Rightarrow> bool" where
  "fields_ok s \<longleftrightarrow>
     (let i = bi_identifier (df_basicInfo (ss_fields s)) in i = [] \<or> uid_ok i)
     \<and> (creating s \<longrightarrow> df_type (ss_fields s) = OAUTH2)
     \<and> (\<not> ss_open s \<longrightarrow> \<not> ss_submitting s)"

lemma sso_ok_fields: "sso_ok s \<longleftrightarrow> fields_ok s \<and> list_all request_ok (ss_requests s)"
  by (auto simp: sso_ok_def fields_ok_def Let_def)

lemma handle_fields:
  assumes "fields_ok s" and "ss_open (sso_handle e s) = ss_open s" and "ss_editing (sso_handle e s) = ss_editing s"
  shows "fields_ok (sso_handle e s)"
proof (cases e)
  case (Type_Identifier v)
  have "sanitizeIdentifier v = [] \<or> uid_ok (sanitizeIdentifier v)" if "length v \<le> 32" using uid_sanitize [of v] that by auto
  then show ?thesis using Type_Identifier assms
    by (auto simp: sso_handle_def fields_ok_def typing_defs set_fields_def identifier_maxLength_def Let_def)
next
  case (Select_Type t)
  then show ?thesis using assms templates_ok by (auto simp: sso_handle_def fields_ok_def set_fields_def Let_def)
next
  case Click_Confirm
  then show ?thesis using assms by (auto simp: sso_handle_def fields_ok_def handleConfirmBtnClick_def Let_def)
qed (use assms in \<open>auto simp: sso_handle_def fields_ok_def typing_defs set_fields_def closing_defs
    split: option.split sum.split after_fetch.split\<close>)

lemma sso_step_ok: "sso_ok s \<Longrightarrow> sso_ok (sso_step s e)"
proof -
  assume ok: "sso_ok s"
  then have r: "list_all request_ok (ss_requests (sso_handle e s))" using handle_requests [OF ok, of e] by (auto simp: sso_ok_def)
  show ?thesis
  proof (cases "ss_open (sso_handle e s) \<noteq> ss_open s \<or> ss_editing (sso_handle e s) \<noteq> ss_editing s
      \<or> ss_template (sso_handle e s) \<noteq> ss_template s")
    case True
    then show ?thesis using effect_ok [OF r] by (simp add: sso_step_def Let_def)
  next
    case False
    then show ?thesis using ok r handle_fields [of s e] by (simp add: sso_step_def sso_ok_fields)
  qed
qed

interpretation sso: machine sso_step sso_ok
  by unfold_locales (rule sso_step_ok)

lemma mount_sso_ok: "sso_ok sso_mount"
  by (simp add: sso_ok_def sso_mount_def empty_fields_def createEmptyBasicInfo_def)

section \<open>Properties\<close>

text \<open>C23: Whatever is clicked and typed and however late the server answers, each event sends one request at most. A request
  that creates a provider has an identifier the server accepts, a title without blanks around it, and every field that
  signing in needs, with at least one scope and no blank in a scope; one that changes a provider names the provider
  being edited and has the same fields but the secret; one that deletes names the provider the user confirmed.\<close>

theorem idp_requests_complete:
  "let s = foldl sso_step sso_mount es; s' = sso_step s e in
   list_all request_ok (ss_requests s')
   \<and> (case drop (length (ss_requests s)) (ss_requests s') of [] \<Rightarrow> True | r # rest \<Rightarrow> rest = [] \<and> request_target s r)"
proof -
  let ?s = "foldl sso_step sso_mount es"
  have ok: "sso_ok ?s" by (rule sso.run_inv [OF mount_sso_ok])
  then have "list_all request_ok (ss_requests (sso_step ?s e))" using sso_step_ok by (auto simp: sso_ok_def)
  moreover have "ss_requests (sso_step ?s e) = ss_requests (sso_handle e ?s)" by (simp add: sso_step_def Let_def)
  ultimately show ?thesis using handle_requests [OF ok, of e] by auto
qed

definition provider_ok :: "identity_provider \<Rightarrow> bool" where
  "provider_ok p \<longleftrightarrow> title_ok p \<and> trim (ip_identifierFilter p) = ip_identifierFilter p \<and> ip_type p = OAUTH2
     \<and> config_complete False (ip_config p)"

lemma built_unchanged:
  assumes "provider_ok p" and "ss_editing s = Some p" and "ss_fields s = buildDialogStateFromProvider p"
  shows "built_provider s = p"
proof -
  obtain c where c: "ip_config p = Some c" "list_all scope_ok (oc_scopes c)"
    using assms(1) by (auto simp: provider_ok_def config_complete_def split: option.splits)
  then show ?thesis using assms normalize_join [of "oc_scopes c"]
    by (cases p) (simp add: built_provider_def buildDialogStateFromProvider_def provider_ok_def title_ok_def provider_config_def Let_def)
qed

lemma unchanged_allowed:
  assumes "provider_ok p" and "ss_editing s = Some p" and "ss_fields s = buildDialogStateFromProvider p" and "\<not> ss_submitting s"
  shows "allowConfirmAction s"
proof -
  obtain c m where c: "ip_config p = Some c" "oc_fieldMapping c = Some m"
    "config_complete False (Some c)" "list_all scope_ok (oc_scopes c)" "trim (fm_identifier m) \<noteq> []" "oc_scopes c \<noteq> []"
    using assms(1) by (auto simp: provider_ok_def config_complete_def split: option.splits)
  then show ?thesis using assms normalize_join [of "oc_scopes c"]
    by (simp add: allowConfirmAction_def buildDialogStateFromProvider_def provider_ok_def title_ok_def provider_config_def
        shown_mapping_def config_complete_def Let_def)
qed

text \<open>Opening a complete provider of the list and confirming without a change sends exactly that provider, whatever happened
  before: no field is lost or altered on its way through the form, neither the scopes, which are edited as one text,
  nor the parts of the mapping.\<close>

theorem provider_edit_faithful:
  assumes "s = foldl sso_step sso_mount es" and "\<not> covered s" and "i < length (ss_list s)" and "provider_ok (ss_list s ! i)"
  shows "ss_requests (foldl sso_step s [Click_Edit i, Click_Confirm])
    = ss_requests s @ [Update_Provider (ss_list s ! i) [''title'', ''identifier_filter'', ''config'']]"
proof -
  let ?p = "ss_list s ! i"
  have "sso_ok s" unfolding assms(1) by (rule sso.run_inv [OF mount_sso_ok])
  then have n: "\<not> ss_submitting s" using assms(2) by (simp add: sso_ok_def covered_def)
  define s1 where "s1 = sso_step s (Click_Edit i)"
  have s1: "ss_open s1" "ss_editing s1 = Some ?p" "ss_fields s1 = buildDialogStateFromProvider ?p" "\<not> ss_submitting s1"
    "ss_requests s1 = ss_requests s"
    using assms(2,3) n by (simp_all add: s1_def sso_step_def sso_handle_def idp_dialog_effect_def covered_def Let_def)
  then have "allowConfirmAction s1" "built_provider s1 = ?p"
    using unchanged_allowed [OF assms(4)] built_unchanged [OF assms(4)] by blast+
  then have "ss_requests (sso_step s1 Click_Confirm) = ss_requests s @ [Update_Provider ?p [''title'', ''identifier_filter'', ''config'']]"
    using s1 by (simp add: sso_step_def sso_handle_def handleConfirmBtnClick_def Let_def)
  then show ?thesis by (simp add: s1_def)
qed

definition sample_provider :: identity_provider where
  "sample_provider =
     \<lparr>ip_name = ''identity-providers/okta'', ip_type = OAUTH2, ip_title = ''Okta'', ip_identifierFilter = [],
      ip_config = Some \<lparr>oc_clientId = ''id'', oc_clientSecret = [], oc_authUrl = ''a'', oc_tokenUrl = ''b'', oc_userInfoUrl = ''c'',
        oc_scopes = [''openid'', ''email''],
        oc_fieldMapping = Some \<lparr>fm_identifier = ''sub'', fm_displayName = [], fm_email = [], fm_avatarUrl = ''p''\<rparr>\<rparr>\<rparr>"

theorem provider_edit_faithful_witness:
  "ss_requests (foldl sso_step (foldl sso_step sso_mount [Fetch_Answered 0 (Inr [sample_provider])]) [Click_Edit 0, Click_Confirm])
    = [Update_Provider sample_provider [''title'', ''identifier_filter'', ''config'']]"
proof -
  let ?s = "foldl sso_step sso_mount [Fetch_Answered 0 (Inr [sample_provider])]"
  have l: "ss_list ?s = [sample_provider]" "ss_requests ?s = []" "\<not> covered ?s"
    by (simp_all add: sso_step_def sso_handle_def fetch_answered_def sso_mount_def covered_def without_nth_def)
  have "provider_ok sample_provider" by code_simp
  then show ?thesis using provider_edit_faithful [OF refl l(3), of 0] unfolding l by simp
qed

section \<open>Typing an identifier\<close>

lemma collapse_plain: "CHR ''-'' \<notin> set s \<Longrightarrow> collapse_hyphens (s @ [c]) = s @ [c]"
proof (induction s)
  case (Cons d s)
  then show ?case by (cases s) auto
qed simp

definition plain_identifier :: "string \<Rightarrow> bool" where
  "plain_identifier s \<longleftrightarrow> list_all (\<lambda>c. is_lower_ascii c \<or> is_digit c) s"

lemma lower_id: "is_lower_ascii c \<or> is_digit c \<Longrightarrow> lower_char c = c"
  by (rule code_unit_inj) (auto simp: code_unit_lower_char is_lower_ascii_def is_digit_def)

lemma type_one:
  assumes "plain_identifier s"
  shows "sanitizeIdentifier (s @ [c]) = (if is_lower_ascii (lower_char c) \<or> is_digit (lower_char c) then s @ [lower_char c] else s)"
proof -
  let ?d = "if identifier_char (lower_char c) then lower_char c else CHR ''-''"
  have h: "\<not> is_lower_ascii CHR ''-''" "\<not> is_digit CHR ''-''" by (simp_all add: is_lower_ascii_def is_digit_def code_unit_def)
  have s: "map (\<lambda>c. if identifier_char c then c else CHR ''-'') (toLowerCase s) = s"
    using assms lower_id by (auto simp: plain_identifier_def toLowerCase_def identifier_char_def list_all_iff intro!: map_idI)
  have n: "CHR ''-'' \<notin> set s" using assms h by (auto simp: plain_identifier_def list_all_iff)
  then have rs: "dropWhile ((=) CHR ''-'') s = s" "dropWhile ((=) CHR ''-'') (rev s) = rev s"
    by (cases s; simp) (cases "rev s"; use n in \<open>auto simp flip: set_rev [of s]\<close>)
  have "sanitizeIdentifier (s @ [c]) = strip_hyphens (s @ [?d])"
    using s collapse_plain [OF n] by (simp add: sanitizeIdentifier_def toLowerCase_append) (simp add: toLowerCase_def)
  moreover have "strip_hyphens (s @ [?d]) = (if ?d = CHR ''-'' then s else s @ [?d])"
    using rs n by (cases s) (auto simp: strip_hyphens_def)
  ultimately show ?thesis using h by (auto simp: identifier_char_def split: if_splits)
qed

text \<open>The field after the user typed the characters one after the other at its end.\<close>

definition type_keys :: "string \<Rightarrow> sso_state \<Rightarrow> sso_state" where
  "type_keys keys s =
     foldl (\<lambda>s c. sso_step s (Type_Identifier (bi_identifier (df_basicInfo (ss_fields s)) @ [c]))) s keys"

lemma type_keys_plain:
  assumes "ss_open s" and "creating s" and "plain_identifier (bi_identifier (df_basicInfo (ss_fields s)))"
    and "length (bi_identifier (df_basicInfo (ss_fields s))) + length keys \<le> identifier_maxLength"
  shows "bi_identifier (df_basicInfo (ss_fields (type_keys keys s)))
    = bi_identifier (df_basicInfo (ss_fields s)) @ filter (\<lambda>c. is_lower_ascii c \<or> is_digit c) (toLowerCase keys)"
  using assms
proof (induction keys arbitrary: s)
  case Nil
  then show ?case by (simp add: type_keys_def toLowerCase_def)
next
  case (Cons c keys)
  let ?i = "bi_identifier (df_basicInfo (ss_fields s))"
  define s1 where "s1 = sso_step s (Type_Identifier (?i @ [c]))"
  have i1: "bi_identifier (df_basicInfo (ss_fields s1)) = sanitizeIdentifier (?i @ [c])" and f: "ss_open s1" "creating s1"
    using Cons.prems by (simp_all add: s1_def sso_step_def sso_handle_def typing_defs set_fields_def)
  note one = type_one [OF Cons.prems(3), of c]
  have "plain_identifier (sanitizeIdentifier (?i @ [c]))" "length (sanitizeIdentifier (?i @ [c])) + length keys \<le> identifier_maxLength"
    using Cons.prems(3,4) one by (auto simp: plain_identifier_def)
  then have "bi_identifier (df_basicInfo (ss_fields (type_keys keys s1)))
      = sanitizeIdentifier (?i @ [c]) @ filter (\<lambda>c. is_lower_ascii c \<or> is_digit c) (toLowerCase keys)"
    using Cons.IH [of s1] f i1 by simp
  moreover have "type_keys (c # keys) s = type_keys keys s1" by (simp add: type_keys_def s1_def)
  ultimately show ?case using one by (simp add: toLowerCase_def)
qed

text \<open>No hyphen can be typed at the end of the identifier: every key stroke is sanitised on its own, and the hyphen that is
  last is cut off. What the field holds after typing is the letters and digits, although its placeholder shows
  \<open>okta-corp\<close>.\<close>

theorem typed_hyphens_lost:
  assumes "ss_open s" and "creating s" and "bi_identifier (df_basicInfo (ss_fields s)) = []" and "length keys \<le> identifier_maxLength"
  shows "bi_identifier (df_basicInfo (ss_fields (type_keys keys s))) = filter (\<lambda>c. is_lower_ascii c \<or> is_digit c) (toLowerCase keys)"
  using type_keys_plain [OF assms(1,2), of keys] assms(3,4) by (simp add: plain_identifier_def)

theorem typed_hyphens_lost_witness:
  "bi_identifier (df_basicInfo (ss_fields (type_keys ''okta-corp'' (foldl sso_step sso_mount [Click_Create, Select_Template ''Custom'', Type_Identifier []]))))
    = ''oktacorp''"
proof -
  let ?s = "foldl sso_step sso_mount [Click_Create, Select_Template ''Custom'', Type_Identifier []]"
  have "ss_open ?s" "creating ?s" "bi_identifier (df_basicInfo (ss_fields ?s)) = []" by code_simp+
  moreover have "filter (\<lambda>c. is_lower_ascii c \<or> is_digit c) (toLowerCase ''okta-corp'') = ''oktacorp''" by code_simp
  ultimately show ?thesis using typed_hyphens_lost [of ?s "''okta-corp''"] by (simp add: identifier_maxLength_def)
qed

section \<open>The end of a save\<close>

text \<open>After a save the list is loaded again, and its end closes the dialog once more: a dialog the user opened meanwhile is
  closed, and what was typed into it is lost.\<close>

theorem reopened_dialog_closed:
  assumes "i < length (ss_fetches s)" and "ss_fetches s ! i = Saved_Dialog" and "ss_open s"
  shows "\<not> ss_open (sso_step s (Fetch_Answered i answer)) \<and> ss_fields (sso_step s (Fetch_Answered i answer)) = empty_fields"
  using assms
  by (cases answer) (simp_all add: sso_step_def sso_handle_def fetch_answered_def toast_sso_def idp_dialog_effect_def Let_def)

definition save_then_reopen :: "sso_event list" where
  "save_then_reopen =
     [Click_Create, Type_Config (\<lambda>c. c\<lparr>oc_clientId := ''id'', oc_clientSecret := ''secret''\<rparr>), Click_Confirm, Save_Answered 0 None,
      Click_Create, Type_Title ''Second'']"

theorem reopened_dialog_closed_witness:
  "bi_title (df_basicInfo (ss_fields (foldl sso_step sso_mount save_then_reopen))) = ''Second''
   \<and> bi_title (df_basicInfo (ss_fields (sso_step (foldl sso_step sso_mount save_then_reopen) (Fetch_Answered 1 (Inr []))))) = []"
proof -
  let ?s = "foldl sso_step sso_mount save_then_reopen"
  have "1 < length (ss_fetches ?s)" "ss_fetches ?s ! 1 = Saved_Dialog" "ss_open ?s"
    "bi_title (df_basicInfo (ss_fields ?s)) = ''Second''"
    by code_simp+
  then show ?thesis using reopened_dialog_closed [of 1 ?s "Inr []"]
    by (simp add: empty_fields_def createEmptyBasicInfo_def)
qed

section \<open>The texts of the list\<close>

text \<open>The texts of the list have a value each and a key of their own, and a long filter is cut to its limit with its
  beginning and its end.\<close>

theorem summary_items_shown:
  "distinct (map si_key (getOAuth2SummaryItems url ellipsis t plural p))
   \<and> list_all (\<lambda>i. si_value i \<noteq> []) (getOAuth2SummaryItems url ellipsis t plural p)
   \<and> length (truncateMiddle ellipsis f SUMMARY_TEXT_MAX) = min (length f) SUMMARY_TEXT_MAX"
proof -
  have "distinct (map si_key (getOAuth2SummaryItems url ellipsis t plural p))"
    unfolding getOAuth2SummaryItems_def buildOAuth2SummaryItems_def Let_def
    by (cases "ip_config p") (simp, simp only: option.case, rule distinct_map_filter, simp)
  moreover have "list_all (\<lambda>i. si_value i \<noteq> []) (getOAuth2SummaryItems url ellipsis t plural p)"
    unfolding getOAuth2SummaryItems_def buildOAuth2SummaryItems_def Let_def list_all_iff by (cases "ip_config p") simp_all
  moreover have "length (truncateMiddle ellipsis f SUMMARY_TEXT_MAX) = min (length f) SUMMARY_TEXT_MAX"
    by (simp add: truncateMiddle_def SUMMARY_TEXT_MAX_def)
  ultimately show ?thesis by blast
qed

end
