(* ===== verification/InstanceSettings.thy ===== *)
theory InstanceSettings
  imports ProtoInstance Queries
begin

text \<open>
  The instance context (\<^verbatim>\<open>contexts/InstanceContext.tsx\<close>): the profile and the settings of the server,
  which settings were asked for, and the calls under way. A call is two events, its start and the
  server's answer, so that answers arrive in any order. Then the query hooks for the same settings
  (\<^verbatim>\<open>hooks/useInstanceQueries.ts\<close>).
\<close>

section \<open>Names\<close>

definition instanceSettingNamePrefix :: string where
  "instanceSettingNamePrefix = ''instance/settings/''"

definition key_name :: "setting_key \<Rightarrow> string" where
  "key_name k = (case k of KEY_UNSPECIFIED \<Rightarrow> ''KEY_UNSPECIFIED'' | GENERAL \<Rightarrow> ''GENERAL'' | STORAGE \<Rightarrow> ''STORAGE''
     | MEMO_RELATED \<Rightarrow> ''MEMO_RELATED'' | TAGS \<Rightarrow> ''TAGS'' | NOTIFICATION \<Rightarrow> ''NOTIFICATION'' | AI \<Rightarrow> ''AI'')"

definition buildInstanceSettingName :: "setting_key \<Rightarrow> string" where
  "buildInstanceSettingName k = instanceSettingNamePrefix @ key_name k"

section \<open>State\<close>

record instance_state =
  ist_profile :: instance_profile
  ist_settings :: "instance_setting list"
  ist_isInitialized :: bool
  ist_isLoading :: bool
  ist_profileLoaded :: bool

definition instance_state_init :: instance_state where
  "instance_state_init = \<lparr>ist_profile = empty_profile, ist_settings = [], ist_isInitialized = False,
     ist_isLoading = True, ist_profileLoaded = False\<rparr>"

definition find_setting :: "setting_key \<Rightarrow> instance_state \<Rightarrow> instance_setting option" where
  "find_setting k st = List.find (\<lambda>s. is_name s = buildInstanceSettingName k) (ist_settings st)"

definition generalSetting :: "instance_state \<Rightarrow> general_setting" where
  "generalSetting st = (case map_option is_value (find_setting GENERAL st) of Some (GeneralSetting g) \<Rightarrow> g | _ \<Rightarrow> empty_general)"

definition memoRelatedSetting :: "instance_state \<Rightarrow> memo_related_setting" where
  "memoRelatedSetting st =
     (case map_option is_value (find_setting MEMO_RELATED st) of Some (MemoRelatedSetting g) \<Rightarrow> g | _ \<Rightarrow> empty_memo_related)"

definition storageSetting :: "instance_state \<Rightarrow> storage_setting" where
  "storageSetting st = (case map_option is_value (find_setting STORAGE st) of Some (StorageSetting g) \<Rightarrow> g | _ \<Rightarrow> empty_storage)"

definition notificationSetting :: "instance_state \<Rightarrow> notification_setting" where
  "notificationSetting st =
     (case map_option is_value (find_setting NOTIFICATION st) of Some (NotificationSetting g) \<Rightarrow> g | _ \<Rightarrow> empty_notification)"

definition aiSetting :: "instance_state \<Rightarrow> ai_setting" where
  "aiSetting st = (case map_option is_value (find_setting AI st) of Some (AiSetting g) \<Rightarrow> g | _ \<Rightarrow> empty_ai)"

text \<open>\<open>[...prev.filter((s) => !names.has(s.name)), ...settings]\<close>.\<close>

definition replace_settings :: "instance_setting list \<Rightarrow> instance_setting list \<Rightarrow> instance_setting list" where
  "replace_settings new old = filter (\<lambda>s. is_name s \<notin> is_name ` set new) old @ new"

section \<open>Calls and answers\<close>

datatype instance_call =
    Initializing
  | Fetching_Settings "string list"
  | Fetching_Setting string
  | Updating instance_setting

text \<open>The context: its state, the names marked as fetched, the calls under way and those that ended.\<close>

record instance_ctx =
  ic_state :: instance_state
  ic_fetched :: "string list"
  ic_next :: nat
  ic_calls :: "(nat \<times> instance_call) list"
  ic_results :: "(nat \<times> (error + unit)) list"

definition ctx_init :: instance_ctx where
  "ctx_init = \<lparr>ic_state = instance_state_init, ic_fetched = [], ic_next = 0, ic_calls = [], ic_results = []\<rparr>"

definition start_call :: "instance_call \<Rightarrow> instance_ctx \<Rightarrow> instance_ctx" where
  "start_call c x = x\<lparr>ic_calls := ic_calls x @ [(ic_next x, c)], ic_next := ic_next x + 1\<rparr>"

definition finish_at_once :: "instance_ctx \<Rightarrow> instance_ctx" where
  "finish_at_once x = x\<lparr>ic_results := ic_results x @ [(ic_next x, Inr ())], ic_next := ic_next x + 1\<rparr>"

definition end_call :: "nat \<Rightarrow> error + unit \<Rightarrow> instance_ctx \<Rightarrow> instance_ctx" where
  "end_call i r x = x\<lparr>ic_calls := filter (\<lambda>(j, _). j \<noteq> i) (ic_calls x), ic_results := ic_results x @ [(i, r)]\<rparr>"

definition initialize_begin :: "instance_ctx \<Rightarrow> instance_ctx" where
  "initialize_begin x = start_call Initializing (x\<lparr>ic_state := (ic_state x)\<lparr>ist_isLoading := True\<rparr>\<rparr>)"

text \<open>The \<open>catch\<close> block of \<open>initialize\<close> handles the error, so its promise is fulfilled.\<close>

definition initialize_end :: "nat \<Rightarrow> error + instance_profile \<times> instance_setting list \<Rightarrow> instance_ctx \<Rightarrow> instance_ctx" where
  "initialize_end i answer x =
     end_call i (Inr ())
       (case answer of
          Inl _ \<Rightarrow> x\<lparr>ic_state := (ic_state x)\<lparr>ist_isInitialized := True, ist_isLoading := False\<rparr>\<rparr>
        | Inr (profile, settings) \<Rightarrow>
            x\<lparr>ic_fetched := js_uniq (ic_fetched x @ map is_name settings),
              ic_state := \<lparr>ist_profile = profile, ist_settings = settings, ist_isInitialized = True,
                           ist_isLoading = False, ist_profileLoaded = True\<rparr>\<rparr>)"

definition fetchSettings_begin :: "setting_key list \<Rightarrow> instance_ctx \<Rightarrow> instance_ctx" where
  "fetchSettings_begin keys x =
     (let names = filter (\<lambda>n. n \<notin> set (ic_fetched x)) (map buildInstanceSettingName keys) in
      if length names = 0 then finish_at_once x
      else start_call (Fetching_Settings names) (x\<lparr>ic_fetched := js_uniq (ic_fetched x @ names)\<rparr>))"

definition unmark :: "string list \<Rightarrow> instance_ctx \<Rightarrow> instance_ctx" where
  "unmark names x = x\<lparr>ic_fetched := filter (\<lambda>n. n \<notin> set names) (ic_fetched x)\<rparr>"

definition receive :: "instance_setting list \<Rightarrow> instance_ctx \<Rightarrow> instance_ctx" where
  "receive settings x =
     x\<lparr>ic_state := (ic_state x)\<lparr>ist_settings := replace_settings settings (ist_settings (ic_state x))\<rparr>\<rparr>"

definition fetchSettings_end :: "nat \<Rightarrow> string list \<Rightarrow> error + instance_setting list \<Rightarrow> instance_ctx \<Rightarrow> instance_ctx" where
  "fetchSettings_end i names answer x =
     (case answer of
        Inl e \<Rightarrow> end_call i (Inl e) (unmark names x)
      | Inr settings \<Rightarrow> end_call i (Inr ()) (receive settings x))"

definition fetchSetting_begin :: "setting_key \<Rightarrow> instance_ctx \<Rightarrow> instance_ctx" where
  "fetchSetting_begin key x =
     (let name = buildInstanceSettingName key in
      if name \<in> set (ic_fetched x) then finish_at_once x
      else start_call (Fetching_Setting name) (x\<lparr>ic_fetched := ic_fetched x @ [name]\<rparr>))"

definition fetchSetting_end :: "nat \<Rightarrow> string \<Rightarrow> error + instance_setting \<Rightarrow> instance_ctx \<Rightarrow> instance_ctx" where
  "fetchSetting_end i name answer x =
     (case answer of
        Inl e \<Rightarrow> end_call i (Inl e) (unmark [name] x)
      | Inr s \<Rightarrow> end_call i (Inr ()) (receive [s] x))"

definition updateSetting_end :: "nat \<Rightarrow> error + instance_setting \<Rightarrow> instance_ctx \<Rightarrow> instance_ctx" where
  "updateSetting_end i answer x =
     (case answer of
        Inl e \<Rightarrow> end_call i (Inl e) x
      | Inr updatedSetting \<Rightarrow> end_call i (Inr ()) (receive [updatedSetting] x))"

text \<open>
  What happens to the context: its operations are called, and the server answers a call, with an error
  or with a profile, settings, or both.
\<close>

datatype instance_event =
    Initialize
  | Fetch_Settings "setting_key list"
  | Fetch_Setting setting_key
  | Update_Setting instance_setting
  | Fails nat error
  | Answers nat instance_profile "instance_setting list"

definition instance_step :: "instance_ctx \<Rightarrow> instance_event \<Rightarrow> instance_ctx" where
  "instance_step x e =
     (case e of
        Initialize \<Rightarrow> initialize_begin x
      | Fetch_Settings keys \<Rightarrow> fetchSettings_begin keys x
      | Fetch_Setting key \<Rightarrow> fetchSetting_begin key x
      | Update_Setting s \<Rightarrow> start_call (Updating s) x
      | Fails i err \<Rightarrow>
          (case map_of (ic_calls x) i of
             None \<Rightarrow> x
           | Some Initializing \<Rightarrow> initialize_end i (Inl err) x
           | Some (Fetching_Settings names) \<Rightarrow> fetchSettings_end i names (Inl err) x
           | Some (Fetching_Setting name) \<Rightarrow> fetchSetting_end i name (Inl err) x
           | Some (Updating _) \<Rightarrow> updateSetting_end i (Inl err) x)
      | Answers i profile settings \<Rightarrow>
          (case map_of (ic_calls x) i of
             None \<Rightarrow> x
           | Some Initializing \<Rightarrow> initialize_end i (Inr (profile, settings)) x
           | Some (Fetching_Settings names) \<Rightarrow> fetchSettings_end i names (Inr settings) x
           | Some (Fetching_Setting name) \<Rightarrow> (case settings of [s] \<Rightarrow> fetchSetting_end i name (Inr s) x | _ \<Rightarrow> x)
           | Some (Updating _) \<Rightarrow> (case settings of [s] \<Rightarrow> updateSetting_end i (Inr s) x | _ \<Rightarrow> x)))"

section \<open>The invariant\<close>

definition asked :: "instance_call \<Rightarrow> string list" where
  "asked c = (case c of Fetching_Settings names \<Rightarrow> names | Fetching_Setting name \<Rightarrow> [name] | _ \<Rightarrow> [])"

text \<open>
  What the server and the application do: \<open>initialize\<close> is called once at the start, and no other operation
  before it ended (\<^verbatim>\<open>main.tsx\<close> renders nothing until then); an answer has the settings that were asked
  for, each once. Other events are ignored.
\<close>

definition expected :: "instance_ctx \<Rightarrow> instance_event \<Rightarrow> bool" where
  "expected x e =
     (case e of
        Initialize \<Rightarrow> ic_next x = 0
      | Fails i err \<Rightarrow> True
      | Answers i profile settings \<Rightarrow>
          distinct (map is_name settings)
          \<and> (case map_of (ic_calls x) i of
                 Some (Updating s) \<Rightarrow> map is_name settings = [is_name s]
               | Some Initializing \<Rightarrow> True
               | Some c \<Rightarrow> set (map is_name settings) = set (asked c)
               | None \<Rightarrow> True)
      | _ \<Rightarrow> ist_isInitialized (ic_state x))"

definition expected_step :: "instance_ctx \<Rightarrow> instance_event \<Rightarrow> instance_ctx" where
  "expected_step x e = (if expected x e then instance_step x e else x)"

definition setting_names :: "instance_ctx \<Rightarrow> string set" where
  "setting_names x = is_name ` set (ist_settings (ic_state x))"

definition calls_ok :: "instance_ctx \<Rightarrow> bool" where
  "calls_ok x \<longleftrightarrow> distinct (map fst (ic_calls x)) \<and> (\<forall>i \<in> fst ` set (ic_calls x). i < ic_next x)
     \<and> (Initializing \<in> snd ` set (ic_calls x) \<longrightarrow> \<not> ist_isInitialized (ic_state x))
     \<and> (\<not> ist_isInitialized (ic_state x) \<longrightarrow>
          ic_fetched x = [] \<and> ist_settings (ic_state x) = [] \<and> (ic_calls x = [] \<or> (\<exists>i. ic_calls x = [(i, Initializing)])))
     \<and> (ic_next x = 0 \<longrightarrow> \<not> ist_isInitialized (ic_state x))"

definition marks_ok :: "instance_ctx \<Rightarrow> bool" where
  "marks_ok x \<longleftrightarrow> set (ic_fetched x) \<subseteq> setting_names x \<union> (\<Union>c \<in> snd ` set (ic_calls x). set (asked c))"

definition ctx_inv :: "instance_ctx \<Rightarrow> bool" where
  "ctx_inv x \<longleftrightarrow> distinct (map is_name (ist_settings (ic_state x))) \<and> calls_ok x \<and> marks_ok x"

lemma replace_names: "is_name ` set (replace_settings new old) = is_name ` set old \<union> is_name ` set new"
  by (auto simp: replace_settings_def)

lemma replace_distinct:
  "distinct (map is_name new) \<Longrightarrow> distinct (map is_name old) \<Longrightarrow> distinct (map is_name (replace_settings new old))"
  by (auto simp: replace_settings_def distinct_map inj_on_filter_key_eq inj_on_def)

text \<open>The calls left after one has ended.\<close>

definition others :: "nat \<Rightarrow> (nat \<times> instance_call) list \<Rightarrow> (nat \<times> instance_call) list" where
  "others i calls = filter (\<lambda>(j, _). j \<noteq> i) calls"

lemma set_others: "set (others i calls) \<subseteq> set calls"
  by (auto simp: others_def)

lemma asked_others:
  assumes "distinct (map fst calls)" and "map_of calls i = Some c"
  shows "(\<Union>c \<in> snd ` set calls. set (asked c)) \<subseteq> (\<Union>c \<in> snd ` set (others i calls). set (asked c)) \<union> set (asked c)"
proof
  fix n assume "n \<in> (\<Union>c \<in> snd ` set calls. set (asked c))"
  then obtain j d where j: "(j, d) \<in> set calls" "n \<in> set (asked d)" by auto
  then show "n \<in> (\<Union>c \<in> snd ` set (others i calls). set (asked c)) \<union> set (asked c)"
    using assms by (cases "j = i") (force simp: others_def)+
qed

lemma calls_ok_others:
  assumes ok: "calls_ok x" and "ic_calls x' = others i (ic_calls x)" and "ic_next x' = ic_next x"
    and "ist_isInitialized (ic_state x')" and c: "map_of (ic_calls x) i = Some c"
  shows "calls_ok x'"
proof -
  have "distinct (map fst (others i (ic_calls x)))"
    using ok by (auto simp: calls_ok_def others_def distinct_map_filter)
  moreover have "Initializing \<notin> snd ` set (others i (ic_calls x))"
  proof (cases "ist_isInitialized (ic_state x)")
    case True
    then show ?thesis using ok set_others by (force simp: calls_ok_def)
  next
    case False
    then show ?thesis using ok c by (auto simp: calls_ok_def others_def split: if_splits)
  qed
  moreover have "0 < ic_next x" using ok map_of_SomeD [OF c] by (force simp: calls_ok_def)
  ultimately show ?thesis using assms set_others [of i "ic_calls x"] by (auto simp: calls_ok_def)
qed

lemma end_fields [simp]:
  "ic_calls (end_call i r x) = others i (ic_calls x)" "ic_next (end_call i r x) = ic_next x"
  "ic_state (end_call i r x) = ic_state x" "ic_fetched (end_call i r x) = ic_fetched x"
  "ic_calls (unmark ns x) = ic_calls x" "ic_next (unmark ns x) = ic_next x" "ic_state (unmark ns x) = ic_state x"
  "ic_calls (receive ss x) = ic_calls x" "ic_next (receive ss x) = ic_next x" "ic_fetched (receive ss x) = ic_fetched x"
  "ist_isInitialized (ic_state (receive ss x)) = ist_isInitialized (ic_state x)"
  "ist_settings (ic_state (receive ss x)) = replace_settings ss (ist_settings (ic_state x))"
  by (simp_all add: end_call_def others_def unmark_def receive_def)

lemma unmark_set: "set (ic_fetched (unmark ns x)) = set (ic_fetched x) - set ns"
  by (auto simp: unmark_def)

text \<open>A call ends: the names it asked for are received, or no longer marked.\<close>

lemma ended_inv:
  assumes inv: "ctx_inv x" and c: "map_of (ic_calls x) i = Some c" and init: "ist_isInitialized (ic_state x)"
    and "distinct (map is_name ss)" and "set (asked c) \<subseteq> is_name ` set ss"
  shows "ctx_inv (end_call i r (receive ss x))"
proof -
  have d: "distinct (map fst (ic_calls x))" and marks: "marks_ok x" and ok: "calls_ok x"
    using inv by (simp_all add: ctx_inv_def calls_ok_def)
  have "calls_ok (end_call i r (receive ss x))"
    by (rule calls_ok_others [OF ok _ _ _ c]) (simp_all only: end_fields init)
  moreover have "marks_ok (end_call i r (receive ss x))"
    using marks asked_others [OF d c] assms(5) unfolding marks_ok_def setting_names_def end_fields replace_names by blast
  ultimately show ?thesis using inv assms(4) by (simp add: ctx_inv_def replace_distinct)
qed

lemma marks_without: "F \<subseteq> S \<union> A \<Longrightarrow> A \<subseteq> A' \<union> B \<Longrightarrow> F - B \<subseteq> S \<union> A'"
  by blast

lemma failed_inv:
  assumes inv: "ctx_inv x" and c: "map_of (ic_calls x) i = Some c" and init: "ist_isInitialized (ic_state x)"
  shows "ctx_inv (end_call i r (unmark (asked c) x))"
proof -
  have d: "distinct (map fst (ic_calls x))" and marks: "marks_ok x" and ok: "calls_ok x"
    using inv by (simp_all add: ctx_inv_def calls_ok_def)
  have "calls_ok (end_call i r (unmark (asked c) x))"
    by (rule calls_ok_others [OF ok _ _ _ c]) (simp_all only: end_fields init)
  moreover have "marks_ok (end_call i r (unmark (asked c) x))"
    using marks_without [OF marks [unfolded marks_ok_def] asked_others [OF d c]]
    unfolding marks_ok_def setting_names_def end_fields unmark_set .
  ultimately show ?thesis using inv unfolding ctx_inv_def end_fields by blast
qed

text \<open>An operation starts a call for names newly marked, or ends at once.\<close>

lemma started_inv:
  assumes "ctx_inv x" and "ist_isInitialized (ic_state x)" and "c \<noteq> Initializing"
    and "set f \<subseteq> set (ic_fetched x) \<union> set (asked c)"
  shows "ctx_inv (start_call c (x\<lparr>ic_fetched := f\<rparr>))"
  using assms by (auto simp: ctx_inv_def calls_ok_def marks_ok_def start_call_def setting_names_def)

lemma at_once_inv: "ctx_inv x \<Longrightarrow> ctx_inv (finish_at_once x)"
  by (auto simp: ctx_inv_def calls_ok_def marks_ok_def finish_at_once_def setting_names_def)

lemma initialized_inv:
  assumes inv: "ctx_inv x" and c: "map_of (ic_calls x) i = Some Initializing"
    and "case answer of Inl _ \<Rightarrow> True | Inr (p, ss) \<Rightarrow> distinct (map is_name ss)"
  shows "ctx_inv (initialize_end i answer x)"
proof -
  have ok: "calls_ok x" using inv by (simp add: ctx_inv_def)
  have "\<not> ist_isInitialized (ic_state x)" using ok map_of_SomeD [OF c] by (force simp: calls_ok_def)
  then have none: "ic_fetched x = []" "ist_settings (ic_state x) = []" using ok by (simp_all add: calls_ok_def)
  have "calls_ok (initialize_end i answer x)"
    by (rule calls_ok_others [OF ok _ _ _ c])
      (simp_all add: initialize_end_def end_call_def others_def split: sum.split prod.split)
  then show ?thesis using none assms(3)
    by (auto simp: ctx_inv_def marks_ok_def setting_names_def initialize_end_def end_call_def split: sum.splits)
qed

lemma expected_step_inv: "ctx_inv x \<Longrightarrow> ctx_inv (expected_step x e)"
proof -
  assume inv: "ctx_inv x"
  have ini: "ist_isInitialized (ic_state x)" if "map_of (ic_calls x) i = Some c" "c \<noteq> Initializing" for i c
    using inv that by (cases "ist_isInitialized (ic_state x)") (auto simp: ctx_inv_def calls_ok_def split: if_splits)
  show "ctx_inv (expected_step x e)"
  proof (cases "expected x e")
    case False
    then show ?thesis using inv by (simp add: expected_step_def)
  next
    case exp: True
    then have step: "expected_step x e = instance_step x e" by (simp add: expected_step_def)
    show ?thesis unfolding step
    proof (cases e)
      case Initialize
      then have "ic_calls x = []" "ic_next x = 0" "\<not> ist_isInitialized (ic_state x)"
        using exp inv by (auto simp: expected_def ctx_inv_def calls_ok_def neq_Nil_conv)
      then show "ctx_inv (instance_step x e)" using inv Initialize
        by (auto simp: instance_step_def initialize_begin_def start_call_def ctx_inv_def calls_ok_def marks_ok_def setting_names_def)
    next
      case (Fetch_Settings keys)
      then show "ctx_inv (instance_step x e)" using exp inv
        by (auto simp: instance_step_def fetchSettings_begin_def Let_def expected_def asked_def intro!: at_once_inv started_inv)
    next
      case (Fetch_Setting key)
      then show "ctx_inv (instance_step x e)" using exp inv
        by (auto simp: instance_step_def fetchSetting_begin_def Let_def expected_def asked_def intro!: at_once_inv started_inv)
    next
      case (Update_Setting s)
      then show "ctx_inv (instance_step x e)"
        using started_inv [OF inv, of "Updating s" "ic_fetched x"] exp by (simp add: instance_step_def expected_def)
    next
      case (Fails i err)
      show "ctx_inv (instance_step x e)"
      proof (cases "map_of (ic_calls x) i")
        case (Some c)
        then show ?thesis
          using Fails inv initialized_inv [OF inv, of i "Inl err"] ini [OF Some] failed_inv [OF inv Some]
          by (cases c) (simp_all add: instance_step_def fetchSettings_end_def fetchSetting_end_def updateSetting_end_def asked_def unmark_def)
      qed (use Fails inv in \<open>simp add: instance_step_def\<close>)
    next
      case (Answers i p ss)
      show "ctx_inv (instance_step x e)"
      proof (cases "map_of (ic_calls x) i")
        case (Some c)
        then show ?thesis
          using Answers exp inv initialized_inv [OF inv, of i "Inr (p, ss)"] ini [OF Some] ended_inv [OF inv Some, of ss]
          by (cases c)
            (auto simp: instance_step_def fetchSettings_end_def fetchSetting_end_def updateSetting_end_def asked_def expected_def
              split: list.split)
      qed (use Answers inv in \<open>simp add: instance_step_def\<close>)
    qed
  qed
qed

interpretation instance_runs: machine expected_step ctx_inv
  by unfold_locales (rule expected_step_inv)

section \<open>Properties\<close>

lemma find_receive:
  "find_setting k (ic_state (receive [s] x)) = (if is_name s = buildInstanceSettingName k then Some s else find_setting k (ic_state x))"
proof -
  have find_append: "List.find P (xs @ ys) = (case List.find P xs of None \<Rightarrow> List.find P ys | Some y \<Rightarrow> Some y)" for P and xs ys :: "instance_setting list"
    by (induction xs) auto
  have find_filter: "List.find (\<lambda>u. is_name u = n) (filter (\<lambda>u. is_name u \<noteq> m) xs) =
      (if n = m then None else List.find (\<lambda>u. is_name u = n) xs)" for n m xs
    by (induction xs) auto
  show ?thesis
    by (simp add: find_setting_def receive_def replace_settings_def find_append find_filter split: option.split)
qed

text \<open>Whatever is called and in whatever order the server answers, the context holds each setting at most once,
  and a fetch that asks for nothing is right to do so: its setting is there, or another call for it is under way. A
  key not yet marked is asked for.\<close>

theorem fetch_setting_present:
  "let x = foldl expected_step ctx_init es; name = buildInstanceSettingName k in
   distinct (map is_name (ist_settings (ic_state x)))
   \<and> (if name \<in> set (ic_fetched x)
      then (case find_setting k (ic_state x) of
              Some s \<Rightarrow> is_name s = name
            | None \<Rightarrow> name \<in> set (concat (map (asked \<circ> snd) (ic_calls x))))
      else ic_calls (instance_step x (Fetch_Setting k)) = ic_calls x @ [(ic_next x, Fetching_Setting name)])"
proof -
  have "ctx_inv ctx_init"
    by (simp add: ctx_inv_def calls_ok_def marks_ok_def ctx_init_def instance_state_init_def)
  then have inv: "ctx_inv (foldl expected_step ctx_init es)" by (rule instance_runs.run_inv)
  let ?x = "foldl expected_step ctx_init es" and ?name = "buildInstanceSettingName k"
  have "case find_setting k (ic_state ?x) of Some s \<Rightarrow> is_name s = ?name
      | None \<Rightarrow> ?name \<in> set (concat (map (asked \<circ> snd) (ic_calls ?x)))"
    if "?name \<in> set (ic_fetched ?x)"
  proof -
    have "?name \<in> setting_names ?x \<union> (\<Union>c \<in> snd ` set (ic_calls ?x). set (asked c))"
      using inv that unfolding ctx_inv_def marks_ok_def by blast
    then show ?thesis
      by (auto simp: setting_names_def find_setting_def find_None_iff find_Some_iff split: option.split)
  qed
  then show ?thesis using inv
    by (auto simp: ctx_inv_def instance_step_def fetchSetting_begin_def start_call_def Let_def)
qed

text \<open>A setting that is saved while a fetch of it is under way is overwritten by the older answer of that fetch,
  and stays so: the key counts as fetched, so nothing is asked again.\<close>

theorem stale_fetch_overwrites:
  assumes "is_name old = buildInstanceSettingName k" and "is_name new = buildInstanceSettingName k"
  shows "let x = foldl expected_step ctx_init
       [Initialize, Answers 0 profile [], Fetch_Setting k, Update_Setting new, Answers 2 profile [new],
        Answers 1 profile [old], Fetch_Setting k] in
     find_setting k (ic_state x) = Some old \<and> ic_calls x = []"
proof -
  define n where "n = buildInstanceSettingName k"
  define C where "C m cs ss f rs = \<lparr>ic_state = \<lparr>ist_profile = profile, ist_settings = ss, ist_isInitialized = True,
      ist_isLoading = False, ist_profileLoaded = True\<rparr>, ic_fetched = f, ic_next = m, ic_calls = cs, ic_results = rs\<rparr>" for m cs ss f rs
  have 1: "foldl expected_step ctx_init [Initialize, Answers 0 profile []] = C 1 [] [] [] [(0, Inr ())]"
    by (simp add: expected_step_def expected_def instance_step_def initialize_begin_def initialize_end_def start_call_def
        end_call_def ctx_init_def instance_state_init_def js_uniq_def C_def)
  have 2: "expected_step (C 1 [] [] [] rs) (Fetch_Setting k) = C 2 [(1, Fetching_Setting n)] [] [n] rs" for rs
    by (simp add: expected_step_def expected_def instance_step_def fetchSetting_begin_def start_call_def C_def n_def Let_def)
  have 3: "expected_step (C 2 cs [] [n] rs) (Update_Setting new) = C 3 (cs @ [(2, Updating new)]) [] [n] rs" for cs rs
    by (simp add: expected_step_def expected_def instance_step_def start_call_def C_def)
  have 4: "expected_step (C 3 [(1, Fetching_Setting n), (2, Updating new)] [] [n] rs) (Answers 2 profile [new])
      = C 3 [(1, Fetching_Setting n)] [new] [n] (rs @ [(2, Inr ())])" for rs
    by (simp add: expected_step_def expected_def instance_step_def updateSetting_end_def end_call_def receive_def
        replace_settings_def C_def)
  have 5: "expected_step (C 3 [(1, Fetching_Setting n)] [new] [n] rs) (Answers 1 profile [old])
      = C 3 [] [old] [n] (rs @ [(1, Inr ())])" for rs
    using assms by (simp add: expected_step_def expected_def instance_step_def fetchSetting_end_def end_call_def receive_def
        replace_settings_def asked_def C_def n_def)
  have 6: "expected_step (C 3 [] [old] [n] rs) (Fetch_Setting k) = C 4 [] [old] [n] (rs @ [(3, Inr ())])" for rs
    by (simp add: expected_step_def expected_def instance_step_def fetchSetting_begin_def finish_at_once_def C_def n_def)
  have "\<exists>rs. foldl expected_step ctx_init [Initialize, Answers 0 profile [], Fetch_Setting k, Update_Setting new,
       Answers 2 profile [new], Answers 1 profile [old], Fetch_Setting k] = C 4 [] [old] [n] rs"
    using 1 by (simp add: 2 3 4 5 6 del: One_nat_def) blast
  then show ?thesis using assms by (auto simp: C_def find_setting_def)
qed

definition ai_named :: "string \<Rightarrow> instance_setting" where
  "ai_named prompt = \<lparr>is_name = buildInstanceSettingName AI, is_value = AiSetting (empty_ai\<lparr>as_transcription :=
     Some \<lparr>tc_providerId = ''p'', tc_model = [], tc_language = [], tc_prompt = prompt\<rparr>\<rparr>)\<rparr>"

theorem stale_fetch_overwrites_witness:
  "let x = foldl expected_step ctx_init
       [Initialize, Answers 0 empty_profile [], Fetch_Setting AI, Update_Setting (ai_named ''new''),
        Answers 2 empty_profile [ai_named ''new''], Answers 1 empty_profile [ai_named ''old''], Fetch_Setting AI] in
     find_setting AI (ic_state x) = Some (ai_named ''old'') \<and> ic_calls x = []"
  by (rule stale_fetch_overwrites) (simp_all add: ai_named_def)

end
