(* ===== verification/AISettings.thy ===== *)
theory AISettings
  imports MemoActions InstanceSettings
begin

text \<open>
  The settings of the AI providers (\<^verbatim>\<open>components/Settings/AISection.tsx\<close>), which are saved through
  \<^verbatim>\<open>Settings/useInstanceSettingUpdater.ts\<close>: the section, its two dialogs and the saves under way as
  one step function. A save is an update of the instance context and a fetch from it; both answers are events.
  After an answer React renders once, with what the context and the section set before, and then runs the two
  effects of the section.
\<close>

section \<open>Local copies\<close>

record local_provider =
  lp_id :: string
  lp_title :: string
  lp_type :: ai_provider_type
  lp_endpoint :: string
  lp_apiKey :: string
  lp_apiKeySet :: bool
  lp_apiKeyHint :: string

record local_transcription =
  lt_providerId :: string
  lt_model :: string
  lt_language :: string
  lt_prompt :: string

definition toLocalProvider :: "ai_provider \<Rightarrow> local_provider" where
  "toLocalProvider p =
     \<lparr>lp_id = ap_id p, lp_title = ap_title p, lp_type = ap_type p, lp_endpoint = ap_endpoint p, lp_apiKey = [],
      lp_apiKeySet = ap_apiKeySet p, lp_apiKeyHint = ap_apiKeyHint p\<rparr>"

definition toLocalTranscription :: "transcription_config option \<Rightarrow> local_transcription" where
  "toLocalTranscription config =
     (case config of
        None \<Rightarrow> \<lparr>lt_providerId = [], lt_model = [], lt_language = [], lt_prompt = []\<rparr>
      | Some c \<Rightarrow> \<lparr>lt_providerId = tc_providerId c, lt_model = tc_model c, lt_language = tc_language c, lt_prompt = tc_prompt c\<rparr>)"

definition newProvider :: "string \<Rightarrow> local_provider" where
  "newProvider i =
     \<lparr>lp_id = i, lp_title = [], lp_type = OPENAI, lp_endpoint = [], lp_apiKey = [], lp_apiKeySet = False, lp_apiKeyHint = []\<rparr>"

definition toProviderConfig :: "local_provider \<Rightarrow> ai_provider" where
  "toProviderConfig p =
     \<lparr>ap_id = lp_id p, ap_title = trim (lp_title p), ap_type = lp_type p, ap_endpoint = trim (lp_endpoint p),
      ap_apiKey = lp_apiKey p, ap_apiKeySet = False, ap_apiKeyHint = []\<rparr>"

definition toTranscriptionConfig :: "local_transcription \<Rightarrow> transcription_config" where
  "toTranscriptionConfig t =
     \<lparr>tc_providerId = lt_providerId t, tc_model = trim (lt_model t), tc_language = trim (lt_language t), tc_prompt = lt_prompt t\<rparr>"

definition empty_transcription :: transcription_config where
  "empty_transcription = \<lparr>tc_providerId = [], tc_model = [], tc_language = [], tc_prompt = []\<rparr>"

definition providerTypeOptions :: "ai_provider_type list" where
  "providerTypeOptions = [OPENAI, GEMINI]"

definition getProviderTypeLabel :: "ai_provider_type \<Rightarrow> string" where
  "getProviderTypeLabel t =
     (case t of AI_PROVIDER_TYPE_UNSPECIFIED \<Rightarrow> ''AI_PROVIDER_TYPE_UNSPECIFIED'' | OPENAI \<Rightarrow> ''OPENAI'' | GEMINI \<Rightarrow> ''GEMINI'')"

definition getDefaultEndpointPlaceholder :: "ai_provider_type \<Rightarrow> string" where
  "getDefaultEndpointPlaceholder t =
     (case t of
        OPENAI \<Rightarrow> ''https://api.openai.com/v1''
      | GEMINI \<Rightarrow> ''https://generativelanguage.googleapis.com/v1beta''
      | AI_PROVIDER_TYPE_UNSPECIFIED \<Rightarrow> [])"

section \<open>The state\<close>

text \<open>What a handler does after its save, with what its closure holds.\<close>

datatype ai_op =
    Op_Save "local_provider list"
  | Op_Delete local_provider "local_provider list" local_transcription
  | Op_Transcription

datatype save_stage = Updating | Fetching

record ai_call =
  ca_op :: ai_op
  ca_context :: string
  ca_stage :: save_stage

text \<open>\<open>ai_fetched\<close>: whether the instance context has asked for this setting; \<open>ai_ids\<close> counts the identifiers made.\<close>

record ai_state =
  ai_original :: ai_setting
  ai_fetched :: bool
  ai_providers :: "local_provider list"
  ai_transcription :: local_transcription
  ai_lastSynced :: local_transcription
  ai_editing :: "local_provider option"
  ai_draft :: local_provider
  ai_deleteTarget :: "local_provider option"
  ai_deleting :: bool
  ai_calls :: "ai_call list"
  ai_requests :: "ai_setting list"
  ai_toasts :: "toast list"
  ai_ids :: nat

definition toast_ai :: "toast \<Rightarrow> ai_state \<Rightarrow> ai_state" where
  "toast_ai t s = s\<lparr>ai_toasts := ai_toasts s @ [t]\<rparr>"

text \<open>\<open>fresh\<close>: the identifiers of \<open>createProviderID\<close>, random in the code. The dialog takes its draft from the provider.\<close>

definition set_editing :: "(nat \<Rightarrow> string) \<Rightarrow> local_provider option \<Rightarrow> ai_state \<Rightarrow> ai_state" where
  "set_editing fresh p s =
     (case p of
        Some q \<Rightarrow> s\<lparr>ai_editing := Some q, ai_draft := q\<rparr>
      | None \<Rightarrow> if ai_editing s = None then s
          else s\<lparr>ai_editing := None, ai_draft := newProvider (fresh (ai_ids s)), ai_ids := ai_ids s + 1\<rparr>)"

text \<open>The two effects on a new setting in the context.\<close>

definition ai_sync :: "ai_state \<Rightarrow> ai_state" where
  "ai_sync s =
     (let s1 = s\<lparr>ai_providers := map toLocalProvider (as_providers (ai_original s))\<rparr>;
          next_value = toLocalTranscription (as_transcription (ai_original s)) in
      if ai_lastSynced s1 \<noteq> next_value then s1\<lparr>ai_transcription := next_value, ai_lastSynced := next_value\<rparr> else s1)"

section \<open>Saving\<close>

definition persistAISetting ::
  "ai_op \<Rightarrow> string \<Rightarrow> local_provider list \<Rightarrow> transcription_config option \<Rightarrow> ai_state \<Rightarrow> ai_state" where
  "persistAISetting op errorContext nextProviders nextTranscription s =
     s\<lparr>ai_requests := ai_requests s @ [\<lparr>as_providers = map toProviderConfig nextProviders, as_transcription = nextTranscription\<rparr>],
       ai_calls := ai_calls s @ [\<lparr>ca_op = op, ca_context = errorContext, ca_stage = Updating\<rparr>]\<rparr>"

text \<open>The rest of a handler after its save. The confirmation dialog closes when its handler returns, whether the save succeeded or not.\<close>

definition finish_op :: "(nat \<Rightarrow> string) \<Rightarrow> bool \<Rightarrow> ai_op \<Rightarrow> ai_state \<Rightarrow> ai_state" where
  "finish_op fresh ok op s =
     (case op of
        Op_Save nextProviders \<Rightarrow> if \<not> ok then s else set_editing fresh None (s\<lparr>ai_providers := nextProviders\<rparr>)
      | Op_Delete target nextProviders t \<Rightarrow>
          (if \<not> ok then s
           else s\<lparr>ai_providers := nextProviders,
                  ai_transcription := (if lt_providerId t = lp_id target then (ai_transcription s)\<lparr>lt_providerId := []\<rparr>
                    else ai_transcription s)\<rparr>)
          \<lparr>ai_deleteTarget := None, ai_deleting := False\<rparr>
      | Op_Transcription \<Rightarrow> s)"

definition drop_call :: "nat \<Rightarrow> ai_state \<Rightarrow> ai_state" where
  "drop_call i s = s\<lparr>ai_calls := take i (ai_calls s) @ drop (Suc i) (ai_calls s)\<rparr>"

definition save_failed :: "(nat \<Rightarrow> string) \<Rightarrow> nat \<Rightarrow> thrown \<Rightarrow> ai_state \<Rightarrow> ai_state" where
  "save_failed fresh i e s =
     finish_op fresh False (ca_op (ai_calls s ! i))
       (toast_ai (Toast_Error (handleError e (Some (ca_context (ai_calls s ! i))) None)) (drop_call i s))"

definition save_succeeded :: "(nat \<Rightarrow> string) \<Rightarrow> nat \<Rightarrow> ai_state \<Rightarrow> ai_state" where
  "save_succeeded fresh i s =
     finish_op fresh True (ca_op (ai_calls s ! i)) (toast_ai (Toast_Success ''message.update-succeed'') (drop_call i s))"

text \<open>\<open>await updateSetting(setting); await fetchSetting(key)\<close>: the fetch asks nothing when the setting was fetched before.\<close>

definition update_answered :: "(nat \<Rightarrow> string) \<Rightarrow> nat \<Rightarrow> thrown + ai_setting \<Rightarrow> ai_state \<Rightarrow> ai_state" where
  "update_answered fresh i answer s =
     (if length (ai_calls s) \<le> i \<or> ca_stage (ai_calls s ! i) \<noteq> Updating then s
      else case answer of
        Inl e \<Rightarrow> save_failed fresh i e s
      | Inr st \<Rightarrow>
          let s1 = s\<lparr>ai_original := st\<rparr> in
          ai_sync
            (if ai_fetched s then save_succeeded fresh i s1
             else s1\<lparr>ai_fetched := True, ai_calls := (ai_calls s)[i := (ai_calls s ! i)\<lparr>ca_stage := Fetching\<rparr>]\<rparr>))"

definition refetch_answered :: "(nat \<Rightarrow> string) \<Rightarrow> nat \<Rightarrow> thrown + ai_setting \<Rightarrow> ai_state \<Rightarrow> ai_state" where
  "refetch_answered fresh i answer s =
     (if length (ai_calls s) \<le> i \<or> ca_stage (ai_calls s ! i) \<noteq> Fetching then s
      else case answer of
        Inl e \<Rightarrow> save_failed fresh i e (s\<lparr>ai_fetched := False\<rparr>)
      | Inr st \<Rightarrow> ai_sync (save_succeeded fresh i (s\<lparr>ai_original := st\<rparr>)))"

section \<open>The handlers\<close>

definition handleSaveProvider :: "local_provider \<Rightarrow> ai_state \<Rightarrow> ai_state" where
  "handleSaveProvider p s =
     (let title = trim (lp_title p); endpoint = trim (lp_endpoint p) in
      if title = [] then toast_ai (Toast_Error ''setting.ai.provider-title-required'') s
      else if \<not> lp_apiKeySet p \<and> trim (lp_apiKey p) = [] then toast_ai (Toast_Error ''setting.ai.api-key-required'') s
      else
        let normalizedProvider = p\<lparr>lp_title := title, lp_endpoint := endpoint\<rparr>;
            exists = list_ex (\<lambda>item. lp_id item = lp_id normalizedProvider) (ai_providers s);
            nextProviders =
              (if exists then map (\<lambda>item. if lp_id item = lp_id normalizedProvider then normalizedProvider else item) (ai_providers s)
               else ai_providers s @ [normalizedProvider]) in
        persistAISetting (Op_Save nextProviders) ''Update AI provider'' nextProviders (as_transcription (ai_original s)) s)"

definition handleDeleteProvider :: "ai_state \<Rightarrow> ai_state" where
  "handleDeleteProvider s =
     (case ai_deleteTarget s of
        None \<Rightarrow> s
      | Some target \<Rightarrow>
          let nextProviders = filter (\<lambda>p. lp_id p \<noteq> lp_id target) (ai_providers s);
              nextTranscription =
                (case as_transcription (ai_original s) of
                   None \<Rightarrow> None
                 | Some c \<Rightarrow> Some (if tc_providerId c = lp_id target then empty_transcription else c)) in
          persistAISetting (Op_Delete target nextProviders (ai_transcription s)) ''Delete AI provider'' nextProviders nextTranscription s)"

definition handleSaveTranscription :: "ai_state \<Rightarrow> ai_state" where
  "handleSaveTranscription s =
     (let t = ai_transcription s in
      if lt_providerId t \<noteq> [] \<and> \<not> list_ex (\<lambda>p. lp_id p = lt_providerId t) (ai_providers s)
      then toast_ai (Toast_Error ''setting.ai.transcription-empty-providers'') s
      else persistAISetting Op_Transcription ''Update transcription'' (ai_providers s) (Some (toTranscriptionConfig t)) s)"

definition transcriptionHasChanges :: "ai_state \<Rightarrow> bool" where
  "transcriptionHasChanges s \<longleftrightarrow> ai_transcription s \<noteq> toLocalTranscription (as_transcription (ai_original s))"

section \<open>The step function\<close>

datatype ai_event =
    Add_Provider | Edit_Provider nat | Delete_Provider_Click nat
  | Draft_Title string | Draft_Type ai_provider_type | Draft_Endpoint string | Draft_Key string | Draft_Save | Draft_Close
  | Delete_Confirm | Delete_Cancel
  | Transcription_Provider string | Transcription_Model string | Transcription_Language string | Transcription_Prompt string
  | Transcription_Save
  | Update_Answer nat "thrown + ai_setting" | Refetch_Answer nat "thrown + ai_setting" | Setting_Arrives ai_setting

definition ai_covered :: "ai_state \<Rightarrow> bool" where
  "ai_covered s \<longleftrightarrow> ai_editing s \<noteq> None \<or> ai_deleteTarget s \<noteq> None"

definition update_draft :: "(local_provider \<Rightarrow> local_provider) \<Rightarrow> ai_state \<Rightarrow> ai_state" where
  "update_draft f s = (if ai_editing s = None then s else s\<lparr>ai_draft := f (ai_draft s)\<rparr>)"

text \<open>A field of the transcription; all but the provider can be typed into only with a provider chosen.\<close>

definition update_transcription :: "(local_transcription \<Rightarrow> local_transcription) \<Rightarrow> ai_state \<Rightarrow> ai_state" where
  "update_transcription f s =
     (if ai_covered s \<or> lt_providerId (ai_transcription s) = [] then s else s\<lparr>ai_transcription := f (ai_transcription s)\<rparr>)"

definition ai_step :: "(nat \<Rightarrow> string) \<Rightarrow> ai_state \<Rightarrow> ai_event \<Rightarrow> ai_state" where
  "ai_step fresh s e =
     (case e of
        Add_Provider \<Rightarrow> if ai_covered s then s
          else set_editing fresh (Some (newProvider (fresh (ai_ids s)))) (s\<lparr>ai_ids := ai_ids s + 1\<rparr>)
      | Edit_Provider i \<Rightarrow> if ai_covered s \<or> length (ai_providers s) \<le> i then s
          else set_editing fresh (Some ((ai_providers s ! i)\<lparr>lp_apiKey := []\<rparr>)) s
      | Delete_Provider_Click i \<Rightarrow> if ai_covered s \<or> length (ai_providers s) \<le> i then s
          else s\<lparr>ai_deleteTarget := Some (ai_providers s ! i)\<rparr>
      | Draft_Title v \<Rightarrow> update_draft (\<lambda>d. d\<lparr>lp_title := v\<rparr>) s
      | Draft_Type t \<Rightarrow> if t \<in> set providerTypeOptions then update_draft (\<lambda>d. d\<lparr>lp_type := t\<rparr>) s else s
      | Draft_Endpoint v \<Rightarrow> update_draft (\<lambda>d. d\<lparr>lp_endpoint := v\<rparr>) s
      | Draft_Key v \<Rightarrow> update_draft (\<lambda>d. d\<lparr>lp_apiKey := v\<rparr>) s
      | Draft_Save \<Rightarrow> if ai_editing s = None then s else handleSaveProvider (ai_draft s) s
      | Draft_Close \<Rightarrow> set_editing fresh None s
      | Delete_Confirm \<Rightarrow> if ai_deleteTarget s = None \<or> ai_deleting s then s else handleDeleteProvider (s\<lparr>ai_deleting := True\<rparr>)
      | Delete_Cancel \<Rightarrow> if ai_deleting s then s else s\<lparr>ai_deleteTarget := None\<rparr>
      | Transcription_Provider v \<Rightarrow> if ai_covered s \<or> ai_providers s = [] \<or> \<not> (v = [] \<or> v \<in> lp_id ` set (ai_providers s)) then s
          else s\<lparr>ai_transcription := (ai_transcription s)\<lparr>lt_providerId := v\<rparr>\<rparr>
      | Transcription_Model v \<Rightarrow> if length v \<le> 256 then update_transcription (\<lambda>t. t\<lparr>lt_model := v\<rparr>) s else s
      | Transcription_Language v \<Rightarrow> if length v \<le> 32 then update_transcription (\<lambda>t. t\<lparr>lt_language := v\<rparr>) s else s
      | Transcription_Prompt v \<Rightarrow> if length v \<le> 4096 then update_transcription (\<lambda>t. t\<lparr>lt_prompt := v\<rparr>) s else s
      | Transcription_Save \<Rightarrow> if ai_covered s \<or> \<not> transcriptionHasChanges s then s else handleSaveTranscription s
      | Update_Answer i answer \<Rightarrow> update_answered fresh i answer s
      | Refetch_Answer i answer \<Rightarrow> refetch_answered fresh i answer s
      | Setting_Arrives st \<Rightarrow> ai_sync (s\<lparr>ai_original := st\<rparr>))"

definition ai_mount :: "(nat \<Rightarrow> string) \<Rightarrow> bool \<Rightarrow> ai_setting \<Rightarrow> ai_state" where
  "ai_mount fresh fetched st =
     \<lparr>ai_original = st, ai_fetched = fetched, ai_providers = map toLocalProvider (as_providers st),
      ai_transcription = toLocalTranscription (as_transcription st), ai_lastSynced = toLocalTranscription (as_transcription st),
      ai_editing = None, ai_draft = newProvider (fresh 0), ai_deleteTarget = None, ai_deleting = False, ai_calls = [],
      ai_requests = [], ai_toasts = [], ai_ids = 1\<rparr>"

section \<open>What is sent\<close>

text \<open>What the server promises of a setting, and checks in a request: the transcription refers to no provider or to one of the list.\<close>

definition consistent :: "ai_setting \<Rightarrow> bool" where
  "consistent st \<longleftrightarrow>
     (case as_transcription st of
        None \<Rightarrow> True
      | Some c \<Rightarrow> tc_providerId c = [] \<or> tc_providerId c \<in> ap_id ` set (as_providers st))"

text \<open>No two providers with a key in one request.\<close>

definition one_key :: "ai_setting \<Rightarrow> bool" where
  "one_key st \<longleftrightarrow>
     (\<exists>i. list_all (\<lambda>p. ap_apiKey p \<noteq> [] \<longrightarrow> ap_id p = i) (as_providers st))"

definition ai_request_ok :: "ai_setting \<Rightarrow> bool" where
  "ai_request_ok r \<longleftrightarrow> consistent r \<and> one_key r"

definition arriving :: "ai_event \<Rightarrow> ai_setting list" where
  "arriving e =
     (case e of
        Update_Answer _ (Inr st) \<Rightarrow> [st]
      | Refetch_Answer _ (Inr st) \<Rightarrow> [st]
      | Setting_Arrives st \<Rightarrow> [st]
      | _ \<Rightarrow> [])"

definition ai_ok :: "ai_state \<Rightarrow> bool" where
  "ai_ok s \<longleftrightarrow> ai_providers s = map toLocalProvider (as_providers (ai_original s)) \<and> consistent (ai_original s)
     \<and> list_all ai_request_ok (ai_requests s)"

lemma toLocal_fields [simp]: "lp_id (toLocalProvider p) = ap_id p" "lp_apiKey (toLocalProvider p) = []"
  by (simp_all add: toLocalProvider_def)

lemma toConfig_fields [simp]: "ap_id (toProviderConfig p) = lp_id p" "ap_apiKey (toProviderConfig p) = lp_apiKey p"
  by (simp_all add: toProviderConfig_def)

lemma toast_ai_fields [simp]:
  "ai_original (toast_ai t s) = ai_original s" "ai_providers (toast_ai t s) = ai_providers s" "ai_requests (toast_ai t s) = ai_requests s"
  "ai_transcription (toast_ai t s) = ai_transcription s" "ai_lastSynced (toast_ai t s) = ai_lastSynced s" "ai_calls (toast_ai t s) = ai_calls s"
  by (simp_all add: toast_ai_def)

lemma drop_call_fields [simp]:
  "ai_original (drop_call i s) = ai_original s" "ai_providers (drop_call i s) = ai_providers s" "ai_requests (drop_call i s) = ai_requests s"
  "ai_transcription (drop_call i s) = ai_transcription s" "ai_lastSynced (drop_call i s) = ai_lastSynced s"
  by (simp_all add: drop_call_def)

lemma set_editing_fields [simp]:
  "ai_original (set_editing fresh p s) = ai_original s" "ai_providers (set_editing fresh p s) = ai_providers s"
  "ai_requests (set_editing fresh p s) = ai_requests s" "ai_transcription (set_editing fresh p s) = ai_transcription s"
  "ai_lastSynced (set_editing fresh p s) = ai_lastSynced s" "ai_calls (set_editing fresh p s) = ai_calls s"
  by (simp_all add: set_editing_def split: option.split)

lemma finish_fields [simp]:
  "ai_original (finish_op fresh ok op s) = ai_original s" "ai_requests (finish_op fresh ok op s) = ai_requests s"
  "ai_lastSynced (finish_op fresh ok op s) = ai_lastSynced s" "ai_calls (finish_op fresh ok op s) = ai_calls s"
  "ai_providers (finish_op fresh False op s) = ai_providers s" "ai_transcription (finish_op fresh False op s) = ai_transcription s"
  by (simp_all add: finish_op_def split: ai_op.split)

lemma sync_fields [simp]:
  "ai_original (ai_sync s) = ai_original s" "ai_requests (ai_sync s) = ai_requests s" "ai_calls (ai_sync s) = ai_calls s"
  "ai_providers (ai_sync s) = map toLocalProvider (as_providers (ai_original s))"
  by (simp_all add: ai_sync_def Let_def)

lemma persist_ok:
  assumes "ai_ok s" and "ai_request_ok \<lparr>as_providers = map toProviderConfig ps, as_transcription = t\<rparr>"
  shows "ai_ok (persistAISetting op c ps t s)"
  using assms by (simp add: ai_ok_def persistAISetting_def)

lemma save_provider_ok:
  assumes "ai_ok s"
  shows "ai_ok (handleSaveProvider p s)"
proof -
  let ?n = "p\<lparr>lp_title := trim (lp_title p), lp_endpoint := trim (lp_endpoint p)\<rparr>"
  define nextp where "nextp = (if list_ex (\<lambda>item. lp_id item = lp_id ?n) (ai_providers s)
    then map (\<lambda>item. if lp_id item = lp_id ?n then ?n else item) (ai_providers s) else ai_providers s @ [?n])"
  have keys: "q \<in> set (ai_providers s) \<Longrightarrow> lp_apiKey q = []" for q using assms by (auto simp: ai_ok_def)
  have "lp_apiKey q \<noteq> [] \<Longrightarrow> q \<in> set nextp \<Longrightarrow> lp_id q = lp_id p" for q
    using keys by (auto simp: nextp_def split: if_splits)
  then have one: "one_key \<lparr>as_providers = map toProviderConfig nextp, as_transcription = t\<rparr>" for t
    unfolding one_key_def by (intro exI [of _ "lp_id p"]) (auto simp: list_all_iff)
  have "lp_id q \<in> lp_id ` set nextp" if "q \<in> set (ai_providers s)" for q
  proof (cases "list_ex (\<lambda>item. lp_id item = lp_id ?n) (ai_providers s)")
    case True
    then have "(if lp_id q = lp_id ?n then ?n else q) \<in> set nextp" using that by (simp add: nextp_def)
    then show ?thesis by (metis image_eqI)
  qed (use that in \<open>simp add: nextp_def\<close>)
  then have "lp_id ` set (ai_providers s) \<subseteq> lp_id ` set nextp" by blast
  then have "ap_id ` set (as_providers (ai_original s)) \<subseteq> ap_id ` set (map toProviderConfig nextp)"
    using assms by (auto simp: ai_ok_def image_image)
  then have "consistent \<lparr>as_providers = map toProviderConfig nextp, as_transcription = as_transcription (ai_original s)\<rparr>"
    using assms by (auto simp: ai_ok_def consistent_def split: option.splits)
  then have "ai_ok (persistAISetting (Op_Save nextp) ''Update AI provider'' nextp (as_transcription (ai_original s)) s)"
    by (intro persist_ok [OF assms]) (simp add: ai_request_ok_def one)
  moreover have "ai_ok (toast_ai t s)" for t using assms by (simp add: ai_ok_def)
  ultimately show ?thesis unfolding handleSaveProvider_def Let_def nextp_def by simp
qed

lemma delete_provider_ok:
  assumes "ai_ok s"
  shows "ai_ok (handleDeleteProvider s)"
proof (cases "ai_deleteTarget s")
  case None
  then show ?thesis using assms by (simp add: handleDeleteProvider_def)
next
  case (Some target)
  let ?ps = "filter (\<lambda>p. lp_id p \<noteq> lp_id target) (ai_providers s)"
  have "one_key \<lparr>as_providers = map toProviderConfig ?ps, as_transcription = t\<rparr>" for t
    using assms by (auto simp: one_key_def list_all_iff ai_ok_def)
  moreover have "consistent \<lparr>as_providers = map toProviderConfig ?ps,
      as_transcription = (case as_transcription (ai_original s) of None \<Rightarrow> None
        | Some c \<Rightarrow> Some (if tc_providerId c = lp_id target then empty_transcription else c))\<rparr>"
    using assms by (auto simp: ai_ok_def consistent_def empty_transcription_def image_iff split: option.splits)
  ultimately show ?thesis using Some assms
    by (simp add: handleDeleteProvider_def Let_def persist_ok ai_request_ok_def)
qed

lemma save_transcription_ok:
  assumes "ai_ok s"
  shows "ai_ok (handleSaveTranscription s)"
proof -
  have "one_key \<lparr>as_providers = map toProviderConfig (ai_providers s), as_transcription = t\<rparr>" for t
    using assms by (auto simp: one_key_def list_all_iff ai_ok_def)
  moreover have "ai_ok (toast_ai t s)" for t using assms by (simp add: ai_ok_def)
  moreover have "consistent \<lparr>as_providers = map toProviderConfig (ai_providers s), as_transcription = Some (toTranscriptionConfig t)\<rparr>"
    if "lt_providerId t \<noteq> [] \<longrightarrow> list_ex (\<lambda>p. lp_id p = lt_providerId t) (ai_providers s)" for t
    using that by (force simp: consistent_def toTranscriptionConfig_def list_ex_iff)
  ultimately show ?thesis using assms
    by (simp add: handleSaveTranscription_def Let_def ai_request_ok_def persist_ok)
qed

lemma synced_ok: "consistent (ai_original s) \<Longrightarrow> list_all ai_request_ok (ai_requests s) \<Longrightarrow> ai_ok (ai_sync s)"
  by (simp add: ai_ok_def)

lemma failed_ok: "ai_ok s \<Longrightarrow> ai_ok (save_failed fresh i e s)"
  by (simp add: ai_ok_def save_failed_def)

lemma ai_step_ok:
  assumes "ai_ok s" and "list_all consistent (arriving e)"
  shows "ai_ok (ai_step fresh s e)"
proof (cases e)
  case Draft_Save
  then show ?thesis using assms save_provider_ok by (simp add: ai_step_def)
next
  case Delete_Confirm
  have "ai_ok (s\<lparr>ai_deleting := True\<rparr>)" using assms by (simp add: ai_ok_def)
  then show ?thesis using Delete_Confirm assms delete_provider_ok by (simp add: ai_step_def)
next
  case Transcription_Save
  then show ?thesis using assms save_transcription_ok by (simp add: ai_step_def)
next
  case (Update_Answer i answer)
  then show ?thesis using assms failed_ok
    by (auto simp: ai_step_def update_answered_def arriving_def save_succeeded_def Let_def ai_ok_def split: sum.split intro!: synced_ok)
next
  case (Refetch_Answer i answer)
  have "ai_ok (s\<lparr>ai_fetched := False\<rparr>)" using assms by (simp add: ai_ok_def)
  then show ?thesis using Refetch_Answer assms failed_ok
    by (auto simp: ai_step_def refetch_answered_def arriving_def save_succeeded_def ai_ok_def split: sum.split intro!: synced_ok)
next
  case (Setting_Arrives st)
  then show ?thesis using assms by (auto simp: ai_step_def arriving_def ai_ok_def intro!: synced_ok)
qed (use assms in \<open>simp_all add: ai_step_def ai_ok_def update_draft_def update_transcription_def\<close>)

text \<open>A state with the promise of the server: an event whose settings break it does not happen.\<close>

interpretation ai: machine "\<lambda>s e. if list_all consistent (arriving e) then ai_step fresh s e else s" ai_ok for fresh
  by unfold_locales (simp add: ai_step_ok)

lemma ai_run_ok:
  assumes "consistent st" and "list_all (\<lambda>e. list_all consistent (arriving e)) es"
  shows "ai_ok (foldl (ai_step fresh) (ai_mount fresh fetched st) es)"
proof -
  let ?step = "\<lambda>s e. if list_all consistent (arriving e) then ai_step fresh s e else s"
  have "foldl ?step s es = foldl (ai_step fresh) s es" for s
    using assms(2) by (induction es arbitrary: s) auto
  moreover have "ai_ok (ai_mount fresh fetched st)" using assms(1) by (simp add: ai_mount_def ai_ok_def)
  ultimately show ?thesis using ai.run_inv [of "ai_mount fresh fetched st" fresh es] by simp
qed

section \<open>Properties\<close>

text \<open>C24: When the settings the server hands out are consistent, so is every setting the section sends, in whatever order clicks,
  key strokes and answers come: the transcription of a request refers to no provider or to one of the same request. A
  request carries the key of one provider at most, and no key is kept in the list after it was sent.\<close>

theorem ai_requests_consistent:
  assumes "consistent st" and "list_all (\<lambda>e. list_all consistent (arriving e)) es"
  shows "let s = foldl (ai_step fresh) (ai_mount fresh fetched st) es in
    list_all (\<lambda>r. consistent r \<and> one_key r) (ai_requests s) \<and> list_all (\<lambda>p. lp_apiKey p = []) (ai_providers s)"
  using ai_run_ok [OF assms, of fresh fetched]
  by (auto simp: ai_ok_def Let_def list_all_iff ai_request_ok_def)

definition ai_sample_events :: "ai_event list" where
  "ai_sample_events =
     [Add_Provider, Draft_Title ''Work'', Draft_Key ''key'', Draft_Save, Draft_Close, Add_Provider, Draft_Title ''Home'', Draft_Key ''key2'', Draft_Save]"

theorem ai_requests_consistent_witness:
  "let s = foldl (ai_step show_nat) (ai_mount show_nat True empty_ai) ai_sample_events in
    list_all (\<lambda>r. consistent r \<and> one_key r) (ai_requests s) \<and> list_all (\<lambda>p. lp_apiKey p = []) (ai_providers s)"
  by (rule ai_requests_consistent) (simp_all add: consistent_def empty_ai_def ai_sample_events_def arriving_def)

section \<open>The draft of the transcription\<close>

definition persisted :: "ai_state \<Rightarrow> local_transcription" where
  "persisted s = toLocalTranscription (as_transcription (ai_original s))"

definition synced :: "ai_state \<Rightarrow> bool" where
  "synced s \<longleftrightarrow> ai_lastSynced s = persisted s"

lemma sync_synced: "synced (ai_sync s)"
  by (simp add: synced_def persisted_def ai_sync_def Let_def)

lemma sync_same: "ai_lastSynced s = persisted s \<Longrightarrow> ai_transcription (ai_sync s) = ai_transcription s"
  by (simp add: persisted_def ai_sync_def Let_def)

lemma persist_fields [simp]:
  "ai_original (persistAISetting op c ps t s) = ai_original s" "ai_lastSynced (persistAISetting op c ps t s) = ai_lastSynced s"
  "ai_transcription (persistAISetting op c ps t s) = ai_transcription s"
  by (simp_all add: persistAISetting_def)

lemma handlers_synced [simp]:
  "synced (handleSaveProvider p s) = synced s" "synced (handleDeleteProvider s) = synced s" "synced (handleSaveTranscription s) = synced s"
  "synced (save_failed fresh i e s) = synced s"
  by (simp_all add: synced_def persisted_def handleSaveProvider_def handleDeleteProvider_def handleSaveTranscription_def save_failed_def
      Let_def split: option.split)

lemma ai_step_synced: "synced s \<Longrightarrow> synced (ai_step fresh s e)"
proof (cases e)
  case Draft_Save
  then show "synced s \<Longrightarrow> ?thesis" by (simp add: ai_step_def)
next
  case Delete_Confirm
  moreover have "synced (s\<lparr>ai_deleting := True\<rparr>) = synced s" by (simp add: synced_def persisted_def)
  ultimately show "synced s \<Longrightarrow> ?thesis" by (simp add: ai_step_def)
next
  case Transcription_Save
  then show "synced s \<Longrightarrow> ?thesis" by (simp add: ai_step_def)
next
  case (Update_Answer i answer)
  then show "synced s \<Longrightarrow> ?thesis" by (simp add: ai_step_def update_answered_def sync_synced Let_def split: sum.split)
next
  case (Refetch_Answer i answer)
  moreover have "synced (s\<lparr>ai_fetched := False\<rparr>) = synced s" by (simp add: synced_def persisted_def)
  ultimately show "synced s \<Longrightarrow> ?thesis" by (simp add: ai_step_def refetch_answered_def sync_synced split: sum.split)
next
  case (Setting_Arrives st)
  then show "synced s \<Longrightarrow> ?thesis" by (simp add: ai_step_def sync_synced)
qed (simp_all add: ai_step_def synced_def persisted_def update_draft_def update_transcription_def)

interpretation ai_sync: machine "ai_step fresh" synced for fresh
  by unfold_locales (rule ai_step_synced)

text \<open>Work on the providers, with answers of a server that keeps the transcription.\<close>

definition provider_work :: "local_transcription \<Rightarrow> ai_event \<Rightarrow> bool" where
  "provider_work kept e \<longleftrightarrow>
     (case e of
        Delete_Confirm \<Rightarrow> False
      | Transcription_Provider _ \<Rightarrow> False | Transcription_Model _ \<Rightarrow> False | Transcription_Language _ \<Rightarrow> False
      | Transcription_Prompt _ \<Rightarrow> False | Transcription_Save \<Rightarrow> False
      | _ \<Rightarrow> list_all (\<lambda>st. toLocalTranscription (as_transcription st) = kept) (arriving e))"

definition saves_only :: "ai_state \<Rightarrow> bool" where
  "saves_only s \<longleftrightarrow> list_all (\<lambda>c. case ca_op c of Op_Save _ \<Rightarrow> True | _ \<Rightarrow> False) (ai_calls s)"

definition draft_kept :: "local_transcription \<Rightarrow> local_transcription \<Rightarrow> ai_setting list \<Rightarrow> ai_state \<Rightarrow> bool" where
  "draft_kept kept held rs s \<longleftrightarrow> synced s \<and> persisted s = kept \<and> ai_transcription s = held \<and> saves_only s
     \<and> (\<exists>new. ai_requests s = rs @ new \<and> list_all (\<lambda>r. toLocalTranscription (as_transcription r) = kept) new)"

lemma finish_save: "ai_transcription (finish_op fresh ok (Op_Save ps) s) = ai_transcription s"
  by (simp add: finish_op_def)

lemma drop_saves: "saves_only s \<Longrightarrow> saves_only (drop_call i s)"
  by (auto simp: saves_only_def drop_call_def list_all_iff dest: in_set_takeD in_set_dropD)

lemma call_save: "saves_only s \<Longrightarrow> i < length (ai_calls s) \<Longrightarrow> \<exists>ps. ca_op (ai_calls s ! i) = Op_Save ps"
  unfolding saves_only_def list_all_length by (cases "ca_op (ai_calls s ! i)") (auto split: ai_op.splits)

lemma sync_kept:
  assumes "draft_kept kept held rs s" and "toLocalTranscription (as_transcription st) = kept"
    and "ai_lastSynced s' = ai_lastSynced s" and "ai_transcription s' = ai_transcription s" and "ai_requests s' = ai_requests s"
    and "saves_only s'" and "ai_original s' = st"
  shows "draft_kept kept held rs (ai_sync s')"
proof -
  have p: "persisted s' = kept" using assms(2,7) by (simp add: persisted_def)
  then have "ai_transcription (ai_sync s') = held" using sync_same [of s'] assms(1,3,4) by (simp add: draft_kept_def synced_def)
  moreover have "saves_only (ai_sync s')" using assms(6) by (simp add: saves_only_def)
  ultimately show ?thesis using assms(1,2,5,7) sync_synced by (simp add: draft_kept_def persisted_def)
qed

lemma ended_kept:
  assumes "draft_kept kept held rs s" and "i < length (ai_calls s)" and "toLocalTranscription (as_transcription st) = kept"
  shows "draft_kept kept held rs (ai_sync (save_succeeded fresh i (s\<lparr>ai_original := st\<rparr>)))"
proof -
  obtain ps where op: "ca_op (ai_calls s ! i) = Op_Save ps" using call_save assms(1,2) by (auto simp: draft_kept_def)
  have "saves_only (drop_call i s)" using assms(1) drop_saves by (auto simp: draft_kept_def)
  moreover have "ai_calls (save_succeeded fresh i (s\<lparr>ai_original := st\<rparr>)) = ai_calls (drop_call i s)"
    by (simp add: save_succeeded_def drop_call_def)
  ultimately show ?thesis using op
    by (intro sync_kept [OF assms(1,3)]) (simp_all add: save_succeeded_def finish_save saves_only_def)
qed

lemma failed_kept:
  assumes "draft_kept kept held rs s"
  shows "draft_kept kept held rs (save_failed fresh i e s)"
proof -
  have "saves_only (drop_call i s)" using assms drop_saves by (auto simp: draft_kept_def)
  then show ?thesis using assms by (simp add: draft_kept_def save_failed_def synced_def persisted_def saves_only_def)
qed

lemma provider_work_kept:
  assumes "draft_kept kept held rs s" and "provider_work kept e"
  shows "draft_kept kept held rs (ai_step fresh s e)"
proof (cases e)
  case Draft_Save
  have "draft_kept kept held rs (toast_ai t s)" for t
    using assms(1) by (simp add: draft_kept_def synced_def persisted_def saves_only_def)
  moreover have "draft_kept kept held rs (persistAISetting (Op_Save ps) c ps (as_transcription (ai_original s)) s)" for ps c
    using assms(1) by (auto simp: draft_kept_def synced_def persisted_def saves_only_def persistAISetting_def)
  ultimately show ?thesis using Draft_Save assms(1) by (simp add: ai_step_def handleSaveProvider_def Let_def)
next
  case (Update_Answer i answer)
  show ?thesis
  proof (cases "length (ai_calls s) \<le> i \<or> ca_stage (ai_calls s ! i) \<noteq> Updating")
    case True
    then show ?thesis using assms(1) Update_Answer by (auto simp: ai_step_def update_answered_def)
  next
    case False
    then have i: "i < length (ai_calls s)" by simp
    obtain ps where op: "ca_op (ai_calls s ! i) = Op_Save ps" using call_save i assms(1) by (auto simp: draft_kept_def)
    have "saves_only (s\<lparr>ai_original := st, ai_fetched := True, ai_calls := (ai_calls s)[i := (ai_calls s ! i)\<lparr>ca_stage := Fetching\<rparr>]\<rparr>)" for st
      using assms(1) op by (auto simp: draft_kept_def saves_only_def list_all_iff dest!: set_update_subset_insert [THEN subsetD])
    then show ?thesis
      using False Update_Answer assms ended_kept [OF assms(1) i] failed_kept [OF assms(1)] sync_kept [OF assms(1)]
      by (auto simp: ai_step_def update_answered_def provider_work_def arriving_def Let_def split: sum.split)
  qed
next
  case (Refetch_Answer i answer)
  have s0: "draft_kept kept held rs (s\<lparr>ai_fetched := False\<rparr>)"
    using assms(1) by (simp add: draft_kept_def synced_def persisted_def saves_only_def)
  show ?thesis
  proof (cases "length (ai_calls s) \<le> i \<or> ca_stage (ai_calls s ! i) \<noteq> Fetching")
    case True
    then show ?thesis using assms(1) Refetch_Answer by (auto simp: ai_step_def refetch_answered_def)
  next
    case False
    then have i: "i < length (ai_calls s)" by simp
    show ?thesis
      using False Refetch_Answer assms ended_kept [OF assms(1) i] failed_kept [OF s0]
      by (auto simp: ai_step_def refetch_answered_def provider_work_def arriving_def split: sum.split)
  qed
next
  case (Setting_Arrives st)
  moreover have "saves_only (s\<lparr>ai_original := st\<rparr>)" using assms(1) by (simp add: draft_kept_def saves_only_def)
  ultimately show ?thesis using sync_kept [OF assms(1), of st "s\<lparr>ai_original := st\<rparr>"] assms(2)
    by (simp add: ai_step_def provider_work_def arriving_def)
qed (use assms in \<open>simp_all add: ai_step_def provider_work_def draft_kept_def synced_def persisted_def saves_only_def update_draft_def\<close>)

text \<open>Work on the providers, adding, changing and saving them, neither sends nor changes the transcription that is being
  edited: whatever order the answers come in, as long as the server keeps the transcription it has, each request carries
  that one and the fields of the form stay as they are.\<close>

theorem transcription_draft_private:
  assumes "s = foldl (ai_step fresh) (ai_mount fresh fetched st) before" and "ai_calls s = []"
    and "list_all (provider_work (persisted s)) es"
  shows "let s' = foldl (ai_step fresh) s es in
    ai_transcription s' = ai_transcription s
    \<and> list_all (\<lambda>r. toLocalTranscription (as_transcription r) = persisted s) (drop (length (ai_requests s)) (ai_requests s'))"
proof -
  have "synced (ai_mount fresh fetched st)" by (simp add: synced_def persisted_def ai_mount_def)
  then have "synced s" unfolding assms(1) by (rule ai_sync.run_inv)
  then have start: "draft_kept (persisted s) (ai_transcription s) (ai_requests s) s"
    using assms(2) by (simp add: draft_kept_def saves_only_def)
  have "draft_kept kept held rs (foldl (ai_step fresh) x es)" if "draft_kept kept held rs x" "list_all (provider_work kept) es" for kept held rs x
    using that provider_work_kept by (induction es arbitrary: x) auto
  from this [OF start assms(3)] show ?thesis by (auto simp: draft_kept_def Let_def)
qed

definition ai_sample :: ai_setting where
  "ai_sample =
     \<lparr>as_providers = [\<lparr>ap_id = ''p'', ap_title = ''Work'', ap_type = OPENAI, ap_endpoint = [], ap_apiKey = [], ap_apiKeySet = True, ap_apiKeyHint = []\<rparr>],
      as_transcription = None\<rparr>"

theorem transcription_draft_private_witness:
  "let s = foldl (ai_step show_nat) (ai_mount show_nat True ai_sample) [Transcription_Provider ''p'', Transcription_Model ''whisper''];
       s' = foldl (ai_step show_nat) s [Edit_Provider 0, Draft_Title ''Office'', Draft_Save, Update_Answer 0 (Inr ai_sample)] in
    ai_transcription s' = ai_transcription s \<and> lt_model (ai_transcription s') = ''whisper''"
proof -
  let ?s = "foldl (ai_step show_nat) (ai_mount show_nat True ai_sample) [Transcription_Provider ''p'', Transcription_Model ''whisper'']"
  have "ai_calls ?s = []" "persisted ?s = toLocalTranscription None" "lt_model (ai_transcription ?s) = ''whisper''" by code_simp+
  then show ?thesis
    using transcription_draft_private [OF refl, of show_nat True ai_sample "[Transcription_Provider ''p'', Transcription_Model ''whisper'']"
        "[Edit_Provider 0, Draft_Title ''Office'', Draft_Save, Update_Answer 0 (Inr ai_sample)]"]
    by (simp add: Let_def provider_work_def arriving_def ai_sample_def)
qed

section \<open>Saves that overlap\<close>

definition two_saves :: "ai_event list" where
  "two_saves =
     [Add_Provider, Draft_Title ''First'', Draft_Key ''a'', Draft_Save, Draft_Close, Add_Provider, Draft_Title ''Second'', Draft_Key ''b'', Draft_Save]"

text \<open>A request holds the whole list as it was last received. When the dialog of a new provider is closed before its save is
  answered and a second one is added and saved, the second request does not contain the first provider, and the server,
  which takes the list as it is, forgets it.\<close>

theorem second_save_drops_first:
  assumes "fresh 1 \<notin> ap_id ` set (as_providers st)" and "fresh 3 \<notin> ap_id ` set (as_providers st)" and "fresh 1 \<noteq> fresh 3"
  shows "let r = ai_requests (foldl (ai_step fresh) (ai_mount fresh fetched st) two_saves) in
    length r = 2 \<and> fresh 1 \<in> ap_id ` set (as_providers (r ! 0)) \<and> fresh 1 \<notin> ap_id ` set (as_providers (r ! 1))"
proof -
  have n: "\<not> list_ex (\<lambda>item. lp_id item = fresh k) (map toLocalProvider (as_providers st))" if "fresh k \<notin> ap_id ` set (as_providers st)" for k
    using that by (force simp: list_ex_iff)
  have t: "trim ''First'' = ''First''" "trim ''Second'' = ''Second''" "trim ''a'' = ''a''" "trim ''b'' = ''b''" by code_simp+
  note defs = ai_step_def ai_mount_def ai_covered_def set_editing_def newProvider_def update_draft_def handleSaveProvider_def
    persistAISetting_def Let_def
  have "map as_providers (ai_requests (foldl (ai_step fresh) (ai_mount fresh fetched st) two_saves))
      = [map toProviderConfig (map toLocalProvider (as_providers st)
           @ [(newProvider (fresh 1))\<lparr>lp_title := ''First'', lp_endpoint := trim [], lp_apiKey := ''a''\<rparr>]),
         map toProviderConfig (map toLocalProvider (as_providers st)
           @ [(newProvider (fresh 3))\<lparr>lp_title := ''Second'', lp_endpoint := trim [], lp_apiKey := ''b''\<rparr>])]"
    using n [OF assms(1)] n [OF assms(2)] by (simp add: two_saves_def defs t eval_nat_numeral)
  then obtain r1 r2 where r: "ai_requests (foldl (ai_step fresh) (ai_mount fresh fetched st) two_saves) = [r1, r2]"
    and ids: "as_providers r1 = map toProviderConfig (map toLocalProvider (as_providers st)
           @ [(newProvider (fresh 1))\<lparr>lp_title := ''First'', lp_endpoint := trim [], lp_apiKey := ''a''\<rparr>])"
      "as_providers r2 = map toProviderConfig (map toLocalProvider (as_providers st)
           @ [(newProvider (fresh 3))\<lparr>lp_title := ''Second'', lp_endpoint := trim [], lp_apiKey := ''b''\<rparr>])"
    by (auto simp: map_eq_Cons_conv)
  show ?thesis unfolding r Let_def using assms by (auto simp: ids newProvider_def image_image)
qed

theorem second_save_drops_first_witness:
  "let r = ai_requests (foldl (ai_step show_nat) (ai_mount show_nat True ai_sample) two_saves) in
    length r = 2 \<and> ''1'' \<in> ap_id ` set (as_providers (r ! 0)) \<and> ''1'' \<notin> ap_id ` set (as_providers (r ! 1))"
proof -
  have n: "show_nat 1 = ''1''" "show_nat 3 = ''3''" by code_simp+
  show ?thesis using second_save_drops_first [of show_nat ai_sample True] unfolding n by (simp add: ai_sample_def)
qed

end
