(* ===== verification/MediaPreview.thy ===== *)
theory MediaPreview
  imports Attachments
begin

text \<open>
  The attachments of the editor and their preview: the dialog that shows one item after the other
  (\<^verbatim>\<open>components/PreviewImageDialog.tsx\<close>), moving and removing items
  (\<^verbatim>\<open>MemoMetadata/Attachment/AttachmentListEditor.tsx\<close>), and the image of a shared memo
  (\<^verbatim>\<open>MemoActionMenu/memoShareImage.ts\<close>, \<^verbatim>\<open>memoShareImagePreviewModel.ts\<close>).
\<close>

section \<open>The preview dialog\<close>

definition MIN_ZOOM :: rat where "MIN_ZOOM = 1"
definition MAX_ZOOM :: rat where "MAX_ZOOM = 4"
definition ZOOM_STEP :: rat where "ZOOM_STEP = 1 / 5"
definition DOUBLE_TAP_ZOOM :: rat where "DOUBLE_TAP_ZOOM = 2"

definition clampZoom :: "rat \<Rightarrow> rat" where
  "clampZoom scale = min MAX_ZOOM (max MIN_ZOOM scale)"

text \<open>What the parent passes (\<open>pd_open\<close>, \<open>pd_items\<close>, \<open>pd_initialIndex\<close>) and the state of the dialog.\<close>

record preview_dialog =
  pd_open :: bool
  pd_items :: "preview_media_item list"
  pd_initialIndex :: int
  pd_currentIndex :: int
  pd_zoomScale :: rat

definition itemCount :: "preview_dialog \<Rightarrow> int" where
  "itemCount s = int (length (pd_items s))"

definition safeIndex :: "preview_dialog \<Rightarrow> int" where
  "safeIndex s = max 0 (min (pd_currentIndex s) (itemCount s - 1))"

definition currentItem :: "preview_dialog \<Rightarrow> preview_media_item option" where
  "currentItem s = (if safeIndex s < itemCount s then Some (pd_items s ! nat (safeIndex s)) else None)"

definition isImagePreview :: "preview_dialog \<Rightarrow> bool" where
  "isImagePreview s = (case currentItem s of Some (ImagePreview _ _ _ _) \<Rightarrow> True | _ \<Rightarrow> False)"

definition hasMultiple :: "preview_dialog \<Rightarrow> bool" where
  "hasMultiple s \<longleftrightarrow> itemCount s > 1"

definition canGoPrevious :: "preview_dialog \<Rightarrow> bool" where
  "canGoPrevious s \<longleftrightarrow> safeIndex s > 0"

definition canGoNext :: "preview_dialog \<Rightarrow> bool" where
  "canGoNext s \<longleftrightarrow> safeIndex s < itemCount s - 1"

definition handlePrevious :: "preview_dialog \<Rightarrow> preview_dialog" where
  "handlePrevious s = s\<lparr>pd_currentIndex := max (pd_currentIndex s - 1) 0\<rparr>"

definition handleNext :: "preview_dialog \<Rightarrow> preview_dialog" where
  "handleNext s = s\<lparr>pd_currentIndex := min (pd_currentIndex s + 1) (itemCount s - 1)\<rparr>"

definition updateZoom :: "rat \<Rightarrow> preview_dialog \<Rightarrow> preview_dialog" where
  "updateZoom nextScale s = s\<lparr>pd_zoomScale := clampZoom nextScale\<rparr>"

definition resetZoom :: "preview_dialog \<Rightarrow> preview_dialog" where
  "resetZoom s = s\<lparr>pd_zoomScale := MIN_ZOOM\<rparr>"

definition handleDoubleClick :: "preview_dialog \<Rightarrow> preview_dialog" where
  "handleDoubleClick s = s\<lparr>pd_zoomScale := if pd_zoomScale s = MIN_ZOOM then DOUBLE_TAP_ZOOM else MIN_ZOOM\<rparr>"

datatype preview_event =
    Set_Props bool "preview_media_item list" int
  | Key_Escape | Key_Left | Key_Right | Click_Close | Click_Previous | Click_Next
  | Zoom_In | Zoom_Out | Zoom_Reset | Wheel bool | Double_Click

text \<open>
  \<open>fadd\<close> is the addition of the browser's numbers. The parent follows \<open>onOpenChange(false)\<close>. The buttons of a
  closed or empty dialog are not there.
\<close>

definition preview_handle :: "(rat \<Rightarrow> rat \<Rightarrow> rat) \<Rightarrow> preview_event \<Rightarrow> preview_dialog \<Rightarrow> preview_dialog" where
  "preview_handle fadd e s =
     (let shown = pd_open s \<and> currentItem s \<noteq> None in
      case e of
        Set_Props opn items i \<Rightarrow> s\<lparr>pd_open := opn, pd_items := items, pd_initialIndex := i\<rparr>
      | Key_Escape \<Rightarrow> s\<lparr>pd_open := False\<rparr>
      | Key_Left \<Rightarrow> if pd_open s then handlePrevious s else s
      | Key_Right \<Rightarrow> if pd_open s then handleNext s else s
      | Click_Close \<Rightarrow> if shown then s\<lparr>pd_open := False\<rparr> else s
      | Click_Previous \<Rightarrow> if shown \<and> hasMultiple s \<and> canGoPrevious s then handlePrevious s else s
      | Click_Next \<Rightarrow> if shown \<and> hasMultiple s \<and> canGoNext s then handleNext s else s
      | Zoom_In \<Rightarrow> if shown \<and> isImagePreview s \<and> pd_zoomScale s \<noteq> MAX_ZOOM then updateZoom (fadd (pd_zoomScale s) ZOOM_STEP) s else s
      | Zoom_Out \<Rightarrow> if shown \<and> isImagePreview s \<and> pd_zoomScale s \<noteq> MIN_ZOOM then updateZoom (fadd (pd_zoomScale s) (- ZOOM_STEP)) s else s
      | Zoom_Reset \<Rightarrow> if shown \<and> isImagePreview s \<and> pd_zoomScale s > MIN_ZOOM then resetZoom s else s
      | Wheel up \<Rightarrow> if shown \<and> isImagePreview s then updateZoom (fadd (pd_zoomScale s) (if up then ZOOM_STEP else - ZOOM_STEP)) s else s
      | Double_Click \<Rightarrow> if shown \<and> isImagePreview s then handleDoubleClick s else s)"

text \<open>The two effects: the index of the props on opening, then the zoom for a new item.\<close>

definition index_effect :: "preview_dialog \<Rightarrow> preview_dialog \<Rightarrow> preview_dialog" where
  "index_effect before s =
     (if (pd_initialIndex s \<noteq> pd_initialIndex before \<or> pd_open s \<noteq> pd_open before) \<and> pd_open s
      then s\<lparr>pd_currentIndex := pd_initialIndex s\<rparr> else s)"

definition zoom_effect :: "preview_dialog \<Rightarrow> preview_dialog \<Rightarrow> preview_dialog" where
  "zoom_effect before s =
     (if map_option pv_id (currentItem s) \<noteq> map_option pv_id (currentItem before) \<or> pd_open s \<noteq> pd_open before
      then resetZoom s else s)"

text \<open>The effects of the rendering after the event, and those of the rendering after the new index.\<close>

definition preview_step :: "(rat \<Rightarrow> rat \<Rightarrow> rat) \<Rightarrow> preview_dialog \<Rightarrow> preview_event \<Rightarrow> preview_dialog" where
  "preview_step fadd s e =
     (let s1 = zoom_effect s (preview_handle fadd e s) in zoom_effect s1 (index_effect s s1))"

definition preview_mount :: "bool \<Rightarrow> preview_media_item list \<Rightarrow> int \<Rightarrow> preview_dialog" where
  "preview_mount opn items i =
     \<lparr>pd_open = opn, pd_items = items, pd_initialIndex = i, pd_currentIndex = i, pd_zoomScale = MIN_ZOOM\<rparr>"

section \<open>The list of the editor\<close>

definition editor_items :: "string \<Rightarrow> attachment list \<Rightarrow> local_file list \<Rightarrow> attachment_item list" where
  "editor_items origin attachments localFiles = filter (\<lambda>i. \<not> ai_isLocal i) (toAttachmentItems origin attachments localFiles)"

definition editor_local_items :: "string \<Rightarrow> attachment list \<Rightarrow> local_file list \<Rightarrow> attachment_item list" where
  "editor_local_items origin attachments localFiles = filter ai_isLocal (toAttachmentItems origin attachments localFiles)"

definition editor_previewItems :: "attachment_item list \<Rightarrow> preview_media_item list" where
  "editor_previewItems items =
     List.map_filter (\<lambda>i. case ai_category i of
         CImage \<Rightarrow> Some (ImagePreview (ai_id i) (ai_filename i) (ai_sourceUrl i) (Some (ai_thumbnailUrl i)))
       | CVideo \<Rightarrow> Some (VideoPreview (ai_id i) (ai_filename i) (ai_sourceUrl i) (Some (ai_thumbnailUrl i)))
       | CMotion \<Rightarrow> Some (MotionPreview (ai_id i) (ai_filename i) (ai_thumbnailUrl i) (ai_sourceUrl i) None)
       | _ \<Rightarrow> None) items"

text \<open>\<open>None\<close>: nothing is moved. The direction is -1 or 1.\<close>

definition moved_items :: "attachment_item list \<Rightarrow> string \<Rightarrow> int \<Rightarrow> attachment_item list option" where
  "moved_items items itemId direction =
     (case find_index (\<lambda>i. ai_id i = itemId) items of
        None \<Rightarrow> None
      | Some itemIndex \<Rightarrow>
          let targetIndex = int itemIndex + direction in
          if targetIndex < 0 \<or> targetIndex \<ge> int (length items) then None
          else Some (items[itemIndex := items ! nat targetIndex, nat targetIndex := items ! itemIndex]))"

text \<open>The members of the items, looked up by key in the list; of two with the same key the last.\<close>

definition members_of :: "('a \<Rightarrow> string) \<Rightarrow> 'a list \<Rightarrow> attachment_item list \<Rightarrow> 'a list" where
  "members_of key xs items =
     concat (map (\<lambda>i. List.map_filter (map_of (rev (map (\<lambda>x. (key x, x)) xs))) (ai_memberIds i)) items)"

definition handleMoveAttachments :: "string \<Rightarrow> attachment list \<Rightarrow> local_file list \<Rightarrow> string \<Rightarrow> int \<Rightarrow> attachment list option" where
  "handleMoveAttachments origin attachments localFiles itemId direction =
     map_option (members_of a_name attachments) (moved_items (editor_items origin attachments localFiles) itemId direction)"

definition handleMoveLocalFiles :: "string \<Rightarrow> attachment list \<Rightarrow> local_file list \<Rightarrow> string \<Rightarrow> int \<Rightarrow> local_file list option" where
  "handleMoveLocalFiles origin attachments localFiles itemId direction =
     map_option (members_of lf_previewUrl localFiles) (moved_items (editor_local_items origin attachments localFiles) itemId direction)"

definition handleRemoveItem :: "attachment_item \<Rightarrow> attachment list \<Rightarrow> local_file list \<Rightarrow> attachment list \<times> local_file list" where
  "handleRemoveItem item attachments localFiles =
     (if ai_isLocal item then (attachments, filter (\<lambda>f. lf_previewUrl f \<notin> set (ai_memberIds item)) localFiles)
      else (filter (\<lambda>a. a_name a \<notin> set (ai_memberIds item)) attachments, localFiles))"

text \<open>The index the preview opens with, when there is one.\<close>

definition handlePreviewItem :: "attachment_item list \<Rightarrow> attachment_item \<Rightarrow> nat option" where
  "handlePreviewItem items item = find_index (\<lambda>p. pv_id p = ai_id item) (editor_previewItems items)"

section \<open>The image of a shared memo\<close>

definition dialogExtraWidth :: int where "dialogExtraWidth = 80"
definition maxWidth :: int where "maxWidth = 520"
definition minWidth :: int where "minWidth = 260"
definition previewScale :: rat where "previewScale = 9 / 10"
definition viewportMargin :: int where "viewportMargin = 48"
definition WINDOW_HORIZONTAL_MARGIN :: int where "WINDOW_HORIZONTAL_MARGIN = 32"
definition PREVIEW_HORIZONTAL_PADDING_IN_DIALOG :: int where "PREVIEW_HORIZONTAL_PADDING_IN_DIALOG = 40"
definition PREVIEW_WIDTH_BOOST_IN_DIALOG :: int where "PREVIEW_WIDTH_BOOST_IN_DIALOG = 48"

definition clamp :: "int \<Rightarrow> int \<Rightarrow> int \<Rightarrow> int" where
  "clamp value lo hi = min (max value lo) hi"

text \<open>\<open>url_origin\<close>: the origin of an address as the browser resolves it on the page, \<open>None\<close> where it throws.\<close>

definition isExportableImageUrl :: "(string \<Rightarrow> string option) \<Rightarrow> string \<Rightarrow> string option \<Rightarrow> bool" where
  "isExportableImageUrl url_origin origin value =
     (case value of
        None \<Rightarrow> False
      | Some v \<Rightarrow>
          if v = [] then False
          else if startsWith v ''/'' \<or> startsWith v ''data:'' \<or> startsWith v ''blob:'' then True
          else url_origin v = Some origin)"

definition buildMemoShareImageFileName :: "string \<Rightarrow> string" where
  "buildMemoShareImageFileName memoName =
     (let p = last (split_char CHR ''/'' memoName); suffix = (if p = [] then ''memo'' else p) in
      ''memo-'' @ suffix @ ''.png'')"

text \<open>The widths, for the inner width of the window; a card width of 0 counts as none.\<close>

definition getMemoSharePreviewWidth :: "int \<Rightarrow> rat \<Rightarrow> int" where
  "getMemoSharePreviewWidth innerWidth cardWidth =
     (let viewportWidth = of_int (innerWidth - viewportMargin); baseWidth = (if cardWidth = 0 then viewportWidth else cardWidth) in
      clamp \<lfloor>baseWidth * previewScale + 1 / 2\<rfloor> minWidth maxWidth)"

definition getMemoShareDialogWidth :: "int \<Rightarrow> int \<Rightarrow> int" where
  "getMemoShareDialogWidth innerWidth previewWidth = min (previewWidth + dialogExtraWidth) (innerWidth - WINDOW_HORIZONTAL_MARGIN)"

definition getMemoShareRenderWidth :: "int \<Rightarrow> int \<Rightarrow> int" where
  "getMemoShareRenderWidth previewWidth dialogWidth =
     (let maxRenderWidth = max minWidth (dialogWidth - PREVIEW_HORIZONTAL_PADDING_IN_DIALOG) in
      clamp (previewWidth + PREVIEW_WIDTH_BOOST_IN_DIALOG) minWidth maxRenderWidth)"

definition getMemoSharePreviewAvatarUrl :: "(string \<Rightarrow> string option) \<Rightarrow> string \<Rightarrow> string option \<Rightarrow> string option" where
  "getMemoSharePreviewAvatarUrl url_origin origin avatarUrl =
     (if isExportableImageUrl url_origin origin avatarUrl then avatarUrl else None)"

record share_creator =
  sc_displayName :: string
  sc_username :: string
  sc_avatarUrl :: string

record share_model =
  sm_displayName :: string
  sm_avatarUrl :: "string option"
  sm_visualItems :: "visual_item list"
  sm_summary :: "nat option"

text \<open>The badge of the footer is \<open>sm_summary\<close>; the text of the time is the browser's.\<close>

definition buildMemoShareImagePreviewModel ::
  "(string \<Rightarrow> string option) \<Rightarrow> string \<Rightarrow> attachment list \<Rightarrow> share_creator option \<Rightarrow> string \<Rightarrow> share_model" where
  "buildMemoShareImagePreviewModel url_origin origin attachments creator fallbackDisplayName =
     (let visualItems = buildAttachmentVisualItems origin (ag_visual (separateAttachments attachments));
          attachmentCount = countLogicalAttachmentItems origin attachments;
          nonVisualAttachmentCount = attachmentCount - length visualItems in
      \<lparr>sm_displayName =
         (case creator of
            None \<Rightarrow> fallbackDisplayName
          | Some c \<Rightarrow> if sc_displayName c \<noteq> [] then sc_displayName c else if sc_username c \<noteq> [] then sc_username c else fallbackDisplayName),
       sm_avatarUrl = getMemoSharePreviewAvatarUrl url_origin origin (map_option sc_avatarUrl creator),
       sm_visualItems = visualItems,
       sm_summary = (if nonVisualAttachmentCount > 0 then Some attachmentCount else None)\<rparr>)"

section \<open>Lemmas on the preview\<close>

definition zoom_ok :: "preview_dialog \<Rightarrow> bool" where
  "zoom_ok s \<longleftrightarrow> MIN_ZOOM \<le> pd_zoomScale s \<and> pd_zoomScale s \<le> MAX_ZOOM"

lemma clamp_zoom_ok [simp]: "MIN_ZOOM \<le> clampZoom z" "clampZoom z \<le> MAX_ZOOM"
  by (auto simp: clampZoom_def MIN_ZOOM_def MAX_ZOOM_def)

lemma zoom_order [simp]: "MIN_ZOOM \<le> MAX_ZOOM" "MIN_ZOOM \<le> DOUBLE_TAP_ZOOM" "DOUBLE_TAP_ZOOM \<le> MAX_ZOOM"
  by (simp_all add: MIN_ZOOM_def MAX_ZOOM_def DOUBLE_TAP_ZOOM_def)

lemma handle_zoom_ok: "zoom_ok s \<Longrightarrow> zoom_ok (preview_handle fadd e s)"
  by (cases e) (auto simp: preview_handle_def zoom_ok_def Let_def handlePrevious_def handleNext_def updateZoom_def resetZoom_def
      handleDoubleClick_def)

lemma zoom_effect_ok: "zoom_ok s \<Longrightarrow> zoom_ok (zoom_effect b s)"
  by (simp add: zoom_effect_def zoom_ok_def resetZoom_def MIN_ZOOM_def MAX_ZOOM_def)

lemma index_effect_fields [simp]:
  "pd_zoomScale (index_effect b s) = pd_zoomScale s" "pd_open (index_effect b s) = pd_open s" "pd_items (index_effect b s) = pd_items s"
  by (simp_all add: index_effect_def)

lemma zoom_effect_cases: "zoom_effect b s = resetZoom s \<or> zoom_effect b s = s"
  by (simp add: zoom_effect_def)

lemma resetZoom_fields [simp]:
  "pd_open (resetZoom s) = pd_open s" "currentItem (resetZoom s) = currentItem s" "pd_items (resetZoom s) = pd_items s"
  by (simp_all add: resetZoom_def currentItem_def safeIndex_def itemCount_def)

lemma zoom_effect_fields [simp]:
  "pd_open (zoom_effect b s) = pd_open s" "currentItem (zoom_effect b s) = currentItem s" "pd_items (zoom_effect b s) = pd_items s"
  using zoom_effect_cases [of b s] by auto

lemma preview_step_zoom: "zoom_ok s \<Longrightarrow> zoom_ok (preview_step fadd s e)"
proof -
  assume "zoom_ok s"
  then have "zoom_ok (zoom_effect s (preview_handle fadd e s))" by (intro zoom_effect_ok handle_zoom_ok)
  then have "zoom_ok (index_effect s (zoom_effect s (preview_handle fadd e s)))" by (simp add: zoom_ok_def)
  then show ?thesis unfolding preview_step_def Let_def by (rule zoom_effect_ok)
qed

interpretation preview: machine "preview_step fadd" zoom_ok for fadd
  by unfold_locales (rule preview_step_zoom)

lemma item_shown: "currentItem s = None \<longleftrightarrow> pd_items s = []"
  by (auto simp: currentItem_def safeIndex_def itemCount_def)

lemma new_item_unzoomed:
  assumes "map_option pv_id (currentItem (preview_step fadd s e)) \<noteq> map_option pv_id (currentItem s)
    \<or> pd_open (preview_step fadd s e) \<noteq> pd_open s"
  shows "pd_zoomScale (preview_step fadd s e) = MIN_ZOOM"
proof -
  define s1 where "s1 = zoom_effect s (preview_handle fadd e s)"
  have step: "preview_step fadd s e = zoom_effect s1 (index_effect s s1)" by (simp add: preview_step_def s1_def Let_def)
  show ?thesis
  proof (cases "map_option pv_id (currentItem (index_effect s s1)) = map_option pv_id (currentItem s1)")
    case True
    then have "map_option pv_id (currentItem s1) \<noteq> map_option pv_id (currentItem s) \<or> pd_open s1 \<noteq> pd_open s"
      using assms unfolding step by simp
    then have "pd_zoomScale s1 = MIN_ZOOM" by (auto simp: s1_def zoom_effect_def resetZoom_def)
    then show ?thesis unfolding step using True by (simp add: zoom_effect_def)
  next
    case False
    then show ?thesis unfolding step by (simp add: zoom_effect_def resetZoom_def)
  qed
qed

section \<open>Lemmas on moving\<close>

lemma map_of_key:
  assumes "k \<in> key ` set xs"
  shows "\<exists>x \<in> set xs. key x = k \<and> map_of (rev (map (\<lambda>x. (key x, x)) xs)) k = Some x"
proof -
  have "map_of (rev (map (\<lambda>x. (key x, x)) xs)) k \<noteq> None" using assms by (auto simp: map_of_eq_None_iff image_image)
  then obtain x where x: "map_of (rev (map (\<lambda>x. (key x, x)) xs)) k = Some x" by blast
  from map_of_SomeD [OF x] show ?thesis using x by auto
qed

lemma members_keys:
  assumes "set (concat (map ai_memberIds items)) \<subseteq> key ` set xs"
  shows "map key (members_of key xs items) = concat (map ai_memberIds items)" "set (members_of key xs items) \<subseteq> set xs"
proof -
  have one: "map key (List.map_filter (map_of (rev (map (\<lambda>x. (key x, x)) xs))) ks) = ks
      \<and> set (List.map_filter (map_of (rev (map (\<lambda>x. (key x, x)) xs))) ks) \<subseteq> set xs" if "set ks \<subseteq> key ` set xs" for ks
    using that
  proof (induction ks)
    case (Cons k ks)
    then obtain x where "x \<in> set xs" "key x = k" "map_of (rev (map (\<lambda>x. (key x, x)) xs)) k = Some x"
      using map_of_key [of k key xs] by auto
    with Cons show ?case by (simp add: List.map_filter_simps)
  qed (simp add: List.map_filter_simps)
  show "map key (members_of key xs items) = concat (map ai_memberIds items)"
    using assms one by (induction items) (auto simp: members_of_def)
  show "set (members_of key xs items) \<subseteq> set xs"
    using assms one by (induction items) (auto simp: members_of_def)
qed

lemma moved_mset: "moved_items items i d = Some items' \<Longrightarrow> mset items' = mset items"
proof -
  assume a: "moved_items items i d = Some items'"
  then obtain k where k: "find_index (\<lambda>x. ai_id x = i) items = Some k" "0 \<le> int k + d" "int k + d < int (length items)"
    and m: "items' = items[k := items ! nat (int k + d), nat (int k + d) := items ! k]"
    by (auto simp: moved_items_def Let_def split: option.splits if_splits)
  have "k < length items" "nat (int k + d) < length items" using k find_index_Some [OF k(1)] by auto
  then show ?thesis unfolding m using mset_swap [of "nat (int k + d)" items k] by simp
qed

lemma mset_members: "mset xs = mset ys \<Longrightarrow> mset (concat (map f xs)) = mset (concat (map f ys))"
proof -
  assume a: "mset xs = mset ys"
  have "mset (concat (map f zs)) = sum_mset (image_mset (\<lambda>z. mset (f z)) (mset zs))" for zs by (induction zs) simp_all
  then show ?thesis using a by simp
qed

lemma local_items: "list_all ai_isLocal (toLocalMotionItems files)"
proof -
  have "list_all ai_isLocal (map fileToItem fs)" for fs by (auto simp: list_all_iff fileToItem_def Let_def)
  moreover have "list_all ai_isLocal (local_group_items g)" for g
    using calculation by (cases g) (auto simp: local_group_items_def split: option.splits)
  ultimately show ?thesis by (auto simp: toLocalMotionItems_def list_all_iff)
qed

lemma editor_local: "editor_local_items origin attachments files = toLocalMotionItems files"
proof -
  have "filter ai_isLocal (map visualItemToAttachmentItem vs) = []" for vs by (simp add: filter_empty_conv visualItemToAttachmentItem_def)
  moreover have "filter ai_isLocal (filter p (map (attachmentGroupToItem origin) xs)) = []" for p xs
    by (auto simp: filter_empty_conv attachmentGroupToItem_def Let_def)
  moreover have "filter ai_isLocal (toLocalMotionItems files) = toLocalMotionItems files"
    using local_items [of files] by (simp add: list_all_iff)
  ultimately show ?thesis by (simp add: editor_local_items_def toAttachmentItems_def Let_def)
qed

section \<open>Properties\<close>

text \<open>The preview always shows an item of the list when there is one, whatever the parent passes and whatever is
  pressed; the zoom stays between 1 and 4, however the browser rounds, and an item that comes up is never shown zoomed.\<close>

theorem preview_always_valid:
  "let s = foldl (preview_step fadd) (preview_mount opn items i) es; s' = preview_step fadd s e in
   MIN_ZOOM \<le> pd_zoomScale s' \<and> pd_zoomScale s' \<le> MAX_ZOOM \<and> (currentItem s' = None \<longleftrightarrow> pd_items s' = [])
   \<and> (if map_option pv_id (currentItem s') \<noteq> map_option pv_id (currentItem s) \<or> pd_open s' \<noteq> pd_open s
      then pd_zoomScale s' = MIN_ZOOM else True)"
proof -
  let ?s = "foldl (preview_step fadd) (preview_mount opn items i) es"
  have "zoom_ok (preview_mount opn items i)" by (simp add: zoom_ok_def preview_mount_def MIN_ZOOM_def MAX_ZOOM_def)
  then have "zoom_ok (preview_step fadd ?s e)" by (intro preview_step_zoom preview.run_inv)
  then show ?thesis using new_item_unzoomed [of fadd ?s e] by (simp add: Let_def zoom_ok_def item_shown)
qed

text \<open>Moving an item of the files to upload loses and doubles no file.\<close>

theorem local_move_permutes:
  assumes "distinct (map lf_previewUrl files)" and "handleMoveLocalFiles origin attachments files itemId direction = Some result"
  shows "mset result = mset files"
proof -
  obtain items' where items: "moved_items (toLocalMotionItems files) itemId direction = Some items'"
    and result: "result = members_of lf_previewUrl files items'"
    using assms(2) by (auto simp: handleMoveLocalFiles_def editor_local)
  have "mset (concat (map ai_memberIds items')) = mset (concat (map ai_memberIds (toLocalMotionItems files)))"
    using moved_mset [OF items] by (rule mset_members)
  then have ids: "mset (concat (map ai_memberIds items')) = mset (map lf_previewUrl files)" by (simp add: local_items_cover)
  then have "set (concat (map ai_memberIds items')) = lf_previewUrl ` set files" by (metis mset_eq_setD set_map)
  then have r: "map lf_previewUrl result = concat (map ai_memberIds items')" "set result \<subseteq> set files"
    unfolding result using members_keys [of items' lf_previewUrl files] by auto
  have m: "mset (map lf_previewUrl result) = mset (map lf_previewUrl files)" unfolding r(1) ids ..
  then have d: "distinct (map lf_previewUrl result)" using assms(1) by (metis mset_eq_imp_distinct_iff)
  have "length result = length files" using m by (metis length_map mset_eq_length)
  then have "set result = set files" using r(2) d assms(1)
    by (metis card_subset_eq distinct_card distinct_map finite_set)
  then show ?thesis using d assms(1) by (simp add: set_eq_iff_mset_eq_distinct distinct_map)
qed

text \<open>Moving an attachment of a memo keeps exactly the attachments that the list shows. One that it does not show, such as
  a Photoshop file, is dropped from the memo when another one is moved.\<close>

theorem attachment_move_keeps_listed:
  assumes "handleMoveAttachments origin attachments files itemId direction = Some result" and "distinct (map a_name attachments)"
  shows "set result
    = {a \<in> set attachments. list_ex (\<lambda>i. a_name a \<in> set (ai_memberIds i)) (editor_items origin attachments files)}"
proof -
  obtain items' where items: "moved_items (editor_items origin attachments files) itemId direction = Some items'"
    and result: "result = members_of a_name attachments items'"
    using assms(1) by (auto simp: handleMoveAttachments_def)
  have i: "set items' = set (editor_items origin attachments files)" using moved_mset [OF items] by (metis mset_eq_setD)
  have "map_of (rev (map (\<lambda>x. (a_name x, x)) attachments)) k = Some a \<longleftrightarrow> a \<in> set attachments \<and> a_name a = k" for k a
  proof -
    have "distinct (map fst (rev (map (\<lambda>x. (a_name x, x)) attachments)))" using assms(2) by (simp add: comp_def rev_map [symmetric])
    from map_of_eq_Some_iff [OF this, of k a] show ?thesis by auto
  qed
  then show ?thesis unfolding result members_of_def
    by (auto simp: set_map_filter i list_ex_iff)
qed

definition photo :: attachment where
  "photo = empty_attachment\<lparr>a_name := ''attachments/1'', a_filename := ''a.png'', a_type := ''image/png''\<rparr>"

definition photoshop :: attachment where
  "photoshop = empty_attachment\<lparr>a_name := ''attachments/2'', a_filename := ''a.psd'', a_type := ''image/vnd.adobe.photoshop''\<rparr>"

definition letter :: attachment where
  "letter = empty_attachment\<lparr>a_name := ''attachments/3'', a_filename := ''a.pdf'', a_type := ''application/pdf''\<rparr>"

theorem attachment_move_keeps_listed_witness:
  "handleMoveAttachments ''https://m'' [photo, photoshop, letter] [] ''attachments/1'' 1 = Some [letter, photo] \<and> photoshop \<notin> set [letter, photo]"
proof -
  have m: "handleMoveAttachments ''https://m'' [photo, photoshop, letter] [] ''attachments/1'' 1 = Some [letter, photo]" by code_simp
  have "\<not> list_ex (\<lambda>i. a_name photoshop \<in> set (ai_memberIds i)) (editor_items ''https://m'' [photo, photoshop, letter] [])" by code_simp
  then show ?thesis using attachment_move_keeps_listed [OF m] m by (simp add: photo_def photoshop_def letter_def)
qed

text \<open>
  Photos come before other files in the list, whatever their order in the memo, so moving a file above a photo
  changes the memo and not the list.
\<close>

theorem move_not_shown:
  "handleMoveAttachments ''https://m'' [photo, letter] [] ''attachments/3'' (- 1) = Some [letter, photo]
   \<and> map ai_id (editor_items ''https://m'' [letter, photo] []) = map ai_id (editor_items ''https://m'' [photo, letter] [])"
  by (intro conjI) code_simp+

text \<open>
  The shared image is at least 260 wide and fits into the dialog with its padding whenever the dialog leaves 260; the
  avatar is left out when it may taint the image, except for an address that begins with two slashes.
\<close>

theorem share_image_fits:
  "let p = getMemoSharePreviewWidth innerWidth cardWidth; d = getMemoShareDialogWidth innerWidth p; r = getMemoShareRenderWidth p d in
   minWidth \<le> p \<and> p \<le> maxWidth \<and> minWidth \<le> r \<and> r \<le> max minWidth (d - PREVIEW_HORIZONTAL_PADDING_IN_DIALOG)
   \<and> d \<le> innerWidth - WINDOW_HORIZONTAL_MARGIN \<and> isExportableImageUrl url_origin origin (Some ''//cdn/a.png'')"
  by (auto simp: getMemoSharePreviewWidth_def getMemoShareDialogWidth_def getMemoShareRenderWidth_def clamp_def Let_def minWidth_def
      maxWidth_def isExportableImageUrl_def)

text \<open>
  After the list shrinks the index can lie behind its end: the last item is shown, and the button for the previous one
  has no effect until the index is back in the list.
\<close>

theorem previous_without_effect:
  assumes "itemCount s \<le> pd_currentIndex s" and "pd_items s \<noteq> []"
  shows "currentItem (preview_step fadd s Click_Previous) = currentItem s"
proof -
  have "itemCount s > 0" using assms(2) by (simp add: itemCount_def)
  then have "safeIndex (handlePrevious s) = safeIndex s" "itemCount (handlePrevious s) = itemCount s"
    using assms(1) by (simp_all add: safeIndex_def handlePrevious_def itemCount_def)
  then have h: "currentItem (handlePrevious s) = currentItem s" by (simp add: currentItem_def handlePrevious_def)
  have "index_effect s (zoom_effect s (preview_handle fadd Click_Previous s)) = zoom_effect s (preview_handle fadd Click_Previous s)"
    by (simp add: index_effect_def preview_handle_def handlePrevious_def zoom_effect_def resetZoom_def)
  then show ?thesis using h by (simp add: preview_step_def Let_def preview_handle_def)
qed

end
