(* ===== verification/TagTree.thy ===== *)
theory TagTree
  imports JsBase "HOL-Library.List_Lexorder" "HOL-Library.Char_ord" "HOL-Library.Sublist"
begin

text \<open>
  The tree of tags beside the memos (\<^verbatim>\<open>components/TagTree.tsx\<close>), built from the counts of the tags,
  and the check of tag patterns (\<^verbatim>\<open>lib/tag.ts\<close>).
\<close>

section \<open>Building the tree\<close>

datatype tag = Tag (tag_key: string) (tag_text: string) (tag_amount: int) (tag_subTags: "tag list")

text \<open>
  \<open>Array.from(rawTagAmounts).sort()\<close>: without a comparator the pairs are compared as text, the tag and
  the amount joined by a comma.
\<close>

definition pair_text :: "string \<times> int \<Rightarrow> string" where
  "pair_text p = fst p @ '','' @ show_int (snd p)"

definition sort_amounts :: "(string \<times> int) list \<Rightarrow> (string \<times> int) list" where
  "sort_amounts amounts = sort_key pair_text amounts"

definition tag_text_below :: "string option \<Rightarrow> string \<Rightarrow> string" where
  "tag_text_below tagText key = (case tagText of None \<Rightarrow> key | Some t \<Rightarrow> t @ ''/'' @ key)"

text \<open>The amount a new node gets while the pair \<open>tagAmount\<close> is added.\<close>

definition new_amount :: "(string \<times> int) list \<Rightarrow> string \<times> int \<Rightarrow> string \<Rightarrow> int" where
  "new_amount pairs tagAmount tagText =
     (if list_ex (\<lambda>(tag, amount). tag = tagText \<and> amount > 1) pairs then snd tagAmount else 0)"

text \<open>The inner loop: the walk down the segments, which adds the nodes that are missing.\<close>

fun add_path :: "(string \<Rightarrow> int) \<Rightarrow> string option \<Rightarrow> string list \<Rightarrow> tag list \<Rightarrow> tag list" where
  "add_path amount tagText [] subTags = subTags"
| "add_path amount tagText (key # keys) subTags =
     (let text' = tag_text_below tagText key in
      case find_index (\<lambda>t. tag_text t = text') subTags of
        None \<Rightarrow> subTags @ [Tag key text' (amount text') (add_path amount (Some text') keys [])]
      | Some i \<Rightarrow>
          (let t = subTags ! i in
           subTags[i := Tag (tag_key t) (tag_text t) (tag_amount t) (add_path amount (Some text') keys (tag_subTags t))]))"

definition tag_tree :: "(string \<times> int) list \<Rightarrow> tag list" where
  "tag_tree rawTagAmounts =
     (let sortedTagAmounts = sort_amounts rawTagAmounts in
      foldl (\<lambda>root tagAmount. add_path (new_amount sortedTagAmounts tagAmount) None (split_char CHR ''/'' (fst tagAmount)) root)
        [] sortedTagAmounts)"

section \<open>The nodes of a tree\<close>

text \<open>The nodes with the path of keys that leads to them.\<close>

fun nodes :: "string list \<Rightarrow> tag list \<Rightarrow> (string list \<times> tag) list" where
  "nodes p [] = []"
| "nodes p (Tag k t a sub # r) = (p @ [k], Tag k t a sub) # nodes (p @ [k]) sub @ nodes p r"

lemma nodes_append: "nodes p (xs @ ys) = nodes p xs @ nodes p ys"
  by (induction p xs rule: nodes.induct) simp_all

lemma nodes_one: "nodes p [t] = (p @ [tag_key t], t) # nodes (p @ [tag_key t]) (tag_subTags t)"
  by (cases t) simp

text \<open>The amounts by path.\<close>

definition amounts :: "string list \<Rightarrow> tag list \<Rightarrow> (string list \<times> int) list" where
  "amounts p ts = map (\<lambda>(q, t). (q, tag_amount t)) (nodes p ts)"

lemma amounts_append: "amounts p (xs @ ys) = amounts p xs @ amounts p ys"
  by (simp add: amounts_def nodes_append)

lemma amounts_one: "amounts p [Tag k t a sub] = (p @ [k], a) # amounts (p @ [k]) sub"
  by (simp add: amounts_def)

lemma amounts_Nil [simp]: "amounts p [] = []"
  by (simp add: amounts_def)

lemma amounts_paths: "q \<in> fst ` set (amounts p ts) \<Longrightarrow> \<exists>k r. q = p @ k # r \<and> k \<in> tag_key ` set ts"
proof (induction p ts rule: nodes.induct)
  case (2 p k t a sub r)
  have "amounts p (Tag k t a sub # r) = (p @ [k], a) # amounts (p @ [k]) sub @ amounts p r"
    by (simp add: amounts_def)
  then show ?case using 2 by auto
qed simp

lemma amounts_outside: "\<not> (\<exists>k r. q = p @ k # r \<and> k \<in> tag_key ` set ts) \<Longrightarrow> map_of (amounts p ts) q = None"
  using amounts_paths [of q p ts] by (auto simp: map_of_eq_None_iff)

text \<open>Every node's text is its path, joined by slashes, and the keys of siblings differ.\<close>

definition path_text :: "string list \<Rightarrow> string" where
  "path_text p = join ''/'' p"

fun well_named :: "string list \<Rightarrow> tag list \<Rightarrow> bool" where
  "well_named p [] = True"
| "well_named p (Tag k t a sub # r) \<longleftrightarrow>
     t = path_text (p @ [k]) \<and> well_named (p @ [k]) sub \<and> well_named p r \<and> k \<notin> tag_key ` set r"

lemma well_named_append:
  "well_named p (xs @ ys) \<longleftrightarrow> well_named p xs \<and> well_named p ys \<and> tag_key ` set xs \<inter> tag_key ` set ys = {}"
  by (induction p xs rule: well_named.induct) auto

lemma path_text_below: "tag_text_below (if p = [] then None else Some (path_text p)) k = path_text (p @ [k])"
proof (cases "p = []")
  case False
  have "join s (p @ [k]) = join s p @ s @ k" for s
    using False by (induction s p rule: join.induct) auto
  then show ?thesis using False by (simp add: tag_text_below_def path_text_def)
qed (simp add: tag_text_below_def path_text_def)

lemma path_text_inj: "path_text (p @ [k]) = path_text (p @ [k']) \<longleftrightarrow> k = k'"
  unfolding path_text_below [symmetric] by (simp add: tag_text_below_def split: option.split)

lemma well_named_text: "well_named p ts \<Longrightarrow> t \<in> set ts \<Longrightarrow> tag_text t = path_text (p @ [tag_key t])"
  by (induction p ts rule: well_named.induct) auto

text \<open>What adding a path does: the nodes on it that are missing are added with the amount given, the others stay.\<close>

lemma prefix_below:
  "(\<exists>r. r \<noteq> [] \<and> prefix r (k # ks) \<and> q = p @ r) \<longleftrightarrow>
    q = p @ [k] \<or> (\<exists>r. r \<noteq> [] \<and> prefix r ks \<and> q = (p @ [k]) @ r)"
proof
  assume "\<exists>r. r \<noteq> [] \<and> prefix r (k # ks) \<and> q = p @ r"
  then obtain r where "r \<noteq> []" "prefix r (k # ks)" "q = p @ r" by blast
  then show "q = p @ [k] \<or> (\<exists>r. r \<noteq> [] \<and> prefix r ks \<and> q = (p @ [k]) @ r)" by (cases r) auto
next
  assume "q = p @ [k] \<or> (\<exists>r. r \<noteq> [] \<and> prefix r ks \<and> q = (p @ [k]) @ r)"
  then show "\<exists>r. r \<noteq> [] \<and> prefix r (k # ks) \<and> q = p @ r"
  proof
    assume "\<exists>r. r \<noteq> [] \<and> prefix r ks \<and> q = (p @ [k]) @ r"
    then obtain r where "prefix r ks" "q = (p @ [k]) @ r" by blast
    then show ?thesis by (intro exI [of _ "k # r"]) simp
  qed (intro exI [of _ "[k]"], simp)
qed

lemma find_child:
  assumes "well_named p ts"
  shows "find_index (\<lambda>t. tag_text t = path_text (p @ [k])) ts = None \<longleftrightarrow> k \<notin> tag_key ` set ts"
    and "find_index (\<lambda>t. tag_text t = path_text (p @ [k])) ts = Some i \<Longrightarrow> i < length ts \<and> tag_key (ts ! i) = k"
proof -
  have "tag_text t = path_text (p @ [k]) \<longleftrightarrow> tag_key t = k" if "t \<in> set ts" for t
    using well_named_text [OF assms that] by (simp add: path_text_inj)
  then show "find_index (\<lambda>t. tag_text t = path_text (p @ [k])) ts = None \<longleftrightarrow> k \<notin> tag_key ` set ts"
    and "find_index (\<lambda>t. tag_text t = path_text (p @ [k])) ts = Some i \<Longrightarrow> i < length ts \<and> tag_key (ts ! i) = k"
    by (auto simp: find_index_None dest!: find_index_Some)
qed

definition added :: "(string \<Rightarrow> int) \<Rightarrow> string list \<Rightarrow> string list \<Rightarrow> tag list \<Rightarrow> string list \<Rightarrow> int option" where
  "added am p ks ts q =
     (case map_of (amounts p ts) q of
        Some a \<Rightarrow> Some a
      | None \<Rightarrow> if \<exists>r. r \<noteq> [] \<and> prefix r ks \<and> q = p @ r then Some (am (path_text q)) else None)"

lemma add_path_spec:
  assumes "well_named p ts"
  shows "well_named p (add_path am (if p = [] then None else Some (path_text p)) ks ts)
    \<and> tag_key ` set (add_path am (if p = [] then None else Some (path_text p)) ks ts) = tag_key ` set ts \<union> set (take 1 ks)
    \<and> map_of (amounts p (add_path am (if p = [] then None else Some (path_text p)) ks ts)) = added am p ks ts"
  using assms
proof (induction ks arbitrary: p ts)
  case Nil
  then show ?case by (auto simp: added_def fun_eq_iff split: option.split)
next
  case (Cons k ks)
  let ?pre = "if p = [] then None else Some (path_text p)" and ?p = "p @ [k]"
  have lbl: "tag_text_below ?pre k = path_text ?p" by (rule path_text_below)
  show ?case
  proof (cases "find_index (\<lambda>t. tag_text t = path_text ?p) ts")
    case None
    then have k: "k \<notin> tag_key ` set ts" using find_child(1) [OF Cons.prems] by blast
    define sub where "sub = add_path am (Some (path_text ?p)) ks []"
    have IH: "well_named ?p sub" "map_of (amounts ?p sub) = added am ?p ks []"
      using Cons.IH [of ?p "[]"] by (simp_all add: sub_def)
    have eq: "add_path am ?pre (k # ks) ts = ts @ [Tag k (path_text ?p) (am (path_text ?p)) sub]"
      using None by (simp add: lbl sub_def Let_def)
    have out: "map_of (amounts p ts) (p @ k # r) = None" for r by (rule amounts_outside) (use k in auto)
    have "map_of (amounts p (add_path am ?pre (k # ks) ts)) q = added am p (k # ks) ts q" for q
      unfolding eq amounts_append amounts_one map_of_append added_def prefix_below
      using out [of "[]"] by (auto simp: map_add_def IH(2) added_def split: option.split)
    then show ?thesis unfolding eq using Cons.prems IH(1) k by (auto simp: well_named_append)
  next
    case (Some i)
    then have i: "i < length ts" "tag_key (ts ! i) = k" using find_child(2) [OF Cons.prems] by auto
    define xs ys where "xs = take i ts" and "ys = drop (Suc i) ts"
    obtain u a sub where t: "ts ! i = Tag k u a sub" using i(2) by (cases "ts ! i") auto
    have ts: "ts = xs @ [Tag k u a sub] @ ys" using id_take_nth_drop [OF i(1)] t by (simp add: xs_def ys_def)
    then have wn: "well_named p xs" "well_named ?p sub" "well_named p ys" "u = path_text ?p" "k \<notin> tag_key ` set xs"
        "k \<notin> tag_key ` set ys" "tag_key ` set xs \<inter> tag_key ` set ys = {}"
      using Cons.prems by (auto simp: well_named_append)
    define sub' where "sub' = add_path am (Some (path_text ?p)) ks sub"
    have IH: "well_named ?p sub'" "map_of (amounts ?p sub') = added am ?p ks sub"
      using Cons.IH [OF wn(2)] by (simp_all add: sub'_def)
    have eq: "add_path am ?pre (k # ks) ts = xs @ [Tag k u a sub'] @ ys"
      using Some i t by (simp add: lbl sub'_def Let_def upd_conv_take_nth_drop xs_def ys_def)
    have out: "map_of (amounts p xs) (p @ k # r) = None" "map_of (amounts p ys) (p @ k # r) = None" for r
      by (rule amounts_outside; use wn in auto)+
    have below: "map_of (amounts ?p sub) q = None" "map_of (amounts ?p sub') q = None" if "\<not> (\<exists>r. q = p @ k # r)" for q
      by (rule amounts_outside; use that in auto)+
    have "map_of (amounts p (add_path am ?pre (k # ks) ts)) q = added am p (k # ks) ts q" for q
    proof (cases "\<exists>r. q = p @ k # r")
      case True
      then obtain r where q: "q = p @ k # r" by blast
      show ?thesis unfolding eq unfolding ts amounts_append amounts_one map_of_append added_def prefix_below
        using out [of r] by (auto simp: q map_add_def IH(2) added_def split: option.split)
    next
      case False
      then show ?thesis unfolding eq unfolding ts amounts_append amounts_one map_of_append added_def prefix_below
        using below [OF False] by (auto simp: map_add_def split: option.split)
    qed
    then show ?thesis unfolding eq using wn IH(1) unfolding ts by (auto simp: well_named_append)
  qed
qed

section \<open>The tree of a list of amounts\<close>

text \<open>The amount a node should show: that of its tag when it is more than one, and none (zero) otherwise.\<close>

definition shown_amount :: "(string \<times> int) list \<Rightarrow> string \<Rightarrow> int" where
  "shown_amount raw t = (case map_of raw t of None \<Rightarrow> 0 | Some n \<Rightarrow> if n > 1 then n else 0)"

lemma sort_amounts_set [simp]: "set (sort_amounts raw) = set raw"
  by (simp add: sort_amounts_def)

lemma sort_amounts_distinct: "distinct (map fst raw) \<Longrightarrow> distinct (map fst (sort_amounts raw))"
  by (simp add: sort_amounts_def distinct_map)

lemma less_at: "c < d \<Longrightarrow> w @ c # x < w @ d # (y :: string)"
  by (induction w) (auto simp: Cons_less_Cons)

text \<open>A tag comes before the tags below it, since the comma is before the slash.\<close>

lemma ancestor_first: "pair_text (w, m) < pair_text (w @ ''/'' @ r, n)"
proof -
  have "CHR '','' < CHR ''/''" by code_simp
  from less_at [OF this] show ?thesis by (simp add: pair_text_def)
qed

definition path_of :: "string \<Rightarrow> string list" where
  "path_of t = split_char CHR ''/'' t"

lemma path_of_text: "r \<noteq> [] \<Longrightarrow> prefix r (path_of t) \<Longrightarrow> path_of (path_text r) = r"
  unfolding path_of_def path_text_def
  by (rule split_join_char) (auto dest: split_char_no_sep set_mono_prefix)

lemma path_text_of [simp]: "path_text (path_of t) = t"
  by (simp add: path_of_def path_text_def)

lemma proper_prefix_text:
  assumes "r \<noteq> []" and "strict_prefix r (path_of t)"
  shows "\<exists>s. t = path_text r @ ''/'' @ s"
proof -
  obtain z zs where "path_of t = r @ z # zs" using assms(2) by (auto elim: strict_prefixE')
  moreover have "join ''/'' (xs @ ys) = join ''/'' xs @ ''/'' @ join ''/'' ys" if "xs \<noteq> []" "ys \<noteq> []" for xs ys
    using that by (induction "''/''" xs rule: join.induct) (auto simp: join_Cons)
  ultimately have "t = path_text r @ ''/'' @ path_text (z # zs)"
    using assms(1) path_text_of [of t] by (simp add: path_text_def)
  then show ?thesis by blast
qed

definition add_amount :: "(string \<times> int) list \<Rightarrow> tag list \<Rightarrow> string \<times> int \<Rightarrow> tag list" where
  "add_amount pairs root p = add_path (new_amount pairs p) None (path_of (fst p)) root"

lemma tag_tree_fold: "tag_tree raw = foldl (add_amount (sort_amounts raw)) [] (sort_amounts raw)"
  unfolding tag_tree_def add_amount_def [abs_def] path_of_def Let_def by (rule refl)

text \<open>The paths of the tags seen so far, with the amounts to show.\<close>

definition wanted :: "(string \<times> int) list \<Rightarrow> string set \<Rightarrow> string list \<Rightarrow> int option" where
  "wanted raw seen q =
     (if q \<noteq> [] \<and> (\<exists>t \<in> seen. prefix q (path_of t)) then Some (shown_amount raw (path_text q)) else None)"

lemma build_prefix:
  assumes "distinct (map fst raw)" and "sort_amounts raw = L @ R"
  shows "well_named [] (foldl (add_amount (sort_amounts raw)) [] L)
    \<and> map_of (amounts [] (foldl (add_amount (sort_amounts raw)) [] L)) = wanted raw (fst ` set L)"
  using assms(2)
proof (induction L arbitrary: R rule: rev_induct)
  case Nil
  then show ?case by (simp add: wanted_def fun_eq_iff)
next
  case (snoc p L)
  obtain t n where p: "p = (t, n)" by (cases p)
  let ?S = "sort_amounts raw" and ?ts = "foldl (add_amount (sort_amounts raw)) [] L"
  have IH: "well_named [] ?ts" "map_of (amounts [] ?ts) = wanted raw (fst ` set L)"
    using snoc.IH [of "p # R"] snoc.prems by simp_all
  have S: "?S = L @ p # R" using snoc.prems by simp
  have new: "new_amount ?S p (path_text r) = shown_amount raw (path_text r)"
    if r: "r \<noteq> []" "prefix r (path_of t)" and unseen: "\<not> (\<exists>t \<in> fst ` set L. prefix r (path_of t))" for r
  proof (cases "map_of raw (path_text r)")
    case None
    then have "\<not> (\<exists>x \<in> set raw. fst x = path_text r)" by (auto simp: map_of_eq_None_iff rev_image_eqI)
    then have "\<not> list_ex (\<lambda>(tag, amount). tag = path_text r \<and> amount > 1) ?S" by (auto simp: list_ex_iff)
    then show ?thesis using None by (simp add: new_amount_def shown_amount_def)
  next
    case (Some m)
    have in_S: "(path_text r, m) \<in> set (L @ p # R)" 
      using map_of_SomeD [OF Some] S by (metis sort_amounts_set)
    have only: "(path_text r, a) \<in> set raw \<longleftrightarrow> a = m" for a
      
      using Some by (auto simp: map_of_eq_Some_iff [OF assms(1), symmetric])
    have "(path_text r, m) \<notin> set L" using unseen path_of_text [OF r] by force
    moreover have "(path_text r, m) \<notin> set R"
    proof
      assume R: "(path_text r, m) \<in> set R"
      have "sorted (map pair_text (L @ p # R))"  using sorted_sort_key [of pair_text raw] S by (simp only: sort_amounts_def)
      then have le: "pair_text p \<le> pair_text (path_text r, m)" using R by (auto simp: sorted_append)
      have "distinct (map fst (L @ p # R))" using sort_amounts_distinct [OF assms(1)] S by (simp only:)
      then have "t \<notin> fst ` set R" using p by simp
      then have "t \<noteq> path_text r" using R by (metis fst_conv image_eqI)
      then have "r \<noteq> path_of t" by auto
      then obtain s where "t = path_text r @ ''/'' @ s" using proper_prefix_text [OF r(1)] r(2) by (auto simp: strict_prefix_def)
      then have "pair_text (path_text r, m) < pair_text p" using ancestor_first p by simp
      then show False using le by simp
    qed
    ultimately have "(path_text r, m) = p" using in_S by auto
    then have "new_amount ?S p (path_text r) = (if m > 1 then m else 0)"
      using p only by (auto simp: new_amount_def list_ex_iff)
    then show ?thesis using Some by (simp add: shown_amount_def)
  qed
  have fold: "foldl (add_amount ?S) [] (L @ [p]) = add_path (new_amount ?S p) None (path_of t) ?ts"
    by (simp add: add_amount_def p)
  have spec: "well_named [] (add_path (new_amount ?S p) None (path_of t) ?ts)"
      "map_of (amounts [] (add_path (new_amount ?S p) None (path_of t) ?ts)) = added (new_amount ?S p) [] (path_of t) ?ts"
    using add_path_spec [OF IH(1), of "new_amount ?S p" "path_of t"] by simp_all
  have "added (new_amount ?S p) [] (path_of t) ?ts q = wanted raw (fst ` set (L @ [p])) q" for q
    using new [of q] by (auto simp: added_def IH(2) wanted_def p)
  then show ?case unfolding fold using spec by (simp add: fun_eq_iff)
qed

text \<open>C13: For amounts of distinct tags the tree has exactly one node for each tag and each of its ancestors, with the text
  made of the keys on its path; and it shows the amount of its own tag when that is more than one, and none
  otherwise, although a node is made while a tag below it is added.\<close>

theorem tag_tree_correct:
  assumes "distinct (map fst raw)"
  shows "well_named [] (tag_tree raw)
    \<and> map_of (amounts [] (tag_tree raw)) =
        (\<lambda>q. if q \<noteq> [] \<and> (\<exists>t \<in> fst ` set raw. prefix q (path_of t)) then Some (shown_amount raw (path_text q)) else None)"
  using build_prefix [OF assms, of "sort_amounts raw" "[]"]
  by (simp add: tag_tree_fold wanted_def fun_eq_iff)

theorem tag_tree_correct_witness:
  "map_of (amounts [] (tag_tree [(''work/a'', 3), (''home'', 5)])) [''work''] = Some 0"
proof -
  have "path_of ''work/a'' = [''work'', ''a'']" by code_simp
  then show ?thesis using tag_tree_correct [of "[(''work/a'', 3), (''home'', 5)]"]
    by (simp add: shown_amount_def path_text_def)
qed

section \<open>Tag patterns\<close>

text \<open>
  \<open>new RegExp\<close> is an argument: the test of a pattern, or \<open>None\<close> for a pattern that is no expression. The
  cache of compiled patterns is the list of its entries.
\<close>

type_synonym regexp = "string \<Rightarrow> bool"

definition anchored :: "string \<Rightarrow> string" where
  "anchored pattern = ''^(?:'' @ pattern @ '')$''"

definition getCompiledPattern ::
  "(string \<Rightarrow> regexp option) \<Rightarrow> string \<Rightarrow> (string \<times> regexp option) list \<Rightarrow> regexp option \<times> (string \<times> regexp option) list" where
  "getCompiledPattern compile pattern cache =
     (case map_of cache pattern of
        Some re \<Rightarrow> (re, cache)
      | None \<Rightarrow> (compile (anchored pattern), (pattern, compile (anchored pattern)) # cache))"

fun match_patterns ::
  "(string \<Rightarrow> regexp option) \<Rightarrow> string \<Rightarrow> (string \<times> 'm) list \<Rightarrow> (string \<times> regexp option) list
     \<Rightarrow> 'm option \<times> (string \<times> regexp option) list" where
  "match_patterns compile tag [] cache = (None, cache)"
| "match_patterns compile tag ((pattern, metadata) # r) cache =
     (let (re, cache') = getCompiledPattern compile pattern cache in
      case re of
        None \<Rightarrow> match_patterns compile tag r cache'
      | Some test \<Rightarrow> if test tag then (Some metadata, cache') else match_patterns compile tag r cache')"

definition findTagMetadata ::
  "(string \<Rightarrow> regexp option) \<Rightarrow> string \<Rightarrow> (string \<times> 'm) list \<Rightarrow> (string \<times> regexp option) list
     \<Rightarrow> 'm option \<times> (string \<times> regexp option) list" where
  "findTagMetadata compile tag tags cache =
     (case map_of tags tag of Some metadata \<Rightarrow> (Some metadata, cache) | None \<Rightarrow> match_patterns compile tag tags cache)"

text \<open>\<open>/\((?:[^()]*[*+?{][^()]*)\)[*+?{]/\<close>: a group without inner groups that holds a quantifier and has one.\<close>

definition is_quantifier :: "char \<Rightarrow> bool" where
  "is_quantifier c = (c \<in> {CHR ''*'', CHR ''+'', CHR ''?'', CHR 0x7B})"

definition no_paren :: "char \<Rightarrow> bool" where
  "no_paren c = (c \<noteq> CHR ''('' \<and> c \<noteq> CHR '')'')"

fun nested_quantifier :: "string \<Rightarrow> bool" where
  "nested_quantifier [] = False"
| "nested_quantifier (c # s) =
     ((c = CHR ''('' \<and> list_ex is_quantifier (takeWhile no_paren s)
       \<and> (case dropWhile no_paren s of p # q # _ \<Rightarrow> p = CHR '')'' \<and> is_quantifier q | _ \<Rightarrow> False))
      \<or> nested_quantifier s)"

definition isValidTagPattern :: "(string \<Rightarrow> regexp option) \<Rightarrow> string \<Rightarrow> bool" where
  "isValidTagPattern compile pattern =
     (pattern \<noteq> [] \<and> compile pattern \<noteq> None \<and> \<not> nested_quantifier pattern)"

text \<open>A cache that holds what compiling gives.\<close>

definition cache_sound :: "(string \<Rightarrow> regexp option) \<Rightarrow> (string \<times> regexp option) list \<Rightarrow> bool" where
  "cache_sound compile cache \<longleftrightarrow> (\<forall>p re. map_of cache p = Some re \<longrightarrow> re = compile (anchored p))"

lemma compiled_sound:
  assumes "cache_sound compile cache"
  shows "fst (getCompiledPattern compile p cache) = compile (anchored p)"
    and "cache_sound compile (snd (getCompiledPattern compile p cache))"
  using assms by (auto simp: getCompiledPattern_def cache_sound_def split: option.split)

lemma match_sound:
  assumes "cache_sound compile cache"
  shows "fst (match_patterns compile tag tags cache) =
      map_option snd (List.find (\<lambda>(p, _). case compile (anchored p) of None \<Rightarrow> False | Some test \<Rightarrow> test tag) tags)
    \<and> cache_sound compile (snd (match_patterns compile tag tags cache))"
  using assms
proof (induction tags arbitrary: cache)
  case (Cons t tags)
  obtain p m where t: "t = (p, m)" by (cases t)
  obtain re cache' where g: "getCompiledPattern compile p cache = (re, cache')" by (cases "getCompiledPattern compile p cache")
  then have "re = compile (anchored p)" "cache_sound compile cache'"
    using compiled_sound [OF Cons.prems, of p] by simp_all
  then show ?case using Cons.IH [of cache'] g by (simp add: t split: option.split)
qed simp

text \<open>The cache of compiled patterns cannot be observed: however many tags were looked up before, the metadata found
  for a tag is that of the tag itself, or else of the first pattern, in their order, that compiles and matches it.\<close>

theorem pattern_cache_transparent:
  "fst (findTagMetadata compile tag tags (foldl (\<lambda>cache t. snd (findTagMetadata compile t tags' cache)) [] earlier)) =
     (case map_of tags tag of
        Some m \<Rightarrow> Some m
      | None \<Rightarrow> map_option snd
          (List.find (\<lambda>(p, _). case compile (anchored p) of None \<Rightarrow> False | Some test \<Rightarrow> test tag) tags))"
proof -
  have step: "cache_sound compile (snd (findTagMetadata compile t tags' cache))" if "cache_sound compile cache" for t cache
    using that by (simp add: findTagMetadata_def match_sound split: option.split)
  have "cache_sound compile (foldl (\<lambda>cache t. snd (findTagMetadata compile t tags' cache)) cache earlier)"
    if "cache_sound compile cache" for cache
    using that by (induction earlier arbitrary: cache) (auto intro: step)
  moreover have "cache_sound compile []" by (simp add: cache_sound_def)
  ultimately show ?thesis by (simp add: findTagMetadata_def match_sound split: option.split)
qed

text \<open>The check of a pattern does not keep its promise: a quantifier nested one group deeper passes.\<close>

lemma nested_groups_accepted:
  "compile ''((a+))+'' \<noteq> None \<Longrightarrow> isValidTagPattern compile ''((a+))+''"
  "nested_quantifier ''(a+)+''"
  by (simp_all add: isValidTagPattern_def is_quantifier_def no_paren_def)

end
