(* ===== verification/TagSettings.thy ===== *)
theory TagSettings
  imports ContentSafety TagTree MemoActions
begin

text \<open>
  The settings of tags (\<^verbatim>\<open>components/Settings/TagsSection.tsx\<close>): colours and blurring by tag pattern, as
  they are edited, saved and read back. A colour is a text for the browser and three numbers for the server.
\<close>

section \<open>Colours\<close>

definition hex_digit :: "char \<Rightarrow> nat option" where
  "hex_digit c =
     (let n = code_unit c in
      if 48 \<le> n \<and> n \<le> 57 then Some (n - 48) else if 97 \<le> n \<and> n \<le> 102 then Some (n - 87)
      else if 65 \<le> n \<and> n \<le> 70 then Some (n - 55) else None)"

text \<open>\<open>parseInt(s, 16)\<close> of a text of hexadecimal digits: the longest beginning of digits, \<open>None\<close> (NaN) without one.\<close>

definition parse_hex :: "string \<Rightarrow> nat option" where
  "parse_hex s =
     (let ds = takeWhile (\<lambda>c. hex_digit c \<noteq> None) s in
      if ds = [] then None else Some (foldl (\<lambda>n c. n * 16 + the (hex_digit c)) 0 ds))"

definition hex_channel :: "string \<Rightarrow> channel" where
  "hex_channel s = (case parse_hex s of None \<Rightarrow> NotFinite | Some n \<Rightarrow> Finite (of_nat n / 255))"

definition hexToColor :: "string \<Rightarrow> channel \<times> channel \<times> channel" where
  "hexToColor hex = (hex_channel (take 2 (drop 1 hex)), hex_channel (take 2 (drop 3 hex)), hex_channel (take 2 (drop 5 hex)))"

section \<open>The state\<close>

record saved_tag =
  sv_color :: "(channel \<times> channel \<times> channel) option"
  sv_blur :: bool

record local_tag_meta =
  lm_color :: "string option"
  lm_blur :: bool

definition toLocalTagMeta :: "saved_tag \<Rightarrow> local_tag_meta" where
  "toLocalTagMeta m = \<lparr>lm_color = colorToHex (sv_color m), lm_blur = sv_blur m\<rparr>"

text \<open>Objects with the tags as keys, as lists of entries.\<close>

record tag_section =
  tn_original :: "(string \<times> saved_tag) list"
  tn_local :: "(string \<times> local_tag_meta) list"
  tn_newName :: string
  tn_newColor :: "string option"
  tn_newBlur :: bool
  tn_requests :: "(string \<times> saved_tag) list list"
  tn_toasts :: "toast list"

definition local_tags :: "(string \<times> saved_tag) list \<Rightarrow> (string \<times> local_tag_meta) list" where
  "local_tags tags = map (\<lambda>(name, m). (name, toLocalTagMeta m)) tags"

definition hasChanges :: "tag_section \<Rightarrow> bool" where
  "hasChanges s \<longleftrightarrow> set (tn_local s) \<noteq> set (local_tags (tn_original s))"

text \<open>Reading a key of an object also finds what every object inherits.\<close>

definition object_prototype :: "string list" where
  "object_prototype =
     [''constructor'', ''hasOwnProperty'', ''isPrototypeOf'', ''propertyIsEnumerable'', ''toLocaleString'', ''toString'', ''valueOf'',
      ''__proto__'', ''__defineGetter__'', ''__defineSetter__'', ''__lookupGetter__'', ''__lookupSetter__'']"

definition object_has :: "(string \<times> 'a) list \<Rightarrow> string \<Rightarrow> bool" where
  "object_has ob k \<longleftrightarrow> map_of ob k \<noteq> None \<or> k \<in> set object_prototype"

section \<open>The handlers\<close>

definition meta_of :: "string \<Rightarrow> tag_section \<Rightarrow> local_tag_meta" where
  "meta_of name s = (case map_of (tn_local s) name of None \<Rightarrow> \<lparr>lm_color = None, lm_blur = False\<rparr> | Some m \<Rightarrow> m)"

definition set_meta :: "string \<Rightarrow> (local_tag_meta \<Rightarrow> local_tag_meta) \<Rightarrow> tag_section \<Rightarrow> tag_section" where
  "set_meta name f s = s\<lparr>tn_local := AList.update name (f (meta_of name s)) (tn_local s)\<rparr>"

definition handleColorChange :: "string \<Rightarrow> string \<Rightarrow> tag_section \<Rightarrow> tag_section" where
  "handleColorChange name hex = set_meta name (\<lambda>m. m\<lparr>lm_color := Some hex\<rparr>)"

definition handleBlurChange :: "string \<Rightarrow> bool \<Rightarrow> tag_section \<Rightarrow> tag_section" where
  "handleBlurChange name blur = set_meta name (\<lambda>m. m\<lparr>lm_blur := blur\<rparr>)"

definition handleClearColor :: "string \<Rightarrow> tag_section \<Rightarrow> tag_section" where
  "handleClearColor name = set_meta name (\<lambda>m. m\<lparr>lm_color := None\<rparr>)"

definition handleRemoveTag :: "string \<Rightarrow> tag_section \<Rightarrow> tag_section" where
  "handleRemoveTag name s = s\<lparr>tn_local := AList.delete name (tn_local s)\<rparr>"

definition toast_tag :: "string \<Rightarrow> tag_section \<Rightarrow> tag_section" where
  "toast_tag key s = s\<lparr>tn_toasts := tn_toasts s @ [Toast_Error key]\<rparr>"

definition handleAddTag :: "(string \<Rightarrow> regexp option) \<Rightarrow> tag_section \<Rightarrow> tag_section" where
  "handleAddTag compile s =
     (let name = trim (tn_newName s) in
      if name = [] then s
      else if object_has (tn_local s) name then toast_tag ''setting.tags.tag-already-exists'' s
      else if \<not> isValidTagPattern compile name then toast_tag ''setting.tags.invalid-regex'' s
      else s\<lparr>tn_local := AList.update name \<lparr>lm_color = tn_newColor s, lm_blur = tn_newBlur s\<rparr> (tn_local s),
             tn_newName := [], tn_newColor := None, tn_newBlur := False\<rparr>)"

definition to_saved :: "local_tag_meta \<Rightarrow> saved_tag" where
  "to_saved m =
     \<lparr>sv_color = (case lm_color m of None \<Rightarrow> None | Some c \<Rightarrow> if c = [] then None else Some (hexToColor c)), sv_blur = lm_blur m\<rparr>"

text \<open>\<open>currentUser\<close>: whether a user is signed in. The settings are fetched again after the answer.\<close>

definition handleSave :: "bool \<Rightarrow> tag_section \<Rightarrow> tag_section" where
  "handleSave currentUser s =
     (let tags = map (\<lambda>(name, m). (name, to_saved m)) (tn_local s) in
      if \<not> currentUser then s else s\<lparr>tn_requests := tn_requests s @ [tags]\<rparr>)"

datatype tag_event =
    Tags_Arrive "(string \<times> saved_tag) list" | Pick_Color string string | Toggle_Blur string bool | Clear_Color string
  | Remove_Tag string | New_Name string | New_Color "string option" | New_Blur bool | Add_Tag | Save_Tags

text \<open>What an input of the type color can hold: a hash and six hexadecimal digits in lower case.\<close>

definition color_text :: "string \<Rightarrow> bool" where
  "color_text h \<longleftrightarrow>
     (let byte = (\<lambda>i. case parse_hex (take 2 (drop i h)) of None \<Rightarrow> 0 | Some n \<Rightarrow> n) in
      byte 1 < 256 \<and> byte 3 < 256 \<and> byte 5 < 256 \<and> h = ''#'' @ hex_byte (byte 1) @ hex_byte (byte 3) @ hex_byte (byte 5))"

definition tag_step :: "(string \<Rightarrow> regexp option) \<Rightarrow> bool \<Rightarrow> tag_section \<Rightarrow> tag_event \<Rightarrow> tag_section" where
  "tag_step compile currentUser s e =
     (case e of
        Tags_Arrive tags \<Rightarrow> s\<lparr>tn_original := tags, tn_local := local_tags tags\<rparr>
      | Pick_Color name hex \<Rightarrow> if color_text hex \<and> name \<in> fst ` set (tn_local s) then handleColorChange name hex s else s
      | Toggle_Blur name b \<Rightarrow> if name \<in> fst ` set (tn_local s) then handleBlurChange name b s else s
      | Clear_Color name \<Rightarrow> if name \<in> fst ` set (tn_local s) then handleClearColor name s else s
      | Remove_Tag name \<Rightarrow> if name \<in> fst ` set (tn_local s) then handleRemoveTag name s else s
      | New_Name v \<Rightarrow> s\<lparr>tn_newName := v\<rparr>
      | New_Color c \<Rightarrow> (case c of
            None \<Rightarrow> s\<lparr>tn_newColor := None\<rparr>
          | Some h \<Rightarrow> if color_text h then s\<lparr>tn_newColor := Some h\<rparr> else s)
      | New_Blur b \<Rightarrow> s\<lparr>tn_newBlur := b\<rparr>
      | Add_Tag \<Rightarrow> handleAddTag compile s
      | Save_Tags \<Rightarrow> if hasChanges s \<and> currentUser then handleSave currentUser s else s)"

definition tag_mount :: "(string \<times> saved_tag) list \<Rightarrow> tag_section" where
  "tag_mount tags =
     \<lparr>tn_original = tags, tn_local = local_tags tags, tn_newName = [], tn_newColor = None, tn_newBlur = False, tn_requests = [], tn_toasts = []\<rparr>"

section \<open>Lemmas on colours\<close>

lemma hex_digit_lower: "k < 16 \<Longrightarrow> hex_digit (lower_hex k) = Some k"
  by (auto simp: hex_digit_def lower_hex_def Let_def)

lemma hex_byte_digits: "n < 256 \<Longrightarrow> hex_byte n = [lower_hex (n div 16), lower_hex (n mod 16)]"
proof -
  have "code_unit CHR ''0'' = 48" by (simp add: code_unit_def)
  then have "code_unit (lower_hex 0) = code_unit CHR ''0''" by (simp add: lower_hex_def)
  then have "lower_hex 0 = CHR ''0''" by (rule code_unit_inj)
  then show "n < 256 \<Longrightarrow> hex_byte n = [lower_hex (n div 16), lower_hex (n mod 16)]" by (simp add: hex_byte_def pad_start_def)
qed

lemma parse_hex_byte: "n < 256 \<Longrightarrow> parse_hex (hex_byte n) = Some n"
  using hex_digit_lower [of "n div 16"] hex_digit_lower [of "n mod 16"]
  by (simp add: hex_byte_digits parse_hex_def less_mult_imp_div_less)

lemma length_hex_byte: "n < 256 \<Longrightarrow> length (hex_byte n) = 2"
  using hex_byte_shape by blast

lemma color_text_bytes:
  assumes "r < 256" and "g < 256" and "b < 256"
  shows "color_text (''#'' @ hex_byte r @ hex_byte g @ hex_byte b)"
    and "hexToColor (''#'' @ hex_byte r @ hex_byte g @ hex_byte b) = (Finite (of_nat r / 255), Finite (of_nat g / 255), Finite (of_nat b / 255))"
proof -
  let ?h = "''#'' @ hex_byte r @ hex_byte g @ hex_byte b"
  have s: "take 2 (drop 1 ?h) = hex_byte r" "take 2 (drop 3 ?h) = hex_byte g" "take 2 (drop 5 ?h) = hex_byte b"
    using assms length_hex_byte by (simp_all add: eval_nat_numeral)
  show "color_text ?h" unfolding color_text_def Let_def s using assms parse_hex_byte by simp
  show "hexToColor ?h = (Finite (of_nat r / 255), Finite (of_nat g / 255), Finite (of_nat b / 255))"
    unfolding hexToColor_def s hex_channel_def using assms parse_hex_byte by simp
qed

lemma color_text_cases:
  assumes "color_text h"
  obtains r g b where "r < 256" "g < 256" "b < 256" "h = ''#'' @ hex_byte r @ hex_byte g @ hex_byte b"
  using assms that unfolding color_text_def Let_def by blast

lemma colorToHex_text: "colorToHex (Some c) = Some h \<Longrightarrow> color_text h"
  using channel_byte by (cases c) (auto simp: colorToHex_def channel_text_def simp del: append.simps intro: color_text_bytes(1) [simplified])

text \<open>A number near \<open>n / 255\<close> is written as \<open>n\<close>.\<close>

lemma channel_near:
  assumes "n < 256" and "\<bar>q - of_nat n / 255\<bar> < 1 / 510"
  shows "channel_text (Finite q) = hex_byte n"
proof -
  have "of_nat n / 255 \<le> (1 :: rat)" using assms(1) by simp
  moreover have "(0 :: rat) \<le> of_nat n / 255" by simp
  ultimately have "\<bar>clamp_channel (Finite q) - of_nat n / 255\<bar> < 1 / 510" using assms(2)
    by (auto simp: clamp_channel_def max_def min_def abs_if split: if_splits)
  then have "\<bar>clamp_channel (Finite q) * 255 - of_nat n\<bar> < 1 / 2" by (simp add: abs_if field_simps split: if_splits)
  then have "\<lfloor>clamp_channel (Finite q) * 255 + 1 / 2\<rfloor> = int n"
    by (intro floor_unique) (auto simp: abs_if split: if_splits)
  then show ?thesis by (simp add: channel_text_def)
qed

section \<open>Properties\<close>

text \<open>A setting as the server stores it: the same names, blurring and colours, each number rounded.\<close>

definition channel_stored :: "channel \<Rightarrow> channel \<Rightarrow> bool" where
  "channel_stored v w =
     (case (v, w) of
        (Finite p, Finite q) \<Rightarrow> \<bar>q - p\<bar> < 1 / 510
      | _ \<Rightarrow> False)"

definition color_stored :: "(channel \<times> channel \<times> channel) option \<Rightarrow> (channel \<times> channel \<times> channel) option \<Rightarrow> bool" where
  "color_stored c d =
     (case (c, d) of
        (None, None) \<Rightarrow> True
      | (Some (r, g, b), Some (r', g', b')) \<Rightarrow> channel_stored r r' \<and> channel_stored g g' \<and> channel_stored b b'
      | _ \<Rightarrow> False)"

definition stored_as :: "(string \<times> saved_tag) list \<Rightarrow> (string \<times> saved_tag) list \<Rightarrow> bool" where
  "stored_as sent stored \<longleftrightarrow>
     list_all2 (\<lambda>(n, m) (n', m'). n' = n \<and> sv_blur m' = sv_blur m \<and> color_stored (sv_color m) (sv_color m')) sent stored"

definition colors_ok :: "tag_section \<Rightarrow> bool" where
  "colors_ok s \<longleftrightarrow>
     list_all (\<lambda>(n, m). case lm_color m of None \<Rightarrow> True | Some h \<Rightarrow> color_text h) (tn_local s)
     \<and> (case tn_newColor s of None \<Rightarrow> True | Some h \<Rightarrow> color_text h)"

lemma set_update: "set (AList.update k v xs) \<subseteq> insert (k, v) (set xs)"
  by (induction xs) auto

lemma local_colors: "list_all (\<lambda>(n, m). case lm_color m of None \<Rightarrow> True | Some h \<Rightarrow> color_text h) (local_tags tags)"
  using colorToHex_text by (auto simp: local_tags_def list_all_iff toLocalTagMeta_def colorToHex_def split: option.splits)

lemma meta_color: "colors_ok s \<Longrightarrow> case lm_color (meta_of name s) of None \<Rightarrow> True | Some h \<Rightarrow> color_text h"
  by (auto simp: meta_of_def colors_ok_def list_all_iff dest!: map_of_SomeD split: option.splits)

lemma set_meta_ok:
  assumes "colors_ok s" and "case lm_color (f (meta_of name s)) of None \<Rightarrow> True | Some h \<Rightarrow> color_text h"
  shows "colors_ok (set_meta name f s)"
  using assms set_update [of name "f (meta_of name s)" "tn_local s"]
  by (auto simp: colors_ok_def set_meta_def list_all_iff)

lemma toast_tag_ok [simp]: "colors_ok (toast_tag k s) = colors_ok s"
  by (simp add: colors_ok_def toast_tag_def)

lemma add_tag_ok:
  assumes "colors_ok s"
  shows "colors_ok (handleAddTag compile s)"
proof -
  have "colors_ok (s\<lparr>tn_local := AList.update n \<lparr>lm_color = tn_newColor s, lm_blur = b\<rparr> (tn_local s),
      tn_newName := [], tn_newColor := None, tn_newBlur := False\<rparr>)" for n b
    using assms set_update [of n "\<lparr>lm_color = tn_newColor s, lm_blur = b\<rparr>" "tn_local s"] by (auto simp: colors_ok_def list_all_iff)
  then show ?thesis using assms by (simp add: handleAddTag_def Let_def)
qed

lemma tag_step_ok:
  assumes "colors_ok s"
  shows "colors_ok (tag_step compile u s e)"
proof (cases e)
  case (Tags_Arrive tags)
  then show ?thesis using assms local_colors by (simp add: tag_step_def colors_ok_def)
next
  case (Pick_Color n h)
  then show ?thesis using assms by (simp add: tag_step_def handleColorChange_def set_meta_ok)
next
  case (Toggle_Blur n b)
  then show ?thesis using assms meta_color [OF assms] by (simp add: tag_step_def handleBlurChange_def set_meta_ok)
next
  case (Clear_Color n)
  then show ?thesis using assms by (simp add: tag_step_def handleClearColor_def set_meta_ok)
next
  case (Remove_Tag n)
  have del: "set (AList.delete n xs) \<subseteq> set xs" for xs :: "(string \<times> local_tag_meta) list" by (induction xs) auto
  then show ?thesis using assms Remove_Tag by (auto simp: tag_step_def handleRemoveTag_def colors_ok_def list_all_iff dest!: subsetD [OF del])
next
  case Add_Tag
  then show ?thesis using assms add_tag_ok by (simp add: tag_step_def)
qed (use assms in \<open>auto simp: tag_step_def colors_ok_def handleSave_def Let_def split: option.splits\<close>)

interpretation tag_colors: machine "tag_step compile u" colors_ok for compile u
  by unfold_locales (rule tag_step_ok)

lemma channel_stored_Finite: "channel_stored (Finite p) w \<longleftrightarrow> (\<exists>q. w = Finite q \<and> \<bar>q - p\<bar> < 1 / 510)"
  by (cases w) (simp_all add: channel_stored_def)

lemma stored_color:
  assumes "case c of None \<Rightarrow> True | Some h \<Rightarrow> color_text h"
    and "color_stored (case c of None \<Rightarrow> None | Some h \<Rightarrow> if h = [] then None else Some (hexToColor h)) d"
  shows "colorToHex d = c"
proof (cases c)
  case None
  then show ?thesis using assms(2) by (auto simp: color_stored_def colorToHex_def split: option.splits)
next
  case (Some h)
  then obtain r g b where h: "r < 256" "g < 256" "b < 256" "h = ''#'' @ hex_byte r @ hex_byte g @ hex_byte b"
    using assms(1) by (auto elim: color_text_cases)
  have "hexToColor h = (Finite (of_nat r / 255), Finite (of_nat g / 255), Finite (of_nat b / 255))" "h \<noteq> []"
    using color_text_bytes(2) [OF h(1,2,3)] by (simp_all add: h(4))
  then obtain p q t where d: "d = Some (Finite p, Finite q, Finite t)"
    "\<bar>p - of_nat r / 255\<bar> < 1 / 510" "\<bar>q - of_nat g / 255\<bar> < 1 / 510" "\<bar>t - of_nat b / 255\<bar> < 1 / 510"
    using assms(2) Some by (auto simp: color_stored_def channel_stored_Finite split: option.splits)
  show ?thesis unfolding d(1) Some h(4) colorToHex_def
    using channel_near [OF h(1) d(2)] channel_near [OF h(2) d(3)] channel_near [OF h(3) d(4)] by simp
qed

lemma saved_back:
  assumes "list_all (\<lambda>(n, m). case lm_color m of None \<Rightarrow> True | Some h \<Rightarrow> color_text h) ts"
    and "stored_as (map (\<lambda>(n, m). (n, to_saved m)) ts) stored"
  shows "local_tags stored = ts"
  using assms
proof (induction ts arbitrary: stored)
  case Nil
  then show ?case by (simp add: stored_as_def local_tags_def)
next
  case (Cons t ts)
  obtain n m where t: "t = (n, m)" by fastforce
  obtain m' rest where st: "stored = (n, m') # rest" "sv_blur m' = lm_blur m" "color_stored (sv_color (to_saved m)) (sv_color m')"
    "stored_as (map (\<lambda>(n, m). (n, to_saved m)) ts) rest"
    using Cons.prems(2) by (auto simp: t stored_as_def list_all2_Cons1 to_saved_def)
  have "colorToHex (sv_color m') = lm_color m"
    using stored_color [of "lm_color m" "sv_color m'"] Cons.prems(1) st(3) by (simp add: t to_saved_def)
  then have "toLocalTagMeta m' = m" using st(2) by (cases m) (simp add: toLocalTagMeta_def)
  then show ?case using Cons.IH [OF _ st(4)] Cons.prems(1) by (simp add: t st(1) local_tags_def)
qed

text \<open>C25: Whatever was edited before, a save sends every tag as it is shown, and when the server's copy comes back, with the
  numbers of the colours rounded as single precision does, the section shows the same tags with the same colours and
  has nothing left to save.\<close>

theorem tags_saved_back:
  assumes "s = foldl (tag_step compile True) (tag_mount tags) es" and "hasChanges s"
    and "stored_as (last (tn_requests (tag_step compile True s Save_Tags))) stored"
  shows "let s' = tag_step compile True (tag_step compile True s Save_Tags) (Tags_Arrive stored) in
    tn_local s' = tn_local s \<and> \<not> hasChanges s'"
proof -
  have "colors_ok (tag_mount tags)" using local_colors by (simp add: colors_ok_def tag_mount_def)
  then have "colors_ok s" unfolding assms(1) by (rule tag_colors.run_inv)
  moreover have "last (tn_requests (tag_step compile True s Save_Tags)) = map (\<lambda>(name, m). (name, to_saved m)) (tn_local s)"
    using assms(2) by (simp add: tag_step_def handleSave_def Let_def)
  ultimately have "local_tags stored = tn_local s" using saved_back assms(3) by (auto simp: colors_ok_def)
  then show ?thesis by (simp add: tag_step_def hasChanges_def)
qed

definition sample_tag_events :: "tag_event list" where
  "sample_tag_events = [New_Name ''work'', New_Color (Some ''#ff8000''), Add_Tag]"

theorem tags_saved_back_witness:
  "let s = foldl (tag_step (\<lambda>p. Some (\<lambda>t. True)) True) (tag_mount []) sample_tag_events;
       s' = tag_step (\<lambda>p. Some (\<lambda>t. True)) True (tag_step (\<lambda>p. Some (\<lambda>t. True)) True s Save_Tags)
         (Tags_Arrive [(''work'', \<lparr>sv_color = Some (Finite 1, Finite (251 / 500), Finite 0), sv_blur = False\<rparr>)]) in
    map (lm_color \<circ> snd) (tn_local s') = [Some ''#ff8000'']"
proof -
  let ?c = "\<lambda>p :: string. Some (\<lambda>t :: string. True)"
  let ?s = "foldl (tag_step ?c True) (tag_mount []) sample_tag_events"
  have l: "tn_local ?s = [(''work'', \<lparr>lm_color = Some ''#ff8000'', lm_blur = False\<rparr>)]" by code_simp
  moreover have o: "tn_original ?s = []" by code_simp
  ultimately have c: "hasChanges ?s" by (simp add: hasChanges_def local_tags_def)
  have "hexToColor ''#ff8000'' = (Finite 1, Finite (128 / 255), Finite 0)"
    by (simp add: hexToColor_def hex_channel_def parse_hex_def hex_digit_def code_unit_def eval_nat_numeral)
  moreover have "last (tn_requests (tag_step ?c True ?s Save_Tags)) = [(''work'', \<lparr>sv_color = Some (hexToColor ''#ff8000''), sv_blur = False\<rparr>)]"
    using c l by (simp add: tag_step_def handleSave_def to_saved_def)
  ultimately have "stored_as (last (tn_requests (tag_step ?c True ?s Save_Tags)))
      [(''work'', \<lparr>sv_color = Some (Finite 1, Finite (251 / 500), Finite 0), sv_blur = False\<rparr>)]"
    by (simp add: stored_as_def color_stored_def channel_stored_def)
  from tags_saved_back [OF refl c this] show ?thesis using l by (simp add: Let_def)
qed

text \<open>A tag that has the name of something every object inherits cannot be configured: it is taken for one that
  exists already, although the list has no such tag.\<close>

theorem inherited_name_refused:
  assumes "trim (tn_newName s) \<in> set object_prototype"
  shows "handleAddTag compile s = toast_tag ''setting.tags.tag-already-exists'' s"
proof -
  have "[] \<notin> set object_prototype" by (simp add: object_prototype_def)
  then show ?thesis using assms by (auto simp: handleAddTag_def object_has_def Let_def)
qed

theorem inherited_name_refused_witness:
  "tn_toasts (handleAddTag compile (tag_mount []\<lparr>tn_newName := ''constructor''\<rparr>)) = [Toast_Error ''setting.tags.tag-already-exists'']"
proof -
  have "trim ''constructor'' \<in> set object_prototype" by code_simp
  then show ?thesis using inherited_name_refused [of "tag_mount []\<lparr>tn_newName := ''constructor''\<rparr>" compile]
    by (simp add: toast_tag_def tag_mount_def)
qed

end
