(* ===== verification/SettingForms.thy ===== *)
theory SettingForms
  imports AISettings TagSettings
begin

text \<open>
  The other sections of the instance settings (\<^verbatim>\<open>components/Settings\<close>): storage, notifications, memos and the
  instance itself with its profile dialog (\<^verbatim>\<open>components/UpdateCustomizedProfileDialog.tsx\<close>). They all keep a local
  copy of one setting, edit it, and save it through \<^verbatim>\<open>useInstanceSettingUpdater.ts\<close>; this common part is one step
  function over the code of a section, a record of its own functions.
\<close>

section \<open>A section with a local copy\<close>

text \<open>
  What a section is made of: the normal form of the server's setting, a change by one control, whether the button
  to save is enabled, the message with which its handler refuses, and the context of an error.
\<close>

record ('e, 'v) section_code =
  sc_norm :: "'v \<Rightarrow> 'v"
  sc_edit :: "'e \<Rightarrow> 'v \<Rightarrow> 'v"
  sc_enabled :: "'v \<Rightarrow> 'v \<Rightarrow> bool"
  sc_refuses :: "'v \<Rightarrow> string option"
  sc_context :: string

text \<open>
  \<open>sf_original\<close> is the setting in the instance context; \<open>sf_fetched\<close> says whether the context has asked for it.
  A request is kept with the setting the section had from the context when it was sent.
\<close>

record 'v setting_form =
  sf_original :: 'v
  sf_local :: 'v
  sf_fetched :: bool
  sf_calls :: "save_stage list"
  sf_requests :: "('v \<times> 'v) list"
  sf_toasts :: "toast list"

definition toast_form :: "toast \<Rightarrow> 'v setting_form \<Rightarrow> 'v setting_form" where
  "toast_form t s = s\<lparr>sf_toasts := sf_toasts s @ [t]\<rparr>"

text \<open>A new setting in the context, and the effect that replaces the local copy.\<close>

definition form_receive :: "('e, 'v) section_code \<Rightarrow> 'v \<Rightarrow> 'v setting_form \<Rightarrow> 'v setting_form" where
  "form_receive c v s = s\<lparr>sf_original := v, sf_local := sc_norm c v\<rparr>"

definition form_send :: "('e, 'v) section_code \<Rightarrow> 'v setting_form \<Rightarrow> 'v setting_form" where
  "form_send c s =
     s\<lparr>sf_requests := sf_requests s @ [(sc_norm c (sf_original s), sf_local s)], sf_calls := sf_calls s @ [Updating]\<rparr>"

text \<open>A click on the button that saves.\<close>

definition form_save :: "('e, 'v) section_code \<Rightarrow> 'v setting_form \<Rightarrow> 'v setting_form" where
  "form_save c s =
     (if \<not> sc_enabled c (sc_norm c (sf_original s)) (sf_local s) then s
      else case sc_refuses c (sf_local s) of Some m \<Rightarrow> toast_form (Toast_Error m) s | None \<Rightarrow> form_send c s)"

definition form_failed :: "('e, 'v) section_code \<Rightarrow> nat \<Rightarrow> thrown \<Rightarrow> 'v setting_form \<Rightarrow> 'v setting_form" where
  "form_failed c i e s =
     toast_form (Toast_Error (handleError e (Some (sc_context c)) None))
       (s\<lparr>sf_calls := take i (sf_calls s) @ drop (Suc i) (sf_calls s)\<rparr>)"

definition form_saved :: "nat \<Rightarrow> 'v setting_form \<Rightarrow> 'v setting_form" where
  "form_saved i s =
     toast_form (Toast_Success ''message.update-succeed'') (s\<lparr>sf_calls := take i (sf_calls s) @ drop (Suc i) (sf_calls s)\<rparr>)"

definition form_updated :: "('e, 'v) section_code \<Rightarrow> nat \<Rightarrow> thrown + 'v \<Rightarrow> 'v setting_form \<Rightarrow> 'v setting_form" where
  "form_updated c i answer s =
     (if length (sf_calls s) \<le> i \<or> sf_calls s ! i \<noteq> Updating then s
      else case answer of
        Inl e \<Rightarrow> form_failed c i e s
      | Inr v \<Rightarrow>
          let s1 = form_receive c v s in
          if sf_fetched s then form_saved i s1 else s1\<lparr>sf_fetched := True, sf_calls := (sf_calls s)[i := Fetching]\<rparr>)"

definition form_refetched :: "('e, 'v) section_code \<Rightarrow> nat \<Rightarrow> thrown + 'v \<Rightarrow> 'v setting_form \<Rightarrow> 'v setting_form" where
  "form_refetched c i answer s =
     (if length (sf_calls s) \<le> i \<or> sf_calls s ! i \<noteq> Fetching then s
      else case answer of
        Inl e \<Rightarrow> form_failed c i e (s\<lparr>sf_fetched := False\<rparr>)
      | Inr v \<Rightarrow> form_saved i (form_receive c v s))"

datatype ('e, 'v) form_event =
    Control 'e | Save_Clicked | Updated nat "thrown + 'v" | Refetched nat "thrown + 'v" | Received 'v

definition form_step :: "('e, 'v) section_code \<Rightarrow> 'v setting_form \<Rightarrow> ('e, 'v) form_event \<Rightarrow> 'v setting_form" where
  "form_step c s e =
     (case e of
        Control x \<Rightarrow> s\<lparr>sf_local := sc_edit c x (sf_local s)\<rparr>
      | Save_Clicked \<Rightarrow> form_save c s
      | Updated i answer \<Rightarrow> form_updated c i answer s
      | Refetched i answer \<Rightarrow> form_refetched c i answer s
      | Received v \<Rightarrow> form_receive c v s)"

text \<open>The section opens with the setting of the context; the normal form is shown from the first rendering on.\<close>

definition form_mount :: "('e, 'v) section_code \<Rightarrow> bool \<Rightarrow> 'v \<Rightarrow> 'v setting_form" where
  "form_mount c fetched v =
     \<lparr>sf_original = v, sf_local = sc_norm c v, sf_fetched = fetched, sf_calls = [], sf_requests = [], sf_toasts = []\<rparr>"

section \<open>Storage\<close>

text \<open>\<open>parseInt\<close> of what was typed: white space, a sign, and digits, hexadecimal after \<open>0x\<close>; \<open>None\<close> is NaN.\<close>

definition parse_decimal :: "string \<Rightarrow> int option" where
  "parse_decimal s = (let ds = takeWhile is_digit s in if ds = [] then None else Some (int (parse_digits ds)))"

definition parse_unsigned :: "string \<Rightarrow> int option" where
  "parse_unsigned s =
     (if startsWith s ''0x'' \<or> startsWith s ''0X'' then map_option int (parse_hex (drop 2 s)) else parse_decimal s)"

definition parseInt :: "string \<Rightarrow> int option" where
  "parseInt s =
     (case trimStart s of
        [] \<Rightarrow> None
      | c # cs \<Rightarrow> if c = CHR ''-'' then map_option uminus (parse_unsigned cs)
          else if c = CHR ''+'' then parse_unsigned cs else parse_unsigned (c # cs))"

definition parse_or_zero :: "string \<Rightarrow> int" where
  "parse_or_zero s = (case parseInt s of None \<Rightarrow> 0 | Some n \<Rightarrow> n)"

definition DEFAULT_FILEPATH_TEMPLATE :: string where
  "DEFAULT_FILEPATH_TEMPLATE = ''assets/{timestamp}_{uuid}_{filename}''"

datatype s3_field =
    S3_AccessKeyId string | S3_AccessKeySecret string | S3_Endpoint string | S3_Region string | S3_Bucket string
  | S3_UsePathStyle bool | S3_InsecureSkipTlsVerify bool

definition empty_s3 :: s3_config where
  "empty_s3 = \<lparr>s3_accessKeyId = [], s3_accessKeySecret = [], s3_endpoint = [], s3_region = [], s3_bucket = [],
     s3_usePathStyle = False, s3_insecureSkipTlsVerify = False\<rparr>"

definition set_s3 :: "s3_field \<Rightarrow> s3_config \<Rightarrow> s3_config" where
  "set_s3 f c =
     (case f of
        S3_AccessKeyId v \<Rightarrow> c\<lparr>s3_accessKeyId := v\<rparr> | S3_AccessKeySecret v \<Rightarrow> c\<lparr>s3_accessKeySecret := v\<rparr>
      | S3_Endpoint v \<Rightarrow> c\<lparr>s3_endpoint := v\<rparr> | S3_Region v \<Rightarrow> c\<lparr>s3_region := v\<rparr> | S3_Bucket v \<Rightarrow> c\<lparr>s3_bucket := v\<rparr>
      | S3_UsePathStyle v \<Rightarrow> c\<lparr>s3_usePathStyle := v\<rparr> | S3_InsecureSkipTlsVerify v \<Rightarrow> c\<lparr>s3_insecureSkipTlsVerify := v\<rparr>)"

definition storageTypeOptions :: "storage_type list" where
  "storageTypeOptions = [LOCAL, DATABASE, S3]"

definition selectedStorageOption :: "storage_setting \<Rightarrow> storage_type" where
  "selectedStorageOption s =
     (case List.find (\<lambda>o1. o1 = ss_storageType s) storageTypeOptions of Some o1 \<Rightarrow> o1 | None \<Rightarrow> hd storageTypeOptions)"

definition handleMaxUploadSizeChanged :: "string \<Rightarrow> storage_setting \<Rightarrow> storage_setting" where
  "handleMaxUploadSizeChanged v s = s\<lparr>ss_uploadSizeLimitMb := parse_or_zero v\<rparr>"

definition handleFilepathTemplateChanged :: "string \<Rightarrow> storage_setting \<Rightarrow> storage_setting" where
  "handleFilepathTemplateChanged v s = s\<lparr>ss_filepathTemplate := v\<rparr>"

definition handleS3FieldChange :: "s3_field \<Rightarrow> storage_setting \<Rightarrow> storage_setting" where
  "handleS3FieldChange f s =
     s\<lparr>ss_s3Config := Some (set_s3 f (case ss_s3Config s of None \<Rightarrow> empty_s3 | Some c \<Rightarrow> c))\<rparr>"

definition handleStorageTypeChanged :: "storage_type \<Rightarrow> storage_setting \<Rightarrow> storage_setting" where
  "handleStorageTypeChanged t s =
     s\<lparr>ss_storageType := t,
       ss_filepathTemplate := (if ss_filepathTemplate s \<noteq> [] then ss_filepathTemplate s else DEFAULT_FILEPATH_TEMPLATE)\<rparr>"

text \<open>The test of the configuration that the button to save depends on.\<close>

definition s3_complete :: "bool \<Rightarrow> s3_config option \<Rightarrow> bool" where
  "s3_complete hasExistingS3Config config =
     (case config of
        None \<Rightarrow> False
      | Some c \<Rightarrow> s3_accessKeyId c \<noteq> [] \<and> (hasExistingS3Config \<or> s3_accessKeySecret c \<noteq> []) \<and> s3_endpoint c \<noteq> []
          \<and> s3_region c \<noteq> [] \<and> s3_bucket c \<noteq> [])"

definition allowSaveStorageSetting :: "storage_setting \<Rightarrow> storage_setting \<Rightarrow> bool" where
  "allowSaveStorageSetting original s =
     (if ss_uploadSizeLimitMb s \<le> 0 then False
      else if ss_storageType s = LOCAL \<and> length (ss_filepathTemplate s) = 0 then False
      else if ss_storageType s = S3 \<and> (ss_filepathTemplate s = [] \<or> \<not> s3_complete (ss_s3Config original \<noteq> None) (ss_s3Config s)) then False
      else original \<noteq> s)"

datatype storage_control = Upload_Size string | Filepath_Template string | S3_Field s3_field | Storage_Type storage_type

text \<open>The controls: the template is shown for files, the configuration for S3 only.\<close>

definition storage_edit :: "storage_control \<Rightarrow> storage_setting \<Rightarrow> storage_setting" where
  "storage_edit e s =
     (case e of
        Upload_Size v \<Rightarrow> handleMaxUploadSizeChanged v s
      | Filepath_Template v \<Rightarrow> if ss_storageType s = DATABASE then s else handleFilepathTemplateChanged v s
      | S3_Field f \<Rightarrow> if ss_storageType s = S3 then handleS3FieldChange f s else s
      | Storage_Type t \<Rightarrow> if t \<in> set storageTypeOptions \<and> t \<noteq> ss_storageType s then handleStorageTypeChanged t s else s)"

definition storage_section :: "(storage_control, storage_setting) section_code" where
  "storage_section = \<lparr>sc_norm = (\<lambda>v. v), sc_edit = storage_edit, sc_enabled = allowSaveStorageSetting, sc_refuses = (\<lambda>_. None),
     sc_context = ''Update storage settings''\<rparr>"

section \<open>Notifications\<close>

definition defaultEmailSetting :: email_setting where
  "defaultEmailSetting = \<lparr>ems_enabled = False, ems_smtpHost = [], ems_smtpPort = 587, ems_smtpUsername = [], ems_smtpPassword = [],
     ems_fromEmail = [], ems_fromName = [], ems_replyTo = [], ems_useTls = True, ems_useSsl = False\<rparr>"

definition isEmailSettingConfigured :: "email_setting option \<Rightarrow> bool" where
  "isEmailSettingConfigured email =
     (case email of
        None \<Rightarrow> False
      | Some e \<Rightarrow> ems_enabled e \<or> trim (ems_smtpHost e) \<noteq> [] \<or> ems_smtpPort e > 0 \<or> trim (ems_smtpUsername e) \<noteq> []
          \<or> trim (ems_fromEmail e) \<noteq> [] \<or> trim (ems_fromName e) \<noteq> [] \<or> trim (ems_replyTo e) \<noteq> [] \<or> ems_useTls e \<or> ems_useSsl e)"

definition normalizeNotificationSetting :: "notification_setting \<Rightarrow> notification_setting" where
  "normalizeNotificationSetting s =
     s\<lparr>ns_email := (if isEmailSettingConfigured (ns_email s) then ns_email s else Some defaultEmailSetting)\<rparr>"

definition shown_email :: "notification_setting \<Rightarrow> email_setting" where
  "shown_email s = (case ns_email s of None \<Rightarrow> defaultEmailSetting | Some e \<Rightarrow> e)"

datatype email_control =
    Email_Enabled bool | Smtp_Host string | Smtp_Port string | Smtp_Username string | Smtp_Password string
  | From_Email string | From_Name string | Reply_To string | Use_Tls bool | Use_Ssl bool

definition updateEmailSetting :: "email_control \<Rightarrow> email_setting \<Rightarrow> email_setting" where
  "updateEmailSetting c e =
     (case c of
        Email_Enabled v \<Rightarrow> e\<lparr>ems_enabled := v\<rparr> | Smtp_Host v \<Rightarrow> e\<lparr>ems_smtpHost := v\<rparr>
      | Smtp_Port v \<Rightarrow> e\<lparr>ems_smtpPort := parse_or_zero v\<rparr> | Smtp_Username v \<Rightarrow> e\<lparr>ems_smtpUsername := v\<rparr>
      | Smtp_Password v \<Rightarrow> e\<lparr>ems_smtpPassword := v\<rparr> | From_Email v \<Rightarrow> e\<lparr>ems_fromEmail := v\<rparr>
      | From_Name v \<Rightarrow> e\<lparr>ems_fromName := v\<rparr> | Reply_To v \<Rightarrow> e\<lparr>ems_replyTo := v\<rparr>
      | Use_Tls v \<Rightarrow> e\<lparr>ems_useTls := v, ems_useSsl := (if v then False else ems_useSsl e)\<rparr>
      | Use_Ssl v \<Rightarrow> e\<lparr>ems_useSsl := v, ems_useTls := (if v then False else ems_useTls e)\<rparr>)"

definition notification_edit :: "email_control \<Rightarrow> notification_setting \<Rightarrow> notification_setting" where
  "notification_edit c s = s\<lparr>ns_email := Some (updateEmailSetting c (shown_email s))\<rparr>"

definition mail_server_ok :: "email_setting \<Rightarrow> bool" where
  "mail_server_ok e \<longleftrightarrow>
     trim (ems_smtpHost e) \<noteq> [] \<and> ems_smtpPort e > 0 \<and> ems_smtpPort e \<le> 65535 \<and> trim (ems_fromEmail e) \<noteq> []"

definition allowSave_notification :: "notification_setting \<Rightarrow> notification_setting \<Rightarrow> bool" where
  "allowSave_notification normalizedOriginal s =
     (if normalizedOriginal = s then False
      else case ns_email s of
        None \<Rightarrow> True
      | Some e \<Rightarrow> \<not> ems_enabled e \<or> mail_server_ok e)"

definition notification_section :: "(email_control, notification_setting) section_code" where
  "notification_section = \<lparr>sc_norm = normalizeNotificationSetting, sc_edit = notification_edit, sc_enabled = allowSave_notification,
     sc_refuses = (\<lambda>_. None), sc_context = ''Update notification settings''\<rparr>"

text \<open>The section with the test mails: the address of the signed-in user, those sent, and whether one is under way.\<close>

record notification_state =
  no_form :: "notification_setting setting_form"
  no_user_email :: "string option"
  no_testing :: bool
  no_tests :: "(email_setting \<times> string) list"
  no_toasts :: "toast list"

datatype notification_event =
    Form_Event "(email_control, notification_setting) form_event"
  | Test_Click
  | Test_Answer "thrown + unit"

definition canTestEmail :: "notification_state \<Rightarrow> bool" where
  "canTestEmail s \<longleftrightarrow> (case no_user_email s of None \<Rightarrow> False | Some a \<Rightarrow> a \<noteq> []) \<and> mail_server_ok (shown_email (sf_local (no_form s)))"

definition testEmailSetting :: "notification_state \<Rightarrow> notification_state" where
  "testEmailSetting s =
     (case no_user_email s of
        None \<Rightarrow> s\<lparr>no_toasts := no_toasts s @ [Toast_Error ''setting.notification.test-email-missing-recipient'']\<rparr>
      | Some a \<Rightarrow>
          if a = [] then s\<lparr>no_toasts := no_toasts s @ [Toast_Error ''setting.notification.test-email-missing-recipient'']\<rparr>
          else s\<lparr>no_testing := True, no_tests := no_tests s @ [(shown_email (sf_local (no_form s)), a)]\<rparr>)"

definition test_answered :: "thrown + unit \<Rightarrow> notification_state \<Rightarrow> notification_state" where
  "test_answered answer s =
     (if \<not> no_testing s then s
      else s\<lparr>no_testing := False, no_toasts := no_toasts s @
        [case answer of
           Inl e \<Rightarrow> Toast_Error (handleError e (Some ''Send test email'') None)
         | Inr _ \<Rightarrow> Toast_Success ''setting.notification.test-email-success'']\<rparr>)"

definition notification_step :: "notification_state \<Rightarrow> notification_event \<Rightarrow> notification_state" where
  "notification_step s e =
     (case e of
        Form_Event x \<Rightarrow> s\<lparr>no_form := form_step notification_section (no_form s) x\<rparr>
      | Test_Click \<Rightarrow> if \<not> canTestEmail s \<or> no_testing s then s else testEmailSetting s
      | Test_Answer answer \<Rightarrow> test_answered answer s)"

definition notification_mount :: "bool \<Rightarrow> notification_setting \<Rightarrow> string option \<Rightarrow> notification_state" where
  "notification_mount fetched v user_email =
     \<lparr>no_form = form_mount notification_section fetched v, no_user_email = user_email, no_testing = False, no_tests = [], no_toasts = []\<rparr>"

section \<open>Memos\<close>

text \<open>The limit is a number input, whose text is a number or empty; it is given as that number.\<close>

datatype memo_control = Double_Click_Edit bool | Content_Length_Limit int | Reaction_Added string | Reaction_Removed string

definition memo_edit :: "memo_control \<Rightarrow> memo_related_setting \<Rightarrow> memo_related_setting" where
  "memo_edit c s =
     (case c of
        Double_Click_Edit v \<Rightarrow> s\<lparr>mr_enableDoubleClickEdit := v\<rparr>
      | Content_Length_Limit n \<Rightarrow> s\<lparr>mr_contentLengthLimit := n\<rparr>
      | Reaction_Added v \<Rightarrow> (let trimmed = trim v in if trimmed = [] then s else s\<lparr>mr_reactions := js_uniq (mr_reactions s @ [trimmed])\<rparr>)
      | Reaction_Removed r \<Rightarrow> s\<lparr>mr_reactions := filter (\<lambda>x. x \<noteq> r) (mr_reactions s)\<rparr>)"

definition memo_refuses :: "memo_related_setting \<Rightarrow> string option" where
  "memo_refuses s = (if length (mr_reactions s) = 0 then Some ''setting.memo.reactions-required'' else None)"

definition memo_section :: "(memo_control, memo_related_setting) section_code" where
  "memo_section = \<lparr>sc_norm = (\<lambda>v. v), sc_edit = memo_edit, sc_enabled = (\<noteq>), sc_refuses = memo_refuses,
     sc_context = ''Update memo-related settings''\<rparr>"

record memo_settings_state =
  ms_form :: "memo_related_setting setting_form"
  ms_editingReaction :: string

definition upsertReaction :: "memo_settings_state \<Rightarrow> memo_settings_state" where
  "upsertReaction s =
     (if trim (ms_editingReaction s) = [] then s
      else s\<lparr>ms_form := form_step memo_section (ms_form s) (Control (Reaction_Added (ms_editingReaction s))), ms_editingReaction := []\<rparr>)"

definition remove_reaction :: "string \<Rightarrow> memo_settings_state \<Rightarrow> memo_settings_state" where
  "remove_reaction r s = s\<lparr>ms_form := form_step memo_section (ms_form s) (Control (Reaction_Removed r))\<rparr>"

datatype memo_settings_event =
    Toggle_Double_Click bool | Type_Limit int | Type_Reaction string | Add_Reaction | Remove_Reaction string | Memo_Save
  | Memo_Updated nat "thrown + memo_related_setting" | Memo_Refetched nat "thrown + memo_related_setting" | Memo_Received memo_related_setting

definition memo_settings_step :: "memo_settings_state \<Rightarrow> memo_settings_event \<Rightarrow> memo_settings_state" where
  "memo_settings_step s e =
     (let form = (\<lambda>x. s\<lparr>ms_form := form_step memo_section (ms_form s) x\<rparr>) in
      case e of
        Toggle_Double_Click v \<Rightarrow> form (Control (Double_Click_Edit v))
      | Type_Limit n \<Rightarrow> form (Control (Content_Length_Limit n))
      | Type_Reaction v \<Rightarrow> s\<lparr>ms_editingReaction := v\<rparr>
      | Add_Reaction \<Rightarrow> upsertReaction s
      | Remove_Reaction r \<Rightarrow> if r \<in> set (mr_reactions (sf_local (ms_form s))) then remove_reaction r s else s
      | Memo_Save \<Rightarrow> form Save_Clicked
      | Memo_Updated i answer \<Rightarrow> form (Updated i answer)
      | Memo_Refetched i answer \<Rightarrow> form (Refetched i answer)
      | Memo_Received v \<Rightarrow> form (Received v))"

definition memo_settings_mount :: "bool \<Rightarrow> memo_related_setting \<Rightarrow> memo_settings_state" where
  "memo_settings_mount fetched v = \<lparr>ms_form = form_mount memo_section fetched v, ms_editingReaction = []\<rparr>"

section \<open>The instance\<close>

datatype general_control =
    Additional_Style string | Additional_Script string | Disallow_Registration bool | Disallow_Password_Auth bool
  | Disallow_Change_Username bool | Disallow_Change_Nickname bool | Week_Start_Day string

definition general_edit :: "general_control \<Rightarrow> general_setting \<Rightarrow> general_setting" where
  "general_edit c s =
     (case c of
        Additional_Style v \<Rightarrow> s\<lparr>gs_additionalStyle := v\<rparr> | Additional_Script v \<Rightarrow> s\<lparr>gs_additionalScript := v\<rparr>
      | Disallow_Registration v \<Rightarrow> s\<lparr>gs_disallowUserRegistration := v\<rparr>
      | Disallow_Password_Auth v \<Rightarrow> s\<lparr>gs_disallowPasswordAuth := v\<rparr>
      | Disallow_Change_Username v \<Rightarrow> s\<lparr>gs_disallowChangeUsername := v\<rparr>
      | Disallow_Change_Nickname v \<Rightarrow> s\<lparr>gs_disallowChangeNickname := v\<rparr>
      | Week_Start_Day v \<Rightarrow> s\<lparr>gs_weekStartDayOffset := parse_or_zero v\<rparr>)"

definition general_section :: "(general_control, general_setting) section_code" where
  "general_section = \<lparr>sc_norm = (\<lambda>v. v), sc_edit = general_edit, sc_enabled = (\<noteq>), sc_refuses = (\<lambda>_. None),
     sc_context = ''Update general settings''\<rparr>"

text \<open>The section with the sign-in providers it fetched and the dialog of the profile, whose fields are set when the
  section opens. A request of the dialog is the whole setting.\<close>

record general_state =
  ge_form :: "general_setting setting_form"
  ge_demo :: bool
  ge_providers :: "string list"
  ge_dialog :: bool
  ge_profile :: custom_profile
  ge_loading :: bool
  ge_sent :: "general_setting list"
  ge_toasts :: "toast list"

definition empty_custom_profile :: custom_profile where
  "empty_custom_profile = \<lparr>cp_title = [], cp_description = [], cp_logoUrl = []\<rparr>"

datatype profile_event =
    Profile_Open | Profile_Title string | Profile_Logo string | Profile_Description string | Profile_Restore
  | Profile_Close | Profile_Save | Profile_Answer "thrown + general_setting"

definition handleRestoreButtonClick :: "custom_profile \<Rightarrow> custom_profile" where
  "handleRestoreButtonClick p = p\<lparr>cp_title := ''Memos'', cp_logoUrl := ''/logo.webp'', cp_description := []\<rparr>"

definition toast_general :: "toast \<Rightarrow> general_state \<Rightarrow> general_state" where
  "toast_general t s = s\<lparr>ge_toasts := ge_toasts s @ [t]\<rparr>"

definition handleSaveButtonClick :: "general_state \<Rightarrow> general_state" where
  "handleSaveButtonClick s =
     (if cp_title (ge_profile s) = [] then toast_general (Toast_Error ''Title cannot be empty.'') s
      else s\<lparr>ge_loading := True,
             ge_sent := ge_sent s @ [(sf_original (ge_form s))\<lparr>gs_customProfile := Some (ge_profile s)\<rparr>]\<rparr>)"

text \<open>The answer: the context gets the new setting, and both the dialog and the section report the success.\<close>

definition profile_answered :: "thrown + general_setting \<Rightarrow> general_state \<Rightarrow> general_state" where
  "profile_answered answer s =
     (if \<not> ge_loading s then s
      else case answer of
        Inl e \<Rightarrow> toast_general (Toast_Error (handleError e (Some ''Update customized profile'') (Some ''Failed to update profile'')))
          (s\<lparr>ge_loading := False\<rparr>)
      | Inr v \<Rightarrow>
          (toast_general (Toast_Success ''message.update-succeed'') (toast_general (Toast_Success ''message.update-succeed'') s))
          \<lparr>ge_form := form_receive general_section v (ge_form s), ge_dialog := False, ge_loading := False\<rparr>)"

definition profile_step :: "general_state \<Rightarrow> profile_event \<Rightarrow> general_state" where
  "profile_step s e =
     (case e of
        Profile_Open \<Rightarrow> s\<lparr>ge_dialog := True\<rparr>
      | Profile_Title v \<Rightarrow> if ge_dialog s then s\<lparr>ge_profile := (ge_profile s)\<lparr>cp_title := v\<rparr>\<rparr> else s
      | Profile_Logo v \<Rightarrow> if ge_dialog s then s\<lparr>ge_profile := (ge_profile s)\<lparr>cp_logoUrl := v\<rparr>\<rparr> else s
      | Profile_Description v \<Rightarrow> if ge_dialog s then s\<lparr>ge_profile := (ge_profile s)\<lparr>cp_description := v\<rparr>\<rparr> else s
      | Profile_Restore \<Rightarrow> if ge_dialog s \<and> \<not> ge_loading s then s\<lparr>ge_profile := handleRestoreButtonClick (ge_profile s)\<rparr> else s
      | Profile_Close \<Rightarrow> s\<lparr>ge_dialog := False\<rparr>
      | Profile_Save \<Rightarrow> if ge_dialog s \<and> \<not> ge_loading s then handleSaveButtonClick s else s
      | Profile_Answer answer \<Rightarrow> profile_answered answer s)"

datatype general_event =
    General_Control general_control
  | General_Save
  | General_Updated nat "thrown + general_setting"
  | General_Refetched nat "thrown + general_setting"
  | General_Received general_setting
  | Providers_Received "string list"
  | Profile profile_event

text \<open>The switches that can be disabled: on a demo, and the one for passwords while there is no other way to sign in.\<close>

definition control_enabled :: "general_state \<Rightarrow> general_control \<Rightarrow> bool" where
  "control_enabled s c =
     (case c of
        Disallow_Registration _ \<Rightarrow> \<not> ge_demo s
      | Disallow_Password_Auth _ \<Rightarrow>
          \<not> (ge_demo s \<or> length (ge_providers s) = 0 \<and> \<not> gs_disallowPasswordAuth (sf_local (ge_form s)))
      | Week_Start_Day v \<Rightarrow> v \<in> {''-1'', ''0'', ''1''}
      | _ \<Rightarrow> True)"

definition general_step :: "general_state \<Rightarrow> general_event \<Rightarrow> general_state" where
  "general_step s e =
     (let form = (\<lambda>x. s\<lparr>ge_form := form_step general_section (ge_form s) x\<rparr>) in
      case e of
        General_Control c \<Rightarrow> if ge_dialog s \<or> \<not> control_enabled s c then s else form (Control c)
      | General_Save \<Rightarrow> if ge_dialog s then s else form Save_Clicked
      | General_Updated i answer \<Rightarrow> form (Updated i answer)
      | General_Refetched i answer \<Rightarrow> form (Refetched i answer)
      | General_Received v \<Rightarrow> form (Received v)
      | Providers_Received ps \<Rightarrow> s\<lparr>ge_providers := ps\<rparr>
      | Profile x \<Rightarrow> profile_step s x)"

definition general_mount :: "bool \<Rightarrow> bool \<Rightarrow> general_setting \<Rightarrow> general_state" where
  "general_mount demo fetched v =
     \<lparr>ge_form = form_mount general_section fetched v, ge_demo = demo, ge_providers = [], ge_dialog = False,
      ge_profile = (case gs_customProfile v of None \<Rightarrow> empty_custom_profile | Some p \<Rightarrow> p), ge_loading = False, ge_sent = [],
      ge_toasts = []\<rparr>"

section \<open>What a section sends\<close>

lemma form_fields [simp]:
  "sf_requests (toast_form t s) = sf_requests s" "sf_local (toast_form t s) = sf_local s" "sf_original (toast_form t s) = sf_original s"
  "sf_requests (form_receive c v s) = sf_requests s" "sf_local (form_receive c v s) = sc_norm c v" "sf_original (form_receive c v s) = v"
  "sf_requests (form_failed c i e s) = sf_requests s" "sf_local (form_failed c i e s) = sf_local s" "sf_original (form_failed c i e s) = sf_original s"
  "sf_requests (form_saved i s) = sf_requests s" "sf_local (form_saved i s) = sf_local s" "sf_original (form_saved i s) = sf_original s"
  by (simp_all add: toast_form_def form_receive_def form_failed_def form_saved_def)

text \<open>The settings that reach a section with an event.\<close>

definition brought :: "('e, 'v) form_event \<Rightarrow> 'v list" where
  "brought e = (case e of Updated _ (Inr v) \<Rightarrow> [v] | Refetched _ (Inr v) \<Rightarrow> [v] | Received v \<Rightarrow> [v] | _ \<Rightarrow> [])"

text \<open>The three ways of a step: a control, a request, or at most a new setting.\<close>

lemma form_answer_cases:
  "sf_requests (form_updated c i a s) = sf_requests s"
  "sf_requests (form_refetched c i a s) = sf_requests s"
  "(sf_original (form_updated c i a s), sf_local (form_updated c i a s)) = (sf_original s, sf_local s)
     \<or> (\<exists>v. a = Inr v \<and> (sf_original (form_updated c i a s), sf_local (form_updated c i a s)) = (v, sc_norm c v))"
  "(sf_original (form_refetched c i a s), sf_local (form_refetched c i a s)) = (sf_original s, sf_local s)
     \<or> (\<exists>v. a = Inr v \<and> (sf_original (form_refetched c i a s), sf_local (form_refetched c i a s)) = (v, sc_norm c v))"
  by (auto simp: form_updated_def form_refetched_def Let_def split: sum.split)

lemma form_step_cases:
  "(\<exists>x. e = Control x \<and> form_step c s e = s\<lparr>sf_local := sc_edit c x (sf_local s)\<rparr>)
   \<or> e = Save_Clicked \<and> sc_enabled c (sc_norm c (sf_original s)) (sf_local s) \<and> sc_refuses c (sf_local s) = None
     \<and> form_step c s e = form_send c s
   \<or> sf_requests (form_step c s e) = sf_requests s
     \<and> ((sf_original (form_step c s e), sf_local (form_step c s e)) = (sf_original s, sf_local s)
        \<or> (\<exists>v \<in> set (brought e). (sf_original (form_step c s e), sf_local (form_step c s e)) = (v, sc_norm c v)))"
proof (cases e)
  case Save_Clicked
  then show ?thesis by (auto simp: form_step_def form_save_def split: option.split)
next
  case (Updated i a)
  then show ?thesis using form_answer_cases(1,3) [of c i a s] by (auto simp: form_step_def brought_def)
next
  case (Refetched i a)
  then show ?thesis using form_answer_cases(2,4) [of c i a s] by (auto simp: form_step_def brought_def)
qed (simp_all add: form_step_def brought_def)

definition form_ok :: "('v \<Rightarrow> bool) \<Rightarrow> ('v \<Rightarrow> 'v \<Rightarrow> bool) \<Rightarrow> 'v setting_form \<Rightarrow> bool" where
  "form_ok good ok s \<longleftrightarrow> good (sf_local s) \<and> list_all (\<lambda>(o1, l). ok o1 l) (sf_requests s)"

text \<open>
  The contract of a section: its local copies keep \<open>good\<close>, and what its button and handler let through then
  meets \<open>ok\<close>, given the setting on the server.
\<close>

locale setting_section =
  fixes c :: "('e, 'v) section_code"
    and brings :: "'v \<Rightarrow> bool"
    and good :: "'v \<Rightarrow> bool"
    and ok :: "'v \<Rightarrow> 'v \<Rightarrow> bool"
  assumes norm_good: "brings v \<Longrightarrow> good (sc_norm c v)"
    and edit_good: "good l \<Longrightarrow> good (sc_edit c e l)"
    and let_through: "good l \<Longrightarrow> sc_enabled c (sc_norm c v) l \<Longrightarrow> sc_refuses c l = None \<Longrightarrow> ok (sc_norm c v) l"
begin

lemma form_mount_ok: "brings v \<Longrightarrow> form_ok good ok (form_mount c fetched v)"
  by (simp add: form_ok_def form_mount_def norm_good)

lemma form_step_ok: "form_ok good ok s \<Longrightarrow> list_all brings (brought e) \<Longrightarrow> form_ok good ok (form_step c s e)"
  using form_step_cases [of e c s]
  by (elim disjE exE conjE) (auto simp: form_ok_def form_send_def edit_good let_through norm_good list_all_iff)

lemma requests_ok: "form_ok good ok s \<Longrightarrow> list_all (\<lambda>(o1, l). ok o1 l) (sf_requests s)"
  by (simp add: form_ok_def)

end

section \<open>The sections as instances\<close>

text \<open>What the server demands of storage: a limit, a template for files, and a complete configuration for S3, whose
  secret may be left out when there is one.\<close>

definition storage_request_ok :: "storage_setting \<Rightarrow> storage_setting \<Rightarrow> bool" where
  "storage_request_ok original s \<longleftrightarrow>
     s \<noteq> original \<and> ss_uploadSizeLimitMb s \<ge> 1 \<and> (ss_storageType s \<in> {LOCAL, S3} \<longrightarrow> ss_filepathTemplate s \<noteq> [])
     \<and> (ss_storageType s = S3 \<longrightarrow>
         (\<exists>c. ss_s3Config s = Some c \<and> [] \<notin> {s3_accessKeyId c, s3_endpoint c, s3_region c, s3_bucket c}
              \<and> (ss_s3Config original = None \<longrightarrow> s3_accessKeySecret c \<noteq> [])))"

interpretation storage: setting_section storage_section "\<lambda>_. True" "\<lambda>_. True" storage_request_ok
proof
  fix v l
  assume "sc_enabled storage_section (sc_norm storage_section v) l"
  then show "storage_request_ok (sc_norm storage_section v) l"
    by (cases "ss_s3Config l")
      (auto simp: storage_section_def allowSaveStorageSetting_def storage_request_ok_def s3_complete_def split: if_splits)
qed simp_all

text \<open>A setting of mails never asks for both kinds of encryption, and an enabled one names a server and a sender.\<close>

definition one_encryption :: "notification_setting \<Rightarrow> bool" where
  "one_encryption s \<longleftrightarrow> (case ns_email s of None \<Rightarrow> True | Some e \<Rightarrow> \<not> (ems_useTls e \<and> ems_useSsl e))"

definition mail_request_ok :: "notification_setting \<Rightarrow> notification_setting \<Rightarrow> bool" where
  "mail_request_ok original s \<longleftrightarrow>
     s \<noteq> original \<and> one_encryption s
     \<and> (\<forall>e. ns_email s = Some e \<longrightarrow> ems_enabled e \<longrightarrow>
           (\<exists>ch \<in> set (ems_smtpHost e). \<not> is_ws ch) \<and> (\<exists>ch \<in> set (ems_fromEmail e). \<not> is_ws ch)
           \<and> 1 \<le> ems_smtpPort e \<and> ems_smtpPort e \<le> 65535)"

lemma mail_server_nonblank:
  "mail_server_ok e \<longleftrightarrow> (\<exists>ch \<in> set (ems_smtpHost e). \<not> is_ws ch) \<and> (\<exists>ch \<in> set (ems_fromEmail e). \<not> is_ws ch)
     \<and> 1 \<le> ems_smtpPort e \<and> ems_smtpPort e \<le> 65535"
  by (auto simp: mail_server_ok_def trim_blank_iff)

lemma one_encryption_norm: "one_encryption v \<Longrightarrow> one_encryption (normalizeNotificationSetting v)"
  by (simp add: one_encryption_def normalizeNotificationSetting_def defaultEmailSetting_def)

lemma one_encryption_edit: "one_encryption v \<Longrightarrow> one_encryption (notification_edit c v)"
  by (cases c; cases "ns_email v")
    (auto simp: one_encryption_def notification_edit_def updateEmailSetting_def shown_email_def defaultEmailSetting_def)

interpretation mail: setting_section notification_section one_encryption one_encryption mail_request_ok
proof
  fix v l
  assume "one_encryption l" "sc_enabled notification_section (sc_norm notification_section v) l"
  then show "mail_request_ok (sc_norm notification_section v) l"
    by (auto simp: notification_section_def allowSave_notification_def mail_request_ok_def mail_server_nonblank split: if_splits)
qed (simp_all add: notification_section_def one_encryption_norm one_encryption_edit)

text \<open>The reactions one can give: different texts, none of them empty.\<close>

definition reactions_clean :: "memo_related_setting \<Rightarrow> bool" where
  "reactions_clean v \<longleftrightarrow> distinct (mr_reactions v) \<and> [] \<notin> set (mr_reactions v)"

definition memo_request_ok :: "memo_related_setting \<Rightarrow> memo_related_setting \<Rightarrow> bool" where
  "memo_request_ok original s \<longleftrightarrow> s \<noteq> original \<and> mr_reactions s \<noteq> [] \<and> reactions_clean s"

lemma reactions_clean_edit: "reactions_clean v \<Longrightarrow> reactions_clean (memo_edit c v)"
  by (cases c) (auto simp: memo_edit_def reactions_clean_def Let_def)

interpretation memo: setting_section memo_section reactions_clean reactions_clean memo_request_ok
  by unfold_locales (auto simp: memo_section_def memo_refuses_def memo_request_ok_def reactions_clean_edit split: if_splits)

interpretation general: setting_section general_section "\<lambda>_. True" "\<lambda>_. True" "(\<noteq>)"
  by unfold_locales (auto simp: general_section_def)

section \<open>Properties\<close>

lemma form_run_ok:
  assumes "setting_section c brings good ok" and "form_ok good ok s" and "list_all brings (concat (map brought es))"
  shows "form_ok good ok (foldl (form_step c) s es)"
  using assms(2,3) by (induction es arbitrary: s) (auto intro: setting_section.form_step_ok [OF assms(1)])

text \<open>The controls among the events.\<close>

definition controls :: "('e, 'v) form_event list \<Rightarrow> 'e list" where
  "controls es = List.map_filter (\<lambda>e. case e of Control x \<Rightarrow> Some x | _ \<Rightarrow> None) es"

lemma controls_simps [simp]:
  "controls [] = []" "controls (Control x # es) = x # controls es" "controls (Save_Clicked # es) = controls es"
  "controls (Updated i a # es) = controls es" "controls (Refetched i a # es) = controls es" "controls (Received v # es) = controls es"
  by (simp_all add: controls_def List.map_filter_def)

text \<open>A part of the setting that is the server's, in the local copy and in every request.\<close>

definition part_kept :: "('v \<Rightarrow> 'a) \<Rightarrow> ('e, 'v) section_code \<Rightarrow> 'v setting_form \<Rightarrow> bool" where
  "part_kept f c s \<longleftrightarrow> f (sf_local s) = f (sc_norm c (sf_original s)) \<and> list_all (\<lambda>(o1, l). f l = f o1) (sf_requests s)"

lemma part_kept_step:
  "part_kept f c s \<Longrightarrow> \<forall>x \<in> set (controls [e]). \<forall>v. f (sc_edit c x v) = f v \<Longrightarrow> part_kept f c (form_step c s e)"
  using form_step_cases [of e c s] by (elim disjE exE conjE) (auto simp: form_send_def part_kept_def list_all_iff)

lemma controls_Cons: "set (controls (e # es)) = set (controls [e]) \<union> set (controls es)"
  by (cases e) auto

lemma part_kept_run:
  "part_kept f c s \<Longrightarrow> \<forall>x \<in> set (controls es). \<forall>v. f (sc_edit c x v) = f v \<Longrightarrow> part_kept f c (foldl (form_step c) s es)"
proof (induction es arbitrary: s)
  case (Cons e es)
  then have "part_kept f c (form_step c s e)" "\<forall>x \<in> set (controls es). \<forall>v. f (sc_edit c x v) = f v"
    by (simp_all add: part_kept_step controls_Cons [of e es])
  then show ?case by (simp add: Cons.IH)
qed simp


definition sample_s3 :: s3_config where
  "sample_s3 = \<lparr>s3_accessKeyId = ''id'', s3_accessKeySecret = [], s3_endpoint = ''https://e'', s3_region = ''r'', s3_bucket = ''b'',
     s3_usePathStyle = True, s3_insecureSkipTlsVerify = False\<rparr>"

definition sample_storage :: storage_setting where
  "sample_storage = \<lparr>ss_storageType = S3, ss_filepathTemplate = ''t'', ss_uploadSizeLimitMb = 32, ss_s3Config = Some sample_s3\<rparr>"

definition sample_storage_events :: "(storage_control, storage_setting) form_event list" where
  "sample_storage_events = [Control (S3_Field (S3_Region ''eu'')), Save_Clicked, Control (Upload_Size ''64'')]"


text \<open>The settings that reach the section of notifications.\<close>

definition mails_brought :: "notification_event list \<Rightarrow> notification_setting list" where
  "mails_brought es = concat (map (\<lambda>e. case e of Form_Event x \<Rightarrow> brought x | _ \<Rightarrow> []) es)"

definition mail_test_ok :: "email_setting \<times> string \<Rightarrow> bool" where
  "mail_test_ok t \<longleftrightarrow> mail_server_ok (fst t) \<and> \<not> (ems_useTls (fst t) \<and> ems_useSsl (fst t)) \<and> snd t \<noteq> []"

definition notification_ok :: "notification_state \<Rightarrow> bool" where
  "notification_ok s \<longleftrightarrow> form_ok one_encryption mail_request_ok (no_form s) \<and> list_all mail_test_ok (no_tests s)"

lemma shown_one_encryption: "one_encryption v \<Longrightarrow> \<not> (ems_useTls (shown_email v) \<and> ems_useSsl (shown_email v))"
  by (cases "ns_email v") (simp_all add: one_encryption_def shown_email_def defaultEmailSetting_def)

lemma notification_step_ok:
  "notification_ok s \<Longrightarrow> list_all one_encryption (mails_brought [e]) \<Longrightarrow> notification_ok (notification_step s e)"
proof (cases e)
  case (Form_Event x)
  moreover assume "notification_ok s" "list_all one_encryption (mails_brought [e])"
  ultimately show ?thesis by (simp add: notification_ok_def notification_step_def mails_brought_def mail.form_step_ok)
next
  case Test_Click
  moreover assume "notification_ok s"
  ultimately show ?thesis using shown_one_encryption [of "sf_local (no_form s)"]
    by (auto simp: notification_ok_def notification_step_def testEmailSetting_def canTestEmail_def mail_test_ok_def form_ok_def
        split: option.splits)
qed (simp add: notification_ok_def notification_step_def test_answered_def)

lemma notification_run_ok:
  "notification_ok s \<Longrightarrow> list_all one_encryption (mails_brought es) \<Longrightarrow> notification_ok (foldl notification_step s es)"
proof (induction es arbitrary: s)
  case (Cons e es)
  then have "notification_ok (notification_step s e)" "list_all one_encryption (mails_brought es)"
    by (simp_all add: notification_step_ok mails_brought_def)
  then show ?case by (simp add: Cons.IH)
qed simp

text \<open>C31: When the settings that arrive from the server ask for at most one kind of encryption, for every order of clicks,
  typing and answers: every setting of mails that is saved changes something, asks for at most one kind of encryption,
  and when mails are enabled names a host and a sender that are not blank and a port between 1 and 65535; every test
  mail goes through such a server to an address.\<close>

theorem mail_settings_usable:
  assumes "one_encryption v0" and "list_all one_encryption (mails_brought es)"
  shows "let s = foldl notification_step (notification_mount fetched v0 user_email) es in
    list_all (\<lambda>(original, sent). mail_request_ok original sent) (sf_requests (no_form s)) \<and> list_all mail_test_ok (no_tests s)"
proof -
  have "notification_ok (notification_mount fetched v0 user_email)"
    by (simp add: notification_ok_def notification_mount_def mail.form_mount_ok assms(1))
  then have "notification_ok (foldl notification_step (notification_mount fetched v0 user_email) es)"
    by (rule notification_run_ok [OF _ assms(2)])
  then show ?thesis by (simp add: notification_ok_def form_ok_def Let_def)
qed

definition sample_mail_events :: "notification_event list" where
  "sample_mail_events = map (\<lambda>c. Form_Event (Control c))
     [Email_Enabled True, Smtp_Host ''smtp.example.com'', From_Email ''a@b.c'', Use_Ssl True, Smtp_Port ''465''] @ [Form_Event Save_Clicked]"

definition sample_mail :: email_setting where
  "sample_mail = \<lparr>ems_enabled = True, ems_smtpHost = ''smtp.example.com'', ems_smtpPort = 465, ems_smtpUsername = [], ems_smtpPassword = [],
     ems_fromEmail = ''a@b.c'', ems_fromName = [], ems_replyTo = [], ems_useTls = False, ems_useSsl = True\<rparr>"

lemma parse_465: "parse_or_zero ''465'' = 465"
  by (simp add: parse_or_zero_def parseInt_def parse_unsigned_def parse_decimal_def trimStart_def is_ws_def is_digit_def code_unit_def
      parse_digits_def digit_val_def)

theorem mail_settings_usable_witness:
  "let s = foldl notification_step (notification_mount True empty_notification None) sample_mail_events in
   map snd (sf_requests (no_form s)) = [\<lparr>ns_email = Some sample_mail\<rparr>]
   \<and> list_all (\<lambda>(original, sent). mail_request_ok original sent) (sf_requests (no_form s))"
proof -
  have ws: "\<not> is_ws CHR ''s''" "\<not> is_ws CHR ''a''" "\<not> is_ws CHR ''c''" "\<not> is_ws CHR ''m''"
    by (simp_all add: is_ws_def code_unit_def)
  have "map snd (sf_requests (no_form (foldl notification_step (notification_mount True empty_notification None) sample_mail_events)))
      = [\<lparr>ns_email = Some sample_mail\<rparr>]"
    by (simp add: sample_mail_events_def notification_step_def notification_mount_def form_step_def form_mount_def notification_section_def
        normalizeNotificationSetting_def isEmailSettingConfigured_def empty_notification_def defaultEmailSetting_def notification_edit_def
        updateEmailSetting_def shown_email_def parse_465 form_save_def form_send_def allowSave_notification_def mail_server_ok_def
        trim_blank_iff ws sample_mail_def)
  moreover have "one_encryption empty_notification" "list_all one_encryption (mails_brought sample_mail_events)"
    by (simp_all add: one_encryption_def empty_notification_def sample_mail_events_def mails_brought_def brought_def)
  ultimately show ?thesis using mail_settings_usable [of empty_notification sample_mail_events True None] by (simp add: Let_def)
qed

text \<open>The condition is needed: no check of the section is about the encryption, so a stored setting with both kinds goes on
  with both when anything else is edited.\<close>

lemma both_encryptions_kept:
  assumes "mail_server_ok e" and "ems_useTls e" and "ems_useSsl e" and "ems_fromName e \<noteq> name"
  shows "let e' = updateEmailSetting (From_Name name) e in
    ems_useTls e' \<and> ems_useSsl e' \<and> allowSave_notification \<lparr>ns_email = Some e\<rparr> \<lparr>ns_email = Some e'\<rparr>"
  using assms
  by (cases e) (simp add: updateEmailSetting_def allowSave_notification_def mail_server_ok_def)

text \<open>What the section of the instance may send: a change that leaves the profile alone, on a demo also the two ways in; and
  passwords are switched off only with another way to sign in, or when they were off before.\<close>

definition general_request_ok :: "bool \<Rightarrow> bool \<Rightarrow> general_setting \<Rightarrow> general_setting \<Rightarrow> bool" where
  "general_request_ok demo other_ways original s \<longleftrightarrow>
     s \<noteq> original \<and> gs_customProfile s = gs_customProfile original
     \<and> (demo \<longrightarrow> gs_disallowUserRegistration s = gs_disallowUserRegistration original
          \<and> gs_disallowPasswordAuth s = gs_disallowPasswordAuth original)
     \<and> (gs_disallowPasswordAuth s \<longrightarrow> gs_disallowPasswordAuth original \<or> other_ways)"

text \<open>Whether a list of providers that is not empty has arrived.\<close>

definition other_ways :: "general_event list \<Rightarrow> bool" where
  "other_ways es \<longleftrightarrow> list_ex (\<lambda>e. case e of Providers_Received ps \<Rightarrow> ps \<noteq> [] | _ \<Rightarrow> False) es"

definition general_ok :: "bool \<Rightarrow> general_state \<Rightarrow> bool" where
  "general_ok ways s \<longleftrightarrow>
     (let o1 = sf_original (ge_form s); l = sf_local (ge_form s) in
      gs_customProfile l = gs_customProfile o1
      \<and> (ge_demo s \<longrightarrow> gs_disallowUserRegistration l = gs_disallowUserRegistration o1
           \<and> gs_disallowPasswordAuth l = gs_disallowPasswordAuth o1)
      \<and> (gs_disallowPasswordAuth l \<longrightarrow> gs_disallowPasswordAuth o1 \<or> ways)
      \<and> (ge_providers s \<noteq> [] \<longrightarrow> ways)
      \<and> list_all (\<lambda>(o2, r). general_request_ok (ge_demo s) ways o2 r) (sf_requests (ge_form s))
      \<and> list_all (\<lambda>r. case gs_customProfile r of None \<Rightarrow> False | Some p \<Rightarrow> cp_title p \<noteq> []) (ge_sent s))"

lemma general_ok_mono: "general_ok ways s \<Longrightarrow> general_ok (ways \<or> ws) s"
  by (auto simp: general_ok_def Let_def general_request_ok_def list_all_iff)

lemma general_edit_profile [simp]: "gs_customProfile (general_edit c v) = gs_customProfile v"
  by (cases c) (simp_all add: general_edit_def)

lemma general_edit_switches:
  "gs_disallowUserRegistration (general_edit c v) =
     (case c of Disallow_Registration b \<Rightarrow> b | _ \<Rightarrow> gs_disallowUserRegistration v)"
  "gs_disallowPasswordAuth (general_edit c v) = (case c of Disallow_Password_Auth b \<Rightarrow> b | _ \<Rightarrow> gs_disallowPasswordAuth v)"
  by (cases c; simp add: general_edit_def)+

lemma general_control_ok:
  "general_ok ways s \<Longrightarrow> control_enabled s c \<Longrightarrow>
     general_ok ways (s\<lparr>ge_form := (ge_form s)\<lparr>sf_local := general_edit c (sf_local (ge_form s))\<rparr>\<rparr>)"
  by (cases c) (auto simp: general_ok_def Let_def control_enabled_def general_edit_switches)

lemma general_form_ok:
  assumes "general_ok ways s" and "\<And>c. x = Control c \<Longrightarrow> control_enabled s c"
  shows "general_ok ways (s\<lparr>ge_form := form_step general_section (ge_form s) x\<rparr>)"
  using form_step_cases [of x general_section "ge_form s"]
proof (elim disjE exE conjE, goal_cases)
  case (1 c)
  then show ?case using general_control_ok [OF assms(1) assms(2)] by (simp add: general_section_def)
next
  case 2
  then show ?case using assms(1)
    by (auto simp: general_ok_def Let_def form_send_def general_section_def general_request_ok_def)
next
  case 3
  then show ?case using assms(1) by (simp add: general_ok_def Let_def)
next
  case 4
  then obtain v where "sf_original (form_step general_section (ge_form s) x) = v" "sf_local (form_step general_section (ge_form s) x) = v"
    by (auto simp: general_section_def)
  then show ?case using 4(1) assms(1) by (simp add: general_ok_def Let_def)
qed

lemma profile_step_ok: "general_ok ways s \<Longrightarrow> general_ok ways (profile_step s e)"
  by (cases e)
    (auto simp: general_ok_def Let_def profile_step_def handleSaveButtonClick_def toast_general_def profile_answered_def
      general_section_def split: sum.splits)

lemma general_step_ok: "general_ok ways s \<Longrightarrow> general_ok (ways \<or> other_ways [e]) (general_step s e)"
proof (cases e)
  case (General_Control c)
  moreover assume "general_ok ways s"
  ultimately show ?thesis
    by (auto simp: general_step_def other_ways_def intro!: general_form_ok)
next
  case (Providers_Received ps)
  moreover assume "general_ok ways s"
  ultimately show ?thesis using general_ok_mono [of ways s "ps \<noteq> []"]
    by (auto simp: general_step_def other_ways_def general_ok_def Let_def)
next
  case (Profile x)
  moreover assume "general_ok ways s"
  ultimately show ?thesis by (simp add: general_step_def other_ways_def profile_step_ok)
qed (auto simp: general_step_def other_ways_def intro!: general_form_ok)

lemma general_run_ok: "general_ok ways s \<Longrightarrow> general_ok (ways \<or> other_ways es) (foldl general_step s es)"
proof (induction es arbitrary: ways s)
  case (Cons e es)
  from Cons.IH [OF general_step_ok [OF Cons.prems, of e]] show ?case by (simp add: other_ways_def disj_assoc)
qed (simp add: other_ways_def)

lemma run_demo: "ge_demo (foldl general_step s es) = ge_demo s"
proof (induction es arbitrary: s)
  case (Cons e es)
  have "ge_demo (profile_step s x) = ge_demo s" for x
    by (cases x) (simp_all add: profile_step_def handleSaveButtonClick_def toast_general_def profile_answered_def split: sum.split)
  then have "ge_demo (general_step s e) = ge_demo s" by (cases e) (simp_all add: general_step_def)
  then show ?case by (simp add: Cons.IH)
qed simp

text \<open>C32: What the settings of the instance send, for every order of clicks, answers and arriving settings: the section's
  requests change something but never the profile, switch passwords off only when there is another way to sign in or
  they were off already, and leave both ways in alone on a demo; the profile dialog never sends an empty title.\<close>

theorem general_settings_guarded:
  "let s = foldl general_step (general_mount demo fetched v0) es in
   list_all (\<lambda>(original, sent). general_request_ok demo (other_ways es) original sent) (sf_requests (ge_form s))
   \<and> list_all (\<lambda>sent. case gs_customProfile sent of None \<Rightarrow> False | Some p \<Rightarrow> cp_title p \<noteq> []) (ge_sent s)"
proof -
  have "general_ok False (general_mount demo fetched v0)"
    by (simp add: general_ok_def general_mount_def form_mount_def general_section_def)
  from general_run_ok [OF this, of es] show ?thesis
    by (simp add: general_ok_def Let_def run_demo general_mount_def)
qed

text \<open>A save of the profile replaces the section's local copy: a style typed and not yet saved is gone.\<close>

theorem profile_save_discards_edits:
  "let s = foldl general_step (general_mount False True empty_general)
       [General_Control (Additional_Style ''body { }''), Profile Profile_Open, Profile (Profile_Title ''Notes''), Profile Profile_Save,
        Profile (Profile_Answer (Inr (empty_general\<lparr>gs_customProfile := Some (empty_custom_profile\<lparr>cp_title := ''Notes''\<rparr>)\<rparr>)))] in
   gs_additionalStyle (sf_local (ge_form s)) = [] \<and> sf_requests (ge_form s) = []
   \<and> ge_toasts s = [Toast_Success ''message.update-succeed'', Toast_Success ''message.update-succeed'']"
  by (simp add: general_step_def general_mount_def profile_step_def handleSaveButtonClick_def profile_answered_def toast_general_def
      control_enabled_def form_step_def form_mount_def form_receive_def general_section_def general_edit_def empty_general_def
      empty_custom_profile_def Let_def)

text \<open>What is changed while a save is under way is replaced by its answer, in every section.\<close>

theorem edits_while_saving_lost:
  assumes "sc_enabled c (sc_norm c (sf_original s)) (sf_local s)" and "sc_refuses c (sf_local s) = None" and "sf_calls s = []"
  shows "sf_local (foldl (form_step c) s (Save_Clicked # map Control xs @ [Updated 0 (Inr v)])) = sc_norm c v"
proof -
  have run: "sf_calls (foldl (form_step c) s1 (map Control xs)) = sf_calls s1" for s1
    by (induction xs arbitrary: s1) (simp_all add: form_step_def)
  have "form_step c s Save_Clicked = form_send c s" using assms by (simp add: form_step_def form_save_def)
  then have "sf_calls (foldl (form_step c) (form_step c s Save_Clicked) (map Control xs)) = [Updating]"
    by (simp add: run form_send_def assms(3))
  then show ?thesis by (simp add: form_step_def [of c _ "Updated 0 (Inr v)"] form_updated_def Let_def form_receive_def)
qed

text \<open>The settings that reach the section of memos.\<close>

definition memo_brought :: "memo_settings_event list \<Rightarrow> memo_related_setting list" where
  "memo_brought es =
     List.map_filter (\<lambda>e. case e of Memo_Updated _ (Inr v) \<Rightarrow> Some v | Memo_Refetched _ (Inr v) \<Rightarrow> Some v | Memo_Received v \<Rightarrow> Some v
       | _ \<Rightarrow> None) es"

lemma memo_step_ok:
  "form_ok reactions_clean memo_request_ok (ms_form s) \<Longrightarrow> list_all reactions_clean (memo_brought [e]) \<Longrightarrow>
     form_ok reactions_clean memo_request_ok (ms_form (memo_settings_step s e))"
  by (cases e) (auto simp: memo_settings_step_def upsertReaction_def remove_reaction_def memo_brought_def brought_def
      List.map_filter_def intro!: memo.form_step_ok split: sum.splits)

lemma memo_run_ok:
  "form_ok reactions_clean memo_request_ok (ms_form s) \<Longrightarrow> list_all reactions_clean (memo_brought es) \<Longrightarrow>
     form_ok reactions_clean memo_request_ok (ms_form (foldl memo_settings_step s es))"
proof (induction es arbitrary: s)
  case (Cons e es)
  have "memo_brought (e # es) = memo_brought [e] @ memo_brought es" by (simp add: memo_brought_def List.map_filter_def)
  with Cons.prems(2) have "list_all reactions_clean (memo_brought [e])" "list_all reactions_clean (memo_brought es)" by simp_all
  then show ?case using Cons.prems(1) by (simp add: Cons.IH memo_step_ok)
qed simp

text \<open>The reactions that are saved are different texts, none of them empty, and there is at least one; blank entries and
  repetitions never get into the list.\<close>

theorem saved_reactions_clean:
  assumes "reactions_clean v0" and "list_all reactions_clean (memo_brought es)"
  shows "list_all (\<lambda>(original, sent). memo_request_ok original sent)
    (sf_requests (ms_form (foldl memo_settings_step (memo_settings_mount fetched v0) es)))"
  using memo_run_ok [of "memo_settings_mount fetched v0" es] memo.form_mount_ok [of v0 fetched] assms
  by (simp add: memo_settings_mount_def form_ok_def)

theorem saved_reactions_clean_witness:
  "let s = foldl memo_settings_step (memo_settings_mount True empty_memo_related)
       [Type_Reaction '' :) '', Add_Reaction, Type_Reaction '':)'', Add_Reaction, Memo_Save] in
   map snd (sf_requests (ms_form s)) = [empty_memo_related\<lparr>mr_reactions := ['':)'']\<rparr>]
   \<and> list_all (\<lambda>(original, sent). memo_request_ok original sent) (sf_requests (ms_form s))"
proof -
  let ?es = "[Type_Reaction '' :) '', Add_Reaction, Type_Reaction '':)'', Add_Reaction, Memo_Save]"
  have "trim '' :) '' = '':)''" "trim '':)'' = '':)''"
    by (simp_all add: trim_def trimStart_def trimEnd_def is_ws_def code_unit_def)
  then have "map snd (sf_requests (ms_form (foldl memo_settings_step (memo_settings_mount True empty_memo_related) ?es)))
      = [empty_memo_related\<lparr>mr_reactions := ['':)'']\<rparr>]"
    by (simp add: memo_settings_step_def memo_settings_mount_def upsertReaction_def form_step_def form_mount_def memo_section_def
        memo_edit_def form_save_def form_send_def memo_refuses_def empty_memo_related_def js_uniq_def)
  moreover have "reactions_clean empty_memo_related" "list_all reactions_clean (memo_brought ?es)"
    by (simp_all add: reactions_clean_def empty_memo_related_def memo_brought_def List.map_filter_def)
  ultimately show ?thesis using saved_reactions_clean [of empty_memo_related ?es True] by (simp add: Let_def)
qed

end
