(* ===== verification/Shortcuts.thy ===== *)
theory Shortcuts
  imports MemoActions MemoFilters
begin

text \<open>
  Shortcuts, saved filters of memos: the page that creates, validates, edits and deletes them
  (\<^verbatim>\<open>pages/Shortcuts.tsx\<close>) as a step function over clicks, typing and answers of the server, and the list in
  the sidebar (\<^verbatim>\<open>components/MemoExplorer/ShortcutsSection.tsx\<close>) with the filter it selects.
\<close>

section \<open>The page\<close>

text \<open>The examples: title and expression.\<close>

definition quoted :: "string \<Rightarrow> string" where
  "quoted s = [quote_mark] @ s @ [quote_mark]"

definition shortcutExamples :: "(string \<times> string) list" where
  "shortcutExamples =
     [(''Pinned'', ''pinned''),
      (''Recent notes'', ''created_ts >= now - duration('' @ quoted ''1h'' @ '')''),
      (''Public memos'', ''visibility == '' @ quoted ''PUBLIC''),
      (''Project tags'', ''tag in ['' @ quoted ''work'' @ '', '' @ quoted ''personal'' @ '']''),
      (''Archive tree'', ''tags.exists(t, t.startsWith('' @ quoted ''archive'' @ ''))''),
      (''Open tasks'', ''has_task_list && has_incomplete_tasks''),
      (''Links or code'', ''has_link || has_code''),
      (''Content search'', ''content.contains('' @ quoted ''TODO'' @ '')''),
      (''Starts with'', ''content.startsWith('' @ quoted ''TODO'' @ '')''),
      (''Regex match'', ''content.matches('' @ quoted ''v[0-9]+'' @ '')''),
      (''All tags match'', ''tags.all(t, t.startsWith('' @ quoted ''work/'' @ ''))''),
      (''One project tag'', ''tags.exists_one(t, t.startsWith('' @ quoted ''project/'' @ ''))''),
      (''Any of these tags'', ''sets.intersects(tags, ['' @ quoted ''work'' @ '', '' @ quoted ''urgent'' @ ''])''),
      (''Exactly these tags'', ''sets.equivalent(tags, ['' @ quoted ''inbox'' @ ''])''),
      (''Memos from 2024'', ''created_ts.getFullYear() == 2024''),
      (''Weekend notes'', ''created_ts.getDayOfWeek() == 0 || created_ts.getDayOfWeek() == 6''),
      (''Long notes'', ''size(content) > 280'')]"

text \<open>The identifier the page shows of a shortcut, its name when that has another form.\<close>

definition page_shortcutId :: "string \<Rightarrow> string" where
  "page_shortcutId name = (let parts = split_str ''/'' name in if length parts = 4 then parts ! 3 else name)"

definition createEmptyShortcut :: shortcut where
  "createEmptyShortcut = \<lparr>sc_name = [], sc_title = [], sc_filter = []\<rparr>"

text \<open>What is sent: a creation under a parent, the same to validate only, an update of title and filter, a deletion.\<close>

datatype shortcut_request =
    Create_Shortcut string shortcut
  | Validate_Shortcut string shortcut
  | Update_Shortcut shortcut
  | Delete_Shortcut string

text \<open>A handler that waits for the server, or for the settings it fetches afterwards, with the user at the time of the
  click: the handler calls the \<open>refetchSettings\<close> it was made with.\<close>

datatype shortcut_call =
    Sent shortcut_request string "string option"
  | Refetching shortcut_request string "string option"

record shortcuts_page =
  sp_shortcuts :: "shortcut list"
  sp_user :: "string option"
  sp_open :: bool
  sp_draft :: shortcut
  sp_target :: "shortcut option"
  sp_confirming :: bool
  sp_creating :: bool
  sp_validating :: bool
  sp_updating :: bool
  sp_calls :: "shortcut_call list"
  sp_requests :: "shortcut_request list"
  sp_toasts :: "toast list"

definition isEditing :: "shortcuts_page \<Rightarrow> bool" where
  "isEditing s \<longleftrightarrow> sc_name (sp_draft s) \<noteq> []"

definition isSaving :: "shortcuts_page \<Rightarrow> bool" where
  "isSaving s \<longleftrightarrow> sp_creating s \<or> sp_updating s"

definition toast_page :: "toast \<Rightarrow> shortcuts_page \<Rightarrow> shortcuts_page" where
  "toast_page t s = s\<lparr>sp_toasts := sp_toasts s @ [t]\<rparr>"

definition send_request :: "shortcut_request \<Rightarrow> string \<Rightarrow> shortcuts_page \<Rightarrow> shortcuts_page" where
  "send_request r errorContext s = s\<lparr>sp_requests := sp_requests s @ [r], sp_calls := sp_calls s @ [Sent r errorContext (sp_user s)]\<rparr>"

text \<open>The effect on the state a navigation brought with it.\<close>

definition route_state_effect :: "bool \<Rightarrow> shortcut option \<Rightarrow> shortcuts_page \<Rightarrow> shortcuts_page" where
  "route_state_effect openCreate shortcut s =
     (case shortcut of
        Some sc \<Rightarrow> s\<lparr>sp_draft := \<lparr>sc_name = sc_name sc, sc_title = sc_title sc, sc_filter = sc_filter sc\<rparr>, sp_open := True\<rparr>
      | None \<Rightarrow> if openCreate then s\<lparr>sp_draft := createEmptyShortcut, sp_open := True\<rparr> else s)"

definition handleUseExample :: "string \<times> string \<Rightarrow> shortcuts_page \<Rightarrow> shortcuts_page" where
  "handleUseExample ex s =
     (let d = sp_draft s in
      s\<lparr>sp_draft := \<lparr>sc_name = sc_name d, sc_title = (if sc_title d \<noteq> [] then sc_title d else fst ex), sc_filter = snd ex\<rparr>,
        sp_open := True\<rparr>)"

definition handleOpenCreateForm :: "shortcuts_page \<Rightarrow> shortcuts_page" where
  "handleOpenCreateForm s = s\<lparr>sp_draft := createEmptyShortcut, sp_open := True\<rparr>"

definition handleCloseForm :: "shortcuts_page \<Rightarrow> shortcuts_page" where
  "handleCloseForm s = s\<lparr>sp_draft := createEmptyShortcut, sp_open := False\<rparr>"

definition handleEditShortcut :: "shortcut \<Rightarrow> shortcuts_page \<Rightarrow> shortcuts_page" where
  "handleEditShortcut sc s =
     s\<lparr>sp_draft := \<lparr>sc_name = sc_name sc, sc_title = sc_title sc, sc_filter = sc_filter sc\<rparr>, sp_open := True\<rparr>"

text \<open>The checks before a request: the message of the first that fails.\<close>

definition draft_error :: "shortcuts_page \<Rightarrow> string option" where
  "draft_error s =
     (if sc_title (sp_draft s) = [] \<or> sc_filter (sp_draft s) = [] then Some ''Title and filter cannot be empty'' else None)"

definition user_error :: "shortcuts_page \<Rightarrow> string option" where
  "user_error s = (case sp_user s of None \<Rightarrow> Some ''No current user'' | Some n \<Rightarrow> if n = [] then Some ''No current user'' else None)"

definition new_shortcut :: "shortcut \<Rightarrow> shortcut" where
  "new_shortcut d = \<lparr>sc_name = [], sc_title = sc_title d, sc_filter = sc_filter d\<rparr>"

definition validateDraft :: "shortcuts_page \<Rightarrow> shortcuts_page" where
  "validateDraft s =
     (case draft_error s of
        Some m \<Rightarrow> toast_page (Toast_Error m) s
      | None \<Rightarrow>
          case user_error s of
            Some m \<Rightarrow> toast_page (Toast_Error m) s
          | None \<Rightarrow> send_request (Validate_Shortcut (the (sp_user s)) (new_shortcut (sp_draft s))) ''Validate shortcut filter''
              (s\<lparr>sp_validating := True\<rparr>))"

definition handleCreateShortcut :: "shortcuts_page \<Rightarrow> shortcuts_page" where
  "handleCreateShortcut s =
     (case draft_error s of
        Some m \<Rightarrow> toast_page (Toast_Error m) s
      | None \<Rightarrow>
          case user_error s of
            Some m \<Rightarrow> toast_page (Toast_Error m) s
          | None \<Rightarrow> send_request (Create_Shortcut (the (sp_user s)) (new_shortcut (sp_draft s))) ''Create shortcut''
              (s\<lparr>sp_creating := True\<rparr>))"

definition handleUpdateShortcut :: "shortcuts_page \<Rightarrow> shortcuts_page" where
  "handleUpdateShortcut s =
     (case draft_error s of
        Some m \<Rightarrow> toast_page (Toast_Error m) s
      | None \<Rightarrow> send_request (Update_Shortcut (sp_draft s)) ''Update shortcut'' (s\<lparr>sp_updating := True\<rparr>))"

definition handleSaveShortcut :: "shortcuts_page \<Rightarrow> shortcuts_page" where
  "handleSaveShortcut s = (if isEditing s then handleUpdateShortcut s else handleCreateShortcut s)"

definition confirmDeleteShortcut :: "shortcuts_page \<Rightarrow> shortcuts_page" where
  "confirmDeleteShortcut s =
     (case sp_target s of
        None \<Rightarrow> s
      | Some sc \<Rightarrow> send_request (Delete_Shortcut (sc_name sc)) ''Delete shortcut'' (s\<lparr>sp_confirming := True\<rparr>))"

text \<open>The end of each handler: the flag it set and what it shows. The confirmation closes when its handler returns.\<close>

definition clear_flag :: "shortcut_request \<Rightarrow> shortcuts_page \<Rightarrow> shortcuts_page" where
  "clear_flag r s =
     (case r of
        Create_Shortcut _ _ \<Rightarrow> s\<lparr>sp_creating := False\<rparr>
      | Validate_Shortcut _ _ \<Rightarrow> s\<lparr>sp_validating := False\<rparr>
      | Update_Shortcut _ \<Rightarrow> s\<lparr>sp_updating := False\<rparr>
      | Delete_Shortcut _ \<Rightarrow> s\<lparr>sp_confirming := False, sp_target := None\<rparr>)"

definition request_failed :: "shortcut_request \<Rightarrow> string \<Rightarrow> thrown \<Rightarrow> shortcuts_page \<Rightarrow> shortcuts_page" where
  "request_failed r errorContext e s = toast_page (Toast_Error (handleError e (Some errorContext) None)) (clear_flag r s)"

definition request_done :: "shortcut_request \<Rightarrow> shortcuts_page \<Rightarrow> shortcuts_page" where
  "request_done r s =
     (case r of
        Create_Shortcut _ _ \<Rightarrow> toast_page (Toast_Success ''Create shortcut successfully'') (handleCloseForm (clear_flag r s))
      | Validate_Shortcut _ _ \<Rightarrow> toast_page (Toast_Success ''Filter expression looks valid'') (clear_flag r s)
      | Update_Shortcut _ \<Rightarrow> toast_page (Toast_Success ''Update shortcut successfully'') (handleCloseForm (clear_flag r s))
      | Delete_Shortcut _ \<Rightarrow> toast_page (Toast_Success ''setting.shortcut.delete-success'') (clear_flag r s))"

definition without_call :: "nat \<Rightarrow> shortcuts_page \<Rightarrow> shortcuts_page" where
  "without_call i s = s\<lparr>sp_calls := take i (sp_calls s) @ drop (Suc i) (sp_calls s)\<rparr>"

text \<open>The server's answer to a request. All but a validation fetch the settings again, which asks nothing without a user.\<close>

definition request_answered :: "nat \<Rightarrow> thrown + unit \<Rightarrow> shortcuts_page \<Rightarrow> shortcuts_page" where
  "request_answered i answer s =
     (if length (sp_calls s) \<le> i then s
      else case sp_calls s ! i of
        Refetching _ _ _ \<Rightarrow> s
      | Sent r errorContext user \<Rightarrow>
          (case answer of
             Inl e \<Rightarrow> request_failed r errorContext e (without_call i s)
           | Inr _ \<Rightarrow>
               if (case r of Validate_Shortcut _ _ \<Rightarrow> True | _ \<Rightarrow> False) \<or> user = None \<or> user = Some []
               then request_done r (without_call i s)
               else s\<lparr>sp_calls := (sp_calls s)[i := Refetching r errorContext user]\<rparr>))"

text \<open>The answer to the fetch of the settings, with the shortcuts of that user: for another user than the context's they
  are dropped.\<close>

definition settings_answered :: "nat \<Rightarrow> thrown + shortcut list \<Rightarrow> shortcuts_page \<Rightarrow> shortcuts_page" where
  "settings_answered i answer s =
     (if length (sp_calls s) \<le> i then s
      else case sp_calls s ! i of
        Sent _ _ _ \<Rightarrow> s
      | Refetching r errorContext user \<Rightarrow>
          (case answer of
             Inl e \<Rightarrow> request_failed r errorContext e (without_call i s)
           | Inr scs \<Rightarrow>
               request_done r (without_call i (s\<lparr>sp_shortcuts := (if sp_user s = user then scs else sp_shortcuts s)\<rparr>))))"

datatype shortcuts_event =
    Route_State bool "shortcut option"
  | Header_Button
  | Type_Title string
  | Type_Filter string
  | Use_Example nat
  | Validate_Click
  | Save_Click
  | Edit_Click nat
  | Delete_Click nat
  | Delete_Cancel
  | Delete_Confirm
  | Request_Answer nat "thrown + unit"
  | Settings_Answer nat "thrown + shortcut list"
  | Context_Arrives "string option" "shortcut list"

text \<open>The page behind an open confirmation cannot be clicked. The examples are shown with the form only; a closed form is
  folded, but its fields and buttons can still be reached with the keyboard.\<close>

definition shortcuts_step :: "shortcuts_page \<Rightarrow> shortcuts_event \<Rightarrow> shortcuts_page" where
  "shortcuts_step s e =
     (let free = (sp_target s = None) in
      case e of
        Route_State openCreate sc \<Rightarrow> route_state_effect openCreate sc s
      | Header_Button \<Rightarrow> if \<not> free then s else if sp_open s then handleCloseForm s else handleOpenCreateForm s
      | Type_Title v \<Rightarrow> if free then s\<lparr>sp_draft := (sp_draft s)\<lparr>sc_title := v\<rparr>\<rparr> else s
      | Type_Filter v \<Rightarrow> if free then s\<lparr>sp_draft := (sp_draft s)\<lparr>sc_filter := v\<rparr>\<rparr> else s
      | Use_Example k \<Rightarrow> if free \<and> sp_open s \<and> k < length shortcutExamples then handleUseExample (shortcutExamples ! k) s else s
      | Validate_Click \<Rightarrow> if \<not> free \<or> sp_validating s \<or> isSaving s then s else validateDraft s
      | Save_Click \<Rightarrow> if \<not> free \<or> isSaving s \<or> sp_validating s then s else handleSaveShortcut s
      | Edit_Click k \<Rightarrow> if free \<and> k < length (sp_shortcuts s) then handleEditShortcut (sp_shortcuts s ! k) s else s
      | Delete_Click k \<Rightarrow> if free \<and> k < length (sp_shortcuts s) then s\<lparr>sp_target := Some (sp_shortcuts s ! k)\<rparr> else s
      | Delete_Cancel \<Rightarrow> if sp_confirming s then s else s\<lparr>sp_target := None\<rparr>
      | Delete_Confirm \<Rightarrow> if sp_confirming s then s else confirmDeleteShortcut s
      | Request_Answer i answer \<Rightarrow> request_answered i answer s
      | Settings_Answer i answer \<Rightarrow> settings_answered i answer s
      | Context_Arrives user scs \<Rightarrow> s\<lparr>sp_user := user, sp_shortcuts := scs\<rparr>)"

definition shortcuts_mount :: "string option \<Rightarrow> shortcut list \<Rightarrow> shortcuts_page" where
  "shortcuts_mount user scs =
     \<lparr>sp_shortcuts = scs, sp_user = user, sp_open = False, sp_draft = createEmptyShortcut, sp_target = None, sp_confirming = False,
      sp_creating = False, sp_validating = False, sp_updating = False, sp_calls = [], sp_requests = [], sp_toasts = []\<rparr>"

section \<open>What the page sends\<close>

definition request_of :: "shortcut_call \<Rightarrow> shortcut_request" where
  "request_of c = (case c of Sent r _ _ \<Rightarrow> r | Refetching r _ _ \<Rightarrow> r)"

datatype request_kind = Kind_Create | Kind_Validate | Kind_Update | Kind_Delete

definition kind_of :: "shortcut_request \<Rightarrow> request_kind" where
  "kind_of r =
     (case r of Create_Shortcut _ _ \<Rightarrow> Kind_Create | Validate_Shortcut _ _ \<Rightarrow> Kind_Validate | Update_Shortcut _ \<Rightarrow> Kind_Update
      | Delete_Shortcut _ \<Rightarrow> Kind_Delete)"

definition flag_of :: "request_kind \<Rightarrow> shortcuts_page \<Rightarrow> bool" where
  "flag_of k s =
     (case k of Kind_Create \<Rightarrow> sp_creating s | Kind_Validate \<Rightarrow> sp_validating s | Kind_Update \<Rightarrow> sp_updating s
      | Kind_Delete \<Rightarrow> sp_confirming s)"

lemma page_frames [simp]:
  "flag_of k (s\<lparr>sp_shortcuts := x0\<rparr>) = flag_of k s" "isSaving (s\<lparr>sp_shortcuts := x0\<rparr>) = isSaving s"
  "flag_of k (s\<lparr>sp_draft := x1\<rparr>) = flag_of k s" "isSaving (s\<lparr>sp_draft := x1\<rparr>) = isSaving s"
  "flag_of k (s\<lparr>sp_open := x2\<rparr>) = flag_of k s" "isSaving (s\<lparr>sp_open := x2\<rparr>) = isSaving s"
  "flag_of k (s\<lparr>sp_target := x3\<rparr>) = flag_of k s" "isSaving (s\<lparr>sp_target := x3\<rparr>) = isSaving s"
  "flag_of k (s\<lparr>sp_user := x4\<rparr>) = flag_of k s" "isSaving (s\<lparr>sp_user := x4\<rparr>) = isSaving s"
  "flag_of k (s\<lparr>sp_requests := x5\<rparr>) = flag_of k s" "isSaving (s\<lparr>sp_requests := x5\<rparr>) = isSaving s"
  "flag_of k (s\<lparr>sp_calls := x6\<rparr>) = flag_of k s" "isSaving (s\<lparr>sp_calls := x6\<rparr>) = isSaving s"
  "flag_of k (s\<lparr>sp_toasts := x7\<rparr>) = flag_of k s" "isSaving (s\<lparr>sp_toasts := x7\<rparr>) = isSaving s"
  by (cases k; simp add: flag_of_def isSaving_def)+

text \<open>The calls under way of a kind.\<close>

definition under_way :: "request_kind \<Rightarrow> shortcut_call list \<Rightarrow> shortcut_call list" where
  "under_way k cs = filter (\<lambda>c. kind_of (request_of c) = k) cs"

definition complete :: "shortcut \<Rightarrow> bool" where
  "complete d \<longleftrightarrow> sc_title d \<noteq> [] \<and> sc_filter d \<noteq> []"

text \<open>A request the server can act on, when it names only shortcuts the page was given.\<close>

definition shortcut_request_ok :: "string set \<Rightarrow> shortcut_request \<Rightarrow> bool" where
  "shortcut_request_ok known r =
     (case r of
        Create_Shortcut u d \<Rightarrow> u \<noteq> [] \<and> sc_name d = [] \<and> complete d
      | Validate_Shortcut u d \<Rightarrow> u \<noteq> [] \<and> sc_name d = [] \<and> complete d
      | Update_Shortcut d \<Rightarrow> sc_name d \<noteq> [] \<and> sc_name d \<in> known \<and> complete d
      | Delete_Shortcut n \<Rightarrow> n \<in> known)"

text \<open>The names of shortcuts that come to the page with an event.\<close>

definition named :: "shortcuts_event \<Rightarrow> string set" where
  "named e =
     (case e of
        Route_State _ (Some sc) \<Rightarrow> {sc_name sc}
      | Settings_Answer _ (Inr scs) \<Rightarrow> sc_name ` set scs
      | Context_Arrives _ scs \<Rightarrow> sc_name ` set scs
      | _ \<Rightarrow> {})"

definition page_ok :: "string set \<Rightarrow> shortcuts_page \<Rightarrow> bool" where
  "page_ok known s \<longleftrightarrow>
     sc_name ` set (sp_shortcuts s) \<subseteq> known
     \<and> (sc_name (sp_draft s) \<noteq> [] \<longrightarrow> sc_name (sp_draft s) \<in> known)
     \<and> (case sp_target s of None \<Rightarrow> True | Some sc \<Rightarrow> sc_name sc \<in> known)
     \<and> list_all (shortcut_request_ok known) (sp_requests s)
     \<and> (\<not> sp_open s \<longrightarrow> sc_name (sp_draft s) = [])
     \<and> (\<forall>k. length (under_way k (sp_calls s)) = (if flag_of k s then 1 else 0))
     \<and> \<not> (sp_creating s \<and> sp_updating s) \<and> \<not> (sp_validating s \<and> isSaving s)"

lemma request_ok_mono: "shortcut_request_ok known r \<Longrightarrow> known \<subseteq> known' \<Longrightarrow> shortcut_request_ok known' r"
  by (cases r) (auto simp: shortcut_request_ok_def)

lemma page_ok_mono:
  assumes "page_ok known s" and "known \<subseteq> known'"
  shows "page_ok known' s"
proof -
  have "list_all (shortcut_request_ok known') (sp_requests s)"
    using assms by (auto simp: page_ok_def list_all_iff intro: request_ok_mono)
  moreover have "sc_name ` set (sp_shortcuts s) \<subseteq> known'" using assms by (auto simp: page_ok_def)
  moreover have "case sp_target s of None \<Rightarrow> True | Some sc \<Rightarrow> sc_name sc \<in> known'"
    using assms by (auto simp: page_ok_def split: option.splits)
  ultimately show ?thesis using assms(1) subsetD [OF assms(2)] unfolding page_ok_def by blast
qed

lemma toast_page_ok [simp]: "page_ok known (toast_page t s) = page_ok known s"
proof -
  have "flag_of k (toast_page t s) = flag_of k s" for k by (cases k) (simp_all add: flag_of_def toast_page_def)
  then show ?thesis by (simp add: page_ok_def toast_page_def isSaving_def)
qed

lemma draft_complete: "draft_error s = None \<longleftrightarrow> complete (sp_draft s)"
  by (simp add: draft_error_def complete_def)

lemma user_known: "user_error s = None \<longleftrightarrow> (\<exists>n. sp_user s = Some n \<and> n \<noteq> [])"
  by (cases "sp_user s") (simp_all add: user_error_def)

lemma under_way_add: "under_way k (cs @ [c]) = under_way k cs @ (if kind_of (request_of c) = k then [c] else [])"
  by (simp add: under_way_def)

text \<open>A request that sets its flag.\<close>

lemma sent_ok:
  assumes "page_ok known s" and "\<not> flag_of (kind_of r) s" and "shortcut_request_ok known r"
    and s1: "s1 = (case kind_of r of Kind_Create \<Rightarrow> s\<lparr>sp_creating := True\<rparr> | Kind_Validate \<Rightarrow> s\<lparr>sp_validating := True\<rparr>
      | Kind_Update \<Rightarrow> s\<lparr>sp_updating := True\<rparr> | Kind_Delete \<Rightarrow> s\<lparr>sp_confirming := True\<rparr>)"
    and alone: "kind_of r = Kind_Delete \<or> \<not> sp_creating s \<and> \<not> sp_updating s \<and> \<not> sp_validating s"
  shows "page_ok known (send_request r c s1)"
proof -
  let ?s = "send_request r c s1"
  have flags: "flag_of k ?s = (flag_of k s \<or> k = kind_of r)" for k
    by (cases k; cases "kind_of r") (simp_all add: s1 flag_of_def send_request_def)
  have calls: "under_way k (sp_calls ?s) = under_way k (sp_calls s) @ (if kind_of r = k then [Sent r c (sp_user s)] else [])" for k
    by (cases "kind_of r") (simp_all add: s1 send_request_def under_way_add request_of_def)
  have "length (under_way k (sp_calls ?s)) = (if flag_of k ?s then 1 else 0)" for k
    using assms(1,2) by (auto simp: flags calls page_ok_def)
  moreover have "sp_shortcuts ?s = sp_shortcuts s" "sp_draft ?s = sp_draft s" "sp_target ?s = sp_target s" "sp_open ?s = sp_open s"
    "sp_requests ?s = sp_requests s @ [r]"
    by (cases "kind_of r"; simp add: s1 send_request_def)+
  moreover have "\<not> (sp_creating ?s \<and> sp_updating ?s) \<and> \<not> (sp_validating ?s \<and> isSaving ?s)"
    using assms(1) alone by (cases "kind_of r") (auto simp: s1 send_request_def page_ok_def isSaving_def)
  ultimately show ?thesis using assms(1,3) by (simp add: page_ok_def)
qed

lemma under_way_without:
  assumes "i < length cs"
  shows "length (under_way k (take i cs @ drop (Suc i) cs)) + (if kind_of (request_of (cs ! i)) = k then 1 else 0) = length (under_way k cs)"
proof -
  have "under_way k cs = under_way k (take i cs @ cs ! i # drop (Suc i) cs)" using id_take_nth_drop [OF assms] by simp
  then show ?thesis by (simp add: under_way_def)
qed

lemma ended_ok:
  assumes "page_ok known s" and "i < length (sp_calls s)" and "request_of (sp_calls s ! i) = r"
  shows "page_ok known (clear_flag r (without_call i s))"
proof -
  let ?s = "clear_flag r (without_call i s)"
  have calls: "sp_calls ?s = take i (sp_calls s) @ drop (Suc i) (sp_calls s)"
    by (simp add: clear_flag_def without_call_def split: shortcut_request.split)
  have flags: "flag_of k ?s = (flag_of k s \<and> k \<noteq> kind_of r)" for k
    by (cases k; cases r) (simp_all add: flag_of_def clear_flag_def without_call_def kind_of_def)
  have "length (under_way k (sp_calls ?s)) = (if flag_of k ?s then 1 else 0)" for k
  proof -
    have "length (under_way k (sp_calls s)) = (if flag_of k s then 1 else 0)" using assms(1) by (simp add: page_ok_def)
    then show ?thesis using under_way_without [OF assms(2), of k] assms(3) by (auto simp: flags calls split: if_splits)
  qed
  moreover have "sp_shortcuts ?s = sp_shortcuts s" "sp_draft ?s = sp_draft s" "sp_open ?s = sp_open s" "sp_requests ?s = sp_requests s"
    "sp_target ?s = sp_target s \<or> sp_target ?s = None"
    by (simp_all add: clear_flag_def without_call_def split: shortcut_request.split)
  moreover have "\<not> (sp_creating ?s \<and> sp_updating ?s) \<and> \<not> (sp_validating ?s \<and> isSaving ?s)"
    using assms(1) flags [of Kind_Create] flags [of Kind_Update] flags [of Kind_Validate]
    by (auto simp: flag_of_def page_ok_def isSaving_def)
  ultimately show ?thesis using assms(1) unfolding page_ok_def by (auto split: option.splits)
qed

text \<open>A change of the form, the list or the confirmation leaves calls and flags as they are.\<close>

lemma shown_ok:
  assumes "page_ok known s"
    and "sp_calls s' = sp_calls s" "sp_requests s' = sp_requests s" "\<And>k. flag_of k s' = flag_of k s"
    and "sc_name ` set (sp_shortcuts s') \<subseteq> known" "sc_name (sp_draft s') \<noteq> [] \<longrightarrow> sc_name (sp_draft s') \<in> known"
    and "case sp_target s' of None \<Rightarrow> True | Some sc \<Rightarrow> sc_name sc \<in> known" "\<not> sp_open s' \<longrightarrow> sc_name (sp_draft s') = []"
  shows "page_ok known s'"
  using assms(1-3,5-8) assms(4) [of Kind_Create] assms(4) [of Kind_Update] assms(4) [of Kind_Validate] assms(4)
  unfolding page_ok_def by (simp add: flag_of_def isSaving_def)

lemma close_ok: "page_ok known s \<Longrightarrow> page_ok known (handleCloseForm s)"
proof (rule shown_ok)
  fix k
  show "flag_of k (handleCloseForm s) = flag_of k s" by (cases k) (simp_all add: flag_of_def handleCloseForm_def)
qed (auto simp: handleCloseForm_def createEmptyShortcut_def page_ok_def)

lemma done_ok:
  "page_ok known s \<Longrightarrow> i < length (sp_calls s) \<Longrightarrow> request_of (sp_calls s ! i) = r \<Longrightarrow> page_ok known (request_done r (without_call i s))"
  by (cases r) (simp_all add: request_done_def close_ok ended_ok)

lemma save_failed_ok:
  "page_ok known s \<Longrightarrow> i < length (sp_calls s) \<Longrightarrow> request_of (sp_calls s ! i) = r \<Longrightarrow> page_ok known (request_failed r c e (without_call i s))"
  by (simp add: request_failed_def ended_ok)

lemma under_way_map: "length (under_way k cs) = length (filter (\<lambda>r. kind_of r = k) (map request_of cs))"
  by (simp add: under_way_def filter_map comp_def)

lemma refetching_ok:
  assumes "page_ok known s" and "i < length (sp_calls s)" and "request_of (sp_calls s ! i) = r"
  shows "page_ok known (s\<lparr>sp_calls := (sp_calls s)[i := Refetching r c u]\<rparr>)"
proof -
  have "length (under_way k ((sp_calls s)[i := Refetching r c u])) = length (under_way k (sp_calls s))" for k
  proof -
    have "map request_of ((sp_calls s)[i := Refetching r c u]) = map request_of (sp_calls s)"
      using assms(2,3) by (metis list_update_id map_update request_of_def shortcut_call.simps(6))
    then show ?thesis by (simp only: under_way_map)
  qed
  moreover have "flag_of k (s\<lparr>sp_calls := cs\<rparr>) = flag_of k s" for k cs by (cases k) (simp_all add: flag_of_def)
  ultimately show ?thesis using assms(1) unfolding page_ok_def by (simp add: isSaving_def)
qed

lemma request_answered_ok: "page_ok known s \<Longrightarrow> page_ok known (request_answered i answer s)"
  by (auto simp: request_answered_def request_of_def intro!: save_failed_ok done_ok refetching_ok
      split: shortcut_call.split sum.split)

lemma settings_answered_ok:
  assumes "page_ok known s" and "named (Settings_Answer i answer) \<subseteq> known"
  shows "page_ok known (settings_answered i answer s)"
proof (cases "i < length (sp_calls s)")
  case True
  have "page_ok known (s\<lparr>sp_shortcuts := scs\<rparr>)" if "answer = Inr scs" for scs
    using assms that by (simp add: named_def page_ok_def)
  then show ?thesis using True assms(1)
    by (auto simp: settings_answered_def request_of_def intro!: save_failed_ok done_ok split: shortcut_call.split sum.split)
qed (simp add: settings_answered_def assms(1))

text \<open>The handlers of the two buttons while nothing else is saved or validated, and the one of the confirmation.\<close>

lemma validate_ok:
  assumes "page_ok known s" and "\<not> isSaving s" and "\<not> sp_validating s"
  shows "page_ok known (validateDraft s)"
proof (cases "draft_error s = None \<and> user_error s = None")
  case True
  then have "page_ok known (send_request (Validate_Shortcut (the (sp_user s)) (new_shortcut (sp_draft s))) ''Validate shortcut filter''
      (s\<lparr>sp_validating := True\<rparr>))"
    using assms by (intro sent_ok [OF assms(1)])
      (auto simp: kind_of_def flag_of_def shortcut_request_ok_def draft_complete user_known complete_def new_shortcut_def isSaving_def)
  then show ?thesis using True by (simp add: validateDraft_def)
qed (auto simp: validateDraft_def assms(1) split: option.split)

lemma create_ok:
  assumes "page_ok known s" and "\<not> isSaving s" and "\<not> sp_validating s"
  shows "page_ok known (handleCreateShortcut s)"
proof (cases "draft_error s = None \<and> user_error s = None")
  case True
  then have "page_ok known (send_request (Create_Shortcut (the (sp_user s)) (new_shortcut (sp_draft s))) ''Create shortcut''
      (s\<lparr>sp_creating := True\<rparr>))"
    using assms by (intro sent_ok [OF assms(1)])
      (auto simp: kind_of_def flag_of_def shortcut_request_ok_def draft_complete user_known complete_def new_shortcut_def isSaving_def)
  then show ?thesis using True by (simp add: handleCreateShortcut_def)
qed (auto simp: handleCreateShortcut_def assms(1) split: option.split)

lemma update_ok:
  assumes "page_ok known s" and "\<not> isSaving s" and "\<not> sp_validating s" and "isEditing s"
  shows "page_ok known (handleUpdateShortcut s)"
proof (cases "draft_error s")
  case None
  then have "shortcut_request_ok known (Update_Shortcut (sp_draft s))"
    using assms(1,4) by (simp add: shortcut_request_ok_def draft_complete isEditing_def page_ok_def)
  then have "page_ok known (send_request (Update_Shortcut (sp_draft s)) ''Update shortcut'' (s\<lparr>sp_updating := True\<rparr>))"
    using assms(2,3) by (intro sent_ok [OF assms(1)]) (auto simp: kind_of_def flag_of_def isSaving_def)
  then show ?thesis using None by (simp add: handleUpdateShortcut_def)
qed (simp add: handleUpdateShortcut_def assms(1))

lemma delete_ok:
  assumes "page_ok known s" and "\<not> sp_confirming s"
  shows "page_ok known (confirmDeleteShortcut s)"
proof (cases "sp_target s")
  case (Some sc)
  then have "page_ok known (send_request (Delete_Shortcut (sc_name sc)) ''Delete shortcut'' (s\<lparr>sp_confirming := True\<rparr>))"
    using assms by (intro sent_ok [OF assms(1)]) (auto simp: kind_of_def flag_of_def shortcut_request_ok_def page_ok_def)
  then show ?thesis using Some by (simp add: confirmDeleteShortcut_def)
qed (simp add: confirmDeleteShortcut_def assms(1))

lemma listed_known: "page_ok known s \<Longrightarrow> k < length (sp_shortcuts s) \<Longrightarrow> sc_name (sp_shortcuts s ! k) \<in> known"
  unfolding page_ok_def by (meson imageI nth_mem subsetD)

lemma draft_shown_ok:
  "page_ok known s \<Longrightarrow> sc_name d \<noteq> [] \<longrightarrow> sc_name d \<in> known \<Longrightarrow> page_ok known (s\<lparr>sp_draft := d, sp_open := True\<rparr>)"
  by (simp add: page_ok_def)

lemma route_ok:
  "page_ok known s \<Longrightarrow> named (Route_State b o1) \<subseteq> known \<Longrightarrow> page_ok known (route_state_effect b o1 s)"
  by (cases o1) (simp_all add: route_state_effect_def draft_shown_ok createEmptyShortcut_def named_def)

lemma open_ok: "page_ok known s \<Longrightarrow> page_ok known (handleOpenCreateForm s)"
  by (simp add: handleOpenCreateForm_def draft_shown_ok createEmptyShortcut_def)

lemma draft_known: "page_ok known s \<Longrightarrow> sc_name (sp_draft s) \<noteq> [] \<Longrightarrow> sc_name (sp_draft s) \<in> known"
  by (simp add: page_ok_def)

lemma example_ok: "page_ok known s \<Longrightarrow> page_ok known (handleUseExample ex s)"
  by (simp add: handleUseExample_def Let_def draft_shown_ok draft_known)

lemma edit_ok: "page_ok known s \<Longrightarrow> k < length (sp_shortcuts s) \<Longrightarrow> page_ok known (handleEditShortcut (sp_shortcuts s ! k) s)"
  by (simp add: handleEditShortcut_def draft_shown_ok listed_known)

lemma shortcuts_step_ok:
  assumes "page_ok known s" and "named e \<subseteq> known"
  shows "page_ok known (shortcuts_step s e)"
proof (cases e)
  case Validate_Click
  then show ?thesis using assms(1) by (simp add: shortcuts_step_def validate_ok)
next
  case Save_Click
  then show ?thesis using assms(1) by (simp add: shortcuts_step_def handleSaveShortcut_def create_ok update_ok)
next
  case Delete_Confirm
  then show ?thesis using assms(1) by (simp add: shortcuts_step_def delete_ok)
next
  case (Context_Arrives user scs)
  then show ?thesis using assms by (simp add: shortcuts_step_def named_def page_ok_def)
next
  case (Settings_Answer i answer)
  then show ?thesis using assms by (simp add: shortcuts_step_def settings_answered_ok)
next
  case (Delete_Click k)
  then show ?thesis using assms(1) listed_known [OF assms(1), of k] by (simp add: shortcuts_step_def page_ok_def)
qed (use assms in \<open>simp_all add: shortcuts_step_def route_ok open_ok example_ok edit_ok close_ok request_answered_ok, simp_all add: page_ok_def\<close>)

section \<open>The list in the sidebar\<close>

text \<open>The texts of an entry: a first word that is an emoji is set apart; which words are is an argument.\<close>

definition shown_entry :: "(string \<Rightarrow> bool) \<Rightarrow> shortcut \<Rightarrow> string option \<times> string" where
  "shown_entry is_emoji sc =
     (let maybeEmoji = hd (split_str '' '' (sc_title sc));
          emoji = (if is_emoji maybeEmoji then Some maybeEmoji else None);
          title = (case emoji of None \<Rightarrow> sc_title sc | Some e \<Rightarrow> drop (length e) (sc_title sc)) in
      (emoji, trim title))"

text \<open>The list with the filters of the memo lists, the shortcut to delete, and whether its confirmation waits for an answer;
  the confirmation stays open when its handler throws, and logs the error only.\<close>

record shortcuts_list =
  sl_shortcuts :: "shortcut list"
  sl_filters :: filter_state
  sl_target :: "shortcut option"
  sl_confirming :: bool
  sl_refetching :: bool
  sl_requests :: "string list"
  sl_toasts :: "toast list"

definition shortcut_clicked :: "shortcut \<Rightarrow> filter_state \<Rightarrow> filter_state" where
  "shortcut_clicked sc s =
     (let shortcutId = getShortcutId (sc_name sc) in
      if fs_shortcut s = Some shortcutId then setShortcut None s else setShortcut (Some shortcutId) s)"

definition sidebar_confirm :: "shortcuts_list \<Rightarrow> shortcuts_list" where
  "sidebar_confirm s =
     (case sl_target s of
        None \<Rightarrow> s
      | Some sc \<Rightarrow> s\<lparr>sl_confirming := True, sl_requests := sl_requests s @ [sc_name sc]\<rparr>)"

definition sidebar_deleted :: "thrown + unit \<Rightarrow> shortcuts_list \<Rightarrow> shortcuts_list" where
  "sidebar_deleted answer s =
     (if \<not> sl_confirming s \<or> sl_refetching s then s
      else case answer of Inl _ \<Rightarrow> s\<lparr>sl_confirming := False\<rparr> | Inr _ \<Rightarrow> s\<lparr>sl_refetching := True\<rparr>)"

definition sidebar_refetched :: "thrown + shortcut list \<Rightarrow> shortcuts_list \<Rightarrow> shortcuts_list" where
  "sidebar_refetched answer s =
     (if \<not> sl_refetching s then s
      else case answer of
        Inl _ \<Rightarrow> s\<lparr>sl_confirming := False, sl_refetching := False\<rparr>
      | Inr scs \<Rightarrow> s\<lparr>sl_shortcuts := scs, sl_target := None, sl_confirming := False, sl_refetching := False,
          sl_toasts := sl_toasts s @ [Toast_Success ''setting.shortcut.delete-success'']\<rparr>)"

datatype sidebar_event =
    Entry_Click nat | Entry_Delete nat | Sidebar_Cancel | Sidebar_Confirm | Deleted_Answer "thrown + unit"
  | Refetched_Answer "thrown + shortcut list"

definition sidebar_step :: "shortcuts_list \<Rightarrow> sidebar_event \<Rightarrow> shortcuts_list" where
  "sidebar_step s e =
     (let free = (sl_target s = None) in
      case e of
        Entry_Click k \<Rightarrow> if free \<and> k < length (sl_shortcuts s)
          then s\<lparr>sl_filters := shortcut_clicked (sl_shortcuts s ! k) (sl_filters s)\<rparr> else s
      | Entry_Delete k \<Rightarrow> if free \<and> k < length (sl_shortcuts s) then s\<lparr>sl_target := Some (sl_shortcuts s ! k)\<rparr> else s
      | Sidebar_Cancel \<Rightarrow> if sl_confirming s then s else s\<lparr>sl_target := None\<rparr>
      | Sidebar_Confirm \<Rightarrow> if sl_confirming s then s else sidebar_confirm s
      | Deleted_Answer answer \<Rightarrow> sidebar_deleted answer s
      | Refetched_Answer answer \<Rightarrow> sidebar_refetched answer s)"

section \<open>Properties\<close>

lemma form_calls: "length (filter (\<lambda>c. kind_of (request_of c) \<noteq> Kind_Delete) cs)
    = length (under_way Kind_Create cs) + length (under_way Kind_Validate cs) + length (under_way Kind_Update cs)"
  by (induction cs) (auto simp: under_way_def intro: request_kind.exhaust)

definition known_names :: "shortcut list \<Rightarrow> shortcuts_event list \<Rightarrow> string set" where
  "known_names scs es = sc_name ` set scs \<union> \<Union> (named ` set es)"

lemma page_run_ok:
  "page_ok known s \<Longrightarrow> \<Union> (named ` set es) \<subseteq> known \<Longrightarrow> page_ok known (foldl shortcuts_step s es)"
  by (induction es arbitrary: s) (auto simp: shortcuts_step_ok)

text \<open>C34: Whatever is clicked and typed and in whatever order answers, lists and navigations come, the page of the
  shortcuts sends a creation or validation only with a title, an expression and the signed-in user, an update only
  of a shortcut it was given, and never more than one of these at a time; a closed form never holds a
  shortcut being edited.\<close>

theorem shortcut_requests_valid:
  "let s = foldl shortcuts_step (shortcuts_mount user scs) es in
   list_all (shortcut_request_ok (known_names scs es)) (sp_requests s)
   \<and> length (filter (\<lambda>c. kind_of (request_of c) \<noteq> Kind_Delete) (sp_calls s)) \<le> 1
   \<and> \<not> (isEditing s \<and> \<not> sp_open s)"
proof -
  have "page_ok (known_names scs es) (shortcuts_mount user scs)"
    by (auto simp: page_ok_def shortcuts_mount_def known_names_def createEmptyShortcut_def under_way_def flag_of_def split: request_kind.split)
  then have ok: "page_ok (known_names scs es) (foldl shortcuts_step (shortcuts_mount user scs) es)"
    by (rule page_run_ok) (auto simp: known_names_def)
  then have "length (filter (\<lambda>c. kind_of (request_of c) \<noteq> Kind_Delete) (sp_calls (foldl shortcuts_step (shortcuts_mount user scs) es))) \<le> 1"
    by (auto simp: form_calls page_ok_def flag_of_def isSaving_def)
  then show ?thesis using ok by (auto simp: page_ok_def isEditing_def Let_def)
qed

definition draft_events :: "shortcuts_event list" where
  "draft_events = [Header_Button, Type_Title ''Work'', Type_Filter ''pinned'', Save_Click]"

lemmas page_run_defs = draft_events_def shortcuts_step_def shortcuts_mount_def handleOpenCreateForm_def handleSaveShortcut_def
  handleCreateShortcut_def isEditing_def isSaving_def draft_error_def user_error_def send_request_def new_shortcut_def
  createEmptyShortcut_def request_answered_def settings_answered_def request_failed_def request_done_def clear_flag_def
  without_call_def toast_page_def handleError_def getErrorMessage_def handleCloseForm_def handleEditShortcut_def

text \<open>When the shortcut is made and only the list cannot be fetched, the page reports that the creation failed and keeps the
  draft: saving again makes a second one.\<close>

theorem creation_repeated:
  "let s = foldl shortcuts_step (shortcuts_mount (Some ''users/1'') [])
       (draft_events @ [Request_Answer 0 (Inr ()), Settings_Answer 0 (Inl (Error_Instance ''offline'')), Save_Click]);
       sent = Create_Shortcut ''users/1'' \<lparr>sc_name = [], sc_title = ''Work'', sc_filter = ''pinned''\<rparr> in
   sp_requests s = [sent, sent] \<and> sp_toasts s = [Toast_Error ''Create shortcut: offline'']"
  by (simp add: page_run_defs Let_def)

text \<open>A shortcut opened for editing while a creation is under way is closed, with what was typed, when the creation ends.\<close>

theorem open_edit_dropped:
  "let sc = \<lparr>sc_name = ''users/1/shortcuts/a'', sc_title = ''A'', sc_filter = ''pinned''\<rparr>;
       s = foldl shortcuts_step (shortcuts_mount (Some ''users/1'') [sc])
       (draft_events @ [Edit_Click 0, Type_Title ''B'', Request_Answer 0 (Inr ()), Settings_Answer 0 (Inr [sc])]) in
   \<not> sp_open s \<and> sp_draft s = createEmptyShortcut \<and> length (sp_requests s) = 1"
  by (simp add: page_run_defs Let_def)

lemma find_nth:
  assumes "distinct (map f xs)" and "k < length xs"
  shows "List.find (\<lambda>x. f x = f (xs ! k)) xs = Some (xs ! k)"
  using assms
proof (induction xs arbitrary: k)
  case (Cons x xs)
  then show ?case by (cases k) (auto dest: nth_mem)
qed simp

text \<open>A click on a shortcut in the sidebar makes the memo lists use exactly its expression, whatever was selected
  before, and a second click takes it away again; filters other than a search are kept by both.\<close>

theorem sidebar_selects:
  assumes "distinct (map (\<lambda>sc. getShortcutId (sc_name sc)) scs)" and "k < length scs"
    and "fs_shortcut s \<noteq> Some (getShortcutId (sc_name (scs ! k)))"
  shows "let once = shortcut_clicked (scs ! k) s; twice = shortcut_clicked (scs ! k) once in
    selectedShortcut True (fs_shortcut once) scs = Some (scs ! k) \<and> selectedShortcut True (fs_shortcut twice) scs = None
    \<and> fs_filters once = filter (\<lambda>f. mf_factor f \<noteq> ''contentSearch'') (fs_filters s) \<and> fs_filters twice = fs_filters once"
proof -
  have "List.find (\<lambda>sc. getShortcutId (sc_name sc) = getShortcutId (sc_name (scs ! k))) scs = Some (scs ! k)"
    using find_nth [OF assms(1,2)] .
  moreover have "List.find (\<lambda>sc. False) scs = None" for scs :: "shortcut list" by (induction scs) auto
  ultimately show ?thesis using assms(3)
    by (simp add: shortcut_clicked_def setShortcut_def removeFiltersByFactor_def selectedShortcut_def Let_def)
qed

definition two_shortcuts :: "shortcut list" where
  "two_shortcuts = [\<lparr>sc_name = ''users/1/shortcuts/a'', sc_title = ''A'', sc_filter = ''pinned''\<rparr>,
     \<lparr>sc_name = ''users/1/shortcuts/b'', sc_title = ''B'', sc_filter = ''has_code''\<rparr>]"

lemma two_ids: "getShortcutId ''users/1/shortcuts/a'' = ''a''" "getShortcutId ''users/1/shortcuts/b'' = ''b''"
  by (simp_all add: getShortcutId_def)

theorem sidebar_selects_witness:
  "let s = \<lparr>fs_filters = [], fs_shortcut = Some ''a''\<rparr>; once = shortcut_clicked (two_shortcuts ! 1) s in
   distinct (map (\<lambda>sc. getShortcutId (sc_name sc)) two_shortcuts) \<and> selectedShortcut True (fs_shortcut once) two_shortcuts = Some (two_shortcuts ! 1)"
  using sidebar_selects [of two_shortcuts 1 "\<lparr>fs_filters = [], fs_shortcut = Some ''a''\<rparr>"]
  by (simp add: two_shortcuts_def two_ids Let_def)

text \<open>Deleting the selected shortcut in the sidebar leaves it selected: the filters count as active, but nothing is filtered.\<close>

theorem deleted_shortcut_selected:
  "let s = foldl sidebar_step
       \<lparr>sl_shortcuts = two_shortcuts, sl_filters = \<lparr>fs_filters = [], fs_shortcut = None\<rparr>, sl_target = None, sl_confirming = False,
        sl_refetching = False, sl_requests = [], sl_toasts = []\<rparr>
       [Entry_Click 0, Entry_Delete 0, Sidebar_Confirm, Deleted_Answer (Inr ()), Refetched_Answer (Inr (tl two_shortcuts))] in
   hasActiveFilters (sl_filters s) \<and> selectedShortcut True (fs_shortcut (sl_filters s)) (sl_shortcuts s) = None"
  by (simp add: two_shortcuts_def two_ids sidebar_step_def shortcut_clicked_def setShortcut_def removeFiltersByFactor_def sidebar_confirm_def
      sidebar_deleted_def sidebar_refetched_def hasActiveFilters_def selectedShortcut_def Let_def)

end
