(* ===== verification/PlainEditor.thy ===== *)
theory PlainEditor
  imports JsBase
begin

text \<open>
  The plain editor of raw Markdown (\<^verbatim>\<open>components/MemoEditor/PlainEditor/index.tsx\<close>): a text area of the browser, and the
  operations the rest of the editor calls on it (the type \<open>EditorController\<close>). The text area keeps the browser's
  rules: line ends of a text put into it become line feeds, which moves the caret to the end of a new text, and
  positions beyond the end are moved to the end.
\<close>

section \<open>The text area\<close>

record textarea =
  ta_value :: string
  ta_start :: nat
  ta_end :: nat
  ta_focused :: bool
  ta_reported :: "string list"

abbreviation cr :: char where "cr \<equiv> CHR 0x0D"

abbreviation lf :: char where "lf \<equiv> CHR 0x0A"

fun line_feeds :: "string \<Rightarrow> string" where
  "line_feeds [] = []"
| "line_feeds (c # s) =
     (if c = cr then lf # (case s of [] \<Rightarrow> [] | d # r \<Rightarrow> if d = lf then line_feeds r else line_feeds s) else c # line_feeds s)"

definition set_value :: "string \<Rightarrow> textarea \<Rightarrow> textarea" where
  "set_value text t =
     (let v = line_feeds text in
      if v = ta_value t then t else t\<lparr>ta_value := v, ta_start := length v, ta_end := length v\<rparr>)"

definition setSelectionRange :: "nat \<Rightarrow> nat \<Rightarrow> textarea \<Rightarrow> textarea" where
  "setSelectionRange i j t =
     (let e = min j (length (ta_value t)) in t\<lparr>ta_start := min i e, ta_end := e\<rparr>)"

section \<open>The operations\<close>

definition updateContent :: "textarea \<Rightarrow> textarea" where
  "updateContent t = t\<lparr>ta_reported := ta_reported t @ [ta_value t]\<rparr>"

definition focus :: "textarea \<Rightarrow> textarea" where
  "focus t = t\<lparr>ta_focused := True\<rparr>"

definition insertText :: "string \<Rightarrow> string \<Rightarrow> string \<Rightarrow> textarea \<Rightarrow> textarea" where
  "insertText content prefix suffix t =
     (let cursorPos = ta_start t; endPos = ta_end t; prev = ta_value t;
          actual = (if content \<noteq> [] then content else take (endPos - cursorPos) (drop cursorPos prev));
          t1 = set_value (take cursorPos prev @ prefix @ actual @ suffix @ drop endPos prev) t;
          caret = cursorPos + length prefix + length actual in
      updateContent (setSelectionRange caret caret (focus t1)))"

definition setContent :: "string \<Rightarrow> textarea \<Rightarrow> textarea" where
  "setContent text t = updateContent (set_value text t)"

definition getContent :: "textarea \<Rightarrow> string" where
  "getContent t = ta_value t"

definition getCursorPosition :: "textarea \<Rightarrow> nat" where
  "getCursorPosition t = ta_start t"

definition setCursorPosition :: "nat \<Rightarrow> nat option \<Rightarrow> textarea \<Rightarrow> textarea" where
  "setCursorPosition startPos endPos t = setSelectionRange startPos (case endPos of None \<Rightarrow> startPos | Some e \<Rightarrow> e) t"

text \<open>What is missing of an empty line between two texts.\<close>

definition missing_before :: "string \<Rightarrow> string" where
  "missing_before before =
     (if length before = 0 \<or> endsWith before [lf, lf] then [] else if endsWith before [lf] then [lf] else [lf, lf])"

definition missing_after :: "string \<Rightarrow> string" where
  "missing_after after =
     (if length after = 0 \<or> startsWith after [lf, lf] then [] else if startsWith after [lf] then [lf] else [lf, lf])"

definition insertMarkdown :: "string \<Rightarrow> textarea \<Rightarrow> textarea" where
  "insertMarkdown markdown t =
     (if markdown = [] then t
      else
        let content = getContent t; cursor = getCursorPosition t in
        insertText markdown (missing_before (take cursor content)) (missing_after (drop cursor content)) t)"

definition isEmpty :: "textarea \<Rightarrow> bool" where
  "isEmpty t \<longleftrightarrow> trim (getContent t) = []"

definition selectAll :: "textarea \<Rightarrow> textarea" where
  "selectAll t = setCursorPosition 0 (Some (length (getContent t))) t"

text \<open>Mounting, with the content the editor starts with; a later change of it from outside; and the user's own changes, a
  text in place of the selection.\<close>

definition plain_mount :: "string \<Rightarrow> textarea" where
  "plain_mount initialContent =
     (let t = \<lparr>ta_value = [], ta_start = 0, ta_end = 0, ta_focused = False, ta_reported = []\<rparr> in
      if initialContent = [] then t else (set_value initialContent t)\<lparr>ta_reported := [initialContent]\<rparr>)"

definition external_change :: "string \<Rightarrow> textarea \<Rightarrow> textarea" where
  "external_change initialContent t = (if ta_value t \<noteq> initialContent then set_value initialContent t else t)"

definition handleEditorInput :: "string \<Rightarrow> textarea \<Rightarrow> textarea" where
  "handleEditorInput typed t =
     (let v = take (ta_start t) (ta_value t) @ line_feeds typed @ drop (ta_end t) (ta_value t);
          caret = ta_start t + length (line_feeds typed) in
      updateContent (t\<lparr>ta_value := v, ta_start := caret, ta_end := caret\<rparr>))"

section \<open>Properties\<close>

lemma line_feeds_id: "cr \<notin> set s \<Longrightarrow> line_feeds s = s"
  by (induction s) auto

lemma cr_line_feeds [simp]: "cr \<notin> set (line_feeds s)"
  by (induction s rule: line_feeds.induct) (auto split: list.split)

lemma missing_parts:
  "missing_before b \<in> {[], [lf], [lf, lf]}" "missing_after a \<in> {[], [lf], [lf, lf]}"
  by (simp_all add: missing_before_def missing_after_def)

text \<open>The line feeds \<open>g\<close> between two texts, one of them new: none at the edge of the document, and otherwise the fewest that
  make an empty line with those the other text has.\<close>

definition shortest_gap :: "string \<Rightarrow> string \<Rightarrow> string \<Rightarrow> bool" where
  "shortest_gap before g after \<longleftrightarrow>
     set g \<subseteq> {lf}
     \<and> (if before = [] \<and> after = [] then g = []
        else (endsWith (before @ g) [lf, lf] \<or> startsWith (g @ after) [lf, lf])
          \<and> (\<forall>n < length g. \<not> endsWith (before @ take n g) [lf, lf] \<and> \<not> startsWith (take n g @ after) [lf, lf]))"

lemma small_cases: "(\<forall>n < length [lf]. P n) = P 0" "(\<forall>n < length [lf, lf]. P n) = (P 0 \<and> P 1)"
  by (auto simp: less_Suc_eq)

lemma missing_shortest: "shortest_gap b (missing_before b) []" "shortest_gap [] (missing_after a) a"
proof -
  show "shortest_gap b (missing_before b) []"
    by (cases b rule: rev_cases)
      (auto simp: missing_before_def shortest_gap_def small_cases endsWith_def simp del: list.size(4))
  show "shortest_gap [] (missing_after a) a"
    by (cases a) (auto simp: missing_after_def shortest_gap_def small_cases endsWith_def simp del: list.size(4))
qed

lemma caret_fields:
  assumes "c \<le> length v"
  shows "ta_value (updateContent (setSelectionRange c c (focus (t\<lparr>ta_value := v, ta_start := x, ta_end := y\<rparr>)))) = v"
    and "ta_start (updateContent (setSelectionRange c c (focus (t\<lparr>ta_value := v, ta_start := x, ta_end := y\<rparr>)))) = c"
    and "ta_end (updateContent (setSelectionRange c c (focus (t\<lparr>ta_value := v, ta_start := x, ta_end := y\<rparr>)))) = c"
    and "ta_reported (updateContent (setSelectionRange c c (focus (t\<lparr>ta_value := v, ta_start := x, ta_end := y\<rparr>)))) = ta_reported t @ [v]"
  using assms by (simp_all add: updateContent_def setSelectionRange_def focus_def)

definition area_ok :: "textarea \<Rightarrow> bool" where
  "area_ok t \<longleftrightarrow> cr \<notin> set (ta_value t) \<and> ta_start t \<le> ta_end t \<and> ta_end t \<le> length (ta_value t)"

text \<open>Every operation keeps the selection inside a value without carriage returns.\<close>

lemma area_ops_ok:
  assumes "area_ok t"
  shows "area_ok (set_value text t)" and "area_ok (setSelectionRange i j t)" and "area_ok (updateContent t)" and "area_ok (focus t)"
    and "area_ok (handleEditorInput typed t)"
proof -
  have "set (take n (ta_value t)) \<subseteq> set (ta_value t)" "set (drop n (ta_value t)) \<subseteq> set (ta_value t)" for n
    by (simp_all add: set_take_subset set_drop_subset)
  then have "cr \<notin> set (take n (ta_value t))" "cr \<notin> set (drop n (ta_value t))" for n
    using assms by (auto simp: area_ok_def)
  then show "area_ok (handleEditorInput typed t)"
    using assms by (auto simp: area_ok_def handleEditorInput_def updateContent_def Let_def)
qed (use assms in \<open>auto simp: area_ok_def set_value_def setSelectionRange_def updateContent_def focus_def Let_def\<close>)

lemma area_commands_ok:
  assumes "area_ok t"
  shows "area_ok (insertText c p q t)" and "area_ok (setContent text t)" and "area_ok (setCursorPosition i e t)"
    and "area_ok (insertMarkdown md t)" and "area_ok (selectAll t)" and "area_ok (external_change text t)"
  using assms
  by (simp_all add: insertText_def setContent_def setCursorPosition_def insertMarkdown_def selectAll_def external_change_def Let_def area_ops_ok)

text \<open>C35: Markdown inserted at the caret, nothing being selected, becomes blocks of its own, when it has no carriage
  return: the text before and after it is kept, and either is separated from it by an empty line unless it is empty.
  The line feeds added are the fewest with which the text around ends, or begins, with an empty line; those the inserted
  text has itself are not counted. The caret is behind the inserted text, and the editor reports exactly the new
  content.\<close>

theorem insertion_separated:
  assumes "area_ok t" and "ta_start t = ta_end t" and "md \<noteq> []" and "cr \<notin> set md"
  shows "let before = take (ta_start t) (ta_value t); after = drop (ta_start t) (ta_value t); t' = insertMarkdown md t in
    \<exists>p q. ta_value t' = before @ p @ md @ q @ after \<and> shortest_gap before p [] \<and> shortest_gap [] q after
      \<and> ta_start t' = length (before @ p @ md) \<and> ta_end t' = ta_start t' \<and> ta_reported t' = ta_reported t @ [ta_value t']"
proof -
  let ?b = "take (ta_start t) (ta_value t)" and ?a = "drop (ta_start t) (ta_value t)"
  let ?v = "?b @ missing_before ?b @ md @ missing_after ?a @ ?a"
  have "cr \<notin> set ?b" "cr \<notin> set ?a"
    using assms(1) by (auto simp: area_ok_def dest: in_set_takeD in_set_dropD)
  then have lines: "line_feeds ?v = ?v"
    using assms(4) missing_parts [of ?b] missing_parts [of ?a] by (intro line_feeds_id) auto
  have "0 < length md" using assms(3) by simp
  then have "length (?b @ ?a) < length ?v" unfolding length_append by linarith
  then have new: "?v \<noteq> ta_value t" by (metis append_take_drop_id less_irrefl)
  have start: "length ?b = ta_start t" using assms(1,2) by (simp add: area_ok_def)
  have insert: "insertMarkdown md t = insertText md (missing_before ?b) (missing_after ?a) t"
    by (simp add: insertMarkdown_def Let_def getContent_def getCursorPosition_def assms(3))
  have set_v: "set_value ?v t = t\<lparr>ta_value := ?v, ta_start := length ?v, ta_end := length ?v\<rparr>"
    using new unfolding set_value_def lines Let_def by (rule if_not_P)
  let ?c = "ta_start t + length (missing_before ?b) + length md"
  have "insertMarkdown md t = updateContent (setSelectionRange ?c ?c (focus (set_value ?v t)))"
    unfolding insert insertText_def Let_def assms(2) [symmetric] if_P [OF assms(3)] ..
  moreover have "?c = length (?b @ missing_before ?b @ md)" "?c \<le> length ?v" using start by simp_all
  ultimately have "ta_value (insertMarkdown md t) = ?v" "ta_start (insertMarkdown md t) = length (?b @ missing_before ?b @ md)"
    "ta_end (insertMarkdown md t) = length (?b @ missing_before ?b @ md)" "ta_reported (insertMarkdown md t) = ta_reported t @ [?v]"
    unfolding set_v by (simp_all only: caret_fields)
  then show ?thesis
    unfolding Let_def using missing_shortest by (intro exI [of _ "missing_before ?b"] exI [of _ "missing_after ?a"]) simp
qed

definition plain_sample :: textarea where
  "plain_sample = \<lparr>ta_value = [CHR ''a'', lf, CHR ''b''], ta_start = 2, ta_end = 2, ta_focused = False, ta_reported = []\<rparr>"

theorem insertion_separated_witness:
  "\<exists>p q. ta_value (insertMarkdown ''M'' plain_sample) = [CHR ''a'', lf] @ p @ ''M'' @ q @ ''b'' \<and> shortest_gap [CHR ''a'', lf] p []"
proof -
  have ok: "area_ok plain_sample" "ta_start plain_sample = ta_end plain_sample" "''M'' \<noteq> []" "cr \<notin> set ''M''"
    by (simp_all add: plain_sample_def area_ok_def)
  have parts: "take (ta_start plain_sample) (ta_value plain_sample) = [CHR ''a'', lf]"
    "drop (ta_start plain_sample) (ta_value plain_sample) = ''b''"
    by (simp_all add: plain_sample_def)
  show ?thesis using insertion_separated [OF ok] unfolding Let_def parts by blast
qed

text \<open>A text area turns line ends into single line feeds, which the position of the caret does not know: with a carriage
  return in the inserted text the caret is one place too far, and before the line feeds added it takes one of them.\<close>

lemma carriage_return_misplaces:
  "let t' = insertMarkdown [CHR ''a'', cr, lf, CHR ''b''] \<lparr>ta_value = ''c'', ta_start = 0, ta_end = 0, ta_focused = True, ta_reported = []\<rparr> in
     ta_value t' = [CHR ''a'', lf, CHR ''b'', lf, lf, CHR ''c''] \<and> ta_start t' = 4"
  "ta_value (insertMarkdown [CHR ''a'', cr] \<lparr>ta_value = ''c'', ta_start = 0, ta_end = 0, ta_focused = True, ta_reported = []\<rparr>)
     = [CHR ''a'', lf, lf, CHR ''c'']"
  by (simp_all add: insertMarkdown_def insertText_def getContent_def getCursorPosition_def missing_before_def missing_after_def endsWith_def
      set_value_def focus_def updateContent_def setSelectionRange_def Let_def)

text \<open>With a selection the text after it is taken from the caret, where the selection begins: replacing the empty line
  between two blocks joins the inserted text with the second.\<close>

theorem selection_glues_blocks:
  "ta_value (insertMarkdown ''M'' \<lparr>ta_value = [CHR ''a'', lf, lf, CHR ''b''], ta_start = 1, ta_end = 3, ta_focused = True, ta_reported = []\<rparr>)
    = [CHR ''a'', lf, lf, CHR ''M'', CHR ''b'']"
  by (simp add: insertMarkdown_def insertText_def getContent_def getCursorPosition_def missing_before_def missing_after_def endsWith_def
      set_value_def focus_def updateContent_def setSelectionRange_def Let_def)

end
