(* ===== verification/EditorRecording.thy ===== *)
theory EditorRecording
  imports AudioRecorder AISettings "HOL-Library.Multiset"
begin

text \<open>
  Recording in the memo editor (\<^verbatim>\<open>components/MemoEditor/index.tsx\<close>, with the panel of
  \<^verbatim>\<open>components/MemoEditor/components/AudioRecorderPanel.tsx\<close>): the recorder, the store of the editor with its
  saves, and the transcriptions under way, composed as the component composes them. What the editor library makes
  of a text inserted at the cursor is an argument.
\<close>

section \<open>State\<close>

text \<open>Whether a transcription can be asked for.\<close>

definition canTranscribe :: "ai_setting \<Rightarrow> bool" where
  "canTranscribe ai =
     (let providerId = (case as_transcription ai of None \<Rightarrow> [] | Some c \<Rightarrow> tc_providerId c) in
      if providerId = [] then False
      else case List.find (\<lambda>p. ap_id p = providerId) (as_providers ai) of None \<Rightarrow> False | Some p \<Rightarrow> ap_apiKeySet p)"

text \<open>A failure of a service, and its message (\<^verbatim>\<open>services/errorService.ts\<close>): empty only for an error without one.\<close>

record service_error =
  sv_rawMessage :: "string option"
  sv_details :: "string option"
  sv_thrown :: thrown

definition service_message :: "service_error \<Rightarrow> string" where
  "service_message e =
     (case sv_rawMessage e of
        Some m \<Rightarrow> if m = [] then ''An error occurred'' else m
      | None \<Rightarrow>
          (case sv_details e of
             Some d \<Rightarrow> if d = [] then ''An error occurred'' else d
           | None \<Rightarrow> (case sv_thrown e of Error_Instance m \<Rightarrow> m | _ \<Rightarrow> ''An unknown error occurred'')))"

text \<open>What is fixed while the editor is mounted.\<close>

record editor_env =
  ev_storage :: local_storage
  ev_key :: string
  ev_memoName :: "string option"
  ev_defaultVisibility :: "visibility option"
  ev_defaultCreateTime :: "date option"
  ev_supported :: bool
  ev_isTypeSupported :: "string \<Rightarrow> bool"
  ev_insert :: "string \<Rightarrow> string \<Rightarrow> string"

text \<open>
  The component: the store and drafts, the recorder, the settings, its two flags, whether the editor's handle is set,
  and the files whose transcription was asked for.
\<close>

record memo_editor =
  me_editor :: editor
  me_recorder :: recorder
  me_ai :: ai_setting
  me_open :: bool
  me_transcribing :: bool
  me_handle :: bool
  me_waiting :: "local_file list"
  me_toasts :: "toast list"

definition me_dispatch :: "editor_env \<Rightarrow> editor_action \<Rightarrow> memo_editor \<Rightarrow> memo_editor" where
  "me_dispatch env a s =
     s\<lparr>me_editor := ed_dispatch (ev_storage env) (ev_memoName env = None) (ev_key env) a (me_editor s)\<rparr>"

definition toast_editor :: "toast \<Rightarrow> memo_editor \<Rightarrow> memo_editor" where
  "toast_editor t s = s\<lparr>me_toasts := me_toasts s @ [t]\<rparr>"

definition addLocalFile :: "editor_env \<Rightarrow> local_file \<Rightarrow> memo_editor \<Rightarrow> memo_editor" where
  "addLocalFile env f s = me_dispatch env (ADD_LOCAL_FILE f) s"

section \<open>Transcription\<close>

text \<open>The text at the cursor, when there is an editor; the editor reports its new content to the store.\<close>

definition insertTranscribedText :: "editor_env \<Rightarrow> string \<Rightarrow> memo_editor \<Rightarrow> memo_editor" where
  "insertTranscribedText env t s =
     (if \<not> me_handle s then s
      else me_dispatch env (UPDATE_CONTENT (ev_insert env t (es_content (ed_state (me_editor s))))) s)"

definition close_panel :: "memo_editor \<Rightarrow> memo_editor" where
  "close_panel s = s\<lparr>me_transcribing := False, me_open := False\<rparr>"

definition handleTranscribeRecordedAudio :: "editor_env \<Rightarrow> local_file \<Rightarrow> memo_editor \<Rightarrow> memo_editor" where
  "handleTranscribeRecordedAudio env f s =
     (if \<not> canTranscribe (me_ai s) then close_panel (addLocalFile env f s)
      else s\<lparr>me_waiting := me_waiting s @ [f]\<rparr>)"

text \<open>The answer: a text, or an error.\<close>

definition transcription_answered :: "editor_env \<Rightarrow> nat \<Rightarrow> service_error + string \<Rightarrow> memo_editor \<Rightarrow> memo_editor" where
  "transcription_answered env i answer s =
     (if length (me_waiting s) \<le> i then s
      else
        let f = me_waiting s ! i; s1 = s\<lparr>me_waiting := take i (me_waiting s) @ drop (Suc i) (me_waiting s)\<rparr> in
        close_panel
          (case answer of
             Inl e \<Rightarrow> addLocalFile env f
               (toast_editor (Toast_Error (if service_message e \<noteq> [] then service_message e
                  else ''editor.audio-recorder.transcribe-error'')) s1)
           | Inr raw \<Rightarrow>
               let t = trim raw in
               if t = [] then toast_editor (Toast_Error ''editor.audio-recorder.transcribe-empty'') (addLocalFile env f s1)
               else toast_editor (Toast_Success ''editor.audio-recorder.transcribe-success'') (insertTranscribedText env t s1)))"

section \<open>The recorder's callbacks and the effects\<close>

definition onRecordingComplete :: "editor_env \<Rightarrow> local_file \<Rightarrow> complete_mode \<Rightarrow> memo_editor \<Rightarrow> memo_editor" where
  "onRecordingComplete env f mode s =
     (if mode = Transcribe then handleTranscribeRecordedAudio env f s
      else (addLocalFile env f s)\<lparr>me_open := False\<rparr>)"

definition onRecordingEmpty :: "complete_mode \<Rightarrow> memo_editor \<Rightarrow> memo_editor" where
  "onRecordingEmpty mode s =
     (if mode = Transcribe
      then toast_editor (Toast_Error ''editor.audio-recorder.transcribe-empty'') (s\<lparr>me_transcribing := False\<rparr>) else s)\<lparr>me_open := False\<rparr>"

text \<open>A step of the recorder, with the callbacks for what it completed.\<close>

definition with_recorder :: "editor_env \<Rightarrow> recorder \<Rightarrow> memo_editor \<Rightarrow> memo_editor" where
  "with_recorder env r s =
     (let s1 = s\<lparr>me_recorder := r\<rparr>;
          s2 = fold (\<lambda>(f, mode). onRecordingComplete env f mode) (drop (length (rc_completed (me_recorder s))) (rc_completed r)) s1 in
      fold onRecordingEmpty (drop (length (rc_empty (me_recorder s))) (rc_empty r)) s2)"

text \<open>The two effects after a rendering: the flag of the store when \<open>isBusy\<close> changed, and the error of the recorder.\<close>

definition busy_effect :: "editor_env \<Rightarrow> memo_editor \<Rightarrow> memo_editor \<Rightarrow> memo_editor" where
  "busy_effect env before s =
     (if isBusy (me_recorder s) = isBusy (me_recorder before) then s
      else me_dispatch env (SET_RECORDER_BUSY (isBusy (me_recorder s))) s)"

definition error_effect :: "memo_editor \<Rightarrow> memo_editor" where
  "error_effect s =
     (if me_open s \<and> (rc_status (me_recorder s) = Failed \<or> rc_status (me_recorder s) = Unsupported)
      then (toast_editor (Toast_Error (case rc_error (me_recorder s) of None \<Rightarrow> ''editor.audio-recorder.error-description''
          | Some m \<Rightarrow> if m = [] then ''editor.audio-recorder.error-description'' else m)) s)\<lparr>me_open := False\<rparr>
      else s)"

section \<open>The handlers\<close>

definition handleStartAudioRecording :: "editor_env \<Rightarrow> memo_editor \<Rightarrow> memo_editor" where
  "handleStartAudioRecording env s = s\<lparr>me_open := True, me_recorder := startRecording (ev_supported env) (me_recorder s)\<rparr>"

definition mic_click :: "editor_env \<Rightarrow> memo_editor \<Rightarrow> memo_editor" where
  "mic_click env s = (if isBusy (me_recorder s) then s else handleStartAudioRecording env s)"

definition handleCancelAudioRecording :: "memo_editor \<Rightarrow> memo_editor" where
  "handleCancelAudioRecording s = s\<lparr>me_transcribing := False, me_recorder := resetRecording (me_recorder s), me_open := False\<rparr>"

definition handleTranscribeAudioRecording :: "memo_editor \<Rightarrow> memo_editor" where
  "handleTranscribeAudioRecording s =
     (if \<not> canTranscribe (me_ai s) \<or> me_transcribing s then s
      else
        let (didStop, r) = stopRecording Transcribe (me_recorder s) in
        s\<lparr>me_transcribing := didStop, me_recorder := r\<rparr>)"

text \<open>The panel: when it is shown, and which of its buttons can be clicked.\<close>

definition panel_shown :: "memo_editor \<Rightarrow> bool" where
  "panel_shown s \<longleftrightarrow> me_open s \<and> (isBusy (me_recorder s) \<or> me_transcribing s)"

definition panel_ready :: "memo_editor \<Rightarrow> bool" where
  "panel_ready s \<longleftrightarrow> panel_shown s \<and> rc_status (me_recorder s) \<noteq> Requesting_Permission \<and> \<not> me_transcribing s"

datatype save_end = Save_Done | Save_Unchanged | Save_Failed service_error

datatype editor_event =
    Mic_Click | Panel_Cancel | Panel_Stop | Panel_Transcribe
  | Browser rec_event
  | Transcribed nat "service_error + string"
  | Ai_Setting ai_setting
  | Handle bool
  | Action editor_action
  | Save_Click
  | Save_Answer save_end

text \<open>The events of the recorder that the browser causes.\<close>

definition browser_event :: "rec_event \<Rightarrow> bool" where
  "browser_event e = (case e of Stream _ _ _ _ \<Rightarrow> True | Denied _ _ \<Rightarrow> True | Data _ _ \<Rightarrow> True | Stop_Fired _ _ _ _ \<Rightarrow> True
     | Tick _ \<Rightarrow> True | _ \<Rightarrow> False)"

definition browser_step :: "editor_env \<Rightarrow> rec_event \<Rightarrow> recorder \<Rightarrow> recorder" where
  "browser_step env e r =
     (if \<not> browser_event e then r
      else case rec_exec (ev_supported env) (ev_isTypeSupported env) r [e] of None \<Rightarrow> r | Some r' \<Rightarrow> r')"

text \<open>Behind the \<open>await\<close> of a save: a success with changes resets the editor; otherwise only the flag is cleared.\<close>

definition save_answered :: "editor_env \<Rightarrow> save_end \<Rightarrow> memo_editor \<Rightarrow> memo_editor" where
  "save_answered env ending s =
     (if \<not> ld_saving (ui_isLoading (es_ui (ed_state (me_editor s)))) then s
      else case ending of
        Save_Done \<Rightarrow>
          s\<lparr>me_editor := MemoService.save_succeeded (ev_storage env) (ev_key env) (ev_memoName env) (ev_defaultVisibility env)
              (ev_defaultCreateTime env) (me_editor s)\<rparr>
      | Save_Unchanged \<Rightarrow> me_dispatch env (SET_LOADING Saving False) (toast_editor (Toast_Error ''editor.no-changes-detected'') s)
      | Save_Failed e \<Rightarrow>
          me_dispatch env (SET_LOADING Saving False)
            (toast_editor (Toast_Error (handleError (sv_thrown e) (Some ''Failed to save memo'') (Some (service_message e)))) s))"

definition handle_event :: "editor_env \<Rightarrow> memo_editor \<Rightarrow> editor_event \<Rightarrow> memo_editor" where
  "handle_event env s e =
     (case e of
        Mic_Click \<Rightarrow> mic_click env s
      | Panel_Cancel \<Rightarrow> if panel_shown s \<and> \<not> me_transcribing s then handleCancelAudioRecording s else s
      | Panel_Stop \<Rightarrow> if panel_ready s then s\<lparr>me_recorder := snd (stopRecording Attach (me_recorder s))\<rparr> else s
      | Panel_Transcribe \<Rightarrow> if panel_ready s \<and> canTranscribe (me_ai s) then handleTranscribeAudioRecording s else s
      | Browser b \<Rightarrow> with_recorder env (browser_step env b (me_recorder s)) s
      | Transcribed i answer \<Rightarrow> transcription_answered env i answer s
      | Ai_Setting ai \<Rightarrow> s\<lparr>me_ai := ai\<rparr>
      | Handle b \<Rightarrow> s\<lparr>me_handle := b\<rparr>
      | Action a \<Rightarrow> me_dispatch env a s
      | Save_Click \<Rightarrow>
          (case save_begin (ev_storage env) (ev_memoName env = None) (ev_key env) (me_editor s) of
             None \<Rightarrow> toast_editor (Toast_Error (case vr_reason (canSave (ed_state (me_editor s))) of None \<Rightarrow> ''Cannot save'' | Some m \<Rightarrow> m)) s
           | Some (_, ed) \<Rightarrow> s\<lparr>me_editor := ed\<rparr>)
      | Save_Answer ending \<Rightarrow> save_answered env ending s)"

definition editor_step :: "editor_env \<Rightarrow> memo_editor \<Rightarrow> editor_event \<Rightarrow> memo_editor" where
  "editor_step env s e = error_effect (busy_effect env s (handle_event env s e))"

definition editor_mount :: "editor_env \<Rightarrow> ai_setting \<Rightarrow> editor \<Rightarrow> memo_editor" where
  "editor_mount env ai ed =
     \<lparr>me_editor = ed, me_recorder = recorder_init (ev_supported env), me_ai = ai, me_open = False, me_transcribing = False,
      me_handle = True, me_waiting = [], me_toasts = []\<rparr>"

section \<open>Where recordings go\<close>

text \<open>The files of the memo being written, and its text.\<close>

abbreviation files :: "memo_editor \<Rightarrow> local_file list" where
  "files s \<equiv> es_localFiles (ed_state (me_editor s))"

abbreviation content :: "memo_editor \<Rightarrow> string" where
  "content s \<equiv> es_content (ed_state (me_editor s))"

text \<open>
  What a run makes of recordings, read off the states: the files that a callback of the recorder or an answer to
  a transcription put at the end of the memo's files, and the transcripts that have a text, each with the state
  before and after its answer.
\<close>

definition filed :: "memo_editor \<Rightarrow> editor_event \<Rightarrow> memo_editor \<Rightarrow> local_file list" where
  "filed s e s' =
     (case e of
        Browser _ \<Rightarrow> drop (length (files s)) (files s')
      | Transcribed _ _ \<Rightarrow> drop (length (files s)) (files s')
      | _ \<Rightarrow> [])"

definition transcripts ::
  "memo_editor \<Rightarrow> editor_event \<Rightarrow> memo_editor \<Rightarrow> (local_file \<times> string \<times> memo_editor \<times> memo_editor) list" where
  "transcripts s e s' =
     (case e of
        Transcribed i (Inr raw) \<Rightarrow>
          if i < length (me_waiting s) \<and> trim raw \<noteq> [] then [(me_waiting s ! i, trim raw, s, s')] else []
      | _ \<Rightarrow> [])"

fun along :: "(memo_editor \<Rightarrow> editor_event \<Rightarrow> memo_editor \<Rightarrow> 'a list) \<Rightarrow> editor_env \<Rightarrow> memo_editor \<Rightarrow> editor_event list \<Rightarrow> 'a list" where
  "along g env s [] = []"
| "along g env s (e # es) = g s e (editor_step env s e) @ along g env (editor_step env s e) es"

lemma me_dispatch_fields [simp]:
  "me_recorder (me_dispatch env a s) = me_recorder s" "me_waiting (me_dispatch env a s) = me_waiting s"
  "me_handle (me_dispatch env a s) = me_handle s"
  "me_open (me_dispatch env a s) = me_open s" "me_transcribing (me_dispatch env a s) = me_transcribing s"
  by (simp_all add: me_dispatch_def)

lemma me_dispatch_store:
  "files (me_dispatch env (ADD_LOCAL_FILE f) s) = files s @ [f]" "content (me_dispatch env (ADD_LOCAL_FILE f) s) = content s"
  "files (me_dispatch env (UPDATE_CONTENT t) s) = files s" "content (me_dispatch env (UPDATE_CONTENT t) s) = t"
  "files (me_dispatch env (SET_RECORDER_BUSY b) s) = files s" "content (me_dispatch env (SET_RECORDER_BUSY b) s) = content s"
  by (simp_all add: me_dispatch_def ed_dispatch_def editorReducer_def Let_def)

lemma toast_editor_fields [simp]:
  "me_recorder (toast_editor t s) = me_recorder s" "me_waiting (toast_editor t s) = me_waiting s"
  "me_handle (toast_editor t s) = me_handle s"
  "me_open (toast_editor t s) = me_open s" "me_editor (toast_editor t s) = me_editor s"
  by (simp_all add: toast_editor_def)

text \<open>The callbacks put each recording into the memo's files or among the waiting ones.\<close>

definition taken :: "local_file list \<Rightarrow> memo_editor \<Rightarrow> memo_editor \<Rightarrow> bool" where
  "taken fs s s' \<longleftrightarrow> (\<exists>added. files s' = files s @ added \<and> mset fs + mset (me_waiting s) = mset added + mset (me_waiting s'))"

lemma taken_none: "files s' = files s \<Longrightarrow> me_waiting s' = me_waiting s \<Longrightarrow> taken [] s s'"
  by (simp add: taken_def)

lemma taken_trans: "taken fs s s1 \<Longrightarrow> taken gs s1 s2 \<Longrightarrow> taken (fs @ gs) s s2"
proof -
  assume "taken fs s s1" "taken gs s1 s2"
  then obtain a b where "files s1 = files s @ a" "mset fs + mset (me_waiting s) = mset a + mset (me_waiting s1)"
    "files s2 = files s1 @ b" "mset gs + mset (me_waiting s1) = mset b + mset (me_waiting s2)" by (auto simp: taken_def)
  then show ?thesis
    unfolding taken_def by (intro exI [of _ "a @ b"]) (simp, metis add.left_commute add.assoc)
qed

lemma complete_taken: "taken [f] s (onRecordingComplete env f mode s)"
  by (simp add: taken_def onRecordingComplete_def handleTranscribeRecordedAudio_def addLocalFile_def close_panel_def me_dispatch_store)

lemma callbacks_recorder [simp]:
  "me_recorder (onRecordingComplete env f mode s) = me_recorder s" "me_recorder (onRecordingEmpty mode s) = me_recorder s"
  by (simp_all add: onRecordingComplete_def handleTranscribeRecordedAudio_def addLocalFile_def close_panel_def onRecordingEmpty_def)

lemma empty_taken: "taken [] s (onRecordingEmpty mode s)"
  by (rule taken_none) (simp_all add: onRecordingEmpty_def)

lemma fold_complete:
  "taken (map fst cs) s (fold (\<lambda>(f, mode). onRecordingComplete env f mode) cs s)
   \<and> me_recorder (fold (\<lambda>(f, mode). onRecordingComplete env f mode) cs s) = me_recorder s"
proof (induction cs arbitrary: s)
  case (Cons c cs)
  obtain f m where c: "c = (f, m)" by (cases c)
  show ?case
    using Cons.IH [of "onRecordingComplete env f m s"] taken_trans [OF complete_taken [of f s env m], of "map fst cs"]
    by (simp add: c)
qed (simp add: taken_none)

lemma fold_empty:
  "taken [] s (fold onRecordingEmpty ms s) \<and> me_recorder (fold onRecordingEmpty ms s) = me_recorder s"
proof (induction ms arbitrary: s)
  case (Cons m ms)
  show ?case
    using Cons.IH [of "onRecordingEmpty m s"] taken_trans [OF empty_taken [of s m], of "[]"] by simp
qed (simp add: taken_none)

lemma with_recorder_taken:
  assumes "rc_completed r = rc_completed (me_recorder s) @ new"
  shows "taken (map fst new) s (with_recorder env r s)" and "me_recorder (with_recorder env r s) = r"
proof -
  let ?s1 = "fold (\<lambda>(f, mode). onRecordingComplete env f mode) new (s\<lparr>me_recorder := r\<rparr>)"
  have "taken (map fst new) s ?s1"
    using fold_complete [of new "s\<lparr>me_recorder := r\<rparr>" env] by (simp add: taken_def)
  moreover have "with_recorder env r s = fold onRecordingEmpty (drop (length (rc_empty (me_recorder s))) (rc_empty r)) ?s1"
    using assms by (simp add: with_recorder_def Let_def)
  ultimately show "taken (map fst new) s (with_recorder env r s)" and "me_recorder (with_recorder env r s) = r"
    using fold_empty [of ?s1 "drop (length (rc_empty (me_recorder s))) (rc_empty r)"]
      taken_trans [of "map fst new" s ?s1 "[]"] fold_complete [of new "s\<lparr>me_recorder := r\<rparr>" env] by simp_all
qed

text \<open>The recorder only adds to what it completed.\<close>

lemma timer_completed [simp]: "rc_completed (cleanupTimer r) = rc_completed r"
  by (simp add: cleanupTimer_def split: option.split)

lemma start_completed [simp]: "rc_completed (startRecording b r) = rc_completed r"
  by (simp add: startRecording_def Let_def)

lemma cancel_completed [simp]: "rc_completed (resetRecording r) = rc_completed r"
  by (simp add: resetRecording_def)

lemma stop_completed [simp]: "rc_completed (snd (stopRecording mode r)) = rc_completed r"
  by (simp add: stopRecording_def Let_def split: option.split)

lemma failed_completed [simp]: "rc_completed (start_failed q d r) = rc_completed r"
  by (simp add: start_failed_def)

lemma events_completed [simp]:
  "rc_completed (on_tick now r) = rc_completed r" "rc_completed (on_data chunk k r) = rc_completed r"
  "rc_completed (on_denied d q r) = rc_completed r"
  by (simp_all add: on_tick_def on_data_def on_denied_def split: option.split)

lemma stream_completed [simp]: "rc_completed (on_stream its c_ok s_ok now q r) = rc_completed r"
  by (simp add: on_stream_def Let_def stop_tracks_def)

lemma browser_completed: "\<exists>new. rc_completed (browser_step env e r) = rc_completed r @ new"
proof -
  have "\<exists>new. rc_completed (on_stop now lt url k r) = rc_completed r @ new" for now lt url k
    by (simp add: on_stop_def Let_def)
  then show ?thesis by (cases e) (simp_all add: browser_step_def browser_event_def Let_def)
qed

lemma take_drop_mset: "i < length xs \<Longrightarrow> mset xs = add_mset (xs ! i) (mset (take i xs @ drop (Suc i) xs))"
  by (subst id_take_nth_drop [of i xs]) simp_all

text \<open>An answer files its recording, or writes its text where there is an editor.\<close>

lemma answer_waiting:
  assumes "i < length (me_waiting s)"
  shows "mset (me_waiting s) = add_mset (me_waiting s ! i) (mset (me_waiting (transcription_answered env i answer s)))"
  using take_drop_mset [OF assms] assms
  by (simp add: transcription_answered_def close_panel_def addLocalFile_def insertTranscribedText_def Let_def split: sum.split)

lemma answer_filed:
  assumes "i < length (me_waiting s)" and "case answer of Inl _ \<Rightarrow> True | Inr raw \<Rightarrow> trim raw = []"
  shows "files (transcription_answered env i answer s) = files s @ [me_waiting s ! i]"
  using assms
  by (auto simp: transcription_answered_def close_panel_def addLocalFile_def me_dispatch_store Let_def split: sum.splits)

lemma answer_written:
  assumes "i < length (me_waiting s)" and "trim raw \<noteq> []"
  shows "files (transcription_answered env i (Inr raw) s) = files s"
    and "content (transcription_answered env i (Inr raw) s)
      = (if me_handle s then ev_insert env (trim raw) (content s) else content s)"
  using assms by (simp_all add: transcription_answered_def close_panel_def insertTranscribedText_def me_dispatch_store Let_def)

lemma answer_recorder: "me_recorder (transcription_answered env i answer s) = me_recorder s"
  by (simp add: transcription_answered_def close_panel_def addLocalFile_def insertTranscribedText_def Let_def split: sum.split)

lemma effects_fields [simp]:
  "me_recorder (error_effect s) = me_recorder s" "me_waiting (error_effect s) = me_waiting s" "me_editor (error_effect s) = me_editor s"
  "me_recorder (busy_effect env b s) = me_recorder s" "me_waiting (busy_effect env b s) = me_waiting s"
  "files (busy_effect env b s) = files s" "content (busy_effect env b s) = content s"
  by (simp_all add: error_effect_def busy_effect_def me_dispatch_store)

lemma step_fields:
  "me_recorder (editor_step env s e) = me_recorder (handle_event env s e)" "me_waiting (editor_step env s e) = me_waiting (handle_event env s e)"
  "files (editor_step env s e) = files (handle_event env s e)" "content (editor_step env s e) = content (handle_event env s e)"
  by (simp_all add: editor_step_def)

text \<open>The events that touch neither the waiting recordings nor what the recorder completed.\<close>

lemma handle_settles:
  assumes "\<And>b. e \<noteq> Browser b" and "\<And>i a. e \<noteq> Transcribed i a"
  shows "me_waiting (handle_event env s e) = me_waiting s
    \<and> rc_completed (me_recorder (handle_event env s e)) = rc_completed (me_recorder s)"
proof (cases e)
  case Panel_Transcribe
  then show ?thesis using stop_completed [of Transcribe "me_recorder s"]
    by (cases "stopRecording Transcribe (me_recorder s)") (simp add: handle_event_def handleTranscribeAudioRecording_def)
next
  case Save_Click
  then show ?thesis by (auto simp: handle_event_def split: option.split prod.split)
qed (use assms in \<open>simp_all add: handle_event_def mic_click_def handleStartAudioRecording_def handleCancelAudioRecording_def save_answered_def
    split: save_end.split\<close>)

text \<open>One step: what is completed in it, or waited before it, is filed or written in it, or waits after it.\<close>

lemma step_accounted:
  fixes s e env
  defines "s' \<equiv> editor_step env s e"
  shows "mset (map fst (rc_completed (me_recorder s'))) + mset (me_waiting s)
    = mset (map fst (rc_completed (me_recorder s))) + mset (me_waiting s') + mset (filed s e s') + mset (map fst (transcripts s e s'))"
proof (cases e)
  case (Browser b)
  obtain new where new: "rc_completed (browser_step env b (me_recorder s)) = rc_completed (me_recorder s) @ new"
    using browser_completed by blast
  from with_recorder_taken [OF new, of env] obtain added where
    "files s' = files s @ added" "mset (map fst new) + mset (me_waiting s) = mset added + mset (me_waiting s')"
    "me_recorder s' = browser_step env b (me_recorder s)"
    by (auto simp: taken_def s'_def step_fields Browser handle_event_def)
  then show ?thesis using new by (simp add: Browser filed_def transcripts_def ac_simps)
next
  case (Transcribed i answer)
  have rec: "me_recorder s' = me_recorder s" by (simp add: s'_def step_fields Transcribed handle_event_def answer_recorder)
  show ?thesis
  proof (cases "i < length (me_waiting s)")
    case True
    have w: "mset (me_waiting s) = add_mset (me_waiting s ! i) (mset (me_waiting s'))"
      using answer_waiting [OF True] by (simp add: s'_def step_fields Transcribed handle_event_def)
    show ?thesis
    proof (cases "case answer of Inl _ \<Rightarrow> True | Inr raw \<Rightarrow> trim raw = []")
      case blank: True
      have "files s' = files s @ [me_waiting s ! i]"
        using answer_filed [OF True blank] by (simp add: s'_def step_fields Transcribed handle_event_def)
      then show ?thesis using w rec blank by (auto simp: Transcribed filed_def transcripts_def split: sum.splits)
    next
      case False
      then obtain raw where raw: "answer = Inr raw" "trim raw \<noteq> []" by (cases answer) auto
      have "files s' = files s"
        using answer_written(1) [OF True raw(2)] by (simp add: s'_def step_fields Transcribed raw handle_event_def)
      then show ?thesis using w rec raw True by (simp add: Transcribed filed_def transcripts_def)
    qed
  next
    case False
    then have "handle_event env s e = s" by (simp add: Transcribed handle_event_def transcription_answered_def)
    then show ?thesis using False
      by (simp add: s'_def step_fields) (simp add: Transcribed filed_def transcripts_def step_fields handle_event_def transcription_answered_def split: sum.split)
  qed
qed (use handle_settles [of e env s] in \<open>simp_all add: s'_def step_fields filed_def transcripts_def\<close>)

lemma accounts_add:
  fixes c0 c1 c2 :: "'a multiset"
  assumes "c1 + w0 = c0 + w1 + f + t" and "c2 + w1 = c1 + w2 + f' + t'"
  shows "c2 + w0 = c0 + w2 + (f + f') + (t + t')"
proof -
  have "(c2 + w0) + (c1 + w1) = (c1 + w0) + (c2 + w1)" by (simp add: ac_simps)
  also have "\<dots> = (c0 + w1 + f + t) + (c1 + w2 + f' + t')" by (simp only: assms)
  also have "\<dots> = (c0 + w2 + (f + f') + (t + t')) + (c1 + w1)" by (simp add: ac_simps)
  finally show ?thesis by (rule add_right_imp_eq)
qed

lemma run_accounted:
  "mset (map fst (rc_completed (me_recorder (foldl (editor_step env) s es)))) + mset (me_waiting s)
    = mset (map fst (rc_completed (me_recorder s))) + mset (me_waiting (foldl (editor_step env) s es))
      + mset (along filed env s es) + mset (map fst (along transcripts env s es))"
proof (induction es arbitrary: s)
  case (Cons e es)
  show ?case
    using accounts_add [OF step_accounted [of env s e] Cons.IH [of "editor_step env s e"]] by simp
qed simp

text \<open>A transcript with a text is inserted where there is an editor.\<close>

definition inserted :: "editor_env \<Rightarrow> local_file \<times> string \<times> memo_editor \<times> memo_editor \<Rightarrow> bool" where
  "inserted env x =
     (let (f, t, before, after) = x in
      content after = (if me_handle before then ev_insert env t (content before) else content before))"

lemma run_inserted: "list_all (inserted env) (along transcripts env s es)"
proof (induction es arbitrary: s)
  case (Cons e es)
  have "list_all (inserted env) (transcripts s e (editor_step env s e))"
    by (auto simp: transcripts_def inserted_def step_fields handle_event_def answer_written split: editor_event.split sum.split)
  then show ?case using Cons.IH by simp
qed simp

section \<open>The panel and the check before a save\<close>

definition is_saving :: "memo_editor \<Rightarrow> bool" where
  "is_saving s \<longleftrightarrow> ld_saving (ui_isLoading (es_ui (ed_state (me_editor s))))"

definition store_busy :: "memo_editor \<Rightarrow> bool" where
  "store_busy s \<longleftrightarrow> es_recorderBusy (ed_state (me_editor s))"

text \<open>
  What the user must refrain from: starting a recording while a save or a transcription is under way. The other
  parts of the editor dispatch neither a reset nor the recorder's flag nor that of a save.
\<close>

definition own_action :: "editor_action \<Rightarrow> bool" where
  "own_action a \<longleftrightarrow> (case a of RESET \<Rightarrow> True | SET_RECORDER_BUSY _ \<Rightarrow> True | SET_LOADING Saving _ \<Rightarrow> True | _ \<Rightarrow> False)"

definition careful :: "memo_editor \<Rightarrow> editor_event \<Rightarrow> bool" where
  "careful s e \<longleftrightarrow>
     (case e of
        Mic_Click \<Rightarrow> \<not> is_saving s \<and> me_waiting s = []
      | Action a \<Rightarrow> \<not> own_action a
      | Browser b \<Rightarrow> benign b
      | _ \<Rightarrow> True)"

fun careful_run :: "editor_env \<Rightarrow> memo_editor \<Rightarrow> editor_event list \<Rightarrow> bool" where
  "careful_run env s [] = True"
| "careful_run env s (e # es) = (careful s e \<and> careful_run env (editor_step env s e) es)"

definition guarded :: "memo_editor \<Rightarrow> bool" where
  "guarded s \<longleftrightarrow> rec_inv (me_recorder s) \<and> store_busy s = isBusy (me_recorder s)
     \<and> (isBusy (me_recorder s) \<longrightarrow> me_open s \<and> \<not> is_saving s \<and> me_waiting s = [])"

lemma dispatch_flags:
  "\<not> own_action a \<Longrightarrow> store_busy (me_dispatch env a s) = store_busy s" "\<not> own_action a \<Longrightarrow> is_saving (me_dispatch env a s) = is_saving s"
  "store_busy (me_dispatch env (SET_RECORDER_BUSY b) s) = b" "is_saving (me_dispatch env (SET_RECORDER_BUSY b) s) = is_saving s"
  "store_busy (me_dispatch env (SET_LOADING k v) s) = store_busy s"
  by (cases a; simp add: own_action_def store_busy_def is_saving_def me_dispatch_def ed_dispatch_def editorReducer_def set_loading_def
      Let_def split: loading_key.splits)+

lemma toast_flags [simp]: "store_busy (toast_editor t s) = store_busy s" "is_saving (toast_editor t s) = is_saving s"
  by (simp_all add: store_busy_def is_saving_def)

lemma update_flags [simp]:
  "store_busy (s\<lparr>me_recorder := r\<rparr>) = store_busy s" "is_saving (s\<lparr>me_recorder := r\<rparr>) = is_saving s"
  "store_busy (s\<lparr>me_open := b\<rparr>) = store_busy s" "is_saving (s\<lparr>me_open := b\<rparr>) = is_saving s"
  "store_busy (s\<lparr>me_transcribing := b\<rparr>) = store_busy s" "is_saving (s\<lparr>me_transcribing := b\<rparr>) = is_saving s"
  "store_busy (s\<lparr>me_waiting := w\<rparr>) = store_busy s" "is_saving (s\<lparr>me_waiting := w\<rparr>) = is_saving s"
  "store_busy (s\<lparr>me_ai := ai\<rparr>) = store_busy s" "is_saving (s\<lparr>me_ai := ai\<rparr>) = is_saving s"
  "store_busy (s\<lparr>me_handle := b\<rparr>) = store_busy s" "is_saving (s\<lparr>me_handle := b\<rparr>) = is_saving s"
  by (simp_all add: store_busy_def is_saving_def)

lemma local_file_flags [simp]: "store_busy (addLocalFile env f s) = store_busy s" "is_saving (addLocalFile env f s) = is_saving s"
  by (simp_all add: addLocalFile_def dispatch_flags own_action_def)

lemma callback_flags:
  "store_busy (onRecordingComplete env f mode s) = store_busy s" "is_saving (onRecordingComplete env f mode s) = is_saving s"
  "store_busy (onRecordingEmpty mode s) = store_busy s" "is_saving (onRecordingEmpty mode s) = is_saving s"
  by (simp_all add: onRecordingComplete_def handleTranscribeRecordedAudio_def close_panel_def onRecordingEmpty_def)

lemma fold_flags:
  "store_busy (fold (\<lambda>(f, mode). onRecordingComplete env f mode) cs s) = store_busy s
   \<and> is_saving (fold (\<lambda>(f, mode). onRecordingComplete env f mode) cs s) = is_saving s"
  "store_busy (fold onRecordingEmpty ms s) = store_busy s \<and> is_saving (fold onRecordingEmpty ms s) = is_saving s"
proof -
  show "store_busy (fold (\<lambda>(f, mode). onRecordingComplete env f mode) cs s) = store_busy s
   \<and> is_saving (fold (\<lambda>(f, mode). onRecordingComplete env f mode) cs s) = is_saving s"
  proof (induction cs arbitrary: s)
    case (Cons c cs)
    show ?case using Cons.IH [of "onRecordingComplete env (fst c) (snd c) s"] by (cases c) (simp add: callback_flags)
  qed simp
  show "store_busy (fold onRecordingEmpty ms s) = store_busy s \<and> is_saving (fold onRecordingEmpty ms s) = is_saving s"
  proof (induction ms arbitrary: s)
    case (Cons m ms)
    show ?case using Cons.IH [of "onRecordingEmpty m s"] by (simp add: callback_flags)
  qed simp
qed

text \<open>A recorder that is busy after an event of the browser was busy before, and completed nothing.\<close>

lemma browser_rec_inv:
  assumes "rec_inv r" and "ev_supported env" and "benign e"
  shows "rec_inv (browser_step env e r)"
proof (cases "browser_event e")
  case True
  show ?thesis
  proof (cases "rec_exec (ev_supported env) (ev_isTypeSupported env) r [e]")
    case (Some r')
    then have "rec_run True (ev_isTypeSupported env) r [e] r'" using rec_exec_run assms(2) by metis
    then have "rec_step True (ev_isTypeSupported env) r e r'" by (auto simp del: rec_step_simps)
    then show ?thesis using rec_step_inv assms(1,3) Some True by (simp add: browser_step_def)
  qed (simp add: browser_step_def assms(1))
qed (simp add: browser_step_def assms(1))

lemma stream_busy:
  assumes "rec_inv r" and "q \<in> set (rc_pending r)" and "isBusy (on_stream its c_ok s_ok now q r)"
  shows "isBusy r"
proof (cases "rc_requestId r = q")
  case True
  then show ?thesis using inv_waiting [OF assms(1)] assms(2) by (simp add: isBusy_def)
next
  case False
  then show ?thesis using assms(3) by (simp add: on_stream_def Let_def stop_tracks_def isBusy_def)
qed

lemma denied_busy: "isBusy (on_denied d q r) \<Longrightarrow> isBusy r"
  by (auto simp: on_denied_def start_failed_def isBusy_def split: if_splits)

lemma stop_busy:
  "isBusy (on_stop now lt url k r) \<Longrightarrow>
     isBusy r \<and> rc_completed (on_stop now lt url k r) = rc_completed r \<and> rc_empty (on_stop now lt url k r) = rc_empty r"
  by (auto simp: on_stop_def Let_def isBusy_def split: if_splits)

lemma empty_kept:
  "rc_empty (on_stream its c_ok s_ok now q r) = rc_empty r" "rc_empty (on_denied d q r) = rc_empty r"
  "rc_empty (on_data chunk k r) = rc_empty r" "rc_empty (on_tick now r) = rc_empty r"
  by (simp_all add: on_stream_def start_failed_def stop_tracks_def on_denied_def on_data_def on_tick_def Let_def split: option.split)

lemma quiet_busy: "isBusy (on_data chunk k r) = isBusy r" "isBusy (on_tick now r) = isBusy r"
  by (simp_all add: on_data_def on_tick_def isBusy_def split: option.split)

lemma browser_busy:
  assumes "rec_inv r" and "isBusy (browser_step env e r)"
  shows "isBusy r \<and> rc_completed (browser_step env e r) = rc_completed r \<and> rc_empty (browser_step env e r) = rc_empty r"
proof (cases e)
  case (Stream c_ok s_ok now q)
  then show ?thesis using assms stream_busy [OF assms(1), of q] by (auto simp: browser_step_def browser_event_def empty_kept Let_def split: if_splits)
next
  case (Denied d q)
  then show ?thesis using assms denied_busy [of d q r] by (auto simp: browser_step_def browser_event_def empty_kept Let_def split: if_splits)
next
  case (Stop_Fired now lt url k)
  then show ?thesis using assms stop_busy [of now lt url k r] by (auto simp: browser_step_def browser_event_def Let_def split: if_splits)
qed (use assms in \<open>simp_all add: browser_step_def browser_event_def empty_kept quiet_busy Let_def split: if_splits\<close>)

text \<open>The effects bring the flag of the store up to date, and close the panel only on an error.\<close>

lemma effects_guard:
  assumes "rec_inv (me_recorder t)" and "store_busy t = isBusy (me_recorder s)"
    and "isBusy (me_recorder t) \<Longrightarrow> me_open t \<and> \<not> is_saving t \<and> me_waiting t = []"
  shows "guarded (error_effect (busy_effect env s t))"
proof -
  have "guarded (busy_effect env s t)"
    using assms by (simp add: guarded_def busy_effect_def dispatch_flags)
  then show ?thesis by (auto simp: guarded_def error_effect_def isBusy_def)
qed

lemma saved_flags:
  assumes "vr_valid (canSave (ed_state (me_editor s)))"
  shows "\<not> store_busy s"
  using assms by (simp add: canSave_iff store_busy_def)

lemma reset_flags: "es_recorderBusy (ed_state (MemoService.save_succeeded ls key mn vis ct ed)) = False"
  by (simp add: MemoService.save_succeeded_def ed_dispatch_def editorReducer_def createInitialState_def defaultState_def Let_def
      split: option.split)

lemma guarded_step:
  assumes g: "guarded s" and c: "careful s e" and sup: "ev_supported env"
  shows "guarded (editor_step env s e)"
proof -
  have inv: "rec_inv (me_recorder s)" and store: "store_busy s = isBusy (me_recorder s)"
    and busy: "isBusy (me_recorder s) \<Longrightarrow> me_open s \<and> \<not> is_saving s \<and> me_waiting s = []"
    using g by (simp_all add: guarded_def)
  let ?t = "handle_event env s e"
  have "rec_inv (me_recorder ?t) \<and> store_busy ?t = isBusy (me_recorder s)
     \<and> (isBusy (me_recorder ?t) \<longrightarrow> me_open ?t \<and> \<not> is_saving ?t \<and> me_waiting ?t = [])"
  proof (cases e)
    case Mic_Click
    have "rec_inv (handleAudioRecorderClick True (me_recorder s))" using click_inv [OF inv] .
    then show ?thesis using Mic_Click c store busy inv sup
      by (auto simp: handle_event_def mic_click_def handleStartAudioRecording_def careful_def handleAudioRecorderClick_def)
  next
    case Panel_Cancel
    then show ?thesis using cancel_click_inv [OF inv] inv store busy
      by (simp add: handle_event_def handleCancelAudioRecording_def resetRecording_def isBusy_def)
  next
    case Panel_Stop
    have "isBusy (snd (stopRecording Attach (me_recorder s))) = isBusy (me_recorder s)"
      by (simp add: stopRecording_def cleanupTimer_def isBusy_def Let_def split: option.split)
    then show ?thesis using Panel_Stop stop_click_inv [OF inv] inv store busy by (simp add: handle_event_def)
  next
    case Panel_Transcribe
    have "isBusy (snd (stopRecording Transcribe (me_recorder s))) = isBusy (me_recorder s)"
      by (simp add: stopRecording_def cleanupTimer_def isBusy_def Let_def split: option.split)
    then show ?thesis using Panel_Transcribe stop_click_inv [OF inv, of Transcribe] inv store busy
      by (cases "stopRecording Transcribe (me_recorder s)") (simp add: handle_event_def handleTranscribeAudioRecording_def)
  next
    case (Browser b)
    let ?r = "browser_step env b (me_recorder s)"
    have ri: "rec_inv ?r" using browser_rec_inv [OF inv sup] c Browser by (simp add: careful_def)
    have same: "with_recorder env ?r s = s\<lparr>me_recorder := ?r\<rparr>" "isBusy (me_recorder s)" if "isBusy ?r"
      using browser_busy [OF inv that] by (simp_all add: with_recorder_def)
    show ?thesis
    proof (cases "isBusy ?r")
      case True
      then show ?thesis using same busy store ri Browser by (simp add: handle_event_def)
    next
      case False
      then show ?thesis using ri store Browser
        by (simp add: handle_event_def with_recorder_def Let_def fold_flags fold_complete fold_empty)
    qed
  next
    case (Transcribed i answer)
    show ?thesis
    proof (cases "i < length (me_waiting s)")
      case True
      then have "\<not> isBusy (me_recorder s)" using busy by auto
      then show ?thesis using Transcribed inv store
        by (auto simp: handle_event_def transcription_answered_def close_panel_def insertTranscribedText_def addLocalFile_def dispatch_flags
            own_action_def Let_def split: sum.split)
    next
      case False
      then show ?thesis using Transcribed inv store busy by (simp add: handle_event_def transcription_answered_def)
    qed
  next
    case (Action a)
    then show ?thesis using c inv store busy by (simp add: handle_event_def careful_def dispatch_flags)
  next
    case Save_Click
    then show ?thesis using inv store busy saved_flags [of s]
      by (auto simp: handle_event_def save_begin_def store_busy_def ed_dispatch_def editorReducer_def Let_def)
  next
    case (Save_Answer ending)
    show ?thesis
    proof (cases "is_saving s")
      case True
      then have "\<not> isBusy (me_recorder s)" using busy by auto
      then show ?thesis using Save_Answer inv store True
        by (cases ending) (simp_all add: handle_event_def save_answered_def is_saving_def reset_flags store_busy_def [of "s\<lparr>me_editor := e\<rparr>" for e]
            dispatch_flags)
    next
      case False
      then show ?thesis using Save_Answer inv store busy by (simp add: handle_event_def save_answered_def is_saving_def)
    qed
  qed (use inv store busy in \<open>simp_all add: handle_event_def\<close>)
  then show ?thesis unfolding editor_step_def by (intro effects_guard) blast+
qed

lemma guarded_run: "guarded s \<Longrightarrow> careful_run env s es \<Longrightarrow> ev_supported env \<Longrightarrow> guarded (foldl (editor_step env) s es)"
  by (induction es arbitrary: s) (simp_all add: guarded_step)

section \<open>Properties\<close>

text \<open>C36: No recording is lost between its completion and the memo: after any events, every recording the recorder
  completed is exactly once among the files that the step of its completion or of an answer added to the memo's files,
  or waiting for its transcription, or has a transcript that is not blank; and the answer with such a transcript changed
  the text of the memo to the one with the transcript inserted, unless the editor's handle was missing, when it is
  dropped.
\<close>

theorem recordings_accounted:
  "let s0 = editor_mount env ai ed; s = foldl (editor_step env) s0 es in
   mset (map fst (rc_completed (me_recorder s)))
     = mset (me_waiting s) + mset (along filed env s0 es) + mset (map fst (along transcripts env s0 es))
   \<and> list_all (\<lambda>(f, t, before, after).
        content after = (if me_handle before then ev_insert env t (content before) else content before))
      (along transcripts env s0 es)"
  using run_accounted [of env "editor_mount env ai ed" es] run_inserted [of env "editor_mount env ai ed" es]
  by (simp add: editor_mount_def recorder_init_def inserted_def [abs_def] Let_def)

text \<open>An editor without drafts in local storage, an AI setting with a transcriber, and a recording that is transcribed.\<close>

definition sample_env :: editor_env where
  "sample_env = \<lparr>ev_storage = None, ev_key = ''u-'', ev_memoName = None, ev_defaultVisibility = None, ev_defaultCreateTime = None,
     ev_supported = True, ev_isTypeSupported = (\<lambda>t. True), ev_insert = (\<lambda>t c. c @ t)\<rparr>"

definition sample_ai :: ai_setting where
  "sample_ai = \<lparr>as_providers = [\<lparr>ap_id = ''p'', ap_title = ''P'', ap_type = OPENAI, ap_endpoint = [], ap_apiKey = [], ap_apiKeySet = True,
       ap_apiKeyHint = []\<rparr>],
     as_transcription = Some \<lparr>tc_providerId = ''p'', tc_model = [], tc_language = [], tc_prompt = []\<rparr>\<rparr>"

definition sample_editor :: editor where
  "sample_editor = \<lparr>ed_state = defaultState, ed_auto = \<lparr>as_latest = [], as_discarded = None, as_cache = empty_cache\<rparr>,
     ed_initialized = True\<rparr>"

definition sample_recording :: "editor_event list" where
  "sample_recording = [Mic_Click, Browser (Stream True True 1000 1), Browser (Data [1, 2] 0), Panel_Transcribe,
     Browser (Stop_Fired 4000 (local_time.make 2024 0 1 2 3 4) ''blob:1'' 0), Transcribed 0 (Inr '' hi '')]"

abbreviation sample_run :: "editor_event list \<Rightarrow> memo_editor" where
  "sample_run es \<equiv> foldl (editor_step sample_env) (editor_mount sample_env sample_ai sample_editor) es"

lemma sample_recording_inserted:
  "content (sample_run sample_recording) = ''hi'' \<and> files (sample_run sample_recording) = []
   \<and> length (rc_completed (me_recorder (sample_run sample_recording))) = 1
   \<and> map (\<lambda>f. f_bytes (lf_file f)) (files (sample_run (butlast sample_recording @ [Transcribed 0 (Inr '' '')]))) = [[1, 2]]"
  by code_simp

text \<open>C37: As long as no recording is started while a save or a transcription is under way, a busy recorder can always be
  seen and blocks the save: its panel is shown and the save button is disabled.
\<close>

theorem recording_guarded:
  assumes "ev_supported env" and "\<not> es_recorderBusy (ed_state ed)" and "careful_run env (editor_mount env ai ed) es"
    and "isBusy (me_recorder (foldl (editor_step env) (editor_mount env ai ed) es))"
  shows "let s = foldl (editor_step env) (editor_mount env ai ed) es in panel_shown s \<and> \<not> vr_valid (canSave (ed_state (me_editor s)))"
proof -
  have "guarded (editor_mount env ai ed)"
    using assms(1,2) init_inv by (simp add: guarded_def editor_mount_def store_busy_def isBusy_def recorder_init_def)
  then have "guarded (foldl (editor_step env) (editor_mount env ai ed) es)" using guarded_run assms(1,3) by blast
  then show ?thesis using assms(4) by (simp add: guarded_def panel_shown_def canSave_iff store_busy_def Let_def)
qed

theorem recording_guarded_witness:
  "panel_shown (sample_run (take 3 sample_recording)) \<and> \<not> vr_valid (canSave (ed_state (me_editor (sample_run (take 3 sample_recording)))))"
proof -
  have c: "careful_run sample_env (editor_mount sample_env sample_ai sample_editor) (take 3 sample_recording)" by code_simp
  have b: "isBusy (me_recorder (sample_run (take 3 sample_recording)))" by code_simp
  have "ev_supported sample_env" "\<not> es_recorderBusy (ed_state sample_editor)"
    by (simp_all add: sample_env_def sample_editor_def defaultState_def)
  from recording_guarded [OF this c b] show ?thesis by (simp add: Let_def)
qed

text \<open>
  The conditions are needed. A recording started while another waits for its transcription loses its panel to the
  answer, and no click brings it back: the microphone stays on unseen.
\<close>

lemma hidden_recording:
  assumes "isBusy (me_recorder s)" and "i < length (me_waiting s)"
  shows "let s' = editor_step env (editor_step env s (Transcribed i answer)) Mic_Click in isBusy (me_recorder s') \<and> \<not> panel_shown s'"
proof -
  let ?t = "editor_step env s (Transcribed i answer)"
  have t: "isBusy (me_recorder ?t)" "\<not> me_open ?t"
    using assms by (auto simp: editor_step_def handle_event_def transcription_answered_def close_panel_def insertTranscribedText_def
        addLocalFile_def busy_effect_def error_effect_def Let_def split: sum.split)
  then have "editor_step env ?t Mic_Click = ?t"
    by (simp add: editor_step_def [of env ?t] handle_event_def mic_click_def busy_effect_def error_effect_def)
  then show ?thesis using t by (simp add: panel_shown_def)
qed

theorem hidden_recording_witness:
  "let s = sample_run (butlast sample_recording @ [Mic_Click, Browser (Stream True True 5000 2), Transcribed 0 (Inr ''hi''), Mic_Click]) in
   isBusy (me_recorder s) \<and> \<not> panel_shown s"
proof -
  let ?s = "sample_run (butlast sample_recording @ [Mic_Click, Browser (Stream True True 5000 2)])"
  have "isBusy (me_recorder ?s)" "0 < length (me_waiting ?s)" by code_simp+
  from hidden_recording [OF this, where env = sample_env and answer = "Inr ''hi''"] show ?thesis by simp
qed

text \<open>The reset after a save clears the store's flag, not the recorder started during the save: the next save is not held back by it.\<close>

lemma save_clears_busy:
  assumes "isBusy (me_recorder s)" and "is_saving s"
  shows "let s' = editor_step env s (Save_Answer Save_Done) in isBusy (me_recorder s') \<and> \<not> store_busy s'"
  using assms by (simp add: editor_step_def handle_event_def save_answered_def is_saving_def busy_effect_def error_effect_def store_busy_def
      reset_flags isBusy_def Let_def)

text \<open>A transcript that finds no editor is dropped with a message of success; its recording is not attached either.\<close>

lemma transcript_dropped:
  assumes "\<not> me_handle s" and "i < length (me_waiting s)" and "trim t \<noteq> []"
  shows "let s' = handle_event env s (Transcribed i (Inr t)) in
    me_editor s' = me_editor s \<and> me_waiting s' = take i (me_waiting s) @ drop (Suc i) (me_waiting s)
    \<and> me_toasts s' = me_toasts s @ [Toast_Success ''editor.audio-recorder.transcribe-success'']"
  using assms by (simp add: handle_event_def transcription_answered_def close_panel_def insertTranscribedText_def toast_editor_def Let_def)

text \<open>A transcription under way does not hold back a save: its text arrives in the emptied editor, not in the memo it was recorded for.\<close>

lemma saved_content: "es_content (ed_state (MemoService.save_succeeded ls key mn vis ct ed)) = []"
  by (simp add: MemoService.save_succeeded_def ed_dispatch_def editorReducer_def createInitialState_def defaultState_def Let_def
      split: option.split)

lemma transcript_after_save:
  assumes "is_saving s" and "me_handle s" and "me_waiting s = [f]" and "trim t \<noteq> []" and "\<not> isBusy (me_recorder s)"
  shows "es_content (ed_state (me_editor (foldl (editor_step env) s [Save_Answer Save_Done, Transcribed 0 (Inr t)]))) = ev_insert env (trim t) []"
proof -
  have err: "me_editor (error_effect x) = me_editor x" for x by (simp add: error_effect_def)
  have quiet: "busy_effect env x y = y" if "me_recorder y = me_recorder x" for x y using that by (simp add: busy_effect_def)
  let ?s1 = "editor_step env s (Save_Answer Save_Done)"
  have s1: "es_content (ed_state (me_editor ?s1)) = []" "me_handle ?s1" "me_waiting ?s1 = [f]"
    using assms by (simp_all add: editor_step_def handle_event_def save_answered_def is_saving_def error_effect_def quiet saved_content)
  have "me_recorder (handle_event env ?s1 (Transcribed 0 (Inr t))) = me_recorder ?s1"
    using s1 assms(4) by (simp add: handle_event_def transcription_answered_def close_panel_def insertTranscribedText_def Let_def)
  then show ?thesis using s1 assms(4)
    by (simp add: editor_step_def [of env ?s1] err quiet handle_event_def transcription_answered_def close_panel_def insertTranscribedText_def
        me_dispatch_def ed_dispatch_def editorReducer_def Let_def)
qed

end
