(* ===== verification/QueryKeys.thy ===== *)
theory QueryKeys
  imports Queries "HOL-Library.List_Lexorder" "HOL-Library.Char_ord"
begin

text \<open>
  The keys under which the client caches its queries (\<^verbatim>\<open>hooks/useMemoQueries.ts\<close>,
  \<^verbatim>\<open>useUserQueries.ts\<close>, \<^verbatim>\<open>useAttachmentQueries.ts\<close>, \<^verbatim>\<open>useMemoShareQueries.ts\<close>,
  \<^verbatim>\<open>useInstanceQueries.ts\<close>), the requests the queries send, and the mutations of users and
  attachments over the query client of \<^verbatim>\<open>Queries\<close>.
\<close>

section \<open>Keys\<close>

definition userKeys_details :: query_key where
  "userKeys_details = userKeys_all @ [Key ''detail'']"

definition userKeys_detail :: "string \<Rightarrow> query_key" where
  "userKeys_detail name = userKeys_details @ [Key name]"

definition userKeys_userStats :: "string \<Rightarrow> query_key" where
  "userKeys_userStats name = userKeys_stats @ [Key name]"

definition userKeys_allUserStats :: "json \<Rightarrow> query_key" where
  "userKeys_allUserStats request = userKeys_stats @ [Key ''all'', Key_Json request]"

definition userKeys_currentUser :: query_key where
  "userKeys_currentUser = userKeys_all @ [Key ''current'']"

definition userKeys_shortcuts :: query_key where
  "userKeys_shortcuts = userKeys_all @ [Key ''shortcuts'']"

definition userKeys_notifications :: query_key where
  "userKeys_notifications = userKeys_all @ [Key ''notifications'']"

definition userKeys_byNames :: "string list \<Rightarrow> query_key" where
  "userKeys_byNames names = userKeys_all @ Key ''byNames'' # map Key (sort names)"

definition userKeys_byUsernames :: "string list \<Rightarrow> query_key" where
  "userKeys_byUsernames usernames = userKeys_all @ Key ''byUsernames'' # map Key (sort usernames)"

definition attachmentKeys_all :: query_key where
  "attachmentKeys_all = [Key ''attachments'']"

definition attachmentKeys_lists :: query_key where
  "attachmentKeys_lists = attachmentKeys_all @ [Key ''list'']"

definition attachmentKeys_list :: "json \<Rightarrow> query_key" where
  "attachmentKeys_list filters = attachmentKeys_lists @ [Key_Json filters]"

definition attachmentKeys_details :: query_key where
  "attachmentKeys_details = attachmentKeys_all @ [Key ''detail'']"

definition attachmentKeys_detail :: "string \<Rightarrow> query_key" where
  "attachmentKeys_detail name = attachmentKeys_details @ [Key name]"

definition memoShareKeys_all :: query_key where
  "memoShareKeys_all = [Key ''memo-shares'']"

definition memoShareKeys_list :: "string \<Rightarrow> query_key" where
  "memoShareKeys_list memoName = memoShareKeys_all @ [Key ''list'', Key memoName]"

definition memoShareKeys_byShare :: "string \<Rightarrow> query_key" where
  "memoShareKeys_byShare shareId = memoShareKeys_all @ [Key ''by-share'', Key shareId]"

definition instanceKeys_all :: query_key where
  "instanceKeys_all = [Key ''instance'']"

definition instanceKeys_profile :: query_key where
  "instanceKeys_profile = instanceKeys_all @ [Key ''profile'']"

definition instanceKeys_settings :: query_key where
  "instanceKeys_settings = instanceKeys_all @ [Key ''settings'']"

definition instanceKeys_setting :: "int \<Rightarrow> query_key" where
  "instanceKeys_setting key = instanceKeys_settings @ [Key_Num key]"

definition instanceKeys_settingsBatch :: "int list \<Rightarrow> query_key" where
  "instanceKeys_settingsBatch keys = instanceKeys_settings @ Key ''batch'' # map Key_Num keys"

definition instanceKeys_stats :: query_key where
  "instanceKeys_stats = instanceKeys_all @ [Key ''stats'']"

section \<open>Queries\<close>

definition DEFAULT_LIST_MEMOS_PAGE_SIZE :: int where
  "DEFAULT_LIST_MEMOS_PAGE_SIZE = 16"

text \<open>
  The calls of the query hooks with the arguments their key depends on. A request object of other
  services is a JSON value; a current user is given by name.
\<close>

datatype client_query =
    Q_Memos list_request
  | Q_InfiniteMemos list_request
  | Q_Memo string
  | Q_LinkMetadata string
  | Q_MemoComments string "int option"
  | Q_InfiniteMemoComments string "int option"
  | Q_User string
  | Q_UserStats "string option"
  | Q_AllUserStats json
  | Q_Shortcuts
  | Q_Notifications "string option"
  | Q_TagCounts bool "string option"
  | Q_UserSettings "string option"
  | Q_ListUsers
  | Q_UsersByNames "string list"
  | Q_UsersByUsernames "string list"
  | Q_Attachments
  | Q_InfiniteAttachments json
  | Q_MemoShares string
  | Q_SharedMemo string
  | Q_InstanceStats
  | Q_InstanceProfile
  | Q_InstanceSetting int
  | Q_InstanceSettings "int list"

definition given_name :: "string option \<Rightarrow> string option" where
  "given_name n = (case n of None \<Rightarrow> None | Some s \<Rightarrow> if s = [] then None else Some s)"

definition page_size :: "int \<Rightarrow> int option \<Rightarrow> int" where
  "page_size d p = (case p of None \<Rightarrow> d | Some n \<Rightarrow> n)"

definition queryKey :: "client_query \<Rightarrow> query_key" where
  "queryKey q =
     (case q of
        Q_Memos request \<Rightarrow> memoKeys_list request
      | Q_InfiniteMemos request \<Rightarrow> memoKeys_list request
      | Q_Memo name \<Rightarrow> memoKeys_detail name
      | Q_LinkMetadata url \<Rightarrow> memoKeys_linkMetadata (trim url)
      | Q_MemoComments name pageSize \<Rightarrow> memoKeys_comments name @ [Key_Num (page_size 0 pageSize)]
      | Q_InfiniteMemoComments name pageSize \<Rightarrow>
          memoKeys_comments name @ [Key ''infinite'', Key_Num (page_size DEFAULT_LIST_MEMOS_PAGE_SIZE pageSize)]
      | Q_User name \<Rightarrow> userKeys_detail name
      | Q_UserStats username \<Rightarrow> (case given_name username of None \<Rightarrow> userKeys_stats | Some n \<Rightarrow> userKeys_userStats n)
      | Q_AllUserStats request \<Rightarrow> userKeys_allUserStats request
      | Q_Shortcuts \<Rightarrow> userKeys_shortcuts
      | Q_Notifications _ \<Rightarrow> userKeys_notifications
      | Q_TagCounts forCurrentUser current \<Rightarrow>
          (case (forCurrentUser, given_name current) of
             (True, Some n) \<Rightarrow> userKeys_userStats n
           | _ \<Rightarrow> userKeys_stats @ [Key ''tagCounts'', Key (if forCurrentUser then ''current'' else ''all'')])
      | Q_UserSettings parent \<Rightarrow>
          userKeys_all @ [Key ''settings'', (case parent of None \<Rightarrow> Key_Json JNull | Some p \<Rightarrow> Key p)]
      | Q_ListUsers \<Rightarrow> userKeys_all
      | Q_UsersByNames names \<Rightarrow> userKeys_byNames (js_uniq names)
      | Q_UsersByUsernames usernames \<Rightarrow> userKeys_byUsernames (js_uniq usernames)
      | Q_Attachments \<Rightarrow> attachmentKeys_lists
      | Q_InfiniteAttachments request \<Rightarrow> attachmentKeys_list request
      | Q_MemoShares memoName \<Rightarrow> memoShareKeys_list memoName
      | Q_SharedMemo shareId \<Rightarrow> memoShareKeys_byShare shareId
      | Q_InstanceStats \<Rightarrow> instanceKeys_stats
      | Q_InstanceProfile \<Rightarrow> instanceKeys_profile
      | Q_InstanceSetting key \<Rightarrow> instanceKeys_setting key
      | Q_InstanceSettings keys \<Rightarrow> instanceKeys_settingsBatch keys)"

section \<open>Requests\<close>

text \<open>What the query function of a query asks the server for; \<open>No_Request\<close> when it asks for nothing.\<close>

datatype api_request =
    No_Request
  | List_Memos list_request
  | List_Memos_Pages list_request
  | Get_Memo string
  | Get_Link_Metadata string
  | List_Comments string int
  | List_Comments_Pages string int
  | Get_User string
  | Get_User_Stats string
  | List_All_User_Stats json
  | Count_All_Tags
  | List_Shortcuts
  | List_Notifications string
  | List_User_Settings string
  | List_Users
  | Get_Users "string set"
  | Batch_Get_Users "string set"
  | List_Attachments
  | List_Attachments_Pages json
  | List_Shares string
  | Get_Memo_By_Share string
  | Get_Instance_Stats
  | Get_Instance_Profile
  | Get_Instance_Setting int
  | Batch_Get_Instance_Settings "int list"

definition for_given :: "(string \<Rightarrow> api_request) \<Rightarrow> string option \<Rightarrow> api_request" where
  "for_given r n = (case given_name n of None \<Rightarrow> No_Request | Some s \<Rightarrow> r s)"

definition query_request :: "client_query \<Rightarrow> api_request" where
  "query_request q =
     (case q of
        Q_Memos request \<Rightarrow> List_Memos request
      | Q_InfiniteMemos request \<Rightarrow> List_Memos_Pages request
      | Q_Memo name \<Rightarrow> Get_Memo name
      | Q_LinkMetadata url \<Rightarrow> Get_Link_Metadata (trim url)
      | Q_MemoComments name pageSize \<Rightarrow> List_Comments name (page_size 0 pageSize)
      | Q_InfiniteMemoComments name pageSize \<Rightarrow> List_Comments_Pages name (page_size DEFAULT_LIST_MEMOS_PAGE_SIZE pageSize)
      | Q_User name \<Rightarrow> Get_User name
      | Q_UserStats username \<Rightarrow> for_given Get_User_Stats username
      | Q_AllUserStats request \<Rightarrow> List_All_User_Stats request
      | Q_Shortcuts \<Rightarrow> List_Shortcuts
      | Q_Notifications current \<Rightarrow> for_given List_Notifications current
      | Q_TagCounts forCurrentUser current \<Rightarrow>
          if forCurrentUser then for_given Get_User_Stats current else Count_All_Tags
      | Q_UserSettings parent \<Rightarrow> for_given List_User_Settings parent
      | Q_ListUsers \<Rightarrow> List_Users
      | Q_UsersByNames names \<Rightarrow> Get_Users (set names)
      | Q_UsersByUsernames usernames \<Rightarrow> Batch_Get_Users (set usernames)
      | Q_Attachments \<Rightarrow> List_Attachments
      | Q_InfiniteAttachments request \<Rightarrow> List_Attachments_Pages request
      | Q_MemoShares memoName \<Rightarrow> List_Shares memoName
      | Q_SharedMemo shareId \<Rightarrow> Get_Memo_By_Share shareId
      | Q_InstanceStats \<Rightarrow> Get_Instance_Stats
      | Q_InstanceProfile \<Rightarrow> Get_Instance_Profile
      | Q_InstanceSetting key \<Rightarrow> Get_Instance_Setting key
      | Q_InstanceSettings keys \<Rightarrow> Batch_Get_Instance_Settings keys)"

lemmas key_defs = memoKeys_all_def memoKeys_lists_def memoKeys_list_def memoKeys_details_def memoKeys_detail_def
  memoKeys_comments_def memoKeys_linkMetadata_def userKeys_all_def userKeys_stats_def userKeys_details_def
  userKeys_detail_def userKeys_userStats_def userKeys_allUserStats_def userKeys_currentUser_def userKeys_shortcuts_def
  userKeys_notifications_def userKeys_byNames_def userKeys_byUsernames_def attachmentKeys_all_def attachmentKeys_lists_def
  attachmentKeys_list_def attachmentKeys_details_def attachmentKeys_detail_def memoShareKeys_all_def memoShareKeys_list_def
  memoShareKeys_byShare_def instanceKeys_all_def instanceKeys_profile_def instanceKeys_settings_def
  instanceKeys_setting_def instanceKeys_settingsBatch_def instanceKeys_stats_def

lemma map_Key_eq: "map Key xs = map Key ys \<longleftrightarrow> xs = ys" "map Key_Num ms = map Key_Num ns \<longleftrightarrow> ms = ns"
  by (simp_all add: inj_map_eq_map inj_def)

text \<open>The request read off a key, with an infinite query of memos read as the plain one.\<close>

definition names_of :: "query_key \<Rightarrow> string set" where
  "names_of k = {n. Key n \<in> set k}"

definition numbers_of :: "query_key \<Rightarrow> int list" where
  "numbers_of k = List.map_filter (\<lambda>p. case p of Key_Num n \<Rightarrow> Some n | _ \<Rightarrow> None) k"

definition memos_request :: "query_key \<Rightarrow> api_request" where
  "memos_request k =
     (case k of
        [Key_Request r] \<Rightarrow> List_Memos r
      | [Key a, Key b] \<Rightarrow> if a = ''detail'' then Get_Memo b else Get_Link_Metadata b
      | [_, Key n, Key_Num p] \<Rightarrow> List_Comments n p
      | [_, Key n, _, Key_Num p] \<Rightarrow> List_Comments_Pages n p
      | [_, Key_Request r] \<Rightarrow> List_Memos r
      | _ \<Rightarrow> No_Request)"

definition users_request :: "query_key \<Rightarrow> api_request" where
  "users_request k =
     (case k of
        [] \<Rightarrow> List_Users
      | p # r \<Rightarrow>
          if p = Key ''byNames'' then Get_Users (names_of r)
          else if p = Key ''byUsernames'' then Batch_Get_Users (names_of r)
          else if p = Key ''shortcuts'' then List_Shortcuts
          else
            (case r of
               [Key n] \<Rightarrow> if p = Key ''detail'' then Get_User n
                  else if p = Key ''stats'' then Get_User_Stats n else for_given List_User_Settings (Some n)
             | [Key a, Key b] \<Rightarrow> if b = ''all'' then Count_All_Tags else No_Request
             | [_, Key_Json j] \<Rightarrow> List_All_User_Stats j
             | _ \<Rightarrow> No_Request))"

definition other_request :: "string \<Rightarrow> query_key \<Rightarrow> api_request" where
  "other_request area k =
     (if area = ''attachments'' then (case k of [_, Key_Json j] \<Rightarrow> List_Attachments_Pages j | _ \<Rightarrow> List_Attachments)
      else if area = ''memo-shares'' then
        (case k of [Key a, Key n] \<Rightarrow> if a = ''list'' then List_Shares n else Get_Memo_By_Share n | _ \<Rightarrow> No_Request)
      else
        (case k of
           [a] \<Rightarrow> if a = Key ''stats'' then Get_Instance_Stats else Get_Instance_Profile
         | a # b # r \<Rightarrow> if b = Key ''batch'' then Batch_Get_Instance_Settings (numbers_of r)
             else (case b of Key_Num n \<Rightarrow> Get_Instance_Setting n | _ \<Rightarrow> No_Request)
         | _ \<Rightarrow> No_Request))"

definition key_request :: "query_key \<Rightarrow> api_request" where
  "key_request k =
     (case k of
        Key area # r \<Rightarrow>
          if area = ''memos'' then memos_request r else if area = ''users'' then users_request r else other_request area r
      | _ \<Rightarrow> No_Request)"

definition plain_request :: "api_request \<Rightarrow> api_request" where
  "plain_request a = (case a of List_Memos_Pages r \<Rightarrow> List_Memos r | _ \<Rightarrow> a)"

lemma names_of_keys: "names_of (map Key (sort (js_uniq xs))) = set xs"
  by (auto simp: names_of_def)

lemma numbers_of_keys: "numbers_of (map Key_Num ns) = ns"
  by (induction ns) (simp_all add: numbers_of_def List.map_filter_def)

lemma key_request_correct:
  assumes "\<And>u. q \<noteq> Q_Notifications u"
  shows "key_request (queryKey q) = plain_request (query_request q)"
  using assms
  by (cases q)
    (simp_all add: queryKey_def query_request_def key_request_def memos_request_def users_request_def other_request_def
      plain_request_def for_given_def given_name_def key_defs names_of_keys numbers_of_keys split: option.split)

lemma notification_key:
  "queryKey q = userKeys_notifications \<Longrightarrow> \<exists>u. q = Q_Notifications u"
  by (cases q) (simp_all add: queryKey_def key_defs given_name_def split: option.splits if_splits)

lemma plain_request_eq:
  assumes "plain_request (query_request q) = plain_request (query_request q')"
  shows "query_request q = query_request q' \<or> (\<exists>r. q = Q_Memos r \<and> q' = Q_InfiniteMemos r \<or> q = Q_InfiniteMemos r \<and> q' = Q_Memos r)"
proof -
  have list: "query_request p = List_Memos r \<longleftrightarrow> p = Q_Memos r" "query_request p = List_Memos_Pages r \<longleftrightarrow> p = Q_InfiniteMemos r" for p r
    by (cases p; simp add: query_request_def for_given_def split: option.split)+
  show ?thesis using assms unfolding list [symmetric]
    by (cases "query_request q"; cases "query_request q'") (simp_all add: plain_request_def)
qed

section \<open>Users by name\<close>

definition BATCH_GET_USERS_LIMIT :: nat where
  "BATCH_GET_USERS_LIMIT = 100"

text \<open>The loop that cuts the names into batches, from position \<open>i\<close>.\<close>

function batches_from :: "nat \<Rightarrow> 'a list \<Rightarrow> 'a list list" where
  "batches_from i xs =
     (if i < length xs then take BATCH_GET_USERS_LIMIT (drop i xs) # batches_from (i + BATCH_GET_USERS_LIMIT) xs else [])"
  by pat_completeness auto

termination
  by (relation "measure (\<lambda>(i, xs). length xs - i)") (auto simp: BATCH_GET_USERS_LIMIT_def)

declare batches_from.simps [simp del]

definition batches :: "'a list \<Rightarrow> 'a list list" where
  "batches xs = batches_from 0 xs"

text \<open>\<open>Promise.all\<close> of requests: one error fails them all.\<close>

fun promise_all :: "(error + 'a) list \<Rightarrow> error + 'a list" where
  "promise_all [] = Inr []"
| "promise_all (r # rs) =
     (case r of Inl e \<Rightarrow> Inl e | Inr x \<Rightarrow> (case promise_all rs of Inl e \<Rightarrow> Inl e | Inr xs \<Rightarrow> Inr (x # xs)))"

definition usersByUsernames ::
  "(string list \<Rightarrow> error + user list) \<Rightarrow> string list \<Rightarrow> error + (string \<times> user option) list" where
  "usersByUsernames batchGetUsers usernames =
     (let uniqueUsernames = js_uniq usernames in
      case promise_all (map batchGetUsers (batches uniqueUsernames)) of
        Inl e \<Rightarrow> Inl e
      | Inr responses \<Rightarrow>
          (let usersByUsername = map_of (rev (map (\<lambda>user. (u_username user, user)) (concat responses))) in
           Inr (map (\<lambda>username. (username, usersByUsername username)) uniqueUsernames)))"

text \<open>A user that cannot be fetched is undefined.\<close>

definition usersByNames :: "(string \<Rightarrow> error + user) \<Rightarrow> string list \<Rightarrow> (string \<times> user option) list" where
  "usersByNames getUser names =
     map (\<lambda>name. (name, (case getUser name of Inl _ \<Rightarrow> None | Inr user \<Rightarrow> Some user))) (js_uniq names)"

lemma concat_batches_from: "concat (batches_from i xs) = drop i xs"
proof (induction i xs rule: batches_from.induct)
  case (1 i xs)
  then show ?case
    by (subst batches_from.simps) (simp add: append_take_drop_id [of BATCH_GET_USERS_LIMIT "drop i xs", simplified] add.commute)
qed

lemma batches_from_sizes: "b \<in> set (batches_from i xs) \<Longrightarrow> 0 < length b \<and> length b \<le> BATCH_GET_USERS_LIMIT"
proof (induction i xs rule: batches_from.induct)
  case (1 i xs)
  then show ?case by (subst (asm) (2) batches_from.simps) (auto simp: BATCH_GET_USERS_LIMIT_def split: if_splits)
qed

lemma div_add_self_hundred: "(n - i + 99) div 100 = Suc ((n - (i + 100) + 99) div 100)" if "i < n" for n i :: nat
proof (cases "n - i \<le> 100")
  case True
  then have "n - (i + 100) = 0" "100 \<le> n - i + 99" "n - i + 99 < 200" using that by auto
  then show ?thesis by simp
next
  case False
  then have "n - i + 99 = (n - (i + 100) + 99) + 100" by simp
  then show ?thesis by (simp only: div_add_self2)
qed

lemma length_batches_from: "length (batches_from i xs) = (length xs - i + 99) div 100"
proof (induction i xs rule: batches_from.induct)
  case (1 i xs)
  show ?case
  proof (cases "i < length xs")
    case True
    then have "(length xs - i + 99) div 100 = Suc ((length xs - (i + 100) + 99) div 100)" by (rule div_add_self_hundred)
    moreover have "length (batches_from (i + 100) xs) = (length xs - (i + 100) + 99) div 100"
      using 1 True unfolding BATCH_GET_USERS_LIMIT_def by blast
    ultimately show ?thesis
      using True by (simp only: batches_from.simps [of i xs] BATCH_GET_USERS_LIMIT_def if_True list.size)
  next
    case False
    then have "length xs - i = 0" by simp
    then show ?thesis using False by (simp add: batches_from.simps [of i xs])
  qed
qed

text \<open>The names are asked for in batches of 1 to 100 names, as few as possible, which together are the names.\<close>

theorem batches_bounded:
  "concat (batches xs) = xs \<and> length (batches xs) = (length xs + 99) div 100
   \<and> list_all (\<lambda>b. 0 < length b \<and> length b \<le> 100) (batches xs)"
  using concat_batches_from [of 0 xs] length_batches_from [of 0 xs] batches_from_sizes [of _ 0 xs]
  by (auto simp: batches_def list_all_iff BATCH_GET_USERS_LIMIT_def)

lemma promise_all_Inr: "list_all (\<lambda>x. \<exists>y. f x = Inr y) xs \<Longrightarrow> promise_all (map f xs) = Inr (map (\<lambda>x. projr (f x)) xs)"
  by (induction xs) auto

text \<open>With a server that answers a batch with the users it knows of it, the map of users has every name asked for,
  once, with the user of that name if there is one, however many batches there were.\<close>

theorem by_usernames_correct:
  assumes "\<And>b. 0 < length b \<Longrightarrow> length b \<le> 100 \<Longrightarrow> \<exists>us. batchGet b = Inr us \<and> set us = {u. \<exists>n \<in> set b. dir n = Some u}"
    and "\<And>n u. dir n = Some u \<Longrightarrow> u_username u = n"
  shows "usersByUsernames batchGet names = Inr (map (\<lambda>n. (n, dir n)) (js_uniq names))"
proof -
  let ?us = "js_uniq names"
  have sizes: "0 < length b \<and> length b \<le> 100" if "b \<in> set (batches ?us)" for b
    using batches_bounded [of ?us] that by (simp add: list_all_iff)
  then have "list_all (\<lambda>b. \<exists>us. batchGet b = Inr us) (batches ?us)" using assms(1) by (fastforce simp: list_all_iff)
  then have all: "promise_all (map batchGet (batches ?us)) = Inr (map (\<lambda>b. projr (batchGet b)) (batches ?us))"
    by (rule promise_all_Inr)
  have "set (projr (batchGet b)) = {u. \<exists>n \<in> set b. dir n = Some u}" if "b \<in> set (batches ?us)" for b
    using assms(1) [of b] sizes [OF that] by auto
  then have "set (concat (map (\<lambda>b. projr (batchGet b)) (batches ?us))) = {u. \<exists>n \<in> set (concat (batches ?us)). dir n = Some u}"
    by auto
  then have users: "set (concat (map (\<lambda>b. projr (batchGet b)) (batches ?us))) = {u. \<exists>n \<in> set ?us. dir n = Some u}"
    using batches_bounded [of ?us] by simp
  have "map_of (rev (map (\<lambda>u. (u_username u, u)) us)) n = dir n"
    if us: "set us = {u. \<exists>n \<in> set ?us. dir n = Some u}" and "n \<in> set ?us" for us n
  proof (cases "dir n")
    case None
    then have "n \<notin> u_username ` set us" using us assms(2) by auto
    then show ?thesis using None by (auto simp: map_of_eq_None_iff image_image)
  next
    case (Some u)
    have "u \<in> set us" "u_username u = n" using Some us that(2) assms(2) by auto
    then have "map_of (rev (map (\<lambda>u. (u_username u, u)) us)) n \<noteq> None"
      by (auto simp: map_of_eq_None_iff image_image)
    then obtain v where v: "map_of (rev (map (\<lambda>u. (u_username u, u)) us)) n = Some v" by blast
    then have "v \<in> set us" "u_username v = n" by (auto dest!: map_of_SomeD)
    then obtain m where "dir m = Some v" using us by auto
    then have "dir n = Some v" using assms(2) [of m v] \<open>u_username v = n\<close> by simp
    then show ?thesis using v by simp
  qed
  from this [OF users] show ?thesis unfolding usersByUsernames_def Let_def all by simp
qed

theorem by_usernames_correct_witness:
  "usersByUsernames (\<lambda>b. Inr (if ''al'' \<in> set b then [empty_user\<lparr>u_username := ''al''\<rparr>] else [])) [''bo'', ''al'', ''bo''] =
     Inr [(''bo'', None), (''al'', Some (empty_user\<lparr>u_username := ''al''\<rparr>))]"
proof -
  let ?dir = "\<lambda>n. if n = ''al'' then Some (empty_user\<lparr>u_username := ''al''\<rparr>) else None"
  have "usersByUsernames (\<lambda>b. Inr (if ''al'' \<in> set b then [empty_user\<lparr>u_username := ''al''\<rparr>] else [])) [''bo'', ''al'', ''bo''] =
     Inr (map (\<lambda>n. (n, ?dir n)) (js_uniq [''bo'', ''al'', ''bo'']))"
    by (rule by_usernames_correct) (auto split: if_splits)
  then show ?thesis by (simp add: js_uniq_def)
qed

section \<open>Mutations\<close>

definition updateUser_onSuccess :: "'q query_client \<Rightarrow> user \<Rightarrow> 'q \<Rightarrow> 'q" where
  "updateUser_onSuccess qc updatedUser q =
     qc_invalidate qc userKeys_currentUser (qc_set qc (userKeys_detail (u_name updatedUser)) (User_Data updatedUser) q)"

definition deleteUser_onSuccess :: "'q query_client \<Rightarrow> string \<Rightarrow> 'q \<Rightarrow> 'q" where
  "deleteUser_onSuccess qc name q = qc_invalidate qc userKeys_all (qc_remove qc (userKeys_detail name) q)"

definition updateUserSetting_onSuccess :: "'q query_client \<Rightarrow> 'q \<Rightarrow> 'q" where
  "updateUserSetting_onSuccess qc q = qc_invalidate qc (userKeys_all @ [Key ''settings'']) q"

definition createAttachment_onSuccess :: "'q query_client \<Rightarrow> 'q \<Rightarrow> 'q" where
  "createAttachment_onSuccess qc q = qc_invalidate qc attachmentKeys_lists q"

definition deleteAttachment_onSuccess :: "'q query_client \<Rightarrow> string \<Rightarrow> 'q \<Rightarrow> 'q" where
  "deleteAttachment_onSuccess qc name q =
     qc_invalidate qc attachmentKeys_lists (qc_remove qc (attachmentKeys_detail name) q)"

definition batchDeleteAttachments_onSuccess :: "'q query_client \<Rightarrow> string list \<Rightarrow> 'q \<Rightarrow> 'q" where
  "batchDeleteAttachments_onSuccess qc names q =
     qc_invalidate qc attachmentKeys_lists (foldl (\<lambda>q name. qc_remove qc (attachmentKeys_detail name) q) q names)"

definition memoShare_onSuccess :: "'q query_client \<Rightarrow> string \<Rightarrow> 'q \<Rightarrow> 'q" where
  "memoShare_onSuccess qc memoName q = qc_invalidate qc (memoShareKeys_list memoName) q"

text \<open>A cached answer is given to a query only if it was fetched for the same request: queries with the same key
  ask for the same thing. The exceptions are the plain and the infinite query of memos, whose data have different
  shapes, and the notifications, whose key does not name the user they belong to.\<close>

theorem key_determines_request:
  assumes "queryKey q = queryKey q'"
  shows "query_request q = query_request q'
    \<or> (\<exists>r. q = Q_Memos r \<and> q' = Q_InfiniteMemos r \<or> q = Q_InfiniteMemos r \<and> q' = Q_Memos r)
    \<or> (\<exists>u v. q = Q_Notifications u \<and> q' = Q_Notifications v)"
proof (cases "\<exists>u. q = Q_Notifications u \<or> q' = Q_Notifications u")
  case True
  then have "queryKey q = userKeys_notifications" using assms by (auto simp: queryKey_def)
  then show ?thesis using notification_key assms by metis
next
  case False
  then have "plain_request (query_request q) = plain_request (query_request q')"
    using key_request_correct [of q] key_request_correct [of q'] assms by force
  then show ?thesis using plain_request_eq by blast
qed

theorem key_determines_request_witness:
  "query_request (Q_UsersByNames [''users/b'', ''users/a'', ''users/b'']) = query_request (Q_UsersByNames [''users/a'', ''users/b''])"
proof -
  have "queryKey (Q_UsersByNames [''users/b'', ''users/a'', ''users/b'']) = queryKey (Q_UsersByNames [''users/a'', ''users/b''])"
    by code_simp
  from key_determines_request [OF this] show ?thesis by auto
qed

text \<open>An invalidation reaches the queries it is meant for and no other: the lists of memos, the comments of one memo,
  the statistics, the lists of attachments, the shares of one memo, or everything about users.\<close>

theorem invalidation_scope:
  "has_prefix memoKeys_lists (queryKey q) = (\<exists>r. q = Q_Memos r \<or> q = Q_InfiniteMemos r)
   \<and> has_prefix (memoKeys_comments name) (queryKey q) = (\<exists>p. q = Q_MemoComments name p \<or> q = Q_InfiniteMemoComments name p)
   \<and> has_prefix userKeys_stats (queryKey q) = (\<exists>u r b. q = Q_UserStats u \<or> q = Q_AllUserStats r \<or> q = Q_TagCounts b u)
   \<and> has_prefix attachmentKeys_lists (queryKey q) = (q = Q_Attachments \<or> (\<exists>r. q = Q_InfiniteAttachments r))
   \<and> has_prefix (memoShareKeys_list name) (queryKey q) = (q = Q_MemoShares name)"
  by (cases q) (auto simp: has_prefix_def queryKey_def key_defs split: option.split bool.split)

end
