(* ===== verification/AuthSession.thy ===== *)
theory AuthSession
  imports AuthTokens QueryKeys
begin

text \<open>
  The session of the user (\<^verbatim>\<open>contexts/AuthContext.tsx\<close>): the state of the context with the user's
  settings, together with the access token (\<^verbatim>\<open>AuthTokens\<close>) and the query cache (\<^verbatim>\<open>Queries\<close>). An
  asynchronous operation is one event for each piece between its \<open>await\<close>s, so the answers to several
  operations arrive in any order. Then the page the provider of a sign-in returns to
  (\<^verbatim>\<open>pages/AuthCallback.tsx\<close>).
\<close>

section \<open>Messages\<close>

record user_general_setting =
  ug_locale :: string
  ug_memoVisibility :: string
  ug_theme :: string

record user_webhook =
  uw_name :: string
  uw_url :: string
  uw_displayName :: string
  uw_createTime :: "timestamp option"
  uw_updateTime :: "timestamp option"
  uw_signingSecret :: string
  uw_signingSecretSet :: bool

record user_tag_metadata =
  ut_backgroundColor :: "string option"
  ut_blurContent :: bool

record user_tags_setting =
  ut_tags :: "(string \<times> user_tag_metadata) list"

datatype user_setting_value =
    User_General user_general_setting
  | User_Webhooks "user_webhook list"
  | User_Tags user_tags_setting
  | User_No_Setting

record user_setting =
  us_settingName :: string
  us_value :: user_setting_value

section \<open>State\<close>

record user_settings =
  st_general :: "user_general_setting option"
  st_webhooks :: "user_webhook list option"
  st_tags :: "user_tags_setting option"
  st_shortcuts :: "shortcut list"

record auth_state =
  au_currentUser :: "user option"
  au_settings :: user_settings
  au_isInitialized :: bool
  au_isLoading :: bool

definition no_settings :: user_settings where
  "no_settings = \<lparr>st_general = None, st_webhooks = None, st_tags = None, st_shortcuts = []\<rparr>"

definition auth_state_init :: auth_state where
  "auth_state_init = \<lparr>au_currentUser = None, au_settings = no_settings, au_isInitialized = False, au_isLoading = True\<rparr>"

definition signed_out :: auth_state where
  "signed_out = \<lparr>au_currentUser = None, au_settings = no_settings, au_isInitialized = True, au_isLoading = False\<rparr>"

text \<open>What \<open>fetchUserSettings\<close> makes of the two answers.\<close>

definition fetchUserSettings :: "user_setting list \<Rightarrow> shortcut list \<Rightarrow> user_settings" where
  "fetchUserSettings settings shortcuts =
     \<lparr>st_general = first_some (\<lambda>s. case us_value s of User_General g \<Rightarrow> Some g | _ \<Rightarrow> None) settings,
      st_webhooks = first_some (\<lambda>s. case us_value s of User_Webhooks w \<Rightarrow> Some w | _ \<Rightarrow> None) settings,
      st_tags = first_some (\<lambda>s. case us_value s of User_Tags t \<Rightarrow> Some t | _ \<Rightarrow> None) settings,
      st_shortcuts = shortcuts\<rparr>"

text \<open>The query client with the two more calls of the context: \<open>clear\<close>, and \<open>removeQueries\<close> of one key.\<close>

record 'q session_client =
  sc_queries :: "'q query_client"
  sc_clear :: "'q \<Rightarrow> 'q"
  sc_removeExact :: "query_key \<Rightarrow> 'q \<Rightarrow> 'q"

datatype auth_call =
    Init_Refresh
  | Init_User
  | Init_Settings user
  | Signing_Out
  | Refetching string

record 'q auth_ctx =
  ac_state :: auth_state
  ac_session :: session
  ac_now :: int
  ac_cache :: 'q
  ac_next :: nat
  ac_calls :: "(nat \<times> auth_call) list"

definition begin_call :: "auth_call \<Rightarrow> 'q auth_ctx \<Rightarrow> 'q auth_ctx" where
  "begin_call c x = x\<lparr>ac_calls := ac_calls x @ [(ac_next x, c)], ac_next := ac_next x + 1\<rparr>"

definition go_on :: "nat \<Rightarrow> auth_call \<Rightarrow> 'q auth_ctx \<Rightarrow> 'q auth_ctx" where
  "go_on i c x = x\<lparr>ac_calls := map (\<lambda>(j, d). (j, if j = i then c else d)) (ac_calls x)\<rparr>"

definition done_call :: "nat \<Rightarrow> 'q auth_ctx \<Rightarrow> 'q auth_ctx" where
  "done_call i x = x\<lparr>ac_calls := filter (\<lambda>(j, _). j \<noteq> i) (ac_calls x)\<rparr>"

section \<open>Operations\<close>

definition read_access_token :: "'q auth_ctx \<Rightarrow> bool \<times> 'q auth_ctx" where
  "read_access_token x =
     (let (t, s) = getAccessToken (ac_now x) (ac_session x) in (truthy t, x\<lparr>ac_session := s\<rparr>))"

definition initialize_begin :: "'q auth_ctx \<Rightarrow> 'q auth_ctx" where
  "initialize_begin x =
     (let (has_token, x1) = read_access_token (x\<lparr>ac_state := (ac_state x)\<lparr>au_isLoading := True\<rparr>\<rparr>) in
      if \<not> has_token then begin_call Init_Refresh x1 else begin_call Init_User x1)"

text \<open>The answer to the refresh stores its token; a failure is dropped.\<close>

definition initialize_refreshed :: "nat \<Rightarrow> api_error + (string \<times> js_date option) \<Rightarrow> 'q auth_ctx \<Rightarrow> 'q auth_ctx" where
  "initialize_refreshed i answer x =
     (let x1 = (case answer of
                  Inr (token, expiresAt) \<Rightarrow>
                    if token = [] then x
                    else x\<lparr>ac_session := fst (setAccessToken (Some token) expiresAt (ac_session x))\<rparr>
                | Inl _ \<Rightarrow> x);
          (has_token, x2) = read_access_token x1 in
      if \<not> has_token then (done_call i x2)\<lparr>ac_state := signed_out\<rparr> else go_on i Init_User x2)"

definition sign_out_here :: "nat \<Rightarrow> 'q auth_ctx \<Rightarrow> 'q auth_ctx" where
  "sign_out_here i x = (done_call i x)\<lparr>ac_session := clearAccessToken (ac_session x), ac_state := signed_out\<rparr>"

definition initialize_user :: "nat \<Rightarrow> api_error + user option \<Rightarrow> 'q auth_ctx \<Rightarrow> 'q auth_ctx" where
  "initialize_user i answer x =
     (case answer of
        Inl _ \<Rightarrow> sign_out_here i x
      | Inr None \<Rightarrow> sign_out_here i x
      | Inr (Some currentUser) \<Rightarrow> go_on i (Init_Settings currentUser) x)"

definition initialize_settings ::
  "'q session_client \<Rightarrow> nat \<Rightarrow> user \<Rightarrow> api_error + user_settings \<Rightarrow> 'q auth_ctx \<Rightarrow> 'q auth_ctx" where
  "initialize_settings sc i currentUser answer x =
     (case answer of
        Inl _ \<Rightarrow> sign_out_here i x
      | Inr settings \<Rightarrow>
          (done_call i x)\<lparr>
            ac_state := \<lparr>au_currentUser = Some currentUser, au_settings = settings, au_isInitialized = True, au_isLoading = False\<rparr>,
            ac_cache := qc_set (sc_queries sc) (userKeys_detail (u_name currentUser)) (User_Data currentUser)
              (qc_set (sc_queries sc) userKeys_currentUser (User_Data currentUser) (ac_cache x))\<rparr>)"

text \<open>The \<open>finally\<close> block of \<open>logout\<close>, whatever the server answered.\<close>

definition logout_end :: "'q session_client \<Rightarrow> nat \<Rightarrow> 'q auth_ctx \<Rightarrow> 'q auth_ctx" where
  "logout_end sc i x = (sign_out_here i x)\<lparr>ac_cache := sc_clear sc (ac_cache x)\<rparr>"

definition refetchSettings_begin :: "'q auth_ctx \<Rightarrow> 'q auth_ctx" where
  "refetchSettings_begin x =
     (case au_currentUser (ac_state x) of
        None \<Rightarrow> x
      | Some u \<Rightarrow> if u_name u = [] then x else begin_call (Refetching (u_name u)) x)"

definition refetchSettings_end :: "nat \<Rightarrow> string \<Rightarrow> api_error + user_settings \<Rightarrow> 'q auth_ctx \<Rightarrow> 'q auth_ctx" where
  "refetchSettings_end i currentUserName answer x =
     (case answer of
        Inl _ \<Rightarrow> done_call i x
      | Inr settings \<Rightarrow>
          if map_option u_name (au_currentUser (ac_state x)) \<noteq> Some currentUserName then done_call i x
          else (done_call i x)\<lparr>ac_state := (ac_state x)\<lparr>au_settings := settings\<rparr>\<rparr>)"

definition setCurrentUser :: "'q session_client \<Rightarrow> user option \<Rightarrow> 'q auth_ctx \<Rightarrow> 'q auth_ctx" where
  "setCurrentUser sc user x =
     (let previousUser = (case qc_get (sc_queries sc) userKeys_currentUser (ac_cache x) of
                            Some (User_Data u) \<Rightarrow> Some u | _ \<Rightarrow> None);
          x1 = x\<lparr>ac_state := (ac_state x)\<lparr>au_currentUser := user\<rparr>\<rparr> in
      case user of
        Some u \<Rightarrow>
          x1\<lparr>ac_cache := qc_set (sc_queries sc) (userKeys_detail (u_name u)) (User_Data u)
               (qc_set (sc_queries sc) userKeys_currentUser (User_Data u) (ac_cache x1))\<rparr>
      | None \<Rightarrow>
          (let q1 = sc_removeExact sc userKeys_currentUser (ac_cache x1) in
           case previousUser of
             None \<Rightarrow> x1\<lparr>ac_cache := q1\<rparr>
           | Some p \<Rightarrow> x1\<lparr>ac_cache := if u_name p = [] then q1 else sc_removeExact sc (userKeys_detail (u_name p)) q1\<rparr>))"

section \<open>Events\<close>

text \<open>
  The operations are called and answered. The settings the server has for a user at some time are
  \<open>server name version\<close>; an answer with settings is the version it carries. \<open>Set_Current_User\<close> is what the
  account dialog does with the answer to a profile update, under whatever name. \<open>Meanwhile\<close> is what
  else changes the clock and the token.
\<close>

datatype auth_event =
    Auth_Initialize
  | Refreshed_Token nat "api_error + (string \<times> js_date option)"
  | Got_User nat "api_error + user option"
  | Got_Settings nat "api_error + nat"
  | Auth_Logout
  | Signed_Out nat
  | Auth_Refetch
  | Set_Current_User user
  | Meanwhile int session

definition versioned :: "(string \<Rightarrow> nat \<Rightarrow> user_settings) \<Rightarrow> string \<Rightarrow> api_error + nat \<Rightarrow> api_error + user_settings" where
  "versioned server name r = (case r of Inl e \<Rightarrow> Inl e | Inr v \<Rightarrow> Inr (server name v))"

definition auth_step ::
  "'q session_client \<Rightarrow> (string \<Rightarrow> nat \<Rightarrow> user_settings) \<Rightarrow> 'q auth_ctx \<Rightarrow> auth_event \<Rightarrow> 'q auth_ctx" where
  "auth_step sc server x e =
     (case e of
        Auth_Initialize \<Rightarrow> initialize_begin x
      | Refreshed_Token i r \<Rightarrow> (case map_of (ac_calls x) i of Some Init_Refresh \<Rightarrow> initialize_refreshed i r x | _ \<Rightarrow> x)
      | Got_User i r \<Rightarrow> (case map_of (ac_calls x) i of Some Init_User \<Rightarrow> initialize_user i r x | _ \<Rightarrow> x)
      | Got_Settings i r \<Rightarrow>
          (case map_of (ac_calls x) i of
             Some (Init_Settings u) \<Rightarrow> initialize_settings sc i u (versioned server (u_name u) r) x
           | Some (Refetching name) \<Rightarrow> refetchSettings_end i name (versioned server name r) x
           | _ \<Rightarrow> x)
      | Auth_Logout \<Rightarrow> begin_call Signing_Out x
      | Signed_Out i \<Rightarrow> (case map_of (ac_calls x) i of Some Signing_Out \<Rightarrow> logout_end sc i x | _ \<Rightarrow> x)
      | Auth_Refetch \<Rightarrow> refetchSettings_begin x
      | Set_Current_User user \<Rightarrow> setCurrentUser sc (Some user) x
      | Meanwhile now s \<Rightarrow> x\<lparr>ac_now := now, ac_session := s\<rparr>)"

definition ctx_start :: "int \<Rightarrow> session \<Rightarrow> 'q \<Rightarrow> 'q auth_ctx" where
  "ctx_start now s q = \<lparr>ac_state = auth_state_init, ac_session = s, ac_now = now, ac_cache = q, ac_next = 0, ac_calls = []\<rparr>"

section \<open>What the session relies on\<close>

locale session_cache = queries: query_cache "sc_queries sc" for sc :: "'q session_client" +
  assumes get_clear: "qc_get (sc_queries sc) k (sc_clear sc q) = None"
    and get_removeExact: "qc_get (sc_queries sc) k (sc_removeExact sc k' q) = (if k = k' then None else qc_get (sc_queries sc) k q)"
begin

lemma user_set_get:
  "qc_get (sc_queries sc) k (ac_cache (setCurrentUser sc (Some u) x)) =
     (if k = userKeys_detail (u_name u) \<or> k = userKeys_currentUser then Some (User_Data u)
      else qc_get (sc_queries sc) k (ac_cache x))"
  by (simp add: setCurrentUser_def Let_def queries.get_set)

end

definition listed_session :: "listed_cache session_client" where
  "listed_session = \<lparr>sc_queries = listed_client,
     sc_clear = (\<lambda>q. q\<lparr>lc_data := []\<rparr>),
     sc_removeExact = (\<lambda>k q. q\<lparr>lc_data := AList.delete k (lc_data q)\<rparr>)\<rparr>"

interpretation listed_session: session_cache listed_session
proof -
  have sel: "sc_queries listed_session = listed_client" by (simp add: listed_session_def)
  have "session_cache_axioms listed_session"
    by unfold_locales (simp_all add: listed_session_def listed_client_def AList.delete_conv)
  then show "session_cache listed_session"
    unfolding session_cache_def sel using listed.query_cache_axioms by blast
qed

section \<open>Settings belong to the user\<close>

text \<open>
  The names under which the user of the context is known: the one of the sign-in, and the ones the
  account dialog gave afterwards (a change of the username changes the name). Any other change of the
  user starts anew.
\<close>

definition next_names :: "user option \<Rightarrow> auth_event \<Rightarrow> user option \<Rightarrow> string list \<Rightarrow> string list" where
  "next_names before e after ns =
     (case after of
        None \<Rightarrow> []
      | Some u \<Rightarrow>
          (case e of
             Set_Current_User _ \<Rightarrow> if u_name u \<in> set ns then ns else u_name u # ns
           | _ \<Rightarrow> if after = before then ns else [u_name u]))"

definition known_step ::
  "'q session_client \<Rightarrow> (string \<Rightarrow> nat \<Rightarrow> user_settings) \<Rightarrow> 'q auth_ctx \<times> string list \<Rightarrow> auth_event
     \<Rightarrow> 'q auth_ctx \<times> string list" where
  "known_step sc server xn e =
     (let x' = auth_step sc server (fst xn) e in
      (x', next_names (au_currentUser (ac_state (fst xn))) e (au_currentUser (ac_state x')) (snd xn)))"

text \<open>The settings are none, or ones the server had under one of the names.\<close>

definition of_names :: "(string \<Rightarrow> nat \<Rightarrow> user_settings) \<Rightarrow> string list \<Rightarrow> user_settings \<Rightarrow> bool" where
  "of_names server ns st \<longleftrightarrow> st = no_settings \<or> (\<exists>n \<in> set ns. \<exists>v. st = server n v)"

definition settings_owned :: "(string \<Rightarrow> nat \<Rightarrow> user_settings) \<Rightarrow> 'q auth_ctx \<times> string list \<Rightarrow> bool" where
  "settings_owned server xn =
     (case au_currentUser (ac_state (fst xn)) of
        None \<Rightarrow> au_settings (ac_state (fst xn)) = no_settings
      | Some u \<Rightarrow> u_name u \<in> set (snd xn) \<and> of_names server (snd xn) (au_settings (ac_state (fst xn))))"

lemma of_names_intros:
  "of_names server ns no_settings" "n \<in> set ns \<Longrightarrow> of_names server ns (server n v)"
  "of_names server ns st \<Longrightarrow> of_names server (n # ns) st" "of_names server [n] (server n v)"
  by (auto simp: of_names_def)

lemma call_fields [simp]:
  "ac_state (begin_call c x) = ac_state x" "ac_state (go_on i c x) = ac_state x" "ac_state (done_call i x) = ac_state x"
  "ac_cache (begin_call c x) = ac_cache x" "ac_cache (go_on i c x) = ac_cache x" "ac_cache (done_call i x) = ac_cache x"
  "ac_session (begin_call c x) = ac_session x" "ac_session (go_on i c x) = ac_session x" "ac_session (done_call i x) = ac_session x"
  by (simp_all add: begin_call_def go_on_def done_call_def)

text \<open>What a step does to the user and the settings.\<close>

abbreviation user_and_settings :: "'q auth_ctx \<Rightarrow> user option \<times> user_settings" where
  "user_and_settings x \<equiv> (au_currentUser (ac_state x), au_settings (ac_state x))"

lemma read_state: "ac_state (snd (read_access_token x)) = ac_state x"
  by (simp add: read_access_token_def split: prod.split)

lemma initialize_begin_frame: "user_and_settings (initialize_begin x) = user_and_settings x"
proof -
  let ?r = "read_access_token (x\<lparr>ac_state := (ac_state x)\<lparr>au_isLoading := True\<rparr>\<rparr>)"
  have "ac_state (initialize_begin x) = ac_state (snd ?r)" by (simp add: initialize_begin_def case_prod_beta)
  then show ?thesis by (simp add: read_state)
qed

lemma initialize_refreshed_frame:
  "user_and_settings (initialize_refreshed i r x) \<in> {user_and_settings x, (None, no_settings)}"
proof -
  define x1 where "x1 = (case r of Inr (token, expiresAt) \<Rightarrow>
       if token = [] then x else x\<lparr>ac_session := fst (setAccessToken (Some token) expiresAt (ac_session x))\<rparr> | Inl _ \<Rightarrow> x)"
  have "ac_state x1 = ac_state x" by (simp add: x1_def split: sum.split prod.split)
  then have "ac_state (snd (read_access_token x1)) = ac_state x" by (simp add: read_state)
  moreover have "initialize_refreshed i r x = (if \<not> fst (read_access_token x1)
      then (done_call i (snd (read_access_token x1)))\<lparr>ac_state := signed_out\<rparr> else go_on i Init_User (snd (read_access_token x1)))"
    by (simp add: initialize_refreshed_def x1_def Let_def split: prod.split)
  ultimately show ?thesis by (simp add: signed_out_def)
qed

lemma step_user_and_settings:
  "case e of
     Set_Current_User u \<Rightarrow> user_and_settings (auth_step sc server x e) = (Some u, au_settings (ac_state x))
   | _ \<Rightarrow> user_and_settings (auth_step sc server x e) \<in> {user_and_settings x, (None, no_settings)}
       \<or> (\<exists>u v. user_and_settings (auth_step sc server x e) = (Some u, server (u_name u) v))"
proof (cases e)
  case (Got_Settings i r)
  then show ?thesis
    by (auto simp: auth_step_def initialize_settings_def refetchSettings_end_def versioned_def sign_out_here_def
        signed_out_def split: option.split auth_call.split sum.split)
next
  case (Refreshed_Token i r)
  then show ?thesis
    using initialize_refreshed_frame [of i r x] by (auto simp: auth_step_def split: option.split auth_call.split)
next
  case (Set_Current_User u)
  then show ?thesis by (simp add: auth_step_def setCurrentUser_def Let_def)
next
  case Auth_Initialize
  then show ?thesis using initialize_begin_frame [of x] by (simp add: auth_step_def)
qed (auto simp: auth_step_def initialize_user_def logout_end_def sign_out_here_def refetchSettings_begin_def
      signed_out_def split: option.split auth_call.split sum.split)

lemma known_step_owned:
  assumes "settings_owned server xn"
  shows "settings_owned server (known_step sc server xn e)"
proof (cases "\<exists>u. e = Set_Current_User u")
  case True
  then obtain u where e: "e = Set_Current_User u" by blast
  show ?thesis
    using assms step_user_and_settings [where e = e and sc = sc and server = server and x = "fst xn"]
    by (auto simp: e settings_owned_def known_step_def next_names_def Let_def
        intro: of_names_intros split: option.splits)
next
  case False
  then have "user_and_settings (auth_step sc server (fst xn) e) \<in> {user_and_settings (fst xn), (None, no_settings)}
      \<or> (\<exists>u v. user_and_settings (auth_step sc server (fst xn) e) = (Some u, server (u_name u) v))"
    using step_user_and_settings [where e = e and sc = sc and server = server and x = "fst xn"] by (simp split: auth_event.splits)
  moreover have "next_names b e (Some u) ns = (if Some u = b then ns else [u_name u])" for b u ns
    using False by (simp add: next_names_def split: auth_event.split)
  ultimately show ?thesis
    using assms
    by (auto simp: settings_owned_def known_step_def Let_def intro: of_names_intros(1,2,4) split: option.splits)
qed

interpretation auth_runs: machine "known_step sc server" "settings_owned server"
  for sc :: "'q session_client" and server
  by unfold_locales (rule known_step_owned)

lemma known_run: "fst (foldl (known_step sc server) xn es) = foldl (auth_step sc server) (fst xn) es"
  by (induction es arbitrary: xn) (simp_all add: known_step_def Let_def)

section \<open>Properties\<close>


text \<open>As long as no profile update comes in, the user has the one name of the sign-in.\<close>

lemma names_without_updates:
  assumes "list_all (\<lambda>e. case e of Set_Current_User _ \<Rightarrow> False | _ \<Rightarrow> True) es"
  shows "length (snd (foldl (known_step sc server) (x, []) es)) \<le> 1"
proof -
  have "length (snd (foldl (known_step sc server) xn es)) \<le> 1" if "length (snd xn) \<le> 1" for xn
    using assms that
  proof (induction es arbitrary: xn)
    case (Cons e es)
    then show ?case
      by (simp add: known_step_def next_names_def Let_def split: option.split auth_event.splits)
  qed simp
  then show ?thesis by simp
qed

text \<open>The account dialog renames the user and the settings stay the ones of the old name.\<close>

lemma renamed_user_keeps_settings:
  "user_and_settings (auth_step sc server x (Set_Current_User u)) = (Some u, au_settings (ac_state x))"
  using step_user_and_settings [where e = "Set_Current_User u" and sc = sc and server = server and x = x] by simp

lemma no_token_again:
  assumes "\<not> truthy (fst (getAccessToken now s))"
  shows "snd (getAccessToken now s) = s"
  using assms by (cases s) (auto simp: getAccessToken_def truthy_def Let_def split: option.splits if_splits)

lemma token_after_set: "t \<noteq> [] \<Longrightarrow> truthy (fst (getAccessToken now (fst (setAccessToken (Some t) d s))))"
  by (cases s) (auto simp: getAccessToken_def setAccessToken_def truthy_def Let_def split: option.split)

text \<open>Whether the refresh answered with a token.\<close>

definition refresh_ok :: "api_error + (string \<times> js_date option) \<Rightarrow> bool" where
  "refresh_ok r = (case r of Inl _ \<Rightarrow> False | Inr (t, _) \<Rightarrow> t \<noteq> [])"

text \<open>The start of the session ends, whatever the server answers, with the context initialized and nothing under
  way: signed in with the user's settings exactly when there is a token, stored or refreshed, and both answers about
  the user succeed, and signed out otherwise.\<close>

theorem initialize_ends:
  "let x = foldl (auth_step sc server) (ctx_start now s q)
       [Auth_Initialize, Refreshed_Token 0 r1, Got_User 0 r2, Got_Settings 0 r3];
     has_token = (truthy (fst (getAccessToken now s)) \<or> refresh_ok r1) in
   ac_calls x = [] \<and> ac_state x =
     (case (has_token, r2, r3) of
        (True, Inr (Some u), Inr v) \<Rightarrow> \<lparr>au_currentUser = Some u, au_settings = server (u_name u) v,
           au_isInitialized = True, au_isLoading = False\<rparr>
      | _ \<Rightarrow> signed_out)"
proof -
  define x0 where "x0 ss = (ctx_start now ss q)\<lparr>ac_state := auth_state_init\<lparr>au_isLoading := True\<rparr>\<rparr>" for ss
  have ends: "ac_calls x = [] \<and> ac_state x = (case (r2, r3) of (Inr (Some u), Inr v) \<Rightarrow>
        \<lparr>au_currentUser = Some u, au_settings = server (u_name u) v, au_isInitialized = True, au_isLoading = False\<rparr>
      | _ \<Rightarrow> signed_out)"
    if "x = foldl (auth_step sc server) y [Got_User 0 r2, Got_Settings 0 r3]" "ac_calls y = [(0, Init_User)]" for x y
    using that by (cases r2; cases r3)
      (auto simp: auth_step_def initialize_user_def initialize_settings_def sign_out_here_def done_call_def go_on_def
        versioned_def split: option.split)
  have stay: "foldl (auth_step sc server) y [Got_User 0 r2, Got_Settings 0 r3] = y" if "ac_calls y = []" for y
    using that by (simp add: auth_step_def)
  show ?thesis
  proof (cases "truthy (fst (getAccessToken now s))")
    case True
    then have "ac_calls (foldl (auth_step sc server) (ctx_start now s q) [Auth_Initialize, Refreshed_Token 0 r1]) = [(0, Init_User)]"
      by (simp add: auth_step_def initialize_begin_def read_access_token_def begin_call_def ctx_start_def case_prod_beta)
    from ends [OF refl this] show ?thesis using True by (simp add: Let_def split: prod.split)
  next
    case False
    let ?y0 = "foldl (auth_step sc server) (ctx_start now s q) [Auth_Initialize]"
    have y0: "?y0 = begin_call Init_Refresh (x0 s)"
      using False no_token_again [OF False]
      by (simp add: auth_step_def initialize_begin_def read_access_token_def x0_def ctx_start_def case_prod_beta)
    let ?y1 = "auth_step sc server ?y0 (Refreshed_Token 0 r1)"
    show ?thesis
    proof (cases "refresh_ok r1")
      case True
      then obtain t d where t: "r1 = Inr (t, d)" "t \<noteq> []" by (cases r1) (auto simp: refresh_ok_def)
      have "ac_calls ?y1 = [(0, Init_User)]" unfolding y0
        using token_after_set [OF t(2), of now d s] t
        by (simp add: auth_step_def initialize_refreshed_def read_access_token_def begin_call_def go_on_def x0_def
            ctx_start_def case_prod_beta Let_def)
      from ends [OF refl this] show ?thesis using True by (simp add: Let_def split: prod.split)
    next
      case fails: False
      then have "ac_calls ?y1 = [] \<and> ac_state ?y1 = signed_out" unfolding y0
        using False by (auto simp: auth_step_def initialize_refreshed_def read_access_token_def begin_call_def done_call_def
            x0_def ctx_start_def case_prod_beta Let_def refresh_ok_def split: sum.split)
      then show ?thesis using stay [of ?y1] False fails by (simp add: Let_def)
    qed
  qed
qed

text \<open>After a sign-out with no start of the session under way and no profile update still to come.\<close>

definition quiet_call :: "auth_call \<Rightarrow> bool" where
  "quiet_call c = (case c of Signing_Out \<Rightarrow> True | Refetching _ \<Rightarrow> True | _ \<Rightarrow> False)"

definition later_event :: "auth_event \<Rightarrow> bool" where
  "later_event e = (case e of Auth_Initialize \<Rightarrow> False | Set_Current_User _ \<Rightarrow> False | Meanwhile _ _ \<Rightarrow> False | _ \<Rightarrow> True)"

definition left :: "'q session_client \<Rightarrow> 'q auth_ctx \<Rightarrow> bool" where
  "left sc x \<longleftrightarrow> ac_state x = signed_out \<and> ac_session x = clearAccessToken (ac_session x)
     \<and> (\<forall>k. qc_get (sc_queries sc) k (ac_cache x) = None) \<and> list_all (\<lambda>(_, c). quiet_call c) (ac_calls x)"

lemma clear_twice: "clearAccessToken (clearAccessToken s) = clearAccessToken s"
  by (simp add: clearAccessToken_def option.map_comp o_def)

lemma cleared_no_token: "s = clearAccessToken s \<Longrightarrow> fst (getAccessToken now s) = None"
proof -
  have "fst (getAccessToken now (clearAccessToken s)) = None"
    by (cases s) (auto simp: clearAccessToken_def getAccessToken_def truthy_def Let_def split: option.split)
  moreover assume "s = clearAccessToken s"
  ultimately show ?thesis by metis
qed

lemma sign_out_left:
  assumes "session_cache sc" and "list_all (\<lambda>(_, c). quiet_call c) (ac_calls x)"
  shows "left sc (logout_end sc i x)"
  using assms
  by (auto simp: left_def logout_end_def sign_out_here_def done_call_def clear_twice session_cache.get_clear list_all_iff)

lemma left_step:
  assumes "session_cache sc" and "left sc x" and "later_event e"
  shows "left sc (auth_step sc server x e)"
proof -
  have q: "\<exists>d. c = Signing_Out \<or> c = Refetching d" if "map_of (ac_calls x) i = Some c" for i c
    using assms(2) map_of_SomeD [OF that] by (auto simp: left_def list_all_iff quiet_call_def split: auth_call.splits)
  have end_left: "left sc (done_call i x)" for i
    using assms(2) by (auto simp: left_def done_call_def list_all_iff)
  have none: "au_currentUser (ac_state x) = None" using assms(2) by (simp add: left_def signed_out_def)
  show ?thesis
  proof (cases e)
    case (Refreshed_Token i r)
    then show ?thesis using assms(2) q by (auto simp: auth_step_def split: option.split auth_call.split)
  next
    case (Got_User i r)
    then show ?thesis using assms(2) q by (auto simp: auth_step_def split: option.split auth_call.split)
  next
    case (Got_Settings i r)
    then show ?thesis using assms(2) q end_left none
      by (auto simp: auth_step_def refetchSettings_end_def split: option.split auth_call.split sum.split)
  next
    case (Signed_Out i)
    then show ?thesis using assms sign_out_left [OF assms(1), of x i]
      by (auto simp: auth_step_def left_def split: option.split auth_call.split)
  next
    case Auth_Logout
    then show ?thesis using assms(2) by (simp add: auth_step_def begin_call_def left_def quiet_call_def)
  next
    case Auth_Refetch
    then show ?thesis using assms(2) none by (simp add: auth_step_def refetchSettings_begin_def)
  qed (use assms(3) in \<open>simp_all add: later_event_def\<close>)
qed

text \<open>C29: Signing out is final, when no start of the session is under way. When the sign-out ends, whatever the server
  answered, the context has no user and no settings, the tab has no token and the cache no data; and as long as the
  session is not started again, no profile update is answered and no other code stores a token, the answers that arrive
  later, to refetches and to other sign-outs, and further sign-outs and refetches change none of this.\<close>

theorem logout_final:
  assumes "session_cache sc" and "map_of (ac_calls x) i = Some Signing_Out"
    and "list_all (\<lambda>(_, c). quiet_call c) (ac_calls x)" and "list_all later_event es"
  shows "let y = foldl (auth_step sc server) x (Signed_Out i # es) in
    ac_state y = signed_out \<and> fst (getAccessToken now (ac_session y)) = None
    \<and> (\<forall>k. qc_get (sc_queries sc) k (ac_cache y) = None)"
proof -
  have "left sc (foldl (auth_step sc server) y es)" if "left sc y" "list_all later_event es" for y es
    using that by (induction es arbitrary: y) (auto intro: left_step [OF assms(1)])
  moreover have "left sc (auth_step sc server x (Signed_Out i))"
    using assms(2) sign_out_left [OF assms(1,3)] by (simp add: auth_step_def)
  ultimately have "left sc (foldl (auth_step sc server) x (Signed_Out i # es))" using assms(4) by simp
  then show ?thesis using cleared_no_token by (simp add: left_def Let_def)
qed

definition signed_in :: "listed_cache auth_ctx" where
  "signed_in = (ctx_start 0 (\<lparr>ts_token = Some ''t'', ts_expires = None\<rparr>, None) \<lparr>lc_data = [(userKeys_shortcuts, Other_Data ''s'')], lc_invalidated = []\<rparr>)
     \<lparr>ac_state := signed_out\<lparr>au_currentUser := Some empty_user\<rparr>, ac_next := 2,
      ac_calls := [(0, Refetching ''users/a''), (1, Signing_Out)]\<rparr>"

theorem logout_final_witness:
  "ac_state (foldl (auth_step listed_session (\<lambda>_ _. no_settings)) signed_in [Signed_Out 1, Got_Settings 0 (Inr 0)]) = signed_out"
  using logout_final [OF listed_session.session_cache_axioms, of signed_in 1 "[Got_Settings 0 (Inr 0)]"]
  by (simp add: signed_in_def quiet_call_def later_event_def Let_def)

text \<open>Without these conditions it is not: the last answer of a start of the session and a profile update bring the user
  back, with no token.\<close>

lemma filter_calls_map_of: "i \<noteq> j \<Longrightarrow> map_of (filter (\<lambda>(k, _). k \<noteq> i) cs) j = map_of cs j"
  by (induction cs) auto

lemma sign_out_undone:
  assumes "map_of (ac_calls x) i = Some Signing_Out" and "map_of (ac_calls x) j = Some (Init_Settings u)" and "i \<noteq> j"
  shows "au_currentUser (ac_state (foldl (auth_step sc server) x [Signed_Out i, Got_Settings j (Inr v)])) = Some u"
    and "au_currentUser (ac_state (foldl (auth_step sc server) x [Signed_Out i, Set_Current_User u])) = Some u"
    and "fst (getAccessToken now (ac_session (auth_step sc server x (Signed_Out i)))) = None"
proof -
  have "map_of (filter (\<lambda>(k, _). k \<noteq> i) (ac_calls x)) j = map_of (ac_calls x) j"
    using assms(3) filter_calls_map_of by fastforce
  then have c: "map_of (ac_calls (logout_end sc i x)) j = Some (Init_Settings u)"
    using assms(2) by (simp add: logout_end_def sign_out_here_def done_call_def)
  show "au_currentUser (ac_state (foldl (auth_step sc server) x [Signed_Out i, Got_Settings j (Inr v)])) = Some u"
    using assms(1) c by (simp add: auth_step_def initialize_settings_def versioned_def)
  show "au_currentUser (ac_state (foldl (auth_step sc server) x [Signed_Out i, Set_Current_User u])) = Some u"
    using assms(1) by (simp add: auth_step_def setCurrentUser_def Let_def)
  show "fst (getAccessToken now (ac_session (auth_step sc server x (Signed_Out i)))) = None"
    using assms(1) by (simp add: auth_step_def logout_end_def sign_out_here_def cleared_no_token clear_twice)
qed

section \<open>The callback page\<close>

text \<open>
  \<open>decodeURIComponent\<close>; \<open>None\<close> is its \<open>URIError\<close>. A character beyond those of the model is shown as a
  question mark.
\<close>

definition is_hex :: "char \<Rightarrow> bool" where
  "is_hex c \<longleftrightarrow> is_digit c \<or> code_unit c \<in> {65..70} \<or> code_unit c \<in> {97..102}"

definition hex_digit :: "char \<Rightarrow> nat" where
  "hex_digit c = (let n = code_unit c in if n < 58 then n - 48 else if n < 71 then n - 55 else n - 87)"

text \<open>The number of bytes that follow the first byte of a character in UTF-8.\<close>

definition utf8_rest :: "nat \<Rightarrow> nat option" where
  "utf8_rest b =
     (if b < 128 then Some 0 else if 194 \<le> b \<and> b < 224 then Some 1 else if 224 \<le> b \<and> b < 240 then Some 2
      else if 240 \<le> b \<and> b < 245 then Some 3 else None)"

definition utf8_second :: "nat \<Rightarrow> nat \<Rightarrow> bool" where
  "utf8_second a b =
     (if a = 224 then 160 \<le> b \<and> b < 192 else if a = 237 then 128 \<le> b \<and> b < 160 else if a = 240 then 144 \<le> b \<and> b < 192
      else if a = 244 then 128 \<le> b \<and> b < 144 else 128 \<le> b \<and> b < 192)"

definition utf8_char :: "nat list \<Rightarrow> char option" where
  "utf8_char bs =
     (case bs of
        [a] \<Rightarrow> Some (unit_char a)
      | a # b # r \<Rightarrow>
          if \<not> utf8_second a b \<or> \<not> list_all (\<lambda>c. 128 \<le> c \<and> c < 192) r then None
          else if r = [] \<and> a < 196 then Some (unit_char ((a - 192) * 64 + (b - 128))) else Some CHR ''?''
      | [] \<Rightarrow> None)"

text \<open>\<open>n\<close> bytes written as a percent sign and two digits each.\<close>

fun percent_bytes :: "nat \<Rightarrow> string \<Rightarrow> (nat list \<times> string) option" where
  "percent_bytes 0 s = Some ([], s)"
| "percent_bytes (Suc n) (p # a # b # r) =
     (if p = CHR 0x25 \<and> is_hex a \<and> is_hex b
      then map_option (\<lambda>(bs, r'). ((hex_digit a * 16 + hex_digit b) # bs, r')) (percent_bytes n r) else None)"
| "percent_bytes (Suc n) _ = None"

fun decode_fuel :: "nat \<Rightarrow> string \<Rightarrow> string option" where
  "decode_fuel 0 _ = Some []"
| "decode_fuel (Suc n) [] = Some []"
| "decode_fuel (Suc n) (c # s) =
     (if c \<noteq> CHR 0x25 then map_option (Cons c) (decode_fuel n s)
      else
        (case percent_bytes 1 (c # s) of
           Some ([b], _) \<Rightarrow>
             (case utf8_rest b of
                None \<Rightarrow> None
              | Some k \<Rightarrow>
                  (case percent_bytes (Suc k) (c # s) of
                     None \<Rightarrow> None
                   | Some (bs, r) \<Rightarrow>
                       (case utf8_char bs of None \<Rightarrow> None | Some d \<Rightarrow> map_option (Cons d) (decode_fuel n r))))
         | _ \<Rightarrow> None))"

definition decodeURIComponent :: "string \<Rightarrow> string option" where
  "decodeURIComponent s = decode_fuel (length s) s"

text \<open>The parameters of the address, the requests, and what the effect does.\<close>

record callback_params =
  cb_error :: "string option"
  cb_errorDescription :: "string option"
  cb_errorUri :: "string option"
  cb_code :: "string option"
  cb_state :: "string option"

datatype callback_request =
    Create_Linked_Identity string string string string string
  | Sign_In_SSO string string string string

datatype callback_result =
    Idle_Callback
  | Throws
  | Error_Shown string
  | Link_Refused string
  | Requests callback_request "string option"

definition text_of :: "string option \<Rightarrow> string" where
  "text_of s = (case s of None \<Rightarrow> [] | Some t \<Rightarrow> t)"

text \<open>The message for an answer of the provider with an error.\<close>

definition provider_error :: "callback_params \<Rightarrow> string \<Rightarrow> callback_result" where
  "provider_error p err =
     (let m1 = ''OAuth error: '' @ err;
          uri = (if truthy (cb_errorUri p) then CHR 0x0A # ''More info: '' @ text_of (cb_errorUri p) else []) in
      if truthy (cb_errorDescription p) then
        (case decodeURIComponent (text_of (cb_errorDescription p)) of
           None \<Rightarrow> Throws
         | Some d \<Rightarrow> Error_Shown (m1 @ CHR 0x0A # d @ uri))
      else Error_Shown (m1 @ uri))"

definition callback_flow :: "string \<Rightarrow> user option \<Rightarrow> string \<Rightarrow> oauth_result \<Rightarrow> callback_result" where
  "callback_flow redirectUri currentUser code v =
     (let verifier = text_of (or_codeVerifier v) in
      if or_flowMode v = Link then
        (case currentUser of
           None \<Rightarrow> Link_Refused ''Failed to link account. Please sign in to Memos again and retry.''
         | Some u \<Rightarrow>
             if u_name u = [] then Link_Refused ''Failed to link account. Please sign in to Memos again and retry.''
             else if truthy (or_linkingUserName v) \<and> Some (u_name u) \<noteq> or_linkingUserName v
             then Link_Refused ''The signed-in user changed before the OAuth callback completed. Please retry linking from account settings.''
             else Requests (Create_Linked_Identity (u_name u) (or_identityProviderName v) code redirectUri verifier) (or_returnUrl v))
      else Requests (Sign_In_SSO (or_identityProviderName v) code redirectUri verifier) (or_returnUrl v))"

text \<open>The effect of the page: the result, whether the callback counts as handled, and the storage.\<close>

definition auth_callback ::
  "string \<Rightarrow> bool \<Rightarrow> bool \<Rightarrow> callback_params \<Rightarrow> user option \<Rightarrow> int \<Rightarrow> session_storage
     \<Rightarrow> callback_result \<times> bool \<times> session_storage" where
  "auth_callback redirectUri isInitialized handled p currentUser now ss =
     (if \<not> isInitialized then (Idle_Callback, handled, ss)
      else if handled then (Idle_Callback, handled, ss)
      else if truthy (cb_error p) then (provider_error p (text_of (cb_error p)), handled, ss)
      else if \<not> truthy (cb_code p) \<or> \<not> truthy (cb_state p)
        then (Error_Shown ''Failed to authorize. Missing authorization code or state parameter.'', handled, ss)
      else
        (case validateOAuthState now (text_of (cb_state p)) ss of
           (Inl _, ss') \<Rightarrow> (Throws, handled, ss')
         | (Inr None, ss') \<Rightarrow>
             (Error_Shown ''Failed to authorize. Invalid or expired state parameter. This may indicate a CSRF attack attempt.'', handled, ss')
         | (Inr (Some v), ss') \<Rightarrow> (callback_flow redirectUri currentUser (text_of (cb_code p)) v, True, ss')))"

text \<open>Where the page goes after its request and the new start of the session.\<close>

definition callback_target :: "string option \<Rightarrow> string" where
  "callback_target returnUrl = (case getSafeRedirectPath returnUrl of None \<Rightarrow> ''/'' | Some p \<Rightarrow> p)"

text \<open>C27: The callback page sends a request only with a code, and only when its state parameter is the one stored by this
  browser at most ten minutes ago; the state is gone afterwards, so the effect sends nothing when it runs again. The
  request carries the stored provider and verifier; it links only to the signed-in user, who must be the one who began
  the linking when the stored state names one; and the page it goes to begins with one slash.\<close>

theorem callback_safe:
  assumes "auth_callback uri ini handled p currentUser now ss = (Requests req returnUrl, h, ss')"
  shows "(\<exists>d code. ss = Some (Some (Stored d)) \<and> cb_state p = Some (oa_state d) \<and> cb_code p = Some code
      \<and> now - oa_timestamp d \<le> 600000 \<and> returnUrl = oa_returnUrl d
      \<and> (case req of
           Sign_In_SSO idp c u v \<Rightarrow> oa_flowMode d \<noteq> Some Link \<and> idp = oa_identityProviderName d \<and> c = code
             \<and> v = text_of (oa_codeVerifier d)
         | Create_Linked_Identity parent idp c u v \<Rightarrow> oa_flowMode d = Some Link \<and> idp = oa_identityProviderName d
             \<and> c = code \<and> v = text_of (oa_codeVerifier d) \<and> map_option u_name currentUser = Some parent
             \<and> (oa_linkingUserName d = None \<or> oa_linkingUserName d = Some [] \<or> oa_linkingUserName d = Some parent)))
    \<and> h \<and> ss' = Some None
    \<and> fst (auth_callback uri ini h p2 currentUser2 now2 ss') = Idle_Callback
    \<and> startsWith (callback_target returnUrl) ''/'' \<and> \<not> startsWith (callback_target returnUrl) ''//''"
proof -
  have target: "startsWith (callback_target returnUrl) ''/'' \<and> \<not> startsWith (callback_target returnUrl) ''//''"
    by (auto simp: callback_target_def getSafeRedirectPath_def split: option.splits if_splits)
  obtain d where d: "ss = Some (Some (Stored d))" "now - oa_timestamp d \<le> 600000" "oa_state d = text_of (cb_state p)"
      "ss' = Some None" "h" "ini" "\<not> handled" "truthy (cb_code p)" "truthy (cb_state p)"
    and flow: "callback_flow uri currentUser (text_of (cb_code p)) \<lparr>or_identityProviderName = oa_identityProviderName d,
                       or_flowMode = (case oa_flowMode d of None \<Rightarrow> Signin | Some m \<Rightarrow> m),
                       or_returnUrl = oa_returnUrl d, or_linkingUserName = oa_linkingUserName d,
                       or_codeVerifier = oa_codeVerifier d\<rparr> = Requests req returnUrl"
    using assms
    by (auto simp: auth_callback_def provider_error_def validateOAuthState_def STATE_EXPIRY_MS_def Let_def
        split: if_splits option.splits stored_state.splits)
  then show ?thesis using target
    by (auto simp: callback_flow_def auth_callback_def truthy_def text_of_def Let_def
        split: if_splits option.splits oauth_flow_mode.splits)
qed

definition stored_link :: oauth_state where
  "stored_link = \<lparr>oa_state = ''s1'', oa_identityProviderName = ''idp'', oa_flowMode = Some Link, oa_timestamp = 5,
     oa_returnUrl = Some ''/setting'', oa_linkingUserName = Some ''users/a'', oa_codeVerifier = None\<rparr>"

theorem callback_safe_witness:
  "(let p = \<lparr>cb_error = None, cb_errorDescription = None, cb_errorUri = None, cb_code = Some ''c'', cb_state = Some ''s1''\<rparr> in
    auth_callback ''u'' True False p (Some (empty_user\<lparr>u_name := ''users/a''\<rparr>)) 9 (Some (Some (Stored stored_link))) =
      (Requests (Create_Linked_Identity ''users/a'' ''idp'' ''c'' ''u'' []) (Some ''/setting''), True, Some None)
    \<and> fst (auth_callback ''u'' True True p (Some (empty_user\<lparr>u_name := ''users/b''\<rparr>)) 10 (Some None)) = Idle_Callback
    \<and> startsWith (callback_target (Some ''/setting'')) ''/'' \<and> \<not> startsWith (callback_target (Some ''/setting'')) ''//'')"
proof -
  let ?p = "\<lparr>cb_error = None, cb_errorDescription = None, cb_errorUri = None, cb_code = Some ''c'', cb_state = Some ''s1''\<rparr>"
  have a: "auth_callback ''u'' True False ?p (Some (empty_user\<lparr>u_name := ''users/a''\<rparr>)) 9 (Some (Some (Stored stored_link))) =
      (Requests (Create_Linked_Identity ''users/a'' ''idp'' ''c'' ''u'' []) (Some ''/setting''), True, Some None)"
    by (simp add: auth_callback_def validateOAuthState_def STATE_EXPIRY_MS_def callback_flow_def truthy_def text_of_def
        stored_link_def)
  note c = callback_safe [OF a, of ?p "Some (empty_user\<lparr>u_name := ''users/b''\<rparr>)" 10]
  show ?thesis unfolding Let_def using a c by blast
qed

text \<open>The description of a provider's error is decoded a second time: a percent sign in it, as in \<open>100%\<close>, makes the
  page throw instead of showing the error, and an encoded one is shown decoded twice.\<close>

theorem callback_double_decoding:
  "auth_callback uri True False \<lparr>cb_error = Some ''access_denied'', cb_errorDescription = Some ''quota at 100%'',
      cb_errorUri = None, cb_code = None, cb_state = None\<rparr> currentUser now ss = (Throws, False, ss)
   \<and> decodeURIComponent ''%2541'' = Some ''%41'' \<and> decodeURIComponent ''%41'' = Some ''A''"
proof -
  have "decodeURIComponent ''quota at 100%'' = None" by code_simp
  moreover have "decodeURIComponent ''%2541'' = Some ''%41'' \<and> decodeURIComponent ''%41'' = Some ''A''" by code_simp
  ultimately show ?thesis by (simp add: auth_callback_def provider_error_def truthy_def text_of_def)
qed

end
