(* ===== verification/Webhooks.thy ===== *)
theory Webhooks
  imports MemoActions AuthFlow AuthSession
begin

text \<open>
  The webhooks of a user (\<^verbatim>\<open>components/Settings/WebhookSection.tsx\<close> with the dialog of
  \<^verbatim>\<open>components/CreateWebhookDialog.tsx\<close>, which it shows twice, to create and to edit). The dialog to edit has the
  name of its webhook as its key: for another name it starts afresh, and what an earlier one still waits for only
  reaches the section. The user is fixed; texts to copy and the mark that shows a copy are left out.
\<close>

section \<open>State\<close>

record webhook_dialog =
  wd_webhookName :: "string option"
  wd_displayName :: string
  wd_url :: string
  wd_requesting :: bool
  wd_secretLoading :: bool
  wd_hasExistingSecret :: bool
  wd_revealedSecret :: "string option"
  wd_createdSecret :: "string option"

definition fresh_dialog :: "string option \<Rightarrow> webhook_dialog" where
  "fresh_dialog name =
     \<lparr>wd_webhookName = name, wd_displayName = [], wd_url = [], wd_requesting = False, wd_secretLoading = False,
      wd_hasExistingSecret = False, wd_revealedSecret = None, wd_createdSecret = None\<rparr>"

text \<open>The requests that change something, and the calls under way with what they do next; those of the dialog to edit
  know which of its lives they belong to.\<close>

datatype webhook_request =
    Create_Webhook string string string
  | Update_Webhook string string string
  | Set_Secret string string
  | Delete_Webhook string

datatype webhook_call =
    Listing
  | Form_Listing nat string
  | Creating
  | Created_Secret
  | Created_Listing
  | Updating nat
  | Edited_Listing
  | Revealing nat
  | Generating nat string
  | Deleting string string

datatype which_dialog = Create_Dialog | Edit_Dialog

text \<open>The section. \<open>ws_unlisted\<close> records that a webhook was created and the list not asked for since.\<close>

record webhook_section =
  ws_user :: "string option"
  ws_webhooks :: "user_webhook list"
  ws_createOpen :: bool
  ws_create :: webhook_dialog
  ws_editingName :: "string option"
  ws_edit :: webhook_dialog
  ws_life :: nat
  ws_deleteTarget :: "user_webhook option"
  ws_confirming :: bool
  ws_calls :: "webhook_call list"
  ws_requests :: "webhook_request list"
  ws_toasts :: "toast list"
  ws_unlisted :: bool

definition the_dialog :: "which_dialog \<Rightarrow> webhook_section \<Rightarrow> webhook_dialog" where
  "the_dialog d s = (case d of Create_Dialog \<Rightarrow> ws_create s | Edit_Dialog \<Rightarrow> ws_edit s)"

definition in_dialog :: "which_dialog \<Rightarrow> (webhook_dialog \<Rightarrow> webhook_dialog) \<Rightarrow> webhook_section \<Rightarrow> webhook_section" where
  "in_dialog d f s =
     (case d of Create_Dialog \<Rightarrow> s\<lparr>ws_create := f (ws_create s)\<rparr> | Edit_Dialog \<Rightarrow> s\<lparr>ws_edit := f (ws_edit s)\<rparr>)"

definition in_life :: "nat \<Rightarrow> (webhook_dialog \<Rightarrow> webhook_dialog) \<Rightarrow> webhook_section \<Rightarrow> webhook_section" where
  "in_life n f s = (if n = ws_life s then in_dialog Edit_Dialog f s else s)"

definition toast_hook :: "toast \<Rightarrow> webhook_section \<Rightarrow> webhook_section" where
  "toast_hook t s = s\<lparr>ws_toasts := ws_toasts s @ [t]\<rparr>"

definition call_hook :: "webhook_call \<Rightarrow> webhook_section \<Rightarrow> webhook_section" where
  "call_hook c s = s\<lparr>ws_calls := ws_calls s @ [c]\<rparr>"

definition send_hook :: "webhook_request \<Rightarrow> webhook_call \<Rightarrow> webhook_section \<Rightarrow> webhook_section" where
  "send_hook r c s = call_hook c (s\<lparr>ws_requests := ws_requests s @ [r]\<rparr>)"

section \<open>The section\<close>

definition dialog_open :: "which_dialog \<Rightarrow> webhook_section \<Rightarrow> bool" where
  "dialog_open d s \<longleftrightarrow>
     (case d of Create_Dialog \<Rightarrow> ws_createOpen s | Edit_Dialog \<Rightarrow> (case ws_editingName s of None \<Rightarrow> False | Some n \<Rightarrow> n \<noteq> []))"

text \<open>The effect of the dialog that reads the webhook it edits.\<close>

definition read_form :: "webhook_section \<Rightarrow> webhook_section" where
  "read_form s =
     (case (wd_webhookName (ws_edit s), ws_user s) of
        (Some n, Some _) \<Rightarrow> if n = [] then s else call_hook (Form_Listing (ws_life s) n) s
      | _ \<Rightarrow> s)"

definition setEditingWebhookName :: "string option \<Rightarrow> webhook_section \<Rightarrow> webhook_section" where
  "setEditingWebhookName name s =
     (if ws_editingName s = name then s
      else read_form (s\<lparr>ws_editingName := name, ws_edit := fresh_dialog name, ws_life := Suc (ws_life s)\<rparr>))"

definition created_listed :: "user_webhook list \<Rightarrow> webhook_section \<Rightarrow> webhook_section" where
  "created_listed webhooks s =
     (let name = (if webhooks = [] then [] else uw_displayName (last webhooks)) in
      toast_hook (Toast_Success (''setting.webhook.create-dialog.create-webhook-success '' @ name))
        (s\<lparr>ws_webhooks := webhooks, ws_createOpen := False\<rparr>))"

definition edited_listed :: "user_webhook list \<Rightarrow> webhook_section \<Rightarrow> webhook_section" where
  "edited_listed webhooks s = setEditingWebhookName None (s\<lparr>ws_webhooks := webhooks\<rparr>)"

text \<open>What the dialogs report to the section; without a user the list is empty at once.\<close>

definition handleCreateWebhookDialogConfirm :: "webhook_section \<Rightarrow> webhook_section" where
  "handleCreateWebhookDialogConfirm s =
     (let s1 = s\<lparr>ws_unlisted := False\<rparr> in
      case ws_user s of None \<Rightarrow> created_listed [] s1 | Some _ \<Rightarrow> call_hook Created_Listing s1)"

definition handleEditWebhookDialogConfirm :: "webhook_section \<Rightarrow> webhook_section" where
  "handleEditWebhookDialogConfirm s =
     (case ws_user s of None \<Rightarrow> edited_listed [] s | Some _ \<Rightarrow> call_hook Edited_Listing s)"

definition hook_onSuccess :: "which_dialog \<Rightarrow> webhook_section \<Rightarrow> webhook_section" where
  "hook_onSuccess d s =
     (case d of Create_Dialog \<Rightarrow> handleCreateWebhookDialogConfirm s | Edit_Dialog \<Rightarrow> handleEditWebhookDialogConfirm s)"

definition close_dialog :: "which_dialog \<Rightarrow> webhook_section \<Rightarrow> webhook_section" where
  "close_dialog d s =
     (case d of Create_Dialog \<Rightarrow> s\<lparr>ws_createOpen := False\<rparr> | Edit_Dialog \<Rightarrow> setEditingWebhookName None s)"

definition confirmDeleteWebhook :: "webhook_section \<Rightarrow> webhook_section" where
  "confirmDeleteWebhook s =
     (case ws_deleteTarget s of
        None \<Rightarrow> s
      | Some w \<Rightarrow> send_hook (Delete_Webhook (uw_name w)) (Deleting (uw_name w) (uw_displayName w)) (s\<lparr>ws_confirming := True\<rparr>))"

definition webhook_deleted :: "string \<Rightarrow> string \<Rightarrow> webhook_section \<Rightarrow> webhook_section" where
  "webhook_deleted name displayName s =
     toast_hook (Toast_Success (''setting.webhook.delete-dialog.delete-webhook-success '' @ displayName))
       (s\<lparr>ws_webhooks := filter (\<lambda>w. uw_name w \<noteq> name) (ws_webhooks s), ws_deleteTarget := None, ws_confirming := False\<rparr>)"

section \<open>The dialog\<close>

text \<open>The effect of opening the dialog to create.\<close>

definition open_create :: "webhook_section \<Rightarrow> webhook_section" where
  "open_create s =
     in_dialog Create_Dialog
       (\<lambda>w. w\<lparr>wd_displayName := [], wd_url := [], wd_hasExistingSecret := False, wd_revealedSecret := None, wd_createdSecret := None\<rparr>)
       (s\<lparr>ws_createOpen := True\<rparr>)"

definition hook_handleOpenChange :: "which_dialog \<Rightarrow> webhook_section \<Rightarrow> webhook_section" where
  "hook_handleOpenChange d s =
     close_dialog d (if wd_createdSecret (the_dialog d s) \<noteq> None then hook_onSuccess d s else s)"

definition hook_handleSaveBtnClick :: "which_dialog \<Rightarrow> webhook_section \<Rightarrow> webhook_section" where
  "hook_handleSaveBtnClick d s =
     (let w = the_dialog d s in
      if wd_displayName w = [] \<or> wd_url w = [] then toast_hook (Toast_Error ''message.fill-all-required-fields'') s
      else case ws_user s of
        None \<Rightarrow> toast_hook (Toast_Error ''User not authenticated'') s
      | Some parent \<Rightarrow>
          let s1 = in_dialog d (\<lambda>w. w\<lparr>wd_requesting := True\<rparr>) s in
          case wd_webhookName w of
            None \<Rightarrow> send_hook (Create_Webhook parent (wd_displayName w) (wd_url w)) Creating s1
          | Some n \<Rightarrow> send_hook (Update_Webhook n (wd_displayName w) (wd_url w)) (Updating (ws_life s)) s1)"

definition secret_of :: "nat list \<Rightarrow> string" where
  "secret_of bytes = ''whsec_'' @ base64 bytes"

definition handleRevealSecret :: "webhook_section \<Rightarrow> webhook_section" where
  "handleRevealSecret s =
     (case wd_webhookName (ws_edit s) of
        None \<Rightarrow> s
      | Some n \<Rightarrow> if n = [] then s
          else call_hook (Revealing (ws_life s)) (in_dialog Edit_Dialog (\<lambda>w. w\<lparr>wd_secretLoading := True\<rparr>) s))"

definition handleGenerateSecret :: "nat list \<Rightarrow> webhook_section \<Rightarrow> webhook_section" where
  "handleGenerateSecret bytes s =
     (case wd_webhookName (ws_edit s) of
        None \<Rightarrow> s
      | Some n \<Rightarrow> if n = [] then s
          else send_hook (Set_Secret n (secret_of bytes)) (Generating (ws_life s) (secret_of bytes))
            (in_dialog Edit_Dialog (\<lambda>w. w\<lparr>wd_secretLoading := True\<rparr>) s))"

text \<open>The answers to the dialog's requests.\<close>

definition form_listed :: "nat \<Rightarrow> string \<Rightarrow> user_webhook list \<Rightarrow> webhook_section \<Rightarrow> webhook_section" where
  "form_listed n name webhooks s =
     (case List.find (\<lambda>w. uw_name w = name) webhooks of
        None \<Rightarrow> s
      | Some x \<Rightarrow> in_life n (\<lambda>w. w\<lparr>wd_displayName := uw_displayName x, wd_url := uw_url x,
          wd_hasExistingSecret := uw_signingSecretSet x\<rparr>) s)"

definition not_requesting :: "webhook_dialog \<Rightarrow> webhook_dialog" where
  "not_requesting w = w\<lparr>wd_requesting := False\<rparr>"

definition secret_received :: "string option \<Rightarrow> webhook_section \<Rightarrow> webhook_section" where
  "secret_received answer s =
     (let s1 = in_dialog Create_Dialog not_requesting s in
      case answer of
        Some secret \<Rightarrow> in_dialog Create_Dialog (\<lambda>w. w\<lparr>wd_createdSecret := Some secret\<rparr>) s1
      | None \<Rightarrow> close_dialog Create_Dialog (handleCreateWebhookDialogConfirm s1))"

definition secret_failed :: "string \<Rightarrow> nat \<Rightarrow> thrown \<Rightarrow> webhook_section \<Rightarrow> webhook_section" where
  "secret_failed what n e s =
     toast_hook (Toast_Error (handleError e (Some what) None)) (in_life n (\<lambda>w. w\<lparr>wd_secretLoading := False\<rparr>) s)"

section \<open>Events\<close>

datatype webhook_answer = Webhooks "user_webhook list" | Created | Secret string | Success | Failure thrown

text \<open>What a call goes on with; the section is the one without the call. Other answers do not occur.\<close>

fun hook_continued :: "webhook_call \<Rightarrow> webhook_answer \<Rightarrow> webhook_section \<Rightarrow> webhook_section option" where
  "hook_continued Listing (Webhooks ws) s = Some (s\<lparr>ws_webhooks := ws\<rparr>)"
| "hook_continued Listing (Failure _) s = Some s"
| "hook_continued (Form_Listing n name) (Webhooks ws) s = Some (form_listed n name ws s)"
| "hook_continued (Form_Listing n name) (Failure _) s = Some s"
| "hook_continued Creating Created s = Some (call_hook Created_Secret (s\<lparr>ws_unlisted := True\<rparr>))"
| "hook_continued Creating (Failure e) s =
     Some (toast_hook (Toast_Error (handleError e (Some ''Create webhook'') None)) (in_dialog Create_Dialog not_requesting s))"
| "hook_continued Created_Secret (Secret secret) s = Some (secret_received (Some secret) s)"
| "hook_continued Created_Secret (Failure _) s = Some (secret_received None s)"
| "hook_continued Created_Listing (Webhooks ws) s = Some (created_listed ws s)"
| "hook_continued Created_Listing (Failure _) s = Some s"
| "hook_continued (Updating n) Success s =
     Some (in_life n not_requesting (close_dialog Edit_Dialog (handleEditWebhookDialogConfirm s)))"
| "hook_continued (Updating n) (Failure e) s =
     Some (toast_hook (Toast_Error (handleError e (Some ''Update webhook'') None)) (in_life n not_requesting s))"
| "hook_continued Edited_Listing (Webhooks ws) s = Some (edited_listed ws s)"
| "hook_continued Edited_Listing (Failure _) s = Some s"
| "hook_continued (Revealing n) (Secret secret) s =
     Some (in_life n (\<lambda>w. w\<lparr>wd_revealedSecret := Some secret, wd_secretLoading := False\<rparr>) s)"
| "hook_continued (Revealing n) (Failure e) s = Some (secret_failed ''Reveal signing secret'' n e s)"
| "hook_continued (Generating n secret) Success s =
     Some (in_life n (\<lambda>w. w\<lparr>wd_hasExistingSecret := True, wd_revealedSecret := Some secret, wd_secretLoading := False\<rparr>) s)"
| "hook_continued (Generating n secret) (Failure e) s = Some (secret_failed ''Generate signing secret'' n e s)"
| "hook_continued (Deleting name displayName) Success s = Some (webhook_deleted name displayName s)"
| "hook_continued (Deleting name displayName) (Failure _) s = Some (s\<lparr>ws_confirming := False\<rparr>)"
| "hook_continued _ _ s = None"

definition without_call :: "nat \<Rightarrow> webhook_section \<Rightarrow> webhook_section" where
  "without_call i s = s\<lparr>ws_calls := take i (ws_calls s) @ drop (Suc i) (ws_calls s)\<rparr>"

definition hook_answered :: "nat \<Rightarrow> webhook_answer \<Rightarrow> webhook_section \<Rightarrow> webhook_section" where
  "hook_answered i a s =
     (if length (ws_calls s) \<le> i then s
      else case hook_continued (ws_calls s ! i) a (without_call i s) of None \<Rightarrow> s | Some s' \<Rightarrow> s')"

datatype webhook_event =
    User_Renewed
  | Create_Button
  | Edit_Button nat
  | Delete_Button nat
  | Type_Name which_dialog string
  | Type_Url which_dialog string
  | Save_Button which_dialog
  | Cancel_Button which_dialog
  | Dismiss which_dialog
  | Reveal_Button
  | Generate_Button "nat list"
  | Delete_Cancelled
  | Delete_Confirmed
  | Answer nat webhook_answer

text \<open>No dialog covers the section.\<close>

definition uncovered :: "webhook_section \<Rightarrow> bool" where
  "uncovered s \<longleftrightarrow> \<not> dialog_open Create_Dialog s \<and> \<not> dialog_open Edit_Dialog s \<and> ws_deleteTarget s = None"

text \<open>The buttons: the form with its buttons is replaced once a secret was created; closing then is a dismissal.\<close>

definition form_shown :: "which_dialog \<Rightarrow> webhook_section \<Rightarrow> bool" where
  "form_shown d s \<longleftrightarrow> dialog_open d s \<and> wd_createdSecret (the_dialog d s) = None"

definition secret_buttons :: "bool \<Rightarrow> webhook_section \<Rightarrow> bool" where
  "secret_buttons has s \<longleftrightarrow>
     form_shown Edit_Dialog s \<and> wd_webhookName (ws_edit s) \<noteq> None \<and> wd_revealedSecret (ws_edit s) = None
     \<and> wd_hasExistingSecret (ws_edit s) = has \<and> \<not> wd_secretLoading (ws_edit s)"

definition webhook_step :: "webhook_section \<Rightarrow> webhook_event \<Rightarrow> webhook_section" where
  "webhook_step s e =
     (case e of
        User_Renewed \<Rightarrow> read_form (case ws_user s of None \<Rightarrow> s\<lparr>ws_webhooks := []\<rparr> | Some _ \<Rightarrow> call_hook Listing s)
      | Create_Button \<Rightarrow> if uncovered s then open_create s else s
      | Edit_Button k \<Rightarrow> if uncovered s \<and> k < length (ws_webhooks s)
          then setEditingWebhookName (Some (uw_name (ws_webhooks s ! k))) s else s
      | Delete_Button k \<Rightarrow> if uncovered s \<and> k < length (ws_webhooks s) then s\<lparr>ws_deleteTarget := Some (ws_webhooks s ! k)\<rparr> else s
      | Type_Name d v \<Rightarrow> if form_shown d s then in_dialog d (\<lambda>w. w\<lparr>wd_displayName := v\<rparr>) s else s
      | Type_Url d v \<Rightarrow> if form_shown d s then in_dialog d (\<lambda>w. w\<lparr>wd_url := v\<rparr>) s else s
      | Save_Button d \<Rightarrow> if form_shown d s \<and> \<not> wd_requesting (the_dialog d s) then hook_handleSaveBtnClick d s else s
      | Cancel_Button d \<Rightarrow> if form_shown d s \<and> \<not> wd_requesting (the_dialog d s) then close_dialog d s else s
      | Dismiss d \<Rightarrow> if dialog_open d s then hook_handleOpenChange d s else s
      | Reveal_Button \<Rightarrow> if secret_buttons True s then handleRevealSecret s else s
      | Generate_Button bytes \<Rightarrow> if secret_buttons False s then handleGenerateSecret bytes s else s
      | Delete_Cancelled \<Rightarrow> if ws_confirming s then s else s\<lparr>ws_deleteTarget := None\<rparr>
      | Delete_Confirmed \<Rightarrow> if ws_confirming s then s else confirmDeleteWebhook s
      | Answer i a \<Rightarrow> hook_answered i a s)"

text \<open>The section as it is mounted.\<close>

definition webhooks_mount :: "string option \<Rightarrow> webhook_section" where
  "webhooks_mount user =
     \<lparr>ws_user = user, ws_webhooks = [], ws_createOpen = False, ws_create = fresh_dialog None, ws_editingName = None,
      ws_edit = fresh_dialog None, ws_life = 0, ws_deleteTarget = None, ws_confirming = False,
      ws_calls = (if user = None then [] else [Listing]), ws_requests = [], ws_toasts = [], ws_unlisted = False\<rparr>"

section \<open>What the section sends\<close>

definition creation :: "webhook_call \<Rightarrow> bool" where
  "creation c = (case c of Creating \<Rightarrow> True | Created_Secret \<Rightarrow> True | _ \<Rightarrow> False)"

definition webhook_request_ok :: "string option \<Rightarrow> string set \<Rightarrow> webhook_request \<Rightarrow> bool" where
  "webhook_request_ok user known r =
     (case r of
        Create_Webhook parent displayName url \<Rightarrow> user = Some parent \<and> displayName \<noteq> [] \<and> url \<noteq> []
      | Update_Webhook n displayName url \<Rightarrow> n \<in> known \<and> displayName \<noteq> [] \<and> url \<noteq> []
      | Set_Secret n secret \<Rightarrow> n \<in> known \<and> n \<noteq> [] \<and> startsWith secret ''whsec_''
      | Delete_Webhook n \<Rightarrow> n \<in> known)"

definition hooks_ok :: "string option \<Rightarrow> string set \<Rightarrow> webhook_section \<Rightarrow> bool" where
  "hooks_ok user known s \<longleftrightarrow>
     ws_user s = user \<and> uw_name ` set (ws_webhooks s) \<subseteq> known
     \<and> (case ws_editingName s of None \<Rightarrow> True | Some n \<Rightarrow> n \<in> known)
     \<and> wd_webhookName (ws_edit s) = ws_editingName s \<and> wd_webhookName (ws_create s) = None
     \<and> (case ws_deleteTarget s of None \<Rightarrow> True | Some w \<Rightarrow> uw_name w \<in> known)
     \<and> list_all (webhook_request_ok user known) (ws_requests s)
     \<and> length (filter creation (ws_calls s)) = (if wd_requesting (ws_create s) then 1 else 0)"

lemma hooks_ok_more:
  assumes "hooks_ok user known s"
  shows "hooks_ok user known (toast_hook t s)"
    and "\<not> creation c \<Longrightarrow> hooks_ok user known (call_hook c s)"
    and "\<lbrakk>\<not> creation c; webhook_request_ok user known r\<rbrakk> \<Longrightarrow> hooks_ok user known (send_hook r c s)"
    and "\<lbrakk>\<And>w. wd_webhookName (f w) = wd_webhookName w\<rbrakk> \<Longrightarrow> hooks_ok user known (in_dialog Edit_Dialog f s)"
    and "\<lbrakk>\<And>w. wd_webhookName (f w) = wd_webhookName w; \<And>w. wd_requesting (f w) = wd_requesting w\<rbrakk> \<Longrightarrow>
      hooks_ok user known (in_dialog d f s)"
    and "hooks_ok user known (s\<lparr>ws_createOpen := b\<rparr>)" and "hooks_ok user known (s\<lparr>ws_confirming := b\<rparr>)"
    and "hooks_ok user known (s\<lparr>ws_unlisted := b\<rparr>)" and "hooks_ok user known (s\<lparr>ws_deleteTarget := None\<rparr>)"
  using assms
  by (cases d; simp add: hooks_ok_def toast_hook_def call_hook_def send_hook_def in_dialog_def)+

lemma hook_list_ok: "hooks_ok user known s \<Longrightarrow> uw_name ` set ws \<subseteq> known \<Longrightarrow> hooks_ok user known (s\<lparr>ws_webhooks := ws\<rparr>)"
  by (simp add: hooks_ok_def)

lemma hook_life_ok:
  "hooks_ok user known s \<Longrightarrow> (\<And>w. wd_webhookName (f w) = wd_webhookName w) \<Longrightarrow> hooks_ok user known (in_life n f s)"
  by (simp add: in_life_def hooks_ok_more)

lemma hook_read_form_ok: "hooks_ok user known s \<Longrightarrow> hooks_ok user known (read_form s)"
  by (simp add: read_form_def hooks_ok_more creation_def split: option.split)

lemma hook_editing_ok:
  "hooks_ok user known s \<Longrightarrow> (case name of None \<Rightarrow> True | Some n \<Rightarrow> n \<in> known) \<Longrightarrow> hooks_ok user known (setEditingWebhookName name s)"
  using hook_read_form_ok [of user known "s\<lparr>ws_editingName := name, ws_edit := fresh_dialog name, ws_life := Suc (ws_life s)\<rparr>"]
  by (simp add: setEditingWebhookName_def hooks_ok_def [of user known s] hooks_ok_def [of user known "s\<lparr>ws_editingName := x, ws_edit := y, ws_life := z\<rparr>" for x y z]
      fresh_dialog_def)

lemma hook_created_ok: "hooks_ok user known s \<Longrightarrow> uw_name ` set ws \<subseteq> known \<Longrightarrow> hooks_ok user known (created_listed ws s)"
  using hooks_ok_more(6) [OF hook_list_ok, of user known s ws False] by (simp add: created_listed_def Let_def hooks_ok_more(1))

lemma hook_edited_ok: "hooks_ok user known s \<Longrightarrow> uw_name ` set ws \<subseteq> known \<Longrightarrow> hooks_ok user known (edited_listed ws s)"
  by (simp add: edited_listed_def hook_editing_ok hook_list_ok)

lemma hook_confirm_ok: "hooks_ok user known s \<Longrightarrow> hooks_ok user known (hook_onSuccess d s)"
  by (auto simp: hook_onSuccess_def handleCreateWebhookDialogConfirm_def handleEditWebhookDialogConfirm_def Let_def
      hooks_ok_more creation_def hook_created_ok hook_edited_ok split: which_dialog.split option.split)

lemma hook_close_ok: "hooks_ok user known s \<Longrightarrow> hooks_ok user known (close_dialog d s)"
  by (simp add: close_dialog_def hooks_ok_more hook_editing_ok split: which_dialog.split)

lemma hook_change_ok: "hooks_ok user known s \<Longrightarrow> hooks_ok user known (hook_handleOpenChange d s)"
  by (simp add: hook_handleOpenChange_def hook_close_ok hook_confirm_ok)

lemma button_known: "hooks_ok user known s \<Longrightarrow> k < length (ws_webhooks s) \<Longrightarrow> uw_name (ws_webhooks s ! k) \<in> known"
  by (auto simp: hooks_ok_def)

lemma save_button_ok:
  assumes "hooks_ok user known s" and "form_shown d s" and "\<not> wd_requesting (the_dialog d s)"
  shows "hooks_ok user known (hook_handleSaveBtnClick d s)"
proof (cases d)
  case Create_Dialog
  then show ?thesis using assms
    by (auto simp: hook_handleSaveBtnClick_def hooks_ok_more(1) Let_def the_dialog_def split: option.split)
      (simp_all add: hooks_ok_def send_hook_def call_hook_def in_dialog_def creation_def webhook_request_ok_def)
next
  case Edit_Dialog
  then obtain n where n: "ws_editingName s = Some n" using assms(2) by (auto simp: form_shown_def dialog_open_def split: option.splits)
  then have "n \<in> known" "wd_webhookName (ws_edit s) = Some n" using assms(1) by (simp_all add: hooks_ok_def)
  moreover have "hooks_ok user known (in_dialog Edit_Dialog (\<lambda>w. w\<lparr>wd_requesting := True\<rparr>) s)"
    using assms(1) by (simp add: hooks_ok_more)
  ultimately show ?thesis using Edit_Dialog assms(1)
    by (simp add: hook_handleSaveBtnClick_def Let_def the_dialog_def webhook_request_ok_def creation_def hooks_ok_more split: option.split)
qed

lemma secret_buttons_ok:
  assumes "hooks_ok user known s"
  shows "hooks_ok user known (handleRevealSecret s)" and "hooks_ok user known (handleGenerateSecret bytes s)"
proof -
  have known: "wd_webhookName (ws_edit s) = Some n \<Longrightarrow> n \<in> known" for n
    using assms by (auto simp: hooks_ok_def split: option.splits)
  have "hooks_ok user known (in_dialog Edit_Dialog (\<lambda>w. w\<lparr>wd_secretLoading := True\<rparr>) s)"
    using assms by (simp add: hooks_ok_more)
  then show "hooks_ok user known (handleRevealSecret s)" "hooks_ok user known (handleGenerateSecret bytes s)"
    using assms known
    by (simp_all add: handleRevealSecret_def handleGenerateSecret_def hooks_ok_more creation_def webhook_request_ok_def secret_of_def
        startsWith_append split: option.split)
qed

lemma calls_without:
  "i < length xs \<Longrightarrow> length (filter P (take i xs @ drop (Suc i) xs)) = length (filter P xs) - (if P (xs ! i) then 1 else 0)"
  by (subst (3) id_take_nth_drop [of i xs]) simp_all

lemma quiet_call_ok:
  assumes "hooks_ok user known s" and "i < length (ws_calls s)" and "\<not> creation (ws_calls s ! i)"
  shows "hooks_ok user known (without_call i s)"
  using assms(1,3) calls_without [OF assms(2), of creation] by (simp add: hooks_ok_def without_call_def)

lemma creation_call_ok:
  assumes "hooks_ok user known s" and "i < length (ws_calls s)" and "creation (ws_calls s ! i)"
  shows "hooks_ok user known (call_hook Created_Secret (without_call i s\<lparr>ws_unlisted := b\<rparr>))"
    and "hooks_ok user known (in_dialog Create_Dialog not_requesting (without_call i s))"
    and "\<not> list_ex creation (ws_calls (without_call i s))"
proof -
  have "filter creation (ws_calls s) \<noteq> []" using assms(2,3) by (auto simp: filter_empty_conv)
  then have one: "length (filter creation (ws_calls s)) = 1" "wd_requesting (ws_create s)"
    using assms(1) by (auto simp: hooks_ok_def split: if_splits)
  then have none: "filter creation (take i (ws_calls s) @ drop (Suc i) (ws_calls s)) = []"
    using calls_without [OF assms(2), of creation] assms(3) by simp
  then show "hooks_ok user known (call_hook Created_Secret (without_call i s\<lparr>ws_unlisted := b\<rparr>))"
    "hooks_ok user known (in_dialog Create_Dialog not_requesting (without_call i s))"
    using assms(1) one
    by (simp_all add: hooks_ok_def without_call_def call_hook_def in_dialog_def not_requesting_def creation_def)
  show "\<not> list_ex creation (ws_calls (without_call i s))"
    using none by (auto simp: filter_empty_conv list_ex_iff without_call_def)
qed

definition answer_names :: "webhook_answer \<Rightarrow> string set" where
  "answer_names a = (case a of Webhooks ws \<Rightarrow> uw_name ` set ws | _ \<Rightarrow> {})"

lemma quiet_continued_ok:
  assumes "hooks_ok user known s" and "\<not> creation c" and "answer_names a \<subseteq> known" and "hook_continued c a s = Some s'"
  shows "hooks_ok user known s'"
proof -
  have updated: "hooks_ok user known (in_life n not_requesting (close_dialog Edit_Dialog (handleEditWebhookDialogConfirm s)))" for n
    using hook_confirm_ok [OF assms(1), of Edit_Dialog]
    by (simp add: hook_life_ok hook_close_ok not_requesting_def hook_onSuccess_def)
  have deleted: "hooks_ok user known (webhook_deleted name d s)" for name d
    using assms(1) by (auto simp: webhook_deleted_def intro!: hooks_ok_more(1)) (auto simp: hooks_ok_def)
  have form: "hooks_ok user known (form_listed n name ws s)" for n name ws
    by (simp add: form_listed_def hook_life_ok assms(1) split: option.split)
  show ?thesis using assms(4)
    by (cases "(c, a, s)" rule: hook_continued.cases)
      (use assms(1-3) updated deleted form in \<open>auto simp: hooks_ok_more hook_life_ok hook_list_ok hook_created_ok hook_edited_ok
        secret_failed_def not_requesting_def creation_def answer_names_def\<close>)
qed

lemma hook_answered_ok:
  assumes "hooks_ok user known s" and "answer_names a \<subseteq> known"
  shows "hooks_ok user known (hook_answered i a s)"
proof (cases "i < length (ws_calls s)")
  case True
  show ?thesis
  proof (cases "creation (ws_calls s ! i)")
    case c: True
    have cr: "hooks_ok user known (call_hook Created_Secret (without_call i s\<lparr>ws_unlisted := True\<rparr>))"
      and ended: "hooks_ok user known (in_dialog Create_Dialog not_requesting (without_call i s))"
      using creation_call_ok [OF assms(1) True c] by blast+
    have "hooks_ok user known (secret_received answer (without_call i s))" for answer
      using ended hook_confirm_ok [OF ended, of Create_Dialog]
      by (cases answer) (simp_all add: secret_received_def Let_def hooks_ok_more(5) hook_onSuccess_def hook_close_ok)
    then show ?thesis using c True assms(1) cr ended
      by (cases "ws_calls s ! i"; cases a; simp add: hook_answered_def creation_def hooks_ok_more(1))
  next
    case False
    then show ?thesis using True assms quiet_continued_ok [OF quiet_call_ok [OF assms(1) True False] False assms(2)]
      by (auto simp: hook_answered_def split: option.split)
  qed
qed (simp add: hook_answered_def assms(1))

definition event_names :: "webhook_event \<Rightarrow> string set" where
  "event_names e = (case e of Answer i a \<Rightarrow> answer_names a | _ \<Rightarrow> {})"

lemma webhook_step_ok:
  assumes "hooks_ok user known s" and "event_names e \<subseteq> known"
  shows "hooks_ok user known (webhook_step s e)"
proof (cases e)
  case User_Renewed
  have "hooks_ok user known (case ws_user s of None \<Rightarrow> s\<lparr>ws_webhooks := []\<rparr> | Some _ \<Rightarrow> call_hook Listing s)"
    using assms(1) by (simp add: hook_list_ok hooks_ok_more creation_def split: option.split)
  then show ?thesis using User_Renewed by (simp add: webhook_step_def hook_read_form_ok)
next
  case Create_Button
  then show ?thesis using assms(1) by (simp add: webhook_step_def open_create_def hooks_ok_more)
next
  case (Delete_Button k)
  then show ?thesis using assms(1) button_known [OF assms(1), of k] by (simp add: webhook_step_def hooks_ok_def)
next
  case Delete_Confirmed
  then show ?thesis using assms(1)
    by (auto simp: webhook_step_def confirmDeleteWebhook_def hooks_ok_def send_hook_def call_hook_def webhook_request_ok_def creation_def
        split: option.split)
qed (use assms in \<open>simp_all add: webhook_step_def event_names_def hooks_ok_more hook_editing_ok button_known save_button_ok hook_close_ok hook_change_ok
    secret_buttons_ok hook_answered_ok\<close>)

text \<open>The names the server gave.\<close>

definition given_names :: "webhook_event list \<Rightarrow> string set" where
  "given_names es = (\<Union>e \<in> set es. event_names e)"

lemma webhooks_mount_ok: "hooks_ok user known (webhooks_mount user)"
  by (simp add: hooks_ok_def webhooks_mount_def fresh_dialog_def creation_def)

lemma webhook_run_ok:
  "hooks_ok user known s \<Longrightarrow> given_names es \<subseteq> known \<Longrightarrow> hooks_ok user known (foldl webhook_step s es)"
  by (induction es arbitrary: s) (simp_all add: given_names_def webhook_step_ok)

section \<open>Where created webhooks show\<close>

text \<open>What matters of a state for a webhook just created: whether it is unlisted, the dialog, the secret shown and the calls about it.\<close>

definition about_created :: "webhook_call \<Rightarrow> bool" where
  "about_created c \<longleftrightarrow> creation c \<or> c = Created_Listing"

definition created_view :: "webhook_section \<Rightarrow> bool \<times> bool \<times> string option \<times> webhook_call list" where
  "created_view s = (ws_unlisted s, ws_createOpen s, wd_createdSecret (ws_create s), filter about_created (ws_calls s))"

definition tracked :: "webhook_section \<Rightarrow> bool" where
  "tracked s \<longleftrightarrow>
     (case created_view s of (unlisted, opened, secret, calls) \<Rightarrow>
        (unlisted \<longrightarrow> opened \<and> (secret \<noteq> None \<or> Created_Secret \<in> set calls))
        \<and> (opened \<longrightarrow> Created_Listing \<notin> set calls) \<and> (list_ex creation calls \<longrightarrow> opened))"

text \<open>
  What the user must refrain from: dismissing the dialog while its request is under way, and opening it again before
  the list asked for at its end has come.
\<close>

definition patient :: "webhook_section \<Rightarrow> webhook_event \<Rightarrow> bool" where
  "patient s e \<longleftrightarrow>
     (case e of
        Dismiss d \<Rightarrow> d = Edit_Dialog \<or> \<not> wd_requesting (ws_create s)
      | Create_Button \<Rightarrow> Created_Listing \<notin> set (ws_calls s)
      | _ \<Rightarrow> True)"

fun patient_run :: "webhook_section \<Rightarrow> webhook_event list \<Rightarrow> bool" where
  "patient_run s [] = True"
| "patient_run s (e # es) = (patient s e \<and> patient_run (webhook_step s e) es)"

lemma tracked_view: "created_view s' = created_view s \<Longrightarrow> tracked s' = tracked s"
  by (simp add: tracked_def)

lemma view_frames [simp]:
  "created_view (toast_hook t s) = created_view s"
  "\<not> about_created c \<Longrightarrow> created_view (call_hook c s) = created_view s"
  "\<not> about_created c \<Longrightarrow> created_view (send_hook r c s) = created_view s"
  "created_view (in_dialog Edit_Dialog f s) = created_view s"
  "created_view (in_life n f s) = created_view s"
  "created_view (s\<lparr>ws_webhooks := ws\<rparr>) = created_view s"
  "created_view (s\<lparr>ws_deleteTarget := x\<rparr>) = created_view s"
  "created_view (s\<lparr>ws_confirming := b\<rparr>) = created_view s"
  "created_view (s\<lparr>ws_editingName := name, ws_edit := w, ws_life := k\<rparr>) = created_view s"
  by (simp_all add: created_view_def toast_hook_def call_hook_def send_hook_def in_dialog_def in_life_def)

lemma read_form_view [simp]: "created_view (read_form s) = created_view s"
  by (simp add: read_form_def about_created_def creation_def split: option.split)

lemma editing_view [simp]: "created_view (setEditingWebhookName n s) = created_view s"
  by (simp add: setEditingWebhookName_def)

lemma edited_view [simp]:
  "created_view (edited_listed ws s) = created_view s" "created_view (handleEditWebhookDialogConfirm s) = created_view s"
  "created_view (close_dialog Edit_Dialog s) = created_view s"
  by (simp_all add: edited_listed_def handleEditWebhookDialogConfirm_def about_created_def creation_def close_dialog_def split: option.split)

lemma secret_view [simp]:
  "created_view (handleRevealSecret s) = created_view s" "created_view (handleGenerateSecret bytes s) = created_view s"
  "created_view (form_listed n name ws s) = created_view s" "created_view (secret_failed what n e s) = created_view s"
  "created_view (webhook_deleted name d s) = created_view s" "created_view (confirmDeleteWebhook s) = created_view s"
  by (simp_all add: handleRevealSecret_def handleGenerateSecret_def form_listed_def secret_failed_def webhook_deleted_def confirmDeleteWebhook_def
      about_created_def creation_def split: option.split)

lemma typed_view [simp]:
  "(\<And>w. wd_createdSecret (f w) = wd_createdSecret w) \<Longrightarrow> created_view (in_dialog d f s) = created_view s"
  by (cases d) (simp_all add: created_view_def in_dialog_def)

lemma filter_without:
  "i < length xs \<Longrightarrow> \<not> P (xs ! i) \<Longrightarrow> filter P (take i xs) @ filter P (drop (Suc i) xs) = filter P xs"
  by (subst (3) id_take_nth_drop [of i xs]) simp_all

lemma view_lists: "list_ex creation (filter about_created cs) = list_ex creation cs"
  "Created_Secret \<in> set (filter about_created cs) \<longleftrightarrow> Created_Secret \<in> set cs"
  "Created_Listing \<in> set (filter about_created cs) \<longleftrightarrow> Created_Listing \<in> set cs"
  by (auto simp: list_ex_iff about_created_def creation_def)

lemma tracked_iff:
  "tracked s \<longleftrightarrow>
     (ws_unlisted s \<longrightarrow> ws_createOpen s \<and> (wd_createdSecret (ws_create s) \<noteq> None \<or> Created_Secret \<in> set (ws_calls s)))
     \<and> (ws_createOpen s \<longrightarrow> Created_Listing \<notin> set (ws_calls s)) \<and> (list_ex creation (ws_calls s) \<longrightarrow> ws_createOpen s)"
  by (simp only: tracked_def created_view_def prod.case view_lists)

lemma no_creation:
  assumes "hooks_ok user known s" and "\<not> wd_requesting (ws_create s)"
  shows "\<not> list_ex creation (ws_calls s)" and "Created_Secret \<notin> set (ws_calls s)"
proof -
  have "filter creation (ws_calls s) = []" using assms by (simp add: hooks_ok_def)
  then show "\<not> list_ex creation (ws_calls s)" "Created_Secret \<notin> set (ws_calls s)"
    by (auto simp: filter_empty_conv list_ex_iff creation_def)
qed

text \<open>Asking for the list closes the dialog and ends the tracking.\<close>

lemma confirmed_tracked:
  assumes "\<not> list_ex creation (ws_calls s)"
  shows "tracked (close_dialog Create_Dialog (handleCreateWebhookDialogConfirm s))"
  using assms
  by (auto simp: tracked_iff close_dialog_def handleCreateWebhookDialogConfirm_def created_listed_def toast_hook_def call_hook_def creation_def
      Let_def split: option.split)

lemma quiet_continued_view:
  "\<not> about_created c \<Longrightarrow> hook_continued c a s = Some s' \<Longrightarrow> created_view s' = created_view s"
  by (cases "(c, a, s)" rule: hook_continued.cases) (auto simp: about_created_def creation_def)

lemma answered_tracked:
  assumes "hooks_ok user known s" and "tracked s"
  shows "tracked (hook_answered i a s)"
proof (cases "i < length (ws_calls s)")
  case True
  let ?r = "without_call i s"
  have mem: "set (ws_calls s) = insert (ws_calls s ! i) (set (ws_calls ?r))"
    using True by (subst (1) id_take_nth_drop [of i "ws_calls s"]) (auto simp: without_call_def)
  show ?thesis
  proof (cases "about_created (ws_calls s ! i)")
    case False
    have "created_view ?r = created_view s" using True False by (simp add: created_view_def without_call_def filter_without)
    then have "tracked s'" if "hook_continued (ws_calls s ! i) a ?r = Some s'" for s'
      using quiet_continued_view [OF False that] assms(2) by (metis tracked_view)
    then show ?thesis using True assms(2) by (auto simp: hook_answered_def split: option.split)
  next
    case about: True
    have r: "ws_unlisted ?r = ws_unlisted s" "ws_createOpen ?r = ws_createOpen s" "ws_create ?r = ws_create s"
      by (simp_all add: without_call_def)
    consider (listed) "ws_calls s ! i = Created_Listing" | (creating) "ws_calls s ! i = Creating" | (secret) "ws_calls s ! i = Created_Secret"
      using about by (auto simp: about_created_def creation_def split: webhook_call.splits)
    then show ?thesis
    proof cases
      case listed
      then have "\<not> ws_createOpen s" using assms(2) mem by (auto simp: tracked_iff)
      then have "\<not> ws_unlisted s" "\<not> list_ex creation (ws_calls ?r)" using assms(2) mem by (auto simp: tracked_iff list_ex_iff)
      then show ?thesis using listed True assms(2) \<open>\<not> ws_createOpen s\<close> r
        by (cases a) (simp_all add: hook_answered_def tracked_iff created_listed_def toast_hook_def)
    next
      case creating
      then have "creation (ws_calls s ! i)" by (simp add: creation_def)
      then have none: "\<not> list_ex creation (ws_calls ?r)" and opened: "ws_createOpen s"
        using creation_call_ok(3) [OF assms(1) True] assms(2) mem by (auto simp: tracked_iff list_ex_iff)
      then have "Created_Listing \<notin> set (ws_calls ?r)" "Created_Secret \<notin> set (ws_calls ?r)"
        using assms(2) mem by (auto simp: tracked_iff list_ex_iff creation_def)
      then show ?thesis using creating True assms(2) none opened r mem
        by (cases a) (auto simp: hook_answered_def tracked_iff toast_hook_def call_hook_def in_dialog_def not_requesting_def)
    next
      case secret
      then have "creation (ws_calls s ! i)" by (simp add: creation_def)
      then have none: "\<not> list_ex creation (ws_calls ?r)" and opened: "ws_createOpen s"
        using creation_call_ok(3) [OF assms(1) True] assms(2) mem by (auto simp: tracked_iff list_ex_iff)
      have "\<not> list_ex creation (ws_calls (in_dialog Create_Dialog not_requesting ?r))" using none by (simp add: in_dialog_def)
      moreover have "Created_Listing \<notin> set (ws_calls ?r)" using assms(2) mem opened by (auto simp: tracked_iff)
      ultimately show ?thesis using secret True assms(2) none opened r
        by (cases a) (simp_all add: hook_answered_def secret_received_def confirmed_tracked Let_def,
          simp_all add: tracked_iff in_dialog_def not_requesting_def)
    qed
  qed
qed (simp add: hook_answered_def assms(2))

lemma webhook_step_tracked:
  assumes "hooks_ok user known s" and "tracked s" and "patient s e"
  shows "tracked (webhook_step s e)"
proof (cases e)
  case Create_Button
  then show ?thesis using assms(2,3)
    by (auto simp: webhook_step_def open_create_def uncovered_def dialog_open_def patient_def tracked_iff in_dialog_def)
next
  case User_Renewed
  have "created_view (case ws_user s of None \<Rightarrow> s\<lparr>ws_webhooks := []\<rparr> | Some _ \<Rightarrow> call_hook Listing s) = created_view s"
    by (simp add: about_created_def creation_def split: option.split)
  then have "created_view (webhook_step s e) = created_view s" using User_Renewed by (simp add: webhook_step_def)
  then show ?thesis using assms(2) tracked_view by blast
next
  case (Save_Button d)
  show ?thesis
  proof (cases d)
    case Create_Dialog
    then show ?thesis using Save_Button assms(1,2)
      by (auto simp: webhook_step_def hook_handleSaveBtnClick_def Let_def the_dialog_def tracked_iff toast_hook_def send_hook_def call_hook_def
          in_dialog_def form_shown_def dialog_open_def hooks_ok_def creation_def split: option.split)
  next
    case Edit_Dialog
    have "created_view (hook_handleSaveBtnClick Edit_Dialog s) = created_view s" if shown: "form_shown Edit_Dialog s"
    proof -
      have "ws_editingName s \<noteq> None" using shown by (auto simp: form_shown_def dialog_open_def split: option.splits)
      moreover have "wd_webhookName (ws_edit s) = ws_editingName s" using assms(1) by (simp add: hooks_ok_def)
      ultimately obtain n where "wd_webhookName (ws_edit s) = Some n" by auto
      then show ?thesis
        by (simp add: hook_handleSaveBtnClick_def Let_def the_dialog_def about_created_def creation_def split: option.split)
    qed
    then show ?thesis using Save_Button Edit_Dialog assms(2) tracked_view [of "hook_handleSaveBtnClick Edit_Dialog s" s] by (simp add: webhook_step_def)
  qed
next
  case (Cancel_Button d)
  then show ?thesis using assms(2) no_creation [OF assms(1)] tracked_view [OF edited_view(3) [of s]]
    by (cases d) (auto simp: webhook_step_def close_dialog_def [of Create_Dialog] tracked_iff form_shown_def the_dialog_def)
next
  case (Dismiss d)
  show ?thesis
  proof (cases d)
    case Create_Dialog
    then have "\<not> wd_requesting (ws_create s)" using Dismiss assms(3) by (simp add: patient_def)
    then have "\<not> list_ex creation (ws_calls s)" "Created_Secret \<notin> set (ws_calls s)" using no_creation [OF assms(1)] by blast+
    then show ?thesis using Dismiss Create_Dialog assms(2) confirmed_tracked [of s]
      by (auto simp: webhook_step_def hook_handleOpenChange_def the_dialog_def hook_onSuccess_def)
        (auto simp: tracked_iff close_dialog_def)
  next
    case Edit_Dialog
    have "created_view (hook_handleOpenChange Edit_Dialog s) = created_view s"
      by (simp add: hook_handleOpenChange_def hook_onSuccess_def)
    then show ?thesis using Dismiss Edit_Dialog assms(2) tracked_view [of "hook_handleOpenChange Edit_Dialog s" s] by (simp add: webhook_step_def)
  qed
next
  case (Answer i a)
  then show ?thesis using answered_tracked [OF assms(1,2)] by (simp add: webhook_step_def)
qed (use assms(2) in \<open>simp_all add: webhook_step_def tracked_def\<close>)

lemma patient_run_tracked:
  "hooks_ok user known s \<Longrightarrow> tracked s \<Longrightarrow> given_names es \<subseteq> known \<Longrightarrow> patient_run s es \<Longrightarrow> tracked (foldl webhook_step s es)"
proof (induction es arbitrary: s)
  case (Cons e es)
  have "hooks_ok user known (webhook_step s e)" using Cons.prems by (simp add: webhook_step_ok given_names_def)
  then show ?case using Cons.IH [of "webhook_step s e"] Cons.prems webhook_step_tracked [of user known s e]
    by (simp add: given_names_def)
qed simp

section \<open>Properties\<close>

text \<open>Whatever is clicked and typed, and in whatever order answers come, a webhook is created only with a name and an
  address and for the user, changed, deleted or given a secret only when the server listed it, and no second creation
  starts while one is under way.\<close>

theorem webhook_requests_valid:
  "let s = foldl webhook_step (webhooks_mount user) es in
   list_all (webhook_request_ok user (given_names es)) (ws_requests s) \<and> length (filter creation (ws_calls s)) \<le> 1"
  using webhook_run_ok [OF webhooks_mount_ok, of es "given_names es" user] by (simp add: hooks_ok_def Let_def)


definition sample_creation :: "webhook_event list" where
  "sample_creation = [Answer 0 (Webhooks []), Create_Button, Type_Name Create_Dialog ''hook'', Type_Url Create_Dialog ''https://e'',
     Save_Button Create_Dialog]"


text \<open>Dismissed during the request, the webhook is created without the list being asked for, and opening the dialog again
  throws its secret away.\<close>

theorem dismissed_creation_unlisted:
  "let s = foldl webhook_step (webhooks_mount (Some ''users/1''))
      (sample_creation @ [Dismiss Create_Dialog, Answer 0 Created, Answer 0 (Secret ''whsec_1''), Create_Button]) in
   ws_unlisted s \<and> ws_webhooks s = [] \<and> ws_calls s = [] \<and> wd_createdSecret (ws_create s) = None"
  by code_simp

definition two_hooks :: "user_webhook list" where
  "two_hooks = map (\<lambda>n. \<lparr>uw_name = n, uw_url = ''https://e'', uw_displayName = n, uw_createTime = None, uw_updateTime = None,
     uw_signingSecret = [], uw_signingSecretSet = True\<rparr>) [''a'', ''b'']"

text \<open>The end of one edit closes the dialog of another.\<close>

theorem edit_closes_other:
  "let s = foldl webhook_step (webhooks_mount (Some ''users/1''))
      [Answer 0 (Webhooks two_hooks), Edit_Button 0, Answer 0 (Webhooks two_hooks), Save_Button Edit_Dialog, Dismiss Edit_Dialog,
       Edit_Button 1, Type_Name Edit_Dialog ''changed''] in
   ws_editingName s = Some ''b'' \<and> ws_editingName (webhook_step s (Answer 0 Success)) = None"
  by code_simp

text \<open>Before the webhook has been read the dialog offers to generate a secret, and the click replaces the one there is.\<close>

theorem secret_replaced_unread:
  "let s = foldl webhook_step (webhooks_mount (Some ''users/1'')) [Answer 0 (Webhooks two_hooks), Edit_Button 0, Generate_Button [0, 0, 0]] in
   uw_signingSecretSet (ws_webhooks s ! 0) \<and> ws_requests s = [Set_Secret ''a'' ''whsec_AAAA'']"
  by code_simp

end
