(* ===== verification/Members.thy ===== *)
theory Members
  imports MemoActions
begin

text \<open>
  The members of the instance (\<^verbatim>\<open>components/Settings/MemberSection.tsx\<close> with the dialog of
  \<^verbatim>\<open>components/CreateUserDialog.tsx\<close>, which it shows twice, to create and to edit). A user in a list carries the
  number of its object, since the dialog starts its form again only for another object. The signed-in user is fixed.
\<close>

section \<open>State\<close>

type_synonym user_object = "nat \<times> user"

record user_dialog =
  ud_initialUser :: "user_object option"
  ud_user :: user
  ud_requesting :: bool

definition form_user :: "user_object option \<Rightarrow> user" where
  "form_user initialUser =
     (case initialUser of
        None \<Rightarrow> empty_user
      | Some (_, u) \<Rightarrow> empty_user\<lparr>u_name := u_name u, u_username := u_username u, u_role := u_role u\<rparr>)"

text \<open>The requests that change something, an update with the user it was made for, and the calls under way.\<close>

datatype member_request =
    Create_User user
  | Update_User user user "string list"
  | Set_State string memo_state
  | Delete_User string

datatype member_dialog = New_Dialog | Change_Dialog

datatype member_call =
    Saving_User member_dialog bool
  | Setting_State user memo_state
  | State_Listing user memo_state
  | Deleting_User nat string

record member_section =
  ms_currentUser :: "string option"
  ms_users :: "user_object list"
  ms_new :: user_dialog
  ms_change :: user_dialog
  ms_newOpen :: bool
  ms_changeOpen :: bool
  ms_archiveTarget :: "user option"
  ms_archiving :: bool
  ms_deleteTarget :: "user option"
  ms_deletions :: nat
  ms_calls :: "member_call list"
  ms_requests :: "member_request list"
  ms_toasts :: "toast list"

definition member_form :: "member_dialog \<Rightarrow> member_section \<Rightarrow> user_dialog" where
  "member_form d s = (case d of New_Dialog \<Rightarrow> ms_new s | Change_Dialog \<Rightarrow> ms_change s)"

definition member_open :: "member_dialog \<Rightarrow> member_section \<Rightarrow> bool" where
  "member_open d s = (case d of New_Dialog \<Rightarrow> ms_newOpen s | Change_Dialog \<Rightarrow> ms_changeOpen s)"

definition in_member :: "member_dialog \<Rightarrow> (user_dialog \<Rightarrow> user_dialog) \<Rightarrow> member_section \<Rightarrow> member_section" where
  "in_member d f s = (case d of New_Dialog \<Rightarrow> s\<lparr>ms_new := f (ms_new s)\<rparr> | Change_Dialog \<Rightarrow> s\<lparr>ms_change := f (ms_change s)\<rparr>)"

definition close_member :: "member_dialog \<Rightarrow> member_section \<Rightarrow> member_section" where
  "close_member d s = (case d of New_Dialog \<Rightarrow> s\<lparr>ms_newOpen := False\<rparr> | Change_Dialog \<Rightarrow> s\<lparr>ms_changeOpen := False\<rparr>)"

definition toast_member :: "toast \<Rightarrow> member_section \<Rightarrow> member_section" where
  "toast_member t s = s\<lparr>ms_toasts := ms_toasts s @ [t]\<rparr>"

definition send_member :: "member_request \<Rightarrow> member_call \<Rightarrow> member_section \<Rightarrow> member_section" where
  "send_member r c s = s\<lparr>ms_requests := ms_requests s @ [r], ms_calls := ms_calls s @ [c]\<rparr>"

section \<open>The dialog\<close>

text \<open>The effect of another user to edit, which is the same while it is the same object.\<close>

definition set_initialUser :: "user_object option \<Rightarrow> user_dialog \<Rightarrow> user_dialog" where
  "set_initialUser x d =
     (if map_option fst x = map_option fst (ud_initialUser d) then d
      else d\<lparr>ud_initialUser := x, ud_user := form_user x\<rparr>)"

definition user_updateMask :: "user \<Rightarrow> user \<Rightarrow> string list" where
  "user_updateMask initial u =
     (if u_username u \<noteq> u_username initial then [''username''] else [])
     @ (if u_password u \<noteq> [] then [''password''] else [])
     @ (if u_role u \<noteq> u_role initial then [''role''] else [])"

definition member_handleConfirm :: "member_dialog \<Rightarrow> member_section \<Rightarrow> member_section" where
  "member_handleConfirm d s =
     (let w = member_form d s; u = ud_user w; busy = in_member d (\<lambda>w. w\<lparr>ud_requesting := True\<rparr>) s in
      case ud_initialUser w of
        None \<Rightarrow>
          if u_username u = [] \<or> u_password u = []
          then toast_member (Toast_Error ''Username and password cannot be empty'') s
          else send_member (Create_User u) (Saving_User d True) busy
      | Some (_, i) \<Rightarrow> send_member (Update_User i (u\<lparr>u_name := u_name i\<rparr>) (user_updateMask i u)) (Saving_User d False) busy)"

section \<open>The section\<close>

definition handleCreateUser :: "member_section \<Rightarrow> member_section" where
  "handleCreateUser s = in_member Change_Dialog (set_initialUser None) (s\<lparr>ms_newOpen := True\<rparr>)"

definition handleEditUser :: "user_object \<Rightarrow> member_section \<Rightarrow> member_section" where
  "handleEditUser x s = in_member Change_Dialog (set_initialUser (Some x)) (s\<lparr>ms_changeOpen := True\<rparr>)"

definition confirmArchiveUser :: "member_section \<Rightarrow> member_section" where
  "confirmArchiveUser s =
     (case ms_archiveTarget s of
        None \<Rightarrow> s
      | Some u \<Rightarrow> send_member (Set_State (u_name u) ARCHIVED) (Setting_State u ARCHIVED) (s\<lparr>ms_archiving := True\<rparr>))"

definition handleRestoreUserClick :: "user \<Rightarrow> member_section \<Rightarrow> member_section" where
  "handleRestoreUserClick u s = send_member (Set_State (u_name u) NORMAL) (Setting_State u NORMAL) s"

text \<open>The confirmation of a deletion does not wait: it closes at once. Of overlapping deletions the library reports the last.\<close>

definition confirmDeleteUser :: "member_section \<Rightarrow> member_section" where
  "confirmDeleteUser s =
     (case ms_deleteTarget s of
        None \<Rightarrow> s
      | Some u \<Rightarrow> send_member (Delete_User (u_name u)) (Deleting_User (Suc (ms_deletions s)) (u_username u))
          (s\<lparr>ms_deletions := Suc (ms_deletions s), ms_deleteTarget := None\<rparr>))"

text \<open>The end of an archiving closes its confirmation; a restoring has none.\<close>

definition state_ended :: "memo_state \<Rightarrow> member_section \<Rightarrow> member_section" where
  "state_ended st s = (if st = ARCHIVED then s\<lparr>ms_archiveTarget := None, ms_archiving := False\<rparr> else s)"

section \<open>Events\<close>

datatype member_answer = Users "user_object list" | Accepted | Refused thrown

fun member_continued :: "member_call \<Rightarrow> member_answer \<Rightarrow> member_section \<Rightarrow> member_section option" where
  "member_continued (Saving_User d creating) Accepted s =
     Some (close_member d (in_member d (\<lambda>w. w\<lparr>ud_requesting := False\<rparr>)
       (toast_member (Toast_Success (if creating then ''Create user successfully'' else ''Update user successfully'')) s)))"
| "member_continued (Saving_User d creating) (Refused e) s =
     Some (toast_member (Toast_Error (handleError e (Some ''Update user'') None)) (in_member d (\<lambda>w. w\<lparr>ud_requesting := False\<rparr>) s))"
| "member_continued (Setting_State u st) Accepted s =
     Some (toast_member (Toast_Success ((if st = ARCHIVED then ''setting.member.archive-success '' else ''setting.member.restore-success '')
         @ u_username u)) (s\<lparr>ms_calls := ms_calls s @ [State_Listing u st]\<rparr>))"
| "member_continued (Setting_State u st) (Refused e) s =
     Some (state_ended st (toast_member (Toast_Error (handleError e (Some (if st = ARCHIVED then ''Archive user'' else ''Restore user'')) None)) s))"
| "member_continued (State_Listing u st) (Users us) s = Some (state_ended st (s\<lparr>ms_users := us\<rparr>))"
| "member_continued (State_Listing u st) (Refused e) s = Some (state_ended st s)"
| "member_continued (Deleting_User n username) Accepted s =
     Some (if n \<noteq> ms_deletions s then s
       else toast_member (Toast_Success (''setting.member.delete-success '' @ username)) (s\<lparr>ms_deleteTarget := None\<rparr>))"
| "member_continued (Deleting_User n username) (Refused e) s =
     Some (if n \<noteq> ms_deletions s then s
       else toast_member (Toast_Error (handleError e (Some ''Delete user'') None)) (s\<lparr>ms_deleteTarget := None\<rparr>))"
| "member_continued _ _ s = None"

definition member_answered :: "nat \<Rightarrow> member_answer \<Rightarrow> member_section \<Rightarrow> member_section" where
  "member_answered i a s =
     (if length (ms_calls s) \<le> i then s
      else case member_continued (ms_calls s ! i) a (s\<lparr>ms_calls := take i (ms_calls s) @ drop (Suc i) (ms_calls s)\<rparr>) of
        None \<Rightarrow> s | Some s' \<Rightarrow> s')"

datatype member_event =
    New_Click
  | Edit_Member nat
  | Archive_Member nat
  | Restore_Member nat
  | Delete_Member nat
  | Type_Username member_dialog string
  | Type_Password member_dialog string
  | Pick_Role member_dialog bool
  | Confirm_Click member_dialog
  | Cancel_Click member_dialog
  | Dismissed member_dialog
  | Archive_Cancelled | Archive_Confirmed
  | Member_Delete_Cancelled | Member_Delete_Confirmed
  | Users_Arrive "user_object list"
  | Member_Answer nat member_answer

text \<open>The menu of a row, which the row of the signed-in user does not have.\<close>

definition members_uncovered :: "member_section \<Rightarrow> bool" where
  "members_uncovered s \<longleftrightarrow> \<not> ms_newOpen s \<and> \<not> ms_changeOpen s \<and> ms_archiveTarget s = None \<and> ms_deleteTarget s = None"

definition menu_user :: "member_section \<Rightarrow> nat \<Rightarrow> (user \<Rightarrow> bool) \<Rightarrow> bool" where
  "menu_user s k P \<longleftrightarrow>
     members_uncovered s \<and> k < length (ms_users s)
     \<and> ms_currentUser s \<noteq> Some (u_name (snd (ms_users s ! k))) \<and> P (snd (ms_users s ! k))"

definition setPartialUser :: "member_dialog \<Rightarrow> (user \<Rightarrow> user) \<Rightarrow> member_section \<Rightarrow> member_section" where
  "setPartialUser d f s = (if member_open d s then in_member d (\<lambda>w. w\<lparr>ud_user := f (ud_user w)\<rparr>) s else s)"

definition member_step :: "member_section \<Rightarrow> member_event \<Rightarrow> member_section" where
  "member_step s e =
     (case e of
        New_Click \<Rightarrow> if members_uncovered s then handleCreateUser s else s
      | Edit_Member k \<Rightarrow> if menu_user s k (\<lambda>_. True) then handleEditUser (ms_users s ! k) s else s
      | Archive_Member k \<Rightarrow> if menu_user s k (\<lambda>u. u_state u = NORMAL)
          then s\<lparr>ms_archiveTarget := Some (snd (ms_users s ! k))\<rparr> else s
      | Restore_Member k \<Rightarrow> if menu_user s k (\<lambda>u. u_state u \<noteq> NORMAL) then handleRestoreUserClick (snd (ms_users s ! k)) s else s
      | Delete_Member k \<Rightarrow> if menu_user s k (\<lambda>u. u_state u \<noteq> NORMAL)
          then s\<lparr>ms_deleteTarget := Some (snd (ms_users s ! k))\<rparr> else s
      | Type_Username d v \<Rightarrow> setPartialUser d (\<lambda>u. u\<lparr>u_username := v\<rparr>) s
      | Type_Password d v \<Rightarrow> setPartialUser d (\<lambda>u. u\<lparr>u_password := v\<rparr>) s
      | Pick_Role d admin \<Rightarrow> setPartialUser d (\<lambda>u. u\<lparr>u_role := (if admin then ADMIN else USER)\<rparr>) s
      | Confirm_Click d \<Rightarrow> if member_open d s \<and> \<not> ud_requesting (member_form d s) then member_handleConfirm d s else s
      | Cancel_Click d \<Rightarrow> if member_open d s \<and> \<not> ud_requesting (member_form d s) then close_member d s else s
      | Dismissed d \<Rightarrow> close_member d s
      | Archive_Cancelled \<Rightarrow> if ms_archiving s then s else s\<lparr>ms_archiveTarget := None\<rparr>
      | Archive_Confirmed \<Rightarrow> if ms_archiving s then s else confirmArchiveUser s
      | Member_Delete_Cancelled \<Rightarrow> s\<lparr>ms_deleteTarget := None\<rparr>
      | Member_Delete_Confirmed \<Rightarrow> confirmDeleteUser s
      | Users_Arrive us \<Rightarrow> s\<lparr>ms_users := us\<rparr>
      | Member_Answer i a \<Rightarrow> member_answered i a s)"

definition members_mount :: "string option \<Rightarrow> user_object list \<Rightarrow> member_section" where
  "members_mount user users =
     \<lparr>ms_currentUser = user, ms_users = users, ms_new = \<lparr>ud_initialUser = None, ud_user = form_user None, ud_requesting = False\<rparr>,
      ms_change = \<lparr>ud_initialUser = None, ud_user = form_user None, ud_requesting = False\<rparr>, ms_newOpen = False, ms_changeOpen = False,
      ms_archiveTarget = None, ms_archiving = False, ms_deleteTarget = None, ms_deletions = 0, ms_calls = [], ms_requests = [],
      ms_toasts = []\<rparr>"

text \<open>The order of the rows: by a field users do not have, so that all are equal and a stable sort moves none.\<close>

definition sortedUsers :: "user list \<Rightarrow> user list" where
  "sortedUsers users = sort_key (\<lambda>_. 0 :: nat) users"

section \<open>What the section sends\<close>

text \<open>
  An update is about the user it was made for, and its mask names just the fields in which the message differs from that
  user as listed; a password counts as different when there is one.
\<close>

definition update_exact :: "user \<Rightarrow> user \<Rightarrow> string list \<Rightarrow> bool" where
  "update_exact i sent paths \<longleftrightarrow>
     u_name sent = u_name i \<and> distinct paths \<and> set paths \<subseteq> {''username'', ''password'', ''role''}
     \<and> (''username'' \<in> set paths \<longleftrightarrow> u_username sent \<noteq> u_username i) \<and> (''password'' \<in> set paths \<longleftrightarrow> u_password sent \<noteq> [])
     \<and> (''role'' \<in> set paths \<longleftrightarrow> u_role sent \<noteq> u_role i)"

lemma mask_exact: "update_exact i (u\<lparr>u_name := u_name i\<rparr>) (user_updateMask i u)"
  by (simp add: update_exact_def user_updateMask_def)

text \<open>A request about another listed member, in a state it is meant for.\<close>

definition other_member :: "string option \<Rightarrow> user set \<Rightarrow> user \<Rightarrow> bool" where
  "other_member current known u \<longleftrightarrow> u \<in> known \<and> current \<noteq> Some (u_name u)"

definition member_request_ok :: "string option \<Rightarrow> user set \<Rightarrow> member_request \<Rightarrow> bool" where
  "member_request_ok current known r =
     (case r of
        Create_User u \<Rightarrow> u_username u \<noteq> [] \<and> u_password u \<noteq> []
      | Update_User i sent paths \<Rightarrow> other_member current known i \<and> update_exact i sent paths
      | Set_State n st \<Rightarrow> \<exists>u. other_member current known u \<and> n = u_name u \<and> (if u_state u = NORMAL then st = ARCHIVED else st = NORMAL)
      | Delete_User n \<Rightarrow> \<exists>u. other_member current known u \<and> n = u_name u \<and> u_state u \<noteq> NORMAL)"

definition members_ok :: "string option \<Rightarrow> user set \<Rightarrow> member_section \<Rightarrow> bool" where
  "members_ok current known s \<longleftrightarrow>
     ms_currentUser s = current \<and> snd ` set (ms_users s) \<subseteq> known
     \<and> ud_initialUser (ms_new s) = None
     \<and> (case ud_initialUser (ms_change s) of None \<Rightarrow> True | Some x \<Rightarrow> other_member current known (snd x))
     \<and> (case ms_archiveTarget s of None \<Rightarrow> True | Some u \<Rightarrow> other_member current known u \<and> u_state u = NORMAL)
     \<and> (case ms_deleteTarget s of None \<Rightarrow> True | Some u \<Rightarrow> other_member current known u \<and> u_state u \<noteq> NORMAL)
     \<and> list_all (member_request_ok current known) (ms_requests s)"

lemma members_ok_more:
  assumes "members_ok current known s"
  shows "members_ok current known (toast_member t s)" and "members_ok current known (close_member d s)"
    and "member_request_ok current known r \<Longrightarrow> members_ok current known (send_member r c s)"
    and "(\<And>w. ud_initialUser (f w) = ud_initialUser w) \<Longrightarrow> members_ok current known (in_member d f s)"
    and "members_ok current known (s\<lparr>ms_newOpen := b\<rparr>)" and "members_ok current known (s\<lparr>ms_changeOpen := b\<rparr>)"
    and "members_ok current known (s\<lparr>ms_archiving := b\<rparr>)" and "members_ok current known (s\<lparr>ms_calls := cs\<rparr>)"
    and "members_ok current known (s\<lparr>ms_archiveTarget := None\<rparr>)" and "members_ok current known (s\<lparr>ms_deleteTarget := None\<rparr>)"
    and "members_ok current known (s\<lparr>ms_deletions := n\<rparr>)"
    and "snd ` set us \<subseteq> known \<Longrightarrow> members_ok current known (s\<lparr>ms_users := us\<rparr>)"
  using assms
  by (cases d; simp add: members_ok_def toast_member_def close_member_def send_member_def in_member_def)+

lemma initial_ok:
  assumes "members_ok current known s" and "case x of None \<Rightarrow> True | Some x \<Rightarrow> other_member current known (snd x)"
  shows "members_ok current known (in_member Change_Dialog (set_initialUser x) s)"
  using assms by (simp add: members_ok_def in_member_def set_initialUser_def)

lemma menu_user_ok:
  assumes "members_ok current known s" and "menu_user s k P"
  shows "other_member current known (snd (ms_users s ! k))" and "P (snd (ms_users s ! k))"
proof -
  have "ms_users s ! k \<in> set (ms_users s)" using assms(2) by (simp add: menu_user_def)
  then have "snd (ms_users s ! k) \<in> known" using assms(1) by (auto simp: members_ok_def)
  then show "other_member current known (snd (ms_users s ! k))" "P (snd (ms_users s ! k))"
    using assms by (simp_all add: members_ok_def menu_user_def other_member_def)
qed

lemma member_confirm_ok:
  assumes "members_ok current known s"
  shows "members_ok current known (member_handleConfirm d s)"
proof -
  have busy: "members_ok current known (in_member d (\<lambda>w. w\<lparr>ud_requesting := True\<rparr>) s)"
    using assms by (simp add: members_ok_more)
  show ?thesis
  proof (cases "ud_initialUser (member_form d s)")
    case None
    then show ?thesis using assms busy
      by (simp add: member_handleConfirm_def Let_def members_ok_more(1) members_ok_more(3) [OF busy] member_request_ok_def)
  next
    case (Some x)
    then have "other_member current known (snd x)"
      using assms by (cases d) (simp_all add: members_ok_def member_form_def)
    then show ?thesis using Some mask_exact
      by (auto simp: member_handleConfirm_def Let_def member_request_ok_def split: prod.split intro!: members_ok_more(3) [OF busy])
  qed
qed

definition answer_users :: "member_answer \<Rightarrow> user set" where
  "answer_users a = (case a of Users us \<Rightarrow> snd ` set us | _ \<Rightarrow> {})"

lemma state_ended_ok: "members_ok current known s \<Longrightarrow> members_ok current known (state_ended st s)"
  using members_ok_more(9) [OF members_ok_more(7)] by (simp add: state_ended_def) (simp add: members_ok_def)

lemma member_continued_ok:
  assumes "members_ok current known s" and "answer_users a \<subseteq> known" and "member_continued c a s = Some s'"
  shows "members_ok current known s'"
  using assms(3)
  by (cases "(c, a, s)" rule: member_continued.cases)
    (use assms(1,2) in \<open>auto simp: members_ok_more state_ended_ok answer_users_def\<close>)

lemma member_answered_ok:
  assumes "members_ok current known s" and "answer_users a \<subseteq> known"
  shows "members_ok current known (member_answered i a s)"
  using assms member_continued_ok [OF members_ok_more(8) [OF assms(1)] assms(2)]
  by (auto simp: member_answered_def split: option.split)

definition event_users :: "member_event \<Rightarrow> user set" where
  "event_users e = (case e of Users_Arrive us \<Rightarrow> snd ` set us | Member_Answer i a \<Rightarrow> answer_users a | _ \<Rightarrow> {})"

lemma member_step_ok:
  assumes ok: "members_ok current known s" and "event_users e \<subseteq> known"
  shows "members_ok current known (member_step s e)"
proof (cases e)
  case New_Click
  then show ?thesis using initial_ok [OF members_ok_more(5) [OF ok], of None True] ok by (simp add: member_step_def handleCreateUser_def)
next
  case (Edit_Member k)
  then show ?thesis using menu_user_ok [OF ok, of k "\<lambda>_. True"] initial_ok [OF members_ok_more(6) [OF ok], of "Some (ms_users s ! k)" True] ok
    by (simp add: member_step_def handleEditUser_def)
next
  case (Archive_Member k)
  then show ?thesis using menu_user_ok [OF ok, of k "\<lambda>u. u_state u = NORMAL"] ok by (simp add: member_step_def members_ok_def)
next
  case (Delete_Member k)
  then show ?thesis using menu_user_ok [OF ok, of k "\<lambda>u. u_state u \<noteq> NORMAL"] ok by (simp add: member_step_def members_ok_def)
next
  case (Restore_Member k)
  then show ?thesis using menu_user_ok [OF ok, of k "\<lambda>u. u_state u \<noteq> NORMAL"] ok
    by (auto simp: member_step_def handleRestoreUserClick_def member_request_ok_def intro!: members_ok_more(3))
next
  case Archive_Confirmed
  have "members_ok current known (confirmArchiveUser s)"
  proof (cases "ms_archiveTarget s")
    case (Some u)
    then have "other_member current known u" "u_state u = NORMAL" using ok by (simp_all add: members_ok_def)
    then show ?thesis using Some members_ok_more(7) [OF ok]
      by (auto simp: confirmArchiveUser_def member_request_ok_def intro!: members_ok_more(3))
  qed (simp add: confirmArchiveUser_def ok)
  then show ?thesis using Archive_Confirmed ok by (simp add: member_step_def)
next
  case Member_Delete_Confirmed
  have "members_ok current known (confirmDeleteUser s)"
  proof (cases "ms_deleteTarget s")
    case (Some u)
    then have "other_member current known u" "u_state u \<noteq> NORMAL" using ok by (simp_all add: members_ok_def)
    then show ?thesis using Some members_ok_more(10) [OF members_ok_more(11) [OF ok]]
      by (auto simp: confirmDeleteUser_def member_request_ok_def intro!: members_ok_more(3))
  qed (simp add: confirmDeleteUser_def ok)
  then show ?thesis using Member_Delete_Confirmed by (simp add: member_step_def)
qed (use assms in \<open>simp_all add: member_step_def event_users_def members_ok_more setPartialUser_def member_confirm_ok member_answered_ok\<close>)

definition given_users :: "user_object list \<Rightarrow> member_event list \<Rightarrow> user set" where
  "given_users users es = snd ` set users \<union> (\<Union>e \<in> set es. event_users e)"

lemma member_run_ok:
  "members_ok current known s \<Longrightarrow> (\<Union>e \<in> set es. event_users e) \<subseteq> known \<Longrightarrow> members_ok current known (foldl member_step s es)"
  by (induction es arbitrary: s) (simp_all add: member_step_ok)

section \<open>Properties\<close>


definition two_members :: "user_object list" where
  "two_members = map (\<lambda>(k, n). (k, empty_user\<lparr>u_name := n, u_username := n, u_role := USER, u_state := NORMAL\<rparr>)) [(1, ''a''), (2, ''b'')]"

text \<open>Confirming without a change asks for an update of nothing, which the server refuses.\<close>

lemma unchanged_update_sent:
  "map (\<lambda>r. case r of Update_User _ _ paths \<Rightarrow> Some paths | _ \<Rightarrow> None)
     (ms_requests (foldl member_step (members_mount None two_members) [Edit_Member 0, Confirm_Click Change_Dialog])) = [Some []]"
  by code_simp

text \<open>After a creation the dialog opens again with the user just created and the password typed.\<close>

theorem created_user_kept:
  "let s = foldl member_step (members_mount None two_members) [New_Click, Type_Username New_Dialog ''c'', Type_Password New_Dialog ''secret'',
      Confirm_Click New_Dialog, Member_Answer 0 Accepted, New_Click] in
   ms_newOpen s \<and> u_username (ud_user (ms_new s)) = ''c'' \<and> u_password (ud_user (ms_new s)) = ''secret''"
  by code_simp

text \<open>A password typed and given up is sent with the next edit of the same user.\<close>

theorem abandoned_password_sent:
  "let s = foldl member_step (members_mount None two_members) [Edit_Member 0, Type_Password Change_Dialog ''oops'', Cancel_Click Change_Dialog,
      Edit_Member 0, Pick_Role Change_Dialog True, Confirm_Click Change_Dialog] in
   map (\<lambda>r. case r of Update_User _ sent paths \<Rightarrow> (u_password sent, paths) | _ \<Rightarrow> ([], [])) (ms_requests s) = [(''oops'', [''password'', ''role''])]"
  by code_simp

text \<open>The end of an update closes the dialog of another user, and a failed creation is reported as a failed update.\<close>

theorem update_closes_other:
  "let s = foldl member_step (members_mount None two_members) [Edit_Member 0, Confirm_Click Change_Dialog, Dismissed Change_Dialog, Edit_Member 1,
      Type_Username Change_Dialog ''bb''] in
   ms_changeOpen s \<and> \<not> ms_changeOpen (member_step s (Member_Answer 0 Accepted))"
  by code_simp

theorem creation_reported_as_update:
  "ms_toasts (foldl member_step (members_mount None []) [New_Click, Type_Username New_Dialog ''c'', Type_Password New_Dialog ''secret'',
      Confirm_Click New_Dialog, Member_Answer 0 (Refused (Error_Instance ''taken''))]) = [Toast_Error ''Update user: taken'']"
  by code_simp

text \<open>The end of a deletion closes the confirmation of the next.\<close>

theorem deletion_closes_other:
  "let s = foldl member_step (members_mount None (map (\<lambda>(k, u). (k, u\<lparr>u_state := ARCHIVED\<rparr>)) two_members)) [Delete_Member 0,
      Member_Delete_Confirmed, Delete_Member 1] in
   ms_deleteTarget s \<noteq> None \<and> ms_deleteTarget (member_step s (Member_Answer 0 Accepted)) = None"
  by code_simp

text \<open>The order of the list is the server's.\<close>

lemma sortedUsers_same: "sortedUsers users = users"
  by (simp add: sortedUsers_def sort_key_const)

end
