(* ===== verification/AccessTokens.thy ===== *)
theory AccessTokens
  imports MemoActions
begin

text \<open>
  The access tokens of a user (\<^verbatim>\<open>components/Settings/AccessTokenSection.tsx\<close> with the dialog of
  \<^verbatim>\<open>components/CreateAccessTokenDialog.tsx\<close>). \<open>ts_date\<close> is the library's \<open>timestampDate\<close>, in milliseconds. The
  text of a token is given once, in the answer to its creation: \<open>tk_copied\<close> records what went to the clipboard.
\<close>

section \<open>State\<close>

record personal_access_token =
  pt_name :: string
  pt_description :: string
  pt_createdAt :: "timestamp option"
  pt_expiresAt :: "timestamp option"
  pt_lastUsedAt :: "timestamp option"

record created_token =
  ct_token :: string
  ct_personalAccessToken :: "personal_access_token option"

datatype token_request =
    Create_Token "string option" string int
  | Delete_Token string

datatype token_call =
    Tokens_Listing nat
  | Creating_Token "string option"
  | After_Creation created_token
  | Deleting_Token string string

record token_section =
  tk_user :: "string option"
  tk_effect :: nat
  tk_tokens :: "personal_access_token list"
  tk_open :: bool
  tk_description :: string
  tk_expiration :: int
  tk_createdToken :: "string option"
  tk_requesting :: bool
  tk_deleteTarget :: "personal_access_token option"
  tk_confirming :: bool
  tk_calls :: "token_call list"
  tk_requests :: "token_request list"
  tk_copied :: "string list"
  tk_toasts :: "toast list"

definition toast_token :: "toast \<Rightarrow> token_section \<Rightarrow> token_section" where
  "toast_token t s = s\<lparr>tk_toasts := tk_toasts s @ [t]\<rparr>"

definition call_token :: "token_call \<Rightarrow> token_section \<Rightarrow> token_section" where
  "call_token c s = s\<lparr>tk_calls := tk_calls s @ [c]\<rparr>"

text \<open>What the clipboard is asked to hold; the code does not look at whether the browser did copy it.\<close>

definition copy_token :: "string \<Rightarrow> token_section \<Rightarrow> token_section" where
  "copy_token t s = s\<lparr>tk_copied := tk_copied s @ [t]\<rparr>"

section \<open>The section\<close>

text \<open>The newest first; tokens without a date last.\<close>

definition created_ms :: "(timestamp \<Rightarrow> int) \<Rightarrow> personal_access_token \<Rightarrow> int" where
  "created_ms ts_date t = (case pt_createdAt t of None \<Rightarrow> 0 | Some d \<Rightarrow> ts_date d)"

definition listAccessTokens :: "(timestamp \<Rightarrow> int) \<Rightarrow> personal_access_token list \<Rightarrow> personal_access_token list" where
  "listAccessTokens ts_date ts = sort_key (\<lambda>t. - created_ms ts_date t) ts"

text \<open>The effect of another user; the answer of an earlier one is ignored.\<close>

definition tokens_effect :: "token_section \<Rightarrow> token_section" where
  "tokens_effect s =
     (let s1 = s\<lparr>tk_effect := Suc (tk_effect s)\<rparr> in
      case tk_user s of None \<Rightarrow> s1 | Some n \<Rightarrow> if n = [] then s1 else call_token (Tokens_Listing (tk_effect s1)) s1)"

definition after_creation :: "(timestamp \<Rightarrow> int) \<Rightarrow> created_token \<Rightarrow> personal_access_token list \<Rightarrow> token_section \<Rightarrow> token_section" where
  "after_creation ts_date r ts s =
     (let s1 = s\<lparr>tk_tokens := listAccessTokens ts_date ts\<rparr>;
          s2 = (if ct_token r \<noteq> [] then toast_token (Toast_Success ''setting.access-token.access-token-copied-to-clipboard'')
            (copy_token (ct_token r) s1) else s1) in
      toast_token (Toast_Success (''setting.access-token.create-dialog.access-token-created '' @
        (case ct_personalAccessToken r of None \<Rightarrow> [] | Some t \<Rightarrow> pt_description t))) s2)"

definition confirmDeleteAccessToken :: "token_section \<Rightarrow> token_section" where
  "confirmDeleteAccessToken s =
     (case tk_deleteTarget s of
        None \<Rightarrow> s
      | Some t \<Rightarrow> call_token (Deleting_Token (pt_name t) (pt_description t))
          (s\<lparr>tk_confirming := True, tk_requests := tk_requests s @ [Delete_Token (pt_name t)]\<rparr>))"

definition token_deleted :: "string \<Rightarrow> string \<Rightarrow> token_section \<Rightarrow> token_section" where
  "token_deleted name description s =
     toast_token (Toast_Success (''setting.access-token.access-token-deleted '' @ description))
       (s\<lparr>tk_tokens := filter (\<lambda>t. pt_name t \<noteq> name) (tk_tokens s), tk_deleteTarget := None, tk_confirming := False\<rparr>)"

section \<open>The dialog\<close>

definition expirationOptions :: "int list" where
  "expirationOptions = [30, 90, 0]"

definition open_token_dialog :: "token_section \<Rightarrow> token_section" where
  "open_token_dialog s = s\<lparr>tk_open := True, tk_description := [], tk_expiration := 30, tk_createdToken := None\<rparr>"

definition token_handleSaveBtnClick :: "token_section \<Rightarrow> token_section" where
  "token_handleSaveBtnClick s =
     (if tk_description s = [] then toast_token (Toast_Error ''message.description-is-required'') s
      else call_token (Creating_Token (tk_user s))
        (s\<lparr>tk_requesting := True, tk_requests := tk_requests s @ [Create_Token (tk_user s) (tk_description s) (tk_expiration s)]\<rparr>))"

text \<open>The creation's answer: the section asks for its list, and the dialog shows the token, or closes without one.\<close>

definition token_created :: "created_token \<Rightarrow> token_section \<Rightarrow> token_section" where
  "token_created r s =
     (let s1 = call_token (After_Creation r) (s\<lparr>tk_requesting := False\<rparr>) in
      if ct_token r \<noteq> [] then s1\<lparr>tk_createdToken := Some (ct_token r)\<rparr> else s1\<lparr>tk_open := False\<rparr>)"

definition handleCopyToken :: "token_section \<Rightarrow> token_section" where
  "handleCopyToken s =
     (case tk_createdToken s of None \<Rightarrow> s | Some t \<Rightarrow> toast_token (Toast_Success ''message.copied'') (copy_token t s))"

section \<open>Events\<close>

datatype token_answer = Tokens "personal_access_token list" | Token_Made created_token | Token_Gone | Token_Error thrown

fun token_continued :: "(timestamp \<Rightarrow> int) \<Rightarrow> token_call \<Rightarrow> token_answer \<Rightarrow> token_section \<Rightarrow> token_section option" where
  "token_continued td (Tokens_Listing n) (Tokens ts) s =
     Some (if n = tk_effect s then s\<lparr>tk_tokens := listAccessTokens td ts\<rparr> else s)"
| "token_continued td (Tokens_Listing n) (Token_Error e) s =
     Some (if n = tk_effect s then toast_token (Toast_Error (handleError e (Some ''List access tokens'') None)) s else s)"
| "token_continued td (Creating_Token p) (Token_Made r) s = Some (token_created r s)"
| "token_continued td (Creating_Token p) (Token_Error e) s =
     Some (toast_token (Toast_Error (handleError e (Some ''Create access token'') None)) (s\<lparr>tk_requesting := False\<rparr>))"
| "token_continued td (After_Creation r) (Tokens ts) s = Some (after_creation td r ts s)"
| "token_continued td (After_Creation r) (Token_Error e) s = Some s"
| "token_continued td (Deleting_Token n d) Token_Gone s = Some (token_deleted n d s)"
| "token_continued td (Deleting_Token n d) (Token_Error e) s = Some (s\<lparr>tk_confirming := False\<rparr>)"
| "token_continued td _ _ s = None"

definition token_answered :: "(timestamp \<Rightarrow> int) \<Rightarrow> nat \<Rightarrow> token_answer \<Rightarrow> token_section \<Rightarrow> token_section" where
  "token_answered td i a s =
     (if length (tk_calls s) \<le> i then s
      else case token_continued td (tk_calls s ! i) a (s\<lparr>tk_calls := take i (tk_calls s) @ drop (Suc i) (tk_calls s)\<rparr>) of
        None \<Rightarrow> s | Some s' \<Rightarrow> s')"

datatype token_event =
    Token_User "string option"
  | New_Token
  | Token_Dismissed
  | Type_Description string
  | Pick_Expiration nat
  | Token_Create
  | Token_Cancel
  | Token_Copy
  | Delete_Row nat
  | Token_Delete_Cancelled
  | Token_Delete_Confirmed
  | Token_Answer nat token_answer

text \<open>The dialog shows the form until it has a token.\<close>

definition token_form :: "token_section \<Rightarrow> bool" where
  "token_form s \<longleftrightarrow> tk_open s \<and> tk_createdToken s = None"

definition token_step :: "(timestamp \<Rightarrow> int) \<Rightarrow> token_section \<Rightarrow> token_event \<Rightarrow> token_section" where
  "token_step td s e =
     (let free = (\<not> tk_open s \<and> tk_deleteTarget s = None) in
      case e of
        Token_User u \<Rightarrow> if u = tk_user s then s else tokens_effect (s\<lparr>tk_user := u\<rparr>)
      | New_Token \<Rightarrow> if free then open_token_dialog s else s
      | Token_Dismissed \<Rightarrow> s\<lparr>tk_open := False\<rparr>
      | Type_Description v \<Rightarrow> if token_form s then s\<lparr>tk_description := v\<rparr> else s
      | Pick_Expiration k \<Rightarrow> if token_form s \<and> k < length expirationOptions then s\<lparr>tk_expiration := expirationOptions ! k\<rparr> else s
      | Token_Create \<Rightarrow> if token_form s \<and> \<not> tk_requesting s then token_handleSaveBtnClick s else s
      | Token_Cancel \<Rightarrow> if token_form s \<and> \<not> tk_requesting s then s\<lparr>tk_open := False\<rparr> else s
      | Token_Copy \<Rightarrow> if tk_open s then handleCopyToken s else s
      | Delete_Row k \<Rightarrow> if free \<and> k < length (tk_tokens s) then s\<lparr>tk_deleteTarget := Some (tk_tokens s ! k)\<rparr> else s
      | Token_Delete_Cancelled \<Rightarrow> if tk_confirming s then s else s\<lparr>tk_deleteTarget := None\<rparr>
      | Token_Delete_Confirmed \<Rightarrow> if tk_confirming s then s else confirmDeleteAccessToken s
      | Token_Answer i a \<Rightarrow> token_answered td i a s)"

definition tokens_mount :: "string option \<Rightarrow> token_section" where
  "tokens_mount user =
     tokens_effect \<lparr>tk_user = user, tk_effect = 0, tk_tokens = [], tk_open = False, tk_description = [], tk_expiration = 30,
       tk_createdToken = None, tk_requesting = False, tk_deleteTarget = None, tk_confirming = False, tk_calls = [],
       tk_requests = [], tk_copied = [], tk_toasts = []\<rparr>"

section \<open>Where tokens go\<close>

text \<open>
  The tokens an answer brought: they are waiting for the list, or copied; a list that fails after a creation is the
  one way for a token not to be copied.
\<close>

definition waiting_tokens :: "token_section \<Rightarrow> string set" where
  "waiting_tokens s = ct_token ` {r. After_Creation r \<in> set (tk_calls s)}"

definition made_token :: "token_section \<Rightarrow> token_event \<Rightarrow> string option" where
  "made_token s e =
     (case e of
        Token_Answer i (Token_Made r) \<Rightarrow>
          if i < length (tk_calls s) \<and> (case tk_calls s ! i of Creating_Token _ \<Rightarrow> True | _ \<Rightarrow> False) then Some (ct_token r) else None
      | _ \<Rightarrow> None)"

definition list_fails :: "token_section \<Rightarrow> token_event \<Rightarrow> bool" where
  "list_fails s e =
     (case e of
        Token_Answer i (Token_Error _) \<Rightarrow> i < length (tk_calls s) \<and> (case tk_calls s ! i of After_Creation _ \<Rightarrow> True | _ \<Rightarrow> False)
      | _ \<Rightarrow> False)"

fun made_tokens :: "(timestamp \<Rightarrow> int) \<Rightarrow> token_section \<Rightarrow> token_event list \<Rightarrow> string list" where
  "made_tokens td s [] = []"
| "made_tokens td s (e # es) = (case made_token s e of None \<Rightarrow> [] | Some t \<Rightarrow> [t]) @ made_tokens td (token_step td s e) es"

fun lists_arrive :: "(timestamp \<Rightarrow> int) \<Rightarrow> token_section \<Rightarrow> token_event list \<Rightarrow> bool" where
  "lists_arrive td s [] = True"
| "lists_arrive td s (e # es) = (\<not> list_fails s e \<and> lists_arrive td (token_step td s e) es)"

definition kept_tokens :: "string set \<Rightarrow> token_section \<Rightarrow> bool" where
  "kept_tokens made s \<longleftrightarrow> made - {[]} \<subseteq> set (tk_copied s) \<union> waiting_tokens s"

lemma kept_frame:
  "kept_tokens made s \<Longrightarrow> set (tk_copied s) \<subseteq> set (tk_copied s') \<Longrightarrow> set (tk_calls s) \<subseteq> set (tk_calls s') \<Longrightarrow> kept_tokens made s'"
  by (auto simp: kept_tokens_def waiting_tokens_def)

lemma token_ends [simp]:
  "tk_copied (toast_token t s) = tk_copied s" "tk_calls (toast_token t s) = tk_calls s"
  "tk_copied (token_deleted n d s) = tk_copied s" "tk_calls (token_deleted n d s) = tk_calls s"
  "tk_copied (token_created r s) = tk_copied s" "tk_calls (token_created r s) = tk_calls s @ [After_Creation r]"
  "tk_copied (after_creation td r ts s) = tk_copied s @ (if ct_token r = [] then [] else [ct_token r])"
  "tk_calls (after_creation td r ts s) = tk_calls s"
  by (simp_all add: toast_token_def token_deleted_def token_created_def call_token_def after_creation_def copy_token_def Let_def)

text \<open>The token a call waits to copy, and the one an answer brings it.\<close>

definition carried :: "token_call \<Rightarrow> string set" where
  "carried c = (case c of After_Creation r \<Rightarrow> {ct_token r} | _ \<Rightarrow> {})"

definition brought_token :: "token_call \<Rightarrow> token_answer \<Rightarrow> string set" where
  "brought_token c a = (case (c, a) of (Creating_Token p, Token_Made r) \<Rightarrow> {ct_token r} | _ \<Rightarrow> {})"

definition loses :: "token_call \<Rightarrow> token_answer \<Rightarrow> bool" where
  "loses c a = (case (c, a) of (After_Creation r, Token_Error e) \<Rightarrow> True | _ \<Rightarrow> False)"

lemma continued_kept:
  assumes "made - {[]} \<subseteq> set (tk_copied s) \<union> waiting_tokens s \<union> carried c" and "token_continued td c a s = Some s'" and "\<not> loses c a"
  shows "kept_tokens (made \<union> brought_token c a) s'"
  using assms(2)
  by (cases "(td, c, a, s)" rule: token_continued.cases)
    (use assms(1,3) in \<open>auto simp: kept_tokens_def waiting_tokens_def carried_def brought_token_def loses_def split: if_splits\<close>)

lemma answer_kept:
  assumes "kept_tokens made s" and "i < length (tk_calls s)" and "\<not> loses (tk_calls s ! i) a"
    and "token_continued td (tk_calls s ! i) a (s\<lparr>tk_calls := take i (tk_calls s) @ drop (Suc i) (tk_calls s)\<rparr>) = Some s'"
  shows "kept_tokens (made \<union> brought_token (tk_calls s ! i) a) s'"
proof (rule continued_kept [OF _ assms(4,3)])
  let ?rest = "take i (tk_calls s) @ drop (Suc i) (tk_calls s)"
  have "set (tk_calls s) = insert (tk_calls s ! i) (set ?rest)"
    using assms(2) by (subst (1) id_take_nth_drop [of i "tk_calls s"]) auto
  then have "waiting_tokens s \<subseteq> waiting_tokens (s\<lparr>tk_calls := ?rest\<rparr>) \<union> carried (tk_calls s ! i)"
    by (auto simp: waiting_tokens_def carried_def split: token_call.splits)
  then show "made - {[]} \<subseteq> set (tk_copied (s\<lparr>tk_calls := ?rest\<rparr>)) \<union> waiting_tokens (s\<lparr>tk_calls := ?rest\<rparr>) \<union> carried (tk_calls s ! i)"
    using assms(1) by (auto simp: kept_tokens_def)
qed

lemma token_step_kept:
  assumes "kept_tokens made s" and "\<not> list_fails s e"
  shows "kept_tokens (made \<union> set_option (made_token s e)) (token_step td s e)"
proof (cases e)
  case (Token_Answer i a)
  show ?thesis
  proof (cases "i < length (tk_calls s)")
    case True
    have same: "set_option (made_token s e) = brought_token (tk_calls s ! i) a" "list_fails s e = loses (tk_calls s ! i) a"
      using Token_Answer True
      by (auto simp: made_token_def brought_token_def list_fails_def loses_def split: token_answer.splits token_call.splits)
    show ?thesis
    proof (cases "token_continued td (tk_calls s ! i) a (s\<lparr>tk_calls := take i (tk_calls s) @ drop (Suc i) (tk_calls s)\<rparr>)")
      case None
      then have "brought_token (tk_calls s ! i) a = {}" by (cases "tk_calls s ! i"; cases a) (simp_all add: brought_token_def)
      then show ?thesis using None True Token_Answer assms(1) same by (simp add: token_step_def token_answered_def)
    next
      case (Some s')
      then show ?thesis using answer_kept [OF assms(1) True _ Some] same assms(2) True Token_Answer
        by (simp add: token_step_def token_answered_def)
    qed
  qed (use assms(1) Token_Answer in \<open>simp_all add: token_step_def token_answered_def made_token_def split: token_answer.split\<close>)
qed (use assms(1) in \<open>auto intro!: kept_frame [OF assms(1)] simp: made_token_def token_step_def tokens_effect_def call_token_def Let_def
    open_token_dialog_def token_handleSaveBtnClick_def handleCopyToken_def copy_token_def confirmDeleteAccessToken_def
    split: option.split\<close>)

lemma run_kept:
  "kept_tokens made s \<Longrightarrow> lists_arrive td s es \<Longrightarrow> kept_tokens (made \<union> set (made_tokens td s es)) (foldl (token_step td) s es)"
proof (induction es arbitrary: s made)
  case (Cons e es)
  have "kept_tokens (made \<union> set_option (made_token s e)) (token_step td s e)" using Cons.prems token_step_kept by simp
  from Cons.IH [OF this] Cons.prems(2) show ?case by (cases "made_token s e") simp_all
qed simp

section \<open>What the section sends\<close>

definition token_request_ok :: "string set \<Rightarrow> token_request \<Rightarrow> bool" where
  "token_request_ok known r =
     (case r of Create_Token p description days \<Rightarrow> description \<noteq> [] \<and> days \<in> {30, 90, 0} | Delete_Token n \<Rightarrow> n \<in> known)"

definition creating_token :: "token_call \<Rightarrow> bool" where
  "creating_token c = (case c of Creating_Token _ \<Rightarrow> True | _ \<Rightarrow> False)"

definition tokens_ok :: "string set \<Rightarrow> token_section \<Rightarrow> bool" where
  "tokens_ok known s \<longleftrightarrow>
     pt_name ` set (tk_tokens s) \<subseteq> known \<and> (case tk_deleteTarget s of None \<Rightarrow> True | Some t \<Rightarrow> pt_name t \<in> known)
     \<and> tk_expiration s \<in> {30, 90, 0} \<and> list_all (token_request_ok known) (tk_requests s)
     \<and> length (filter creating_token (tk_calls s)) = (if tk_requesting s then 1 else 0)"

definition answer_tokens :: "token_answer \<Rightarrow> string set" where
  "answer_tokens a = (case a of Tokens ts \<Rightarrow> pt_name ` set ts | _ \<Rightarrow> {})"

definition event_tokens :: "token_event \<Rightarrow> string set" where
  "event_tokens e = (case e of Token_Answer i a \<Rightarrow> answer_tokens a | _ \<Rightarrow> {})"

text \<open>The invariant with the call that is answered counted on its own.\<close>

definition tokens_ok_but :: "string set \<Rightarrow> token_call \<Rightarrow> token_section \<Rightarrow> bool" where
  "tokens_ok_but known c s \<longleftrightarrow> tokens_ok known (s\<lparr>tk_calls := c # tk_calls s\<rparr>)"

lemma tokens_frame [simp]:
  "tokens_ok known (toast_token t s) = tokens_ok known s" "tokens_ok known (copy_token x s) = tokens_ok known s"
  "tokens_ok known (s\<lparr>tk_createdToken := y\<rparr>) = tokens_ok known s" "tokens_ok known (s\<lparr>tk_open := b\<rparr>) = tokens_ok known s"
  "tokens_ok known (s\<lparr>tk_confirming := b\<rparr>) = tokens_ok known s" "tokens_ok known (s\<lparr>tk_description := x\<rparr>) = tokens_ok known s"
  "\<not> creating_token c \<Longrightarrow> tokens_ok known (call_token c s) = tokens_ok known s"
  by (simp_all add: tokens_ok_def toast_token_def copy_token_def call_token_def)

lemma tokens_listed: "tokens_ok known s \<Longrightarrow> pt_name ` set ts \<subseteq> known \<Longrightarrow> tokens_ok known (s\<lparr>tk_tokens := listAccessTokens td ts\<rparr>)"
  by (simp add: tokens_ok_def listAccessTokens_def)

lemma tokens_call_gone:
  assumes "tokens_ok_but known c s"
  shows "\<not> creating_token c \<Longrightarrow> tokens_ok known s" and "creating_token c \<Longrightarrow> tokens_ok known (s\<lparr>tk_requesting := False\<rparr>)"
  using assms by (auto simp: tokens_ok_but_def tokens_ok_def split: if_splits)

lemma tokens_continued_ok:
  assumes "tokens_ok_but known c s" and "answer_tokens a \<subseteq> known" and "token_continued td c a s = Some s'"
  shows "tokens_ok known s'"
proof -
  have "tokens_ok known s \<Longrightarrow> tokens_ok known (token_deleted n d s)" for n d
    by (simp add: token_deleted_def) (auto simp: tokens_ok_def)
  then show ?thesis
    using assms(3)
    by (cases "(td, c, a, s)" rule: token_continued.cases)
      (use assms(2) tokens_call_gone [OF assms(1)] in \<open>auto simp: creating_token_def answer_tokens_def token_created_def after_creation_def
        tokens_listed Let_def\<close>)
qed

lemma tokens_answered_ok:
  assumes "tokens_ok known s" and "answer_tokens a \<subseteq> known"
  shows "tokens_ok known (token_answered td i a s)"
proof (cases "i < length (tk_calls s)")
  case True
  have "length (filter creating_token (tk_calls s ! i # take i (tk_calls s) @ drop (Suc i) (tk_calls s)))
      = length (filter creating_token (tk_calls s))"
    using arg_cong [OF id_take_nth_drop [OF True], of "\<lambda>xs. length (filter creating_token xs)"] by simp
  then have "tokens_ok_but known (tk_calls s ! i) (s\<lparr>tk_calls := take i (tk_calls s) @ drop (Suc i) (tk_calls s)\<rparr>)"
    using assms(1) by (simp only: tokens_ok_but_def tokens_ok_def) simp
  then show ?thesis using tokens_continued_ok [OF _ assms(2)] assms(1) by (auto simp: token_answered_def split: option.split)
qed (simp add: token_answered_def assms(1))

lemma token_step_ok:
  assumes "tokens_ok known s" and "event_tokens e \<subseteq> known"
  shows "tokens_ok known (token_step td s e)"
proof (cases e)
  case (Token_User u)
  have "tokens_ok known (s\<lparr>tk_user := v, tk_effect := n\<rparr>)" for v n using assms(1) by (simp add: tokens_ok_def)
  then show ?thesis using Token_User assms(1)
    by (simp add: token_step_def tokens_effect_def Let_def creating_token_def split: option.split)
next
  case New_Token
  then show ?thesis using assms(1) by (simp add: token_step_def open_token_dialog_def tokens_ok_def)
next
  case (Pick_Expiration k)
  have "k < length expirationOptions \<Longrightarrow> expirationOptions ! k \<in> {30, 90, 0}"
    using nth_mem [of k expirationOptions] by (simp add: expirationOptions_def)
  then show ?thesis using Pick_Expiration assms(1) by (simp add: token_step_def tokens_ok_def)
next
  case Token_Create
  then show ?thesis using assms(1)
    by (simp add: token_step_def token_handleSaveBtnClick_def) (simp add: tokens_ok_def call_token_def token_request_ok_def creating_token_def)
next
  case Token_Copy
  then show ?thesis using assms(1) by (simp add: token_step_def handleCopyToken_def split: option.split)
next
  case (Delete_Row k)
  have "k < length (tk_tokens s) \<Longrightarrow> pt_name (tk_tokens s ! k) \<in> known" using assms(1) by (auto simp: tokens_ok_def)
  then show ?thesis using Delete_Row assms(1) by (simp add: token_step_def tokens_ok_def)
next
  case Token_Delete_Cancelled
  then show ?thesis using assms(1) by (simp add: token_step_def tokens_ok_def)
next
  case Token_Delete_Confirmed
  have "tokens_ok known (confirmDeleteAccessToken s)"
  proof (cases "tk_deleteTarget s")
    case (Some t)
    then show ?thesis using assms(1)
      by (simp add: confirmDeleteAccessToken_def creating_token_def) (simp add: tokens_ok_def token_request_ok_def)
  qed (simp add: confirmDeleteAccessToken_def assms(1))
  then show ?thesis using Token_Delete_Confirmed assms(1) by (simp add: token_step_def)
next
  case (Token_Answer i a)
  then show ?thesis using assms tokens_answered_ok by (simp add: token_step_def event_tokens_def)
qed (use assms(1) in \<open>simp_all add: token_step_def\<close>)

definition given_tokens :: "token_event list \<Rightarrow> string set" where
  "given_tokens es = (\<Union>e \<in> set es. event_tokens e)"

lemma token_run_ok: "tokens_ok known s \<Longrightarrow> given_tokens es \<subseteq> known \<Longrightarrow> tokens_ok known (foldl (token_step td) s es)"
  by (induction es arbitrary: s) (simp_all add: token_step_ok given_tokens_def)

section \<open>Properties\<close>

text \<open>A token is created only with a description and one of the three lifetimes offered, deleted only when it was
  listed, and never two are created at a time.\<close>

theorem token_requests_valid:
  "let s = foldl (token_step td) (tokens_mount user) es in
   list_all (token_request_ok (given_tokens es)) (tk_requests s) \<and> length (filter creating_token (tk_calls s)) \<le> 1"
proof -
  have "tokens_ok (given_tokens es) (tokens_mount user)"
    by (simp add: tokens_mount_def tokens_effect_def Let_def creating_token_def split: option.split) (simp add: tokens_ok_def)
  then have "tokens_ok (given_tokens es) (foldl (token_step td) (tokens_mount user) es)" by (rule token_run_ok) simp
  then show ?thesis by (simp add: tokens_ok_def Let_def)
qed

text \<open>C40: A token is shown only in the answer to its creation. Unless the list asked for after a creation fails, every token
  that was created is copied to the clipboard, or will be when that list arrives, whatever happens to the dialog.\<close>

theorem tokens_copied:
  assumes "lists_arrive td (tokens_mount user) es"
  shows "let s = foldl (token_step td) (tokens_mount user) es in
    \<forall>t \<in> set (made_tokens td (tokens_mount user) es). t = [] \<or> t \<in> set (tk_copied s) \<or> t \<in> waiting_tokens s"
proof -
  have "kept_tokens {} (tokens_mount user)" by (simp add: kept_tokens_def)
  from run_kept [OF this assms] show ?thesis by (auto simp: kept_tokens_def Let_def)
qed

definition sample_tokens :: "token_event list" where
  "sample_tokens = [Token_Answer 0 (Tokens []), New_Token, Type_Description ''ci'', Token_Create, Token_Dismissed,
     Token_Answer 0 (Token_Made \<lparr>ct_token = ''secret'', ct_personalAccessToken = None\<rparr>)]"

theorem tokens_copied_witness:
  "let s = foldl (token_step ts_seconds) (tokens_mount (Some ''users/1'')) (sample_tokens @ [Token_Answer 0 (Tokens [])]) in
    made_tokens ts_seconds (tokens_mount (Some ''users/1'')) (sample_tokens @ [Token_Answer 0 (Tokens [])]) = [''secret'']
    \<and> ''secret'' \<in> set (tk_copied s) \<union> waiting_tokens s"
proof -
  have made: "made_tokens ts_seconds (tokens_mount (Some ''users/1'')) (sample_tokens @ [Token_Answer 0 (Tokens [])]) = [''secret'']"
    by code_simp
  have "lists_arrive ts_seconds (tokens_mount (Some ''users/1'')) (sample_tokens @ [Token_Answer 0 (Tokens [])])" by code_simp
  from tokens_copied [OF this] made show ?thesis by (simp add: Let_def)
qed

text \<open>When the list fails and the dialog was dismissed, the token is gone: neither copied nor, once the dialog opens again, shown.\<close>

theorem token_lost:
  "let s = foldl (token_step ts_seconds) (tokens_mount (Some ''users/1'')) (sample_tokens @ [Token_Answer 0 (Token_Error Thrown_Other), New_Token]) in
   tk_copied s = [] \<and> tk_calls s = [] \<and> tk_createdToken s = None \<and> tk_toasts s = []"
  by code_simp

text \<open>A list asked for before a deletion brings the deleted token back.\<close>

theorem deleted_token_back:
  "let t = \<lparr>pt_name = ''t'', pt_description = ''old'', pt_createdAt = None, pt_expiresAt = None, pt_lastUsedAt = None\<rparr>;
       s = foldl (token_step ts_seconds) (tokens_mount (Some ''users/1'')) (Token_Answer 0 (Tokens [t]) # tl sample_tokens @
         [Delete_Row 0, Token_Delete_Confirmed, Token_Answer 1 Token_Gone, Token_Answer 0 (Tokens [t])]) in
   tk_requests s = [Create_Token (Some ''users/1'') ''ci'' 30, Delete_Token ''t''] \<and> tk_tokens s = [t]"
  by code_simp

end
