(* ===== verification/Appearance.thy ===== *)
theory Appearance
  imports JsBase "HOL-Library.List_Lexorder" "HOL-Library.Char_ord"
begin

text \<open>
  Themes (\<^verbatim>\<open>utils/theme.ts\<close>, \<^verbatim>\<open>hooks/useUserTheme.ts\<close>) and locales (\<^verbatim>\<open>i18n.ts\<close>,
  \<^verbatim>\<open>utils/i18n.ts\<close>, \<^verbatim>\<open>hooks/useUserLocale.ts\<close>). The style sheets, the preference of the system
  and the language of the browser are arguments; an entry of the local storage is \<open>None\<close> where access
  throws.
\<close>

section \<open>Themes\<close>

definition VALID_THEMES :: "string list" where
  "VALID_THEMES = [''system'', ''default'', ''default-dark'', ''paper'', ''everforest-dark'', ''everforest-light'',
     ''catppuccin'', ''dracula'']"

definition resolved_themes :: "string list" where
  "resolved_themes = filter (\<lambda>t. t \<noteq> ''system'') VALID_THEMES"

definition THEME_COLORS :: "(string \<times> string) list" where
  "THEME_COLORS = [(''default'', ''#faf9f5''), (''default-dark'', ''#1d1f23''), (''paper'', ''#f5ede4''),
     (''everforest-dark'', ''#2b3339''), (''everforest-light'', ''#fdf6e3''), (''catppuccin'', ''#24273a''),
     (''dracula'', ''#282a36'')]"

definition validateTheme :: "string \<Rightarrow> string" where
  "validateTheme theme = (if theme \<in> set VALID_THEMES then theme else ''default'')"

definition getSystemTheme :: "bool \<Rightarrow> string" where
  "getSystemTheme prefersDark = (if prefersDark then ''default-dark'' else ''default'')"

definition resolveTheme :: "bool \<Rightarrow> string \<Rightarrow> string" where
  "resolveTheme prefersDark theme =
     (let validTheme = validateTheme theme in if validTheme = ''system'' then getSystemTheme prefersDark else validTheme)"

type_synonym entry = "string option option"

definition getStoredTheme :: "entry \<Rightarrow> string option" where
  "getStoredTheme store =
     (case store of
        Some (Some stored) \<Rightarrow> if stored \<noteq> [] \<and> stored \<in> set VALID_THEMES then Some stored else None
      | _ \<Rightarrow> None)"

definition setStoredTheme :: "string \<Rightarrow> entry \<Rightarrow> entry" where
  "setStoredTheme theme store = map_option (\<lambda>_. Some theme) store"

definition getInitialTheme :: "entry \<Rightarrow> string" where
  "getInitialTheme store = (case getStoredTheme store of None \<Rightarrow> ''system'' | Some t \<Rightarrow> t)"

definition getThemeWithFallback :: "string option \<Rightarrow> entry \<Rightarrow> string" where
  "getThemeWithFallback userTheme store =
     (case userTheme of
        Some t \<Rightarrow> if t \<noteq> [] \<and> t \<in> set VALID_THEMES then t else getInitialTheme store
      | None \<Rightarrow> getInitialTheme store)"

text \<open>
  The document: the style elements with the theme's identifier, the attribute, the content of the
  element for the colour of the browser if there is one, and the colour scheme.
\<close>

record document =
  doc_styles :: "string list"
  doc_theme :: "string option"
  doc_color :: "string option"
  doc_colorScheme :: string

definition removeThemeStyle :: "document \<Rightarrow> document" where
  "removeThemeStyle d = d\<lparr>doc_styles := tl (doc_styles d)\<rparr>"

text \<open>\<open>css\<close> is the text of a theme's style sheet; the default theme has none.\<close>

definition injectThemeStyle :: "(string \<Rightarrow> string) \<Rightarrow> string \<Rightarrow> document \<Rightarrow> document" where
  "injectThemeStyle css theme d =
     (let d1 = removeThemeStyle d in
      if theme = ''default'' then d1
      else if css theme \<noteq> [] then d1\<lparr>doc_styles := doc_styles d1 @ [css theme]\<rparr> else d1)"

definition setThemeAttribute :: "string \<Rightarrow> document \<Rightarrow> document" where
  "setThemeAttribute theme d = d\<lparr>doc_theme := Some theme\<rparr>"

definition updateThemeColorMeta :: "string \<Rightarrow> document \<Rightarrow> document" where
  "updateThemeColorMeta theme d = d\<lparr>doc_color := map_option (\<lambda>_. the (map_of THEME_COLORS theme)) (doc_color d)\<rparr>"

definition isDarkTheme :: "string \<Rightarrow> bool" where
  "isDarkTheme theme = (endsWith theme ''-dark'' \<or> endsWith theme ''.dark'')"

definition updateColorScheme :: "string \<Rightarrow> document \<Rightarrow> document" where
  "updateColorScheme theme d = d\<lparr>doc_colorScheme := (if isDarkTheme theme then ''dark'' else ''light'')\<rparr>"

definition loadTheme :: "(string \<Rightarrow> string) \<Rightarrow> bool \<Rightarrow> string \<Rightarrow> document \<times> entry \<Rightarrow> document \<times> entry" where
  "loadTheme css prefersDark themeName x =
     (let validTheme = validateTheme themeName; resolvedTheme = resolveTheme prefersDark validTheme in
      (updateColorScheme resolvedTheme (updateThemeColorMeta resolvedTheme
         (setThemeAttribute resolvedTheme (injectThemeStyle css resolvedTheme (fst x)))),
       setStoredTheme validTheme (snd x)))"

definition applyThemeEarly :: "(string \<Rightarrow> string) \<Rightarrow> bool \<Rightarrow> document \<times> entry \<Rightarrow> document \<times> entry" where
  "applyThemeEarly css prefersDark x = loadTheme css prefersDark (getInitialTheme (snd x)) x"

section \<open>The theme hook\<close>

text \<open>
  The application with \<open>useUserTheme\<close>: the document and the storage, the preference of the system, the
  theme in the user's settings (none without settings), and the theme the listener for the system was
  set up with, if it was.
\<close>

record theme_app =
  ta_page :: "document \<times> entry"
  ta_prefersDark :: bool
  ta_setting :: "string option"
  ta_listener :: "string option"

datatype theme_event = Mount_App | Setting_Changed "string option" | Pick_Theme string | System_Changed bool

text \<open>The two effects, which run when the component mounts and when the theme of the settings changes.\<close>

definition theme_effects :: "(string \<Rightarrow> string) \<Rightarrow> theme_app \<Rightarrow> theme_app" where
  "theme_effects css a =
     (let a1 = (case ta_setting a of
                  None \<Rightarrow> a
                | Some t \<Rightarrow> a\<lparr>ta_page := loadTheme css (ta_prefersDark a) (getThemeWithFallback (Some t) (snd (ta_page a))) (ta_page a)\<rparr>);
          theme = getThemeWithFallback (ta_setting a) (snd (ta_page a1)) in
      a1\<lparr>ta_listener := (if theme \<noteq> ''system'' then None else Some theme)\<rparr>)"

definition theme_step :: "(string \<Rightarrow> string) \<Rightarrow> theme_app \<Rightarrow> theme_event \<Rightarrow> theme_app" where
  "theme_step css a e =
     (case e of
        Mount_App \<Rightarrow> theme_effects css a
      | Setting_Changed s \<Rightarrow> if s = ta_setting a then a else theme_effects css (a\<lparr>ta_setting := s\<rparr>)
      | Pick_Theme t \<Rightarrow> a\<lparr>ta_page := loadTheme css (ta_prefersDark a) t (ta_page a)\<rparr>
      | System_Changed dark \<Rightarrow>
          (case ta_listener a of
             None \<Rightarrow> a\<lparr>ta_prefersDark := dark\<rparr>
           | Some t \<Rightarrow> a\<lparr>ta_prefersDark := dark, ta_page := loadTheme css dark t (ta_page a)\<rparr>))"

section \<open>Locales\<close>

text \<open>\<open>orderBy\<close> without a key sorts the list.\<close>

definition locales :: "string list" where
  "locales = sort [''ar'', ''bg'', ''ca'', ''cs'', ''da'', ''de'', ''el'', ''en'', ''en-GB'', ''es'', ''et'', ''fa'', ''fi'',
     ''fr'', ''gl'', ''hi'', ''hr'', ''hu'', ''id'', ''it'', ''ja'', ''ka-GE'', ''ko'', ''lt'', ''lv'', ''mr'', ''nb'', ''nl'',
     ''pl'', ''pt-PT'', ''pt-BR'', ''ro'', ''ru'', ''sk'', ''sl'', ''sr'', ''sv'', ''th'', ''tr'', ''uk'', ''vi'', ''zh-Hans'',
     ''zh-Hant'']"

definition fallbackLng :: "(string \<times> string list) list" where
  "fallbackLng = [(''zh-HK'', [''zh-Hant'', ''en'']), (''zh-TW'', [''zh-Hant'', ''en'']), (''zh'', [''zh-Hans'', ''en'']),
     (''default'', [''en''])]"

definition findNearestMatchedLanguage :: "string \<Rightarrow> string" where
  "findNearestMatchedLanguage language =
     (if language \<in> set locales then language
      else
        (case List.find (\<lambda>(main, _). language = main) fallbackLng of
           Some (_, fallbacks) \<Rightarrow> fallbacks ! 0
         | None \<Rightarrow>
             (let shortCode = take 2 language in
              if shortCode \<in> set locales then shortCode
              else
                (case List.find (\<lambda>existing. shortCode = take 2 existing) locales of
                   Some existing \<Rightarrow> existing
                 | None \<Rightarrow> the (map_of fallbackLng ''default'') ! 0))))"

definition isValidLocale :: "string option \<Rightarrow> bool" where
  "isValidLocale locale = (case locale of None \<Rightarrow> False | Some l \<Rightarrow> l \<noteq> [] \<and> l \<in> set locales)"

definition getStoredLocale :: "entry \<Rightarrow> string option" where
  "getStoredLocale store =
     (case store of Some (Some stored) \<Rightarrow> if stored \<noteq> [] \<and> stored \<in> set locales then Some stored else None | _ \<Rightarrow> None)"

definition setStoredLocale :: "string \<Rightarrow> entry \<Rightarrow> entry" where
  "setStoredLocale locale store = map_option (\<lambda>_. Some locale) store"

definition getLocaleWithFallback :: "string \<Rightarrow> string option \<Rightarrow> entry \<Rightarrow> string" where
  "getLocaleWithFallback navigatorLanguage userLocale store =
     (if isValidLocale userLocale then the userLocale
      else case getStoredLocale store of Some l \<Rightarrow> l | None \<Rightarrow> findNearestMatchedLanguage navigatorLanguage)"

text \<open>\<open>loadLocale\<close>: the locale, which also becomes the language of the document, and the storage.\<close>

definition loadLocale :: "string \<Rightarrow> string \<Rightarrow> entry \<Rightarrow> string \<times> entry" where
  "loadLocale navigatorLanguage locale store =
     (let validLocale = (if isValidLocale (Some locale) then locale else findNearestMatchedLanguage navigatorLanguage) in
      (validLocale, setStoredLocale validLocale store))"

definition applyLocaleEarly :: "string \<Rightarrow> entry \<Rightarrow> string \<times> entry" where
  "applyLocaleEarly navigatorLanguage store =
     (let locale = (case getStoredLocale store of Some l \<Rightarrow> l | None \<Rightarrow> findNearestMatchedLanguage navigatorLanguage) in
      loadLocale navigatorLanguage locale store)"

definition text_direction :: "string \<Rightarrow> string" where
  "text_direction currentLocale = (if currentLocale \<in> {''ar'', ''fa''} then ''rtl'' else ''ltr'')"

section \<open>Properties of themes\<close>

lemma valid_themes: "validateTheme t \<in> set VALID_THEMES" "''system'' \<in> set VALID_THEMES" "[] \<notin> set VALID_THEMES"
  by (auto simp: validateTheme_def VALID_THEMES_def)

lemma validate_id: "t \<in> set VALID_THEMES \<Longrightarrow> validateTheme t = t"
  by (simp add: validateTheme_def)

lemma resolve_resolved: "resolveTheme b t \<in> set resolved_themes"
  by (auto simp: resolveTheme_def getSystemTheme_def resolved_themes_def valid_themes Let_def) (simp_all add: VALID_THEMES_def)

lemma initial_valid: "getInitialTheme s \<in> set VALID_THEMES"
  by (auto simp: getInitialTheme_def getStoredTheme_def valid_themes split: option.split)

lemma styles_after: "length (doc_styles d) \<le> 1 \<Longrightarrow>
  doc_styles (injectThemeStyle css t d) = (if t = ''default'' \<or> css t = [] then [] else [css t])"
  by (cases "doc_styles d") (auto simp: injectThemeStyle_def removeThemeStyle_def Let_def)

text \<open>Every theme the functions hand out is one of the themes there are: the setting, the stored value and whatever
  else is given to them only choose among them, and a theme that is applied is one with colours and a style.\<close>

theorem theme_type:
  "validateTheme t \<in> set VALID_THEMES \<and> getInitialTheme store \<in> set VALID_THEMES
   \<and> getThemeWithFallback user store \<in> set VALID_THEMES
   \<and> resolveTheme dark t \<in> set (map fst THEME_COLORS)
   \<and> doc_theme (fst (loadTheme css dark t x)) = Some (resolveTheme dark (validateTheme t))"
proof -
  have "set resolved_themes = set (map fst THEME_COLORS)" by code_simp
  moreover have "getThemeWithFallback user store \<in> set VALID_THEMES"
    by (simp add: getThemeWithFallback_def initial_valid split: option.split)
  ultimately show ?thesis using resolve_resolved [of dark t]
    by (simp add: valid_themes initial_valid loadTheme_def Let_def updateColorScheme_def updateThemeColorMeta_def setThemeAttribute_def)
qed

text \<open>Only the last theme loaded shows: after any themes, loading one leaves the document as if it alone had been
  loaded, with its style sheet and no other; and when the page is opened again with the same storage and system, it
  looks the same.\<close>

theorem last_theme_shows:
  assumes "length (doc_styles (fst x)) \<le> 1"
  shows "let y = loadTheme css dark t (foldl (\<lambda>x (d, t). loadTheme css d t x) x earlier) in
    y = loadTheme css dark t x \<and> length (doc_styles (fst y)) \<le> 1
    \<and> (if snd x = None then True else fst (applyThemeEarly css dark (fst x, snd y)) = fst y)"
proof -
  let ?r = "resolveTheme dark t"
  have resolve: "resolveTheme dark (validateTheme t) = resolveTheme dark t" for dark t
    by (auto simp: resolveTheme_def validate_id valid_themes Let_def)
  define out where "out dark t c = \<lparr>doc_styles = (if resolveTheme dark t = ''default'' \<or> css (resolveTheme dark t) = [] then []
        else [css (resolveTheme dark t)]), doc_theme = Some (resolveTheme dark t),
      doc_color = map_option (\<lambda>_. the (map_of THEME_COLORS (resolveTheme dark t))) c,
      doc_colorScheme = (if isDarkTheme (resolveTheme dark t) then ''dark'' else ''light'')\<rparr>" for dark t and c :: "string option"
  have load: "loadTheme css dark t z = (out dark t (doc_color (fst z)), setStoredTheme (validateTheme t) (snd z))"
    if "length (doc_styles (fst z)) \<le> 1" for dark t z
  proof -
    have more: "doc_theme (injectThemeStyle css r d) = doc_theme d" "doc_color (injectThemeStyle css r d) = doc_color d"
      "doc_colorScheme (injectThemeStyle css r d) = doc_colorScheme d" for r d
      by (simp_all add: injectThemeStyle_def removeThemeStyle_def Let_def)
    show ?thesis using styles_after [OF that, of css]
      by (simp add: loadTheme_def resolve Let_def updateColorScheme_def updateThemeColorMeta_def setThemeAttribute_def
          out_def document.equality more)
  qed
  have out: "length (doc_styles (out dark t c)) \<le> 1" "(doc_color (out dark t c) = None) = (c = None)" for dark t c
    by (simp_all add: out_def)
  have none: "out dark t c = out dark t c'" if "(c = None) = (c' = None)" for dark t c c'
    using that by (cases c; cases c') (simp_all add: out_def)
  have fold: "length (doc_styles (fst z)) \<le> 1 \<Longrightarrow>
      (let w = foldl (\<lambda>x (d, t). loadTheme css d t x) z earlier in
        length (doc_styles (fst w)) \<le> 1 \<and> (doc_color (fst w) = None) = (doc_color (fst z) = None)
        \<and> (snd w = None) = (snd z = None))" for z
  proof (induction earlier arbitrary: z)
    case (Cons p earlier)
    obtain d t where p: "p = (d, t)" by (cases p)
    show ?case using Cons.IH [of "loadTheme css d t z"] out by (simp add: p load [OF Cons.prems] Let_def setStoredTheme_def)
  qed simp
  let ?w = "foldl (\<lambda>x (d, t). loadTheme css d t x) x earlier"
  have w: "length (doc_styles (fst ?w)) \<le> 1" "(doc_color (fst ?w) = None) = (doc_color (fst x) = None)" "(snd ?w = None) = (snd x = None)"
    using fold [OF assms] by (simp_all add: Let_def)
  have store: "setStoredTheme v (snd ?w) = setStoredTheme v (snd x)" for v
    using w(3) by (cases "snd x"; cases "snd ?w") (simp_all add: setStoredTheme_def)
  have eq: "loadTheme css dark t ?w = loadTheme css dark t x"
    by (simp only: load [OF w(1)] load [OF assms] store none [OF w(2)])
  have "getInitialTheme (Some (Some (validateTheme t))) = validateTheme t"
    using valid_themes(1) [of t] valid_themes(3) by (cases "validateTheme t = []") (simp_all add: getInitialTheme_def getStoredTheme_def)
  then have "fst (applyThemeEarly css dark (fst x, snd (loadTheme css dark t x))) = fst (loadTheme css dark t x)" if "snd x \<noteq> None"
    using that assms by (auto simp: applyThemeEarly_def load setStoredTheme_def out_def resolve)
  then show ?thesis unfolding eq Let_def using out by (simp add: load [OF assms])
qed

theorem last_theme_shows_witness:
  "fst (loadTheme (\<lambda>t. ''css of '' @ t) True ''system''
      (loadTheme (\<lambda>t. ''css of '' @ t) True ''paper'' (\<lparr>doc_styles = [], doc_theme = None, doc_color = Some [], doc_colorScheme = []\<rparr>, Some None)))
   = \<lparr>doc_styles = [''css of default-dark''], doc_theme = Some ''default-dark'', doc_color = Some ''#1d1f23'', doc_colorScheme = ''dark''\<rparr>"
proof -
  let ?x = "(\<lparr>doc_styles = [], doc_theme = None, doc_color = Some [], doc_colorScheme = []\<rparr>, Some None) :: document \<times> entry"
  have "loadTheme (\<lambda>t. ''css of '' @ t) True ''system'' (loadTheme (\<lambda>t. ''css of '' @ t) True ''paper'' ?x) =
      loadTheme (\<lambda>t. ''css of '' @ t) True ''system'' ?x"
    using last_theme_shows [of ?x "\<lambda>t. ''css of '' @ t" True "''system''" "[(True, ''paper'')]"] by (simp add: Let_def)
  moreover have "resolveTheme True (validateTheme ''system'') = ''default-dark''" by code_simp
  moreover have "isDarkTheme ''default-dark''" by code_simp
  ultimately show ?thesis
    by (simp add: loadTheme_def Let_def updateColorScheme_def updateThemeColorMeta_def setThemeAttribute_def
        injectThemeStyle_def removeThemeStyle_def THEME_COLORS_def)
qed

text \<open>Whether a colour, written with six digits, is dark: its channels sum up to less than half.\<close>

definition hex_val :: "char \<Rightarrow> nat" where
  "hex_val c = (if is_digit c then digit_val c else code_unit c - 87)"

definition dark_color :: "string \<Rightarrow> bool" where
  "dark_color c = (case map hex_val (tl c) of [r1, r2, g1, g2, b1, b2] \<Rightarrow> 2 * (16 * (r1 + g1 + b1) + r2 + g2 + b2) < 3 * 255 | _ \<Rightarrow> False)"

text \<open>A theme counts as dark by its name alone: Catppuccin and Dracula, whose backgrounds are dark, get the light colour
  scheme, so the browser draws scroll bars and form controls light on them. For all other themes the scheme fits
  the background.\<close>

theorem dark_themes_light_scheme:
  "list_all (\<lambda>(t, c). (isDarkTheme t = dark_color c) = (t \<noteq> ''catppuccin'' \<and> t \<noteq> ''dracula'')) THEME_COLORS
   \<and> doc_colorScheme (fst (loadTheme css dark ''dracula'' x)) = ''light''
   \<and> doc_colorScheme (fst (loadTheme css dark ''catppuccin'' x)) = ''light''"
proof -
  have "list_all (\<lambda>(t, c). (isDarkTheme t = dark_color c) = (t \<noteq> ''catppuccin'' \<and> t \<noteq> ''dracula'')) THEME_COLORS"
    by code_simp
  moreover have "resolveTheme dark (validateTheme t) = t" if "t = ''dracula'' \<or> t = ''catppuccin''" for t
    using that by (auto simp: resolveTheme_def validateTheme_def VALID_THEMES_def)
  moreover have "\<not> isDarkTheme ''dracula''" "\<not> isDarkTheme ''catppuccin''" by code_simp+
  ultimately show ?thesis by (simp add: loadTheme_def Let_def updateColorScheme_def)
qed

text \<open>A theme picked by a visitor who is not signed in is lost at the next change of the system's preference: the
  listener still holds the theme of the time the page was opened, loads it, and overwrites the stored choice.\<close>

theorem picked_theme_overwritten:
  "let a = foldl (theme_step css) \<lparr>ta_page = (d, Some None), ta_prefersDark = False, ta_setting = None, ta_listener = None\<rparr>
       [Mount_App, Pick_Theme ''dracula'', System_Changed True] in
     snd (ta_page a) = Some (Some ''system'') \<and> doc_theme (fst (ta_page a)) = Some ''default-dark''"
proof -
  have "validateTheme ''system'' = ''system''" "resolveTheme True ''system'' = ''default-dark''"
    "validateTheme ''dracula'' = ''dracula''" by code_simp+
  then show ?thesis
    by (simp add: theme_step_def theme_effects_def getThemeWithFallback_def getInitialTheme_def getStoredTheme_def
        loadTheme_def Let_def setStoredTheme_def updateColorScheme_def updateThemeColorMeta_def setThemeAttribute_def)
qed

section \<open>Properties of locales\<close>

text \<open>C30: Whatever the browser and the storage say, the locale used is one that has a translation; the user's own comes
  first, then the stored one; and a browser's language without a translation of its own gets one of the same language
  if there is any.\<close>

theorem locale_type:
  "findNearestMatchedLanguage l \<in> set locales \<and> getLocaleWithFallback l user store \<in> set locales
   \<and> fst (loadLocale l l' store) \<in> set locales
   \<and> (if isValidLocale user then getLocaleWithFallback l user store = the user
      else case getStoredLocale store of Some s \<Rightarrow> getLocaleWithFallback l user store = s | None \<Rightarrow> True)
   \<and> (if l \<noteq> ''default'' \<and> take 2 l \<in> set (map (take 2) locales) then take 2 (findNearestMatchedLanguage l) = take 2 l else True)"
proof -
  have table: "list_all (\<lambda>(_, fs). fs ! 0 \<in> set locales) fallbackLng" "the (map_of fallbackLng ''default'') ! 0 \<in> set locales"
    "list_all (\<lambda>(m, fs). m = ''default'' \<or> take 2 (fs ! 0) = take 2 m) fallbackLng"
    by code_simp+
  have nearest: "findNearestMatchedLanguage l \<in> set locales" for l
    using table(1,2) by (auto simp: findNearestMatchedLanguage_def Let_def find_Some_iff list_all_length split: option.split)
  have same: "take 2 (findNearestMatchedLanguage l) = take 2 l" if ne: "l \<noteq> ''default''" and short: "take 2 l \<in> set (map (take 2) locales)"
  proof -
    obtain e where e: "List.find (\<lambda>existing. take 2 l = take 2 existing) locales = Some e"
      using short by (cases "List.find (\<lambda>existing. take 2 l = take 2 existing) locales") (auto simp: find_None_iff)
    then have "take 2 e = take 2 l" by (auto simp: find_Some_iff)
    moreover have "take 2 (fs ! 0) = take 2 l" if "List.find (\<lambda>(main, _). l = main) fallbackLng = Some (m, fs)" for m fs
      using that table(3) ne by (auto simp: find_Some_iff list_all_length)
    ultimately show ?thesis
      by (auto simp: findNearestMatchedLanguage_def Let_def e split: option.split)
  qed
  show ?thesis using nearest same
    by (auto simp: getLocaleWithFallback_def loadLocale_def isValidLocale_def getStoredLocale_def Let_def split: option.splits)
qed

end
