(* ===== verification/MusicPlayer.thy ===== *)
theory MusicPlayer
  imports Complex_Main JsBase
begin

text \<open>
  The music player of the sidebar (\<^verbatim>\<open>components/EmbeddedMusicPlayer/EmbeddedMusicPlayer.tsx\<close>): its state
  with the references of its effects, what it keeps in the local storage, its requests to the server,
  and the audio element. A step is one event: a handler changes the state as one batch, then the
  effects run whose dependencies changed, in the order of the file. Answers arrive in any order.
\<close>

section \<open>Data\<close>

record track =
  tr_id :: string
  tr_name :: string
  tr_artist :: string
  tr_coverUrl :: "string option"
  tr_url :: "string option"
  tr_isNetease :: bool

record netease_playlist =
  pl_id :: string
  pl_name :: string
  pl_trackCount :: int

record netease_artist =
  na_id :: int
  na_name :: string

record netease_album =
  nal_id :: int
  nal_name :: string
  nal_picUrl :: "string option"

record netease_track =
  nt_id :: int
  nt_name :: string
  nt_ar :: "netease_artist list option"
  nt_al :: "netease_album option"

datatype play_mode = Mode_List | Mode_Single | Mode_Shuffle

text \<open>\<open>neteaseCookie\<close>: a login answered without a cookie sets it to \<open>undefined\<close>.\<close>

datatype cookie = Null | Undefined | Cookie string

definition has_cookie :: "cookie \<Rightarrow> bool" where
  "has_cookie c = (case c of Cookie s \<Rightarrow> s \<noteq> [] | _ \<Rightarrow> False)"

text \<open>The text \<open>setItem\<close> stores for it.\<close>

definition cookie_text :: "string option \<Rightarrow> string" where
  "cookie_text c = (case c of None \<Rightarrow> ''undefined'' | Some s \<Rightarrow> s)"

definition to_cookie :: "string option \<Rightarrow> cookie" where
  "to_cookie c = (case c of None \<Rightarrow> Undefined | Some s \<Rightarrow> Cookie s)"

text \<open>\<open>stateToSave\<close>.\<close>

record saved_player =
  sp_playlist :: "track list"
  sp_index :: int
  sp_volume :: rat
  sp_isMuted :: bool
  sp_playMode :: play_mode

text \<open>The two entries of the local storage.\<close>

record music_store =
  ms_cookie :: "string option"
  ms_player :: "saved_player option"

text \<open>A request under way. One for the address of a song has a number, the song, and whether there was a
  cookie to send_request (without one nothing is sent and the address is empty).\<close>

datatype request =
    Cookie_Request | Playlists_Request | Tracks_Request | Key_Request | Check_Request string
  | Logout_Request | Url_Request nat string bool

text \<open>The fields of an answer that the player reads.\<close>

record body =
  b_error :: "string option"
  b_code :: "int option"
  b_cookie :: "string option"
  b_playlist :: "netease_playlist list option"
  b_tracks :: "netease_track list option"
  b_unikey :: "string option"
  b_url :: "string option"

datatype netease_answer = Network_Error | Http int "body option"

record player =
  mp_playlist :: "track list"
  mp_version :: nat
  mp_index :: int
  mp_isPlaying :: bool
  mp_volume :: rat
  mp_isMuted :: bool
  mp_playMode :: play_mode
  mp_customUrl :: string
  mp_showUrlInput :: bool
  mp_showQueue :: bool
  mp_cookie :: cookie
  mp_playlists :: "netease_playlist list"
  mp_selected :: string
  mp_qrKey :: "string option"
  mp_qrUrl :: "string option"
  mp_qrStatus :: int
  mp_showLogin :: bool
  mp_resolvedUrl :: string
  mp_resolving :: "nat option"
  mp_next :: nat
  mp_inflight :: "request list"
  mp_store :: music_store
  mp_lastAlert :: int
  mp_alerts :: nat
  mp_audioPaused :: bool
  mp_audioVolume :: rat

section \<open>Requests\<close>

text \<open>\<open>fetchNetease\<close>: whether it found the session expired, and the data unless it throws.\<close>

definition fetchNetease :: "netease_answer \<Rightarrow> bool \<times> body option" where
  "fetchNetease ans =
     (case ans of
        Network_Error \<Rightarrow> (False, None)
      | Http status data \<Rightarrow>
          if \<not> (200 \<le> status \<and> status \<le> 299) then
            (status = 401 \<and> (case data of None \<Rightarrow> False
               | Some err \<Rightarrow> (case b_error err of None \<Rightarrow> False | Some e \<Rightarrow> includes_str e ''cookie'')), None)
          else (case data of
              None \<Rightarrow> (False, None)
            | Some d \<Rightarrow> if b_code d = Some 301 \<or> b_code d = Some (-200) then (True, None) else (False, Some d)))"

definition send_request :: "request \<Rightarrow> player \<Rightarrow> player" where
  "send_request r s = s\<lparr>mp_inflight := mp_inflight s @ [r]\<rparr>"

text \<open>\<open>setPlaylist\<close>: an array is compared by identity, so each call counts as a change.\<close>

definition setPlaylist :: "track list \<Rightarrow> player \<Rightarrow> player" where
  "setPlaylist ts s = s\<lparr>mp_playlist := ts, mp_version := mp_version s + 1\<rparr>"

definition set_stored_cookie :: "string option \<Rightarrow> player \<Rightarrow> player" where
  "set_stored_cookie c s = s\<lparr>mp_store := (mp_store s)\<lparr>ms_cookie := c\<rparr>\<rparr>"

definition handleLogoutNetease :: "player \<Rightarrow> player" where
  "handleLogoutNetease s =
     send_request Logout_Request (set_stored_cookie None
       ((setPlaylist [] (s\<lparr>mp_cookie := Null, mp_playlists := []\<rparr>))\<lparr>mp_index := -1, mp_isPlaying := False, mp_resolvedUrl := []\<rparr>))"

definition handleSessionExpired :: "int \<Rightarrow> player \<Rightarrow> player" where
  "handleSessionExpired now s =
     handleLogoutNetease
       (if now - mp_lastAlert s > 5000 then s\<lparr>mp_lastAlert := now, mp_alerts := mp_alerts s + 1\<rparr> else s)"

section \<open>Answers\<close>

definition saved_of :: "player \<Rightarrow> saved_player" where
  "saved_of s = \<lparr>sp_playlist = mp_playlist s, sp_index = mp_index s, sp_volume = mp_volume s,
     sp_isMuted = mp_isMuted s, sp_playMode = mp_playMode s\<rparr>"

definition restore_player :: "player \<Rightarrow> player" where
  "restore_player s =
     (case ms_player (mp_store s) of
        None \<Rightarrow> s
      | Some p \<Rightarrow> (setPlaylist (sp_playlist p) s)\<lparr>mp_index := sp_index p, mp_volume := sp_volume p,
                    mp_isMuted := sp_isMuted p, mp_playMode := sp_playMode p\<rparr>)"

text \<open>\<open>initPlayer\<close> after its \<open>await\<close>; the argument is the data, unless the request failed.\<close>

definition init_answer :: "body option \<Rightarrow> player \<Rightarrow> player" where
  "init_answer data s =
     (let got = (case data of None \<Rightarrow> [] | Some d \<Rightarrow> (case b_cookie d of None \<Rightarrow> [] | Some c \<Rightarrow> c));
          s1 = (if got \<noteq> [] then set_stored_cookie (Some got) s else s);
          cookie = (if got \<noteq> [] then got else case ms_cookie (mp_store s1) of None \<Rightarrow> [] | Some c \<Rightarrow> c);
          s2 = (if cookie \<noteq> [] then send_request Playlists_Request (s1\<lparr>mp_cookie := Cookie cookie\<rparr>) else s1) in
      restore_player s2)"

definition startQrLogin :: "player \<Rightarrow> player" where
  "startQrLogin s = send_request Key_Request (s\<lparr>mp_qrStatus := 0, mp_qrKey := None, mp_qrUrl := None\<rparr>)"

definition key_answer :: "body \<Rightarrow> player \<Rightarrow> player" where
  "key_answer d s =
     (case b_unikey d of None \<Rightarrow> s
      | Some key \<Rightarrow>
          if b_code d = Some 200 \<and> key \<noteq> [] then
            s\<lparr>mp_qrKey := Some key, mp_qrUrl := Some (''https://music.163.com/login?codekey='' @ key), mp_qrStatus := 801\<rparr>
          else s)"

definition checkQrStatus :: "body \<Rightarrow> player \<Rightarrow> player" where
  "checkQrStatus d s =
     (if b_code d = Some 803 then
        (send_request Playlists_Request (set_stored_cookie (Some (cookie_text (b_cookie d)))
           (s\<lparr>mp_qrStatus := 803, mp_cookie := to_cookie (b_cookie d)\<rparr>)))\<lparr>mp_showLogin := False\<rparr>
      else if b_code d = Some 802 then s\<lparr>mp_qrStatus := 802\<rparr>
      else if b_code d = Some 801 then s\<lparr>mp_qrStatus := 801\<rparr>
      else if b_code d = Some 800 then s\<lparr>mp_qrStatus := 800\<rparr>
      else s)"

definition loadNeteasePlaylists :: "body \<Rightarrow> player \<Rightarrow> player" where
  "loadNeteasePlaylists d s = (case b_playlist d of None \<Rightarrow> s | Some ps \<Rightarrow> s\<lparr>mp_playlists := ps\<rparr>)"

definition to_track :: "netease_track \<Rightarrow> track" where
  "to_track t =
     (let artists = (case nt_ar t of None \<Rightarrow> [] | Some ar \<Rightarrow> join '', '' (map na_name ar)) in
      \<lparr>tr_id = show_int (nt_id t), tr_name = nt_name t, tr_artist = (if artists = [] then ''Unknown'' else artists),
       tr_coverUrl = Some (case nt_al t of None \<Rightarrow> [] | Some al \<Rightarrow> (case nal_picUrl al of None \<Rightarrow> [] | Some u \<Rightarrow> u)),
       tr_url = None, tr_isNetease = True\<rparr>)"

definition tracks_answer :: "body \<Rightarrow> player \<Rightarrow> player" where
  "tracks_answer d s =
     (case b_tracks d of None \<Rightarrow> s
      | Some ts \<Rightarrow>
          (let tracks = map to_track ts; s1 = setPlaylist tracks s in
           if length tracks > 0 then s1\<lparr>mp_index := 0, mp_isPlaying := True\<rparr> else s1))"

text \<open>The two callbacks of \<open>resolveNeteaseUrl\<close>; both look whether their effect is still the current one.\<close>

definition url_answer :: "nat \<Rightarrow> bool \<Rightarrow> body option \<Rightarrow> player \<Rightarrow> player" where
  "url_answer n sent data s =
     (if mp_resolving s \<noteq> Some n then s
      else
        (let url = (if \<not> sent then Some []
                    else case data of None \<Rightarrow> None | Some d \<Rightarrow> (case b_url d of None \<Rightarrow> Some [] | Some u \<Rightarrow> Some u)) in
         case url of
           None \<Rightarrow> s\<lparr>mp_resolving := None, mp_resolvedUrl := [], mp_isPlaying := False\<rparr>
         | Some u \<Rightarrow>
             if u \<noteq> [] then s\<lparr>mp_resolving := None, mp_resolvedUrl := u\<rparr>
             else s\<lparr>mp_resolving := None, mp_resolvedUrl := [], mp_isPlaying := False\<rparr>))"

definition sends_nothing :: "request \<Rightarrow> bool" where
  "sends_nothing r = (case r of Url_Request _ _ sent \<Rightarrow> \<not> sent | _ \<Rightarrow> False)"

text \<open>An answer to a request under way.\<close>

definition answered :: "request \<Rightarrow> netease_answer \<Rightarrow> int \<Rightarrow> player \<Rightarrow> player" where
  "answered r ans now s0 =
     (if r \<notin> set (mp_inflight s0) then s0
      else
        (let s1 = s0\<lparr>mp_inflight := remove1 r (mp_inflight s0)\<rparr>;
             (expired, data) = (if sends_nothing r then (False, None) else fetchNetease ans);
             s = (if expired then handleSessionExpired now s1 else s1) in
         case r of
           Cookie_Request \<Rightarrow> init_answer data s
         | Url_Request n _ sent \<Rightarrow> url_answer n sent data s
         | Playlists_Request \<Rightarrow> (case data of None \<Rightarrow> s | Some d \<Rightarrow> loadNeteasePlaylists d s)
         | Tracks_Request \<Rightarrow> (case data of None \<Rightarrow> s | Some d \<Rightarrow> tracks_answer d s)
         | Key_Request \<Rightarrow> (case data of None \<Rightarrow> s | Some d \<Rightarrow> key_answer d s)
         | Check_Request _ \<Rightarrow> (case data of None \<Rightarrow> s | Some d \<Rightarrow> checkQrStatus d s)
         | Logout_Request \<Rightarrow> s))"

section \<open>Effects\<close>

text \<open>The effect that resolves the address of the current song; what a former run asked for no longer counts.\<close>

definition resolve_effect :: "player \<Rightarrow> player" where
  "resolve_effect s =
     (if mp_index s < 0 \<or> mp_index s \<ge> int (length (mp_playlist s)) then
        s\<lparr>mp_resolving := None, mp_resolvedUrl := [], mp_isPlaying := False\<rparr>
      else
        (let track = mp_playlist s ! nat (mp_index s) in
         if tr_isNetease track then
           send_request (Url_Request (mp_next s) (tr_id track) (has_cookie (mp_cookie s)))
             (s\<lparr>mp_resolving := Some (mp_next s), mp_next := mp_next s + 1\<rparr>)
         else s\<lparr>mp_resolving := None, mp_resolvedUrl := (case tr_url track of None \<Rightarrow> [] | Some u \<Rightarrow> u)\<rparr>))"

definition resolve_changed :: "player \<Rightarrow> player \<Rightarrow> bool" where
  "resolve_changed old s \<longleftrightarrow>
     mp_index s \<noteq> mp_index old \<or> mp_version s \<noteq> mp_version old \<or> mp_cookie s \<noteq> mp_cookie old"

definition save_effect :: "player \<Rightarrow> player \<Rightarrow> player" where
  "save_effect old s =
     (if mp_version s \<noteq> mp_version old \<or> mp_index s \<noteq> mp_index old \<or> mp_volume s \<noteq> mp_volume old
         \<or> mp_isMuted s \<noteq> mp_isMuted old \<or> mp_playMode s \<noteq> mp_playMode old then
        s\<lparr>mp_store := (mp_store s)\<lparr>ms_player := Some (saved_of s)\<rparr>\<rparr>
      else s)"

definition volume_effect :: "player \<Rightarrow> player \<Rightarrow> player" where
  "volume_effect old s =
     (if mp_volume s \<noteq> mp_volume old \<or> mp_isMuted s \<noteq> mp_isMuted old then
        s\<lparr>mp_audioVolume := (if mp_isMuted s then 0 else mp_volume s)\<rparr>
      else s)"

text \<open>The audio element is told to play or pause.\<close>

definition play_effect :: "player \<Rightarrow> player \<Rightarrow> player" where
  "play_effect old s =
     (if mp_isPlaying s \<noteq> mp_isPlaying old \<or> mp_resolvedUrl s \<noteq> mp_resolvedUrl old then
        s\<lparr>mp_audioPaused := \<not> (mp_isPlaying s \<and> mp_resolvedUrl s \<noteq> [])\<rparr>
      else s)"

text \<open>
  After a batch of changes: the effects run on the state it left, each with the state it saw when it
  last ran; what the effect on the address sets is a second batch, of which only the last effect takes note.
\<close>

definition commit :: "player \<Rightarrow> player \<Rightarrow> player" where
  "commit old s =
     (let s1 = play_effect old (volume_effect old (save_effect old s)) in
      if resolve_changed old s then play_effect s1 (resolve_effect s1) else s1)"

text \<open>The first rendering and its effects: the state is saved before the answer for the cookie is there.\<close>

definition player_init :: "music_store \<Rightarrow> player" where
  "player_init store = \<lparr>mp_playlist = [], mp_version = 0, mp_index = -1, mp_isPlaying = False, mp_volume = 1 / 2,
     mp_isMuted = False, mp_playMode = Mode_List, mp_customUrl = [], mp_showUrlInput = False, mp_showQueue = False,
     mp_cookie = Null, mp_playlists = [], mp_selected = [], mp_qrKey = None, mp_qrUrl = None, mp_qrStatus = 0,
     mp_showLogin = False, mp_resolvedUrl = [], mp_resolving = None, mp_next = 0, mp_inflight = [], mp_store = store,
     mp_lastAlert = 0, mp_alerts = 0, mp_audioPaused = True, mp_audioVolume = 1\<rparr>"

definition mount_player :: "music_store \<Rightarrow> player" where
  "mount_player store =
     (let s = send_request Cookie_Request (player_init store);
          s1 = s\<lparr>mp_store := (mp_store s)\<lparr>ms_player := Some (saved_of s)\<rparr>\<rparr> in
      (resolve_effect s1)\<lparr>mp_audioVolume := mp_volume s, mp_audioPaused := True\<rparr>)"

section \<open>Controls\<close>

text \<open>\<open>Math.random\<close> gives a number from 0 up to but not including 1.\<close>

definition random_index :: "rat \<Rightarrow> player \<Rightarrow> int" where
  "random_index r s = \<lfloor>r * of_nat (length (mp_playlist s))\<rfloor>"

definition handlePlayPause :: "player \<Rightarrow> player" where
  "handlePlayPause s = (if length (mp_playlist s) = 0 then s else s\<lparr>mp_isPlaying := \<not> mp_isPlaying s\<rparr>)"

definition handleNext :: "rat \<Rightarrow> player \<Rightarrow> player" where
  "handleNext r s =
     (if length (mp_playlist s) = 0 then s
      else if mp_playMode s = Mode_Shuffle then s\<lparr>mp_index := random_index r s, mp_isPlaying := True\<rparr>
      else s\<lparr>mp_index := (mp_index s + 1) mod int (length (mp_playlist s)), mp_isPlaying := True\<rparr>)"

text \<open>The remainder of JavaScript has the sign of the dividend.\<close>

definition js_rem :: "int \<Rightarrow> int \<Rightarrow> int" where
  "js_rem a b = (if a < 0 then - (\<bar>a\<bar> mod \<bar>b\<bar>) else \<bar>a\<bar> mod \<bar>b\<bar>)"

definition handlePrev :: "rat \<Rightarrow> player \<Rightarrow> player" where
  "handlePrev r s =
     (if length (mp_playlist s) = 0 then s
      else if mp_playMode s = Mode_Shuffle then s\<lparr>mp_index := random_index r s, mp_isPlaying := True\<rparr>
      else s\<lparr>mp_index := js_rem (mp_index s - 1 + int (length (mp_playlist s))) (int (length (mp_playlist s))), mp_isPlaying := True\<rparr>)"

text \<open>The element has stopped at the end; in the mode for one song it is started again.\<close>

definition handleEnded :: "rat \<Rightarrow> player \<Rightarrow> player" where
  "handleEnded r s =
     (if mp_playMode s = Mode_Single then s\<lparr>mp_audioPaused := False\<rparr> else handleNext r (s\<lparr>mp_audioPaused := True\<rparr>))"

definition handlePlayCustomUrl :: "player \<Rightarrow> player" where
  "handlePlayCustomUrl s =
     (if mp_customUrl s = [] then s
      else
        (let filename = last (split_char CHR ''/'' (mp_customUrl s));
             newTrack = \<lparr>tr_id = mp_customUrl s, tr_name = (if filename = [] then ''Custom Stream'' else filename),
               tr_artist = ''Direct Link'', tr_coverUrl = None, tr_url = Some (mp_customUrl s), tr_isNetease = False\<rparr> in
         (setPlaylist [newTrack] s)\<lparr>mp_index := 0, mp_isPlaying := True, mp_customUrl := [], mp_showUrlInput := False\<rparr>))"

definition clear_all :: "player \<Rightarrow> player" where
  "clear_all s = (setPlaylist [] s)\<lparr>mp_index := -1, mp_isPlaying := False\<rparr>"

definition cycle_mode :: "player \<Rightarrow> player" where
  "cycle_mode s =
     s\<lparr>mp_playMode := (if mp_playMode s = Mode_List then Mode_Single
       else if mp_playMode s = Mode_Single then Mode_Shuffle else Mode_List)\<rparr>"

definition choose_playlist :: "string \<Rightarrow> player \<Rightarrow> player" where
  "choose_playlist i s =
     (let s1 = s\<lparr>mp_selected := i\<rparr> in
      if i \<noteq> [] then (if \<not> has_cookie (mp_cookie s) then s1 else send_request Tracks_Request s1) else s1)"

definition polling :: "player \<Rightarrow> bool" where
  "polling s \<longleftrightarrow> mp_showLogin s \<and> (case mp_qrKey s of None \<Rightarrow> False | Some k \<Rightarrow> k \<noteq> [])
     \<and> mp_qrStatus s \<noteq> 803 \<and> mp_qrStatus s \<noteq> 800"

text \<open>What the user, the audio element, the timer and the server do. A control that is not shown does nothing.\<close>

datatype player_event =
    Play_Pause | Next rat | Prev rat | Ended rat | Pick_Track nat | Clear_All | Cycle_Mode
  | Set_Volume rat | Toggle_Mute | Toggle_Queue | Toggle_Url_Input | Type_Url string | Play_Custom_Url
  | Login_Click | Login_Cancel | Login_Refresh | Logout_Click | Choose_Playlist string | Poll_Tick
  | Play_Rejected bool | Answered request netease_answer int

definition handle_event :: "player_event \<Rightarrow> player \<Rightarrow> player" where
  "handle_event e s =
     (case e of
        Play_Pause \<Rightarrow> handlePlayPause s
      | Next r \<Rightarrow> if 0 \<le> r \<and> r < 1 then handleNext r s else s
      | Prev r \<Rightarrow> if 0 \<le> r \<and> r < 1 then handlePrev r s else s
      | Ended r \<Rightarrow> if 0 \<le> r \<and> r < 1 \<and> \<not> mp_audioPaused s then handleEnded r s else s
      | Pick_Track i \<Rightarrow> if mp_showQueue s \<and> i < length (mp_playlist s) then s\<lparr>mp_index := int i, mp_isPlaying := True\<rparr> else s
      | Clear_All \<Rightarrow> if mp_showQueue s \<and> length (mp_playlist s) > 0 then clear_all s else s
      | Cycle_Mode \<Rightarrow> cycle_mode s
      | Set_Volume v \<Rightarrow> s\<lparr>mp_volume := v, mp_isMuted := False\<rparr>
      | Toggle_Mute \<Rightarrow> s\<lparr>mp_isMuted := \<not> mp_isMuted s\<rparr>
      | Toggle_Queue \<Rightarrow> s\<lparr>mp_showQueue := \<not> mp_showQueue s\<rparr>
      | Toggle_Url_Input \<Rightarrow> s\<lparr>mp_showUrlInput := \<not> mp_showUrlInput s\<rparr>
      | Type_Url u \<Rightarrow> if mp_showUrlInput s then s\<lparr>mp_customUrl := u\<rparr> else s
      | Play_Custom_Url \<Rightarrow> if mp_showUrlInput s then handlePlayCustomUrl s else s
      | Login_Click \<Rightarrow> if has_cookie (mp_cookie s) then s else startQrLogin (s\<lparr>mp_showLogin := True\<rparr>)
      | Login_Cancel \<Rightarrow> if mp_showLogin s then s\<lparr>mp_showLogin := False\<rparr> else s
      | Login_Refresh \<Rightarrow> if mp_showLogin s then startQrLogin s else s
      | Logout_Click \<Rightarrow> if has_cookie (mp_cookie s) then handleLogoutNetease s else s
      | Choose_Playlist i \<Rightarrow> if has_cookie (mp_cookie s) \<and> mp_playlists s \<noteq> [] then choose_playlist i s else s
      | Poll_Tick \<Rightarrow> if polling s then send_request (Check_Request (the (mp_qrKey s))) s else s
      | Play_Rejected notAllowed \<Rightarrow> if notAllowed then s\<lparr>mp_isPlaying := False\<rparr> else s
      | Answered r ans now \<Rightarrow> answered r ans now s)"

definition player_step :: "player \<Rightarrow> player_event \<Rightarrow> player" where
  "player_step s e = commit s (handle_event e s)"

definition run_player :: "music_store \<Rightarrow> player_event list \<Rightarrow> player" where
  "run_player store es = foldl player_step (mount_player store) es"

end
