(* ===== verification/PlayerSafety.thy ===== *)
theory PlayerSafety
  imports MusicPlayer
begin

text \<open>
  What holds after every run of the music player: the handlers leave a state from which the effects
  restore the invariant (\<open>handled\<close>, \<open>commit_ok\<close>), so every step keeps it. Then what the player does
  not do: restore what it saved, and repeat a queue of one song.
\<close>

section \<open>The invariant\<close>

definition current_track :: "player \<Rightarrow> track" where
  "current_track s = mp_playlist s ! nat (mp_index s)"

text \<open>The addresses that the answers among some events gave for a song.\<close>

definition given_url :: "string \<Rightarrow> player_event \<Rightarrow> string option" where
  "given_url i e =
     (case e of
        Answered r ans now \<Rightarrow>
          (case r of
             Url_Request n j sent \<Rightarrow>
               if j = i then (case snd (fetchNetease ans) of None \<Rightarrow> None | Some d \<Rightarrow> b_url d) else None
           | _ \<Rightarrow> None)
      | _ \<Rightarrow> None)"

definition given_urls :: "player_event list \<Rightarrow> string \<Rightarrow> string list" where
  "given_urls es i = List.map_filter (given_url i) es"

definition in_range :: "player \<Rightarrow> bool" where
  "in_range s \<longleftrightarrow> mp_playlist s = [] \<or> (0 \<le> mp_index s \<and> mp_index s < int (length (mp_playlist s)))"

definition quiet :: "player \<Rightarrow> bool" where
  "quiet s \<longleftrightarrow> mp_playlist s \<noteq> [] \<or> (mp_resolvedUrl s = [] \<and> \<not> mp_isPlaying s \<and> mp_resolving s = None)"

definition audible :: "player \<Rightarrow> bool" where
  "audible s \<longleftrightarrow> mp_audioPaused s \<or> (mp_isPlaying s \<and> mp_resolvedUrl s \<noteq> [])"

definition plays_current :: "player_event list \<Rightarrow> player \<Rightarrow> bool" where
  "plays_current es s \<longleftrightarrow> mp_resolving s \<noteq> None \<or> mp_playlist s = [] \<or> mp_resolvedUrl s = []
     \<or> (if tr_isNetease (current_track s) then mp_resolvedUrl s \<in> set (given_urls es (tr_id (current_track s)))
        else tr_url (current_track s) = Some (mp_resolvedUrl s))"

text \<open>A condition on all requests for an address.\<close>

definition url_requests :: "(nat \<Rightarrow> string \<Rightarrow> bool) \<Rightarrow> request list \<Rightarrow> bool" where
  "url_requests P rs = list_all (\<lambda>r. case r of Url_Request n i c \<Rightarrow> P n i | _ \<Rightarrow> True) rs"

text \<open>A request under the given number for another song.\<close>

definition asks_other :: "nat \<Rightarrow> string \<Rightarrow> request \<Rightarrow> bool" where
  "asks_other n i r = (case r of Url_Request m j _ \<Rightarrow> m = n \<and> j \<noteq> i | _ \<Rightarrow> False)"

lemma url_requests_iff: "url_requests P rs \<longleftrightarrow> (\<forall>n i c. Url_Request n i c \<in> set rs \<longrightarrow> P n i)"
  by (force simp: url_requests_def list_all_iff split: request.split)

lemma url_requests_mono:
  "url_requests P rs \<Longrightarrow> (\<And>n i c. Url_Request n i c \<in> set rs' \<Longrightarrow> Url_Request n i c \<in> set rs) \<Longrightarrow> url_requests P rs'"
  unfolding url_requests_iff by blast

definition numbered :: "player \<Rightarrow> bool" where
  "numbered s \<longleftrightarrow> url_requests (\<lambda>n i. n < mp_next s) (mp_inflight s)
     \<and> (case mp_resolving s of None \<Rightarrow> True | Some n \<Rightarrow> n < mp_next s)"

definition asks_current :: "player \<Rightarrow> bool" where
  "asks_current s \<longleftrightarrow>
     (case mp_resolving s of None \<Rightarrow> True
      | Some n \<Rightarrow> tr_isNetease (current_track s) \<and> url_requests (\<lambda>m i. m = n \<longrightarrow> i = tr_id (current_track s)) (mp_inflight s))"

definition remembered :: "player \<Rightarrow> bool" where
  "remembered s \<longleftrightarrow> ms_player (mp_store s) = Some (saved_of s)"

definition session_stored :: "player \<Rightarrow> bool" where
  "session_stored s \<longleftrightarrow>
     (case mp_cookie s of
        Null \<Rightarrow> Cookie_Request \<in> set (mp_inflight s) \<or> ms_cookie (mp_store s) = None \<or> ms_cookie (mp_store s) = Some []
      | Undefined \<Rightarrow> ms_cookie (mp_store s) = Some ''undefined''
      | Cookie c \<Rightarrow> ms_cookie (mp_store s) = Some c)"

text \<open>What a handler must leave for the effects: everything that no effect will restore.\<close>

definition handled :: "player_event list \<Rightarrow> player \<Rightarrow> player \<Rightarrow> bool" where
  "handled es old s \<longleftrightarrow> in_range s \<and> numbered s \<and> session_stored s
     \<and> (resolve_changed old s \<or> quiet s \<and> plays_current es s \<and> asks_current s)
     \<and> (mp_version s = mp_version old \<longrightarrow> mp_playlist s = mp_playlist old)
     \<and> ms_player (mp_store s) = ms_player (mp_store old)
     \<and> (mp_audioPaused s \<or> \<not> mp_audioPaused old \<or> mp_isPlaying s \<and> mp_resolvedUrl s \<noteq> [])"

definition player_inv :: "player_event list \<Rightarrow> player \<Rightarrow> bool" where
  "player_inv es s \<longleftrightarrow> in_range s \<and> quiet s \<and> audible s \<and> plays_current es s \<and> numbered s \<and> asks_current s
     \<and> remembered s \<and> session_stored s"

lemmas player_parts = in_range_def quiet_def audible_def plays_current_def numbered_def asks_current_def
  remembered_def session_stored_def current_track_def

lemma given_urls_append: "set (given_urls es i) \<subseteq> set (given_urls (es @ [e]) i)"
  by (auto simp: given_urls_def set_map_filter)

lemma plays_current_more: "plays_current es s \<Longrightarrow> plays_current (es @ [e]) s"
  using subsetD [OF given_urls_append [of es _ e]] by (auto simp: plays_current_def)

text \<open>The effects restore the invariant.\<close>

lemma save_effect_simps [simp]:
  "mp_playlist (save_effect old s) = mp_playlist s" "mp_version (save_effect old s) = mp_version s"
  "mp_index (save_effect old s) = mp_index s" "mp_isPlaying (save_effect old s) = mp_isPlaying s"
  "mp_cookie (save_effect old s) = mp_cookie s" "mp_resolvedUrl (save_effect old s) = mp_resolvedUrl s"
  "mp_resolving (save_effect old s) = mp_resolving s" "mp_next (save_effect old s) = mp_next s"
  "mp_inflight (save_effect old s) = mp_inflight s" "ms_cookie (mp_store (save_effect old s)) = ms_cookie (mp_store s)"
  "mp_audioPaused (save_effect old s) = mp_audioPaused s" "mp_volume (save_effect old s) = mp_volume s"
  "mp_isMuted (save_effect old s) = mp_isMuted s" "mp_playMode (save_effect old s) = mp_playMode s"
  by (simp_all add: save_effect_def)

lemma volume_effect_simps [simp]:
  "mp_playlist (volume_effect old s) = mp_playlist s" "mp_version (volume_effect old s) = mp_version s"
  "mp_index (volume_effect old s) = mp_index s" "mp_isPlaying (volume_effect old s) = mp_isPlaying s"
  "mp_cookie (volume_effect old s) = mp_cookie s" "mp_resolvedUrl (volume_effect old s) = mp_resolvedUrl s"
  "mp_resolving (volume_effect old s) = mp_resolving s" "mp_next (volume_effect old s) = mp_next s"
  "mp_inflight (volume_effect old s) = mp_inflight s" "mp_store (volume_effect old s) = mp_store s"
  "mp_audioPaused (volume_effect old s) = mp_audioPaused s" "mp_volume (volume_effect old s) = mp_volume s"
  "mp_isMuted (volume_effect old s) = mp_isMuted s" "mp_playMode (volume_effect old s) = mp_playMode s"
  by (simp_all add: volume_effect_def)

lemma play_effect_simps [simp]:
  "mp_playlist (play_effect old s) = mp_playlist s" "mp_version (play_effect old s) = mp_version s"
  "mp_index (play_effect old s) = mp_index s" "mp_isPlaying (play_effect old s) = mp_isPlaying s"
  "mp_cookie (play_effect old s) = mp_cookie s" "mp_resolvedUrl (play_effect old s) = mp_resolvedUrl s"
  "mp_resolving (play_effect old s) = mp_resolving s" "mp_next (play_effect old s) = mp_next s"
  "mp_inflight (play_effect old s) = mp_inflight s" "mp_store (play_effect old s) = mp_store s"
  "mp_volume (play_effect old s) = mp_volume s"
  "mp_isMuted (play_effect old s) = mp_isMuted s" "mp_playMode (play_effect old s) = mp_playMode s"
  by (simp_all add: play_effect_def)

lemma resolve_effect_simps [simp]:
  "mp_playlist (resolve_effect s) = mp_playlist s" "mp_version (resolve_effect s) = mp_version s"
  "mp_index (resolve_effect s) = mp_index s" "mp_cookie (resolve_effect s) = mp_cookie s"
  "mp_store (resolve_effect s) = mp_store s" "mp_volume (resolve_effect s) = mp_volume s"
  "mp_isMuted (resolve_effect s) = mp_isMuted s" "mp_playMode (resolve_effect s) = mp_playMode s"
  "mp_audioPaused (resolve_effect s) = mp_audioPaused s"
  "Cookie_Request \<in> set (mp_inflight (resolve_effect s)) \<longleftrightarrow> Cookie_Request \<in> set (mp_inflight s)"
  by (auto simp: resolve_effect_def send_request_def Let_def)

lemma save_effect_parts [simp]:
  "in_range (save_effect old s) = in_range s" "numbered (save_effect old s) = numbered s" "session_stored (save_effect old s) = session_stored s"
  "quiet (save_effect old s) = quiet s" "plays_current es (save_effect old s) = plays_current es s" "asks_current (save_effect old s) = asks_current s"
  by (simp_all add: player_parts cong: option.case_cong request.case_cong cookie.case_cong)

lemma volume_effect_parts [simp]:
  "in_range (volume_effect old s) = in_range s" "numbered (volume_effect old s) = numbered s" "session_stored (volume_effect old s) = session_stored s"
  "quiet (volume_effect old s) = quiet s" "plays_current es (volume_effect old s) = plays_current es s" "asks_current (volume_effect old s) = asks_current s"
  by (simp_all add: player_parts cong: option.case_cong request.case_cong cookie.case_cong)

lemma play_effect_parts [simp]:
  "in_range (play_effect old s) = in_range s" "numbered (play_effect old s) = numbered s" "session_stored (play_effect old s) = session_stored s"
  "quiet (play_effect old s) = quiet s" "plays_current es (play_effect old s) = plays_current es s" "asks_current (play_effect old s) = asks_current s"
  by (simp_all add: player_parts cong: option.case_cong request.case_cong cookie.case_cong)

lemma resolve_effect_parts [simp]:
  "in_range (resolve_effect s) = in_range s" "session_stored (resolve_effect s) = session_stored s"
  "saved_of (resolve_effect s) = saved_of s" "saved_of (play_effect old s) = saved_of s"
  by (simp_all add: in_range_def session_stored_def saved_of_def cong: cookie.case_cong)

lemma resolve_effect_ok:
  assumes "in_range s" "numbered s"
  shows "quiet (resolve_effect s)" "numbered (resolve_effect s)" "plays_current es (resolve_effect s)" "asks_current (resolve_effect s)"
proof -
  have out: "(mp_index s < 0 \<or> mp_index s \<ge> int (length (mp_playlist s))) \<Longrightarrow> mp_playlist s = []"
    using assms(1) by (auto simp: in_range_def)
  show "quiet (resolve_effect s)" using out by (auto simp: resolve_effect_def quiet_def send_request_def Let_def)
  show "numbered (resolve_effect s)" using assms(2)
    by (auto simp: resolve_effect_def numbered_def send_request_def Let_def url_requests_iff less_Suc_eq)
  show "plays_current es (resolve_effect s)" using out
    by (auto simp: resolve_effect_def plays_current_def current_track_def send_request_def Let_def split: option.splits)
  show "asks_current (resolve_effect s)" using assms(2)
    by (auto simp: resolve_effect_def asks_current_def current_track_def send_request_def Let_def numbered_def url_requests_iff)
qed

lemma commit_ok:
  assumes old: "player_inv es0 old" and "handled es old s"
  shows "player_inv es (commit old s)"
proof -
  let ?s1 = "play_effect old (volume_effect old (save_effect old s))"
  have h: "in_range s" "numbered s" "session_stored s" "resolve_changed old s \<or> quiet s \<and> plays_current es s \<and> asks_current s"
    using assms(2) by (simp_all add: handled_def)
  have saved: "remembered ?s1"
    using old assms(2) by (auto simp: player_inv_def handled_def remembered_def save_effect_def volume_effect_def saved_of_def)
  have paused: "audible ?s1"
    using old assms(2) by (auto simp: player_inv_def handled_def audible_def play_effect_def)
  show ?thesis
  proof (cases "resolve_changed old s")
    case True
    have "audible (play_effect ?s1 (resolve_effect ?s1))" using paused by (auto simp: audible_def play_effect_def)
    moreover have "remembered (play_effect ?s1 (resolve_effect ?s1))" using saved by (simp add: remembered_def)
    ultimately show ?thesis using True h resolve_effect_ok [of ?s1] by (simp add: commit_def Let_def player_inv_def)
  next
    case False
    then show ?thesis using h paused saved by (simp add: commit_def Let_def player_inv_def)
  qed
qed


lemma plays_current_same:
  assumes "mp_resolving s = mp_resolving t" "mp_playlist s = mp_playlist t" "mp_index s = mp_index t" "mp_resolvedUrl s = mp_resolvedUrl t"
  shows "plays_current es s = plays_current es t"
  using assms by (simp add: plays_current_def current_track_def)

lemma asks_current_same:
  assumes "mp_resolving s = mp_resolving t" "mp_playlist s = mp_playlist t" "mp_index s = mp_index t" "mp_inflight s = mp_inflight t"
  shows "asks_current s = asks_current t"
proof -
  have "current_track s = current_track t" using assms by (simp add: current_track_def)
  then show ?thesis unfolding asks_current_def assms by (simp cong: option.case_cong)
qed

text \<open>Handlers that touch none of the fields the effects look at.\<close>

lemma handled_frame:
  assumes inv: "player_inv es old"
    and same: "mp_playlist s = mp_playlist old" "mp_version s = mp_version old" "mp_index s = mp_index old"
      "mp_isPlaying s = mp_isPlaying old" "mp_resolvedUrl s = mp_resolvedUrl old"
      "mp_resolving s = mp_resolving old" "mp_next s = mp_next old" "ms_player (mp_store s) = ms_player (mp_store old)"
      "mp_audioPaused s = mp_audioPaused old"
    and "session_stored s" "\<And>n i c. Url_Request n i c \<in> set (mp_inflight s) \<Longrightarrow> Url_Request n i c \<in> set (mp_inflight old)"
  shows "handled (es @ [e]) old s"
proof -
  have track: "current_track s = current_track old" using same by (simp add: current_track_def)
  have "plays_current (es @ [e]) old" using inv by (simp add: player_inv_def plays_current_more)
  moreover have "plays_current (es @ [e]) s = plays_current (es @ [e]) old" by (rule plays_current_same) (simp_all add: same)
  ultimately have "plays_current (es @ [e]) s" by simp
  moreover have "url_requests P (mp_inflight old) \<Longrightarrow> url_requests P (mp_inflight s)" for P
    using assms(12) by - (rule url_requests_mono)
  then have "asks_current s" "numbered s" using inv same track
    by (auto simp: player_inv_def asks_current_def numbered_def split: option.splits)
  moreover have "quiet s" "in_range s" using inv same by (auto simp: player_inv_def quiet_def in_range_def)
  ultimately show ?thesis using same assms(11) by (simp add: handled_def)
qed

text \<open>Handlers that change the song or start and stop it.\<close>

lemma handled_track:
  assumes inv: "player_inv es old"
    and "mp_playlist s = mp_playlist old" "mp_version s = mp_version old" "mp_cookie s = mp_cookie old"
      "mp_resolvedUrl s = mp_resolvedUrl old" "mp_resolving s = mp_resolving old" "mp_next s = mp_next old"
      "mp_store s = mp_store old" "mp_audioPaused s \<or> \<not> mp_audioPaused old" "mp_inflight s = mp_inflight old"
    and "mp_playlist s \<noteq> [] \<or> \<not> mp_isPlaying s" "in_range s"
  shows "handled (es @ [e]) old s"
proof -
  have "quiet s" using inv assms(2,5,6,11) by (auto simp: player_inv_def quiet_def)
  moreover have "numbered s" "session_stored s" using inv assms
    by (simp_all add: player_inv_def numbered_def session_stored_def cong: option.case_cong cookie.case_cong)
  moreover have "plays_current (es @ [e]) s \<and> asks_current s" if "mp_index s = mp_index old"
  proof -
    have "plays_current (es @ [e]) old" "asks_current old" using inv by (simp_all add: player_inv_def plays_current_more)
    moreover have "plays_current (es @ [e]) s = plays_current (es @ [e]) old" "asks_current s = asks_current old"
      by (rule plays_current_same asks_current_same; simp add: that assms(2-10))+
    ultimately show ?thesis by simp
  qed
  ultimately show ?thesis using assms by (auto simp: handled_def resolve_changed_def)
qed

text \<open>Handlers that put another list in place.\<close>

lemma handled_list:
  assumes inv: "player_inv es old"
    and "mp_version s \<noteq> mp_version old" "in_range s" "session_stored s" "mp_next s = mp_next old"
      "mp_resolving s = mp_resolving old \<or> mp_resolving s = None" "ms_player (mp_store s) = ms_player (mp_store old)"
      "mp_audioPaused s = mp_audioPaused old"
      "\<And>n i c. Url_Request n i c \<in> set (mp_inflight s) \<Longrightarrow> Url_Request n i c \<in> set (mp_inflight old)"
  shows "handled es' old s"
proof -
  have "url_requests (\<lambda>n i. n < mp_next old) (mp_inflight old)" using inv by (simp add: player_inv_def numbered_def)
  then have "url_requests (\<lambda>n i. n < mp_next old) (mp_inflight s)" using assms(9) by (rule url_requests_mono)
  then have "numbered s" using inv assms(5,6) by (auto simp: player_inv_def numbered_def split: option.splits)
  then show ?thesis using assms by (auto simp: handled_def resolve_changed_def)
qed


lemma random_index_range:
  assumes "0 \<le> r" "r < 1" "mp_playlist s \<noteq> []"
  shows "0 \<le> random_index r s" "random_index r s < int (length (mp_playlist s))"
proof -
  have "r * of_nat (length (mp_playlist s)) < of_nat (length (mp_playlist s))"
    using assms by (simp add: mult_less_cancel_right1)
  then show "random_index r s < int (length (mp_playlist s))" by (simp add: random_index_def floor_less_iff)
  show "0 \<le> random_index r s" using assms by (simp add: random_index_def)
qed

lemma prev_range: "0 \<le> i \<Longrightarrow> i < n \<Longrightarrow> 0 \<le> js_rem (i - 1 + n) n \<and> js_rem (i - 1 + n) n < n"
  by (simp add: js_rem_def)

lemma next_ok:
  assumes inv: "player_inv es old" and r: "0 \<le> r" "r < 1" and p: "p \<or> \<not> mp_audioPaused old"
  shows "handled (es @ [e]) old (handleNext r (old\<lparr>mp_audioPaused := p\<rparr>))"
proof (rule handled_track [OF inv])
  let ?s = "handleNext r (old\<lparr>mp_audioPaused := p\<rparr>)"
  show "in_range ?s"
    using random_index_range [OF r, of "old\<lparr>mp_audioPaused := p\<rparr>"] by (auto simp: handleNext_def in_range_def)
  show "mp_playlist ?s \<noteq> [] \<or> \<not> mp_isPlaying ?s"
    using inv by (auto simp: handleNext_def player_inv_def quiet_def)
qed (use p in \<open>simp_all add: handleNext_def\<close>)

lemma prev_ok:
  assumes inv: "player_inv es old" and r: "0 \<le> r" "r < 1"
  shows "handled (es @ [e]) old (handlePrev r old)"
proof (rule handled_track [OF inv])
  show "in_range (handlePrev r old)"
    using random_index_range [OF r, of old] inv prev_range [of "mp_index old" "int (length (mp_playlist old))"]
    by (auto simp: handlePrev_def in_range_def player_inv_def)
  show "mp_playlist (handlePrev r old) \<noteq> [] \<or> \<not> mp_isPlaying (handlePrev r old)"
    using inv by (auto simp: handlePrev_def player_inv_def quiet_def)
qed (simp_all add: handlePrev_def)

lemma logout_ok:
  assumes "player_inv es old" and "s = old\<lparr>mp_inflight := rs, mp_lastAlert := l, mp_alerts := a\<rparr>" "set rs \<subseteq> set (mp_inflight old)"
  shows "handled es' old (handleLogoutNetease s)"
  using assms(2,3)
  by (intro handled_list [OF assms(1)])
    (auto simp: handleLogoutNetease_def send_request_def set_stored_cookie_def setPlaylist_def in_range_def session_stored_def)


text \<open>The answers.\<close>

lemma url_answer_ok:
  assumes inv: "player_inv es old" and r: "Url_Request n i sent \<in> set (mp_inflight old)"
    and data: "sent \<Longrightarrow> data = snd (fetchNetease ans)"
  shows "handled (es @ [Answered (Url_Request n i sent) ans now]) old
    (url_answer n sent data (old\<lparr>mp_inflight := remove1 (Url_Request n i sent) (mp_inflight old)\<rparr>))"
    (is "handled (es @ [?e]) old (url_answer n sent data ?s1)")
proof (cases "mp_resolving old = Some n")
  case False
  have "session_stored ?s1" using inv by (auto simp: player_inv_def session_stored_def in_set_remove1 split: cookie.splits)
  then show ?thesis using False
    by (intro handled_frame [OF inv]) (auto simp: url_answer_def dest: set_remove1_subset [THEN subsetD])
next
  case True
  let ?s = "url_answer n sent data ?s1"
  have eq: "mp_playlist ?s = mp_playlist old" "mp_index ?s = mp_index old" "mp_version ?s = mp_version old" "mp_cookie ?s = mp_cookie old"
    "mp_resolving ?s = None" "mp_next ?s = mp_next old" "mp_store ?s = mp_store old" "mp_audioPaused ?s = mp_audioPaused old"
    "mp_inflight ?s = remove1 (Url_Request n i sent) (mp_inflight old)"
    using True by (simp_all add: url_answer_def Let_def split: option.split)
  have pl: "mp_playlist old \<noteq> []" using inv True by (auto simp: player_inv_def quiet_def)
  have i: "tr_isNetease (current_track old)" "i = tr_id (current_track old)"
    using inv True r by (auto simp: player_inv_def asks_current_def url_requests_iff)
  have track: "current_track ?s = current_track old" using eq by (simp add: current_track_def)
  have "mp_resolvedUrl ?s = [] \<or> (\<exists>d. data = Some d \<and> b_url d = Some (mp_resolvedUrl ?s) \<and> sent)"
    using True by (auto simp: url_answer_def Let_def split: option.split)
  then have "mp_resolvedUrl ?s = [] \<or> given_url i ?e = Some (mp_resolvedUrl ?s)"
    using data by (auto simp: given_url_def simp flip: data)
  then have "mp_resolvedUrl ?s = [] \<or> mp_resolvedUrl ?s \<in> set (given_urls (es @ [?e]) i)"
    by (auto simp: given_urls_def set_map_filter)
  then have "plays_current (es @ [?e]) ?s" using i(1) unfolding plays_current_def track i(2) [symmetric] by simp
  moreover have "asks_current ?s" by (simp add: asks_current_def eq)
  moreover have "quiet ?s" using pl eq by (simp add: quiet_def)
  moreover have "numbered ?s" using inv by (auto simp: player_inv_def numbered_def eq url_requests_iff dest: set_remove1_subset [THEN subsetD])
  moreover have "session_stored ?s" using inv by (auto simp: player_inv_def session_stored_def eq in_set_remove1 split: cookie.splits)
  moreover have "in_range ?s" using inv by (simp add: player_inv_def in_range_def eq)
  ultimately show ?thesis by (simp add: handled_def eq)
qed


lemma session_less:
  "session_stored s \<Longrightarrow> r \<noteq> Cookie_Request \<Longrightarrow> session_stored (s\<lparr>mp_inflight := remove1 r (mp_inflight s)\<rparr>)"
  by (auto simp: session_stored_def split: cookie.splits)

lemma expired_fields:
  "mp_version (handleSessionExpired now s) = mp_version s + 1" "mp_playlist (handleSessionExpired now s) = []"
  "mp_next (handleSessionExpired now s) = mp_next s" "mp_resolving (handleSessionExpired now s) = mp_resolving s"
  "ms_player (mp_store (handleSessionExpired now s)) = ms_player (mp_store s)"
  "ms_cookie (mp_store (handleSessionExpired now s)) = None" "mp_cookie (handleSessionExpired now s) = Null"
  "mp_audioPaused (handleSessionExpired now s) = mp_audioPaused s"
  "mp_inflight (handleSessionExpired now s) = mp_inflight s @ [Logout_Request]"
  by (simp_all add: handleSessionExpired_def handleLogoutNetease_def send_request_def set_stored_cookie_def setPlaylist_def)

lemma init_fields:
  assumes "ms_player (mp_store s) = Some p"
  shows "mp_version (init_answer data s) = mp_version s + 1" "mp_playlist (init_answer data s) = sp_playlist p"
    "mp_index (init_answer data s) = sp_index p" "mp_volume (init_answer data s) = sp_volume p"
    "mp_isMuted (init_answer data s) = sp_isMuted p" "mp_playMode (init_answer data s) = sp_playMode p"
    "mp_next (init_answer data s) = mp_next s" "mp_resolving (init_answer data s) = mp_resolving s"
    "ms_player (mp_store (init_answer data s)) = ms_player (mp_store s)"
    "mp_audioPaused (init_answer data s) = mp_audioPaused s"
    "Url_Request n i c \<in> set (mp_inflight (init_answer data s)) \<longleftrightarrow> Url_Request n i c \<in> set (mp_inflight s)"
  using assms by (auto simp: init_answer_def restore_player_def Let_def send_request_def set_stored_cookie_def setPlaylist_def)

lemma init_session:
  assumes "ms_player (mp_store s) = Some p" and "mp_cookie s = Null \<or> session_stored s"
  shows "session_stored (init_answer data s)"
  using assms by (auto simp: init_answer_def restore_player_def Let_def send_request_def set_stored_cookie_def setPlaylist_def
    session_stored_def split: option.splits cookie.splits)


lemma less_requests: "x \<in> set (remove1 r rs) \<Longrightarrow> x \<in> set rs"
  by (rule set_remove1_subset [THEN subsetD])

lemma url_answer_fields:
  "mp_version (url_answer n b d s) = mp_version s" "mp_playlist (url_answer n b d s) = mp_playlist s"
  "mp_index (url_answer n b d s) = mp_index s" "mp_next (url_answer n b d s) = mp_next s"
  "mp_store (url_answer n b d s) = mp_store s" "mp_cookie (url_answer n b d s) = mp_cookie s"
  "mp_audioPaused (url_answer n b d s) = mp_audioPaused s" "mp_inflight (url_answer n b d s) = mp_inflight s"
  "mp_resolving (url_answer n b d s) = mp_resolving s \<or> mp_resolving (url_answer n b d s) = None"
  by (simp_all add: url_answer_def Let_def split: option.split)

text \<open>An answer that finds the session expired.\<close>

lemma expired_ok:
  fixes r :: request and now :: int and old :: player
  defines "s \<equiv> handleSessionExpired now (old\<lparr>mp_inflight := remove1 r (mp_inflight old)\<rparr>)"
  assumes inv: "player_inv es old"
  shows "handled es' old s" "handled es' old (init_answer None s)" "handled es' old (url_answer n b d s)"
proof -
  note e = expired_fields [of now "old\<lparr>mp_inflight := remove1 r (mp_inflight old)\<rparr>", folded s_def]
  have stored: "ms_player (mp_store s) = Some (saved_of old)" "in_range old"
    using inv by (simp_all add: player_inv_def remembered_def e)
  have session: "session_stored s" by (simp add: session_stored_def e)
  show "handled es' old s"
    by (rule handled_list [OF inv]) (auto simp: e in_range_def session dest: less_requests)
  show "handled es' old (url_answer n b d s)"
  proof (rule handled_list [OF inv])
    show "session_stored (url_answer n b d s)" using session by (simp add: session_stored_def url_answer_fields e)
    show "mp_resolving (url_answer n b d s) = mp_resolving old \<or> mp_resolving (url_answer n b d s) = None"
      using url_answer_fields(9) [of n b d s] by (simp add: e)
  qed (auto simp: e in_range_def url_answer_fields dest: less_requests)
  note i = init_fields [OF stored(1), where data = None]
  show "handled es' old (init_answer None s)"
  proof (rule handled_list [OF inv])
    show "in_range (init_answer None s)" using stored(2) by (simp add: in_range_def i saved_of_def)
    show "session_stored (init_answer None s)" using init_session [OF stored(1)] session by simp
  qed (auto simp: e i dest: less_requests)
qed

text \<open>One that does not.\<close>

lemma init_answer_ok:
  assumes inv: "player_inv es old"
  shows "handled es' old (init_answer data (old\<lparr>mp_inflight := remove1 r (mp_inflight old)\<rparr>))" (is "handled es' old (init_answer data ?s)")
proof -
  have stored: "ms_player (mp_store ?s) = Some (saved_of old)" "in_range old" "session_stored old"
    using inv by (simp_all add: player_inv_def remembered_def)
  note i = init_fields [OF stored(1), where data = data]
  show ?thesis
  proof (rule handled_list [OF inv])
    show "in_range (init_answer data ?s)" using stored(2) by (simp add: in_range_def i saved_of_def)
    show "session_stored (init_answer data ?s)"
      using stored(3) by (intro init_session [OF stored(1)]) (auto simp: session_stored_def split: cookie.splits)
  qed (auto simp: i dest: less_requests)
qed

lemma tracks_answer_ok:
  assumes inv: "player_inv es old" and r: "r \<noteq> Cookie_Request" and ts: "b_tracks d = Some ts"
  shows "handled es' old (tracks_answer d (old\<lparr>mp_inflight := remove1 r (mp_inflight old)\<rparr>))"
  using session_less [OF _ r, of old] inv
  by (cases "ts = []"; intro handled_list [OF inv])
    (auto simp: tracks_answer_def ts Let_def setPlaylist_def in_range_def player_inv_def session_stored_def dest: less_requests split: cookie.splits)

lemma answered_ok:
  assumes inv: "player_inv es old"
  shows "handled (es @ [Answered r ans now]) old (answered r ans now old)"
proof (cases "r \<in> set (mp_inflight old)")
  case False
  then show ?thesis using inv by (intro handled_frame) (auto simp: answered_def player_inv_def)
next
  case True
  let ?s1 = "old\<lparr>mp_inflight := remove1 r (mp_inflight old)\<rparr>" and ?h = "handled (es @ [Answered r ans now]) old"
  obtain expired data where f: "(if sends_nothing r then (False, None) else fetchNetease ans) = (expired, data)" by fastforce
  have dropped: "expired \<Longrightarrow> data = None"
    using f by (auto simp: fetchNetease_def split: if_splits netease_answer.splits option.splits)
  define s where "s = (if expired then handleSessionExpired now ?s1 else ?s1)"
  have eq: "answered r ans now old = (case r of
      Cookie_Request \<Rightarrow> init_answer data s
    | Url_Request n _ sent \<Rightarrow> url_answer n sent data s
    | Playlists_Request \<Rightarrow> (case data of None \<Rightarrow> s | Some d \<Rightarrow> loadNeteasePlaylists d s)
    | Tracks_Request \<Rightarrow> (case data of None \<Rightarrow> s | Some d \<Rightarrow> tracks_answer d s)
    | Key_Request \<Rightarrow> (case data of None \<Rightarrow> s | Some d \<Rightarrow> key_answer d s)
    | Check_Request _ \<Rightarrow> (case data of None \<Rightarrow> s | Some d \<Rightarrow> checkQrStatus d s)
    | Logout_Request \<Rightarrow> s)"
    unfolding answered_def Let_def f prod.case s_def [symmetric] using True by simp
  show ?thesis
  proof (cases expired)
    case True
    then have "s = handleSessionExpired now ?s1" "data = None" using dropped by (simp_all add: s_def)
    then show ?thesis using expired_ok [OF inv] by (simp add: eq split: request.split)
  next
    case False
    then have s: "s = ?s1" by (simp add: s_def)
    have keep: "?h (f ?s1)"
      if "mp_playlist (f ?s1) = mp_playlist ?s1" "mp_version (f ?s1) = mp_version ?s1"
        "mp_index (f ?s1) = mp_index ?s1" "mp_isPlaying (f ?s1) = mp_isPlaying ?s1" "mp_resolvedUrl (f ?s1) = mp_resolvedUrl ?s1"
        "mp_resolving (f ?s1) = mp_resolving ?s1" "mp_next (f ?s1) = mp_next ?s1" "ms_player (mp_store (f ?s1)) = ms_player (mp_store ?s1)"
        "mp_audioPaused (f ?s1) = mp_audioPaused ?s1" "session_stored (f ?s1)"
        "\<And>n i c. Url_Request n i c \<in> set (mp_inflight (f ?s1)) \<Longrightarrow> Url_Request n i c \<in> set (mp_inflight ?s1)" for f
    proof (rule handled_frame [OF inv])
      show "Url_Request n i c \<in> set (mp_inflight old)" if "Url_Request n i c \<in> set (mp_inflight (f ?s1))" for n i c
        using \<open>\<And>n i c. Url_Request n i c \<in> set (mp_inflight (f ?s1)) \<Longrightarrow> _\<close> [OF that] less_requests by simp
    qed (use that in simp_all)
    have session: "session_stored ?s1" if "r \<noteq> Cookie_Request" using session_less [OF _ that, of old] inv by (simp add: player_inv_def)
    have same: "?h ?s1" if "r \<noteq> Cookie_Request" using keep [of id] session [OF that] by simp
    show ?thesis
    proof (cases r)
      case Cookie_Request
      then show ?thesis unfolding eq s using init_answer_ok [OF inv] by simp
    next
      case (Url_Request n i sent)
      have "sent \<Longrightarrow> data = snd (fetchNetease ans)" using f Url_Request by (auto simp: sends_nothing_def split: if_splits)
      then show ?thesis unfolding eq s using url_answer_ok [OF inv, of n i sent data ans now] True Url_Request \<open>r \<in> set (mp_inflight old)\<close> by simp
    next
      case Tracks_Request
      then show ?thesis unfolding eq s using same tracks_answer_ok [OF inv, of r] by (auto simp: tracks_answer_def split: option.split)
    next
      case Playlists_Request
      have "?h (loadNeteasePlaylists d ?s1)" for d
        using session Playlists_Request by (intro keep) (auto simp: loadNeteasePlaylists_def session_stored_def split: option.splits cookie.splits)
      then show ?thesis unfolding eq s using same Playlists_Request by (simp split: option.split)
    next
      case Key_Request
      have "?h (key_answer d ?s1)" for d
        using session Key_Request by (intro keep) (auto simp: key_answer_def session_stored_def split: option.splits cookie.splits if_splits)
      then show ?thesis unfolding eq s using same Key_Request by (simp split: option.split)
    next
      case (Check_Request k)
      have "?h (checkQrStatus d ?s1)" for d
        using session Check_Request
        by (intro keep) (auto simp: checkQrStatus_def send_request_def set_stored_cookie_def session_stored_def to_cookie_def cookie_text_def
            split: option.splits cookie.splits if_splits)
      then show ?thesis unfolding eq s using same Check_Request by (simp split: option.split)
    next
      case Logout_Request
      then show ?thesis unfolding eq s using same by simp
    qed
  qed
qed


lemma event_ok:
  assumes inv: "player_inv es old"
  shows "handled (es @ [e]) old (handle_event e old)"
proof -
  have parts: "in_range old" "session_stored old" "quiet old" using inv by (simp_all add: player_inv_def)
  have keep: "handled (es @ [e]) old s"
    if "mp_playlist s = mp_playlist old" "mp_version s = mp_version old" "mp_index s = mp_index old"
      "mp_isPlaying s = mp_isPlaying old" "mp_resolvedUrl s = mp_resolvedUrl old" "mp_resolving s = mp_resolving old"
      "mp_next s = mp_next old" "mp_store s = mp_store old" "mp_audioPaused s = mp_audioPaused old" "mp_cookie s = mp_cookie old"
      "mp_inflight s = mp_inflight old @ rs" "url_requests (\<lambda>n i. False) rs" for s rs
    using that parts by (intro handled_frame [OF inv]) (auto simp: session_stored_def url_requests_iff split: cookie.splits)
  have same: "handled (es @ [e]) old old" by (rule keep [where rs = "[]"]) (simp_all add: url_requests_def)
  show ?thesis
  proof (cases e)
    case (Next r)
    then show ?thesis using next_ok [OF inv, of r "mp_audioPaused old" e] same by (simp add: handle_event_def)
  next
    case (Prev r)
    then show ?thesis using prev_ok [OF inv, of r e] same by (simp add: handle_event_def)
  next
    case (Ended r)
    have "handled (es @ [e]) old (old\<lparr>mp_audioPaused := False\<rparr>)" if "\<not> mp_audioPaused old"
      using keep [where rs = "[]" and s = "old\<lparr>mp_audioPaused := False\<rparr>"] that by (simp add: url_requests_def)
    then show ?thesis using Ended next_ok [OF inv, of r True e] same by (simp add: handle_event_def handleEnded_def)
  next
    case Play_Pause
    have "handled (es @ [e]) old (handlePlayPause old)"
      using parts by (intro handled_track [OF inv]) (auto simp: handlePlayPause_def in_range_def quiet_def)
    then show ?thesis using Play_Pause by (simp add: handle_event_def)
  next
    case (Pick_Track i)
    have "handled (es @ [e]) old (old\<lparr>mp_index := int i, mp_isPlaying := True\<rparr>)" if "i < length (mp_playlist old)"
      using that by (intro handled_track [OF inv]) (auto simp: in_range_def)
    then show ?thesis using Pick_Track same by (simp add: handle_event_def)
  next
    case Clear_All
    have "handled (es @ [e]) old (clear_all old)"
      using parts by (intro handled_list [OF inv]) (auto simp: clear_all_def setPlaylist_def in_range_def session_stored_def split: cookie.splits)
    then show ?thesis using Clear_All same by (simp add: handle_event_def)
  next
    case Play_Custom_Url
    have "handled (es @ [e]) old (handlePlayCustomUrl old)" if "mp_customUrl old \<noteq> []"
      using parts that by (intro handled_list [OF inv])
        (auto simp: handlePlayCustomUrl_def Let_def setPlaylist_def in_range_def session_stored_def split: cookie.splits)
    then show ?thesis using Play_Custom_Url same by (auto simp: handle_event_def handlePlayCustomUrl_def)
  next
    case Logout_Click
    have "handled (es @ [e]) old (handleLogoutNetease old)"
      by (rule logout_ok [OF inv, where rs = "mp_inflight old" and l = "mp_lastAlert old" and a = "mp_alerts old"]) simp_all
    then show ?thesis using Logout_Click same by (simp add: handle_event_def)
  next
    case (Play_Rejected b)
    have "handled (es @ [e]) old (old\<lparr>mp_isPlaying := False\<rparr>)"
      using parts by (intro handled_track [OF inv]) (auto simp: in_range_def)
    then show ?thesis using Play_Rejected same by (cases b) (simp_all add: handle_event_def)
  next
    case (Answered r ans now)
    then show ?thesis using answered_ok [OF inv] by (simp add: handle_event_def)
  next
    case Poll_Tick
    then show ?thesis by (intro keep [where rs = "if polling old then [Check_Request (the (mp_qrKey old))] else []"])
      (simp_all add: handle_event_def send_request_def url_requests_def)
  next
    case Login_Click
    then show ?thesis by (intro keep [where rs = "if has_cookie (mp_cookie old) then [] else [Key_Request]"])
      (simp_all add: handle_event_def startQrLogin_def send_request_def url_requests_def)
  next
    case Login_Refresh
    then show ?thesis by (intro keep [where rs = "if mp_showLogin old then [Key_Request] else []"])
      (simp_all add: handle_event_def startQrLogin_def send_request_def url_requests_def)
  next
    case (Choose_Playlist i)
    then show ?thesis
      by (intro keep [where rs = "if has_cookie (mp_cookie old) \<and> mp_playlists old \<noteq> [] \<and> i \<noteq> [] then [Tracks_Request] else []"])
        (simp_all add: handle_event_def choose_playlist_def Let_def send_request_def url_requests_def)
  qed (rule keep [where rs = "[]"]; simp add: handle_event_def url_requests_def cycle_mode_def)+
qed

lemma step_ok: "player_inv es s \<Longrightarrow> player_inv (es @ [e]) (player_step s e)"
  unfolding player_step_def by (rule commit_ok [OF _ event_ok])

lemma mount_ok: "player_inv [] (mount_player store)"
  by (simp add: mount_player_def player_init_def resolve_effect_def send_request_def Let_def player_inv_def player_parts saved_of_def url_requests_def)

lemma run_ok: "player_inv es (run_player store es)"
  by (induction es rule: rev_induct) (simp_all add: run_player_def mount_ok step_ok)


section \<open>Properties\<close>


text \<open>While a song from the music service is being resolved, the song before it goes on sounding under its title.\<close>

lemma former_song_sounds:
  assumes "mp_showQueue s" "i < length (mp_playlist s)" "int i \<noteq> mp_index s" "tr_isNetease (mp_playlist s ! i)"
    and "mp_isPlaying s" "mp_resolvedUrl s \<noteq> []" "\<not> mp_audioPaused s"
  shows "let s' = player_step s (Pick_Track i) in
    mp_index s' = int i \<and> mp_resolving s' \<noteq> None \<and> mp_resolvedUrl s' = mp_resolvedUrl s \<and> \<not> mp_audioPaused s'"
  using assms
  by (simp add: player_step_def handle_event_def commit_def resolve_changed_def save_effect_def volume_effect_def
      play_effect_def resolve_effect_def send_request_def Let_def)

text \<open>What the player saved is never restored: the saved state is overwritten when the player appears, so nothing
  after that depends on it, and when the answer for the cookie comes, the restoring leaves the list, the song, the
  volume and the mode as they are.\<close>

theorem saved_player_lost:
  "let s = run_player store es; s' = player_step s (Answered Cookie_Request ans now) in
    s = run_player (store\<lparr>ms_player := saved\<rparr>) es \<and> mp_playlist s' = mp_playlist s \<and> mp_index s' = mp_index s
    \<and> mp_volume s' = mp_volume s \<and> mp_isMuted s' = mp_isMuted s \<and> mp_playMode s' = mp_playMode s"
proof -
  define s where "s = run_player store es"
  have stored: "ms_player (mp_store s) = Some (saved_of s)"
    using run_ok [of es store] by (simp add: player_inv_def remembered_def s_def)
  have fields: "mp_playlist (commit s t) = mp_playlist t \<and> mp_index (commit s t) = mp_index t \<and> mp_volume (commit s t) = mp_volume t
      \<and> mp_isMuted (commit s t) = mp_isMuted t \<and> mp_playMode (commit s t) = mp_playMode t" for t
    by (simp add: commit_def Let_def)
  have init: "mp_playlist t = mp_playlist s \<and> mp_index t = mp_index s \<and> mp_volume t = mp_volume s
      \<and> mp_isMuted t = mp_isMuted s \<and> mp_playMode t = mp_playMode s"
    if "t = init_answer d u" "ms_player (mp_store u) = Some (saved_of s)" for d t u
    using init_fields(2-6) [OF that(2), of d] by (simp add: that(1) saved_of_def)
  have "mp_playlist t = mp_playlist s \<and> mp_index t = mp_index s \<and> mp_volume t = mp_volume s
      \<and> mp_isMuted t = mp_isMuted s \<and> mp_playMode t = mp_playMode s" if t: "t = answered Cookie_Request ans now s" for t
  proof (cases "Cookie_Request \<in> set (mp_inflight s)")
    case True
    obtain expired data where f: "fetchNetease ans = (expired, data)" by fastforce
    let ?s1 = "s\<lparr>mp_inflight := remove1 Cookie_Request (mp_inflight s)\<rparr>"
    let ?u = "if expired then handleSessionExpired now ?s1 else ?s1"
    have "t = init_answer data ?u" using True f by (simp add: t answered_def sends_nothing_def Let_def)
    moreover have "ms_player (mp_store ?u) = Some (saved_of s)" using stored by (simp add: expired_fields)
    ultimately show ?thesis by (rule init)
  qed (simp add: t answered_def)
  from this [OF refl] have after: "let s' = player_step s (Answered Cookie_Request ans now) in
      mp_playlist s' = mp_playlist s \<and> mp_index s' = mp_index s \<and> mp_volume s' = mp_volume s \<and> mp_isMuted s' = mp_isMuted s
      \<and> mp_playMode s' = mp_playMode s"
    by (simp add: player_step_def handle_event_def fields Let_def)
  have "mount_player store = mount_player (store\<lparr>ms_player := saved\<rparr>)"
    by (simp add: mount_player_def player_init_def Let_def send_request_def saved_of_def)
  then have "s = run_player (store\<lparr>ms_player := saved\<rparr>) es" by (simp add: s_def run_player_def)
  then show ?thesis using after unfolding s_def [symmetric] Let_def by (intro conjI) simp_all
qed

lemma commit_frame:
  assumes "mp_index s = mp_index old" "mp_version s = mp_version old" "mp_volume s = mp_volume old" "mp_isMuted s = mp_isMuted old"
    "mp_playMode s = mp_playMode old" "mp_cookie s = mp_cookie old" "mp_isPlaying s = mp_isPlaying old" "mp_resolvedUrl s = mp_resolvedUrl old"
  shows "commit old s = s"
  using assms by (simp add: commit_def save_effect_def volume_effect_def play_effect_def resolve_changed_def)

text \<open>A queue of one song does not repeat: when the song ends in the list mode the player goes on showing it as
  playing while the audio element has stopped, and the buttons for the next and the previous song do not start it;
  only pausing and playing again does.\<close>

theorem single_song_stalls:
  assumes "u \<noteq> []" "0 \<le> r" "r < 1" "list_all (\<lambda>e. case e of Next _ \<Rightarrow> True | Prev _ \<Rightarrow> True | _ \<Rightarrow> False) es"
  shows "let s = run_player store [Toggle_Url_Input, Type_Url u, Play_Custom_Url]; s' = foldl player_step s (Ended r # es) in
    \<not> mp_audioPaused s \<and> mp_isPlaying s' \<and> mp_audioPaused s'
    \<and> \<not> mp_audioPaused (player_step (player_step s' Play_Pause) Play_Pause)"
proof -
  define s where "s = run_player store [Toggle_Url_Input, Type_Url u, Play_Custom_Url]"
  define m where "m = mount_player store"
  have m: "mp_playlist m = []" "mp_index m = -1" "mp_version m = 0" "\<not> mp_isPlaying m" "mp_audioPaused m" "\<not> mp_showUrlInput m"
    "mp_playMode m = Mode_List" "mp_resolvedUrl m = []"
    by (simp_all add: m_def mount_player_def player_init_def resolve_effect_def send_request_def Let_def)
  define t where "t = m\<lparr>mp_showUrlInput := True, mp_customUrl := u\<rparr>"
  have "player_step (player_step m Toggle_Url_Input) (Type_Url u) = t"
    using m by (simp add: player_step_def handle_event_def commit_frame t_def)
  then have "s = commit t (handlePlayCustomUrl t)"
    by (simp add: s_def run_player_def m_def [symmetric] player_step_def [of t] handle_event_def) (simp add: t_def)
  moreover have "handlePlayCustomUrl t = t\<lparr>mp_playlist := mp_playlist (handlePlayCustomUrl t), mp_version := 1, mp_index := 0,
      mp_isPlaying := True, mp_customUrl := [], mp_showUrlInput := False\<rparr>"
    "length (mp_playlist (handlePlayCustomUrl t)) = 1" "\<not> tr_isNetease (mp_playlist (handlePlayCustomUrl t) ! 0)"
    "tr_url (mp_playlist (handlePlayCustomUrl t) ! 0) = Some u"
    using assms(1) m by (simp_all add: handlePlayCustomUrl_def t_def setPlaylist_def Let_def)
  moreover have t: "mp_index t = -1" "mp_version t = 0" "\<not> mp_isPlaying t" "mp_resolvedUrl t = []" "mp_audioPaused t" "mp_playMode t = Mode_List"
    using m by (simp_all add: t_def)
  ultimately obtain ts where s_eq: "s = commit t (t\<lparr>mp_playlist := ts, mp_version := 1, mp_index := 0,
      mp_isPlaying := True, mp_customUrl := [], mp_showUrlInput := False\<rparr>)"
    and ts: "length ts = 1" "\<not> tr_isNetease (ts ! 0)" "tr_url (ts ! 0) = Some u" by metis
  have s: "length (mp_playlist s) = 1" "mp_index s = 0" "mp_isPlaying s" "\<not> mp_audioPaused s" "mp_playMode s = Mode_List" "mp_resolvedUrl s = u"
    unfolding s_eq using t ts assms(1)
    by (simp_all add: commit_def save_effect_def volume_effect_def play_effect_def resolve_effect_def resolve_changed_def Let_def)
  have same: "commit t t = t" for t
    by (simp add: commit_def save_effect_def volume_effect_def play_effect_def resolve_changed_def)
  let ?t = "s\<lparr>mp_audioPaused := True\<rparr>"
  have "handleEnded r s = ?t" using s by (simp add: handleEnded_def handleNext_def)
  then have ended: "player_step s (Ended r) = ?t" using assms(2,3) s(4)
    by (simp add: player_step_def handle_event_def commit_def save_effect_def volume_effect_def play_effect_def resolve_changed_def)
  have stays: "player_step ?t e = ?t" if "case e of Next _ \<Rightarrow> True | Prev _ \<Rightarrow> True | _ \<Rightarrow> False" for e
  proof -
    have "handle_event e ?t = ?t" using that s
      by (cases e) (simp_all add: handle_event_def handleNext_def handlePrev_def js_rem_def)
    then show ?thesis by (simp add: player_step_def same)
  qed
  have "foldl player_step ?t es = ?t" using assms(4) by (induction es) (simp_all add: stays)
  then show ?thesis using s assms(1) unfolding s_def [symmetric] Let_def
    by (simp add: ended) (simp add: player_step_def handle_event_def handlePlayPause_def commit_def save_effect_def volume_effect_def
      play_effect_def resolve_changed_def)
qed

theorem single_song_stalls_witness:
  "let s = foldl player_step (run_player \<lparr>ms_cookie = None, ms_player = None\<rparr> [Toggle_Url_Input, Type_Url ''a.mp3'', Play_Custom_Url])
      [Ended (1 / 2), Next 0] in mp_isPlaying s \<and> mp_audioPaused s"
  using single_song_stalls [of "''a.mp3''" "1 / 2" "[Next 0]" "\<lparr>ms_cookie = None, ms_player = None\<rparr>"] by (simp add: Let_def)

text \<open>A check of the scan of an old code, answered after the user asked for a new one, marks the new code as expired, and
  nobody asks for its scan any more.\<close>

lemma stale_check_stops_polling:
  assumes "mp_showLogin s" "mp_qrKey s = Some new" "mp_qrStatus s = 801" "Check_Request old_key \<in> set (mp_inflight s)"
    and "fetchNetease ans = (False, Some d)" "b_code d = Some 800" "new \<noteq> []"
  shows "polling s \<and> \<not> polling (player_step s (Answered (Check_Request old_key) ans now))"
proof -
  have e: "handle_event (Answered (Check_Request old_key) ans now) s =
      s\<lparr>mp_inflight := remove1 (Check_Request old_key) (mp_inflight s), mp_qrStatus := 800\<rparr>"
    using assms by (simp add: handle_event_def answered_def sends_nothing_def checkQrStatus_def Let_def)
  show ?thesis using assms unfolding player_step_def e
    by (simp add: polling_def commit_def save_effect_def volume_effect_def play_effect_def resolve_changed_def)
qed

end
