(* ===== verification/RequestRetry.thy ===== *)
theory RequestRetry
  imports AuthTokens
begin

text \<open>
  A query with all its repetitions: the query client, a library, calls the request again while
  \<open>shouldRetry\<close> (\<^verbatim>\<open>lib/query-client.ts\<close>) says so, and each call goes through the interceptor of
  \<^verbatim>\<open>connect.ts\<close>, which repeats it once itself. The client's loop is a parameter, with what its
  documentation says of the option \<open>retry\<close> as the laws of a locale.
\<close>

section \<open>The query client\<close>

text \<open>
  \<open>run retry fetch k n\<close> is the rest of a query after \<open>k\<close> failures, \<open>None\<close> if it never ends. A failed
  call is repeated when \<open>retry\<close>, asked with the number of failures before it and the error, says so,
  after a pause in which the clock and the session may change but this query sends nothing.
\<close>

locale query_retries =
  fixes run :: "(nat \<Rightarrow> api_error \<Rightarrow> bool) \<Rightarrow> (net \<Rightarrow> (api_error + 'r) \<times> net) \<Rightarrow> nat \<Rightarrow> net
      \<Rightarrow> ((api_error + 'r) \<times> net) option"
    and pause :: "nat \<Rightarrow> net \<Rightarrow> net"
  assumes run_step: "run retry fetch k n =
      (case fetch n of
         (Inr r, n') \<Rightarrow> Some (Inr r, n')
       | (Inl e, n') \<Rightarrow> if retry k e then run retry fetch (k + 1) (pause k n') else Some (Inl e, n'))"
    and pause_log: "n_log (pause k n) = n_log n"

text \<open>The smallest such client, which repeats without a pause.\<close>

partial_function (option) repeat_at_once ::
  "(nat \<Rightarrow> api_error \<Rightarrow> bool) \<Rightarrow> (net \<Rightarrow> (api_error + 'r) \<times> net) \<Rightarrow> nat \<Rightarrow> net \<Rightarrow> ((api_error + 'r) \<times> net) option" where
  "repeat_at_once retry fetch k n =
     (case fetch n of
        (Inr r, n') \<Rightarrow> Some (Inr r, n')
      | (Inl e, n') \<Rightarrow> if retry k e then repeat_at_once retry fetch (k + 1) n' else Some (Inl e, n'))"

interpretation at_once: query_retries repeat_at_once "\<lambda>_ n. n"
  by unfold_locales (subst repeat_at_once.simps, rule refl, rule refl)

text \<open>A query as the options of the client set it up.\<close>

definition query ::
  "((nat \<Rightarrow> api_error \<Rightarrow> bool) \<Rightarrow> (net \<Rightarrow> (api_error + 'r) \<times> net) \<Rightarrow> nat \<Rightarrow> net \<Rightarrow> ((api_error + 'r) \<times> net) option)
     \<Rightarrow> 'r net_env \<Rightarrow> request_headers \<Rightarrow> net \<Rightarrow> ((api_error + 'r) \<times> net) option" where
  "query run env req n = run shouldRetry (authInterceptor env req) 0 n"

section \<open>What a request costs\<close>

definition sends :: "net_event list \<Rightarrow> nat" where
  "sends es = length (filter (\<lambda>e. case e of Sent _ \<Rightarrow> True | _ \<Rightarrow> False) es)"

definition refreshes :: "net_event list \<Rightarrow> nat" where
  "refreshes es = length (filter (\<lambda>e. e = Refresh_Sent) es)"

definition redirects :: "net_event list \<Rightarrow> nat" where
  "redirects es = length (filter (\<lambda>e. case e of Redirected _ \<Rightarrow> True | _ \<Rightarrow> False) es)"

lemmas costs = sends_def refreshes_def redirects_def

lemma costs_append:
  "sends (es @ fs) = sends es + sends fs" "refreshes (es @ fs) = refreshes es + refreshes fs"
  "redirects (es @ fs) = redirects es + redirects fs"
  by (simp_all add: costs)

text \<open>One pass through the interceptor; a redirection needs a second attempt that failed.\<close>

lemma retry_cost:
  assumes "retry_request env req n = (r, n')"
  shows "\<exists>es. n_log n' = n_log n @ es \<and> sends es \<le> 1 \<and> refreshes es = 1 \<and> redirects es \<le> (case r of Inl _ \<Rightarrow> 1 | Inr _ \<Rightarrow> 0)"
proof -
  obtain q n1 where q: "refreshAndGetAccessToken env n = (q, n1)" by fastforce
  have l1: "n_log n1 = n_log n @ [Refresh_Sent]" by (rule refreshAnd_log [OF q])
  have redirect: "\<exists>fs. n_log (redirect_on_failure env m) = n_log m @ fs \<and> sends fs = 0 \<and> refreshes fs = 0 \<and> redirects fs \<le> 1" for m
    by (auto simp: redirect_log costs split: option.split)
  show ?thesis
  proof (cases q)
    case (Inl e)
    then have "r = Inl e" "n' = redirect_on_failure env n1" using assms q by (simp_all add: retry_request_def)
    moreover obtain fs where "n_log (redirect_on_failure env n1) = n_log n1 @ fs" "sends fs = 0" "refreshes fs = 0" "redirects fs \<le> 1"
      using redirect by blast
    ultimately show ?thesis using l1 by (intro exI [of _ "Refresh_Sent # fs"]) (simp add: costs)
  next
    case (Inr t)
    let ?h = "(setAuthorizationHeader (Some t) req)\<lparr>rh_retry := Some RETRY_HEADER_VALUE\<rparr>"
    obtain a n2 where s: "send env ?h n1 = (a, n2)" by fastforce
    have l2: "n_log n2 = n_log n @ [Refresh_Sent, Sent ?h]" using send_log [OF s] l1 by simp
    obtain fs where fs: "n_log (redirect_on_failure env n2) = n_log n2 @ fs" "sends fs = 0" "refreshes fs = 0" "redirects fs \<le> 1"
      using redirect by blast
    show ?thesis
    proof (cases a)
      case Inl': (Inl e)
      then have "r = Inl e" "n' = redirect_on_failure env n2" using assms q Inr s by (simp_all add: retry_request_def)
      then show ?thesis using l2 fs by (intro exI [of _ "Refresh_Sent # Sent ?h # fs"]) (simp add: costs)
    next
      case Inr': (Inr x)
      then have "r = Inr x" "n' = n2" using assms q Inr s by (simp_all add: retry_request_def)
      then show ?thesis using l2 by (intro exI [of _ "[Refresh_Sent, Sent ?h]"]) (simp add: costs)
    qed
  qed
qed

lemma interceptor_cost:
  assumes "authInterceptor env req n = (r, n')"
  shows "\<exists>es. n_log n' = n_log n @ es \<and> 1 \<le> sends es \<and> sends es \<le> 2 \<and> refreshes es \<le> 2
    \<and> redirects es \<le> (case r of Inl _ \<Rightarrow> 1 | Inr _ \<Rightarrow> 0)"
proof -
  obtain token n1 where g: "getRequestToken env n = (token, n1)" by fastforce
  let ?h = "setAuthorizationHeader token req"
  obtain a n2 where s: "send env ?h n1 = (a, n2)" by fastforce
  obtain pre where pre: "n_log n2 = n_log n @ pre @ [Sent ?h]" "sends pre = 0" "refreshes pre \<le> 1" "redirects pre = 0"
    using getRequestToken_log [OF g] send_log [OF s] by (auto simp: costs)
  show ?thesis
  proof (cases "\<exists>e. a = Inl e \<and> shouldHandleUnauthenticatedRetry e (rh_retry req = Some RETRY_HEADER_VALUE)")
    case True
    then have "retry_request env ?h n2 = (r, n')" using assms g s by (auto simp: authInterceptor_def)
    from retry_cost [OF this] obtain es where "n_log n' = n_log n2 @ es" "sends es \<le> 1" "refreshes es = 1"
      "redirects es \<le> (case r of Inl _ \<Rightarrow> 1 | Inr _ \<Rightarrow> 0)" by blast
    then show ?thesis using pre by (intro exI [of _ "pre @ Sent ?h # es"]) (simp add: costs)
  next
    case False
    then have "n' = n2" using assms g s by (auto simp: authInterceptor_def split: sum.splits)
    then show ?thesis using pre by (intro exI [of _ "pre @ [Sent ?h]"]) (simp add: costs_append, simp add: costs split: sum.split)
  qed
qed

section \<open>Properties\<close>

context query_retries
begin

text \<open>With the retry rule of the program a query makes one call or two.\<close>

lemma one_or_two_calls:
  assumes "authInterceptor env req n = (r1, n1)" and "authInterceptor env req (pause 0 n1) = (r2, n2)"
  shows "query run env req n = Some (if \<exists>e. r1 = Inl e \<and> shouldRetry 0 e then (r2, n2) else (r1, n1))"
proof -
  have "run shouldRetry (authInterceptor env req) 1 (pause 0 n1) = Some (r2, n2)"
    using assms(2) by (subst run_step) (auto simp: shouldRetry_def split: sum.split)
  then show ?thesis
    unfolding query_def by (subst run_step) (auto simp: assms(1) split: sum.split)
qed

end

text \<open>C22: A query comes to an end, whatever the server answers and however the session changes meanwhile, with a query
  client that repeats a failed call just when the retry rule says so: it gives up after two calls, so the request is sent
  one to four times, with at most four refreshes and two redirections, and when it is answered in the end there was at
  most one redirection.\<close>

theorem query_ends:
  assumes "query_retries run pause"
  shows "\<exists>r n' es. query run env req n = Some (r, n') \<and> n_log n' = n_log n @ es \<and> 1 \<le> sends es \<and> sends es \<le> 4
    \<and> refreshes es \<le> 4 \<and> redirects es \<le> (case r of Inl _ \<Rightarrow> 2 | Inr _ \<Rightarrow> 1)"
proof -
  obtain r1 n1 where 1: "authInterceptor env req n = (r1, n1)" by fastforce
  obtain r2 n2 where 2: "authInterceptor env req (pause 0 n1) = (r2, n2)" by fastforce
  note run = query_retries.one_or_two_calls [OF assms 1 2]
  obtain es where es: "n_log n1 = n_log n @ es" "1 \<le> sends es" "sends es \<le> 2" "refreshes es \<le> 2"
      "redirects es \<le> (case r1 of Inl _ \<Rightarrow> 1 | Inr _ \<Rightarrow> 0)"
    using interceptor_cost [OF 1] by blast
  obtain fs where fs: "n_log n2 = n_log n1 @ fs" "1 \<le> sends fs" "sends fs \<le> 2" "refreshes fs \<le> 2"
      "redirects fs \<le> (case r2 of Inl _ \<Rightarrow> 1 | Inr _ \<Rightarrow> 0)"
    using interceptor_cost [OF 2] query_retries.pause_log [OF assms] by auto
  show ?thesis
  proof (cases "\<exists>e. r1 = Inl e \<and> shouldRetry 0 e")
    case True
    then have "query run env req n = Some (r2, n2)" using run by auto
    then show ?thesis using es fs True
      by (intro exI [of _ r2] exI [of _ n2] exI [of _ "es @ fs"]) (auto simp: costs_append split: sum.splits)
  next
    case False
    then have "query run env req n = Some (r1, n1)" using run by auto
    then show ?thesis using es by (intro exI [of _ r1] exI [of _ n1] exI [of _ es]) (auto split: sum.splits)
  qed
qed

theorem query_ends_witness:
  "\<exists>r n' es. query repeat_at_once
     \<lparr>env_refresh = (\<lambda>_. Inl Other_error), env_next = (\<lambda>_ _. Inl Other_error :: api_error + nat),
      env_meanwhile = (\<lambda>_ x. x), env_location = \<lparr>wl_pathname = ''/'', wl_search = [], wl_hash = []\<rparr>\<rparr>
     \<lparr>rh_authorization = None, rh_retry = None\<rparr> \<lparr>n_now = 0, n_session = (\<lparr>ts_token = None, ts_expires = None\<rparr>, None), n_log = []\<rparr>
     = Some (r, n') \<and> n_log n' = es \<and> 1 \<le> sends es \<and> sends es \<le> 4"
  using query_ends [OF at_once.query_retries_axioms, of
     "\<lparr>env_refresh = (\<lambda>_. Inl Other_error), env_next = (\<lambda>_ _. Inl Other_error :: api_error + nat),
      env_meanwhile = (\<lambda>_ x. x), env_location = \<lparr>wl_pathname = ''/'', wl_search = [], wl_hash = []\<rparr>\<rparr>"
     "\<lparr>rh_authorization = None, rh_retry = None\<rparr>" "\<lparr>n_now = 0, n_session = (\<lparr>ts_token = None, ts_expires = None\<rparr>, None), n_log = []\<rparr>"]
  by auto

text \<open>A server whose session was renewed: the first answer is Unauthenticated, the refresh gives a token, and the
  request sent again fails for a reason of its own.\<close>

definition renewed_env :: "api_error \<Rightarrow> window_location \<Rightarrow> nat net_env" where
  "renewed_env e loc = \<lparr>env_refresh = (\<lambda>_. Inr (''fresh'', Some (Date_ms 1000000))),
     env_next = (\<lambda>k _. if k = 0 then Inl (Connect_Error Unauthenticated) else Inl e),
     env_meanwhile = (\<lambda>_ x. x), env_location = loc\<rparr>"

definition signed_in :: net where
  "signed_in = \<lparr>n_now = 0, n_session = (\<lparr>ts_token = Some ''old'', ts_expires = Some (Date_ms 900000)\<rparr>,
     Some \<lparr>ls_token = Some ''old'', ls_expires = Some (Date_ms 900000), ls_quota = None\<rparr>), n_log = []\<rparr>"

lemma archived_redirects:
  "\<exists>u. redirectOnAuthFailure False None None \<lparr>wl_pathname = ''/archived'', wl_search = [], wl_hash = []\<rparr> = Some u"
  by (simp add: redirectOnAuthFailure_def Let_def isPublicRoute_def PUBLIC_ROUTE_PREFIXES_def ROUTES_AUTH_def ROUTES_ABOUT_def
      ROUTES_EXPLORE_def ROUTES_SHARED_MEMO_def)

text \<open>A failure that has nothing to do with the session signs the user out: when a request was refused, the refresh
  succeeded, and the request sent again with the new token fails for any reason whatever, the new token is thrown away
  and the page goes to the sign-in.\<close>

theorem renewed_session_dropped:
  "let (r, n') = authInterceptor (renewed_env e \<lparr>wl_pathname = ''/archived'', wl_search = [], wl_hash = []\<rparr>) \<lparr>rh_authorization = None, rh_retry = None\<rparr> signed_in in
    r = Inl e \<and> \<not> hasStoredToken (n_session n') \<and> refreshes (n_log n') = 1 \<and> redirects (n_log n') = 1"
proof -
  show ?thesis using archived_redirects
    by (auto simp: authInterceptor_def getRequestToken_def read_token_def getAccessToken_def signed_in_def truthy_def renewed_env_def
        isTokenExpired_def REQUEST_TOKEN_EXPIRY_BUFFER_MS_def setAuthorizationHeader_def send_def await_def
        shouldHandleUnauthenticatedRetry_def retry_request_def refreshAndGetAccessToken_def doRefreshAccessToken_def
        setAccessToken_def quota_left_def use_quota_def redirect_on_failure_def clearAccessToken_def hasStoredToken_def costs Let_def)
qed

text \<open>A server that is out of reach for refreshes: the query is called again and the page redirected twice.\<close>

definition unreachable_env :: "nat net_env" where
  "unreachable_env = \<lparr>env_refresh = (\<lambda>_. Inl (Connect_Error (Other_code 14))),
     env_next = (\<lambda>_ _. Inl (Connect_Error Unauthenticated)), env_meanwhile = (\<lambda>_ x. x),
     env_location = \<lparr>wl_pathname = ''/archived'', wl_search = [], wl_hash = []\<rparr>\<rparr>"

lemma redirected_twice:
  "case query repeat_at_once unreachable_env \<lparr>rh_authorization = None, rh_retry = None\<rparr> signed_in of None \<Rightarrow> False | Some (r, n') \<Rightarrow> redirects (n_log n') = 2"
proof -
  obtain u where u: "redirectOnAuthFailure False None None \<lparr>wl_pathname = ''/archived'', wl_search = [], wl_hash = []\<rparr> = Some u"
    using archived_redirects by blast
  let ?req = "\<lparr>rh_authorization = None, rh_retry = None\<rparr> :: request_headers"
  let ?out = "(\<lparr>ts_token = None, ts_expires = None\<rparr>, Some \<lparr>ls_token = None, ls_expires = None, ls_quota = None\<rparr>) :: session"
  note defs = authInterceptor_def getRequestToken_def read_token_def getAccessToken_def truthy_def unreachable_env_def
    isTokenExpired_def REQUEST_TOKEN_EXPIRY_BUFFER_MS_def setAuthorizationHeader_def send_def await_def
    shouldHandleUnauthenticatedRetry_def retry_request_def refreshAndGetAccessToken_def doRefreshAccessToken_def
    redirect_on_failure_def clearAccessToken_def hasStoredToken_def Let_def u
  have first: "authInterceptor unreachable_env ?req signed_in =
      (Inl (Connect_Error (Other_code 14)), \<lparr>n_now = 0, n_session = ?out,
        n_log = [Sent (?req\<lparr>rh_authorization := Some ''Bearer old''\<rparr>), Refresh_Sent, Redirected u]\<rparr>)"
    by (simp add: defs signed_in_def)
  have second: "authInterceptor unreachable_env ?req \<lparr>n_now = 0, n_session = ?out, n_log = l\<rparr> =
      (Inl (Connect_Error (Other_code 14)), \<lparr>n_now = 0, n_session = ?out, n_log = l @ [Sent ?req, Refresh_Sent, Redirected u]\<rparr>)" for l
    by (simp add: defs)
  show ?thesis
    using at_once.one_or_two_calls [OF first second] by (simp add: shouldRetry_def redirects_def)
qed

end
