(* ===== verification/Spec2Isabelle.thy ===== *)
theory Spec2Isabelle
  imports JsBase Proto Mdast MarkdownTasks TaskActions ListDetection Outline Tags Mentions EditorSyntax
    Attachments Json EditorState DraftCache MemoService AuthFlow AuthTokens Queries LiveRefresh MemoFilters
    MemoLists AudioRecorder ProtoInstance AttachmentLibrary Calendar Gregorian JsonWriter
    ViewSettings Routing ContentSafety IdentityProviders AISettings
    MediaPreview TagSettings SettingForms Shortcuts PlainEditor EditorRecording Webhooks Members AccessTokens
    InstanceSettings QueryKeys AuthSession TagTree Appearance MusicPlayer PlayerSafety MemoActions RequestRetry
begin

text \<open>
  A verification library for the web client of the note-taking application (the directory
  \<^verbatim>\<open>web/src\<close>, TypeScript). The client edits memos written in Markdown, keeps drafts and cached
  queries in the browser, and talks to the server through one API client. The library models the
  client's own logic; what React, the query library, the Markdown parser, the browser and the server
  do is an argument of the definitions that use it, or an event of a step function.

  \<^bold>\<open>Prelude.\<close> \<^verbatim>\<open>JsBase\<close>: the string and array operations of the language on the characters of
  one unit below 256, numbers in decimal, deduplication, and two interfaces: \<open>ordered_map\<close> (the laws of
  an insertion-ordered map, met by association lists) and \<open>machine\<close> (a step function with an invariant,
  whose runs keep it). \<^verbatim>\<open>Json\<close>: \<open>JSON.parse\<close> and \<open>JSON.stringify\<close> of a text; the parser recurses on fuel,
  and \<open>2 * length + 2\<close> is proved enough, since every successful step uses up a character.
  \<^verbatim>\<open>Proto\<close>: the API's messages as records and \<open>Partial<Memo>\<close> as a patch. \<^verbatim>\<open>Mdast\<close>: the
  Markdown syntax tree and the text a reader sees of it.

  \<^bold>\<open>Markdown.\<close> \<^verbatim>\<open>MarkdownTasks\<close>, \<^verbatim>\<open>Outline\<close> (\<^verbatim>\<open>utils/markdown-manipulation.ts\<close>),
  \<^verbatim>\<open>TaskActions\<close> (\<^verbatim>\<open>utils/markdown-task-actions.ts\<close>) and \<^verbatim>\<open>ListDetection\<close>
  (\<^verbatim>\<open>utils/markdown-list-detection.ts\<close>): edits of task lists, anchors of headings, continuation of
  lists. The lemmas show that edits touch checkbox marks only and do what was asked. \<^verbatim>\<open>Tags\<close>,
  \<^verbatim>\<open>Mentions\<close>, \<^verbatim>\<open>EditorSyntax\<close>: the grammars of tags and mentions in the renderer
  (\<^verbatim>\<open>utils/remark-plugins\<close>) and in the editor (\<^verbatim>\<open>components/MemoEditor/Editor\<close>); the lemmas
  compare both lexers, show that no text is lost, and that escaped text is rendered as it was.
  \<^verbatim>\<open>Attachments\<close>: the classification of files, live photos, and the gallery.

  \<^bold>\<open>The editor.\<close> \<^verbatim>\<open>EditorState\<close> (\<^verbatim>\<open>components/MemoEditor/state\<close>: reducer and the check before a save),
  \<^verbatim>\<open>DraftCache\<close> (\<^verbatim>\<open>services/cacheService.ts\<close>, \<^verbatim>\<open>hooks/useAutoSave.ts\<close>: drafts with their timers, refining a plain map
  of drafts), \<^verbatim>\<open>MemoService\<close> (\<^verbatim>\<open>services/memoService.ts\<close>: uploads, the update mask, saving, and the editor as a whole
  around a save), \<^verbatim>\<open>PlainEditor\<close> (\<^verbatim>\<open>PlainEditor/index.tsx\<close>: the text area behind the editor's handle),
  \<^verbatim>\<open>AudioRecorder\<close> (\<^verbatim>\<open>hooks/useAudioRecorder.ts\<close>: a step relation over clicks and answers of the browser, with an
  executable function for its runs) and \<^verbatim>\<open>EditorRecording\<close> (\<^verbatim>\<open>index.tsx\<close>: recorder, transcription, store and save
  composed). The lemmas show which fields a save sends, that no draft and no recording is lost, and when not.

  \<^bold>\<open>Sessions and the API.\<close> \<^verbatim>\<open>AuthFlow\<close> (redirect targets, OAuth state), \<^verbatim>\<open>AuthTokens\<close> (\<^verbatim>\<open>auth-state.ts\<close>,
  \<^verbatim>\<open>connect.ts\<close>: tokens in several tabs, the single refresh, and the interceptor as a program over a log of what it
  sends), \<^verbatim>\<open>RequestRetry\<close> (\<^verbatim>\<open>lib/query-client.ts\<close>: the retries of a query around the interceptor, counted) and
  \<^verbatim>\<open>AuthSession\<close> (\<^verbatim>\<open>contexts/AuthContext.tsx\<close>, \<^verbatim>\<open>pages/AuthCallback.tsx\<close>: the session over all
  interleavings of sign-ins, sign-outs and refetches). \<^verbatim>\<open>Routing\<close> (\<^verbatim>\<open>router\<close> and
  the links that change filters): navigation with redirects as a function proved to end.

  \<^bold>\<open>Memos on the page.\<close> \<^verbatim>\<open>Queries\<close> (\<^verbatim>\<open>hooks/useMemoQueries.ts\<close>): the optimistic update of cached memos and its
  rollback over a query client; the locale \<open>query_cache\<close> states the client's documented behaviour, and a client kept
  as a list is an instance. \<^verbatim>\<open>QueryKeys\<close>: the keys of all queries and what each determines. \<^verbatim>\<open>LiveRefresh\<close>
  (\<^verbatim>\<open>hooks/useLiveMemoRefresh.ts\<close>): the stream of server events and the life cycle of its connections, as a step
  function over all orders of events. \<^verbatim>\<open>MemoFilters\<close> and \<^verbatim>\<open>MemoLists\<close>: the filters of a list in the address and as an
  expression, the order of the list, counts and relations. \<^verbatim>\<open>TagTree\<close> (tags as a tree, tag patterns),
  \<^verbatim>\<open>Calendar\<close> and \<^verbatim>\<open>Gregorian\<close> (the activity calendar, on a calendar of its own that is proved), \<^verbatim>\<open>MemoActions\<close> (menu
  and reactions), \<^verbatim>\<open>AttachmentLibrary\<close> (the page of attachments and the deletion of unused ones), \<^verbatim>\<open>MediaPreview\<close>
  (preview, zoom, and moving attachments in the editor), \<^verbatim>\<open>ContentSafety\<close> (frames, folding, code, colours),
  \<^verbatim>\<open>Shortcuts\<close> (page and sidebar), \<^verbatim>\<open>MusicPlayer\<close> and \<^verbatim>\<open>PlayerSafety\<close> (the embedded player and the addresses it plays).

  \<^bold>\<open>Settings.\<close> \<^verbatim>\<open>ProtoInstance\<close> and \<^verbatim>\<open>InstanceSettings\<close> (messages and context of the instance), \<^verbatim>\<open>SettingForms\<close>
  (sections for storage, mails, memos and the instance; the locale \<open>setting_section\<close> is what the shared updater
  promises each of them, and all four are instances), \<^verbatim>\<open>TagSettings\<close>, \<^verbatim>\<open>IdentityProviders\<close>, \<^verbatim>\<open>AISettings\<close>, \<^verbatim>\<open>Webhooks\<close>,
  \<^verbatim>\<open>Members\<close>, \<^verbatim>\<open>AccessTokens\<close> (their
  sections with dialogs), \<^verbatim>\<open>Appearance\<close> (themes and locales), \<^verbatim>\<open>ViewSettings\<close> with \<^verbatim>\<open>JsonWriter\<close> (the view in local storage,
  written as JSON and read back).

  Asynchronous code is modelled between its \<open>await\<close>s: each piece that runs without interruption is one
  definition, and the pieces of different calls interleave as events. Timers and connections are
  numbered in the order of their creation. Local storage that cannot be used is a value of its type. Step functions
  run through \<open>foldl\<close>; a property of all runs rests on an interpretation of \<open>machine\<close> or on an induction of the
  same form. Messages to the user are the keys of their translations.

  \<^bold>\<open>Not modelled.\<close> Characters are single units below 256, so classes of letters beyond Latin-1 are cut to
  that range; numbers are unbounded integers, dates are milliseconds. Rendering and styles, and the React components
  beyond the handlers and effects named; the extensions of the editor library, whose documents and
  transactions are that library's; the generated message descriptors and the wire format; drawing (the waveform,
  the share image's layout, maps); and the server (Go) and the desktop shell, which are programs of their own.
\<close>

end
